(* ===== verification/Go_Prelude.thy ===== *)
theory Go_Prelude
  imports Main "HOL-Library.Word" "HOL-Library.AList" "HOL-Library.Char_ord"
    "HOL-Library.List_Lexorder" "HOL-Library.Product_Lexorder"
begin

text \<open>
  The shared ground of the development: what the model uses of the Go language and of its standard
  library, and the generic lemmas the components share.

  \<^item> \<open>wrap64\<close> is the two's complement reading of an integer at the width of Go's \<open>int64\<close> (and of
    \<open>int\<close> on the 64-bit targets of the repository). Instants and durations are HOL integers, and
    every sum and difference the source computes goes through \<open>wrap64\<close>.
  \<^item> \<open>res\<close> is the outcome of a Go call: a value, a non-nil error, or a panic.
  \<^item> Go strings are byte sequences, and so is \<open>string\<close>: a \<open>char\<close> is one byte.
  \<^item> A Go map is an association list with distinct keys: the source iterates over some maps, and the
    list makes the iteration executable. That a result does not depend on the iteration order is a
    lemma, not an assumption.
  \<^item> \<open>rexp\<close> is the fragment of package \<open>regexp\<close> the source uses, matched by derivatives.
\<close>

named_theorems go_defs \<open>definitions of the model unfolded by the component proofs\<close>
named_theorems go_inv \<open>preservation of the component invariants\<close>

section \<open>Integers of 64 bits\<close>

definition wrap64 :: "int \<Rightarrow> int" where
  "wrap64 x = (x + 2 ^ 63) mod 2 ^ 64 - 2 ^ 63"

definition int64 :: "int \<Rightarrow> bool" where
  "int64 x \<longleftrightarrow> - (2 ^ 63) \<le> x \<and> x < 2 ^ 63"

definition max_int64 :: int where
  "max_int64 = 2 ^ 63 - 1"

lemma wrap64_int64 [simp]: "int64 (wrap64 x)"
proof -
  have "0 \<le> (x + 2 ^ 63) mod 2 ^ 64" "(x + 2 ^ 63) mod 2 ^ 64 < (2 ^ 64 :: int)"
    by simp_all
  then show ?thesis
    by (simp add: wrap64_def int64_def)
qed

lemma wrap64_id [simp]: "int64 x \<Longrightarrow> wrap64 x = x"
  by (simp add: wrap64_def int64_def)

lemma wrap64_over: "int64 x \<Longrightarrow> int64 y \<Longrightarrow> 2 ^ 63 \<le> x + y \<Longrightarrow> wrap64 (x + y) = x + y - 2 ^ 64"
proof -
  assume xy: "int64 x" "int64 y" "2 ^ 63 \<le> x + y"
  have "(x + y + 2 ^ 63) mod 2 ^ 64 = (x + y + 2 ^ 63 - 2 ^ 64) mod (2 ^ 64 :: int)"
    by (rule minus_mod_self2 [symmetric])
  also have "\<dots> = x + y + 2 ^ 63 - 2 ^ 64"
    using xy by (intro mod_pos_pos_trivial) (simp_all add: int64_def)
  finally show ?thesis
    by (simp add: wrap64_def)
qed

lemma wrap64_under: "int64 x \<Longrightarrow> int64 y \<Longrightarrow> x + y < - (2 ^ 63) \<Longrightarrow> wrap64 (x + y) = x + y + 2 ^ 64"
proof -
  assume xy: "int64 x" "int64 y" "x + y < - (2 ^ 63)"
  have "(x + y + 2 ^ 63) mod 2 ^ 64 = (x + y + 2 ^ 63 + 2 ^ 64) mod (2 ^ 64 :: int)"
    by (rule mod_add_self2 [symmetric])
  also have "\<dots> = x + y + 2 ^ 63 + 2 ^ 64"
    using xy by (intro mod_pos_pos_trivial) (simp_all add: int64_def)
  finally show ?thesis
    by (simp add: wrap64_def)
qed

text \<open>Go's remainder truncates towards zero: the result has the sign of the dividend.\<close>

definition go_rem :: "int \<Rightarrow> int \<Rightarrow> int" where
  "go_rem a b = sgn a * (\<bar>a\<bar> mod \<bar>b\<bar>)"

lemma go_rem_nonneg: "0 \<le> a \<Longrightarrow> 0 < b \<Longrightarrow> go_rem a b = a mod b"
  by (cases "a = 0") (simp_all add: go_rem_def)

section \<open>Outcomes of a call\<close>

datatype ('e, 'a) res = Ok 'a | Err 'e | Panic string

fun res_bind :: "('e, 'a) res \<Rightarrow> ('a \<Rightarrow> ('e, 'b) res) \<Rightarrow> ('e, 'b) res" where
  "res_bind (Ok a) f = f a"
| "res_bind (Err e) f = Err e"
| "res_bind (Panic m) f = Panic m"

fun res_map :: "('a \<Rightarrow> 'b) \<Rightarrow> ('e, 'a) res \<Rightarrow> ('e, 'b) res" where
  "res_map f (Ok a) = Ok (f a)"
| "res_map f (Err e) = Err e"
| "res_map f (Panic m) = Panic m"

fun res_map_err :: "('e \<Rightarrow> 'f) \<Rightarrow> ('e, 'a) res \<Rightarrow> ('f, 'a) res" where
  "res_map_err f (Ok a) = Ok a"
| "res_map_err f (Err e) = Err (f e)"
| "res_map_err f (Panic m) = Panic m"

lemma res_bind_eq_Ok [simp]: "res_bind r f = Ok b \<longleftrightarrow> (\<exists>a. r = Ok a \<and> f a = Ok b)"
  by (cases r) auto

lemma res_map_eq_Ok [simp]: "res_map f r = Ok b \<longleftrightarrow> (\<exists>a. r = Ok a \<and> b = f a)"
  by (cases r) auto

lemma res_map_err_eq_Ok [simp]: "res_map_err f r = Ok b \<longleftrightarrow> r = Ok b"
  by (cases r) auto

lemma res_map_err_eq_Err [simp]: "res_map_err f r = Err e \<longleftrightarrow> (\<exists>e'. r = Err e' \<and> e = f e')"
  by (cases r) auto

section \<open>Go maps as association lists\<close>

lemmas alist_simps [simp] = update_conv' distinct_update

lemma map_of_filter_keys:
  "map_of (filter (\<lambda>(k, v). P k) xs) = (\<lambda>k. if P k then map_of xs k else None)"
  by (induction xs) (auto simp: fun_eq_iff)

lemma map_of_eq_set_eq:
  assumes "distinct (map fst xs)" "distinct (map fst ys)" "map_of xs = map_of ys"
  shows "set xs = set ys"
proof -
  have "(k, v) \<in> set xs \<longleftrightarrow> (k, v) \<in> set ys" for k v
    using assms by (metis map_of_eq_Some_iff)
  then show ?thesis
    by auto
qed

lemma map_of_map_snd: "map_of (map (\<lambda>(k, v). (k, f v)) xs) = map_option f \<circ> map_of xs"
  by (induction xs) (auto simp: fun_eq_iff)

lemma map_fst_map_snd [simp]: "map fst (map (\<lambda>(k, v). (k, f v)) xs) = map fst xs"
  by (induction xs) auto

lemma fst_comp_map_snd [simp]: "fst \<circ> (\<lambda>(k, v). (k, f v)) = fst" "fst \<circ> (\<lambda>(k, v). (k, g k v)) = fst"
  by (auto simp: fun_eq_iff)

section \<open>Strings\<close>

definition has_prefix :: "string \<Rightarrow> string \<Rightarrow> bool" where
  "has_prefix s p \<longleftrightarrow> take (length p) s = p"

text \<open>\<open>strings.Split\<close> on a separator of one byte: always at least one segment.\<close>

fun split_on :: "char \<Rightarrow> string \<Rightarrow> string list" where
  "split_on c [] = [[]]"
| "split_on c (x # xs) =
     (if x = c then [] # split_on c xs
      else (case split_on c xs of [] \<Rightarrow> [[x]] | s # ss \<Rightarrow> (x # s) # ss))"

lemma split_on_not_Nil [simp]: "split_on c s \<noteq> []"
  by (induction s) (auto split: list.splits)

lemma split_on_no_sep: "c \<notin> set s \<Longrightarrow> split_on c s = [s]"
  by (induction s) auto

lemma split_on_append: "c \<notin> set s \<Longrightarrow> split_on c (s @ c # t) = s # split_on c t"
  by (induction s) auto

text \<open>A separator that does not occur in the first part makes concatenation injective.\<close>

lemma append_sep_inject:
  assumes "c \<notin> set a" "c \<notin> set a'" "a @ c # b = a' @ c # b'"
  shows "a = a' \<and> b = b'"
  using assms
proof (induction a arbitrary: a')
  case Nil
  then show ?case by (cases a') auto
next
  case (Cons x a)
  then show ?case by (cases a') auto
qed

lemma append_sep_inject_last:
  assumes "c \<notin> set b" "c \<notin> set b'" "a @ c # b = a' @ c # b'"
  shows "a = a' \<and> b = b'"
proof -
  have "rev b @ c # rev a = rev b' @ c # rev a'"
    using arg_cong [OF assms(3), of rev] by simp
  then have "rev b = rev b' \<and> rev a = rev a'"
    using assms(1,2) by (intro append_sep_inject) auto
  then show ?thesis
    by simp
qed

text \<open>Decimal rendering of a non-negative integer, as \<open>strconv.Itoa\<close> writes it.\<close>

fun itoa :: "nat \<Rightarrow> string" where
  "itoa n = (if n < 10 then [char_of (48 + n)] else itoa (n div 10) @ [char_of (48 + n mod 10)])"

declare itoa.simps [simp del]

definition itoa_int :: "int \<Rightarrow> string" where
  "itoa_int i = (if i < 0 then ''-'' @ itoa (nat (- i)) else itoa (nat i))"

text \<open>The verb \<open>%06d\<close> pads with zeroes to six places and never truncates.\<close>

definition pad6 :: "nat \<Rightarrow> string" where
  "pad6 n = replicate (6 - length (itoa n)) (CHR ''0'') @ itoa n"

fun digits_val :: "nat \<Rightarrow> string \<Rightarrow> nat" where
  "digits_val acc [] = acc"
| "digits_val acc (c # cs) = digits_val (10 * acc + (of_char c - 48)) cs"

lemma digits_val_append: "digits_val acc (s @ t) = digits_val (digits_val acc s) t"
  by (induction s arbitrary: acc) auto

lemma of_char_char_of_digit: "d < 10 \<Longrightarrow> of_char (char_of (48 + d)) = (48 + d :: nat)"
  by (simp add: of_char_of)

lemma digits_val_itoa: "digits_val 0 (itoa n) = n"
proof (induction n rule: itoa.induct)
  case (1 n)
  show ?case
  proof (cases "n < 10")
    case True
    then show ?thesis
      by (simp add: itoa.simps [of n])
  next
    case False
    with "1" have "digits_val 0 (itoa (n div 10)) = n div 10"
      by simp
    with False show ?thesis
      by (simp add: itoa.simps [of n] digits_val_append)
  qed
qed

lemma itoa_inject: "itoa m = itoa n \<longleftrightarrow> m = n"
  by (metis digits_val_itoa)

lemma digits_val_zeros: "digits_val 0 (replicate k (CHR ''0'') @ s) = digits_val 0 s"
  by (induction k) auto

lemma pad6_inject: "pad6 m = pad6 n \<longleftrightarrow> m = n"
  by (metis pad6_def digits_val_zeros digits_val_itoa)

end
