(* ===== verification/Go_Regexp.thy ===== *)
theory Go_Regexp
  imports Go_Prelude
begin

text \<open>
  The fragment of Go's package \<open>regexp\<close> the repository uses: anchored patterns (\<open>^...$\<close>) built from
  character classes, concatenation, star, plus and bounded repetition. \<open>lang\<close> is the language of a
  pattern, \<open>match_string\<close> decides membership by derivatives, and \<open>match_string_iff\<close> proves that the
  two agree. Without the flag \<open>m\<close>, \<open>$\<close> matches only at the end of the text, so an anchored pattern
  matches exactly the strings of its language.
\<close>

datatype rexp =
    Zero
  | One
  | Class "char \<Rightarrow> bool"
  | Cat rexp rexp
  | Alt rexp rexp
  | Star rexp

definition chr_range :: "char \<Rightarrow> char \<Rightarrow> char \<Rightarrow> bool" where
  "chr_range lo hi c \<longleftrightarrow> lo \<le> c \<and> c \<le> hi"

definition Lit :: "char \<Rightarrow> rexp" where
  "Lit c = Class (\<lambda>x. x = c)"

definition Plus :: "rexp \<Rightarrow> rexp" where
  "Plus r = Cat r (Star r)"

text \<open>\<open>r{0,n}\<close>, and \<open>r{1,n}\<close> for a positive \<open>n\<close>.\<close>

primrec Upto :: "rexp \<Rightarrow> nat \<Rightarrow> rexp" where
  "Upto r 0 = One"
| "Upto r (Suc n) = Alt One (Cat r (Upto r n))"

definition OneTo :: "rexp \<Rightarrow> nat \<Rightarrow> rexp" where
  "OneTo r n = Cat r (Upto r (n - 1))"

section \<open>Languages\<close>

definition conc :: "string set \<Rightarrow> string set \<Rightarrow> string set" where
  "conc A B = {u @ v | u v. u \<in> A \<and> v \<in> B}"

inductive_set star :: "string set \<Rightarrow> string set" for A where
  star_Nil: "[] \<in> star A"
| star_Cat: "u \<in> A \<Longrightarrow> v \<in> star A \<Longrightarrow> u @ v \<in> star A"

primrec lang :: "rexp \<Rightarrow> string set" where
  "lang Zero = {}"
| "lang One = {[]}"
| "lang (Class p) = {[c] | c. p c}"
| "lang (Cat r s) = conc (lang r) (lang s)"
| "lang (Alt r s) = lang r \<union> lang s"
| "lang (Star r) = star (lang r)"

section \<open>Matching\<close>

primrec nullable :: "rexp \<Rightarrow> bool" where
  "nullable Zero = False"
| "nullable One = True"
| "nullable (Class p) = False"
| "nullable (Cat r s) = (nullable r \<and> nullable s)"
| "nullable (Alt r s) = (nullable r \<or> nullable s)"
| "nullable (Star r) = True"

primrec deriv :: "char \<Rightarrow> rexp \<Rightarrow> rexp" where
  "deriv c Zero = Zero"
| "deriv c One = Zero"
| "deriv c (Class p) = (if p c then One else Zero)"
| "deriv c (Cat r s) =
     (if nullable r then Alt (Cat (deriv c r) s) (deriv c s) else Cat (deriv c r) s)"
| "deriv c (Alt r s) = Alt (deriv c r) (deriv c s)"
| "deriv c (Star r) = Cat (deriv c r) (Star r)"

primrec match_string :: "rexp \<Rightarrow> string \<Rightarrow> bool" where
  "match_string r [] = nullable r"
| "match_string r (c # s) = match_string (deriv c r) s"

section \<open>The matcher decides the language\<close>

lemma nullable_iff: "nullable r \<longleftrightarrow> [] \<in> lang r"
  by (induction r) (auto simp: conc_def intro: star.intros)

lemma star_Cons:
  assumes "w \<in> star A" "w = c # s"
  shows "\<exists>u v. c # u \<in> A \<and> v \<in> star A \<and> s = u @ v"
  using assms
proof (induction arbitrary: s rule: star.induct)
  case star_Nil
  then show ?case by simp
next
  case (star_Cat u v)
  then show ?case
    by (cases u) auto
qed

lemma star_Cons_iff:
  "c # s \<in> star A \<longleftrightarrow> (\<exists>u v. c # u \<in> A \<and> v \<in> star A \<and> s = u @ v)"
  using star_Cons star.star_Cat by fastforce

lemma conc_Cons_iff:
  "c # s \<in> conc A B \<longleftrightarrow>
     (\<exists>u v. s = u @ v \<and> c # u \<in> A \<and> v \<in> B) \<or> ([] \<in> A \<and> c # s \<in> B)"
  by (auto simp: conc_def Cons_eq_append_conv)

lemma conc_iff: "s \<in> conc A B \<longleftrightarrow> (\<exists>u v. s = u @ v \<and> u \<in> A \<and> v \<in> B)"
  by (auto simp: conc_def)

lemma conc_epsilon [simp]: "conc A {[]} = A" "conc {[]} A = A"
  by (auto simp: conc_def)

lemma conc_Un: "conc A (B \<union> C) = conc A B \<union> conc A C"
  by (auto simp: conc_def)

lemma conc_empty [simp]: "conc A {} = {}" "conc {} A = {}"
  by (auto simp: conc_def)

lemma conc_insert_Nil: "conc A (insert [] B) = A \<union> conc A B"
  by (auto simp: conc_def)

lemma conc_single: "x \<in> conc {u} A \<longleftrightarrow> (\<exists>y \<in> A. x = u @ y)"
  by (auto simp: conc_def)

lemma conc_conc_single: "x \<in> conc (conc {a} T) V \<longleftrightarrow> (\<exists>s \<in> T. \<exists>v \<in> V. x = a @ s @ v)"
proof
  assume "x \<in> conc (conc {a} T) V"
  then obtain u v s where "x = u @ v" "v \<in> V" "s \<in> T" "u = a @ s"
    unfolding conc_iff [of x] conc_single by blast
  then show "\<exists>s \<in> T. \<exists>v \<in> V. x = a @ s @ v" by auto
next
  assume "\<exists>s \<in> T. \<exists>v \<in> V. x = a @ s @ v"
  then obtain s v where "s \<in> T" "v \<in> V" "x = (a @ s) @ v" by auto
  then show "x \<in> conc (conc {a} T) V"
    unfolding conc_iff [of x] conc_single by blast
qed

lemma deriv_iff: "s \<in> lang (deriv c r) \<longleftrightarrow> c # s \<in> lang r"
proof (induction r arbitrary: s)
  case (Cat r1 r2)
  then show ?case
    by (auto simp: conc_Cons_iff conc_iff [of s] nullable_iff)
next
  case (Star r)
  then show ?case
    by (auto simp: star_Cons_iff conc_iff [of s])
qed auto

theorem match_string_iff: "match_string r s \<longleftrightarrow> s \<in> lang r"
  by (induction s arbitrary: r) (auto simp: nullable_iff deriv_iff)

section \<open>Bounded repetition of a class\<close>

lemma conc_Class_Cons [simp]: "a # s \<in> conc {[c] | c. p c} B \<longleftrightarrow> p a \<and> s \<in> B"
  by (auto simp: conc_Cons_iff)

lemma conc_Class_Nil [simp]: "[] \<notin> conc {[c] | c. p c} B"
  by (auto simp: conc_def)

lemma lang_Upto_Class:
  "s \<in> lang (Upto (Class p) n) \<longleftrightarrow> length s \<le> n \<and> list_all p s"
proof (induction n arbitrary: s)
  case 0
  then show ?case by auto
next
  case (Suc n)
  show ?case
    by (cases s) (auto simp: Suc)
qed

lemma match_OneTo_Class:
  "0 < n \<Longrightarrow> match_string (OneTo (Class p) n) s \<longleftrightarrow> 1 \<le> length s \<and> length s \<le> n \<and> list_all p s"
  by (cases s) (auto simp: match_string_iff OneTo_def lang_Upto_Class)

lemma lang_Plus_Class: "s \<in> star {[c] | c. p c} \<longleftrightarrow> list_all p s"
proof
  assume "s \<in> star {[c] | c. p c}"
  then show "list_all p s"
    by (induction rule: star.induct) auto
next
  assume "list_all p s"
  then show "s \<in> star {[c] | c. p c}"
  proof (induction s)
    case Nil
    show ?case by (rule star.star_Nil)
  next
    case (Cons c s)
    then have "[c] @ s \<in> star {[c] | c. p c}"
      by (intro star.star_Cat) auto
    then show ?case by simp
  qed
qed

end
