(* ===== verification/Domain_Kernel.thy ===== *)
theory Domain_Kernel
  imports Go_Regexp
begin

text \<open>
  The domain kernel, \<^verbatim>\<open>libs/backend/go/domain\<close>: the outcome of a unit of processing (UPR), which is
  either an accepting branch with a response and a closed sequence of events or a typed rejection,
  and the cycle \<open>DecideOver\<close> that decides over a copy of the aggregate and installs it only on
  acceptance.

  A Go function returning \<open>(Accepted[R], *Rejection)\<close> with exactly one of the two set is a value of
  the sum \<open>rejection + accepted\<close>. The pointer \<open>*A\<close> that \<open>DecideOver\<close> writes through is explicit
  state: the function takes the aggregate and returns the one the pointer holds afterwards.
  Slices are HOL lists, so the copies the source makes (\<open>slices.Clone\<close>) are the lists themselves.
\<close>

section \<open>Values\<close>

type_synonym Instant = int

record Detail =
  det_Key :: string
  det_Value :: string

record Rejection =
  rej_code :: string
  rej_message :: string
  rej_details :: "Detail list"

record ('r, 'e) Accepted =
  acc_response :: 'r
  acc_events :: "'e list"

type_synonym ('r, 'e) decision = "Rejection + ('r, 'e) Accepted"

definition Accept :: "'r \<Rightarrow> 'e list \<Rightarrow> ('r, 'e) Accepted" where
  "Accept r es = \<lparr>acc_response = r, acc_events = es\<rparr>"

definition Events :: "('r, 'e) Accepted \<Rightarrow> 'e list" where
  "Events a = acc_events a"

definition Reject :: "string \<Rightarrow> string \<Rightarrow> Detail list \<Rightarrow> Rejection" where
  "Reject c m ds = \<lparr>rej_code = c, rej_message = m, rej_details = ds\<rparr>"

definition Refuse :: "string \<Rightarrow> string \<Rightarrow> Detail list \<Rightarrow> ('r, 'e) decision" where
  "Refuse c m ds = Inl (Reject c m ds)"

text \<open>The rendering of a rejection as an error, \<open>"%s: %s"\<close>.\<close>

definition Rejection_Error :: "Rejection \<Rightarrow> string" where
  "Rejection_Error r = rej_code r @ '': '' @ rej_message r"

section \<open>Codes\<close>

definition lower :: "char \<Rightarrow> bool" where
  "lower c \<longleftrightarrow> chr_range (CHR ''a'') (CHR ''z'') c"

definition lower_digit :: "char \<Rightarrow> bool" where
  "lower_digit c \<longleftrightarrow> lower c \<or> chr_range (CHR ''0'') (CHR ''9'') c"

text \<open>\<open>[a-z][a-z0-9]*(-[a-z0-9]+)*\<close>\<close>

definition code_segment :: rexp where
  "code_segment =
     Cat (Class lower) (Cat (Star (Class lower_digit))
       (Star (Cat (Lit (CHR ''-'')) (Plus (Class lower_digit)))))"

definition codePattern :: rexp where
  "codePattern = Cat code_segment (OneTo (Cat (Lit (CHR ''/'')) code_segment) 2)"

definition Code_Valid :: "string \<Rightarrow> bool" where
  "Code_Valid c = match_string codePattern c"

section \<open>Deciding over a copy\<close>

definition DecideOver ::
    "('a \<Rightarrow> 'a) \<Rightarrow> ('a \<Rightarrow> 'a \<times> ('r, 'e) decision) \<Rightarrow> 'a \<Rightarrow> 'a \<times> ('r, 'e) decision" where
  "DecideOver copyOf decide target =
     (let next = copyOf target in
      case decide next of
        (_, Inl rejection) \<Rightarrow> (target, Inl rejection)
      | (next', Inr accepted) \<Rightarrow> (next', Inr accepted))"

lemma DecideOver_refused:
  "snd (DecideOver copyOf decide t) = Inl r \<Longrightarrow> fst (DecideOver copyOf decide t) = t"
  by (auto simp: DecideOver_def Let_def split: prod.splits sum.splits)

lemma DecideOver_accepted:
  "snd (DecideOver copyOf decide t) = Inr a \<Longrightarrow> DecideOver copyOf decide t = decide (copyOf t)"
  by (auto simp: DecideOver_def Let_def split: prod.splits sum.splits)

text \<open>
  The domain interface the use cases rely on: a UPR that never touches the aggregate it refuses over
  (DEC-10). An aggregate's operations are its interpretations.
\<close>

locale upr =
  fixes decide :: "'a \<Rightarrow> 'a \<times> ('r, 'e) decision"
  assumes refused_keeps: "snd (decide a) = Inl r \<Longrightarrow> fst (decide a) = a"
begin

lemma changed_accepts: "fst (decide a) \<noteq> a \<Longrightarrow> \<exists>acc. snd (decide a) = Inr acc"
  using refused_keeps by (cases "snd (decide a)") auto

lemma refused_twice:
  assumes "snd (decide a) = Inl r"
  shows "decide (fst (decide a)) = decide a"
  using refused_keeps [OF assms] by simp

end

text \<open>Everything built with \<open>DecideOver\<close> is such an operation, whatever the closure does to its copy.\<close>

interpretation decide_over: upr "DecideOver copyOf decide"
  by unfold_locales (rule DecideOver_refused)

section \<open>Codes: the pattern spelled out\<close>

lemma code_segment_Nil [simp]: "[] \<notin> lang code_segment"
  by (simp add: code_segment_def)

lemma code_segment_Cons:
  "c # s \<in> lang code_segment \<longleftrightarrow> lower c \<and>
     (\<exists>h t. s = h @ t \<and> list_all lower_digit h \<and>
        t \<in> star (conc {''-''} (conc {[c] | c. lower_digit c} (star {[c] | c. lower_digit c}))))"
  by (simp add: code_segment_def conc_iff [of s] lang_Plus_Class Plus_def Lit_def)

lemma star_conc_chars:
  assumes "t \<in> star (conc {''-''} (conc {[c] | c. p c} (star {[c] | c. p c})))"
  shows "set t \<subseteq> insert (CHR ''-'') {c. p c}"
  using assms
proof (induction rule: star.induct)
  case star_Nil
  then show ?case by simp
next
  case (star_Cat u v)
  then show ?case
    by (auto simp: conc_iff lang_Plus_Class list_all_iff)
qed

lemma code_segment_chars:
  "s \<in> lang code_segment \<Longrightarrow> set s \<subseteq> insert (CHR ''-'') {c. lower_digit c}"
proof (cases s)
  case (Cons c s')
  assume "s \<in> lang code_segment"
  then obtain h t where "lower c" "s' = h @ t" "list_all lower_digit h"
      "set t \<subseteq> insert (CHR ''-'') {c. lower_digit c}"
    unfolding Cons code_segment_Cons using star_conc_chars by blast
  then show ?thesis
    by (auto simp: Cons list_all_iff lower_digit_def)
qed simp

lemma slash_not_lower_digit [simp]: "\<not> lower_digit (CHR ''/'')"
  by (simp add: lower_digit_def lower_def chr_range_def)

lemma code_segment_no_slash: "s \<in> lang code_segment \<Longrightarrow> CHR ''/'' \<notin> set s"
  using code_segment_chars by fastforce

lemma lang_codePattern:
  "lang codePattern =
     conc (lang code_segment) (conc {''/''} (lang code_segment)) \<union>
     conc (lang code_segment)
       (conc (conc {''/''} (lang code_segment)) (conc {''/''} (lang code_segment)))"
  by (simp add: codePattern_def OneTo_def Lit_def conc_Un conc_insert_Nil numeral_2_eq_2)

lemma codePattern_iff:
  "c \<in> lang codePattern \<longleftrightarrow>
     (\<exists>s1 \<in> lang code_segment. \<exists>s2 \<in> lang code_segment. c = s1 @ ''/'' @ s2) \<or>
     (\<exists>s1 \<in> lang code_segment. \<exists>s2 \<in> lang code_segment. \<exists>s3 \<in> lang code_segment.
        c = s1 @ ''/'' @ s2 @ ''/'' @ s3)"
proof -
  have two: "x \<in> conc S (conc {''/''} T) \<longleftrightarrow> (\<exists>s1 \<in> S. \<exists>s2 \<in> T. x = s1 @ ''/'' @ s2)" for x S T
    unfolding conc_iff [of x] conc_single by blast
  have three: "x \<in> conc S (conc (conc {''/''} T) (conc {''/''} U)) \<longleftrightarrow>
      (\<exists>s1 \<in> S. \<exists>s2 \<in> T. \<exists>s3 \<in> U. x = s1 @ ''/'' @ s2 @ ''/'' @ s3)" for x S T U
    unfolding conc_iff [of x] conc_conc_single Bex_def conc_single by blast
  show ?thesis
    unfolding lang_codePattern Un_iff two three ..
qed

text \<open>
  A valid code is two or three segments separated by slashes, and each segment starts with a letter
  and is free of slashes: the form "context/reason" or "context/aggregate/reason".
\<close>

lemma split_on_join:
  "concat (map (\<lambda>s. s @ [c]) (butlast (split_on c x))) @ last (split_on c x) = x"
  by (induction x) (auto split: list.splits)

lemma Code_Valid_iff:
  "Code_Valid c \<longleftrightarrow>
     length (split_on (CHR ''/'') c) \<in> {2, 3} \<and>
     set (split_on (CHR ''/'') c) \<subseteq> lang code_segment" (is "_ = ?R")
proof
  assume "Code_Valid c"
  then consider s1 s2 where "{s1, s2} \<subseteq> lang code_segment" "c = s1 @ ''/'' @ s2"
    | s1 s2 s3 where "{s1, s2, s3} \<subseteq> lang code_segment" "c = s1 @ ''/'' @ s2 @ ''/'' @ s3"
    unfolding Code_Valid_def match_string_iff codePattern_iff by blast
  then show ?R
    by cases (simp_all add: split_on_append split_on_no_sep code_segment_no_slash)
next
  assume r: ?R
  then consider s1 s2 where "split_on (CHR ''/'') c = [s1, s2]"
    | s1 s2 s3 where "split_on (CHR ''/'') c = [s1, s2, s3]"
    by (auto simp: numeral_eq_Suc length_Suc_conv)
  then show "Code_Valid c"
  proof cases
    case 1
    then have "c = s1 @ ''/'' @ s2" "{s1, s2} \<subseteq> lang code_segment"
      using r split_on_join [of "CHR ''/''" c] by simp_all
    then show ?thesis
      unfolding Code_Valid_def match_string_iff codePattern_iff by blast
  next
    case 2
    then have "c = s1 @ ''/'' @ s2 @ ''/'' @ s3" "{s1, s2, s3} \<subseteq> lang code_segment"
      using r split_on_join [of "CHR ''/''" c] by simp_all
    then show ?thesis
      unfolding Code_Valid_def match_string_iff codePattern_iff by blast
  qed
qed

end
