(* ===== verification/Go_Errors.thy ===== *)
theory Go_Errors
  imports Domain_Kernel
begin

text \<open>
  Errors as values. A Go error is a tree: a sentinel, a typed error of the kernel, a wrapper built by
  \<open>fmt.Errorf\<close> with \<open>%w\<close> verbs or by \<open>errors.Join\<close>, or an error of code outside the repository, of
  which the kernel reads only the interface methods it looks for (\<open>SQLState\<close>, \<open>SafeToRetry\<close>,
  \<open>Timeout\<close>). \<open>err_chain\<close> is the pre-order walk package \<open>errors\<close> makes, \<open>errors_Is\<close> and \<open>errors_As\<close> read
  it. The kernel's classification of errors, \<^verbatim>\<open>libs/backend/go/application/failure.go\<close> and
  \<^verbatim>\<open>disposition.go\<close>, is here because it depends on nothing else.
\<close>

section \<open>The error tree\<close>

text \<open>
  The package-level \<open>errors.New\<close> values, each told apart by its identity. Those of the object store and of
  the packages around the kernel are grouped by package, which keeps the type small.
\<close>

datatype (plugins only: code size) resilience_error =
    R_BreakerOpen | R_BulkheadSaturated | R_DeferIsOutbox | R_WrapsUnitOfWork
  | R_OrderReasonRequired | R_DeadlineExceeded | R_Cancelled | R_BlankField | R_DeadlineComposition

datatype (plugins only: code size) envelope_error =
    E_Modality | E_MissingAttribute | E_EmptyConditional | E_AttributeType | E_SpecVersion
  | E_ContentType | E_SchemaMismatch | E_DataSchemaForm | E_MajorMismatch | E_Malformed

datatype (plugins only: code size) app_error =
    A_IncompleteConsumer | A_SubscriptionOutsideChannel | A_UnknownDisposition
  | A_UnsupportedMechanism | A_Panicked | A_InvalidConfig | A_IncompleteRelay | A_SourceRequired
  | A_PayloadHashMismatch | A_MissingContextAttributes | A_AggregateVersionOutOfRange
  | A_InvalidSweepConfig | A_SweepPanicked | A_InvalidPurgeConfig | A_PurgePanicked

datatype (plugins only: code size) transport_error =
    T_InvalidLimit | T_NoRoutes | T_NoClock | T_NoKeyCeiling | T_NoDeadline | T_DeadlineExhausted

datatype (plugins only: code size) object_error =
    O_ObjectKeyInvalid | O_VersionRequired | O_Integrity | O_RetentionUnbounded
  | O_RetentionAboveCeiling | O_RetentionNotExtended | O_RetentionModeChange
  | O_RetentionModeUnknown | O_ObjectLocked | O_ScopeMismatch | O_ScopeUndeclared
  | O_EncryptionUndeclared | O_RetentionCeilingUndeclared | O_LegalHoldReasonRequired
  | O_IncompleteObjectStore

datatype (plugins only: code size) postgres_error =
    P_EmptyMessageID | P_InvalidDestination | P_UnmappedEvent | P_EmptyMapping | P_DuplicateMessage
  | P_IncompleteStore | P_ClaimIdentityRequired | P_InvalidBatchSize | P_InvalidLease
  | P_PurgeBatchRequired | P_IncompleteAttemptStore | P_TenantUnresolved | P_InboxConsumerRequired
  | P_InboxConsumerMismatch | P_AlreadyCompleted | P_InvalidCompletion | P_CommandExpiryRequired
  | P_InvalidContainment | P_UniqueDivergent | P_GuardValue

datatype (plugins only: code size) broker_error =
    K_AlreadyDisposed | K_SinkPanicked | K_Panicked | K_RevokeStuck | S_AlreadyDisposed | S_SinkPanicked

datatype (plugins only: code size) sentinel =
    Canceled | DeadlineExceeded | ErrNotFound | ErrVersionConflict | ErrAlreadyExists
  | ErrUniqueViolation | ErrContextFieldMissing | ErrContextValueEmpty
  | ErrContextPermissionsMismatch | ErrContextAbsent | ErrDenied | ErrIdempotencyMismatch
  | ErrIdempotencyInFlight | ErrIdempotencyKeyAbsent | ErrIdempotencyKeyInvalid
  | ErrRegisterTimeout | ErrPendingNotCompleted | ErrInvalidAttempt | ErrAttemptUnknown
  | ErrAttemptInFlight | ErrPlatformReachUndeclared | ErrPlatformLimitInvalid | ErrAuditUnavailable
  | ErrProjectionDenied | ErrProjectionDestinationAbsent | ErrTenantUnresolved
  | ErrInboxConsumerRequired | ErrInboxConsumerMismatch | ErrAlreadyCompleted
  | ErrInvalidCompletion | ErrIncompleteAttemptStore | ErrCommandExpiryRequired
  | ErrIncompleteCommand | ErrOutcomeUnreadable | ErrInvalidExternalProfile
  | ErrIncompleteOutboundPolicy | ErrIncompleteOutboundIntent | ErrIncompleteDispatch
  | ErrIncompleteResolution | ErrIncompleteAbandon | ErrAbandonOutsideTenant
  | ResilienceError resilience_error | EnvelopeError envelope_error | AppError app_error | TransportError transport_error | ObjectError object_error | PostgresError postgres_error
  | BrokerError broker_error

abbreviation ErrBreakerOpen :: sentinel where "ErrBreakerOpen \<equiv> ResilienceError R_BreakerOpen"
abbreviation ErrBulkheadSaturated :: sentinel where "ErrBulkheadSaturated \<equiv> ResilienceError R_BulkheadSaturated"
abbreviation ErrDeferIsOutbox :: sentinel where "ErrDeferIsOutbox \<equiv> ResilienceError R_DeferIsOutbox"
abbreviation ErrWrapsUnitOfWork :: sentinel where "ErrWrapsUnitOfWork \<equiv> ResilienceError R_WrapsUnitOfWork"
abbreviation ErrOrderReasonRequired :: sentinel where "ErrOrderReasonRequired \<equiv> ResilienceError R_OrderReasonRequired"
abbreviation ErrDeadlineExceeded :: sentinel where "ErrDeadlineExceeded \<equiv> ResilienceError R_DeadlineExceeded"
abbreviation ErrCancelled :: sentinel where "ErrCancelled \<equiv> ResilienceError R_Cancelled"
abbreviation ErrBlankField :: sentinel where "ErrBlankField \<equiv> ResilienceError R_BlankField"
abbreviation ErrDeadlineComposition :: sentinel where "ErrDeadlineComposition \<equiv> ResilienceError R_DeadlineComposition"

abbreviation ErrModality :: sentinel where "ErrModality \<equiv> EnvelopeError E_Modality"
abbreviation ErrMissingAttribute :: sentinel where "ErrMissingAttribute \<equiv> EnvelopeError E_MissingAttribute"
abbreviation ErrEmptyConditional :: sentinel where "ErrEmptyConditional \<equiv> EnvelopeError E_EmptyConditional"
abbreviation ErrAttributeType :: sentinel where "ErrAttributeType \<equiv> EnvelopeError E_AttributeType"
abbreviation ErrSpecVersion :: sentinel where "ErrSpecVersion \<equiv> EnvelopeError E_SpecVersion"
abbreviation ErrContentType :: sentinel where "ErrContentType \<equiv> EnvelopeError E_ContentType"
abbreviation ErrSchemaMismatch :: sentinel where "ErrSchemaMismatch \<equiv> EnvelopeError E_SchemaMismatch"
abbreviation ErrDataSchemaForm :: sentinel where "ErrDataSchemaForm \<equiv> EnvelopeError E_DataSchemaForm"
abbreviation ErrMajorMismatch :: sentinel where "ErrMajorMismatch \<equiv> EnvelopeError E_MajorMismatch"
abbreviation ErrMalformed :: sentinel where "ErrMalformed \<equiv> EnvelopeError E_Malformed"

abbreviation ErrIncompleteConsumer :: sentinel where "ErrIncompleteConsumer \<equiv> AppError A_IncompleteConsumer"
abbreviation ErrSubscriptionOutsideChannel :: sentinel where "ErrSubscriptionOutsideChannel \<equiv> AppError A_SubscriptionOutsideChannel"
abbreviation ErrUnknownDisposition :: sentinel where "ErrUnknownDisposition \<equiv> AppError A_UnknownDisposition"
abbreviation ErrUnsupportedMechanism :: sentinel where "ErrUnsupportedMechanism \<equiv> AppError A_UnsupportedMechanism"
abbreviation ErrPanicked :: sentinel where "ErrPanicked \<equiv> AppError A_Panicked"
abbreviation ErrInvalidConfig :: sentinel where "ErrInvalidConfig \<equiv> AppError A_InvalidConfig"
abbreviation ErrIncompleteRelay :: sentinel where "ErrIncompleteRelay \<equiv> AppError A_IncompleteRelay"
abbreviation ErrSourceRequired :: sentinel where "ErrSourceRequired \<equiv> AppError A_SourceRequired"
abbreviation ErrPayloadHashMismatch :: sentinel where "ErrPayloadHashMismatch \<equiv> AppError A_PayloadHashMismatch"
abbreviation ErrMissingContextAttributes :: sentinel where "ErrMissingContextAttributes \<equiv> AppError A_MissingContextAttributes"
abbreviation ErrAggregateVersionOutOfRange :: sentinel where "ErrAggregateVersionOutOfRange \<equiv> AppError A_AggregateVersionOutOfRange"

abbreviation ErrInvalidLimit :: sentinel where "ErrInvalidLimit \<equiv> TransportError T_InvalidLimit"
abbreviation ErrNoRoutes :: sentinel where "ErrNoRoutes \<equiv> TransportError T_NoRoutes"
abbreviation ErrNoClock :: sentinel where "ErrNoClock \<equiv> TransportError T_NoClock"
abbreviation ErrNoKeyCeiling :: sentinel where "ErrNoKeyCeiling \<equiv> TransportError T_NoKeyCeiling"
abbreviation ErrNoDeadline :: sentinel where "ErrNoDeadline \<equiv> TransportError T_NoDeadline"
abbreviation ErrDeadlineExhausted :: sentinel where "ErrDeadlineExhausted \<equiv> TransportError T_DeadlineExhausted"

abbreviation ErrObjectKeyInvalid :: sentinel where "ErrObjectKeyInvalid \<equiv> ObjectError O_ObjectKeyInvalid"
abbreviation ErrVersionRequired :: sentinel where "ErrVersionRequired \<equiv> ObjectError O_VersionRequired"
abbreviation ErrIntegrity :: sentinel where "ErrIntegrity \<equiv> ObjectError O_Integrity"
abbreviation ErrRetentionUnbounded :: sentinel where "ErrRetentionUnbounded \<equiv> ObjectError O_RetentionUnbounded"
abbreviation ErrRetentionAboveCeiling :: sentinel where "ErrRetentionAboveCeiling \<equiv> ObjectError O_RetentionAboveCeiling"
abbreviation ErrRetentionNotExtended :: sentinel where "ErrRetentionNotExtended \<equiv> ObjectError O_RetentionNotExtended"
abbreviation ErrRetentionModeChange :: sentinel where "ErrRetentionModeChange \<equiv> ObjectError O_RetentionModeChange"
abbreviation ErrRetentionModeUnknown :: sentinel where "ErrRetentionModeUnknown \<equiv> ObjectError O_RetentionModeUnknown"
abbreviation ErrObjectLocked :: sentinel where "ErrObjectLocked \<equiv> ObjectError O_ObjectLocked"
abbreviation ErrScopeMismatch :: sentinel where "ErrScopeMismatch \<equiv> ObjectError O_ScopeMismatch"
abbreviation ErrScopeUndeclared :: sentinel where "ErrScopeUndeclared \<equiv> ObjectError O_ScopeUndeclared"
abbreviation ErrEncryptionUndeclared :: sentinel where "ErrEncryptionUndeclared \<equiv> ObjectError O_EncryptionUndeclared"
abbreviation ErrRetentionCeilingUndeclared :: sentinel where "ErrRetentionCeilingUndeclared \<equiv> ObjectError O_RetentionCeilingUndeclared"
abbreviation ErrLegalHoldReasonRequired :: sentinel where "ErrLegalHoldReasonRequired \<equiv> ObjectError O_LegalHoldReasonRequired"
abbreviation ErrIncompleteObjectStore :: sentinel where "ErrIncompleteObjectStore \<equiv> ObjectError O_IncompleteObjectStore"

abbreviation ErrEmptyMessageID :: sentinel where "ErrEmptyMessageID \<equiv> PostgresError P_EmptyMessageID"
abbreviation ErrInvalidDestination :: sentinel where "ErrInvalidDestination \<equiv> PostgresError P_InvalidDestination"
abbreviation ErrUnmappedEvent :: sentinel where "ErrUnmappedEvent \<equiv> PostgresError P_UnmappedEvent"
abbreviation ErrEmptyMapping :: sentinel where "ErrEmptyMapping \<equiv> PostgresError P_EmptyMapping"
abbreviation ErrDuplicateMessage :: sentinel where "ErrDuplicateMessage \<equiv> PostgresError P_DuplicateMessage"
abbreviation ErrIncompleteStore :: sentinel where "ErrIncompleteStore \<equiv> PostgresError P_IncompleteStore"
abbreviation ErrClaimIdentityRequired :: sentinel where "ErrClaimIdentityRequired \<equiv> PostgresError P_ClaimIdentityRequired"
abbreviation ErrInvalidBatchSize :: sentinel where "ErrInvalidBatchSize \<equiv> PostgresError P_InvalidBatchSize"
abbreviation ErrPurgeBatchRequired :: sentinel where "ErrPurgeBatchRequired \<equiv> PostgresError P_PurgeBatchRequired"
abbreviation ErrInvalidLease :: sentinel where "ErrInvalidLease \<equiv> PostgresError P_InvalidLease"

text \<open>Package \<open>postgres\<close> declares sentinels of its own where package \<open>memory\<close> has some of the same name.\<close>

abbreviation Pg_ErrIncompleteAttemptStore :: sentinel where "Pg_ErrIncompleteAttemptStore \<equiv> PostgresError P_IncompleteAttemptStore"
abbreviation Pg_ErrTenantUnresolved :: sentinel where "Pg_ErrTenantUnresolved \<equiv> PostgresError P_TenantUnresolved"
abbreviation Pg_ErrInboxConsumerRequired :: sentinel where "Pg_ErrInboxConsumerRequired \<equiv> PostgresError P_InboxConsumerRequired"
abbreviation Pg_ErrInboxConsumerMismatch :: sentinel where "Pg_ErrInboxConsumerMismatch \<equiv> PostgresError P_InboxConsumerMismatch"
abbreviation Pg_ErrAlreadyCompleted :: sentinel where "Pg_ErrAlreadyCompleted \<equiv> PostgresError P_AlreadyCompleted"
abbreviation Pg_ErrInvalidCompletion :: sentinel where "Pg_ErrInvalidCompletion \<equiv> PostgresError P_InvalidCompletion"
abbreviation Pg_ErrCommandExpiryRequired :: sentinel where "Pg_ErrCommandExpiryRequired \<equiv> PostgresError P_CommandExpiryRequired"
abbreviation ErrInvalidContainment :: sentinel where "ErrInvalidContainment \<equiv> PostgresError P_InvalidContainment"
abbreviation ErrUniqueDivergent :: sentinel where "ErrUniqueDivergent \<equiv> PostgresError P_UniqueDivergent"
abbreviation ErrGuardValue :: sentinel where "ErrGuardValue \<equiv> PostgresError P_GuardValue"

abbreviation ErrInvalidSweepConfig :: sentinel where "ErrInvalidSweepConfig \<equiv> AppError A_InvalidSweepConfig"
abbreviation ErrSweepPanicked :: sentinel where "ErrSweepPanicked \<equiv> AppError A_SweepPanicked"
abbreviation ErrInvalidPurgeConfig :: sentinel where "ErrInvalidPurgeConfig \<equiv> AppError A_InvalidPurgeConfig"
abbreviation ErrPurgePanicked :: sentinel where "ErrPurgePanicked \<equiv> AppError A_PurgePanicked"

abbreviation Kafka_ErrAlreadyDisposed :: sentinel where "Kafka_ErrAlreadyDisposed \<equiv> BrokerError K_AlreadyDisposed"
abbreviation Kafka_ErrSinkPanicked :: sentinel where "Kafka_ErrSinkPanicked \<equiv> BrokerError K_SinkPanicked"
abbreviation Kafka_ErrPanicked :: sentinel where "Kafka_ErrPanicked \<equiv> BrokerError K_Panicked"
abbreviation ErrRevokeStuck :: sentinel where "ErrRevokeStuck \<equiv> BrokerError K_RevokeStuck"
abbreviation Sqs_ErrAlreadyDisposed :: sentinel where "Sqs_ErrAlreadyDisposed \<equiv> BrokerError S_AlreadyDisposed"
abbreviation Sqs_ErrSinkPanicked :: sentinel where "Sqs_ErrSinkPanicked \<equiv> BrokerError S_SinkPanicked"

text \<open>The eleven categories of FND-07 in \<^verbatim>\<open>application/failure.go\<close>.\<close>

datatype Category =
    Validation | DomainRejection | NotFound | Conflict | Forbidden | Unauthenticated
  | TransientDependency | RateLimited | DeadlineExceededCategory | Cancelled | Unexpected

datatype gerr =
    Sentinel sentinel
  | Wrapped string "gerr list"
  | Failure Category bool "gerr option"
  | UniqueViolation string string "Rejection option"
  | CrossTenantAccess string string string
  | ErrObjectNotFound
  | DegradedResult string gerr
  | AttributeError string gerr
  | SharedFailure sentinel Category bool
  | Panicked string gerr
  | PgError string string string
  | Foreign string "string option" "bool option" "bool option" "gerr list"

type_synonym 'a result = "(gerr, 'a) res"

abbreviation Fail :: "sentinel \<Rightarrow> 'a result" where
  "Fail s \<equiv> Err (Sentinel s)"

text \<open>\<open>fmt.Errorf("%w: text", s)\<close> for a sentinel.\<close>

abbreviation FailWith :: "sentinel \<Rightarrow> string \<Rightarrow> 'a result" where
  "FailWith s m \<equiv> Err (Wrapped m [Sentinel s])"

text \<open>
  \<open>Unwrap\<close> of each error: \<open>CrossTenantAccess\<close> and \<open>ErrObjectNotFound\<close> unwrap to \<open>ErrNotFound\<close>, so the
  answer to another tenant's identifier reads like absence; \<open>UniqueViolation\<close> to its sentinel. A
  \<open>SharedFailure\<close> is a \<open>Failure\<close> kept in a package variable, which \<open>errors.Is\<close> finds by its identity.
\<close>

fun err_chain :: "gerr \<Rightarrow> gerr list" where
  "err_chain (Sentinel s) = [Sentinel s]"
| "err_chain (Wrapped m es) = Wrapped m es # concat (map err_chain es)"
| "err_chain (Failure c r None) = [Failure c r None]"
| "err_chain (Failure c r (Some e)) = Failure c r (Some e) # err_chain e"
| "err_chain (UniqueViolation t c r) = [UniqueViolation t c r, Sentinel ErrUniqueViolation]"
| "err_chain (CrossTenantAccess ob x y) = [CrossTenantAccess ob x y, Sentinel ErrNotFound]"
| "err_chain ErrObjectNotFound = [ErrObjectNotFound, Sentinel ErrNotFound]"
| "err_chain (DegradedResult d e) = DegradedResult d e # err_chain e"
| "err_chain (AttributeError a e) = AttributeError a e # err_chain e"
| "err_chain (SharedFailure s c r) = [SharedFailure s c r, Sentinel s]"
| "err_chain (Panicked t e) = Panicked t e # err_chain e"
| "err_chain (PgError c t k) = [PgError c t k]"
| "err_chain (Foreign n q s t es) = Foreign n q s t es # concat (map err_chain es)"

definition errors_Is :: "gerr \<Rightarrow> sentinel \<Rightarrow> bool" where
  "errors_Is e s \<longleftrightarrow> Sentinel s \<in> set (err_chain e)"

text \<open>\<open>errors.As\<close>: the first error of the walk the projection accepts.\<close>

definition errors_As :: "(gerr \<Rightarrow> 'a option) \<Rightarrow> gerr \<Rightarrow> 'a option" where
  "errors_As p e = (case List.map_filter p (err_chain e) of [] \<Rightarrow> None | x # _ \<Rightarrow> Some x)"

text \<open>\<open>errors.Join\<close> drops nil errors and is nil when none is left.\<close>

definition errors_Join :: "gerr option list \<Rightarrow> gerr option" where
  "errors_Join es = (case List.map_filter id es of [] \<Rightarrow> None | es' \<Rightarrow> Some (Wrapped [] es'))"

fun as_Failure :: "gerr \<Rightarrow> (Category \<times> bool) option" where
  "as_Failure (Failure c r _) = Some (c, r)"
| "as_Failure (SharedFailure _ c r) = Some (c, r)"
| "as_Failure _ = None"

fun as_UniqueViolation :: "gerr \<Rightarrow> (string \<times> string \<times> Rejection option) option" where
  "as_UniqueViolation (UniqueViolation t c r) = Some (t, c, r)"
| "as_UniqueViolation _ = None"

fun as_SQLState :: "gerr \<Rightarrow> string option" where
  "as_SQLState (Foreign _ q _ _ _) = q"
| "as_SQLState (PgError c _ _) = Some c"
| "as_SQLState _ = None"

text \<open>The driver's \<open>PgError\<close>: SQLSTATE, table and constraint.\<close>

fun as_PgError :: "gerr \<Rightarrow> (string \<times> string \<times> string) option" where
  "as_PgError (PgError c t k) = Some (c, t, k)"
| "as_PgError _ = None"

fun as_SafeToRetry :: "gerr \<Rightarrow> bool option" where
  "as_SafeToRetry (Foreign _ _ s _ _) = s"
| "as_SafeToRetry _ = None"

text \<open>\<open>context.DeadlineExceeded\<close> itself has a method \<open>Timeout\<close>, which answers true.\<close>

fun as_Timeout :: "gerr \<Rightarrow> bool option" where
  "as_Timeout (Foreign _ _ _ t _) = t"
| "as_Timeout (Sentinel s) = (if s = DeadlineExceeded then Some True else None)"
| "as_Timeout _ = None"

section \<open>Classification\<close>

definition NewFailure :: "Category \<Rightarrow> bool \<Rightarrow> gerr option \<Rightarrow> gerr" where
  "NewFailure c r cause = Failure c r cause"

definition CategoryOf :: "gerr \<Rightarrow> Category option" where
  "CategoryOf err =
     (if errors_Is err ErrPlatformReachUndeclared \<or> errors_Is err ErrProjectionDenied then Some Forbidden
      else case errors_As as_Failure err of
        Some (c, _) \<Rightarrow> Some c
      | None \<Rightarrow>
          if errors_Is err ErrIdempotencyKeyAbsent \<or> errors_Is err ErrIdempotencyKeyInvalid \<or>
             errors_Is err ErrIdempotencyMismatch then Some Validation
          else if errors_Is err ErrIdempotencyInFlight \<or> errors_Is err ErrAlreadyExists \<or>
             errors_Is err ErrVersionConflict \<or> errors_Is err ErrUniqueViolation then Some Conflict
          else if errors_Is err ErrNotFound then Some NotFound
          else if errors_Is err ErrPlatformLimitInvalid \<or> errors_Is err ErrProjectionDestinationAbsent
             then Some Validation
          else if errors_Is err ErrAuditUnavailable then Some TransientDependency
          else None)"

text \<open>The seven dispositions of FND-04 6.4; \<open>DispositionZero\<close> is the zero value, outside the seven.\<close>

datatype Disposition = DispositionZero | R1D1 | R1D2 | R1D3 | R1D4 | R2 | R3 | R4

definition transientDatabase :: "gerr \<Rightarrow> bool" where
  "transientDatabase err =
     (case errors_As as_SQLState err of
        None \<Rightarrow> False
      | Some state \<Rightarrow> has_prefix state ''08'' \<or> state = ''40001'' \<or> state = ''40P01'' \<or> state = ''57P01'')"

definition transientTransport :: "gerr \<Rightarrow> bool" where
  "transientTransport err =
     (errors_As as_SafeToRetry err = Some True \<or> errors_As as_Timeout err = Some True)"

definition Classify :: "gerr option \<Rightarrow> Disposition result" where
  "Classify e =
     (case e of
        None \<Rightarrow> Panic ''application: Classify requires a non-nil error''
      | Some err \<Rightarrow>
          (case errors_As as_Failure err of
             Some (_, retryable) \<Rightarrow> Ok (if retryable then R1D3 else R1D4)
           | None \<Rightarrow>
               if errors_Is err ErrRegisterTimeout then Ok R1D3
               else if errors_Is err DeadlineExceeded \<or> transientDatabase err \<or> transientTransport err
               then Ok R1D3
               else Ok R1D4))"

text \<open>\<open>Classify\<close> on an error at hand, where the panic branch is out of reach.\<close>

definition classify_err :: "gerr \<Rightarrow> Disposition" where
  "classify_err err = (case Classify (Some err) of Ok d \<Rightarrow> d | _ \<Rightarrow> DispositionZero)"

section \<open>Reading the tree\<close>

lemma errors_Is_Sentinel [simp]: "errors_Is (Sentinel t) s \<longleftrightarrow> s = t"
  by (auto simp: errors_Is_def)

lemma errors_Is_Wrapped [simp]: "errors_Is (Wrapped m es) s \<longleftrightarrow> (\<exists>e \<in> set es. errors_Is e s)"
  by (auto simp: errors_Is_def)

lemma errors_Is_Failure [simp]:
  "errors_Is (Failure c r cause) s \<longleftrightarrow> (\<exists>e. cause = Some e \<and> errors_Is e s)"
  by (cases cause) (auto simp: errors_Is_def)

lemma errors_Is_Foreign [simp]: "errors_Is (Foreign n q f t es) s \<longleftrightarrow> (\<exists>e \<in> set es. errors_Is e s)"
  by (auto simp: errors_Is_def)

lemma errors_Is_typed [simp]:
  "errors_Is (UniqueViolation t c r) s \<longleftrightarrow> s = ErrUniqueViolation"
  "errors_Is (CrossTenantAccess ob x y) s \<longleftrightarrow> s = ErrNotFound"
  "errors_Is ErrObjectNotFound s \<longleftrightarrow> s = ErrNotFound"
  "errors_Is (DegradedResult d e) s \<longleftrightarrow> errors_Is e s"
  "errors_Is (AttributeError a e) s \<longleftrightarrow> errors_Is e s"
  "errors_Is (SharedFailure t' c' r') s \<longleftrightarrow> s = t'"
  "errors_Is (Panicked t'' e) s \<longleftrightarrow> errors_Is e s"
  by (auto simp: errors_Is_def)

lemma errors_As_Wrapped_single [simp]:
  "p (Wrapped m [e]) = None \<Longrightarrow> errors_As p (Wrapped m [e]) = errors_As p e"
  by (simp add: errors_As_def List.map_filter_simps)

lemma errors_As_Sentinel: "errors_As p (Sentinel s) = p (Sentinel s)"
  by (simp add: errors_As_def List.map_filter_simps split: option.splits)

lemma errors_As_head: "p e = Some x \<Longrightarrow> errors_As p e = Some x"
  by (cases e rule: err_chain.cases) (simp_all add: errors_As_def List.map_filter_simps)

lemma Classify_total: "\<exists>d. Classify (Some err) = Ok d \<and> (d = R1D3 \<or> d = R1D4)"
  by (auto simp: Classify_def split: option.splits)

lemma classify_err_cases: "classify_err err = R1D3 \<or> classify_err err = R1D4"
  using Classify_total [of err] by (auto simp: classify_err_def)

lemma Classify_err: "Classify (Some err) = Ok (classify_err err)"
  using Classify_total [of err] by (auto simp: classify_err_def)

text \<open>Wrapping an error with context does not change how it is classified.\<close>

lemma classify_err_Wrapped [simp]: "classify_err (Wrapped m [e]) = classify_err e"
  by (simp add: classify_err_def Classify_def transientDatabase_def transientTransport_def)

lemma CategoryOf_Wrapped [simp]: "CategoryOf (Wrapped m [e]) = CategoryOf e"
  by (simp add: CategoryOf_def)

end
