(* ===== verification/Ports_Context.thy ===== *)
theory Ports_Context
  imports Go_Errors
begin

text \<open>
  What travels on the request-scoped carrier, \<^verbatim>\<open>libs/backend/go/ports\<close>: the execution context of
  CTX-01 and its constructor, the message context, the idempotency key and its format, the platform
  reach, the instrumentation vocabulary, and the authorization hooks of
  \<^verbatim>\<open>libs/backend/go/application/authorize.go\<close> that read them.

  Go's \<open>context.Context\<close> is the record \<open>carrier\<close>, one field per key the kernel deposits. The
  cancellation state can change while a caller waits for a lock, so the carrier holds the two
  readings the kernel makes: \<open>ctx_err\<close> on entry and \<open>ctx_err_locked\<close> once the lock is held.
  The mutable slots a use case marks downstream are the separate record \<open>slots\<close>, threaded as state.
\<close>

section \<open>Execution context\<close>

type_synonym TenantID = string
type_synonym SubjectID = string
type_synonym Permission = string
type_synonym MessageID = string

text \<open>A nil pointer and a nil slice are \<open>None\<close>; the empty permission set is \<open>Some []\<close>.\<close>

record ExecutionContextSpec =
  spec_RequestID :: string
  spec_CorrelationID :: string
  spec_CausationID :: "string option"
  spec_TraceContext :: string
  spec_Subject :: "SubjectID option"
  spec_Tenant :: "TenantID option"
  spec_Permissions :: "Permission list option"
  spec_Deadline :: Instant
  spec_Locale :: string

record ExecutionContext =
  ec_requestID :: string
  ec_correlationID :: string
  ec_causationID :: string
  ec_traceContext :: string
  ec_subject :: SubjectID
  ec_tenant :: TenantID
  ec_permissions :: "Permission list"
  ec_deadline :: Instant
  ec_locale :: string
  ec_hasCausation :: bool
  ec_hasSubject :: bool
  ec_hasTenant :: bool

definition NewExecutionContext :: "ExecutionContextSpec \<Rightarrow> ExecutionContext result" where
  "NewExecutionContext spec =
     (if spec_RequestID spec = [] then FailWith ErrContextFieldMissing ''request_id''
      else if spec_CorrelationID spec = [] then FailWith ErrContextFieldMissing ''correlation_id''
      else if spec_TraceContext spec = [] then FailWith ErrContextFieldMissing ''trace_context''
      else if spec_Deadline spec \<le> 0 then FailWith ErrContextFieldMissing ''deadline''
      else if spec_Locale spec = [] then FailWith ErrContextFieldMissing ''locale''
      else if spec_CausationID spec = Some [] then FailWith ErrContextValueEmpty ''causation_id''
      else if spec_Subject spec = Some [] then FailWith ErrContextValueEmpty ''authenticated_subject''
      else if spec_Tenant spec = Some [] then FailWith ErrContextValueEmpty ''tenant_id''
      else if spec_Subject spec \<noteq> None \<and> spec_Permissions spec = None
        then FailWith ErrContextPermissionsMismatch ''subject resolved without a permission set''
      else if spec_Subject spec = None \<and> spec_Permissions spec \<noteq> None
        then FailWith ErrContextPermissionsMismatch ''permission set without a resolved subject''
      else Ok \<lparr>
        ec_requestID = spec_RequestID spec,
        ec_correlationID = spec_CorrelationID spec,
        ec_causationID = (case spec_CausationID spec of None \<Rightarrow> [] | Some c \<Rightarrow> c),
        ec_traceContext = spec_TraceContext spec,
        ec_subject = (case spec_Subject spec of None \<Rightarrow> [] | Some s \<Rightarrow> s),
        ec_tenant = (case spec_Tenant spec of None \<Rightarrow> [] | Some t \<Rightarrow> t),
        ec_permissions =
          (case spec_Subject spec of
             None \<Rightarrow> []
           | Some _ \<Rightarrow> (case spec_Permissions spec of None \<Rightarrow> [] | Some ps \<Rightarrow> ps)),
        ec_deadline = spec_Deadline spec,
        ec_locale = spec_Locale spec,
        ec_hasCausation = (spec_CausationID spec \<noteq> None),
        ec_hasSubject = (spec_Subject spec \<noteq> None),
        ec_hasTenant = (spec_Tenant spec \<noteq> None)\<rparr>)"

text \<open>The accessors that return \<open>(value, ok)\<close> in Go return an option.\<close>

definition ec_CausationID :: "ExecutionContext \<Rightarrow> string option" where
  "ec_CausationID ec = (if ec_hasCausation ec then Some (ec_causationID ec) else None)"

definition ec_Subject :: "ExecutionContext \<Rightarrow> SubjectID option" where
  "ec_Subject ec = (if ec_hasSubject ec then Some (ec_subject ec) else None)"

definition ec_Tenant :: "ExecutionContext \<Rightarrow> TenantID option" where
  "ec_Tenant ec = (if ec_hasTenant ec then Some (ec_tenant ec) else None)"

definition ec_Permissions :: "ExecutionContext \<Rightarrow> Permission list option" where
  "ec_Permissions ec = (if \<not> ec_hasSubject ec then None else Some (ec_permissions ec))"

section \<open>Message context\<close>

record MessageContext =
  mc_CorrelationID :: string
  mc_CausationID :: string
  mc_Traceparent :: string
  mc_Tracestate :: string

definition mc_zero :: MessageContext where
  "mc_zero = \<lparr>mc_CorrelationID = [], mc_CausationID = [], mc_Traceparent = [], mc_Tracestate = []\<rparr>"

definition MessageContext_IsZero :: "MessageContext \<Rightarrow> bool" where
  "MessageContext_IsZero mc \<longleftrightarrow> mc = mc_zero"

section \<open>The carrier\<close>

datatype PlatformReach = ReachUndeclared | ReachAllTenants

record carrier =
  ctx_execution :: "ExecutionContext option"
  ctx_message :: "MessageContext option"
  ctx_idempotency_key :: "string option"
  ctx_reach :: "PlatformReach option"
  ctx_err :: "gerr option"
  ctx_err_locked :: "gerr option"

definition background :: carrier where
  "background = \<lparr>ctx_execution = None, ctx_message = None, ctx_idempotency_key = None,
     ctx_reach = None, ctx_err = None, ctx_err_locked = None\<rparr>"

definition WithExecutionContext :: "carrier \<Rightarrow> ExecutionContext \<Rightarrow> carrier" where
  "WithExecutionContext ctx ec = ctx\<lparr>ctx_execution := Some ec\<rparr>"

definition ExecutionContextFrom :: "carrier \<Rightarrow> ExecutionContext option" where
  "ExecutionContextFrom ctx = ctx_execution ctx"

definition SubjectOf :: "carrier \<Rightarrow> string" where
  "SubjectOf ctx =
     (case ExecutionContextFrom ctx of
        None \<Rightarrow> []
      | Some ec \<Rightarrow> (case ec_Subject ec of None \<Rightarrow> [] | Some who \<Rightarrow> who))"

definition RequireExecutionContext :: "carrier \<Rightarrow> ExecutionContext result" where
  "RequireExecutionContext ctx =
     (case ExecutionContextFrom ctx of None \<Rightarrow> Fail ErrContextAbsent | Some ec \<Rightarrow> Ok ec)"

definition WithMessageContext :: "carrier \<Rightarrow> MessageContext \<Rightarrow> carrier" where
  "WithMessageContext ctx mc = ctx\<lparr>ctx_message := Some mc\<rparr>"

definition MessageContextFrom :: "carrier \<Rightarrow> MessageContext option" where
  "MessageContextFrom ctx = ctx_message ctx"

definition WithPlatformReach :: "carrier \<Rightarrow> PlatformReach \<Rightarrow> carrier" where
  "WithPlatformReach ctx reach = ctx\<lparr>ctx_reach := Some reach\<rparr>"

text \<open>The zero value of a reach is undeclared, so an absent key reads as one.\<close>

definition PlatformReachFrom :: "carrier \<Rightarrow> PlatformReach" where
  "PlatformReachFrom ctx = (case ctx_reach ctx of None \<Rightarrow> ReachUndeclared | Some r \<Rightarrow> r)"

section \<open>Idempotency key\<close>

definition idem_char :: "char \<Rightarrow> bool" where
  "idem_char c \<longleftrightarrow> chr_range (CHR ''A'') (CHR ''Z'') c \<or> chr_range (CHR ''a'') (CHR ''z'') c \<or>
     chr_range (CHR ''0'') (CHR ''9'') c \<or> c = CHR ''.'' \<or> c = CHR ''_'' \<or> c = CHR ''-''"

definition IdempotencyKeyPattern :: rexp where
  "IdempotencyKeyPattern = OneTo (Class idem_char) 128"

definition ValidIdempotencyKey :: "string \<Rightarrow> bool" where
  "ValidIdempotencyKey key = match_string IdempotencyKeyPattern key"

definition WithIdempotencyKey :: "carrier \<Rightarrow> string \<Rightarrow> carrier" where
  "WithIdempotencyKey ctx key = ctx\<lparr>ctx_idempotency_key := Some key\<rparr>"

definition IdempotencyKeyFrom :: "carrier \<Rightarrow> string option" where
  "IdempotencyKeyFrom ctx = ctx_idempotency_key ctx"

datatype IdempotencyOutcome =
  IdempotencyNone | IdempotencyNew | IdempotencyReplayed | IdempotencyMismatch | IdempotencyInFlight

section \<open>Instrumentation vocabulary\<close>

datatype OutcomeCategory = OutcomeAccepted | OutcomeRejected | OutcomeDenied | OutcomeFailed

record Result =
  result_Outcome :: OutcomeCategory
  result_Err :: "gerr option"

definition AuthorizationResult :: "gerr \<Rightarrow> Result" where
  "AuthorizationResult err =
     (if errors_Is err ErrDenied then \<lparr>result_Outcome = OutcomeDenied, result_Err = None\<rparr>
      else \<lparr>result_Outcome = OutcomeFailed, result_Err = Some err\<rparr>)"

record AuditEvent =
  ae_Object :: string
  ae_Action :: string
  ae_Outcome :: OutcomeCategory
  ae_At :: Instant

section \<open>Authorization hooks\<close>

type_synonym 'c Authorize = "carrier \<Rightarrow> 'c \<Rightarrow> unit result"

definition AllowAll :: "'c Authorize" where
  "AllowAll ctx cmd = Ok ()"

definition Permitted :: "('c \<Rightarrow> Permission) \<Rightarrow> 'c Authorize" where
  "Permitted required ctx cmd =
     res_bind (RequireExecutionContext ctx) (\<lambda>execution.
       if ec_Tenant execution = None
         then FailWith ErrDenied ''the operation reaches tenant data and no tenant was resolved''
       else let permission = required cmd in
       if permission = [] then FailWith ErrDenied ''the operation declares no permission''
       else if ec_Subject execution = None then Ok ()
       else if permission \<notin> set (case ec_Permissions execution of None \<Rightarrow> [] | Some ps \<Rightarrow> ps)
         then FailWith ErrDenied (''the subject does not hold '' @ permission)
       else Ok ())"

definition PlatformPermitted :: "('c \<Rightarrow> Permission) \<Rightarrow> 'c Authorize" where
  "PlatformPermitted required ctx cmd =
     (if PlatformReachFrom ctx \<noteq> ReachAllTenants
        then Err (Wrapped [] [Sentinel ErrDenied, Sentinel ErrPlatformReachUndeclared])
      else res_bind (RequireExecutionContext ctx) (\<lambda>execution.
        let permission = required cmd in
        if permission = [] then FailWith ErrDenied ''the operation declares no permission''
        else if ec_Subject execution = None then Ok ()
        else if permission \<notin> set (case ec_Permissions execution of None \<Rightarrow> [] | Some ps \<Rightarrow> ps)
          then FailWith ErrDenied (''the subject does not hold '' @ permission)
        else Ok ()))"

section \<open>The constructor is total and fails closed\<close>

text \<open>What a context built by the constructor always satisfies.\<close>

definition ec_wf :: "ExecutionContext \<Rightarrow> bool" where
  "ec_wf ec \<longleftrightarrow>
     ec_requestID ec \<noteq> [] \<and> ec_correlationID ec \<noteq> [] \<and> ec_traceContext ec \<noteq> [] \<and>
     0 < ec_deadline ec \<and> ec_locale ec \<noteq> [] \<and>
     (ec_CausationID ec \<noteq> Some []) \<and> (ec_Subject ec \<noteq> Some []) \<and> (ec_Tenant ec \<noteq> Some []) \<and>
     (ec_Permissions ec = None \<longleftrightarrow> ec_Subject ec = None)"

definition spec_complete :: "ExecutionContextSpec \<Rightarrow> bool" where
  "spec_complete spec \<longleftrightarrow>
     spec_RequestID spec \<noteq> [] \<and> spec_CorrelationID spec \<noteq> [] \<and> spec_TraceContext spec \<noteq> [] \<and>
     0 < spec_Deadline spec \<and> spec_Locale spec \<noteq> [] \<and> spec_CausationID spec \<noteq> Some [] \<and>
     spec_Subject spec \<noteq> Some [] \<and> spec_Tenant spec \<noteq> Some [] \<and>
     (spec_Subject spec = None) = (spec_Permissions spec = None)"

lemmas ec_accessor_defs = ec_CausationID_def ec_Subject_def ec_Tenant_def ec_Permissions_def

lemma NewExecutionContext_wf: "NewExecutionContext spec = Ok ec \<Longrightarrow> ec_wf ec"
  by (auto simp: NewExecutionContext_def ec_wf_def ec_accessor_defs split: if_splits option.splits)

lemma NewExecutionContext_reads_back:
  "NewExecutionContext spec = Ok ec \<Longrightarrow>
     ec_CausationID ec = spec_CausationID spec \<and> ec_Subject ec = spec_Subject spec \<and>
     ec_Tenant ec = spec_Tenant spec \<and> ec_Permissions ec = spec_Permissions spec"
  by (auto simp: NewExecutionContext_def ec_accessor_defs split: if_splits option.splits)

lemma NewExecutionContext_no_panic: "NewExecutionContext spec \<noteq> Panic m"
  by (simp add: NewExecutionContext_def)

text \<open>
  The constructor of the execution context accepts exactly the specifications of CTX-01 (five
  mandatory fields present, no conditional field present and empty, permissions present exactly with
  a subject), and a context it built reads back what the specification held, absence included.
\<close>

theorem NewExecutionContext_characterised:
  "case NewExecutionContext spec of
     Ok ec \<Rightarrow> spec_complete spec \<and> ec_wf ec \<and>
       ec_CausationID ec = spec_CausationID spec \<and> ec_Subject ec = spec_Subject spec \<and>
       ec_Tenant ec = spec_Tenant spec \<and> ec_Permissions ec = spec_Permissions spec
   | Err _ \<Rightarrow> \<not> spec_complete spec
   | Panic _ \<Rightarrow> False"
proof (cases "NewExecutionContext spec")
  case (Ok ec)
  then have "spec_complete spec"
    by (auto simp: NewExecutionContext_def spec_complete_def split: if_splits)
  with Ok NewExecutionContext_wf NewExecutionContext_reads_back show ?thesis
    by simp
next
  case (Err e)
  then show ?thesis
    by (auto simp: NewExecutionContext_def spec_complete_def split: if_splits)
qed (simp add: NewExecutionContext_no_panic)

lemma ValidIdempotencyKey_iff [code]:
  "ValidIdempotencyKey key \<longleftrightarrow> 1 \<le> length key \<and> length key \<le> 128 \<and> list_all idem_char key"
  by (simp add: ValidIdempotencyKey_def IdempotencyKeyPattern_def match_OneTo_Class)

lemma ValidIdempotencyKey_no_slash: "ValidIdempotencyKey key \<Longrightarrow> CHR ''/'' \<notin> set key"
  by (auto simp: ValidIdempotencyKey_iff list_all_iff idem_char_def chr_range_def)

section \<open>Authorization denies by default\<close>

lemma Permitted_Ok_iff:
  "Permitted required ctx cmd = Ok () \<longleftrightarrow>
     (\<exists>ec. ctx_execution ctx = Some ec \<and> ec_Tenant ec \<noteq> None \<and> required cmd \<noteq> [] \<and>
       (ec_Subject ec = None \<or> required cmd \<in> set (ec_permissions ec)))"
  by (auto simp: Permitted_def RequireExecutionContext_def ExecutionContextFrom_def ec_accessor_defs
      Let_def split: option.splits if_splits)

lemma Permitted_denied:
  "Permitted required ctx cmd = Err e \<Longrightarrow> errors_Is e ErrDenied \<or> errors_Is e ErrContextAbsent"
  by (auto simp: Permitted_def RequireExecutionContext_def Let_def split: option.splits if_splits)

lemma PlatformPermitted_Ok_iff:
  "PlatformPermitted required ctx cmd = Ok () \<longleftrightarrow>
     ctx_reach ctx = Some ReachAllTenants \<and>
     (\<exists>ec. ctx_execution ctx = Some ec \<and> required cmd \<noteq> [] \<and>
       (ec_Subject ec = None \<or> required cmd \<in> set (ec_permissions ec)))"
  by (auto simp: PlatformPermitted_def PlatformReachFrom_def RequireExecutionContext_def
      ExecutionContextFrom_def ec_accessor_defs Let_def split: option.splits if_splits)

definition permission_held :: "('c \<Rightarrow> Permission) \<Rightarrow> carrier \<Rightarrow> 'c \<Rightarrow> bool" where
  "permission_held required ctx cmd \<longleftrightarrow>
     (\<exists>ec. ctx_execution ctx = Some ec \<and> ec_Tenant ec \<noteq> None \<and> required cmd \<noteq> [] \<and>
       (ec_Subject ec = None \<or> required cmd \<in> set (ec_permissions ec)))"

lemma Permitted_refuses: "\<not> permission_held required ctx cmd \<Longrightarrow> \<exists>e. Permitted required ctx cmd = Err e"
  by (auto simp: Permitted_def RequireExecutionContext_def ExecutionContextFrom_def ec_accessor_defs
      permission_held_def Let_def split: option.splits if_splits)

text \<open>
  Step 1 of a tenant use case succeeds exactly when the carrier holds an execution context with a
  resolved tenant, the operation declares a permission, and either no subject was resolved (the chain
  is authorized by its workload) or the subject holds that permission. Everything else is refused,
  and the refusal is a denial or the absence of a context.
\<close>

theorem Permitted_denies_by_default:
  "case Permitted required ctx cmd of
     Ok _ \<Rightarrow> permission_held required ctx cmd
   | Err e \<Rightarrow> \<not> permission_held required ctx cmd \<and>
       (errors_Is e ErrDenied \<or> (ctx_execution ctx = None \<and> e = Sentinel ErrContextAbsent))
   | Panic _ \<Rightarrow> False"
  by (auto simp: Permitted_def RequireExecutionContext_def ExecutionContextFrom_def ec_accessor_defs
      permission_held_def Let_def split: option.splits if_splits)

end
