(* ===== verification/Ports_External.thy ===== *)
theory Ports_External
  imports Ports_Context
begin

text \<open>
  The vocabulary of a call to an external partner, \<^verbatim>\<open>libs/backend/go/ports\<close>: classes, findings and the
  partner's profile (\<^verbatim>\<open>external.go\<close>), the attempt ledger's values (\<^verbatim>\<open>attempt_ledger.go\<close>) and the mutable
  slots a use case marks downstream (\<^verbatim>\<open>external_class_carrier.go\<close>, \<^verbatim>\<open>idempotency_key.go\<close>).

  A Go enumeration over \<open>uint8\<close> is a datatype with one constructor for its zero value, one per declared
  constant and \<open>Invalid...\<close> for every other number, so that a comparison with a range of constants is
  a case distinction. A slot is a pointer deposited on the context: the record \<open>slots\<close> holds, for
  each key, \<open>None\<close> when no slot was installed and the slot's content otherwise, and is threaded as state.
\<close>

section \<open>Classes, findings and profile\<close>

type_synonym OutboundKey = string

datatype ExternalClass =
    NoClass | ClassAccepted | ClassRetryableTransport | ClassRetryableUpstream
  | ClassFinalValidation | ClassFinalBusiness | ClassFinalAuthorization
  | ClassUnknownSent | ClassUnknownAmbiguous | ClassSchemaMismatch | InvalidClass nat

fun ExternalClass_String :: "ExternalClass \<Rightarrow> string" where
  "ExternalClass_String ClassAccepted = ''accepted''"
| "ExternalClass_String ClassRetryableTransport = ''retryable_transport''"
| "ExternalClass_String ClassRetryableUpstream = ''retryable_upstream''"
| "ExternalClass_String ClassFinalValidation = ''final_validation''"
| "ExternalClass_String ClassFinalBusiness = ''final_business''"
| "ExternalClass_String ClassFinalAuthorization = ''final_authorization''"
| "ExternalClass_String ClassUnknownSent = ''unknown_sent''"
| "ExternalClass_String ClassUnknownAmbiguous = ''unknown_ambiguous''"
| "ExternalClass_String ClassSchemaMismatch = ''schema_mismatch''"
| "ExternalClass_String _ = ''invalid''"

datatype Finding =
    NoFinding | FindingApplied | FindingAbsent | FindingRejected | FindingPending
  | FindingInconclusive | InvalidFinding nat

fun Finding_String :: "Finding \<Rightarrow> string" where
  "Finding_String NoFinding = ''none''"
| "Finding_String FindingApplied = ''applied''"
| "Finding_String FindingAbsent = ''absent''"
| "Finding_String FindingRejected = ''rejected''"
| "Finding_String FindingPending = ''pending''"
| "Finding_String FindingInconclusive = ''inconclusive''"
| "Finding_String (InvalidFinding _) = ''invalid''"

datatype KeySemantics = NoKeySemantics | KeyNative | KeyHeader | KeyNone | InvalidKeySemantics nat

fun KeySemantics_String :: "KeySemantics \<Rightarrow> string" where
  "KeySemantics_String KeyNative = ''native''"
| "KeySemantics_String KeyHeader = ''header''"
| "KeySemantics_String KeyNone = ''none''"
| "KeySemantics_String _ = ''invalid''"

datatype Efficacy = NoEfficacy | EfficacyOnSubmit | EfficacyByObservation | InvalidEfficacy nat

fun Efficacy_String :: "Efficacy \<Rightarrow> string" where
  "Efficacy_String EfficacyOnSubmit = ''on_submit''"
| "Efficacy_String EfficacyByObservation = ''by_observation''"
| "Efficacy_String _ = ''invalid''"

record Observation =
  obs_Key :: OutboundKey
  obs_Finding :: Finding
  obs_SourceAt :: Instant
  obs_Provider :: string
  obs_ExternalRef :: string
  obs_ID :: string

definition obs_zero :: Observation where
  "obs_zero = \<lparr>obs_Key = [], obs_Finding = NoFinding, obs_SourceAt = 0, obs_Provider = [],
     obs_ExternalRef = [], obs_ID = []\<rparr>"

record ExternalProfile =
  prof_KeySemantics :: KeySemantics
  prof_Efficacy :: Efficacy
  prof_Quiescence :: int
  prof_AuthoritativeAbsence :: bool
  prof_MaxQueries :: int
  prof_KeyAlphabet :: string
  prof_KeyMaxLength :: int

section \<open>Slots\<close>

record slots =
  slot_idempotency :: "IdempotencyOutcome option"
  slot_class :: "ExternalClass option"
  slot_conflict :: "bool option"
  slot_saturation :: "bool option"

definition no_slots :: slots where
  "no_slots = \<lparr>slot_idempotency = None, slot_class = None, slot_conflict = None, slot_saturation = None\<rparr>"

fun IdempotencyOutcome_String :: "IdempotencyOutcome \<Rightarrow> string" where
  "IdempotencyOutcome_String IdempotencyNone = []"
| "IdempotencyOutcome_String IdempotencyNew = ''new''"
| "IdempotencyOutcome_String IdempotencyReplayed = ''replayed''"
| "IdempotencyOutcome_String IdempotencyMismatch = ''mismatch''"
| "IdempotencyOutcome_String IdempotencyInFlight = ''in_flight''"

definition WithIdempotencySlot :: "slots \<Rightarrow> slots" where
  "WithIdempotencySlot s = s\<lparr>slot_idempotency := Some IdempotencyNone\<rparr>"

definition MarkIdempotency :: "IdempotencyOutcome \<Rightarrow> slots \<Rightarrow> slots" where
  "MarkIdempotency outcome s =
     (case slot_idempotency s of None \<Rightarrow> s | Some _ \<Rightarrow> s\<lparr>slot_idempotency := Some outcome\<rparr>)"

definition IdempotencyOutcomeFrom :: "slots \<Rightarrow> IdempotencyOutcome \<times> bool" where
  "IdempotencyOutcomeFrom s =
     (case slot_idempotency s of
        None \<Rightarrow> (IdempotencyNone, False)
      | Some outcome \<Rightarrow> (outcome, outcome \<noteq> IdempotencyNone))"

definition WithExternalClassSlot :: "slots \<Rightarrow> slots" where
  "WithExternalClassSlot s = s\<lparr>slot_class := Some NoClass\<rparr>"

definition MarkExternalClass :: "ExternalClass \<Rightarrow> slots \<Rightarrow> slots" where
  "MarkExternalClass c s =
     (case slot_class s of None \<Rightarrow> s | Some _ \<Rightarrow> s\<lparr>slot_class := Some c\<rparr>)"

definition ExternalClassFrom :: "slots \<Rightarrow> ExternalClass \<times> bool" where
  "ExternalClassFrom s =
     (case slot_class s of None \<Rightarrow> (NoClass, False) | Some c \<Rightarrow> (c, c \<noteq> NoClass))"

definition WithExternalConflictSlot :: "slots \<Rightarrow> slots" where
  "WithExternalConflictSlot s = s\<lparr>slot_conflict := Some False\<rparr>"

definition MarkExternalConflict :: "slots \<Rightarrow> slots" where
  "MarkExternalConflict s =
     (case slot_conflict s of None \<Rightarrow> s | Some _ \<Rightarrow> s\<lparr>slot_conflict := Some True\<rparr>)"

definition ExternalConflictFrom :: "slots \<Rightarrow> bool" where
  "ExternalConflictFrom s = (case slot_conflict s of None \<Rightarrow> False | Some b \<Rightarrow> b)"

definition WithExternalSaturationSlot :: "slots \<Rightarrow> slots" where
  "WithExternalSaturationSlot s = s\<lparr>slot_saturation := Some False\<rparr>"

definition MarkExternalSaturation :: "slots \<Rightarrow> slots" where
  "MarkExternalSaturation s =
     (case slot_saturation s of None \<Rightarrow> s | Some _ \<Rightarrow> s\<lparr>slot_saturation := Some True\<rparr>)"

definition ExternalSaturationFrom :: "slots \<Rightarrow> bool" where
  "ExternalSaturationFrom s = (case slot_saturation s of None \<Rightarrow> False | Some b \<Rightarrow> b)"

lemmas slot_defs [go_defs] =
  WithIdempotencySlot_def MarkIdempotency_def IdempotencyOutcomeFrom_def
  WithExternalClassSlot_def MarkExternalClass_def ExternalClassFrom_def
  WithExternalConflictSlot_def MarkExternalConflict_def ExternalConflictFrom_def
  WithExternalSaturationSlot_def MarkExternalSaturation_def ExternalSaturationFrom_def

section \<open>The attempt ledger's values\<close>

record Attempt =
  att_Tenant :: TenantID
  att_Key :: OutboundKey
  att_N :: int
  att_MessageID :: MessageID
  att_StartedAt :: Instant

text \<open>The opaque struct with a kind is a datatype; its zero value is the constructor \<open>NoAttemptStart\<close>.\<close>

datatype AttemptStart =
    NoAttemptStart | StartedAttempt Attempt | PendingAttempt Attempt | DoneAttempt Attempt ExternalClass

text \<open>\<open>Match\<close> over the three branches, each a function on the state the closures share.\<close>

fun AttemptStart_Match ::
    "AttemptStart \<Rightarrow> (Attempt \<Rightarrow> 'x) \<Rightarrow> (Attempt \<Rightarrow> 'x) \<Rightarrow> (Attempt \<Rightarrow> ExternalClass \<Rightarrow> 'x) \<Rightarrow> (string \<Rightarrow> 'x) \<Rightarrow> 'x" where
  "AttemptStart_Match (StartedAttempt a) started pending finish panics = started a"
| "AttemptStart_Match (PendingAttempt a) started pending finish panics = pending a"
| "AttemptStart_Match (DoneAttempt a c) started pending finish panics = finish a c"
| "AttemptStart_Match NoAttemptStart started pending finish panics =
     panics ''ports: AttemptStart zero value has no classification''"

definition Retryable :: "ExternalClass \<Rightarrow> bool" where
  "Retryable c \<longleftrightarrow> c = ClassRetryableTransport \<or> c = ClassRetryableUpstream"

record AttemptOutcome =
  out_Key :: OutboundKey
  out_N :: int
  out_Class :: ExternalClass
  out_Observation :: Observation
  out_FinishedAt :: Instant
  out_Presumed :: bool

definition MaxAttemptEntries :: nat where
  "MaxAttemptEntries = 64"

datatype FinishResult = NoFinish | FinishRecorded | FinishUnchanged | FinishConflict | FinishSaturated

fun FinishResult_String :: "FinishResult \<Rightarrow> string" where
  "FinishResult_String FinishRecorded = ''recorded''"
| "FinishResult_String FinishUnchanged = ''unchanged''"
| "FinishResult_String FinishConflict = ''conflict''"
| "FinishResult_String FinishSaturated = ''saturated''"
| "FinishResult_String NoFinish = ''invalid''"

record Finished =
  fin_Result :: FinishResult
  fin_Recorded :: ExternalClass

datatype ObserveResult = NoObserve | ObserveRecorded | ObserveDuplicate | ObserveConflict | ObserveSaturated

fun ObserveResult_String :: "ObserveResult \<Rightarrow> string" where
  "ObserveResult_String ObserveRecorded = ''recorded''"
| "ObserveResult_String ObserveDuplicate = ''duplicate''"
| "ObserveResult_String ObserveConflict = ''conflict''"
| "ObserveResult_String ObserveSaturated = ''saturated''"
| "ObserveResult_String NoObserve = ''invalid''"

record Observed =
  obd_Result :: ObserveResult
  obd_N :: int
  obd_Class :: ExternalClass
  obd_QueriesDone :: int

record AttemptCursor =
  cur_StartedAt :: Instant
  cur_Tenant :: TenantID
  cur_Key :: OutboundKey
  cur_N :: int

definition cursor_zero :: AttemptCursor where
  "cursor_zero = \<lparr>cur_StartedAt = 0, cur_Tenant = [], cur_Key = [], cur_N = 0\<rparr>"

definition Attempt_Cursor :: "Attempt \<Rightarrow> AttemptCursor" where
  "Attempt_Cursor a =
     \<lparr>cur_StartedAt = att_StartedAt a, cur_Tenant = att_Tenant a, cur_Key = att_Key a, cur_N = att_N a\<rparr>"

section \<open>Labels\<close>

text \<open>
  The labels reported to instrumentation tell the declared values apart: two classes share a label
  only when neither is declared.
\<close>

definition declared_class :: "ExternalClass \<Rightarrow> bool" where
  "declared_class c \<longleftrightarrow> (case c of NoClass \<Rightarrow> False | InvalidClass _ \<Rightarrow> False | _ \<Rightarrow> True)"

lemma ExternalClass_String_inject:
  "declared_class c \<Longrightarrow> ExternalClass_String c = ExternalClass_String d \<longleftrightarrow> c = d"
  by (cases c; cases d) (simp_all add: declared_class_def)

lemma Finding_String_inject:
  "(\<forall>n. f \<noteq> InvalidFinding n) \<Longrightarrow> Finding_String f = Finding_String g \<longleftrightarrow> f = g"
  by (cases f; cases g) simp_all

lemma slot_mark_reads:
  "slot_class s \<noteq> None \<Longrightarrow> ExternalClassFrom (MarkExternalClass c s) = (c, c \<noteq> NoClass)"
  "slot_idempotency s \<noteq> None \<Longrightarrow> IdempotencyOutcomeFrom (MarkIdempotency x s) = (x, x \<noteq> IdempotencyNone)"
  "slot_conflict s \<noteq> None \<Longrightarrow> ExternalConflictFrom (MarkExternalConflict s)"
  "slot_saturation s \<noteq> None \<Longrightarrow> ExternalSaturationFrom (MarkExternalSaturation s)"
  by (auto simp: slot_defs)

end
