(* ===== verification/Memory_Ledger.thy ===== *)
theory Memory_Ledger
  imports Ports_External "HOL-Library.Multiset"
begin

text \<open>
  The attempt ledger of the in-memory realization, \<^verbatim>\<open>libs/backend/go/memory/attempt_ledger.go\<close>, over the
  part of the transaction it touches: the map from a tenant and an outbound key to the attempts of that
  key, oldest first. The map is an association list with distinct keys; \<open>Stale\<close> iterates over it, and
  its answer is shown not to depend on the order.

  \<open>scopedKey\<close>, of \<^verbatim>\<open>memory/store.go\<close>, is here because the ledger and the tables both scope by it.
  The step relation \<open>ledger_step\<close> has one rule per operation that writes; the invariant and the
  permanence of what was recorded are proved over it.
\<close>

section \<open>Scoping by tenant\<close>

record 'id rowKey =
  rk_tenant :: TenantID
  rk_id :: 'id

definition scopedKey :: "carrier \<Rightarrow> 'id \<Rightarrow> 'id rowKey result" where
  "scopedKey ctx i =
     res_bind (RequireExecutionContext ctx) (\<lambda>execution.
       case ec_Tenant execution of
         None \<Rightarrow> Fail ErrTenantUnresolved
       | Some tenant \<Rightarrow> Ok \<lparr>rk_tenant = tenant, rk_id = i\<rparr>)"

section \<open>Rows\<close>

record attemptKey =
  ak_tenant :: TenantID
  ak_key :: OutboundKey

record attemptConflict =
  con_class :: ExternalClass
  con_finding :: Finding
  con_at :: Instant

record attemptRow =
  ar_messageID :: MessageID
  ar_startedAt :: Instant
  ar_finished :: bool
  ar_finishedAt :: Instant
  ar_class :: ExternalClass
  ar_observation :: Observation
  ar_finding :: Finding
  ar_observedAt :: Instant
  ar_seen :: "string list"
  ar_queries :: int
  ar_conflicts :: "attemptConflict list"

type_synonym attempts = "(attemptKey \<times> attemptRow list) list"

definition new_row :: "MessageID \<Rightarrow> Instant \<Rightarrow> attemptRow" where
  "new_row message now =
     \<lparr>ar_messageID = message, ar_startedAt = now, ar_finished = False, ar_finishedAt = 0,
      ar_class = NoClass, ar_observation = obs_zero, ar_finding = NoFinding, ar_observedAt = 0,
      ar_seen = [], ar_queries = 0, ar_conflicts = []\<rparr>"

definition row_saturated :: "attemptRow \<Rightarrow> bool" where
  "row_saturated r \<longleftrightarrow> length (ar_seen r) \<ge> MaxAttemptEntries \<or> length (ar_conflicts r) \<ge> MaxAttemptEntries"

definition rows_of :: "attempts \<Rightarrow> attemptKey \<Rightarrow> attemptRow list" where
  "rows_of attempts scope = (case map_of attempts scope of None \<Rightarrow> [] | Some rows \<Rightarrow> rows)"

definition ledger_scope :: "carrier \<Rightarrow> OutboundKey \<Rightarrow> attemptKey result" where
  "ledger_scope ctx key =
     res_map (\<lambda>scoped. \<lparr>ak_tenant = rk_tenant scoped, ak_key = key\<rparr>) (scopedKey ctx key)"

definition attemptOf :: "attemptKey \<Rightarrow> nat \<Rightarrow> attemptRow \<Rightarrow> Attempt" where
  "attemptOf scope n row =
     \<lparr>att_Tenant = ak_tenant scope, att_Key = ak_key scope, att_N = int n,
      att_MessageID = ar_messageID row, att_StartedAt = ar_startedAt row\<rparr>"

definition terminal :: "Finding \<Rightarrow> bool" where
  "terminal f \<longleftrightarrow> f = FindingApplied \<or> f = FindingRejected"

definition validClass :: "ExternalClass \<Rightarrow> bool" where
  "validClass c \<longleftrightarrow> (case c of NoClass \<Rightarrow> False | InvalidClass _ \<Rightarrow> False | _ \<Rightarrow> True)"

definition validFinding :: "Finding \<Rightarrow> bool" where
  "validFinding f \<longleftrightarrow> (case f of NoFinding \<Rightarrow> False | InvalidFinding _ \<Rightarrow> False | _ \<Rightarrow> True)"

definition validOutcome :: "AttemptOutcome \<Rightarrow> unit result" where
  "validOutcome ao =
     (if out_Key ao = [] then FailWith ErrInvalidAttempt ''memory: finish: empty key''
      else if out_N ao < 1 then FailWith ErrInvalidAttempt ''memory: finish: attempt''
      else if \<not> validClass (out_Class ao) then FailWith ErrInvalidAttempt ''memory: finish: class''
      else if obs_Key (out_Observation ao) \<noteq> [] \<and> obs_Key (out_Observation ao) \<noteq> out_Key ao
        then FailWith ErrInvalidAttempt ''memory: finish: observation of another key''
      else if obs_Finding (out_Observation ao) \<noteq> NoFinding \<and> \<not> validFinding (obs_Finding (out_Observation ao))
        then FailWith ErrInvalidAttempt ''memory: finish: finding''
      else Ok ())"

definition validObservation :: "Observation \<Rightarrow> unit result" where
  "validObservation ob =
     (if obs_Key ob = [] then FailWith ErrInvalidAttempt ''memory: observe: empty key''
      else if obs_ID ob = [] then FailWith ErrInvalidAttempt ''memory: observe: empty observation ID''
      else if \<not> validFinding (obs_Finding ob) then FailWith ErrInvalidAttempt ''memory: observe: finding''
      else Ok ())"

section \<open>Begin\<close>

text \<open>The loop from the last attempt to the first, for one this message already concluded.\<close>

primrec find_done :: "MessageID \<Rightarrow> attemptRow list \<Rightarrow> nat \<Rightarrow> nat option" where
  "find_done message rows 0 = None"
| "find_done message rows (Suc i) =
     (let r = rows ! i in
      if ar_finished r \<and> ar_messageID r = message \<and> \<not> Retryable (ar_class r) then Some i
      else find_done message rows i)"

definition Begin :: "carrier \<Rightarrow> OutboundKey \<Rightarrow> MessageID \<Rightarrow> Instant \<Rightarrow> attempts \<Rightarrow> attempts \<times> AttemptStart result" where
  "Begin ctx key message now attempts =
     (if key = [] then (attempts, FailWith ErrInvalidAttempt ''memory: begin: empty key'')
      else if message = [] then (attempts, FailWith ErrInvalidAttempt ''memory: begin: empty message ID'')
      else case ledger_scope ctx key of
        Err e \<Rightarrow> (attempts, Err e)
      | Panic m \<Rightarrow> (attempts, Panic m)
      | Ok scope \<Rightarrow>
          let rows = rows_of attempts scope; n = length rows in
          case find_done message rows n of
            Some i \<Rightarrow> (attempts, Ok (DoneAttempt (attemptOf scope (i + 1) (rows ! i)) (ar_class (rows ! i))))
          | None \<Rightarrow>
              if n > 0 \<and> \<not> ar_finished (rows ! (n - 1))
              then (attempts, Ok (PendingAttempt (attemptOf scope n (rows ! (n - 1)))))
              else let row = new_row message now in
                (AList.update scope (rows @ [row]) attempts, Ok (StartedAttempt (attemptOf scope (n + 1) row))))"

section \<open>Finish\<close>

definition record_outcome :: "AttemptOutcome \<Rightarrow> attemptRow \<Rightarrow> attemptRow" where
  "record_outcome ao row =
     (let row1 = row\<lparr>ar_finished := True, ar_finishedAt := out_FinishedAt ao, ar_class := out_Class ao\<rparr>;
          ob = out_Observation ao;
          row2 = (if obs_ID ob \<noteq> [] \<or> obs_Finding ob \<noteq> NoFinding
                  then row1\<lparr>ar_observation := ob, ar_finding := obs_Finding ob, ar_observedAt := out_FinishedAt ao\<rparr>
                  else row1)
      in if obs_ID ob \<noteq> [] then row2\<lparr>ar_seen := ar_seen row2 @ [obs_ID ob]\<rparr> else row2)"

definition finish_row :: "AttemptOutcome \<Rightarrow> attemptRow \<Rightarrow> attemptRow \<times> Finished" where
  "finish_row ao row =
     (if \<not> ar_finished row
        then (record_outcome ao row, \<lparr>fin_Result = FinishRecorded, fin_Recorded = out_Class ao\<rparr>)
      else if ar_class row = out_Class ao \<or> out_Presumed ao
        then (row, \<lparr>fin_Result = FinishUnchanged, fin_Recorded = ar_class row\<rparr>)
      else if row_saturated row
        then (row, \<lparr>fin_Result = FinishSaturated, fin_Recorded = ar_class row\<rparr>)
      else (row\<lparr>ar_conflicts := ar_conflicts row @
               [\<lparr>con_class = out_Class ao, con_finding = NoFinding, con_at = out_FinishedAt ao\<rparr>]\<rparr>,
            \<lparr>fin_Result = FinishConflict, fin_Recorded = ar_class row\<rparr>))"

definition Finish :: "carrier \<Rightarrow> AttemptOutcome \<Rightarrow> attempts \<Rightarrow> attempts \<times> Finished result" where
  "Finish ctx ao attempts =
     (case validOutcome ao of
        Err e \<Rightarrow> (attempts, Err e)
      | Panic m \<Rightarrow> (attempts, Panic m)
      | Ok _ \<Rightarrow>
          (case ledger_scope ctx (out_Key ao) of
             Err e \<Rightarrow> (attempts, Err e)
           | Panic m \<Rightarrow> (attempts, Panic m)
           | Ok scope \<Rightarrow>
               let rows = rows_of attempts scope in
               if out_N ao > int (length rows)
               then (attempts, FailWith ErrAttemptUnknown ''memory: finish attempt'')
               else let i = nat (out_N ao - 1); (row, finished) = finish_row ao (rows ! i) in
                 (AList.update scope (rows[i := row]) attempts, Ok finished)))"

section \<open>Observe\<close>

definition observe_row :: "Observation \<Rightarrow> Instant \<Rightarrow> nat \<Rightarrow> attemptRow \<Rightarrow> attemptRow \<times> Observed" where
  "observe_row ob now n row =
     (let observed = (\<lambda>result queries.
            \<lparr>obd_Result = result, obd_N = int n, obd_Class = ar_class row, obd_QueriesDone = queries\<rparr>);
          full = row_saturated row in
      if obs_ID ob \<in> set (ar_seen row) then (row, observed ObserveDuplicate (ar_queries row))
      else if full \<and> terminal (ar_finding row) \<and> obs_Finding ob = ar_finding row
        then (row, observed ObserveDuplicate (ar_queries row))
      else if full \<and> (terminal (ar_finding row) \<or> \<not> terminal (obs_Finding ob))
        then (row, observed ObserveSaturated (ar_queries row))
      else let row1 = (if \<not> full then row\<lparr>ar_seen := ar_seen row @ [obs_ID ob]\<rparr> else row) in
        if terminal (ar_finding row1) then
          (if \<not> terminal (obs_Finding ob) \<or> obs_Finding ob = ar_finding row1
             then (row1, observed ObserveDuplicate (ar_queries row))
           else (row1\<lparr>ar_conflicts := ar_conflicts row1 @
                   [\<lparr>con_class = NoClass, con_finding = obs_Finding ob, con_at = now\<rparr>]\<rparr>,
                 observed ObserveConflict (ar_queries row)))
        else
          (let row2 = row1\<lparr>ar_observation := ob, ar_finding := obs_Finding ob, ar_observedAt := now,
                 ar_queries := wrap64 (ar_queries row1 + 1)\<rparr>
           in (row2, observed ObserveRecorded (ar_queries row2))))"

definition Observe :: "carrier \<Rightarrow> Observation \<Rightarrow> Instant \<Rightarrow> attempts \<Rightarrow> attempts \<times> Observed result" where
  "Observe ctx ob now attempts =
     (case validObservation ob of
        Err e \<Rightarrow> (attempts, Err e)
      | Panic m \<Rightarrow> (attempts, Panic m)
      | Ok _ \<Rightarrow>
          (case ledger_scope ctx (obs_Key ob) of
             Err e \<Rightarrow> (attempts, Err e)
           | Panic m \<Rightarrow> (attempts, Panic m)
           | Ok scope \<Rightarrow>
               let rows = rows_of attempts scope; n = length rows in
               if n = 0 then (attempts, FailWith ErrAttemptUnknown ''memory: observe'')
               else if \<not> ar_finished (rows ! (n - 1))
                 then (attempts, FailWith ErrAttemptInFlight ''memory: observe attempt'')
               else let (row, observed) = observe_row ob now n (rows ! (n - 1)) in
                 (AList.update scope (rows[n - 1 := row]) attempts, Ok observed)))"

section \<open>Stale\<close>

definition cmp_Compare :: "'a :: linorder \<Rightarrow> 'a \<Rightarrow> int" where
  "cmp_Compare a b = (if a < b then - 1 else if b < a then 1 else 0)"

fun cmp_Or :: "int list \<Rightarrow> int" where
  "cmp_Or [] = 0"
| "cmp_Or (x # xs) = (if x \<noteq> 0 then x else cmp_Or xs)"

definition compareCursor :: "AttemptCursor \<Rightarrow> AttemptCursor \<Rightarrow> int" where
  "compareCursor a b =
     cmp_Or [cmp_Compare (cur_StartedAt a) (cur_StartedAt b), cmp_Compare (cur_Tenant a) (cur_Tenant b),
       cmp_Compare (cur_Key a) (cur_Key b), cmp_Compare (cur_N a) (cur_N b)]"

text \<open>\<open>slices.SortFunc\<close>: a permutation sorted by the comparison.\<close>

fun insert_func :: "('a \<Rightarrow> 'a \<Rightarrow> int) \<Rightarrow> 'a \<Rightarrow> 'a list \<Rightarrow> 'a list" where
  "insert_func cmp x [] = [x]"
| "insert_func cmp x (y # ys) = (if cmp x y \<le> 0 then x # y # ys else y # insert_func cmp x ys)"

definition SortFunc :: "('a \<Rightarrow> 'a \<Rightarrow> int) \<Rightarrow> 'a list \<Rightarrow> 'a list" where
  "SortFunc cmp xs = foldr (insert_func cmp) xs []"

definition stale_row :: "Instant \<Rightarrow> AttemptCursor \<Rightarrow> attemptKey \<Rightarrow> nat \<Rightarrow> attemptRow \<Rightarrow> bool" where
  "stale_row cutoff after scope n row \<longleftrightarrow>
     \<not> ar_finished row \<and> ar_startedAt row \<le> cutoff \<and>
     (after = cursor_zero \<or> compareCursor (Attempt_Cursor (attemptOf scope n row)) after > 0)"

definition stale_of :: "Instant \<Rightarrow> AttemptCursor \<Rightarrow> attemptKey \<times> attemptRow list \<Rightarrow> Attempt list" where
  "stale_of cutoff after entry =
     (case entry of (scope, rows) \<Rightarrow>
        map (\<lambda>i. attemptOf scope (i + 1) (rows ! i))
          (filter (\<lambda>i. stale_row cutoff after scope (i + 1) (rows ! i)) [0 ..< length rows]))"

definition Stale :: "Instant \<Rightarrow> AttemptCursor \<Rightarrow> int \<Rightarrow> attempts \<Rightarrow> Attempt list result" where
  "Stale cutoff after limit attempts =
     (if limit < 1 then FailWith ErrInvalidAttempt ''memory: stale limit''
      else let stale = concat (map (stale_of cutoff after) attempts) in
        Ok (take (nat limit) (SortFunc (\<lambda>a b. compareCursor (Attempt_Cursor a) (Attempt_Cursor b)) stale)))"

section \<open>The step relation\<close>

inductive ledger_step :: "attempts \<Rightarrow> attempts \<Rightarrow> bool" where
  begin_step: "Begin ctx key message now a = (a', r) \<Longrightarrow> ledger_step a a'"
| finish_step: "Finish ctx ao a = (a', r') \<Longrightarrow> ledger_step a a'"
| observe_step: "Observe ctx ob now a = (a', r'') \<Longrightarrow> ledger_step a a'"

definition row_ok :: "attemptRow \<Rightarrow> bool" where
  "row_ok r \<longleftrightarrow>
     length (ar_seen r) \<le> MaxAttemptEntries \<and> length (ar_conflicts r) \<le> MaxAttemptEntries \<and>
     distinct (ar_seen r) \<and>
     0 \<le> ar_queries r \<and> ar_queries r \<le> int (length (ar_seen r)) + of_bool (terminal (ar_finding r)) \<and>
     (if ar_finished r then validClass (ar_class r)
      else ar_class r = NoClass \<and> ar_finding r = NoFinding \<and> ar_seen r = [] \<and> ar_conflicts r = [])"

definition rows_ok :: "attemptRow list \<Rightarrow> bool" where
  "rows_ok rows \<longleftrightarrow> list_all row_ok rows \<and> list_all ar_finished (butlast rows)"

definition ledger_ok :: "attempts \<Rightarrow> bool" where
  "ledger_ok a \<longleftrightarrow> distinct (map fst a) \<and> (\<forall>scope. rows_ok (rows_of a scope))"

lemma terminal_simps [simp]:
  "terminal FindingApplied" "terminal FindingRejected" "\<not> terminal NoFinding" "\<not> terminal FindingAbsent"
  "\<not> terminal FindingPending" "\<not> terminal FindingInconclusive" "\<not> terminal (InvalidFinding n)"
  by (simp_all add: terminal_def)

lemma rows_of_Nil [simp]: "rows_of [] scope = []"
  by (simp add: rows_of_def)

lemma rows_of_update [simp]:
  "rows_of (AList.update scope rows a) scope' = (if scope' = scope then rows else rows_of a scope')"
  by (simp add: rows_of_def)

lemma ledger_scope_no_panic [simp]: "ledger_scope ctx key \<noteq> Panic m"
  by (auto simp: ledger_scope_def scopedKey_def RequireExecutionContext_def split: option.splits)

lemma validOutcome_no_panic [simp]: "validOutcome ao \<noteq> Panic m"
  by (simp add: validOutcome_def)

lemma validObservation_no_panic [simp]: "validObservation ob \<noteq> Panic m"
  by (simp add: validObservation_def)

section \<open>Each operation on one row\<close>

lemma new_row_ok [simp]: "row_ok (new_row message now)" "\<not> ar_finished (new_row message now)"
  by (simp_all add: row_ok_def new_row_def)

lemma record_outcome_ok:
  "row_ok r \<Longrightarrow> \<not> ar_finished r \<Longrightarrow> validClass (out_Class ao) \<Longrightarrow>
     row_ok (record_outcome ao r) \<and> ar_finished (record_outcome ao r) \<and> ar_class (record_outcome ao r) = out_Class ao"
  by (auto simp: row_ok_def record_outcome_def Let_def MaxAttemptEntries_def)

lemma finish_row_ok:
  "row_ok r \<Longrightarrow> validClass (out_Class ao) \<Longrightarrow> row_ok (fst (finish_row ao r)) \<and> ar_finished (fst (finish_row ao r))"
  by (auto simp: finish_row_def record_outcome_ok) (auto simp: row_ok_def row_saturated_def)

lemma queries_small: "row_ok r \<Longrightarrow> ar_queries r \<le> 65"
  by (cases "terminal (ar_finding r)") (auto simp: row_ok_def MaxAttemptEntries_def)

lemma wrap_queries: "row_ok r \<Longrightarrow> wrap64 (ar_queries r + 1) = ar_queries r + 1"
proof (rule wrap64_id)
  assume r: "row_ok r"
  then have "0 \<le> ar_queries r" by (simp add: row_ok_def)
  with queries_small [OF r] show "int64 (ar_queries r + 1)" by (simp add: int64_def)
qed

lemma observe_row_ok:
  assumes "row_ok r" "ar_finished r"
  shows "row_ok (fst (observe_row ob now n r)) \<and> ar_finished (fst (observe_row ob now n r))"
  using assms wrap_queries [OF assms(1)]
  by (auto simp: observe_row_def Let_def row_ok_def row_saturated_def)

text \<open>What is recorded stays: the class of a finished attempt and its first terminal finding.\<close>

definition kept :: "attemptRow \<Rightarrow> attemptRow \<Rightarrow> bool" where
  "kept r r' \<longleftrightarrow> ar_messageID r' = ar_messageID r \<and> ar_startedAt r' = ar_startedAt r \<and>
     (ar_finished r \<longrightarrow> ar_finished r' \<and> ar_class r' = ar_class r \<and> ar_finishedAt r' = ar_finishedAt r) \<and>
     (ar_finished r \<and> terminal (ar_finding r) \<longrightarrow> ar_finding r' = ar_finding r)"

lemma kept_refl [simp]: "kept r r"
  by (simp add: kept_def)

lemma kept_trans: "kept r r' \<Longrightarrow> kept r' r'' \<Longrightarrow> kept r r''"
  by (auto simp: kept_def)

lemma finish_row_kept: "kept r (fst (finish_row ao r))"
  by (auto simp: kept_def finish_row_def record_outcome_def Let_def)

lemma observe_row_kept: "ar_finished r \<Longrightarrow> kept r (fst (observe_row ob now n r))"
  by (auto simp: kept_def observe_row_def Let_def)

section \<open>The invariant\<close>

lemma rows_ok_nth: "rows_ok rows \<Longrightarrow> i < length rows \<Longrightarrow> row_ok (rows ! i)"
  by (simp add: rows_ok_def list_all_length)

lemma rows_ok_update:
  assumes "rows_ok rows" "i < length rows" "row_ok r" "ar_finished r"
  shows "rows_ok (rows[i := r])"
  using assms by (auto simp: rows_ok_def list_all_length butlast_list_update nth_list_update)

lemma rows_ok_append:
  assumes "rows_ok rows" "rows \<noteq> [] \<Longrightarrow> ar_finished (last rows)" "row_ok r"
  shows "rows_ok (rows @ [r])"
proof -
  have "list_all ar_finished rows"
    using assms(1,2) by (cases rows rule: rev_cases) (simp_all add: rows_ok_def)
  with assms(1,3) show ?thesis
    by (simp add: rows_ok_def)
qed

lemma ledger_ok_update:
  "ledger_ok a \<Longrightarrow> rows_ok rows \<Longrightarrow> ledger_ok (AList.update scope rows a)"
  by (simp add: ledger_ok_def)

lemma Begin_cases:
  assumes "Begin ctx key message now a = (a', r)"
  obtains (refused) e where "a' = a" "r = Err e"
  | (concluded) scope i where "ledger_scope ctx key = Ok scope" "a' = a"
      "find_done message (rows_of a scope) (length (rows_of a scope)) = Some i"
      "r = Ok (DoneAttempt (attemptOf scope (i + 1) (rows_of a scope ! i)) (ar_class (rows_of a scope ! i)))"
  | (in_flight) scope where "ledger_scope ctx key = Ok scope" "a' = a"
      "find_done message (rows_of a scope) (length (rows_of a scope)) = None"
      "rows_of a scope \<noteq> []" "\<not> ar_finished (last (rows_of a scope))"
      "r = Ok (PendingAttempt (attemptOf scope (length (rows_of a scope)) (last (rows_of a scope))))"
  | (started) scope where "ledger_scope ctx key = Ok scope"
      "find_done message (rows_of a scope) (length (rows_of a scope)) = None"
      "rows_of a scope \<noteq> [] \<Longrightarrow> ar_finished (last (rows_of a scope))"
      "a' = AList.update scope (rows_of a scope @ [new_row message now]) a"
      "r = Ok (StartedAttempt (attemptOf scope (length (rows_of a scope) + 1) (new_row message now)))"
proof (cases "key = [] \<or> message = []")
  case True
  with assms have "a' = a \<and> (\<exists>e. r = Err e)"
    by (auto simp: Begin_def split: if_splits)
  with refused show thesis
    by blast
next
  case False
  show thesis
  proof (cases "ledger_scope ctx key")
    case (Ok scope)
    let ?rows = "rows_of a scope"
    show thesis
    proof (cases "find_done message ?rows (length ?rows)")
      case (Some i)
      with False Ok assms have "a' = a"
        "r = Ok (DoneAttempt (attemptOf scope (i + 1) (?rows ! i)) (ar_class (?rows ! i)))"
        by (auto simp: Begin_def Let_def)
      with concluded [OF Ok _ Some] show thesis
        by blast
    next
      case None
      show thesis
      proof (cases "?rows \<noteq> [] \<and> \<not> ar_finished (last ?rows)")
        case True
        with False Ok None assms have "a' = a"
          "r = Ok (PendingAttempt (attemptOf scope (length ?rows) (last ?rows)))"
          by (auto simp: Begin_def Let_def last_conv_nth)
        with True in_flight [OF Ok _ None] show thesis
          by blast
      next
        case fresh: False
        with False Ok None assms have "a' = AList.update scope (?rows @ [new_row message now]) a"
          "r = Ok (StartedAttempt (attemptOf scope (length ?rows + 1) (new_row message now)))"
          by (auto simp: Begin_def Let_def last_conv_nth split: if_splits)
        with fresh started [OF Ok None] show thesis
          by blast
      qed
    qed
  next
    case (Err e)
    with False assms have "a' = a \<and> (\<exists>e. r = Err e)"
      by (auto simp: Begin_def split: if_splits)
    with refused show thesis
      by blast
  qed simp
qed

lemma Begin_ok [go_inv]:
  assumes "ledger_ok a" "Begin ctx key message now a = (a', r)"
  shows "ledger_ok a'"
  using assms(2)
proof (cases rule: Begin_cases)
  case (started scope)
  with assms(1) show ?thesis
    by (simp add: ledger_ok_update rows_ok_append ledger_ok_def)
qed (simp_all add: assms(1))

lemma validOutcome_Ok:
  "validOutcome ao = Ok u \<Longrightarrow> validClass (out_Class ao) \<and> 1 \<le> out_N ao \<and> out_Key ao \<noteq> []"
  by (auto simp: validOutcome_def split: if_splits)

lemma Finish_cases:
  assumes "Finish ctx ao a = (a', r)"
  obtains (refused) e where "a' = a" "r = Err e"
  | (finished) scope i row f where "ledger_scope ctx (out_Key ao) = Ok scope" "validOutcome ao = Ok ()"
      "i = nat (out_N ao - 1)" "i < length (rows_of a scope)" "finish_row ao (rows_of a scope ! i) = (row, f)"
      "a' = AList.update scope ((rows_of a scope)[i := row]) a" "r = Ok f"
proof (cases "validOutcome ao")
  case ok: (Ok u)
  show thesis
  proof (cases "ledger_scope ctx (out_Key ao)")
    case (Ok scope)
    show thesis
    proof (cases "out_N ao > int (length (rows_of a scope))")
      case True
      with ok Ok assms have "a' = a \<and> (\<exists>e. r = Err e)"
        by (auto simp: Finish_def split: if_splits)
      with refused show thesis
        by blast
    next
      case False
      obtain row f where row: "finish_row ao (rows_of a scope ! nat (out_N ao - 1)) = (row, f)"
        by fastforce
      have "nat (out_N ao - 1) < length (rows_of a scope)"
        using False validOutcome_Ok [OF ok] by linarith
      moreover have "a' = AList.update scope ((rows_of a scope)[nat (out_N ao - 1) := row]) a" "r = Ok f"
        using False ok Ok assms row by (simp_all add: Finish_def)
      ultimately show thesis
        using finished [OF Ok _ refl _ row] ok by simp
    qed
  next
    case (Err e)
    with ok assms have "a' = a \<and> (\<exists>e. r = Err e)"
      by (auto simp: Finish_def split: if_splits)
    with refused show thesis
      by blast
  qed simp
next
  case (Err e)
  with assms have "a' = a \<and> (\<exists>e. r = Err e)"
    by (auto simp: Finish_def split: if_splits)
  with refused show thesis
    by blast
qed simp

lemma Observe_cases:
  assumes "Observe ctx ob now a = (a', r)"
  obtains (refused) e where "a' = a" "r = Err e"
  | (observed) scope n row f where "ledger_scope ctx (obs_Key ob) = Ok scope"
      "n = length (rows_of a scope)" "0 < n" "ar_finished (rows_of a scope ! (n - 1))"
      "observe_row ob now n (rows_of a scope ! (n - 1)) = (row, f)"
      "a' = AList.update scope ((rows_of a scope)[n - 1 := row]) a" "r = Ok f"
proof (cases "validObservation ob")
  case ok: (Ok u)
  show thesis
  proof (cases "ledger_scope ctx (obs_Key ob)")
    case (Ok scope)
    let ?rows = "rows_of a scope"
    obtain row f where row: "observe_row ob now (length ?rows) (?rows ! (length ?rows - 1)) = (row, f)"
      by fastforce
    show thesis
    proof (cases "0 < length ?rows \<and> ar_finished (?rows ! (length ?rows - 1))")
      case True
      with ok Ok assms row have "a' = AList.update scope (?rows[length ?rows - 1 := row]) a" "r = Ok f"
        by (simp_all add: Observe_def Let_def)
      with True observed [OF Ok refl _ _ row] show thesis
        by simp
    next
      case False
      with ok Ok assms have "a' = a \<and> (\<exists>e. r = Err e)"
        by (auto simp: Observe_def Let_def split: if_splits)
      with refused show thesis
        by blast
    qed
  next
    case (Err e)
    with ok assms have "a' = a \<and> (\<exists>e. r = Err e)"
      by (auto simp: Observe_def split: if_splits)
    with refused show thesis
      by blast
  qed simp
next
  case (Err e)
  with assms have "a' = a \<and> (\<exists>e. r = Err e)"
    by (auto simp: Observe_def split: if_splits)
  with refused show thesis
    by blast
qed simp

lemma Finish_ok [go_inv]:
  assumes "ledger_ok a" "Finish ctx ao a = (a', r)"
  shows "ledger_ok a'"
  using assms(2)
proof (cases rule: Finish_cases)
  case (finished scope i row f)
  have "row_ok row \<and> ar_finished row"
    using finish_row_ok [of "rows_of a scope ! i" ao] rows_ok_nth [OF _ finished(4)] assms(1) finished(2,5)
      validOutcome_Ok by (auto simp: ledger_ok_def)
  with assms(1) finished(4,6) show ?thesis
    by (simp add: ledger_ok_update rows_ok_update ledger_ok_def)
qed (simp add: assms(1))

lemma Observe_ok [go_inv]:
  assumes "ledger_ok a" "Observe ctx ob now a = (a', r)"
  shows "ledger_ok a'"
  using assms(2)
proof (cases rule: Observe_cases)
  case (observed scope n row f)
  have "row_ok row \<and> ar_finished row"
    using observe_row_ok [of "rows_of a scope ! (n - 1)" ob now n] rows_ok_nth [of "rows_of a scope" "n - 1"]
      assms(1) observed(2-5) by (auto simp: ledger_ok_def)
  with assms(1) observed(2,3,6) show ?thesis
    by (simp add: ledger_ok_update rows_ok_update ledger_ok_def)
qed (simp add: assms(1))

lemma ledger_step_ok: "ledger_step a a' \<Longrightarrow> ledger_ok a \<Longrightarrow> ledger_ok a'"
  by (induction rule: ledger_step.induct) (auto intro: go_inv)

lemma ledger_ok_Nil [simp]: "ledger_ok []"
  by (simp add: ledger_ok_def rows_ok_def)

lemma ledger_reachable_ok: "ledger_step\<^sup>*\<^sup>* a b \<Longrightarrow> ledger_ok a \<Longrightarrow> ledger_ok b"
  by (induction rule: rtranclp_induct) (auto intro: ledger_step_ok)

text \<open>
  Every state the ledger reaches satisfies its invariant. At most the last attempt of a key is in
  flight, so a key never has two calls to the partner outstanding; an attempt in flight has no class and
  no finding; a finished one has one of the nine classes; no attempt keeps more than 64 observation
  identifiers or 64 conflicts, no observation is counted twice, and the counter of queries is bounded
  by the observations kept.
\<close>

theorem ledger_invariant:
  assumes "ledger_step\<^sup>*\<^sup>* [] a"
  shows "rows_ok (rows_of a scope) \<and> distinct (map fst a) \<and>
    list_all (\<lambda>r. length (ar_seen r) \<le> 64 \<and> length (ar_conflicts r) \<le> 64 \<and> distinct (ar_seen r) \<and>
       ar_queries r \<le> 65 \<and> (ar_finished r \<or> ar_class r = NoClass)) (rows_of a scope)"
proof -
  have ok: "ledger_ok a"
    using ledger_reachable_ok [OF assms] by simp
  then have "list_all row_ok (rows_of a scope)"
    by (simp add: ledger_ok_def rows_ok_def)
  then have "list_all (\<lambda>r. length (ar_seen r) \<le> 64 \<and> length (ar_conflicts r) \<le> 64 \<and> distinct (ar_seen r) \<and>
       ar_queries r \<le> 65 \<and> (ar_finished r \<or> ar_class r = NoClass)) (rows_of a scope)"
    by (rule list.pred_mono_strong) (auto simp: queries_small row_ok_def MaxAttemptEntries_def split: if_splits)
  with ok show ?thesis
    by (simp add: ledger_ok_def)
qed

definition sample_context :: carrier where
  "sample_context = background\<lparr>ctx_execution := Some \<lparr>ec_requestID = ''r'', ec_correlationID = ''c'',
     ec_causationID = [], ec_traceContext = ''t'', ec_subject = [], ec_tenant = ''t-1'', ec_permissions = [],
     ec_deadline = 100, ec_locale = ''en'', ec_hasCausation = False, ec_hasSubject = False,
     ec_hasTenant = True\<rparr>\<rparr>"

definition sample_scope :: attemptKey where
  "sample_scope = \<lparr>ak_tenant = ''t-1'', ak_key = ''k''\<rparr>"

definition sample_outcome :: AttemptOutcome where
  "sample_outcome = \<lparr>out_Key = ''k'', out_N = 1, out_Class = ClassAccepted, out_Observation = obs_zero,
     out_FinishedAt = 20, out_Presumed = False\<rparr>"

lemma sample_scope_eq: "ledger_scope sample_context ''k'' = Ok sample_scope"
  by (simp add: ledger_scope_def scopedKey_def RequireExecutionContext_def ExecutionContextFrom_def
      sample_context_def ec_Tenant_def sample_scope_def)

definition sample_begun :: attempts where
  "sample_begun = [(sample_scope, [new_row ''m'' 10])]"

definition sample_finished :: attempts where
  "sample_finished = [(sample_scope, [record_outcome sample_outcome (new_row ''m'' 10)])]"

lemma sample_begin_step: "ledger_step [] sample_begun"
proof (rule begin_step)
  show "Begin sample_context ''k'' ''m'' 10 [] =
    (sample_begun, Ok (StartedAttempt (attemptOf sample_scope 1 (new_row ''m'' 10))))"
    by (simp add: Begin_def sample_scope_eq sample_begun_def Let_def)
qed

lemma sample_finish_step: "ledger_step sample_begun sample_finished"
proof (rule finish_step)
  show "Finish sample_context sample_outcome sample_begun =
    (sample_finished, Ok \<lparr>fin_Result = FinishRecorded, fin_Recorded = ClassAccepted\<rparr>)"
    by (simp add: Finish_def validOutcome_def validClass_def sample_outcome_def obs_zero_def sample_scope_eq
        sample_begun_def sample_finished_def rows_of_def finish_row_def)
qed

theorem ledger_invariant_witness:
  "rows_ok (rows_of sample_finished sample_scope) \<and> rows_of sample_finished sample_scope \<noteq> []"
proof -
  have "ledger_step\<^sup>*\<^sup>* [] sample_finished"
    using sample_begin_step sample_finish_step by (rule converse_rtranclp_into_rtranclp [OF _ r_into_rtranclp])
  from ledger_invariant [OF this, of sample_scope] show ?thesis
    by (simp add: sample_finished_def rows_of_def)
qed

section \<open>What is recorded stays\<close>

definition rows_kept :: "attemptRow list \<Rightarrow> attemptRow list \<Rightarrow> bool" where
  "rows_kept rows rows' \<longleftrightarrow> length rows \<le> length rows' \<and> (\<forall>i < length rows. kept (rows ! i) (rows' ! i))"

lemma rows_kept_refl [simp]: "rows_kept rows rows"
  by (simp add: rows_kept_def)

lemma rows_kept_trans: "rows_kept r r' \<Longrightarrow> rows_kept r' r'' \<Longrightarrow> rows_kept r r''"
  by (auto simp: rows_kept_def intro: kept_trans)

lemma rows_kept_update: "kept (rows ! i) r \<Longrightarrow> rows_kept rows (rows[i := r])"
  by (cases "i < length rows") (auto simp: rows_kept_def nth_list_update)

lemma rows_kept_append [simp]: "rows_kept rows (rows @ rows')"
  by (simp add: rows_kept_def nth_append)

lemma Begin_kept: "Begin ctx key message now a = (a', r) \<Longrightarrow> rows_kept (rows_of a scope) (rows_of a' scope)"
  by (erule Begin_cases) simp_all

lemma Finish_kept: "Finish ctx ao a = (a', r) \<Longrightarrow> rows_kept (rows_of a scope) (rows_of a' scope)"
proof (erule Finish_cases)
  fix s i row f
  assume "finish_row ao (rows_of a s ! i) = (row, f)" "a' = AList.update s ((rows_of a s)[i := row]) a"
  with finish_row_kept [of "rows_of a s ! i" ao] show ?thesis
    by (simp add: rows_kept_update)
qed simp

lemma Observe_kept: "Observe ctx ob now a = (a', r) \<Longrightarrow> rows_kept (rows_of a scope) (rows_of a' scope)"
proof (erule Observe_cases)
  fix s n row f
  assume "ar_finished (rows_of a s ! (n - 1))" "observe_row ob now n (rows_of a s ! (n - 1)) = (row, f)"
    "a' = AList.update s ((rows_of a s)[n - 1 := row]) a"
  with observe_row_kept [of "rows_of a s ! (n - 1)" ob now n] show ?thesis
    by (simp add: rows_kept_update)
qed simp

lemma ledger_step_kept: "ledger_step a a' \<Longrightarrow> rows_kept (rows_of a scope) (rows_of a' scope)"
  by (induction rule: ledger_step.induct) (auto intro: Begin_kept Finish_kept Observe_kept)

lemma ledger_reachable_kept: "ledger_step\<^sup>*\<^sup>* a b \<Longrightarrow> rows_kept (rows_of a scope) (rows_of b scope)"
  by (induction rule: rtranclp_induct) (auto intro: ledger_step_kept rows_kept_trans)

text \<open>
  C4. The ledger is append-only in what it concludes. Once an attempt is finished, no sequence of later
  operations (of any tenant, message or late reply) removes it, changes its class or the time it
  finished; and once an observation recorded a terminal finding, that finding stays.
\<close>

theorem recorded_outcome_is_permanent:
  assumes "ledger_step\<^sup>*\<^sup>* a b" and "i < length (rows_of a scope)" and "ar_finished (rows_of a scope ! i)"
  shows "i < length (rows_of b scope) \<and> ar_finished (rows_of b scope ! i) \<and>
    ar_class (rows_of b scope ! i) = ar_class (rows_of a scope ! i) \<and>
    ar_finishedAt (rows_of b scope ! i) = ar_finishedAt (rows_of a scope ! i) \<and>
    (terminal (ar_finding (rows_of a scope ! i)) \<longrightarrow>
       ar_finding (rows_of b scope ! i) = ar_finding (rows_of a scope ! i))"
  using ledger_reachable_kept [OF assms(1), of scope] assms(2,3) by (auto simp: rows_kept_def kept_def)

theorem recorded_outcome_is_permanent_witness:
  "ar_class (rows_of (fst (Begin sample_context ''k'' ''n'' 30 sample_finished)) sample_scope ! 0) = ClassAccepted"
proof -
  have step: "ledger_step\<^sup>*\<^sup>* sample_finished (fst (Begin sample_context ''k'' ''n'' 30 sample_finished))"
    by (intro r_into_rtranclp begin_step) (rule prod.collapse [symmetric])
  have fin: "0 < length (rows_of sample_finished sample_scope)" "ar_finished (rows_of sample_finished sample_scope ! 0)"
    "ar_class (rows_of sample_finished sample_scope ! 0) = ClassAccepted"
    by (simp_all add: sample_finished_def rows_of_def record_outcome_def sample_outcome_def Let_def)
  from recorded_outcome_is_permanent [OF step fin(1,2)] fin(3) show ?thesis
    by simp
qed

section \<open>Beginning an attempt\<close>

definition concluded_by :: "MessageID \<Rightarrow> attemptRow \<Rightarrow> bool" where
  "concluded_by message r \<longleftrightarrow> ar_finished r \<and> ar_messageID r = message \<and> \<not> Retryable (ar_class r)"

lemma find_done_Some: "find_done message rows n = Some i \<Longrightarrow> i < n \<and> concluded_by message (rows ! i)"
  by (induction n) (auto simp: concluded_by_def Let_def split: if_splits)

lemma find_done_None: "find_done message rows n = None \<Longrightarrow> \<forall>i < n. \<not> concluded_by message (rows ! i)"
  by (induction n) (auto simp: concluded_by_def Let_def less_Suc_eq split: if_splits)

definition begin_spec :: "carrier \<Rightarrow> OutboundKey \<Rightarrow> MessageID \<Rightarrow> Instant \<Rightarrow> attempts \<Rightarrow> attempts \<Rightarrow> AttemptStart result \<Rightarrow> bool" where
  "begin_spec ctx key message now a a' r \<longleftrightarrow>
     (case r of
        Ok (StartedAttempt att) \<Rightarrow>
          (\<exists>scope. ledger_scope ctx key = Ok scope \<and> list_all ar_finished (rows_of a scope) \<and>
            \<not> list_ex (concluded_by message) (rows_of a scope) \<and>
            a' = AList.update scope (rows_of a scope @ [new_row message now]) a \<and>
            att = attemptOf scope (length (rows_of a scope) + 1) (new_row message now))
      | Ok (PendingAttempt att) \<Rightarrow>
          a' = a \<and> (\<exists>scope. ledger_scope ctx key = Ok scope \<and> rows_of a scope \<noteq> [] \<and>
            \<not> ar_finished (last (rows_of a scope)) \<and> att_N att = int (length (rows_of a scope)))
      | Ok (DoneAttempt att c) \<Rightarrow>
          a' = a \<and> (\<exists>scope. ledger_scope ctx key = Ok scope \<and>
            list_ex (\<lambda>row. concluded_by message row \<and> ar_class row = c) (rows_of a scope))
      | Ok NoAttemptStart \<Rightarrow> False
      | Err _ \<Rightarrow> a' = a
      | Panic _ \<Rightarrow> False)"

lemma Begin_spec_holds:
  assumes "ledger_ok a"
  shows "begin_spec ctx key message now a (fst (Begin ctx key message now a)) (snd (Begin ctx key message now a))"
proof -
  obtain a' r where eq: "Begin ctx key message now a = (a', r)"
    by fastforce
  then show ?thesis
  proof (cases rule: Begin_cases)
    case (concluded scope i)
    with eq find_done_Some [OF concluded(3)] show ?thesis
      by (auto simp: begin_spec_def list_ex_length)
  next
    case (in_flight scope)
    with eq show ?thesis
      by (simp add: begin_spec_def attemptOf_def)
  next
    case (started scope)
    have "list_all ar_finished (rows_of a scope)"
      using assms started(3) by (cases "rows_of a scope" rule: rev_cases)
        (auto simp: ledger_ok_def rows_ok_def dest: spec [of _ scope])
    with eq started find_done_None [OF started(2)] show ?thesis
      by (auto simp: begin_spec_def list_ex_length)
  qed (simp add: begin_spec_def eq)
qed

text \<open>
  \<open>Begin\<close> on every branch. A new attempt is written only when every earlier attempt of the key is
  finished and none of them was concluded by the same message with a class no resend follows; it gets
  the next number. An attempt in flight is reported and nothing is written; so is one this message
  concluded; and an error writes nothing. In particular a redelivered message whose attempt was
  concluded never reaches the partner again.
\<close>

theorem Begin_exclusive:
  assumes "ledger_ok a"
  shows "begin_spec ctx key message now a (fst (Begin ctx key message now a)) (snd (Begin ctx key message now a))"
  using assms by (rule Begin_spec_holds)

theorem Begin_exclusive_witness:
  "begin_spec sample_context ''k'' ''m'' 40 sample_finished
     (fst (Begin sample_context ''k'' ''m'' 40 sample_finished)) (snd (Begin sample_context ''k'' ''m'' 40 sample_finished))"
proof (rule Begin_exclusive)
  show "ledger_ok sample_finished"
    using ledger_step_ok [OF sample_finish_step] ledger_step_ok [OF sample_begin_step] by simp
qed

section \<open>Listing stale attempts\<close>

definition cur_pos :: "AttemptCursor \<Rightarrow> int \<times> string \<times> string \<times> int" where
  "cur_pos c = (cur_StartedAt c, cur_Tenant c, cur_Key c, cur_N c)"

abbreviation position :: "Attempt \<Rightarrow> int \<times> string \<times> string \<times> int" where
  "position a \<equiv> cur_pos (Attempt_Cursor a)"

lemma cmp_Compare_sign:
  "cmp_Compare a b = 0 \<longleftrightarrow> a = b" "cmp_Compare a b \<le> 0 \<longleftrightarrow> a \<le> b" "0 < cmp_Compare a b \<longleftrightarrow> b < a"
  by (auto simp: cmp_Compare_def)

lemma compareCursor_le: "compareCursor a b \<le> 0 \<longleftrightarrow> cur_pos a \<le> cur_pos b"
  by (auto simp: compareCursor_def cur_pos_def less_eq_prod_def cmp_Compare_sign)

lemma compareCursor_gt: "0 < compareCursor a b \<longleftrightarrow> cur_pos b < cur_pos a"
  using compareCursor_le [of a b] by (simp only: not_le [symmetric])

lemma SortFunc_cursor:
  "SortFunc (\<lambda>a b. compareCursor (Attempt_Cursor a) (Attempt_Cursor b)) xs = sort_key position xs"
proof -
  have "insert_func (\<lambda>a b. compareCursor (Attempt_Cursor a) (Attempt_Cursor b)) x ys = insort_key position x ys" for x ys
    by (induction ys) (simp_all only: insert_func.simps insort_key.simps compareCursor_le)
  then have "insert_func (\<lambda>a b. compareCursor (Attempt_Cursor a) (Attempt_Cursor b)) = insort_key position"
    by (intro ext)
  then show ?thesis
    by (simp add: SortFunc_def sort_key_def)
qed

lemma set_stale_of:
  "att \<in> set (stale_of cutoff after (scope, rows)) \<longleftrightarrow>
     (\<exists>i < length rows. stale_row cutoff after scope (i + 1) (rows ! i) \<and> att = attemptOf scope (i + 1) (rows ! i))"
  by (auto simp: stale_of_def)

definition stale_set :: "Instant \<Rightarrow> AttemptCursor \<Rightarrow> attempts \<Rightarrow> Attempt set" where
  "stale_set cutoff after a =
     {attemptOf scope (i + 1) (rows_of a scope ! i) | scope i.
        i < length (rows_of a scope) \<and> stale_row cutoff after scope (i + 1) (rows_of a scope ! i)}"

lemma set_concat_stale:
  assumes "distinct (map fst a)"
  shows "set (concat (map (stale_of cutoff after) a)) = stale_set cutoff after a"
proof -
  have rows: "(scope, rows) \<in> set a \<Longrightarrow> rows_of a scope = rows" for scope rows
    using assms by (simp add: rows_of_def)
  have mem: "0 < length (rows_of a scope) \<Longrightarrow> (scope, rows_of a scope) \<in> set a" for scope
    by (auto simp: rows_of_def dest: map_of_SomeD split: option.splits)
  show ?thesis
  proof (intro set_eqI iffI)
    fix att
    assume "att \<in> set (concat (map (stale_of cutoff after) a))"
    then obtain scope rs where "(scope, rs) \<in> set a" "att \<in> set (stale_of cutoff after (scope, rs))"
      by auto
    then show "att \<in> stale_set cutoff after a"
      using rows unfolding stale_set_def set_stale_of by blast
  next
    fix att
    assume "att \<in> stale_set cutoff after a"
    then obtain scope where "att \<in> set (stale_of cutoff after (scope, rows_of a scope))" "0 < length (rows_of a scope)"
      unfolding stale_set_def set_stale_of by fastforce
    with mem show "att \<in> set (concat (map (stale_of cutoff after) a))"
      by fastforce
  qed
qed

lemma position_inj: "inj_on position (stale_set cutoff after a)"
proof (rule inj_onI)
  fix x y
  assume xy: "x \<in> stale_set cutoff after a" "y \<in> stale_set cutoff after a" "position x = position y"
  then obtain s i t j where x: "x = attemptOf s (i + 1) (rows_of a s ! i)" and y: "y = attemptOf t (j + 1) (rows_of a t ! j)"
    by (auto simp: stale_set_def)
  with xy(3) have "s = t" "i = j"
    by (simp_all add: attemptOf_def attemptKey.equality cur_pos_def Attempt_Cursor_def)
  with x y show "x = y" by simp
qed

lemma distinct_concat_stale:
  assumes "distinct (map fst a)"
  shows "distinct (concat (map (stale_of cutoff after) a))"
  using assms
proof (induction a)
  case (Cons e a)
  obtain scope rows where e: "e = (scope, rows)" by (cases e)
  have "distinct (stale_of cutoff after (scope, rows))"
    by (simp add: stale_of_def distinct_map inj_on_def attemptOf_def)
  moreover have "att \<notin> set (concat (map (stale_of cutoff after) a))"
    if att: "att \<in> set (stale_of cutoff after (scope, rows))" for att
  proof
    assume "att \<in> set (concat (map (stale_of cutoff after) a))"
    then obtain t rs where t: "(t, rs) \<in> set a" "att \<in> set (stale_of cutoff after (t, rs))"
      by auto
    with att have "scope = t"
      by (auto simp: set_stale_of attemptOf_def attemptKey.equality)
    with t(1) Cons.prems e show False
      by force
  qed
  ultimately show ?case
    using Cons e by auto
qed simp

definition stale_sorted :: "Instant \<Rightarrow> AttemptCursor \<Rightarrow> attempts \<Rightarrow> Attempt list" where
  "stale_sorted cutoff after a = sort_key position (concat (map (stale_of cutoff after) a))"

lemma Stale_take: "1 \<le> limit \<Longrightarrow> Stale cutoff after limit a = Ok (take (nat limit) (stale_sorted cutoff after a))"
  by (simp add: Stale_def SortFunc_cursor stale_sorted_def)

lemma stale_sorted_set: "distinct (map fst a) \<Longrightarrow> set (stale_sorted cutoff after a) = stale_set cutoff after a"
  using set_concat_stale by (simp add: stale_sorted_def)

lemma stale_sorted_strict:
  assumes "distinct (map fst a)"
  shows "sorted_wrt (\<lambda>x y. position x < position y) (stale_sorted cutoff after a)"
proof -
  have "distinct (stale_sorted cutoff after a)"
    using distinct_concat_stale [OF assms] by (simp add: stale_sorted_def)
  then have "distinct (map position (stale_sorted cutoff after a))"
    using position_inj stale_sorted_set [OF assms] by (simp add: distinct_map)
  moreover have "sorted (map position (stale_sorted cutoff after a))"
    by (simp only: stale_sorted_def sorted_sort_key)
  ultimately have "sorted_wrt (<) (map position (stale_sorted cutoff after a))"
    by (simp only: strict_sorted_iff)
  then show ?thesis
    by (simp only: sorted_wrt_map)
qed

lemma strict_lists_equal:
  assumes "sorted_wrt (\<lambda>x y. position x < position y) xs" "sorted_wrt (\<lambda>x y. position x < position y) ys"
    and "set xs = set ys" "inj_on position (set xs)"
  shows "xs = ys"
proof -
  have "map position xs = map position ys"
    using assms(1-3) by (intro strict_sorted_equal) (simp_all only: sorted_wrt_map set_map)
  moreover have "inj_on position (set xs \<union> set ys)"
    using assms(3,4) by simp
  ultimately show ?thesis
    by (rule map_inj_on)
qed

text \<open>Resuming after an attempt of a listing leaves exactly the attempts after it.\<close>

lemma stale_set_resume:
  assumes "x \<in> stale_set cutoff after a"
  shows "stale_set cutoff (Attempt_Cursor x) a = {y \<in> stale_set cutoff after a. position x < position y}"
proof -
  obtain s i where x: "x = attemptOf s (i + 1) (rows_of a s ! i)" "stale_row cutoff after s (i + 1) (rows_of a s ! i)"
    using assms by (auto simp: stale_set_def)
  then have nz: "Attempt_Cursor x \<noteq> cursor_zero"
    by (simp add: Attempt_Cursor_def attemptOf_def cursor_zero_def)
  have "after = cursor_zero \<or> 0 < compareCursor (Attempt_Cursor x) after"
    using x by (simp add: stale_row_def)
  then have "stale_row cutoff (Attempt_Cursor x) scope n r \<longleftrightarrow>
      stale_row cutoff after scope n r \<and> position x < position (attemptOf scope n r)" for scope n r
    using nz by (auto simp: stale_row_def compareCursor_gt intro: less_trans)
  then show ?thesis
    unfolding stale_set_def by blast
qed

lemma stale_sorted_resume:
  assumes dist: "distinct (map fst a)" "distinct (map fst b)" and same: "map_of b = map_of a"
    and split: "stale_sorted cutoff after a = pre @ [x] @ post"
  shows "stale_sorted cutoff (Attempt_Cursor x) b = post"
proof (rule strict_lists_equal)
  have sorted: "sorted_wrt (\<lambda>x y. position x < position y) (pre @ [x] @ post)"
    using stale_sorted_strict [OF dist(1), of cutoff after] by (simp only: split)
  then show "sorted_wrt (\<lambda>x y. position x < position y) post"
    by (simp add: sorted_wrt_append)
  have set: "set (pre @ [x] @ post) = stale_set cutoff after a"
    using stale_sorted_set [OF dist(1), of cutoff after] by (simp only: split)
  then have "x \<in> stale_set cutoff after a"
    by auto
  moreover have "stale_set cutoff (Attempt_Cursor x) b = stale_set cutoff (Attempt_Cursor x) a"
    using same by (simp add: stale_set_def rows_of_def)
  ultimately have "set (stale_sorted cutoff (Attempt_Cursor x) b) = {y \<in> set (pre @ [x] @ post). position x < position y}"
    by (simp only: stale_sorted_set [OF dist(2)] stale_set_resume set)
  also have "\<dots> = set post"
    using sorted by (auto simp: sorted_wrt_append dest: less_asym)
  finally show "set (stale_sorted cutoff (Attempt_Cursor x) b) = set post" .
  show "inj_on position (set (stale_sorted cutoff (Attempt_Cursor x) b))"
    by (simp only: stale_sorted_set [OF dist(2)] position_inj)
qed (rule stale_sorted_strict [OF dist(2)])

text \<open>
  Listing begun attempts. A page is in the order of start, tenant, key and number, and a page
  resumed at the cursor of the previous page's last attempt continues it without a gap or a repetition:
  two pages are the one page of their joint length. The answer does not depend on the order in which the
  map is iterated.
\<close>

theorem Stale_pages:
  assumes "ledger_ok a" and "1 \<le> limit" and "1 \<le> limit'"
    and "Stale cutoff after limit a = Ok xs" and "xs \<noteq> []"
    and "ledger_ok b" and "map_of b = map_of a"
  shows "sorted_wrt (\<lambda>x y. compareCursor (Attempt_Cursor y) (Attempt_Cursor x) > 0) xs \<and> length xs \<le> nat limit \<and>
    (\<exists>ys. Stale cutoff (Attempt_Cursor (last xs)) limit' b = Ok ys \<and>
       Stale cutoff after (int (length xs) + limit') a = Ok (xs @ ys))"
proof -
  let ?L = "stale_sorted cutoff after a" and ?k = "length xs"
  have dist: "distinct (map fst a)" "distinct (map fst b)"
    using assms(1,6) by (simp_all add: ledger_ok_def)
  have xs: "xs = take (nat limit) ?L"
    using assms(2,4) by (simp add: Stale_take)
  then have k: "?k = min (length ?L) (nat limit)"
    by simp
  with xs have xs': "xs = take ?k ?L"
    by (cases "length ?L \<le> nat limit") simp_all
  have "?L = butlast xs @ [last xs] @ drop ?k ?L"
    using xs' append_butlast_last_id [OF assms(5)] by (metis append_assoc append_take_drop_id)
  from stale_sorted_resume [OF dist assms(7) this]
  have "stale_sorted cutoff (Attempt_Cursor (last xs)) b = drop ?k ?L" .
  moreover have "take (nat (int ?k + limit')) ?L = xs @ take (nat limit') (drop ?k ?L)"
    using assms(3) by (simp add: nat_add_distrib take_add xs' [symmetric])
  moreover have "sorted_wrt (\<lambda>x y. compareCursor (Attempt_Cursor y) (Attempt_Cursor x) > 0) xs"
    unfolding compareCursor_gt xs by (rule sorted_wrt_take [OF stale_sorted_strict [OF dist(1)]])
  ultimately show ?thesis
    using assms(3) k by (simp add: Stale_take)
qed

theorem Stale_pages_witness:
  "\<exists>ys. Stale 100 (Attempt_Cursor (attemptOf sample_scope 1 (new_row ''m'' 10))) 5 sample_begun = Ok ys \<and>
     Stale 100 cursor_zero 6 sample_begun = Ok (attemptOf sample_scope 1 (new_row ''m'' 10) # ys)"
proof -
  have ok: "ledger_ok sample_begun"
    using ledger_step_ok [OF sample_begin_step] by simp
  have page: "Stale 100 cursor_zero 1 sample_begun = Ok [attemptOf sample_scope 1 (new_row ''m'' 10)]"
    by (simp add: Stale_def sample_begun_def stale_of_def stale_row_def new_row_def SortFunc_def)
  from Stale_pages [OF ok _ _ page _ ok refl, of 5] show ?thesis
    by simp
qed

end
