(* ===== verification/Application_Codec.thy ===== *)
theory Application_Codec
  imports Ports_Context
begin

unbundle bit_operations_syntax

text \<open>
  The byte formats of the application block, \<^verbatim>\<open>libs/backend/go/application\<close>: the variable-length
  integers of \<^verbatim>\<open>varint.go\<close>, the canonical encoding of a command in \<^verbatim>\<open>fingerprint.go\<close>, the outcome of
  \<^verbatim>\<open>outcome.go\<close> and its stored form in \<^verbatim>\<open>outcome_codec.go\<close>.

  A byte is an \<open>8 word\<close>, \<open>uint64\<close> and the bits of \<open>int64\<close> are \<open>64 word\<close>, and an \<open>int64\<close> value is its
  signed reading \<open>sint\<close>. An \<open>Encoder\<close> is its buffer; a \<open>Decoder\<close> is its remaining buffer and its error.
\<close>

type_synonym bytes = "8 word list"

definition str_bytes :: "string \<Rightarrow> bytes" where
  "str_bytes s = map (\<lambda>c. word_of_nat (of_char c)) s"

definition bytes_str :: "bytes \<Rightarrow> string" where
  "bytes_str bs = map (\<lambda>b. char_of (unat b)) bs"

section \<open>Variable-length integers\<close>

definition maxVarintLen :: nat where
  "maxVarintLen = 10"

lemma drop7_less: "0x80 \<le> v \<Longrightarrow> unat (drop_bit 7 v) < unat (v :: 64 word)"
proof -
  assume "0x80 \<le> v"
  then have "128 \<le> unat v"
    by (simp add: word_le_nat_alt)
  then have "unat v div 128 < unat v"
    by simp
  then show ?thesis
    by (simp add: drop_bit_eq_div unat_div)
qed

function appendUvarint :: "bytes \<Rightarrow> 64 word \<Rightarrow> bytes" where
  "appendUvarint buf value =
     (if 0x80 \<le> value then appendUvarint (buf @ [ucast value OR 0x80]) (drop_bit 7 value)
      else buf @ [ucast value])"
  by pat_completeness auto
termination
  by (relation "measure (\<lambda>(buf, value). unat value)") (auto simp: drop7_less)

declare appendUvarint.simps [simp del]

definition appendVarint :: "bytes \<Rightarrow> 64 word \<Rightarrow> bytes" where
  "appendVarint buf value =
     (let zigzag = push_bit 1 value in
      appendUvarint buf (if sint value < 0 then NOT zigzag else zigzag))"

fun readUvarint_loop :: "nat \<Rightarrow> 64 word \<Rightarrow> nat \<Rightarrow> bytes \<Rightarrow> 64 word \<times> int" where
  "readUvarint_loop i value shift [] = (0, 0)"
| "readUvarint_loop i value shift (b # bs) =
     (if i = maxVarintLen \<or> (i = maxVarintLen - 1 \<and> b > 1) then (0, - (int i + 1))
      else if b < 0x80 then (value OR push_bit shift (ucast b), int i + 1)
      else readUvarint_loop (Suc i) (value OR push_bit shift (ucast (b AND 0x7f))) (shift + 7) bs)"

definition readUvarint :: "bytes \<Rightarrow> 64 word \<times> int" where
  "readUvarint buf = readUvarint_loop 0 0 0 buf"

definition readVarint :: "bytes \<Rightarrow> 64 word \<times> int" where
  "readVarint buf =
     (let (zigzag, n) = readUvarint buf; value = drop_bit 1 zigzag in
      ((if zigzag AND 1 \<noteq> 0 then NOT value else value), n))"

section \<open>Fingerprints\<close>

definition fieldString :: "8 word" where "fieldString = 0x73"
definition fieldInt :: "8 word" where "fieldInt = 0x69"

definition fp_append :: "8 word \<Rightarrow> bytes \<Rightarrow> bytes \<Rightarrow> bytes" where
  "fp_append kind data canonical = appendUvarint (canonical @ [kind]) (word_of_nat (length data)) @ data"

definition fp_String :: "string \<Rightarrow> bytes \<Rightarrow> bytes" where
  "fp_String value canonical = fp_append fieldString (str_bytes value) canonical"

definition fp_Int :: "int \<Rightarrow> bytes \<Rightarrow> bytes" where
  "fp_Int value canonical = fp_append fieldInt (appendVarint [] (word_of_int value)) canonical"

definition NewFingerprint :: "string \<Rightarrow> bytes" where
  "NewFingerprint operation = fp_String operation []"

definition fp_under :: "string \<Rightarrow> bytes \<Rightarrow> bytes" where
  "fp_under operation canonical = NewFingerprint operation @ canonical"

section \<open>Outcomes\<close>

datatype 'r Outcome = OAccepted 'r | ORejected Rejection

definition Rejected :: "Rejection option \<Rightarrow> 'r Outcome result" where
  "Rejected r =
     (case r of
        None \<Rightarrow> Panic ''application: Rejected requires a rejection; use Accepted for the accepting branch''
      | Some rej \<Rightarrow> Ok (ORejected rej))"

fun Outcome_Rejection :: "'r Outcome \<Rightarrow> Rejection option" where
  "Outcome_Rejection (OAccepted r) = None"
| "Outcome_Rejection (ORejected rej) = Some rej"

definition Outcome_Category :: "'r Outcome \<Rightarrow> OutcomeCategory" where
  "Outcome_Category o' = (if Outcome_Rejection o' \<noteq> None then OutcomeRejected else OutcomeAccepted)"

section \<open>Encoding an outcome\<close>

definition outcomeVersion :: "8 word" where "outcomeVersion = 1"
definition branchAccepted :: "8 word" where "branchAccepted = 0x61"
definition branchRejected :: "8 word" where "branchRejected = 0x72"
definition maxDetailsCount :: nat where "maxDetailsCount = 1024"

definition enc_uint :: "bytes \<Rightarrow> nat \<Rightarrow> bytes" where
  "enc_uint buf n = appendUvarint buf (word_of_nat n)"

definition enc_String :: "bytes \<Rightarrow> string \<Rightarrow> bytes" where
  "enc_String buf value = enc_uint buf (length value) @ str_bytes value"

definition enc_Int :: "bytes \<Rightarrow> int \<Rightarrow> bytes" where
  "enc_Int buf value = appendVarint buf (word_of_int value)"

record Decoder =
  dec_buf :: bytes
  dec_err :: "string option"

definition dec_uint :: "Decoder \<Rightarrow> 64 word \<times> Decoder" where
  "dec_uint d =
     (if dec_err d \<noteq> None then (0, d)
      else let (value, n) = readUvarint (dec_buf d) in
        if n \<le> 0 then (0, d\<lparr>dec_err := Some ''malformed length''\<rparr>)
        else (value, d\<lparr>dec_buf := drop (nat n) (dec_buf d)\<rparr>))"

definition dec_String :: "Decoder \<Rightarrow> string \<times> Decoder" where
  "dec_String d =
     (let (n, d1) = dec_uint d in
      if dec_err d1 \<noteq> None then ([], d1)
      else if unat n > length (dec_buf d1)
        then ([], d1\<lparr>dec_err := Some ''string longer than the remaining bytes''\<rparr>)
      else (bytes_str (take (unat n) (dec_buf d1)), d1\<lparr>dec_buf := drop (unat n) (dec_buf d1)\<rparr>))"

definition dec_Int :: "Decoder \<Rightarrow> int \<times> Decoder" where
  "dec_Int d =
     (if dec_err d \<noteq> None then (0, d)
      else let (value, n) = readVarint (dec_buf d) in
        if n \<le> 0 then (0, d\<lparr>dec_err := Some ''malformed integer''\<rparr>)
        else (sint value, d\<lparr>dec_buf := drop (nat n) (dec_buf d)\<rparr>))"

record 'r OutcomeCodec =
  codec_Encode :: "bytes \<Rightarrow> 'r \<Rightarrow> bytes"
  codec_Decode :: "Decoder \<Rightarrow> 'r \<times> Decoder"

fun enc_details :: "bytes \<Rightarrow> Detail list \<Rightarrow> bytes" where
  "enc_details buf [] = buf"
| "enc_details buf (d # ds) = enc_details (enc_String (enc_String buf (det_Key d)) (det_Value d)) ds"

definition EncodeOutcome :: "'r OutcomeCodec \<Rightarrow> 'r Outcome \<Rightarrow> bytes" where
  "EncodeOutcome codec outcome =
     (case outcome of
        ORejected rejection \<Rightarrow>
          let buf = [outcomeVersion] @ [branchRejected];
              buf = enc_String buf (rej_code rejection);
              buf = enc_String buf (rej_message rejection);
              buf = enc_uint buf (length (rej_details rejection))
          in enc_details buf (rej_details rejection)
      | OAccepted response \<Rightarrow> codec_Encode codec ([outcomeVersion] @ [branchAccepted]) response)"

text \<open>The loop \<open>for range count\<close> over the details; a failed read leaves empty strings and goes on.\<close>

primrec dec_details :: "nat \<Rightarrow> Decoder \<Rightarrow> Detail list \<times> Decoder" where
  "dec_details 0 d = ([], d)"
| "dec_details (Suc n) d =
     (let (key, d1) = dec_String d; (val, d2) = dec_String d1; (rest, d3) = dec_details n d2
      in (\<lparr>det_Key = key, det_Value = val\<rparr> # rest, d3))"

definition dec_finish :: "'r Outcome \<Rightarrow> Decoder \<Rightarrow> 'r Outcome result" where
  "dec_finish outcome d =
     (if dec_err d \<noteq> None then FailWith ErrOutcomeUnreadable (the (dec_err d))
      else if dec_buf d \<noteq> [] then FailWith ErrOutcomeUnreadable ''trailing bytes''
      else Ok outcome)"

definition DecodeOutcome :: "'r OutcomeCodec \<Rightarrow> bytes \<Rightarrow> 'r Outcome result" where
  "DecodeOutcome codec stored =
     (if length stored < 2 \<or> stored ! 0 \<noteq> outcomeVersion
        then FailWith ErrOutcomeUnreadable ''unknown version''
      else let d = \<lparr>dec_buf = drop 2 stored, dec_err = None\<rparr> in
        if stored ! 1 = branchAccepted then
          (let (r, d1) = codec_Decode codec d in dec_finish (OAccepted r) d1)
        else if stored ! 1 = branchRejected then
          (let (c, d1) = dec_String d; (m, d2) = dec_String d1; (count, d3) = dec_uint d2 in
           if unat count > maxDetailsCount then FailWith ErrOutcomeUnreadable ''details''
           else let (ds, d4) = dec_details (unat count) d3 in dec_finish (ORejected (Reject c m ds)) d4)
        else FailWith ErrOutcomeUnreadable ''unknown branch'')"

section \<open>Round trips of the integers\<close>

lemma str_bytes_length [simp]: "length (str_bytes s) = length s"
  by (simp add: str_bytes_def)

lemma bytes_str_str_bytes [simp]: "bytes_str (str_bytes s) = s"
proof -
  have "unat (word_of_nat (of_char c) :: 8 word) = of_char c" for c
    by (simp add: unat_of_nat)
  then show ?thesis
    by (simp add: bytes_str_def str_bytes_def comp_def)
qed

lemma str_bytes_inject [simp]: "str_bytes s = str_bytes t \<longleftrightarrow> s = t"
  by (metis bytes_str_str_bytes)

lemma appendUvarint_buf: "appendUvarint buf v = buf @ appendUvarint [] v"
proof (induction v arbitrary: buf rule: measure_induct_rule [of unat])
  case (less v)
  show ?case
  proof (cases "0x80 \<le> v")
    case True
    note IH = less [OF drop7_less [OF True]]
    have "appendUvarint buf v = (buf @ [ucast v OR 0x80]) @ appendUvarint [] (drop_bit 7 v)"
      using True IH [of "buf @ [ucast v OR 0x80]"] by (simp add: appendUvarint.simps [of buf v])
    moreover have "appendUvarint [] v = [ucast v OR 0x80] @ appendUvarint [] (drop_bit 7 v)"
      using True IH [of "[ucast v OR 0x80]"] by (simp add: appendUvarint.simps [of "[]" v])
    ultimately show ?thesis by simp
  next
    case False
    then show ?thesis
      unfolding appendUvarint.simps [of buf v] appendUvarint.simps [of "[]" v] by simp
  qed
qed

lemma appendUvarint_Nil_ge:
  "0x80 \<le> v \<Longrightarrow> appendUvarint [] v = (ucast v OR 0x80) # appendUvarint [] (drop_bit 7 v)"
  using appendUvarint_buf [of "[ucast v OR 0x80]" "drop_bit 7 v"]
  by (simp add: appendUvarint.simps [of "[]" v])

lemma appendUvarint_Nil_less:
  "\<not> 0x80 \<le> v \<Longrightarrow> appendUvarint [] v = [ucast v]"
  unfolding appendUvarint.simps [of "[]" v] by simp

lemma seven_bits: "(0x7f :: 8 word) = mask 7"
  by (simp add: mask_eq_exp_minus_1)

lemma continuation_byte:
  fixes v :: "64 word"
  shows "\<not> (ucast v OR 0x80 :: 8 word) < 0x80"
    and "((ucast v OR 0x80) AND 0x7f :: 8 word) = ucast v AND 0x7f"
proof -
  have "(0x80 :: 8 word) \<le> ucast v OR 0x80"
    by (rule le_word_or1)
  then show "\<not> (ucast v OR 0x80 :: 8 word) < 0x80"
    by (simp add: not_less)
  show "((ucast v OR 0x80) AND 0x7f :: 8 word) = ucast v AND 0x7f"
    by (simp add: word_ao_dist)
qed

lemma last_byte:
  fixes v :: "64 word"
  assumes "\<not> 0x80 \<le> v"
  shows "(ucast v :: 8 word) < 0x80" and "ucast (ucast v :: 8 word) = v"
proof -
  have v: "unat v < 128"
    using assms by (simp add: not_le word_less_nat_alt)
  have "unat (ucast v :: 8 word) = take_bit 8 (unat v)"
    by (simp add: unsigned_ucast_eq unsigned_take_bit_eq)
  also have "take_bit 8 (unat v) = unat v"
    by (rule take_bit_nat_eq_self, rule less_trans [OF v]) simp
  finally have u: "unat (ucast v :: 8 word) = unat v" .
  with v show "(ucast v :: 8 word) < 0x80"
    by (simp add: word_less_nat_alt)
  have "unat (ucast (ucast v :: 8 word) :: 64 word) = unat v"
    unfolding unsigned_ucast_eq [where 'b = 8 and 'c = 64] u
    by (rule take_bit_nat_eq_self) (rule less_trans [OF v], simp)
  then show "ucast (ucast v :: 8 word) = v"
    by (simp only: word_unat_eq_iff)
qed

lemma group_merge:
  fixes v acc :: "64 word"
  shows "(acc OR push_bit k (ucast (ucast v AND 0x7f :: 8 word))) OR push_bit (k + 7) (drop_bit 7 v) =
     acc OR push_bit k v"
  unfolding seven_bits
proof (rule bit_word_eqI)
  fix n
  show "bit ((acc OR push_bit k (ucast (ucast v AND mask 7 :: 8 word))) OR push_bit (k + 7) (drop_bit 7 v)) n =
      bit (acc OR push_bit k v) n"
  proof (cases "k + 7 \<le> n")
    case True
    then obtain m where "n = k + 7 + m"
      using le_Suc_ex by blast
    then show ?thesis
      by (simp add: bit_simps add.assoc)
  next
    case False
    then show ?thesis
      by (auto simp: bit_simps)
  qed
qed

text \<open>A value that needs another group leaves room for it.\<close>

lemma more_groups:
  fixes v :: "64 word"
  assumes "0x80 \<le> v" "unat v < 2 ^ (64 - 7 * i)" "i < maxVarintLen"
  shows "i < 9 \<and> unat (drop_bit 7 v) < 2 ^ (64 - 7 * Suc i)"
proof -
  have v: "128 \<le> unat v"
    using assms(1) by (simp add: word_le_nat_alt)
  have i: "i < 9"
  proof (rule ccontr)
    assume "\<not> i < 9"
    with assms(3) have "i = 9" by (simp add: maxVarintLen_def)
    with assms(2) v show False by simp
  qed
  then have "64 - 7 * i = (64 - 7 * Suc i) + 7"
    by simp
  then have "unat v < 2 ^ (64 - 7 * Suc i) * 2 ^ 7"
    using assms(2) by (metis power_add)
  with i show ?thesis
    by (simp add: drop_bit_eq_div unat_div less_mult_imp_div_less)
qed

text \<open>
  Reading back what \<open>appendUvarint\<close> wrote, from any position of the loop: the groups already read are
  in \<open>acc\<close>, and the value still to come fits the bits that are left.
\<close>

lemma readUvarint_loop_append:
  assumes "unat v < 2 ^ (64 - 7 * i)" "i < maxVarintLen"
  shows "readUvarint_loop i acc (7 * i) (appendUvarint [] v @ rest) =
     (acc OR push_bit (7 * i) v, int i + int (length (appendUvarint [] v)))"
  using assms
proof (induction v arbitrary: i acc rule: measure_induct_rule [of unat])
  case (less v)
  show ?case
  proof (cases "0x80 \<le> v")
    case True
    from more_groups [OF True less.prems]
    have i: "i < 9" and small: "unat (drop_bit 7 v) < 2 ^ (64 - 7 * Suc i)"
      by simp_all
    have "readUvarint_loop i acc (7 * i) (appendUvarint [] v @ rest) =
        readUvarint_loop (Suc i) (acc OR push_bit (7 * i) (ucast (ucast v AND 0x7f :: 8 word))) (7 * Suc i)
          (appendUvarint [] (drop_bit 7 v) @ rest)"
      using i continuation_byte [of v]
      by (simp add: appendUvarint_Nil_ge [OF True] maxVarintLen_def add.commute)
    also have "\<dots> = (acc OR push_bit (7 * i) v, int (Suc i) + int (length (appendUvarint [] (drop_bit 7 v))))"
      using less.IH [OF drop7_less [OF True] small] i group_merge [of acc "7 * i" v]
      by (simp add: maxVarintLen_def add.commute)
    finally show ?thesis
      by (simp add: appendUvarint_Nil_ge [OF True])
  next
    case False
    have "\<not> (i = 9 \<and> (1 :: 8 word) < ucast v)"
    proof
      assume "i = 9 \<and> (1 :: 8 word) < ucast v"
      moreover from this less.prems(1) have "unat v < 2" by simp
      ultimately show False
        by (auto simp: word_less_nat_alt unsigned_ucast_eq unsigned_take_bit_eq take_bit_nat_eq_self)
    qed
    with False less.prems(2) last_byte [OF False] show ?thesis
      by (simp add: appendUvarint_Nil_less [OF False] maxVarintLen_def)
  qed
qed

lemma readUvarint_append:
  "readUvarint (appendUvarint [] v @ rest) = (v, int (length (appendUvarint [] v)))"
  using readUvarint_loop_append [of v 0 0 rest] unsigned_less [of v, where 'a = nat]
  by (simp add: readUvarint_def maxVarintLen_def)

lemma zigzag_back:
  fixes v :: "64 word"
  defines "z \<equiv> (if sint v < 0 then NOT (push_bit 1 v) else push_bit 1 v)"
  shows "(if z AND 1 \<noteq> 0 then NOT (drop_bit 1 z) else drop_bit 1 z) = v"
proof -
  have neg: "sint v < 0 \<longleftrightarrow> bit v 63"
    using bit_last_iff [of v] by simp
  have odd: "z AND 1 \<noteq> 0 \<longleftrightarrow> bit v 63"
    by (simp add: z_def neg and_one_eq odd_iff_mod_2_eq_one [symmetric])
  show ?thesis
  proof (cases "bit v 63")
    case True
    then have z: "z = NOT (push_bit 1 v)" and "z AND 1 \<noteq> 0"
      using odd by (simp_all add: z_def neg)
    moreover have "NOT (drop_bit 1 (NOT (push_bit 1 v))) = v"
    proof (rule bit_word_eqI)
      fix n
      assume "n < LENGTH(64)"
      with True show "bit (NOT (drop_bit 1 (NOT (push_bit 1 v)))) n = bit v n"
        by (cases "n = 63") (auto simp: bit_simps simp del: push_bit_Suc drop_bit_Suc)
    qed
    ultimately show ?thesis by (simp only: if_True not_False_eq_True)
  next
    case False
    then have z: "z = push_bit 1 v" and "\<not> z AND 1 \<noteq> 0"
      using odd by (simp_all add: z_def neg)
    moreover have "drop_bit 1 (push_bit 1 v) = v"
    proof (rule bit_word_eqI)
      fix n
      assume "n < LENGTH(64)"
      with False show "bit (drop_bit 1 (push_bit 1 v)) n = bit v n"
        by (cases "n = 63") (auto simp: bit_simps simp del: push_bit_Suc drop_bit_Suc)
    qed
    ultimately show ?thesis by (simp only: if_False not_False_eq_True)
  qed
qed

lemma readVarint_append:
  "readVarint (appendVarint [] v @ rest) = (v, int (length (appendVarint [] v)))"
  by (simp only: readVarint_def appendVarint_def Let_def readUvarint_append case_prod_conv zigzag_back)

lemma appendUvarint_nonempty [simp]: "appendUvarint [] v \<noteq> []"
  by (cases "0x80 \<le> v") (simp_all add: appendUvarint_Nil_ge appendUvarint_Nil_less)

lemma appendVarint_nonempty [simp]: "appendVarint [] v \<noteq> []"
  by (simp add: appendVarint_def Let_def)

lemma appendUvarint_length_from:
  "unat v < 2 ^ (64 - 7 * i) \<Longrightarrow> i < 10 \<Longrightarrow> length (appendUvarint [] v) \<le> 10 - i"
proof (induction v arbitrary: i rule: measure_induct_rule [of unat])
  case (less v)
  show ?case
  proof (cases "0x80 \<le> v")
    case True
    from less.prems have i: "i < 9" and "unat (drop_bit 7 v) < 2 ^ (64 - 7 * Suc i)"
      using more_groups [OF True] by (simp_all add: maxVarintLen_def)
    then have "length (appendUvarint [] (drop_bit 7 v)) \<le> 10 - Suc i"
      by (intro less.IH drop7_less True) simp_all
    with i show ?thesis
      by (simp add: appendUvarint_Nil_ge [OF True])
  qed (use less.prems in \<open>simp add: appendUvarint_Nil_less\<close>)
qed

lemma appendUvarint_length: "length (appendUvarint [] v) \<le> 10"
  using appendUvarint_length_from [of v 0] unsigned_less [of v, where 'a = nat] by simp

lemma appendVarint_buf: "appendVarint buf v = buf @ appendVarint [] v"
  by (simp only: appendVarint_def Let_def appendUvarint_buf [of buf])

text \<open>
  The reader of \<^verbatim>\<open>varint.go\<close> inverts its writer on every 64-bit value, unsigned and zigzag, whatever
  bytes follow, and consumes exactly the bytes written.
\<close>

theorem varint_round_trip:
  "readUvarint (appendUvarint [] u @ rest) = (u, int (length (appendUvarint [] u))) \<and>
   readVarint (appendVarint [] v @ rest) = (v, int (length (appendVarint [] v)))"
  by (simp add: readUvarint_append readVarint_append)

text \<open>A uvarint is a prefix code: the value and the remaining bytes are determined.\<close>

lemma appendUvarint_prefix:
  assumes "appendUvarint [] u @ r = appendUvarint [] v @ s"
  shows "u = v \<and> r = s"
proof -
  have "readUvarint (appendUvarint [] u @ r) = readUvarint (appendUvarint [] v @ s)"
    by (simp only: assms)
  then have "u = v"
    by (simp only: readUvarint_append prod.inject)
  with assms show ?thesis by simp
qed

lemma appendVarint_inject: "appendVarint [] u = appendVarint [] v \<Longrightarrow> u = v"
proof -
  assume "appendVarint [] u = appendVarint [] v"
  then have "readVarint (appendVarint [] u @ []) = readVarint (appendVarint [] v @ [])"
    by simp
  then show ?thesis by (simp only: readVarint_append prod.inject)
qed

lemma int64_sint: "int64 i \<Longrightarrow> sint (word_of_int i :: 64 word) = i"
  by (simp add: int64_def signed_of_int signed_take_bit_int_eq_self)

section \<open>Fingerprints are injective\<close>

text \<open>
  The fields a fingerprint accumulates, in order. A Go string is shorter than \<open>2^63\<close> bytes and an \<open>Int\<close>
  is an \<open>int64\<close>; \<open>field_ok\<close> states that of a field.
\<close>

datatype fp_field = FString string | FInt int

fun fp_add :: "bytes \<Rightarrow> fp_field \<Rightarrow> bytes" where
  "fp_add f (FString s) = fp_String s f"
| "fp_add f (FInt i) = fp_Int i f"

definition fp_of :: "fp_field list \<Rightarrow> bytes" where
  "fp_of fs = foldl fp_add [] fs"

fun field_ok :: "fp_field \<Rightarrow> bool" where
  "field_ok (FString s) = (length s < 2 ^ 63)"
| "field_ok (FInt i) = int64 i"

fun field_kind :: "fp_field \<Rightarrow> 8 word" where
  "field_kind (FString s) = fieldString"
| "field_kind (FInt i) = fieldInt"

fun field_data :: "fp_field \<Rightarrow> bytes" where
  "field_data (FString s) = str_bytes s"
| "field_data (FInt i) = appendVarint [] (word_of_int i)"

definition field_bytes :: "fp_field \<Rightarrow> bytes" where
  "field_bytes x = field_kind x # appendUvarint [] (word_of_nat (length (field_data x))) @ field_data x"

lemma fp_add_bytes: "fp_add f x = f @ field_bytes x"
  by (cases x) (simp_all add: fp_String_def fp_Int_def fp_append_def field_bytes_def appendUvarint_buf [of "f @ _"])

lemma fp_of_bytes: "fp_of fs = concat (map field_bytes fs)"
proof -
  have "foldl fp_add f fs = f @ concat (map field_bytes fs)" for f
    by (induction fs arbitrary: f) (simp_all add: fp_add_bytes)
  then show ?thesis by (simp add: fp_of_def)
qed

lemma field_data_short: "field_ok x \<Longrightarrow> unat (word_of_nat (length (field_data x)) :: 64 word) = length (field_data x)"
proof (cases x)
  case (FInt i)
  have "length (appendVarint [] (word_of_int i)) \<le> 10"
    by (simp only: appendVarint_def Let_def appendUvarint_length)
  then have "length (appendVarint [] (word_of_int i)) < 2 ^ 64"
    by (rule le_less_trans) simp
  then show ?thesis
    by (simp add: FInt unat_of_nat)
qed (simp add: unat_of_nat)

lemma field_bytes_prefix:
  assumes ok: "field_ok x" "field_ok y" and eq: "field_bytes x @ r = field_bytes y @ s"
  shows "x = y \<and> r = s"
proof -
  from eq have kind: "field_kind x = field_kind y"
    and tail: "appendUvarint [] (word_of_nat (length (field_data x))) @ (field_data x @ r) =
      appendUvarint [] (word_of_nat (length (field_data y))) @ (field_data y @ s)"
    by (simp_all add: field_bytes_def)
  from appendUvarint_prefix [OF tail]
  have len: "(word_of_nat (length (field_data x)) :: 64 word) = word_of_nat (length (field_data y))"
    and rest: "field_data x @ r = field_data y @ s"
    by simp_all
  from len have "length (field_data x) = length (field_data y)"
    using field_data_short [OF ok(1)] field_data_short [OF ok(2)] by metis
  with rest have data: "field_data x = field_data y" and "r = s"
    by simp_all
  moreover have "x = y"
    using kind data ok
    by (cases x; cases y)
      (auto simp: fieldString_def fieldInt_def dest!: appendVarint_inject arg_cong [of "word_of_int _" _ sint]
        simp: int64_sint)
  ultimately show ?thesis by simp
qed

lemma fp_concat_inject:
  assumes "list_all field_ok xs" "list_all field_ok ys"
    "concat (map field_bytes xs) = concat (map field_bytes ys)"
  shows "xs = ys"
  using assms
proof (induction xs arbitrary: ys)
  case Nil
  then show ?case
    by (cases ys) (simp_all add: field_bytes_def)
next
  case (Cons x xs)
  then obtain y ys' where ys: "ys = y # ys'"
    by (cases ys) (simp_all add: field_bytes_def)
  with Cons.prems have "x = y" "concat (map field_bytes xs) = concat (map field_bytes ys')"
    using field_bytes_prefix [of x y] by simp_all
  with Cons ys show ?case by simp
qed

text \<open>
  C39. The canonical encoding of a command is injective. Two sequences of fields, each field a string or
  an \<open>int64\<close>, have the same fingerprint bytes only when they are the same sequence, kinds and order
  included; so a command under another operation, or with another payload, is never encoded alike.
\<close>

theorem fingerprint_injective:
  assumes "list_all field_ok xs" and "list_all field_ok ys"
  shows "(fp_of xs = fp_of ys) = (xs = ys)"
  using fp_concat_inject [OF assms] by (auto simp: fp_of_bytes)

theorem fingerprint_injective_witness:
  "fp_of [FString ''orders.AddItem'', FInt 3] \<noteq> fp_of [FString ''orders.AddItem'', FInt 4] \<and>
   (fp_of [FString ''orders.AddItem'', FInt 3] = fp_of [FString ''orders.AddItem'', FInt 4]) =
     ([FString ''orders.AddItem'', FInt 3] = [FString ''orders.AddItem'', FInt 4])"
  using fingerprint_injective [of "[FString ''orders.AddItem'', FInt 3]" "[FString ''orders.AddItem'', FInt 4]"]
  by (simp add: int64_def)

lemma NewFingerprint_fields: "NewFingerprint operation = fp_of [FString operation]"
  by (simp add: NewFingerprint_def fp_of_def)

lemma fp_under_fields: "fp_under operation (fp_of fs) = fp_of (FString operation # fs)"
  by (simp add: fp_under_def NewFingerprint_fields fp_of_bytes)

section \<open>Stored outcomes\<close>

text \<open>The string of a field fits a Go string; \<open>rejection_ok\<close> is what the stored form can carry.\<close>

definition go_string :: "string \<Rightarrow> bool" where
  "go_string s \<longleftrightarrow> length s < 2 ^ 63"

definition rejection_ok :: "Rejection \<Rightarrow> bool" where
  "rejection_ok r \<longleftrightarrow> go_string (rej_code r) \<and> go_string (rej_message r) \<and>
     length (rej_details r) \<le> maxDetailsCount \<and>
     list_all (\<lambda>d. go_string (det_Key d) \<and> go_string (det_Value d)) (rej_details r)"

abbreviation reading :: "bytes \<Rightarrow> Decoder" where
  "reading buf \<equiv> \<lparr>dec_buf = buf, dec_err = None\<rparr>"

lemma appendUvarint_pos [simp]: "appendUvarint [] v \<noteq> []"
  by (cases "0x80 \<le> v") (simp_all only: appendUvarint_Nil_ge appendUvarint_Nil_less not_False_eq_True list.distinct(2))

lemma appendVarint_pos [simp]: "appendVarint [] v \<noteq> []"
  by (simp only: appendVarint_def Let_def appendUvarint_pos not_False_eq_True)

lemma dec_uint_enc:
  "dec_uint (reading (appendUvarint [] u @ rest)) = (u, reading rest)"
  by (simp add: dec_uint_def readUvarint_append)

lemma enc_uint_buf: "enc_uint buf n = buf @ enc_uint [] n"
  by (simp add: enc_uint_def appendUvarint_buf [of buf])

lemma enc_String_buf: "enc_String buf s = buf @ enc_String [] s"
  by (simp add: enc_String_def enc_uint_buf [of buf])

lemma enc_Int_buf: "enc_Int buf i = buf @ enc_Int [] i"
  by (simp add: enc_Int_def appendVarint_buf [of buf])

lemma unat_of_nat_small: "n < 2 ^ 63 \<Longrightarrow> unat (word_of_nat n :: 64 word) = n"
  by (simp add: unat_of_nat)

lemma dec_String_enc:
  "go_string s \<Longrightarrow> dec_String (reading (enc_String [] s @ rest)) = (s, reading rest)"
  by (simp add: dec_String_def enc_String_def enc_uint_def dec_uint_enc go_string_def unat_of_nat_small)

lemma dec_Int_enc:
  "int64 i \<Longrightarrow> dec_Int (reading (enc_Int [] i @ rest)) = (i, reading rest)"
  by (simp add: dec_Int_def enc_Int_def readVarint_append int64_sint)

lemma enc_details_buf: "enc_details buf ds = buf @ enc_details [] ds"
proof (induction ds arbitrary: buf)
  case (Cons d ds)
  have "enc_details buf (d # ds) = enc_String (enc_String buf (det_Key d)) (det_Value d) @ enc_details [] ds"
    using Cons [of "enc_String (enc_String buf (det_Key d)) (det_Value d)"] by simp
  moreover have "enc_details [] (d # ds) = enc_String (enc_String [] (det_Key d)) (det_Value d) @ enc_details [] ds"
    using Cons [of "enc_String (enc_String [] (det_Key d)) (det_Value d)"] by simp
  ultimately show ?case
    by (simp add: enc_String_buf [of buf] enc_String_buf [of "_ @ _"] enc_String_buf [of "enc_String _ _"])
qed simp

lemma enc_details_Cons:
  "enc_details [] (d # ds) = enc_String [] (det_Key d) @ enc_String [] (det_Value d) @ enc_details [] ds"
  by (simp add: enc_details_buf [of "_ @ _"] enc_String_buf [of "enc_String _ _"])

lemma dec_details_enc:
  "list_all (\<lambda>d. go_string (det_Key d) \<and> go_string (det_Value d)) ds \<Longrightarrow>
   dec_details (length ds) (reading (enc_details [] ds @ rest)) = (ds, reading rest)"
proof (induction ds)
  case (Cons d ds)
  then show ?case
    by (simp add: enc_details_Cons dec_String_enc del: enc_details.simps)
qed simp

lemma EncodeOutcome_rejected:
  "EncodeOutcome codec (ORejected r) =
     outcomeVersion # branchRejected # enc_String [] (rej_code r) @ enc_String [] (rej_message r) @
       enc_uint [] (length (rej_details r)) @ enc_details [] (rej_details r)"
  by (simp add: EncodeOutcome_def Let_def enc_String_buf [of "_ # _"] enc_uint_buf [of "_ # _"]
      enc_details_buf [of "_ # _"])

lemma branches_differ [simp]: "branchRejected \<noteq> branchAccepted"
  by (simp add: branchRejected_def branchAccepted_def)

lemma DecodeOutcome_rejected:
  assumes "rejection_ok r"
  shows "DecodeOutcome codec (EncodeOutcome codec (ORejected r)) = Ok (ORejected r)"
proof -
  have n: "length (rej_details r) \<le> maxDetailsCount"
    using assms by (simp add: rejection_ok_def)
  then have "unat (word_of_nat (length (rej_details r)) :: 64 word) = length (rej_details r)"
    by (intro unat_of_nat_small) (simp add: maxDetailsCount_def)
  moreover have "dec_details (length (rej_details r)) (reading (enc_details [] (rej_details r))) =
      (rej_details r, reading [])"
    using assms dec_details_enc [of "rej_details r" "[]"] by (simp add: rejection_ok_def)
  ultimately show ?thesis
    using assms n
    by (simp add: EncodeOutcome_rejected DecodeOutcome_def dec_String_enc rejection_ok_def Let_def
        enc_uint_def dec_uint_enc dec_finish_def Reject_def)
qed

text \<open>
  What an operation's codec promises: its encoder only appends, and its decoder, given what the
  encoder wrote and more, returns the response and leaves the rest. \<open>ok\<close> bounds the response to what
  the codec's fields carry.
\<close>

locale outcome_codec =
  fixes codec :: "'r OutcomeCodec" and ok :: "'r \<Rightarrow> bool"
  assumes encode_appends: "codec_Encode codec buf r = buf @ codec_Encode codec [] r"
    and decode_encode: "ok r \<Longrightarrow> codec_Decode codec (reading (codec_Encode codec [] r @ rest)) = (r, reading rest)"
begin

lemma accepted_round_trip:
  "ok r \<Longrightarrow> DecodeOutcome codec (EncodeOutcome codec (OAccepted r)) = Ok (OAccepted r)"
  using decode_encode [of r "[]"] encode_appends [of "[outcomeVersion, branchAccepted]" r]
  by (simp add: EncodeOutcome_def DecodeOutcome_def Let_def dec_finish_def)

lemma round_trip:
  assumes "\<And>r. outcome = OAccepted r \<Longrightarrow> ok r" "\<And>r. outcome = ORejected r \<Longrightarrow> rejection_ok r"
  shows "DecodeOutcome codec (EncodeOutcome codec outcome) = Ok outcome"
  using assms by (cases outcome) (simp_all add: accepted_round_trip DecodeOutcome_rejected)

end

text \<open>
  The decoder's bound on the details has no counterpart in the encoder: a rejection with more than
  1024 details is written and cannot be read back.
\<close>

lemma EncodeOutcome_unreadable:
  assumes "go_string (rej_code r)" "go_string (rej_message r)"
    "maxDetailsCount < length (rej_details r)" "length (rej_details r) < 2 ^ 63"
  shows "DecodeOutcome codec (EncodeOutcome codec (ORejected r)) = FailWith ErrOutcomeUnreadable ''details''"
proof -
  have "unat (word_of_nat (length (rej_details r)) :: 64 word) = length (rej_details r)"
    using assms(4) by (rule unat_of_nat_small)
  then show ?thesis
    using assms by (simp add: EncodeOutcome_rejected DecodeOutcome_def dec_String_enc Let_def
        enc_uint_def dec_uint_enc)
qed

end
