(* ===== verification/Ports_Inbox.thy ===== *)
theory Ports_Inbox
  imports Ports_Context Application_Codec
begin

text \<open>
  The ports of a unit of work, \<^verbatim>\<open>libs/backend/go/ports\<close>: the inbox and its reception (\<^verbatim>\<open>inbox.go\<close>), the
  outbox entry (\<^verbatim>\<open>outbox.go\<close>), the version of optimistic locking (\<^verbatim>\<open>values.go\<close>) and what a
  containment stores (\<^verbatim>\<open>containment.go\<close>).

  \<open>Reception\<close> is opaque in Go and is inspected through \<open>Match\<close> alone. A pending reception is an object
  the first branch mutates: it is a value of type \<open>'p\<close> threaded through that branch, and \<open>completed\<close> reads
  it. The branches also thread the state they share, whatever it is.
\<close>

type_synonym Version = "64 word"

datatype Status = NoStatus | StatusProcessed | StatusRejected | InvalidStatus nat

fun Status_String :: "Status \<Rightarrow> string" where
  "Status_String StatusProcessed = ''processed''"
| "Status_String StatusRejected = ''rejected''"
| "Status_String _ = ''invalid''"

record Receipt =
  rcp_Consumer :: string
  rcp_MessageID :: MessageID
  rcp_MessageType :: string
  rcp_PayloadHash :: string
  rcp_ReceivedAt :: Instant
  rcp_WaitUntil :: Instant
  rcp_ExpiresAt :: Instant

record Completion =
  cpl_Status :: Status
  cpl_At :: Instant
  cpl_LastError :: string
  cpl_Outcome :: bytes

text \<open>
  R1 to R4 of the classification, and the zero value, which has none; the pending half comes with R1.
  A reception also carries the outcome to replay; a nil slice and an empty one are both \<open>[]\<close>.
\<close>

datatype 'p receptionKind =
  noReception | receptionFirst 'p | receptionProcessed | receptionRejected | receptionCollision

record 'p Reception =
  rc_kind :: "'p receptionKind"
  rc_stored :: bytes

definition WithStored :: "bytes \<Rightarrow> 'p Reception \<Rightarrow> 'p Reception" where
  "WithStored outcome r = r\<lparr>rc_stored := outcome\<rparr>"

definition Stored :: "'p Reception \<Rightarrow> bytes" where
  "Stored r = rc_stored r"

definition FirstReception :: "'p option \<Rightarrow> 'p Reception result" where
  "FirstReception p =
     (case p of
        None \<Rightarrow> Panic ''ports: FirstReception requires a non-nil Pending''
      | Some pending \<Rightarrow> Ok \<lparr>rc_kind = receptionFirst pending, rc_stored = []\<rparr>)"

definition ProcessedReception :: "'p Reception" where
  "ProcessedReception = \<lparr>rc_kind = receptionProcessed, rc_stored = []\<rparr>"

definition RejectedReception :: "'p Reception" where
  "RejectedReception = \<lparr>rc_kind = receptionRejected, rc_stored = []\<rparr>"

definition CollisionReception :: "'p Reception" where
  "CollisionReception = \<lparr>rc_kind = receptionCollision, rc_stored = []\<rparr>"

definition Reception_Match ::
    "('p \<Rightarrow> bool) \<Rightarrow> 'p Reception \<Rightarrow>
     ('p \<Rightarrow> 'w \<Rightarrow> 'p \<times> 'w \<times> unit result) \<Rightarrow> ('w \<Rightarrow> 'w \<times> unit result) \<Rightarrow>
     ('w \<Rightarrow> 'w \<times> unit result) \<Rightarrow> ('w \<Rightarrow> 'w \<times> unit result) \<Rightarrow> 'w \<Rightarrow> 'w \<times> unit result" where
  "Reception_Match completed r first processed rejected collision w =
     (case rc_kind r of
        receptionFirst p \<Rightarrow>
          (case first p w of
             (p', w', Ok _) \<Rightarrow> if completed p' then (w', Ok ()) else (w', Fail ErrPendingNotCompleted)
           | (_, w', Err e) \<Rightarrow> (w', Err e)
           | (_, w', Panic m) \<Rightarrow> (w', Panic m))
      | receptionProcessed \<Rightarrow> processed w
      | receptionRejected \<Rightarrow> rejected w
      | receptionCollision \<Rightarrow> collision w
      | noReception \<Rightarrow> (w, Panic ''ports: Reception zero value has no classification''))"

record PublishIntent =
  pi_Destination :: string
  pi_PartitionKey :: string

record 'e OutboxEntry =
  oe_MessageID :: MessageID
  oe_OccurredAt :: Instant
  oe_Intent :: PublishIntent
  oe_AggregateType :: string
  oe_AggregateID :: string
  oe_AggregateVersion :: Version
  oe_Event :: 'e
  oe_Context :: MessageContext

text \<open>\<^verbatim>\<open>containment.go\<close>: why a message left the normal flow; the zero value is the empty text.\<close>

datatype Reason =
    ReasonNone | ReasonInvalidEnvelope | ReasonTerminalFailure | ReasonCollision | ReasonAttemptsExhausted
  | ReasonUntrustedBoundary | ReasonUndeclaredType

record Contained =
  ctd_Consumer :: string
  ctd_MessageID :: MessageID
  ctd_Reason :: Reason
  ctd_Envelope :: bytes
  ctd_Error :: string
  ctd_At :: Instant

fun Reason_String :: "Reason \<Rightarrow> string" where
  "Reason_String ReasonNone = []"
| "Reason_String ReasonInvalidEnvelope = ''invalid-envelope''"
| "Reason_String ReasonTerminalFailure = ''terminal-failure''"
| "Reason_String ReasonCollision = ''collision''"
| "Reason_String ReasonAttemptsExhausted = ''attempts-exhausted''"
| "Reason_String ReasonUntrustedBoundary = ''untrusted-boundary''"
| "Reason_String ReasonUndeclaredType = ''undeclared-type''"

lemma FirstReception_Some [simp]:
  "FirstReception (Some p) = Ok \<lparr>rc_kind = receptionFirst p, rc_stored = []\<rparr>"
  by (simp add: FirstReception_def)

lemmas reception_defs [go_defs] = WithStored_def Stored_def ProcessedReception_def RejectedReception_def CollisionReception_def

text \<open>A first reception succeeds only when its branch completed it (INB-05).\<close>

lemma Reception_Match_first_Ok:
  assumes "rc_kind r = receptionFirst p" "Reception_Match completed r first pr rj co w = (w', Ok ())"
  shows "\<exists>p'. first p w = (p', w', Ok ()) \<and> completed p'"
  using assms by (auto simp: Reception_Match_def split: prod.splits res.splits if_splits)

end
