(* ===== verification/Memory_Store.thy ===== *)
theory Memory_Store
  imports Memory_Ledger Ports_Inbox
begin

text \<open>
  The in-memory realization of the ports, \<^verbatim>\<open>libs/backend/go/memory\<close>: tables and their unique constraints
  (\<^verbatim>\<open>store.go\<close>) and the unit of work with its working copy (\<^verbatim>\<open>tx.go\<close>).

  The store keeps identifiers and snapshots as \<open>any\<close>; here they are the type variables \<open>'id\<close> and \<open>'s\<close>, and
  an event is \<open>'e\<close>. Maps are association lists with distinct keys. A transaction runs with \<open>txMu\<close> held, so
  \<open>Within\<close> is a function of the store; the callback takes the working copy and the variables its closure
  captures (\<open>'w\<close>) and returns them with its error. \<open>tbl_Format\<close> is what \<open>fmt\<close>'s \<open>%v\<close> prints for an
  identifier, which Go finds through the type.
\<close>

section \<open>Tables\<close>

record 's Unique =
  uq_Name :: string
  uq_Key :: "('s \<Rightarrow> string list option) option"
  uq_Rejection :: "Rejection option"

record ('id, 's) Table =
  tbl_Name :: string
  tbl_Clone :: "('s \<Rightarrow> 's) option"
  tbl_Unique :: "'s Unique list"
  tbl_Format :: "'id \<Rightarrow> string"

record 's row =
  row_snapshot :: 's
  row_version :: Version

record ('id, 's) table =
  tab_rows :: "('id rowKey \<times> 's row) list"
  tab_clone :: "('s \<Rightarrow> 's) option"

type_synonym ('id, 's) tables = "(string \<times> ('id, 's) table) list"

fun validate_uniques :: "string list \<Rightarrow> 's Unique list \<Rightarrow> unit result" where
  "validate_uniques names [] = Ok ()"
| "validate_uniques names (u # us) =
     (if uq_Name u = [] then Panic ''memory: table declares a unique constraint without a name''
      else if uq_Key u = None then Panic ''memory: unique constraint declared without a key''
      else case uq_Rejection u of
        None \<Rightarrow> Panic ''memory: unique constraint declared without a rejection''
      | Some r \<Rightarrow>
          if \<not> Code_Valid (rej_code r) then Panic ''memory: unique constraint has an invalid rejection code''
          else if uq_Name u \<in> set names then Panic ''memory: unique constraint declared twice''
          else validate_uniques (uq_Name u # names) us)"

definition Table_validate :: "('id, 's) Table \<Rightarrow> unit result" where
  "Table_validate t = validate_uniques [] (tbl_Unique t)"

definition collides :: "('s \<Rightarrow> string list option) \<Rightarrow> string list \<Rightarrow> 'id rowKey \<Rightarrow> ('id rowKey \<times> 's row) list \<Rightarrow> bool" where
  "collides keyOf want key rows =
     list_ex (\<lambda>(other, rec).
       \<not> (rk_tenant other \<noteq> rk_tenant key \<or> rk_id other = rk_id key) \<and> keyOf (row_snapshot rec) = Some want) rows"

fun violation_loop :: "string \<Rightarrow> 's Unique list \<Rightarrow> ('id rowKey \<times> 's row) list \<Rightarrow> 'id rowKey \<Rightarrow> 's \<Rightarrow> int \<Rightarrow> unit result" where
  "violation_loop name [] rows key state priorWrites = Ok ()"
| "violation_loop name (u # us) rows key state priorWrites =
     (case uq_Key u of
        None \<Rightarrow> Panic ''invalid memory address or nil pointer dereference''
      | Some keyOf \<Rightarrow>
          (case keyOf state of
             None \<Rightarrow> violation_loop name us rows key state priorWrites
           | Some want \<Rightarrow>
               if collides keyOf want key rows
               then Err (UniqueViolation name (uq_Name u) (if priorWrites = 0 then uq_Rejection u else None))
               else violation_loop name us rows key state priorWrites))"

definition violation :: "('id, 's) Table \<Rightarrow> ('id, 's) table \<Rightarrow> 'id rowKey \<Rightarrow> 's \<Rightarrow> int \<Rightarrow> unit result" where
  "violation t rows key state priorWrites =
     violation_loop (tbl_Name t) (tbl_Unique t) (tab_rows rows) key state priorWrites"

definition Table_copy :: "('id, 's) Table \<Rightarrow> 's \<Rightarrow> 's" where
  "Table_copy t s = (case tbl_Clone t of None \<Rightarrow> s | Some clone \<Rightarrow> clone s)"

text \<open>The owner the miss reports: a fold over the keys, keeping the lowest tenant.\<close>

definition lowest_owner :: "'id rowKey \<Rightarrow> TenantID \<Rightarrow> 'id rowKey \<Rightarrow> TenantID" where
  "lowest_owner key owner other =
     (if rk_id other = rk_id key \<and> rk_tenant other \<noteq> rk_tenant key \<and> (owner = [] \<or> rk_tenant other < owner)
      then rk_tenant other else owner)"

definition miss :: "('id, 's) Table \<Rightarrow> ('id, 's) table \<Rightarrow> 'id rowKey \<Rightarrow> gerr" where
  "miss t rows key =
     (let owner = foldl (lowest_owner key) [] (map fst (tab_rows rows)) in
      if owner = [] then Sentinel ErrNotFound
      else CrossTenantAccess (tbl_Name t @ ''/'' @ tbl_Format t (rk_id key)) (rk_tenant key) owner)"

definition load :: "('id, 's) Table \<Rightarrow> carrier \<Rightarrow> ('id, 's) tables \<Rightarrow> 'id \<Rightarrow> ('s \<times> Version) result" where
  "load t ctx from i =
     res_bind (scopedKey ctx i) (\<lambda>key.
       case map_of from (tbl_Name t) of
         None \<Rightarrow> Fail ErrNotFound
       | Some rows \<Rightarrow>
           (case map_of (tab_rows rows) key of
              None \<Rightarrow> Err (miss t rows key)
            | Some rec \<Rightarrow> Ok (Table_copy t (row_snapshot rec), row_version rec)))"

section \<open>Store and transaction\<close>

record inboxKey =
  ik_consumer :: string
  ik_id :: MessageID

record inboxRow =
  ir_hash :: string
  ir_status :: Status
  ir_lastError :: string
  ir_outcome :: bytes
  ir_expiresAt :: Instant

record ('id, 's, 'e) Store =
  st_tables :: "('id, 's) tables"
  st_inbox :: "(inboxKey \<times> inboxRow) list"
  st_outbox :: "'e OutboxEntry list"
  st_attempts :: attempts
  st_withinCalls :: int
  st_commits :: int
  st_failNextCommit :: "gerr option"

definition Store_New :: "('id, 's, 'e) Store" where
  "Store_New = \<lparr>st_tables = [], st_inbox = [], st_outbox = [], st_attempts = [], st_withinCalls = 0,
     st_commits = 0, st_failNextCommit = None\<rparr>"

definition InboxRows :: "('id, 's, 'e) Store \<Rightarrow> nat" where
  "InboxRows s = length (st_inbox s)"

definition InboxStatus :: "('id, 's, 'e) Store \<Rightarrow> string \<Rightarrow> MessageID \<Rightarrow> Status option" where
  "InboxStatus s consumer i = map_option ir_status (map_of (st_inbox s) \<lparr>ik_consumer = consumer, ik_id = i\<rparr>)"

definition InboxLastError :: "('id, 's, 'e) Store \<Rightarrow> string \<Rightarrow> MessageID \<Rightarrow> string option" where
  "InboxLastError s consumer i = map_option ir_lastError (map_of (st_inbox s) \<lparr>ik_consumer = consumer, ik_id = i\<rparr>)"

definition AttemptConflicts :: "('id, 's, 'e) Store \<Rightarrow> TenantID \<Rightarrow> OutboundKey \<Rightarrow> nat" where
  "AttemptConflicts s tenant key =
     sum_list (map (\<lambda>row. length (ar_conflicts row)) (rows_of (st_attempts s) \<lparr>ak_tenant = tenant, ak_key = key\<rparr>))"

definition AttemptObservationIDs :: "('id, 's, 'e) Store \<Rightarrow> TenantID \<Rightarrow> OutboundKey \<Rightarrow> nat" where
  "AttemptObservationIDs s tenant key =
     sum_list (map (\<lambda>row. length (ar_seen row)) (rows_of (st_attempts s) \<lparr>ak_tenant = tenant, ak_key = key\<rparr>))"

definition Entries :: "('id, 's, 'e) Store \<Rightarrow> 'e OutboxEntry list" where
  "Entries s = st_outbox s"

definition FailNextCommit :: "gerr option \<Rightarrow> ('id, 's, 'e) Store \<Rightarrow> ('id, 's, 'e) Store" where
  "FailNextCommit err s = s\<lparr>st_failNextCommit := err\<rparr>"

definition Reader_Load :: "('id, 's) Table \<Rightarrow> ('id, 's, 'e) Store \<Rightarrow> carrier \<Rightarrow> 'id \<Rightarrow> ('s \<times> Version) result" where
  "Reader_Load t s ctx i = load t ctx (st_tables s) i"

definition cloneRows :: "('id, 's) table \<Rightarrow> ('id, 's) table" where
  "cloneRows t = t\<lparr>tab_rows := map (\<lambda>(key, rec).
     (key, case tab_clone t of None \<Rightarrow> rec | Some clone \<Rightarrow> rec\<lparr>row_snapshot := clone (row_snapshot rec)\<rparr>)) (tab_rows t)\<rparr>"

definition cloneTables :: "('id, 's) tables \<Rightarrow> ('id, 's) tables" where
  "cloneTables src = map (\<lambda>(name, rows). (name, cloneRows rows)) src"

text \<open>The copies of the inbox and of the attempts are deep and hold equal values.\<close>

definition cloneInboxRows :: "(inboxKey \<times> inboxRow) list \<Rightarrow> (inboxKey \<times> inboxRow) list" where
  "cloneInboxRows src = map (\<lambda>(key, row). (key, row\<lparr>ir_outcome := [] @ ir_outcome row\<rparr>)) src"

definition cloneAttempts :: "attempts \<Rightarrow> attempts" where
  "cloneAttempts src =
     map (\<lambda>(key, rows). (key, map (\<lambda>row. row\<lparr>ar_seen := ar_seen row, ar_conflicts := ar_conflicts row\<rparr>) rows)) src"

record ('id, 's, 'e) Tx =
  tx_tables :: "('id, 's) tables"
  tx_inbox :: "(inboxKey \<times> inboxRow) list"
  tx_outbox :: "'e OutboxEntry list"
  tx_attempts :: attempts
  tx_writes :: int

definition uow_open :: "('id, 's, 'e) Store \<Rightarrow> ('id, 's, 'e) Store \<times> ('id, 's, 'e) Tx" where
  "uow_open s =
     (s\<lparr>st_withinCalls := wrap64 (st_withinCalls s + 1)\<rparr>,
      \<lparr>tx_tables = cloneTables (st_tables s), tx_inbox = cloneInboxRows (st_inbox s), tx_outbox = [],
       tx_attempts = cloneAttempts (st_attempts s), tx_writes = 0\<rparr>)"

definition uow_commit :: "('id, 's, 'e) Tx \<Rightarrow> ('id, 's, 'e) Store \<Rightarrow> ('id, 's, 'e) Store \<times> unit result" where
  "uow_commit tx s =
     (case st_failNextCommit s of
        Some err \<Rightarrow> (s\<lparr>st_failNextCommit := None\<rparr>, Err err)
      | None \<Rightarrow>
          (s\<lparr>st_tables := cloneTables (tx_tables tx), st_inbox := cloneInboxRows (tx_inbox tx),
             st_attempts := cloneAttempts (tx_attempts tx), st_outbox := st_outbox s @ tx_outbox tx,
             st_commits := wrap64 (st_commits s + 1)\<rparr>, Ok ()))"

definition Within ::
    "('id, 's, 'e) Store \<Rightarrow> carrier \<Rightarrow> (carrier \<Rightarrow> ('id, 's, 'e) Tx \<Rightarrow> 'w \<Rightarrow> ('id, 's, 'e) Tx \<times> 'w \<times> unit result) \<Rightarrow>
     'w \<Rightarrow> ('id, 's, 'e) Store \<times> 'w \<times> unit result" where
  "Within s ctx fn w =
     (case ctx_err ctx of
        Some err \<Rightarrow> (s, w, Err err)
      | None \<Rightarrow>
          (case ctx_err_locked ctx of
             Some err \<Rightarrow> (s, w, Err err)
           | None \<Rightarrow>
               let (s1, tx) = uow_open s in
               (case fn ctx tx w of
                  (_, w', Err err) \<Rightarrow> (s1, w', Err err)
                | (_, w', Panic m) \<Rightarrow> (s1, w', Panic m)
                | (tx', w', Ok _) \<Rightarrow> (let (s2, r) = uow_commit tx' s1 in (s2, w', r)))))"

section \<open>Repository and outbox\<close>

definition tx_table :: "('id, 's) Table \<Rightarrow> ('id, 's, 'e) Tx \<Rightarrow> ('id, 's, 'e) Tx \<times> ('id, 's) table" where
  "tx_table t tx =
     (case map_of (tx_tables tx) (tbl_Name t) of
        Some rows \<Rightarrow> (tx, rows)
      | None \<Rightarrow>
          let rows = \<lparr>tab_rows = [], tab_clone = tbl_Clone t\<rparr> in
          (tx\<lparr>tx_tables := AList.update (tbl_Name t) rows (tx_tables tx)\<rparr>, rows))"

definition saveAs :: "('id, 's) Table \<Rightarrow> 'id rowKey \<Rightarrow> 's \<Rightarrow> Version \<Rightarrow> ('id, 's, 'e) Tx \<Rightarrow> ('id, 's, 'e) Tx \<times> unit result" where
  "saveAs t key state expected tx =
     (let (tx1, rows) = tx_table t tx;
          current = (case map_of (tab_rows rows) key of Some rec \<Rightarrow> row_version rec | None \<Rightarrow> 0) in
      if current \<noteq> expected then (tx1, Fail ErrVersionConflict)
      else case violation t rows key state (tx_writes tx1) of
        Err err \<Rightarrow> (tx1, Err err)
      | Panic m \<Rightarrow> (tx1, Panic m)
      | Ok _ \<Rightarrow>
          let rows' = rows\<lparr>tab_rows := AList.update key \<lparr>row_snapshot = Table_copy t state, row_version = expected + 1\<rparr> (tab_rows rows)\<rparr> in
          (tx1\<lparr>tx_tables := AList.update (tbl_Name t) rows' (tx_tables tx1), tx_writes := wrap64 (tx_writes tx1 + 1)\<rparr>, Ok ()))"

definition Repository_Load :: "('id, 's) Table \<Rightarrow> carrier \<Rightarrow> 'id \<Rightarrow> ('id, 's, 'e) Tx \<Rightarrow> ('s \<times> Version) result" where
  "Repository_Load t ctx i tx = load t ctx (tx_tables tx) i"

definition Repository_Save :: "('id, 's) Table \<Rightarrow> carrier \<Rightarrow> 'id \<Rightarrow> 's \<Rightarrow> Version \<Rightarrow> ('id, 's, 'e) Tx \<Rightarrow> ('id, 's, 'e) Tx \<times> unit result" where
  "Repository_Save t ctx i state expected tx =
     (case scopedKey ctx i of
        Err err \<Rightarrow> (tx, Err err)
      | Panic m \<Rightarrow> (tx, Panic m)
      | Ok key \<Rightarrow> saveAs t key state expected tx)"

definition Outbox_Enqueue :: "'e OutboxEntry \<Rightarrow> ('id, 's, 'e) Tx \<Rightarrow> ('id, 's, 'e) Tx \<times> unit result" where
  "Outbox_Enqueue entry tx =
     (tx\<lparr>tx_outbox := tx_outbox tx @ [entry], tx_writes := wrap64 (tx_writes tx + 1)\<rparr>, Ok ())"

section \<open>Copies\<close>

lemma cloneInboxRows_id [simp]: "cloneInboxRows src = src"
  by (induction src) (auto simp: cloneInboxRows_def)

lemma cloneAttempts_id [simp]: "cloneAttempts src = src"
  by (induction src) (auto simp: cloneAttempts_def)

lemma map_of_cloneTables: "map_of (cloneTables src) name = map_option cloneRows (map_of src name)"
  by (simp add: cloneTables_def map_of_map_snd)

lemma map_of_cloneRows:
  "map_of (tab_rows (cloneRows t)) key =
     map_option (\<lambda>rec. case tab_clone t of None \<Rightarrow> rec | Some clone \<Rightarrow> rec\<lparr>row_snapshot := clone (row_snapshot rec)\<rparr>)
       (map_of (tab_rows t) key)"
  by (simp add: cloneRows_def map_of_map_snd)

text \<open>Distinct names and distinct keys: association lists that are maps.\<close>

definition tables_wf :: "('id, 's) tables \<Rightarrow> bool" where
  "tables_wf ts \<longleftrightarrow> distinct (map fst ts) \<and> (\<forall>name rows. map_of ts name = Some rows \<longrightarrow> distinct (map fst (tab_rows rows)))"

lemma tables_wf_clone [simp]: "tables_wf (cloneTables ts) \<longleftrightarrow> tables_wf ts"
proof -
  have "distinct (map fst (cloneTables ts)) \<longleftrightarrow> distinct (map fst ts)"
    by (simp add: cloneTables_def)
  moreover have "distinct (map fst (tab_rows (cloneRows t))) \<longleftrightarrow> distinct (map fst (tab_rows t))" for t :: "('id, 's) table"
    by (simp add: cloneRows_def)
  ultimately show ?thesis
    by (auto simp: tables_wf_def map_of_cloneTables)
qed

section \<open>The unit of work is atomic\<close>

text \<open>What a committed transaction leaves and what a failed one leaves.\<close>

definition same_data :: "('id, 's, 'e) Store \<Rightarrow> ('id, 's, 'e) Store \<Rightarrow> bool" where
  "same_data s s' \<longleftrightarrow> st_tables s' = st_tables s \<and> st_inbox s' = st_inbox s \<and> st_outbox s' = st_outbox s \<and>
     st_attempts s' = st_attempts s \<and> st_commits s' = st_commits s"

definition committed :: "('id, 's, 'e) Tx \<Rightarrow> ('id, 's, 'e) Store \<Rightarrow> ('id, 's, 'e) Store \<Rightarrow> bool" where
  "committed tx s s' \<longleftrightarrow> st_tables s' = cloneTables (tx_tables tx) \<and> st_inbox s' = tx_inbox tx \<and>
     st_outbox s' = st_outbox s @ tx_outbox tx \<and> st_attempts s' = tx_attempts tx \<and>
     st_commits s' = wrap64 (st_commits s + 1)"

definition opened :: "('id, 's, 'e) Store \<Rightarrow> ('id, 's, 'e) Tx" where
  "opened s = \<lparr>tx_tables = cloneTables (st_tables s), tx_inbox = st_inbox s, tx_outbox = [],
     tx_attempts = st_attempts s, tx_writes = 0\<rparr>"

lemma uow_open_simps: "uow_open s = (s\<lparr>st_withinCalls := wrap64 (st_withinCalls s + 1)\<rparr>, opened s)"
  by (simp add: uow_open_def opened_def)

lemma same_data_refl [simp]: "same_data s s"
  by (simp add: same_data_def)

lemma Within_cases:
  obtains (cancelled) e where "Within s ctx fn w = (s, w, Err e)" "ctx_err ctx = Some e \<or> ctx_err ctx = None \<and> ctx_err_locked ctx = Some e"
  | (failed) tx w' e s' where "fn ctx (opened s) w = (tx, w', Err e)" "Within s ctx fn w = (s', w', Err e)" "same_data s s'"
  | (panicked) tx w' m s' where "fn ctx (opened s) w = (tx, w', Panic m)" "Within s ctx fn w = (s', w', Panic m)" "same_data s s'"
  | (commit_failed) tx w' e s' where "fn ctx (opened s) w = (tx, w', Ok ())" "st_failNextCommit s = Some e"
      "Within s ctx fn w = (s', w', Err e)" "same_data s s'" "st_failNextCommit s' = None"
  | (committed) tx w' s' where "fn ctx (opened s) w = (tx, w', Ok ())" "st_failNextCommit s = None"
      "Within s ctx fn w = (s', w', Ok ())" "committed tx s s'" "ctx_err ctx = None" "ctx_err_locked ctx = None"
proof (cases "ctx_err ctx = None \<and> ctx_err_locked ctx = None")
  case False
  then obtain e where "Within s ctx fn w = (s, w, Err e)" "ctx_err ctx = Some e \<or> ctx_err ctx = None \<and> ctx_err_locked ctx = Some e"
    by (cases "ctx_err ctx") (auto simp: Within_def)
  then show thesis by (rule cancelled)
next
  case True
  obtain tx w' r where fn: "fn ctx (opened s) w = (tx, w', r)"
    by (metis prod_cases3)
  show thesis
  proof (cases r)
    case (Ok u)
    show thesis
    proof (cases "st_failNextCommit s")
      case None
      have "\<exists>s'. Within s ctx fn w = (s', w', Ok ()) \<and> committed tx s s'"
        using True fn Ok None by (simp add: Within_def uow_open_simps uow_commit_def committed_def)
      with True fn Ok None committed show thesis by auto
    next
      case (Some e)
      have "\<exists>s'. Within s ctx fn w = (s', w', Err e) \<and> same_data s s' \<and> st_failNextCommit s' = None"
        using True fn Ok Some by (simp add: Within_def uow_open_simps uow_commit_def same_data_def)
      with fn Ok Some commit_failed show thesis by auto
    qed
  next
    case (Err e)
    have "\<exists>s'. Within s ctx fn w = (s', w', Err e) \<and> same_data s s'"
      using True fn Err by (simp add: Within_def uow_open_simps same_data_def)
    with fn Err failed show thesis by blast
  next
    case (Panic m)
    have "\<exists>s'. Within s ctx fn w = (s', w', Panic m) \<and> same_data s s'"
      using True fn Panic by (simp add: Within_def uow_open_simps same_data_def)
    with fn Panic panicked show thesis by blast
  qed
qed

text \<open>
  C27. A unit of work is atomic. When \<open>Within\<close> returns no error the callback returned none, no commit
  failure was armed, and tables, inbox, outbox and attempts are together what the callback left in its
  working copy, which started as the committed state. In every other case (a context already done, an
  error or a panic of the callback, a failed commit) none of them changed.
\<close>

theorem Within_atomic:
  "case Within s ctx fn w of
     (s', w', r) \<Rightarrow>
       (case r of
          Ok _ \<Rightarrow> (\<exists>tx. fn ctx (opened s) w = (tx, w', Ok ()) \<and> st_failNextCommit s = None \<and> committed tx s s')
        | Err e \<Rightarrow> same_data s s'
        | Panic m \<Rightarrow> same_data s s' \<and> (\<exists>tx. fn ctx (opened s) w = (tx, w', Panic m)))"
  by (cases rule: Within_cases [of s ctx fn w]) auto

section \<open>The repository refines a map of versioned rows\<close>

type_synonym ('id, 's) row_map = "string \<times> 'id rowKey \<Rightarrow> 's row option"

definition abs_tables :: "('id, 's) tables \<Rightarrow> ('id, 's) row_map" where
  "abs_tables ts = (\<lambda>(name, key). case map_of ts name of None \<Rightarrow> None | Some rows \<Rightarrow> map_of (tab_rows rows) key)"

definition spec_version :: "('id, 's) row_map \<Rightarrow> string \<Rightarrow> 'id rowKey \<Rightarrow> Version" where
  "spec_version m name key = (case m (name, key) of None \<Rightarrow> 0 | Some rec \<Rightarrow> row_version rec)"

text \<open>Another identifier of the same tenant already holds the key that \<open>u\<close> reads off the new state.\<close>

definition spec_collision :: "('id, 's) row_map \<Rightarrow> string \<Rightarrow> 'id rowKey \<Rightarrow> 's \<Rightarrow> 's Unique \<Rightarrow> bool" where
  "spec_collision m name key state u \<longleftrightarrow>
     (\<exists>keyOf other rec. uq_Key u = Some keyOf \<and> keyOf state \<noteq> None \<and> m (name, other) = Some rec \<and>
        rk_tenant other = rk_tenant key \<and> rk_id other \<noteq> rk_id key \<and> keyOf (row_snapshot rec) = keyOf state)"

definition spec_save ::
    "('id, 's) Table \<Rightarrow> 'id rowKey \<Rightarrow> 's \<Rightarrow> Version \<Rightarrow> bool \<Rightarrow> ('id, 's) row_map \<Rightarrow> ('id, 's) row_map \<times> unit result" where
  "spec_save t key state expected fresh m =
     (if spec_version m (tbl_Name t) key \<noteq> expected then (m, Fail ErrVersionConflict)
      else case find (spec_collision m (tbl_Name t) key state) (tbl_Unique t) of
        Some u \<Rightarrow> (m, Err (UniqueViolation (tbl_Name t) (uq_Name u) (if fresh then uq_Rejection u else None)))
      | None \<Rightarrow> (m((tbl_Name t, key) \<mapsto> \<lparr>row_snapshot = Table_copy t state, row_version = expected + 1\<rparr>), Ok ()))"

lemma abs_tables_update:
  "abs_tables (AList.update name rows ts) =
     (\<lambda>(n, key). if n = name then map_of (tab_rows rows) key else abs_tables ts (n, key))"
  by (auto simp: abs_tables_def fun_eq_iff)

lemma validate_uniques_keys:
  "validate_uniques names us = Ok () \<Longrightarrow> u \<in> set us \<Longrightarrow> uq_Key u \<noteq> None \<and> uq_Rejection u \<noteq> None"
  by (induction names us rule: validate_uniques.induct) (auto split: if_splits option.splits)

lemma tables_wf_update:
  "tables_wf ts \<Longrightarrow> distinct (map fst (tab_rows rows)) \<Longrightarrow> tables_wf (AList.update name rows ts)"
  by (auto simp: tables_wf_def split: if_splits)

lemma tx_table_cases:
  assumes "tx_table t tx = (tx1, rows)"
  obtains (old) "map_of (tx_tables tx) (tbl_Name t) = Some rows" "tx1 = tx"
  | (new) "map_of (tx_tables tx) (tbl_Name t) = None" "tab_rows rows = []"
      "tx1 = tx\<lparr>tx_tables := AList.update (tbl_Name t) rows (tx_tables tx)\<rparr>"
  using assms by (auto simp: tx_table_def Let_def split: option.splits)

lemma tx_table_props:
  assumes "tx_table t tx = (tx1, rows)"
  shows "abs_tables (tx_tables tx1) = abs_tables (tx_tables tx)" "map_of (tx_tables tx1) (tbl_Name t) = Some rows"
    "tx_writes tx1 = tx_writes tx" "tables_wf (tx_tables tx) \<Longrightarrow> tables_wf (tx_tables tx1)"
    "abs_tables (tx_tables tx) (tbl_Name t, key) = map_of (tab_rows rows) key"
      apply (cases rule: tx_table_cases [OF assms]; simp add: abs_tables_update fun_eq_iff; simp add: abs_tables_def)
     apply (cases rule: tx_table_cases [OF assms]; simp)
    apply (cases rule: tx_table_cases [OF assms]; simp)
   apply (cases rule: tx_table_cases [OF assms]; simp add: tables_wf_update)
  by (cases rule: tx_table_cases [OF assms]; simp add: abs_tables_def)

lemma collides_iff:
  assumes "distinct (map fst rows)"
  shows "collides keyOf want key rows \<longleftrightarrow>
    (\<exists>other rec. map_of rows other = Some rec \<and> rk_tenant other = rk_tenant key \<and> rk_id other \<noteq> rk_id key \<and>
       keyOf (row_snapshot rec) = Some want)"
  using assms by (force simp: collides_def list_ex_iff)

lemma violation_loop_find:
  assumes "\<And>u. u \<in> set us \<Longrightarrow> uq_Key u \<noteq> None" "distinct (map fst rows)"
    and m: "\<And>key. m (name, key) = map_of rows key"
  shows "violation_loop name us rows key state prior =
    (case find (spec_collision m name key state) us of
       None \<Rightarrow> Ok ()
     | Some u \<Rightarrow> Err (UniqueViolation name (uq_Name u) (if prior = 0 then uq_Rejection u else None)))"
  using assms(1)
proof (induction us)
  case (Cons u us)
  then obtain keyOf where u: "uq_Key u = Some keyOf"
    by fastforce
  have "spec_collision m name key state u \<longleftrightarrow>
      (case keyOf state of None \<Rightarrow> False | Some want \<Rightarrow> collides keyOf want key rows)"
    by (auto simp: spec_collision_def u m collides_iff [OF assms(2)] split: option.splits)
  with Cons u show ?case
    by (auto split: option.splits)
qed simp

lemma spec_version_abs:
  "abs_tables (tx_tables tx) (tbl_Name t, key) = map_of rows key \<Longrightarrow>
   spec_version (abs_tables (tx_tables tx)) (tbl_Name t) key =
     (case map_of rows key of Some rec \<Rightarrow> row_version rec | None \<Rightarrow> 0)"
  by (simp add: spec_version_def split: option.splits)

lemma saveAs_spec:
  assumes wf: "tables_wf (tx_tables tx)" and valid: "Table_validate t = Ok ()"
  shows "(abs_tables (tx_tables (fst (saveAs t key state expected tx))), snd (saveAs t key state expected tx)) =
    spec_save t key state expected (tx_writes tx = 0) (abs_tables (tx_tables tx))"
proof -
  obtain tx1 rows where tab: "tx_table t tx = (tx1, rows)"
    by fastforce
  note props = tx_table_props [OF tab]
  have dist: "distinct (map fst (tab_rows rows))"
    using props(2) props(4) [OF wf] by (simp add: tables_wf_def)
  have "violation t rows key state (tx_writes tx1) =
    (case find (spec_collision (abs_tables (tx_tables tx)) (tbl_Name t) key state) (tbl_Unique t) of
       None \<Rightarrow> Ok ()
     | Some u \<Rightarrow> Err (UniqueViolation (tbl_Name t) (uq_Name u) (if tx_writes tx = 0 then uq_Rejection u else None)))"
    unfolding violation_def props(3)
    using valid dist props(5)
    by (intro violation_loop_find) (auto simp: Table_validate_def dest: validate_uniques_keys)
  note viol = this
  have upd: "abs_tables (AList.update (tbl_Name t) (rows\<lparr>tab_rows := AList.update key r (tab_rows rows)\<rparr>) (tx_tables tx1)) =
      (abs_tables (tx_tables tx))((tbl_Name t, key) \<mapsto> r)" for r
    using props(1,5) by (auto simp: abs_tables_update fun_eq_iff)
  show ?thesis
  proof (cases "find (spec_collision (abs_tables (tx_tables tx)) (tbl_Name t) key state) (tbl_Unique t)")
    case None
    then show ?thesis
      by (simp add: saveAs_def spec_save_def tab viol upd spec_version_abs [OF props(5)] props(1) Let_def)
  next
    case (Some u)
    then show ?thesis
      by (simp add: saveAs_def spec_save_def tab viol spec_version_abs [OF props(5)] props(1) Let_def)
  qed
qed

lemma saveAs_wf:
  assumes "tables_wf (tx_tables tx)"
  shows "tables_wf (tx_tables (fst (saveAs t key state expected tx)))"
proof -
  obtain tx1 rows where tab: "tx_table t tx = (tx1, rows)"
    by fastforce
  have wf: "tables_wf (tx_tables tx1)"
    by (rule tx_table_props(4) [OF tab assms])
  then have "distinct (map fst (tab_rows rows))"
    using tx_table_props(2) [OF tab] unfolding tables_wf_def by blast
  with wf show ?thesis
    using tab by (auto simp: saveAs_def Let_def tables_wf_update split: res.splits)
qed

text \<open>
  C5. \<open>Save\<close> implements the versioned map of the repository contract. Over a table with valid declarations
  it writes the row as version \<open>expected + 1\<close> exactly when the stored version is the expected one (zero for
  an absent row) and no other identifier of the tenant holds a declared unique key; a version conflict is
  reported before a unique violation, the first declared constraint wins, and its rejection is offered only
  while the transaction has written nothing. Nothing is written on an error, and no other row is touched.
\<close>

theorem saveAs_refines_versioned_map:
  assumes "tables_wf (tx_tables tx)" and "Table_validate t = Ok ()"
  shows "(abs_tables (tx_tables (fst (saveAs t key state expected tx))), snd (saveAs t key state expected tx)) =
    spec_save t key state expected (tx_writes tx = 0) (abs_tables (tx_tables tx))"
  using assms by (rule saveAs_spec)

definition sample_table :: "(nat, string) Table" where
  "sample_table = \<lparr>tbl_Name = ''orders'', tbl_Clone = None,
     tbl_Unique = [\<lparr>uq_Name = ''code'', uq_Key = Some (\<lambda>s. Some [s]),
       uq_Rejection = Some (Reject ''orders/taken'' ''taken'' [])\<rparr>], tbl_Format = itoa\<rparr>"

lemma sample_table_valid: "Table_validate sample_table = Ok ()"
  by code_simp

definition sample_tx :: "(nat, string, unit) Tx" where
  "sample_tx = opened Store_New"

lemma sample_tx_wf: "tables_wf (tx_tables sample_tx)"
  by (simp add: sample_tx_def opened_def Store_New_def cloneTables_def tables_wf_def)

theorem saveAs_refines_versioned_map_witness:
  "snd (saveAs sample_table \<lparr>rk_tenant = ''t-1'', rk_id = 7\<rparr> ''a'' 0 sample_tx) = Ok () \<and>
   abs_tables (tx_tables (fst (saveAs sample_table \<lparr>rk_tenant = ''t-1'', rk_id = 7\<rparr> ''a'' 0 sample_tx)))
     (''orders'', \<lparr>rk_tenant = ''t-1'', rk_id = 7\<rparr>) = Some \<lparr>row_snapshot = ''a'', row_version = 1\<rparr>"
  using saveAs_refines_versioned_map [OF sample_tx_wf sample_table_valid, of "\<lparr>rk_tenant = ''t-1'', rk_id = 7\<rparr>" "''a''" 0]
  by (simp add: spec_save_def spec_version_def spec_collision_def abs_tables_def sample_table_def sample_tx_def
      opened_def Store_New_def cloneTables_def Table_copy_def)

section \<open>Loads read the map\<close>

lemma miss_not_found: "errors_Is (miss t rows key) ErrNotFound" "CategoryOf (miss t rows key) = Some NotFound"
  by (auto simp: miss_def Let_def CategoryOf_def errors_As_def List.map_filter_simps)

lemma load_present:
  "scopedKey ctx i = Ok key \<Longrightarrow> abs_tables ts (tbl_Name t, key) = Some rec \<Longrightarrow>
     load t ctx ts i = Ok (Table_copy t (row_snapshot rec), row_version rec)"
  by (auto simp: load_def abs_tables_def split: option.splits)

lemma load_absent:
  "scopedKey ctx i = Ok key \<Longrightarrow> abs_tables ts (tbl_Name t, key) = None \<Longrightarrow>
     \<exists>e. load t ctx ts i = Err e \<and> errors_Is e ErrNotFound \<and> CategoryOf e = Some NotFound"
  by (auto simp: load_def abs_tables_def miss_not_found split: option.splits)
    (auto simp: CategoryOf_def errors_As_Sentinel)

lemma load_unscoped: "scopedKey ctx i = Err e \<Longrightarrow> load t ctx ts i = Err e"
  by (simp add: load_def)

lemma scopedKey_no_panic [simp]: "scopedKey ctx i \<noteq> Panic m"
  by (auto simp: scopedKey_def RequireExecutionContext_def split: option.splits)

lemma scopedKey_Ok: "scopedKey ctx i = Ok key \<Longrightarrow> rk_id key = i"
  by (auto simp: scopedKey_def split: option.splits)

lemma scopedKey_tenant: "scopedKey ctx i = Ok key \<Longrightarrow> scopedKey ctx j = Ok \<lparr>rk_tenant = rk_tenant key, rk_id = j\<rparr>"
  by (cases "RequireExecutionContext ctx") (auto simp: scopedKey_def split: option.splits)

lemma load_tx_table:
  assumes "tx_table t tx = (tx1, rows)"
  shows "load t ctx (tx_tables tx1) i = load t ctx (tx_tables tx) i"
  using assms
proof (cases rule: tx_table_cases)
  case new
  then show ?thesis
    by (cases "scopedKey ctx i") (simp_all add: load_def miss_def)
qed simp

lemma saveAs_err_load:
  assumes "snd (saveAs t key state expected tx) \<noteq> Ok ()"
  shows "load t ctx (tx_tables (fst (saveAs t key state expected tx))) i = load t ctx (tx_tables tx) i"
proof -
  obtain tx1 rows where tab: "tx_table t tx = (tx1, rows)"
    by fastforce
  with assms have "fst (saveAs t key state expected tx) = tx1"
    by (auto simp: saveAs_def Let_def split: res.splits)
  with load_tx_table [OF tab] show ?thesis by simp
qed

lemma saveAs_Ok_abs:
  assumes "tables_wf (tx_tables tx)" "Table_validate t = Ok ()" "snd (saveAs t key state expected tx) = Ok ()"
  shows "abs_tables (tx_tables (fst (saveAs t key state expected tx))) =
      (abs_tables (tx_tables tx))((tbl_Name t, key) \<mapsto> \<lparr>row_snapshot = Table_copy t state, row_version = expected + 1\<rparr>)"
    "spec_version (abs_tables (tx_tables tx)) (tbl_Name t) key = expected"
  using saveAs_spec [OF assms(1,2), of key state expected] assms(3)
  by (auto simp: spec_save_def split: if_splits option.splits)

section \<open>The repository interface\<close>

text \<open>
  What a use case relies on: after a successful \<open>Save\<close> a \<open>Load\<close> returns what was saved at the next version;
  \<open>Save\<close> succeeds only over the version it expects; a failed \<open>Save\<close> changes no answer of a transaction that
  is still open; other identifiers keep theirs. \<open>stored\<close> is what the boundary makes of a state.
\<close>

locale repository =
  fixes load :: "'k \<Rightarrow> 'tx \<Rightarrow> ('s \<times> Version) result"
    and save :: "'k \<Rightarrow> 's \<Rightarrow> Version \<Rightarrow> 'tx \<Rightarrow> 'tx \<times> unit result"
    and inv :: "'tx \<Rightarrow> bool" and usable :: "'tx \<Rightarrow> bool" and stored :: "'k \<Rightarrow> 's \<Rightarrow> 's"
  assumes save_inv: "inv tx \<Longrightarrow> inv (fst (save k s v tx))"
    and save_ok: "inv tx \<Longrightarrow> snd (save k s v tx) = Ok () \<Longrightarrow> load k (fst (save k s v tx)) = Ok (stored k s, v + 1)"
    and save_expected: "inv tx \<Longrightarrow> snd (save k s v tx) = Ok () \<Longrightarrow>
      (case load k tx of Ok (_, v') \<Rightarrow> v' = v | Err e \<Rightarrow> v = 0 \<and> errors_Is e ErrNotFound | Panic _ \<Rightarrow> False)"
    and save_conflict: "inv tx \<Longrightarrow> load k tx = Ok (s', v') \<Longrightarrow> v' \<noteq> v \<Longrightarrow>
      snd (save k s v tx) = Fail ErrVersionConflict \<and> usable (fst (save k s v tx))"
    and save_err: "inv tx \<Longrightarrow> snd (save k s v tx) \<noteq> Ok () \<Longrightarrow> usable (fst (save k s v tx)) \<Longrightarrow>
      load k' (fst (save k s v tx)) = load k' tx"
    and save_frame: "inv tx \<Longrightarrow> k' \<noteq> k \<Longrightarrow> load k' tx = Ok x \<Longrightarrow> usable (fst (save k s v tx)) \<Longrightarrow>
      load k' (fst (save k s v tx)) = Ok x"
begin

text \<open>No lost update: of two writers that loaded the same version, the second is refused.\<close>

lemma no_lost_update:
  assumes "inv tx" "save k s v tx = (tx1, Ok ())"
  shows "snd (save k s' v tx1) = Fail ErrVersionConflict \<and> load k (fst (save k s' v tx1)) = Ok (stored k s, v + 1)"
proof -
  have inv: "inv tx1" and l: "load k tx1 = Ok (stored k s, v + 1)"
    using save_inv [OF assms(1), of k s v] save_ok [OF assms(1), of k s v] assms(2) by simp_all
  then have "snd (save k s' v tx1) = Fail ErrVersionConflict \<and> usable (fst (save k s' v tx1))"
    by (intro save_conflict) auto
  with l inv save_err [of tx1 k s' v k] show ?thesis
    by simp
qed

end

interpretation mem_repo: repository "Repository_Load t ctx" "Repository_Save t ctx"
  "\<lambda>tx. tables_wf (tx_tables tx) \<and> Table_validate t = Ok ()" "\<lambda>_. True" "\<lambda>_ s. Table_copy t (Table_copy t s)"
proof (unfold_locales, goal_cases)
  case (1 tx i s v)
  then show ?case
    by (cases "scopedKey ctx i") (simp_all add: Repository_Save_def saveAs_wf)
next
  case (2 tx i s v)
  then show ?case
    by (cases "scopedKey ctx i") (auto simp: Repository_Save_def Repository_Load_def saveAs_Ok_abs load_present)
next
  case (3 tx i s v)
  then show ?case
  proof (cases "scopedKey ctx i")
    case (Ok key)
    with 3 have "spec_version (abs_tables (tx_tables tx)) (tbl_Name t) key = v"
      by (intro saveAs_Ok_abs(2)) (auto simp: Repository_Save_def)
    with Ok show ?thesis
      using load_present [OF Ok, of "tx_tables tx" t] load_absent [OF Ok, of "tx_tables tx" t]
      by (cases "abs_tables (tx_tables tx) (tbl_Name t, key)") (auto simp: spec_version_def Repository_Load_def)
  qed (auto simp: Repository_Save_def)
next
  case (4 tx i s' v' v s)
  then obtain key where key: "scopedKey ctx i = Ok key"
    by (cases "scopedKey ctx i") (auto simp: Repository_Load_def load_def)
  with 4 obtain rec where "abs_tables (tx_tables tx) (tbl_Name t, key) = Some rec" "row_version rec = v'"
    using load_present [OF key, of "tx_tables tx" t] load_absent [OF key, of "tx_tables tx" t]
    by (cases "abs_tables (tx_tables tx) (tbl_Name t, key)") (auto simp: Repository_Load_def)
  with 4 key show ?case
    using saveAs_spec [of tx t key s v] by (simp add: Repository_Save_def spec_save_def spec_version_def)
next
  case (5 tx i s v j)
  then show ?case
    by (cases "scopedKey ctx i") (simp_all add: Repository_Save_def Repository_Load_def saveAs_err_load)
next
  case (6 tx j i x s v)
  then obtain key where key: "scopedKey ctx j = Ok key"
    by (cases "scopedKey ctx j") (auto simp: Repository_Load_def load_def)
  then obtain key' where key': "scopedKey ctx i = Ok key'" "key' \<noteq> key"
    using scopedKey_tenant [OF key, of i] 6(2) scopedKey_Ok [OF key] scopedKey_Ok by metis
  show ?case
  proof (cases "snd (saveAs t key' s v tx) = Ok ()")
    case True
    then show ?thesis
      using 6 key key' saveAs_Ok_abs(1) [of tx t key' s v] load_present [OF key, of _ t] load_absent [OF key, of "tx_tables tx" t]
      by (cases "abs_tables (tx_tables tx) (tbl_Name t, key)") (auto simp: Repository_Save_def Repository_Load_def)
  next
    case False
    with 6 key' show ?thesis
      by (simp add: Repository_Save_def Repository_Load_def saveAs_err_load)
  qed
qed

definition faithful :: "('id, 's) Table \<Rightarrow> bool" where
  "faithful t \<longleftrightarrow> (\<forall>s. Table_copy t s = s)"

text \<open>
  Optimistic locking of the repository. When \<open>Save\<close> over version \<open>v\<close> succeeds, the next \<open>Load\<close> returns the
  saved state at version \<open>v + 1\<close>, and a second \<open>Save\<close> that still expects \<open>v\<close> is refused with a version
  conflict and leaves that state: an update is never lost.
\<close>

theorem save_load_no_lost_update:
  assumes "tables_wf (tx_tables tx)" and "Table_validate t = Ok ()" and "faithful t"
    and "Repository_Save t ctx i s v tx = (tx1, Ok ())"
  shows "Repository_Load t ctx i tx1 = Ok (s, v + 1) \<and>
    snd (Repository_Save t ctx i s' v tx1) = Fail ErrVersionConflict \<and>
    Repository_Load t ctx i (fst (Repository_Save t ctx i s' v tx1)) = Ok (s, v + 1)"
  using mem_repo.no_lost_update [of tx t ctx i s v tx1 s'] mem_repo.save_ok [of tx t ctx i s v] assms
  by (simp add: faithful_def)

theorem save_load_no_lost_update_witness:
  "snd (Repository_Save sample_table sample_context 7 ''b'' 0
     (fst (Repository_Save sample_table sample_context 7 ''a'' 0 sample_tx))) = Fail ErrVersionConflict"
proof -
  have "faithful sample_table"
    by (simp add: faithful_def sample_table_def Table_copy_def)
  moreover have "Repository_Save sample_table sample_context 7 ''a'' 0 sample_tx =
      (fst (Repository_Save sample_table sample_context 7 ''a'' 0 sample_tx), Ok ())"
    by (simp add: Repository_Save_def scopedKey_def RequireExecutionContext_def ExecutionContextFrom_def
        sample_context_def ec_Tenant_def saveAs_def tx_table_def violation_def collides_def sample_table_def sample_tx_def
        opened_def Store_New_def cloneTables_def Let_def)
  ultimately show ?thesis
    using save_load_no_lost_update [OF sample_tx_wf sample_table_valid] by blast
qed

section \<open>Tenants are isolated\<close>

definition tenant_agrees :: "TenantID \<Rightarrow> ('id, 's) row_map \<Rightarrow> ('id, 's) row_map \<Rightarrow> bool" where
  "tenant_agrees tenant m m' \<longleftrightarrow> (\<forall>name key. rk_tenant key = tenant \<longrightarrow> m (name, key) = m' (name, key))"

lemma spec_save_tenant:
  assumes "tenant_agrees (rk_tenant key) m m'"
  shows "snd (spec_save t key state v fresh m) = snd (spec_save t key state v fresh m')"
proof -
  have "m (name, other) = m' (name, other)" if "rk_tenant other = rk_tenant key" for name other
    using assms that by (simp add: tenant_agrees_def)
  then have "spec_collision m (tbl_Name t) key state = spec_collision m' (tbl_Name t) key state"
    "spec_version m (tbl_Name t) key = spec_version m' (tbl_Name t) key"
    by (auto simp: spec_collision_def spec_version_def fun_eq_iff) metis+
  then show ?thesis
    by (simp add: spec_save_def split: option.splits)
qed

lemma spec_save_frame:
  "rk_tenant other \<noteq> rk_tenant key \<Longrightarrow> fst (spec_save t key state v fresh m) (name, other) = m (name, other)"
  by (auto simp: spec_save_def split: option.splits)

text \<open>
  What a miss may say: nothing, or the tenant that holds the identifier, for the audit of the edge. Both are
  not-found errors of the same category; the owner is the only thing of another tenant a caller is given.
\<close>

definition miss_answer :: "('id, 's) Table \<Rightarrow> 'id rowKey \<Rightarrow> ('id, 's) row_map \<Rightarrow> gerr \<Rightarrow> bool" where
  "miss_answer t key m e \<longleftrightarrow> errors_Is e ErrNotFound \<and> CategoryOf e = Some NotFound \<and>
     (e = Sentinel ErrNotFound \<or>
      (\<exists>owner. e = CrossTenantAccess (tbl_Name t @ ''/'' @ tbl_Format t (rk_id key)) (rk_tenant key) owner \<and>
         owner \<noteq> rk_tenant key \<and> m (tbl_Name t, \<lparr>rk_tenant = owner, rk_id = rk_id key\<rparr>) \<noteq> None))"

lemma lowest_owner_holds:
  "foldl (lowest_owner key) owner ks = owner \<or>
     (\<exists>k \<in> set ks. rk_id k = rk_id key \<and> rk_tenant k \<noteq> rk_tenant key \<and> foldl (lowest_owner key) owner ks = rk_tenant k)"
proof (induction ks arbitrary: owner)
  case (Cons k ks)
  show ?case
    using Cons.IH [of "lowest_owner key owner k"] by (auto simp: lowest_owner_def split: if_splits)
qed simp

lemma load_miss:
  assumes "scopedKey ctx i = Ok key" and "abs_tables ts (tbl_Name t, key) = None"
  shows "\<exists>e. load t ctx ts i = Err e \<and> miss_answer t key (abs_tables ts) e"
proof -
  from load_absent [OF assms] obtain e where e: "load t ctx ts i = Err e" "errors_Is e ErrNotFound" "CategoryOf e = Some NotFound"
    by blast
  have "e = Sentinel ErrNotFound \<or>
      (\<exists>owner. e = CrossTenantAccess (tbl_Name t @ ''/'' @ tbl_Format t (rk_id key)) (rk_tenant key) owner \<and>
         owner \<noteq> rk_tenant key \<and> abs_tables ts (tbl_Name t, \<lparr>rk_tenant = owner, rk_id = rk_id key\<rparr>) \<noteq> None)"
  proof (cases "map_of ts (tbl_Name t)")
    case None
    with e(1) assms(1) show ?thesis by (simp add: load_def)
  next
    case (Some rows)
    let ?owner = "foldl (lowest_owner key) [] (map fst (tab_rows rows))"
    have e': "e = miss t rows key"
      using e(1) assms(1) Some by (auto simp: load_def split: option.splits)
    show ?thesis
    proof (cases "?owner = []")
      case True
      with e' show ?thesis by (simp add: miss_def)
    next
      case False
      with lowest_owner_holds [of key "[]" "map fst (tab_rows rows)"] obtain k where
        k: "k \<in> set (map fst (tab_rows rows))" "rk_id k = rk_id key" "rk_tenant k \<noteq> rk_tenant key" "?owner = rk_tenant k"
        by blast
      then have "k = \<lparr>rk_tenant = ?owner, rk_id = rk_id key\<rparr>" by simp
      with k(1) have "map_of (tab_rows rows) \<lparr>rk_tenant = ?owner, rk_id = rk_id key\<rparr> \<noteq> None"
        by (auto simp: map_of_eq_None_iff)
      with Some have "abs_tables ts (tbl_Name t, \<lparr>rk_tenant = ?owner, rk_id = rk_id key\<rparr>) \<noteq> None"
        by (simp add: abs_tables_def)
      with k(3,4) False e' show ?thesis by (auto simp: miss_def Let_def)
    qed
  qed
  with e show ?thesis by (auto simp: miss_answer_def)
qed

text \<open>
  C28. Isolation between tenants. Take two states of a transaction that agree on the rows of the carrier's
  tenant and on whether something was written, and may differ in anything another tenant holds. A \<open>Load\<close> that
  finds a row returns the same state and version in both; one that finds none answers in both a not-found error
  of the same category, which at most names one other tenant that holds the identifier and nothing of its row; a
  \<open>Save\<close> has the same outcome in both; and \<open>Save\<close> changes no row of another tenant.
\<close>

theorem tenant_isolation:
  assumes "scopedKey ctx i = Ok key" and "tenant_agrees (rk_tenant key) (abs_tables (tx_tables tx)) (abs_tables (tx_tables tx'))"
    and "tables_wf (tx_tables tx)" and "tables_wf (tx_tables tx')" and "Table_validate t = Ok ()"
    and "tx_writes tx = tx_writes tx'"
  shows "(case Repository_Load t ctx i tx of
       Ok found \<Rightarrow> Repository_Load t ctx i tx' = Ok found
     | Err e \<Rightarrow> miss_answer t key (abs_tables (tx_tables tx)) e \<and>
         (case Repository_Load t ctx i tx' of Err e' \<Rightarrow> miss_answer t key (abs_tables (tx_tables tx')) e' | _ \<Rightarrow> False)
     | Panic _ \<Rightarrow> False) \<and>
    snd (Repository_Save t ctx i state v tx) = snd (Repository_Save t ctx i state v tx') \<and>
    (rk_tenant other \<noteq> rk_tenant key \<longrightarrow>
       abs_tables (tx_tables (fst (Repository_Save t ctx i state v tx))) (name, other) = abs_tables (tx_tables tx) (name, other))"
proof (intro conjI impI)
  have same: "abs_tables (tx_tables tx) (tbl_Name t, key) = abs_tables (tx_tables tx') (tbl_Name t, key)"
    using assms(2) by (simp add: tenant_agrees_def)
  show "case Repository_Load t ctx i tx of
       Ok found \<Rightarrow> Repository_Load t ctx i tx' = Ok found
     | Err e \<Rightarrow> miss_answer t key (abs_tables (tx_tables tx)) e \<and>
         (case Repository_Load t ctx i tx' of Err e' \<Rightarrow> miss_answer t key (abs_tables (tx_tables tx')) e' | _ \<Rightarrow> False)
     | Panic _ \<Rightarrow> False"
  proof (cases "abs_tables (tx_tables tx) (tbl_Name t, key)")
    case None
    with same load_miss [OF assms(1), of "tx_tables tx" t] load_miss [OF assms(1), of "tx_tables tx'" t]
    show ?thesis by (auto simp: Repository_Load_def)
  next
    case (Some rec)
    with same load_present [OF assms(1), of _ t rec] show ?thesis
      by (simp add: Repository_Load_def)
  qed
  note spec = saveAs_spec [OF assms(3,5), of key state v] saveAs_spec [OF assms(4,5), of key state v]
  show "snd (Repository_Save t ctx i state v tx) = snd (Repository_Save t ctx i state v tx')"
    using spec_save_tenant [OF assms(2), of t state v "tx_writes tx = 0"] spec assms(1,6)
    by (simp add: Repository_Save_def) (metis snd_conv)
  assume "rk_tenant other \<noteq> rk_tenant key"
  with spec_save_frame [of other key t state v "tx_writes tx = 0" "abs_tables (tx_tables tx)" name] spec(1) assms(1)
  show "abs_tables (tx_tables (fst (Repository_Save t ctx i state v tx))) (name, other) = abs_tables (tx_tables tx) (name, other)"
    by (simp add: Repository_Save_def) (metis fst_conv)
qed

definition sample_foreign :: "(nat, string, unit) Tx" where
  "sample_foreign = sample_tx\<lparr>tx_tables := [(''orders'', \<lparr>tab_rows = [(\<lparr>rk_tenant = ''t-2'', rk_id = 7\<rparr>,
     \<lparr>row_snapshot = ''a'', row_version = 4\<rparr>)], tab_clone = None\<rparr>)]\<rparr>"

theorem tenant_isolation_witness:
  "snd (Repository_Save sample_table sample_context 7 ''a'' 0 sample_tx) =
     snd (Repository_Save sample_table sample_context 7 ''a'' 0 sample_foreign)"
proof -
  have key: "scopedKey sample_context (7 :: nat) = Ok \<lparr>rk_tenant = ''t-1'', rk_id = 7\<rparr>"
    by (simp add: scopedKey_def RequireExecutionContext_def ExecutionContextFrom_def sample_context_def ec_Tenant_def)
  have "tenant_agrees ''t-1'' (abs_tables (tx_tables sample_tx)) (abs_tables (tx_tables sample_foreign))"
    by (auto simp: tenant_agrees_def abs_tables_def sample_tx_def sample_foreign_def opened_def Store_New_def cloneTables_def)
  moreover have "tables_wf (tx_tables sample_foreign)" "tx_writes sample_tx = tx_writes sample_foreign"
    by (auto simp: sample_foreign_def tables_wf_def)
  ultimately show ?thesis
    using tenant_isolation [OF key _ sample_tx_wf _ sample_table_valid, of sample_foreign] by simp
qed

section \<open>Unique constraints hold\<close>

definition unique_ok :: "('id, 's) Table \<Rightarrow> ('id, 's) row_map \<Rightarrow> bool" where
  "unique_ok t m \<longleftrightarrow>
     (\<forall>u \<in> set (tbl_Unique t). \<forall>keyOf k1 k2 r1 r2.
        uq_Key u = Some keyOf \<longrightarrow> m (tbl_Name t, k1) = Some r1 \<longrightarrow> m (tbl_Name t, k2) = Some r2 \<longrightarrow>
        rk_tenant k1 = rk_tenant k2 \<longrightarrow> keyOf (row_snapshot r1) \<noteq> None \<longrightarrow>
        keyOf (row_snapshot r1) = keyOf (row_snapshot r2) \<longrightarrow> k1 = k2)"

lemma unique_okD:
  assumes "unique_ok t m" "u \<in> set (tbl_Unique t)" "uq_Key u = Some keyOf" "m (tbl_Name t, k1) = Some r1"
    "m (tbl_Name t, k2) = Some r2" "rk_tenant k1 = rk_tenant k2" "keyOf (row_snapshot r1) \<noteq> None"
    "keyOf (row_snapshot r1) = keyOf (row_snapshot r2)"
  shows "k1 = k2"
  using assms unfolding unique_ok_def by blast

lemma spec_save_unique:
  assumes "unique_ok t m" "faithful t"
  shows "unique_ok t (fst (spec_save t key state v fresh m))"
proof (cases "snd (spec_save t key state v fresh m) = Ok ()")
  case True
  let ?new = "\<lparr>row_snapshot = state, row_version = v + 1\<rparr>"
  from True assms(2) have m': "fst (spec_save t key state v fresh m) = m((tbl_Name t, key) \<mapsto> ?new)"
    and none: "find (spec_collision m (tbl_Name t) key state) (tbl_Unique t) = None"
    by (auto simp: spec_save_def faithful_def split: if_splits option.splits)
  have other: "k = key" if "u \<in> set (tbl_Unique t)" "uq_Key u = Some keyOf" "m (tbl_Name t, k) = Some r"
      "rk_tenant k = rk_tenant key" "keyOf state \<noteq> None" "keyOf (row_snapshot r) = keyOf state" for u keyOf k r
  proof -
    have "\<not> spec_collision m (tbl_Name t) key state u"
      using none that(1) by (simp add: find_None_iff)
    with that have "rk_id k = rk_id key"
      unfolding spec_collision_def by blast
    with that(4) show ?thesis by simp
  qed
  show ?thesis
    unfolding unique_ok_def m'
  proof (intro ballI allI impI)
    fix u keyOf k1 k2 r1 r2
    assume u: "u \<in> set (tbl_Unique t)" "uq_Key u = Some keyOf" and r: "(m((tbl_Name t, key) \<mapsto> ?new)) (tbl_Name t, k1) = Some r1"
      "(m((tbl_Name t, key) \<mapsto> ?new)) (tbl_Name t, k2) = Some r2" and eq: "rk_tenant k1 = rk_tenant k2"
      "keyOf (row_snapshot r1) \<noteq> None" "keyOf (row_snapshot r1) = keyOf (row_snapshot r2)"
    show "k1 = k2"
    proof (cases "k1 = key"; cases "k2 = key")
      assume "k1 \<noteq> key" "k2 \<noteq> key"
      with u r eq unique_okD [OF assms(1)] show ?thesis by simp
    next
      assume "k1 = key" "k2 \<noteq> key"
      with other [OF u] r eq show ?thesis by auto
    next
      assume "k1 \<noteq> key" "k2 = key"
      with other [OF u] r eq show ?thesis by auto
    qed simp
  qed
next
  case False
  then have "fst (spec_save t key state v fresh m) = m"
    by (auto simp: spec_save_def split: option.splits)
  with assms(1) show ?thesis by simp
qed

text \<open>
  Declared unique constraints are an invariant of a table. Whatever is saved, with success or not, no two
  rows of one tenant share a non-null key of a declared constraint.
\<close>

theorem saveAs_keeps_unique:
  assumes "tables_wf (tx_tables tx)" and "Table_validate t = Ok ()" and "faithful t"
    and "unique_ok t (abs_tables (tx_tables tx))"
  shows "unique_ok t (abs_tables (tx_tables (fst (saveAs t key state expected tx))))"
  using spec_save_unique [OF assms(4,3)] saveAs_spec [OF assms(1,2), of key state expected] by (metis fst_conv)

theorem saveAs_keeps_unique_witness:
  "unique_ok sample_table (abs_tables (tx_tables (fst (saveAs sample_table \<lparr>rk_tenant = ''t-1'', rk_id = 7\<rparr> ''a'' 0 sample_tx))))"
proof (rule saveAs_keeps_unique [OF sample_tx_wf sample_table_valid])
  show "faithful sample_table"
    by (simp add: faithful_def sample_table_def Table_copy_def)
  show "unique_ok sample_table (abs_tables (tx_tables sample_tx))"
    by (simp add: unique_ok_def abs_tables_def sample_tx_def opened_def Store_New_def cloneTables_def)
qed

end
