(* ===== verification/Memory_Inbox.thy ===== *)
theory Memory_Inbox
  imports Memory_Store
begin

text \<open>
  The inbox of the in-memory realization, \<^verbatim>\<open>libs/backend/go/memory/inbox.go\<close>, the ledger run in a transaction
  of its own (\<open>AttemptStore\<close> of \<^verbatim>\<open>attempt_ledger.go\<close>) and the identifier sequence (\<^verbatim>\<open>clock.go\<close>). The locale
  \<open>inbox\<close> is the deduplication contract the use cases rely on, and the command inbox interprets it.
\<close>

section \<open>Inbox\<close>

record memoryPending =
  mp_key :: inboxKey
  mp_hash :: string
  mp_expiresAt :: Instant
  mp_completed :: bool

definition expired :: "inboxRow \<Rightarrow> Instant \<Rightarrow> bool" where
  "expired row at \<longleftrightarrow> ir_expiresAt row \<noteq> 0 \<and> ir_expiresAt row \<le> at"

text \<open>\<open>txInbox\<close> holds the consumer it is bound to and whether it receives commands.\<close>

record txInbox =
  ti_consumer :: string
  ti_commands :: bool

definition Tx_Inbox :: "string \<Rightarrow> txInbox" where
  "Tx_Inbox consumer = \<lparr>ti_consumer = consumer, ti_commands = False\<rparr>"

definition Tx_CommandInbox :: "string \<Rightarrow> txInbox" where
  "Tx_CommandInbox consumer = \<lparr>ti_consumer = consumer, ti_commands = True\<rparr>"

definition inbox_id :: "txInbox \<Rightarrow> carrier \<Rightarrow> Receipt \<Rightarrow> MessageID result" where
  "inbox_id i ctx r =
     (if ti_commands i then
        (if rcp_ExpiresAt r \<le> rcp_ReceivedAt r then Fail ErrCommandExpiryRequired
         else res_map (\<lambda>scoped. rk_tenant scoped @ ''/'' @ rcp_MessageID r) (scopedKey ctx (rcp_MessageID r)))
      else Ok (rcp_MessageID r))"

definition Inbox_Register :: "txInbox \<Rightarrow> carrier \<Rightarrow> Receipt \<Rightarrow> ('id, 's, 'e) Tx \<Rightarrow> memoryPending Reception result" where
  "Inbox_Register i ctx r tx =
     (if ti_consumer i = [] \<or> rcp_Consumer r = [] then Fail ErrInboxConsumerRequired
      else if rcp_Consumer r \<noteq> ti_consumer i then Fail ErrInboxConsumerMismatch
      else res_bind (inbox_id i ctx r) (\<lambda>mid.
        let key = \<lparr>ik_consumer = ti_consumer i, ik_id = mid\<rparr>;
            first = FirstReception (Some \<lparr>mp_key = key, mp_hash = rcp_PayloadHash r,
              mp_expiresAt = rcp_ExpiresAt r, mp_completed = False\<rparr>) in
        case map_of (tx_inbox tx) key of
          None \<Rightarrow> first
        | Some existing \<Rightarrow>
            if expired existing (rcp_ReceivedAt r) then first
            else if ir_hash existing \<noteq> rcp_PayloadHash r then Ok CollisionReception
            else if ir_status existing = StatusProcessed
              then Ok (WithStored (ir_outcome existing) ProcessedReception)
            else Ok (WithStored (ir_outcome existing) RejectedReception)))"

text \<open>The port's \<open>Register\<close> may write in the transaction; this realization writes at the completion.\<close>

definition mem_Register ::
    "txInbox \<Rightarrow> carrier \<Rightarrow> Receipt \<Rightarrow> ('id, 's, 'e) Tx \<Rightarrow> ('id, 's, 'e) Tx \<times> memoryPending Reception result" where
  "mem_Register i ctx r tx = (tx, Inbox_Register i ctx r tx)"

definition Pending_Complete ::
    "memoryPending \<Rightarrow> Completion \<Rightarrow> ('id, 's, 'e) Tx \<Rightarrow> memoryPending \<times> ('id, 's, 'e) Tx \<times> unit result" where
  "Pending_Complete p c tx =
     (if mp_completed p then (p, tx, Fail ErrAlreadyCompleted)
      else if cpl_Status c \<noteq> StatusProcessed \<and> cpl_Status c \<noteq> StatusRejected then (p, tx, Fail ErrInvalidCompletion)
      else (p\<lparr>mp_completed := True\<rparr>,
        tx\<lparr>tx_inbox := AList.update (mp_key p)
          \<lparr>ir_hash = mp_hash p, ir_status = cpl_Status c, ir_lastError = cpl_LastError c,
           ir_outcome = cpl_Outcome c, ir_expiresAt = mp_expiresAt p\<rparr> (tx_inbox tx)\<rparr>, Ok ()))"

section \<open>The ledger in a transaction of its own\<close>

text \<open>\<open>AttemptStore\<close>: each call opens a unit of work, and the result is the variable its closure sets.\<close>

definition Tx_Ledger ::
    "(attempts \<Rightarrow> attempts \<times> 'a result) \<Rightarrow> ('id, 's, 'e) Tx \<Rightarrow> ('id, 's, 'e) Tx \<times> 'a result" where
  "Tx_Ledger call tx = (let (a, r) = call (tx_attempts tx) in (tx\<lparr>tx_attempts := a\<rparr>, r))"

definition AttemptStore_within ::
    "('id, 's, 'e) Store option \<Rightarrow> carrier \<Rightarrow> (carrier \<Rightarrow> attempts \<Rightarrow> attempts \<times> 'a result) \<Rightarrow>
     ('id, 's, 'e) Store option \<times> 'a result" where
  "AttemptStore_within store ctx call =
     (case store of
        None \<Rightarrow> (None, Fail ErrIncompleteAttemptStore)
      | Some s \<Rightarrow>
          (case Within s ctx (\<lambda>ctx tx w.
               let (tx', r) = Tx_Ledger (call ctx) tx in
               (case r of Ok a \<Rightarrow> (tx', Some a, Ok ()) | Err e \<Rightarrow> (tx', w, Err e) | Panic m \<Rightarrow> (tx', w, Panic m))) None of
             (s', Some a, Ok _) \<Rightarrow> (Some s', Ok a)
           | (s', None, Ok _) \<Rightarrow> (Some s', Panic ''unreachable'')
           | (s', _, Err e) \<Rightarrow> (Some s', Err e)
           | (s', _, Panic m) \<Rightarrow> (Some s', Panic m)))"

definition AttemptStore_Begin where
  "AttemptStore_Begin s ctx key message now = AttemptStore_within s ctx (\<lambda>ctx. Begin ctx key message now)"

definition AttemptStore_Finish where
  "AttemptStore_Finish s ctx ao = AttemptStore_within s ctx (\<lambda>ctx. Finish ctx ao)"

definition AttemptStore_Observe where
  "AttemptStore_Observe s ctx ob now = AttemptStore_within s ctx (\<lambda>ctx. Observe ctx ob now)"

definition AttemptStore_Stale where
  "AttemptStore_Stale s ctx cutoff after limit =
     AttemptStore_within s ctx (\<lambda>ctx a. (a, Stale cutoff after limit a))"

section \<open>Identifiers\<close>

record SequenceIDs =
  seq_Prefix :: string
  seq_issued :: nat

definition NewMessageID :: "SequenceIDs \<Rightarrow> SequenceIDs \<times> MessageID" where
  "NewMessageID g = (let n = seq_issued g + 1 in (g\<lparr>seq_issued := n\<rparr>, seq_Prefix g @ pad6 n))"

section \<open>What the inbox remembers\<close>

text \<open>The row a receipt meets, unless it expired: its hash, its status and the outcome to replay.\<close>

definition remembered :: "txInbox \<Rightarrow> carrier \<Rightarrow> Receipt \<Rightarrow> ('id, 's, 'e) Tx \<Rightarrow> inboxRow option" where
  "remembered i ctx r tx =
     (case inbox_id i ctx r of
        Ok mid \<Rightarrow>
          (case map_of (tx_inbox tx) \<lparr>ik_consumer = ti_consumer i, ik_id = mid\<rparr> of
             None \<Rightarrow> None
           | Some row \<Rightarrow> if expired row (rcp_ReceivedAt r) then None else Some row)
      | _ \<Rightarrow> None)"

definition receipt_ok :: "txInbox \<Rightarrow> carrier \<Rightarrow> Receipt \<Rightarrow> bool" where
  "receipt_ok i ctx r \<longleftrightarrow> ti_consumer i \<noteq> [] \<and> rcp_Consumer r = ti_consumer i \<and>
     (\<exists>mid. inbox_id i ctx r = Ok mid)"

definition reception_for :: "Receipt \<Rightarrow> inboxRow \<Rightarrow> 'p Reception" where
  "reception_for r row =
     (if ir_hash row \<noteq> rcp_PayloadHash r then CollisionReception
      else if ir_status row = StatusProcessed then WithStored (ir_outcome row) ProcessedReception
      else WithStored (ir_outcome row) RejectedReception)"

lemma Register_remembered:
  assumes "receipt_ok i ctx r"
  shows "Inbox_Register i ctx r tx =
    (case remembered i ctx r tx of
       Some row \<Rightarrow> Ok (reception_for r row)
     | None \<Rightarrow> Ok \<lparr>rc_kind = receptionFirst \<lparr>mp_key = \<lparr>ik_consumer = ti_consumer i, ik_id = (case inbox_id i ctx r of Ok mid \<Rightarrow> mid)\<rparr>,
         mp_hash = rcp_PayloadHash r, mp_expiresAt = rcp_ExpiresAt r, mp_completed = False\<rparr>, rc_stored = []\<rparr>)"
  using assms
  by (auto simp: receipt_ok_def Inbox_Register_def remembered_def reception_for_def Let_def split: option.splits)

lemma Register_refused:
  assumes "\<not> receipt_ok i ctx r"
  shows "\<exists>e. Inbox_Register i ctx r tx = Err e"
proof -
  have "inbox_id i ctx r \<noteq> Panic m" for m
    by (cases "scopedKey ctx (rcp_MessageID r)") (auto simp: inbox_id_def)
  with assms show ?thesis
    by (cases "inbox_id i ctx r") (auto simp: receipt_ok_def Inbox_Register_def)
qed

lemma Pending_Complete_Ok:
  "Pending_Complete p c tx = (p', tx', Ok ()) \<Longrightarrow>
     mp_completed p' \<and> cpl_Status c \<in> {StatusProcessed, StatusRejected} \<and>
     tx' = tx\<lparr>tx_inbox := AList.update (mp_key p)
          \<lparr>ir_hash = mp_hash p, ir_status = cpl_Status c, ir_lastError = cpl_LastError c,
           ir_outcome = cpl_Outcome c, ir_expiresAt = mp_expiresAt p\<rparr> (tx_inbox tx)\<rparr>"
  by (auto simp: Pending_Complete_def split: if_splits)

text \<open>Two receipts name the same entry: same consumer, same identifier, received before the first expires.\<close>

definition same_entry :: "txInbox \<Rightarrow> carrier \<Rightarrow> Receipt \<Rightarrow> carrier \<Rightarrow> Receipt \<Rightarrow> bool" where
  "same_entry i ctx r ctx' r' \<longleftrightarrow> inbox_id i ctx r = inbox_id i ctx' r' \<and>
     (rcp_ExpiresAt r = 0 \<or> rcp_ReceivedAt r' < rcp_ExpiresAt r)"

section \<open>The inbox interface\<close>

text \<open>
  The deduplication contract (INB, IDM): a receipt meets either nothing remembered, and then its reception is
  the first and its pending half is not completed, or a row, and then the hash and the status of the row
  decide and nothing is written; completing the first reception makes the inbox remember its hash, status and
  outcome for every later receipt of the same entry. \<open>row_of\<close> reads what is remembered, and what runs between the
  registration and the completion leaves the inbox \<open>untouched\<close>; \<open>well\<close> is an invariant of the rows.
\<close>

locale inbox =
  fixes register :: "carrier \<Rightarrow> Receipt \<Rightarrow> 'tx \<Rightarrow> 'tx \<times> 'p Reception result"
    and complete :: "'p \<Rightarrow> Completion \<Rightarrow> 'tx \<Rightarrow> 'p \<times> 'tx \<times> unit result"
    and completed :: "'p \<Rightarrow> bool"
    and row_of :: "carrier \<Rightarrow> Receipt \<Rightarrow> 'tx \<Rightarrow> (string \<times> bool \<times> bytes) option"
    and admits :: "carrier \<Rightarrow> Receipt \<Rightarrow> bool"
    and same :: "carrier \<Rightarrow> Receipt \<Rightarrow> carrier \<Rightarrow> Receipt \<Rightarrow> bool"
    and untouched :: "'tx \<Rightarrow> 'tx \<Rightarrow> bool"
    and well :: "'tx \<Rightarrow> bool"
  assumes register_known: "admits ctx r \<Longrightarrow> row_of ctx r tx = Some (hash, ok, outcome) \<Longrightarrow>
      \<exists>rc. register ctx r tx = (tx, Ok rc) \<and> (hash \<noteq> rcp_PayloadHash r \<longrightarrow> rc_kind rc = receptionCollision) \<and>
        (hash = rcp_PayloadHash r \<longrightarrow> Stored rc = outcome \<and>
           rc_kind rc = (if ok then receptionProcessed else receptionRejected))"
    and register_new: "admits ctx r \<Longrightarrow> row_of ctx r tx = None \<Longrightarrow>
      \<exists>tx0 rc p. register ctx r tx = (tx0, Ok rc) \<and> rc_kind rc = receptionFirst p \<and> \<not> completed p"
    and register_refused: "\<not> admits ctx r \<Longrightarrow> \<exists>e. register ctx r tx = (tx, Err e)"
    and complete_remembered: "register ctx r tx = (tx0, Ok rc) \<Longrightarrow> rc_kind rc = receptionFirst p \<Longrightarrow> untouched tx0 tx1 \<Longrightarrow>
      complete p c tx1 = (p', tx2, Ok ()) \<Longrightarrow> same ctx r ctx' r' \<Longrightarrow>
      completed p' \<and> row_of ctx' r' tx2 = Some (rcp_PayloadHash r, cpl_Status c = StatusProcessed, cpl_Outcome c)"
    and register_well: "well tx \<Longrightarrow> register ctx r tx = (tx0, res) \<Longrightarrow> well tx0"
    and complete_total: "well tx \<Longrightarrow> register ctx r tx = (tx0, Ok rc) \<Longrightarrow> rc_kind rc = receptionFirst p \<Longrightarrow> untouched tx0 tx1 \<Longrightarrow>
      cpl_Status c \<in> {StatusProcessed, StatusRejected} \<Longrightarrow> \<exists>p' tx2. complete p c tx1 = (p', tx2, Ok ())"
begin

text \<open>A first reception comes from an admitted receipt nothing is remembered of.\<close>

lemma first_reception:
  assumes "register ctx r tx = (tx0, Ok rc)" "rc_kind rc = receptionFirst p"
  shows "admits ctx r \<and> row_of ctx r tx = None"
proof -
  have "admits ctx r"
    using register_refused [of ctx r tx] assms(1) by auto
  moreover have "row_of ctx r tx = None"
  proof (rule ccontr)
    assume "row_of ctx r tx \<noteq> None"
    then obtain hash ok outcome where "row_of ctx r tx = Some (hash, ok, outcome)"
      by (cases "row_of ctx r tx") auto
    from register_known [OF \<open>admits ctx r\<close> this] assms show False
      by (cases "hash = rcp_PayloadHash r"; cases ok) auto
  qed
  ultimately show ?thesis ..
qed

end

definition mem_row_of :: "txInbox \<Rightarrow> carrier \<Rightarrow> Receipt \<Rightarrow> ('id, 's, 'e) Tx \<Rightarrow> (string \<times> bool \<times> bytes) option" where
  "mem_row_of i ctx r tx =
     map_option (\<lambda>row. (ir_hash row, ir_status row = StatusProcessed, ir_outcome row)) (remembered i ctx r tx)"

interpretation mem_inbox: inbox "mem_Register i" Pending_Complete mp_completed "mem_row_of i" "receipt_ok i" "same_entry i"
  "\<lambda>_ _. True" "\<lambda>_. True"
proof (unfold_locales, goal_cases)
  case (1 ctx r tx hash ok outcome)
  then obtain row where "remembered i ctx r tx = Some row" "hash = ir_hash row" "ok = (ir_status row = StatusProcessed)"
    "outcome = ir_outcome row"
    by (auto simp: mem_row_of_def)
  with 1(1) show ?case
    by (auto simp: mem_Register_def Register_remembered reception_for_def reception_defs)
next
  case (2 ctx r tx)
  then show ?case
    by (auto simp: mem_Register_def Register_remembered mem_row_of_def)
next
  case (3 ctx r tx)
  then show ?case
    using Register_refused by (simp add: mem_Register_def)
next
  case (4 ctx r tx tx0 rc p tx1 c p' tx2 ctx' r')
  have reg: "Inbox_Register i ctx r tx = Ok rc"
    using 4(1) by (auto simp: mem_Register_def)
  then have ok: "receipt_ok i ctx r"
    using Register_refused [of i ctx r tx] by auto
  then obtain mid where mid: "inbox_id i ctx r = Ok mid"
    by (auto simp: receipt_ok_def)
  with ok reg 4(2) have p: "p = \<lparr>mp_key = \<lparr>ik_consumer = ti_consumer i, ik_id = mid\<rparr>,
      mp_hash = rcp_PayloadHash r, mp_expiresAt = rcp_ExpiresAt r, mp_completed = False\<rparr>"
    by (auto simp: Register_remembered reception_for_def reception_defs split: option.splits if_splits)
  have mid': "inbox_id i ctx' r' = Ok mid" and live: "rcp_ExpiresAt r = 0 \<or> \<not> rcp_ExpiresAt r \<le> rcp_ReceivedAt r'"
    using 4(5) mid by (auto simp: same_entry_def)
  from Pending_Complete_Ok [OF 4(4)] show ?case
    using live by (simp add: p mem_row_of_def remembered_def mid' expired_def)
next
  case (6 tx ctx r tx0 rc p tx1 c)
  have reg: "Inbox_Register i ctx r tx = Ok rc"
    using 6(2) by (auto simp: mem_Register_def)
  then have ok: "receipt_ok i ctx r"
    using Register_refused [of i ctx r tx] by auto
  with reg 6(3) have "\<not> mp_completed p"
    by (auto simp: Register_remembered reception_for_def reception_defs split: option.splits if_splits)
  with 6(5) show ?case
    by (auto simp: Pending_Complete_def)
qed simp

section \<open>Commands of different tenants never meet\<close>

text \<open>
  The entry of a command is its own. Two command receipts of one consumer whose identifiers are valid
  idempotency keys are given the same inbox identifier exactly when their carriers have the same tenant and
  the identifiers are the same: a tenant can neither replay nor block another tenant's command.
\<close>

theorem command_entries_are_scoped:
  assumes "inbox_id (Tx_CommandInbox consumer) ctx r = Ok m" and "inbox_id (Tx_CommandInbox consumer) ctx' r' = Ok m'"
    and "ValidIdempotencyKey (rcp_MessageID r)" and "ValidIdempotencyKey (rcp_MessageID r')"
  shows "(m = m') = (rcp_MessageID r = rcp_MessageID r' \<and>
    res_map rk_tenant (scopedKey ctx ''k'') = res_map rk_tenant (scopedKey ctx' ''k''))"
proof -
  obtain k k' where k: "scopedKey ctx (rcp_MessageID r) = Ok k" "m = rk_tenant k @ ''/'' @ rcp_MessageID r"
    and k': "scopedKey ctx' (rcp_MessageID r') = Ok k'" "m' = rk_tenant k' @ ''/'' @ rcp_MessageID r'"
    using assms(1,2) by (auto simp: inbox_id_def Tx_CommandInbox_def split: if_splits)
  have "m = m' \<longleftrightarrow> rcp_MessageID r = rcp_MessageID r' \<and> rk_tenant k = rk_tenant k'"
    using append_sep_inject_last [of "CHR ''/''" "rcp_MessageID r" "rcp_MessageID r'" "rk_tenant k" "rk_tenant k'"]
      assms(3,4) by (auto simp: k(2) k'(2) ValidIdempotencyKey_no_slash)
  then show ?thesis
    using scopedKey_tenant [OF k(1), of "''k''"] scopedKey_tenant [OF k'(1), of "''k''"] by auto
qed

definition sample_receipt :: Receipt where
  "sample_receipt = \<lparr>rcp_Consumer = ''orders'', rcp_MessageID = ''key-1'', rcp_MessageType = ''orders.AddItem'',
     rcp_PayloadHash = ''ab'', rcp_ReceivedAt = 10, rcp_WaitUntil = 20, rcp_ExpiresAt = 1000\<rparr>"

lemma sample_key_valid: "ValidIdempotencyKey ''key-1''"
  by (simp add: ValidIdempotencyKey_iff idem_char_def chr_range_def)

theorem command_entries_are_scoped_witness:
  "inbox_id (Tx_CommandInbox ''orders'') sample_context sample_receipt = Ok ''t-1/key-1''"
proof -
  have "inbox_id (Tx_CommandInbox ''orders'') sample_context sample_receipt = Ok ''t-1/key-1''"
    by (simp add: inbox_id_def Tx_CommandInbox_def sample_receipt_def scopedKey_def RequireExecutionContext_def
        ExecutionContextFrom_def sample_context_def ec_Tenant_def)
  then show ?thesis
    using command_entries_are_scoped [of "''orders''" sample_context sample_receipt "''t-1/key-1''" sample_context
        sample_receipt "''t-1/key-1''"] sample_key_valid
    by (simp add: sample_receipt_def)
qed

section \<open>A ledger call in its own transaction\<close>

text \<open>The value is the call's and its effect is committed; on any error the data is unchanged.\<close>

lemma AttemptStore_within_cases:
  "AttemptStore_within (Some s) ctx call = (st', r) \<Longrightarrow>
     (case r of
        Ok a \<Rightarrow> \<exists>s' at. st' = Some s' \<and> call ctx (st_attempts s) = (at, Ok a) \<and> st_attempts s' = at \<and>
          st_tables s' = cloneTables (cloneTables (st_tables s)) \<and> st_inbox s' = st_inbox s \<and> st_outbox s' = st_outbox s
      | _ \<Rightarrow> \<exists>s'. st' = Some s' \<and> same_data s s')"
proof -
  let ?fn = "\<lambda>ctx tx w. let (tx', r) = Tx_Ledger (call ctx) tx in
    (case r of Ok a \<Rightarrow> (tx', Some a, Ok ()) | Err e \<Rightarrow> (tx', w, Err e) | Panic m \<Rightarrow> (tx', w, Panic m))"
  assume *: "AttemptStore_within (Some s) ctx call = (st', r)"
  show ?thesis
  proof (cases rule: Within_cases [of s ctx ?fn None])
    case (committed tx w' s')
    then obtain at a where call: "call ctx (st_attempts s) = (at, Ok a)" "w' = Some a" "tx = (opened s)\<lparr>tx_attempts := at\<rparr>"
      by (cases "call ctx (st_attempts s)") (auto simp: Tx_Ledger_def opened_def split: res.splits prod.splits)
    with * committed(3) have "st' = Some s'" "r = Ok a"
      by (simp_all add: AttemptStore_within_def)
    with call committed(4) show ?thesis
      by (simp add: committed_def opened_def)
  qed (use * in \<open>auto simp: AttemptStore_within_def split: option.splits\<close>)
qed

lemma AttemptStore_within_Ok:
  assumes "ctx_err ctx = None" "ctx_err_locked ctx = None" "st_failNextCommit s = None" "call ctx (st_attempts s) = (at, Ok a)"
  shows "\<exists>s'. AttemptStore_within (Some s) ctx call = (Some s', Ok a) \<and> st_attempts s' = at \<and> st_inbox s' = st_inbox s \<and>
    st_outbox s' = st_outbox s \<and> st_tables s' = cloneTables (cloneTables (st_tables s))"
  using assms
  by (simp add: AttemptStore_within_def Within_def uow_open_simps uow_commit_def Tx_Ledger_def opened_def)

section \<open>Identifiers are fresh\<close>

text \<open>The sequence never repeats: the counter grows and its rendering is injective.\<close>

lemma NewMessageID_fresh:
  assumes "seq_issued g < seq_issued g'" "seq_Prefix g = seq_Prefix g'"
  shows "snd (NewMessageID g) \<noteq> snd (NewMessageID g')"
  using assms pad6_inject [of "seq_issued g + 1" "seq_issued g' + 1"]
  by (auto simp: NewMessageID_def Let_def)

lemma NewMessageID_advances [simp]:
  "seq_issued (fst (NewMessageID g)) = seq_issued g + 1" "seq_Prefix (fst (NewMessageID g)) = seq_Prefix g"
  by (simp_all add: NewMessageID_def Let_def)

lemma pad6_not_Nil [simp]: "pad6 n \<noteq> []"
  by (simp add: pad6_def itoa.simps [of n])

end
