(* ===== verification/Application_UseCase.thy ===== *)
theory Application_UseCase
  imports Memory_Inbox
begin

text \<open>
  The use case skeleton of \<^verbatim>\<open>libs/backend/go/application\<close>: resolving identity (\<^verbatim>\<open>identity.go\<close>), authoring
  outbox entries (\<^verbatim>\<open>message_context.go\<close>, \<^verbatim>\<open>enqueue.go\<close>), deciding over a loaded aggregate (\<^verbatim>\<open>decide.go\<close>),
  running a command at most once (\<^verbatim>\<open>idempotent.go\<close>), and the two entry points \<open>Execute\<close> (\<^verbatim>\<open>execute.go\<close>) and
  \<open>Query\<close> (\<^verbatim>\<open>query.go\<close>).

  The ports a use case receives are arguments: functions over the transaction \<open>'tx\<close> (repository, outbox and
  inbox), the unit of work over the store \<open>'st\<close>, an identifier generator with its state \<open>'g\<close>, and the clock
  reading \<open>Execute\<close> makes once. An aggregate that \<open>decide\<close> mutates is returned with the decision. What the
  instrumentation is told is the trace of the record \<open>world\<close>.
\<close>

section \<open>Identity\<close>

record Identity =
  idn_OccurredAt :: Instant
  idn_MessageIDs :: "MessageID list"

primrec resolve_ids :: "('g \<Rightarrow> 'g \<times> MessageID) \<Rightarrow> nat \<Rightarrow> MessageID list \<Rightarrow> 'g \<Rightarrow> 'g \<times> MessageID list result" where
  "resolve_ids gen 0 taken g = (g, Ok taken)"
| "resolve_ids gen (Suc n) taken g =
     (let (g1, next) = gen g in
      if next = [] then (g1, Panic ''application: IDGenerator produced an empty MessageID'')
      else if next \<in> set taken then (g1, Panic ''application: IDGenerator repeated a MessageID within one resolution'')
      else resolve_ids gen n (taken @ [next]) g1)"

definition ResolveIdentity :: "Instant \<Rightarrow> ('g \<Rightarrow> 'g \<times> MessageID) \<Rightarrow> int \<Rightarrow> 'g \<Rightarrow> 'g \<times> Identity result" where
  "ResolveIdentity now gen events g =
     (if events < 0 then (g, Panic ''application: ResolveIdentity requires a non-negative event count'')
      else let (g', r) = resolve_ids gen (nat events) [] g in
        (g', res_map (\<lambda>ids. \<lparr>idn_OccurredAt = now, idn_MessageIDs = ids\<rparr>) r))"

section \<open>Outbox entries\<close>

definition MessageContextFor :: "carrier \<Rightarrow> MessageID \<Rightarrow> MessageContext" where
  "MessageContextFor ctx i =
     (let mc = (case MessageContextFrom ctx of None \<Rightarrow> mc_zero | Some mc \<Rightarrow> mc) in
      if mc_CausationID mc = [] then mc\<lparr>mc_CausationID := i\<rparr> else mc)"

record Origin =
  org_Destination :: string
  org_AggregateType :: string
  org_AggregateID :: string

definition entry_for :: "carrier \<Rightarrow> Identity \<Rightarrow> Origin \<Rightarrow> Version \<Rightarrow> nat \<Rightarrow> 'e \<Rightarrow> 'e OutboxEntry" where
  "entry_for ctx identity origin written i event =
     \<lparr>oe_MessageID = idn_MessageIDs identity ! i, oe_OccurredAt = idn_OccurredAt identity,
      oe_Intent = \<lparr>pi_Destination = org_Destination origin, pi_PartitionKey = org_AggregateID origin\<rparr>,
      oe_AggregateType = org_AggregateType origin, oe_AggregateID = org_AggregateID origin,
      oe_AggregateVersion = written, oe_Event = event,
      oe_Context = MessageContextFor ctx (idn_MessageIDs identity ! i)\<rparr>"

fun enqueue_loop ::
    "('e OutboxEntry \<Rightarrow> 'tx \<Rightarrow> 'tx \<times> unit result) \<Rightarrow> (nat \<Rightarrow> 'e \<Rightarrow> 'e OutboxEntry) \<Rightarrow> nat \<Rightarrow> 'e list \<Rightarrow> 'tx \<Rightarrow> 'tx \<times> unit result" where
  "enqueue_loop put entry i [] tx = (tx, Ok ())"
| "enqueue_loop put entry i (event # events) tx =
     (case put (entry i event) tx of
        (tx', Ok _) \<Rightarrow> enqueue_loop put entry (i + 1) events tx'
      | (tx', r) \<Rightarrow> (tx', r))"

definition Enqueue ::
    "carrier \<Rightarrow> ('e OutboxEntry \<Rightarrow> 'tx \<Rightarrow> 'tx \<times> unit result) \<Rightarrow> Identity \<Rightarrow> Origin \<Rightarrow> Version \<Rightarrow> 'e list \<Rightarrow> 'tx \<Rightarrow> 'tx \<times> unit result" where
  "Enqueue ctx put identity origin written events tx =
     (if length events > length (idn_MessageIDs identity)
        then (tx, Panic ''application: the decision produced more events than resolved identifiers'')
      else enqueue_loop put (entry_for ctx identity origin written) 0 events tx)"

section \<open>Deciding\<close>

type_synonym ('id, 's, 'tx) reader = "'id \<Rightarrow> 'tx \<Rightarrow> ('s \<times> Version) result"
type_synonym ('id, 's, 'a, 'tx) Loader = "('id, 's, 'tx) reader \<Rightarrow> 'id \<Rightarrow> 'tx \<Rightarrow> ('a \<times> Version) result"

definition OrNew :: "('id \<Rightarrow> 'a) \<Rightarrow> ('s \<Rightarrow> 'a) \<Rightarrow> ('id, 's, 'a, 'tx) Loader" where
  "OrNew fresh restore reader i tx =
     (case reader i tx of
        Err e \<Rightarrow> if errors_Is e ErrNotFound then Ok (fresh i, 0) else Err e
      | Ok (snapshot, stored) \<Rightarrow> Ok (restore snapshot, stored)
      | Panic m \<Rightarrow> Panic m)"

definition Existing :: "('s \<Rightarrow> 'a) \<Rightarrow> ('id, 's, 'a, 'tx) Loader" where
  "Existing restore reader i tx = res_map (\<lambda>(snapshot, stored). (restore snapshot, stored)) (reader i tx)"

definition Absent :: "('id \<Rightarrow> 'a) \<Rightarrow> ('id, 's, 'a, 'tx) Loader" where
  "Absent fresh reader i tx =
     (case reader i tx of
        Ok _ \<Rightarrow> Fail ErrAlreadyExists
      | Err e \<Rightarrow> if \<not> errors_Is e ErrNotFound then Err e else Ok (fresh i, 0)
      | Panic m \<Rightarrow> Panic m)"

definition DeclaredRejection :: "gerr \<Rightarrow> Rejection option" where
  "DeclaredRejection err =
     (case errors_As as_UniqueViolation err of None \<Rightarrow> None | Some (_, _, rejection) \<Rightarrow> rejection)"

definition Decide ::
    "carrier \<Rightarrow> ('id, 's, 'tx) reader \<Rightarrow> ('id \<Rightarrow> 's \<Rightarrow> Version \<Rightarrow> 'tx \<Rightarrow> 'tx \<times> unit result) \<Rightarrow>
     ('e OutboxEntry \<Rightarrow> 'tx \<Rightarrow> 'tx \<times> unit result) \<Rightarrow> Origin \<Rightarrow> 'id \<Rightarrow> Identity \<Rightarrow> ('id, 's, 'a, 'tx) Loader \<Rightarrow>
     ('a \<Rightarrow> 's) \<Rightarrow> ('a \<Rightarrow> 'a \<times> ('r, 'e) decision) \<Rightarrow> 'tx \<Rightarrow> 'tx \<times> 'r Outcome result" where
  "Decide ctx reader save put origin i identity loader Snapshot decide tx =
     (case loader reader i tx of
        Err e \<Rightarrow> (tx, Err e)
      | Panic m \<Rightarrow> (tx, Panic m)
      | Ok (aggregate, stored) \<Rightarrow>
          (case decide aggregate of
             (_, Inl rejection) \<Rightarrow> (tx, Ok (ORejected rejection))
           | (aggregate', Inr accepted) \<Rightarrow>
               (case save i (Snapshot aggregate') stored tx of
                  (tx1, Err e) \<Rightarrow>
                    (case DeclaredRejection e of
                       Some rejection \<Rightarrow> (tx1, Ok (ORejected rejection))
                     | None \<Rightarrow> (tx1, Err e))
                | (tx1, Panic m) \<Rightarrow> (tx1, Panic m)
                | (tx1, Ok _) \<Rightarrow>
                    (case Enqueue ctx put identity origin (stored + 1) (Events accepted) tx1 of
                       (tx2, Err e) \<Rightarrow> (tx2, Err (Wrapped ''enqueue'' [e]))
                     | (tx2, Panic m) \<Rightarrow> (tx2, Panic m)
                     | (tx2, Ok _) \<Rightarrow> (tx2, Ok (OAccepted (acc_response accepted)))))))"

section \<open>Idempotent commands\<close>

definition deadlineMargin :: Instant where
  "deadlineMargin = 100000000"

record IdempotencyPolicy =
  pol_Wait :: int
  pol_Retention :: int
  pol_Digest :: "(bytes \<Rightarrow> bytes) option"

record ('tx, 'p, 'r) IdempotentCommand =
  ic_Register :: "carrier \<Rightarrow> Receipt \<Rightarrow> 'tx \<Rightarrow> 'tx \<times> 'p Reception result"
  ic_Complete :: "'p \<Rightarrow> Completion \<Rightarrow> 'tx \<Rightarrow> 'p \<times> 'tx \<times> unit result"
  ic_Completed :: "'p \<Rightarrow> bool"
  ic_Consumer :: string
  ic_Operation :: string
  ic_Fingerprint :: "bytes option"
  ic_Now :: Instant
  ic_Policy :: IdempotencyPolicy
  ic_Codec :: "'r OutcomeCodec"
  ic_Run :: "'tx \<Rightarrow> 'tx \<times> 'r Outcome result"

definition waitUntil :: "Instant \<Rightarrow> int \<Rightarrow> Instant \<Rightarrow> Instant" where
  "waitUntil now wait deadline = max (min (wrap64 (now + wait)) (wrap64 (deadline - deadlineMargin))) now"

text \<open>The verb \<open>%x\<close>: two lower-case hexadecimal digits per byte.\<close>

definition hex_digit :: "nat \<Rightarrow> char" where
  "hex_digit n = char_of (if n < 10 then 48 + n else 87 + n)"

definition hex_bytes :: "bytes \<Rightarrow> string" where
  "hex_bytes bs = concat (map (\<lambda>b. [hex_digit (unat b div 16), hex_digit (unat b mod 16)]) bs)"

definition receipt_of :: "('tx, 'p, 'r) IdempotentCommand \<Rightarrow> string \<Rightarrow> bytes \<Rightarrow> Instant \<Rightarrow> Receipt" where
  "receipt_of cmd key fingerprint deadline =
     \<lparr>rcp_Consumer = ic_Consumer cmd, rcp_MessageID = key, rcp_MessageType = ic_Operation cmd,
      rcp_PayloadHash = hex_bytes fingerprint, rcp_ReceivedAt = ic_Now cmd,
      rcp_WaitUntil = waitUntil (ic_Now cmd) (pol_Wait (ic_Policy cmd)) deadline,
      rcp_ExpiresAt = wrap64 (ic_Now cmd + pol_Retention (ic_Policy cmd))\<rparr>"

text \<open>The branches of the match share the transaction and the variables \<open>outcome\<close> and \<open>replayed\<close>.\<close>

definition run_first :: "('tx, 'p, 'r) IdempotentCommand \<Rightarrow> 'p \<Rightarrow> 'tx \<times> 'r Outcome option \<times> bool \<Rightarrow>
    'p \<times> ('tx \<times> 'r Outcome option \<times> bool) \<times> unit result" where
  "run_first cmd pending w =
     (case w of (tx, outcome, replayed) \<Rightarrow>
        (case ic_Run cmd tx of
           (tx1, Err e) \<Rightarrow> (pending, (tx1, outcome, replayed), Err e)
         | (tx1, Panic m) \<Rightarrow> (pending, (tx1, outcome, replayed), Panic m)
         | (tx1, Ok produced) \<Rightarrow>
             (let status = (if Outcome_Rejection produced \<noteq> None then StatusRejected else StatusProcessed) in
              case ic_Complete cmd pending
                  \<lparr>cpl_Status = status, cpl_At = ic_Now cmd, cpl_LastError = [], cpl_Outcome = EncodeOutcome (ic_Codec cmd) produced\<rparr> tx1 of
                (p', tx2, Ok _) \<Rightarrow> (p', (tx2, Some produced, replayed), Ok ())
              | (p', tx2, Err e) \<Rightarrow> (p', (tx2, outcome, replayed), Err e)
              | (p', tx2, Panic m) \<Rightarrow> (p', (tx2, outcome, replayed), Panic m))))"

definition run_replay :: "'r OutcomeCodec \<Rightarrow> bytes \<Rightarrow> 'tx \<times> 'r Outcome option \<times> bool \<Rightarrow>
    ('tx \<times> 'r Outcome option \<times> bool) \<times> unit result" where
  "run_replay codec stored w =
     (case w of (tx, outcome, replayed) \<Rightarrow>
        (case DecodeOutcome codec stored of
           Ok decoded \<Rightarrow> ((tx, Some decoded, True), Ok ())
         | Err e \<Rightarrow> ((tx, None, False), Err e)
         | Panic m \<Rightarrow> ((tx, outcome, replayed), Panic m)))"

definition match_reception :: "('tx, 'p, 'r) IdempotentCommand \<Rightarrow> 'p Reception \<Rightarrow> 'tx \<times> slots \<Rightarrow> ('tx \<times> slots) \<times> ('r Outcome \<times> bool) result" where
  "match_reception cmd reception w =
     (case w of (tx, sl) \<Rightarrow>
        (case Reception_Match (ic_Completed cmd) reception (run_first cmd)
            (run_replay (ic_Codec cmd) (Stored reception)) (run_replay (ic_Codec cmd) (Stored reception))
            (\<lambda>w. (w, Fail ErrIdempotencyMismatch)) (tx, None, False) of
           ((tx', _, _), Err e) \<Rightarrow>
             if errors_Is e ErrIdempotencyMismatch then ((tx', MarkIdempotency IdempotencyMismatch sl), Err e)
             else ((tx', sl), Err e)
         | ((tx', _, _), Panic m) \<Rightarrow> ((tx', sl), Panic m)
         | ((tx', None, _), Ok _) \<Rightarrow> ((tx', sl), Panic ''unreachable'')
         | ((tx', Some outcome, True), Ok _) \<Rightarrow> ((tx', MarkIdempotency IdempotencyReplayed sl), Ok (outcome, True))
         | ((tx', Some outcome, False), Ok _) \<Rightarrow> ((tx', MarkIdempotency IdempotencyNew sl), Ok (outcome, False))))"

definition RunIdempotent :: "carrier \<Rightarrow> ('tx, 'p, 'r) IdempotentCommand \<Rightarrow> 'tx \<times> slots \<Rightarrow> ('tx \<times> slots) \<times> ('r Outcome \<times> bool) result" where
  "RunIdempotent ctx cmd w =
     (case w of (tx, sl) \<Rightarrow>
        (case IdempotencyKeyFrom ctx of
           None \<Rightarrow> (w, Fail ErrIdempotencyKeyAbsent)
         | Some key \<Rightarrow>
             if key = [] then (w, Fail ErrIdempotencyKeyAbsent)
             else if \<not> ValidIdempotencyKey key then (w, Fail ErrIdempotencyKeyInvalid)
             else (case RequireExecutionContext ctx of
               Err e \<Rightarrow> (w, Err e)
             | Panic m \<Rightarrow> (w, Panic m)
             | Ok execution \<Rightarrow>
                 (case (ic_Fingerprint cmd, pol_Digest (ic_Policy cmd)) of
                    (Some canonical, Some Digest) \<Rightarrow>
                      (let fingerprint = Digest (fp_under (ic_Operation cmd) canonical) in
                       (case ic_Register cmd ctx (receipt_of cmd key fingerprint (ec_deadline execution)) tx of
                          (tx', Err e) \<Rightarrow>
                            if errors_Is e ErrRegisterTimeout
                            then ((tx', MarkIdempotency IdempotencyInFlight sl), Err (Wrapped [] [Sentinel ErrIdempotencyInFlight, e]))
                            else ((tx', sl), Err e)
                        | (tx', Panic m) \<Rightarrow> ((tx', sl), Panic m)
                        | (tx', Ok reception) \<Rightarrow> match_reception cmd reception (tx', sl)))
                  | _ \<Rightarrow> (w, FailWith ErrIncompleteCommand (ic_Operation cmd))))))"

section \<open>Execute and Query\<close>

datatype inst_call = BeginOp string | EndOp Result | AuditOp AuditEvent

record ('st, 'g) world =
  wd_store :: 'st
  wd_ids :: 'g
  wd_slots :: slots
  wd_trace :: "inst_call list"

type_synonym ('st, 'tx, 'w) unit_of_work =
  "'st \<Rightarrow> carrier \<Rightarrow> (carrier \<Rightarrow> 'tx \<Rightarrow> 'w \<Rightarrow> 'tx \<times> 'w \<times> unit result) \<Rightarrow> 'w \<Rightarrow> 'st \<times> 'w \<times> unit result"

record ('st, 'tx, 'p, 'g, 'op, 'r) Executor =
  x_UoW :: "('st, 'tx, 'r Outcome option \<times> bool \<times> slots) unit_of_work"
  x_Register :: "carrier \<Rightarrow> Receipt \<Rightarrow> 'tx \<Rightarrow> 'tx \<times> 'p Reception result"
  x_Complete :: "'p \<Rightarrow> Completion \<Rightarrow> 'tx \<Rightarrow> 'p \<times> 'tx \<times> unit result"
  x_Completed :: "'p \<Rightarrow> bool"
  x_Consumer :: string
  x_Now :: Instant
  x_IDs :: "'g \<Rightarrow> 'g \<times> MessageID"
  x_MaxEvents :: int
  x_Policy :: IdempotencyPolicy
  x_Authorize :: "'op Authorize"
  x_Instrumentation :: "(carrier \<Rightarrow> string \<Rightarrow> carrier) option"

record ('tx, 'op, 'r) Command =
  c_Operation :: string
  c_Object :: string
  c_Input :: 'op
  c_Fingerprint :: "bytes option"
  c_Codec :: "'r OutcomeCodec"
  c_Run :: "carrier \<Rightarrow> Identity \<Rightarrow> 'tx \<Rightarrow> 'tx \<times> 'r Outcome result"

text \<open>The inert instrumentation returns the context it was given.\<close>

definition BeginOperation :: "(carrier \<Rightarrow> string \<Rightarrow> carrier) option \<Rightarrow> carrier \<Rightarrow> string \<Rightarrow> carrier" where
  "BeginOperation inst ctx operation = (case inst of None \<Rightarrow> ctx | Some derive \<Rightarrow> derive ctx operation)"

definition traced :: "inst_call list \<Rightarrow> ('st, 'g) world \<Rightarrow> ('st, 'g) world" where
  "traced calls wd = wd\<lparr>wd_trace := wd_trace wd @ calls\<rparr>"

definition idempotent_command :: "('st, 'tx, 'p, 'g, 'op, 'r) Executor \<Rightarrow> ('tx, 'op, 'r) Command \<Rightarrow> carrier \<Rightarrow> Identity \<Rightarrow> ('tx, 'p, 'r) IdempotentCommand" where
  "idempotent_command x c ctx identity =
     \<lparr>ic_Register = x_Register x, ic_Complete = x_Complete x, ic_Completed = x_Completed x,
      ic_Consumer = x_Consumer x, ic_Operation = c_Operation c, ic_Fingerprint = c_Fingerprint c,
      ic_Now = idn_OccurredAt identity, ic_Policy = x_Policy x, ic_Codec = c_Codec c,
      ic_Run = c_Run c ctx identity\<rparr>"

definition execute_callback :: "('st, 'tx, 'p, 'g, 'op, 'r) Executor \<Rightarrow> ('tx, 'op, 'r) Command \<Rightarrow> Identity \<Rightarrow> carrier \<Rightarrow> 'tx \<Rightarrow>
    'r Outcome option \<times> bool \<times> slots \<Rightarrow> 'tx \<times> ('r Outcome option \<times> bool \<times> slots) \<times> unit result" where
  "execute_callback x c identity ctx tx w =
     (case w of (_, _, sl) \<Rightarrow>
        (case RunIdempotent ctx (idempotent_command x c ctx identity) (tx, sl) of
           ((tx', sl'), Ok (outcome, replayed)) \<Rightarrow> (tx', (Some outcome, replayed, sl'), Ok ())
         | ((tx', sl'), Err e) \<Rightarrow> (tx', (None, False, sl'), Err e)
         | ((tx', sl'), Panic m) \<Rightarrow> (tx', (None, False, sl'), Panic m)))"

definition Execute :: "carrier \<Rightarrow> ('st, 'tx, 'p, 'g, 'op, 'r) Executor \<Rightarrow> ('tx, 'op, 'r) Command \<Rightarrow> ('st, 'g) world \<Rightarrow>
    ('st, 'g) world \<times> 'r Outcome result" where
  "Execute ctx0 x c wd0 =
     (let ctx = BeginOperation (x_Instrumentation x) ctx0 (c_Operation c);
          wd = traced [BeginOp (c_Operation c)] wd0 in
      case x_Authorize x ctx (c_Input c) of
        Err e \<Rightarrow> (traced [EndOp (AuthorizationResult e)] wd, Err e)
      | Panic m \<Rightarrow> (wd, Panic m)
      | Ok _ \<Rightarrow>
          (case ResolveIdentity (x_Now x) (x_IDs x) (x_MaxEvents x) (wd_ids wd) of
             (g, Err e) \<Rightarrow> (wd\<lparr>wd_ids := g\<rparr>, Err e)
           | (g, Panic m) \<Rightarrow> (wd\<lparr>wd_ids := g\<rparr>, Panic m)
           | (g, Ok identity) \<Rightarrow>
               (case x_UoW x (wd_store wd) ctx (execute_callback x c identity) (None, False, wd_slots wd) of
                  (st, (_, _, sl), Err e) \<Rightarrow>
                    (traced [EndOp \<lparr>result_Outcome = OutcomeFailed, result_Err = Some e\<rparr>]
                       (wd\<lparr>wd_ids := g, wd_store := st, wd_slots := sl\<rparr>), Err e)
                | (st, (_, _, sl), Panic m) \<Rightarrow> (wd\<lparr>wd_ids := g, wd_store := st, wd_slots := sl\<rparr>, Panic m)
                | (st, (None, _, sl), Ok _) \<Rightarrow> (wd\<lparr>wd_ids := g, wd_store := st, wd_slots := sl\<rparr>, Panic ''unreachable'')
                | (st, (Some outcome, replayed, sl), Ok _) \<Rightarrow>
                    (let category = Outcome_Category outcome;
                         calls = [EndOp \<lparr>result_Outcome = category, result_Err = None\<rparr>] @
                           (if replayed then []
                            else [AuditOp \<lparr>ae_Object = c_Object c, ae_Action = c_Operation c, ae_Outcome = category,
                              ae_At = idn_OccurredAt identity\<rparr>])
                     in (traced calls (wd\<lparr>wd_ids := g, wd_store := st, wd_slots := sl\<rparr>), Ok outcome)))))"

definition Query :: "carrier \<Rightarrow> (carrier \<Rightarrow> string \<Rightarrow> carrier) option \<Rightarrow> 'op Authorize \<Rightarrow> string \<Rightarrow> 'op \<Rightarrow> (carrier \<Rightarrow> 's result) \<Rightarrow>
    ('st, 'g) world \<Rightarrow> ('st, 'g) world \<times> 's result" where
  "Query ctx0 inst authz operation input loader wd0 =
     (let ctx = BeginOperation inst ctx0 operation;
          wd = traced [BeginOp operation] wd0 in
      case authz ctx input of
        Err e \<Rightarrow> (traced [EndOp (AuthorizationResult e)] wd, Err e)
      | Panic m \<Rightarrow> (wd, Panic m)
      | Ok _ \<Rightarrow>
          (case loader ctx of
             Err e \<Rightarrow> (traced [EndOp \<lparr>result_Outcome = OutcomeFailed, result_Err = Some e\<rparr>] wd, Err e)
           | Panic m \<Rightarrow> (wd, Panic m)
           | Ok snapshot \<Rightarrow> (traced [EndOp \<lparr>result_Outcome = OutcomeAccepted, result_Err = None\<rparr>] wd, Ok snapshot)))"

section \<open>Identity is resolved without repetition\<close>

lemma resolve_ids_Ok:
  assumes "resolve_ids gen n taken g = (g', Ok ids)" "distinct taken" "[] \<notin> set taken"
  shows "distinct ids \<and> [] \<notin> set ids \<and> length ids = length taken + n"
  using assms
proof (induction n arbitrary: taken g)
  case (Suc n)
  then show ?case
    by (auto split: prod.splits if_splits dest!: Suc.IH)
qed simp

text \<open>
  What \<open>ResolveIdentity\<close> relies on in an identifier generator: it never issues an identifier it issued before,
  nor the empty one. \<open>issued\<close> reads off the state what was issued.
\<close>

locale id_generator =
  fixes gen :: "'g \<Rightarrow> 'g \<times> MessageID" and issued :: "'g \<Rightarrow> MessageID set"
  assumes fresh: "snd (gen g) \<notin> issued g" and not_empty: "snd (gen g) \<noteq> []"
    and recorded: "issued (fst (gen g)) = insert (snd (gen g)) (issued g)"
begin

lemma resolve_total:
  "set taken \<subseteq> issued g \<Longrightarrow> \<exists>g' ids. resolve_ids gen n taken g = (g', Ok (taken @ ids)) \<and>
     set ids \<inter> issued g = {} \<and> issued g' = issued g \<union> set ids"
proof (induction n arbitrary: taken g)
  case (Suc n)
  obtain g1 next_id where gen: "gen g = (g1, next_id)"
    by fastforce
  with fresh [of g] not_empty [of g] recorded [of g] have n: "next_id \<notin> issued g" "next_id \<noteq> []" "issued g1 = insert next_id (issued g)"
    by simp_all
  then have "set (taken @ [next_id]) \<subseteq> issued g1"
    using Suc.prems by auto
  from Suc.IH [OF this] obtain g' ids where "resolve_ids gen n (taken @ [next_id]) g1 = (g', Ok ((taken @ [next_id]) @ ids))"
    "set ids \<inter> issued g1 = {}" "issued g' = issued g1 \<union> set ids"
    by blast
  with n gen Suc.prems show ?case
    by (intro exI [of _ g'] exI [of _ "next_id # ids"]) auto
qed simp

lemma ResolveIdentity_total:
  assumes "0 \<le> events"
  shows "\<exists>g' ids. ResolveIdentity now gen events g = (g', Ok \<lparr>idn_OccurredAt = now, idn_MessageIDs = ids\<rparr>) \<and>
    length ids = nat events \<and> distinct ids \<and> [] \<notin> set ids \<and> set ids \<inter> issued g = {}"
  using resolve_total [of "[]" g "nat events"] assms resolve_ids_Ok [of gen "nat events" "[]" g]
  by (auto simp: ResolveIdentity_def)

end

definition seq_ids :: "SequenceIDs \<Rightarrow> MessageID set" where
  "seq_ids g = {seq_Prefix g @ pad6 k | k. 1 \<le> k \<and> k \<le> seq_issued g}"

interpretation sequence: id_generator NewMessageID seq_ids
proof (unfold_locales, goal_cases)
  case (1 g)
  then show ?case
    by (auto simp: seq_ids_def NewMessageID_def Let_def pad6_inject)
next
  case (2 g)
  then show ?case
    by (simp add: NewMessageID_def Let_def)
next
  case (3 g)
  have "k \<le> seq_issued g + 1 \<longleftrightarrow> k = seq_issued g + 1 \<or> k \<le> seq_issued g" for k
    by auto
  then show ?case
    by (auto simp: seq_ids_def NewMessageID_def Let_def)
qed

text \<open>
  Identity is resolved once and without repetition. Over the identifier sequence, resolving the identity of
  a command that may produce \<open>n\<close> events never panics and takes \<open>n\<close> non-empty identifiers, all different and
  different from every identifier the sequence issued before.
\<close>

theorem ResolveIdentity_fresh:
  assumes "0 \<le> events"
  shows "\<exists>g' ids. ResolveIdentity now NewMessageID events g = (g', Ok \<lparr>idn_OccurredAt = now, idn_MessageIDs = ids\<rparr>) \<and>
    length ids = nat events \<and> distinct ids \<and> [] \<notin> set ids \<and> set ids \<inter> seq_ids g = {}"
  using assms by (rule sequence.ResolveIdentity_total)

theorem ResolveIdentity_fresh_witness:
  "\<exists>g' ids. ResolveIdentity 5 NewMessageID 3 \<lparr>seq_Prefix = ''m-'', seq_issued = 7\<rparr> =
     (g', Ok \<lparr>idn_OccurredAt = 5, idn_MessageIDs = ids\<rparr>) \<and> length ids = 3"
  using ResolveIdentity_fresh [of 3 5 "\<lparr>seq_Prefix = ''m-'', seq_issued = 7\<rparr>"] by auto

section \<open>A decision is all or nothing\<close>

definition entries_for :: "carrier \<Rightarrow> Identity \<Rightarrow> Origin \<Rightarrow> Version \<Rightarrow> 'e list \<Rightarrow> 'e OutboxEntry list" where
  "entries_for ctx identity origin written events =
     map2 (entry_for ctx identity origin written) [0 ..< length events] events"

lemma enqueue_loop_memory:
  "\<exists>writes. enqueue_loop Outbox_Enqueue entry i events tx =
     (tx\<lparr>tx_outbox := tx_outbox tx @ map2 entry [i ..< i + length events] events, tx_writes := writes\<rparr>, Ok ())"
proof (induction events arbitrary: i tx)
  case Nil
  show ?case
    by (rule exI [of _ "tx_writes tx"]) simp
next
  case (Cons event events)
  let ?tx = "tx\<lparr>tx_outbox := tx_outbox tx @ [entry i event], tx_writes := wrap64 (tx_writes tx + 1)\<rparr>"
  from Cons [of "i + 1" ?tx] obtain writes where
    "enqueue_loop Outbox_Enqueue entry (i + 1) events ?tx =
      (?tx\<lparr>tx_outbox := tx_outbox ?tx @ map2 entry [i + 1 ..< i + 1 + length events] events, tx_writes := writes\<rparr>, Ok ())"
    by blast
  moreover have "Outbox_Enqueue (entry i event) tx = (?tx, Ok ())"
    by (simp add: Outbox_Enqueue_def)
  moreover have "[i ..< i + length (event # events)] = i # [i + 1 ..< i + 1 + length events]"
    by (simp add: upt_conv_Cons del: upt_Suc)
  ultimately show ?case
    by (intro exI [of _ writes]) (simp del: upt_Suc)
qed

lemma Enqueue_memory:
  "length events \<le> length (idn_MessageIDs identity) \<Longrightarrow>
   \<exists>writes. Enqueue ctx Outbox_Enqueue identity origin written events tx =
     (tx\<lparr>tx_outbox := tx_outbox tx @ entries_for ctx identity origin written events, tx_writes := writes\<rparr>, Ok ())"
  using enqueue_loop_memory [of "entry_for ctx identity origin written" 0 events tx]
  by (simp add: Enqueue_def entries_for_def)

lemma Repository_Save_other:
  "tx_outbox (fst (Repository_Save t ctx i s v tx)) = tx_outbox tx"
  "tx_inbox (fst (Repository_Save t ctx i s v tx)) = tx_inbox tx"
  "tx_attempts (fst (Repository_Save t ctx i s v tx)) = tx_attempts tx"
  by (auto simp: Repository_Save_def saveAs_def tx_table_def Let_def split: res.splits option.splits)

lemma Repository_Save_no_panic:
  assumes "tables_wf (tx_tables tx)" "Table_validate t = Ok ()"
  shows "snd (Repository_Save t ctx i s v tx) \<noteq> Panic m"
proof (cases "scopedKey ctx i")
  case (Ok key)
  have "snd (spec_save t key s v fresh mp) \<noteq> Panic m" for fresh mp
    by (simp add: spec_save_def split: option.splits)
  with saveAs_spec [OF assms, of key s v] Ok show ?thesis
    by (simp add: Repository_Save_def) (metis snd_conv)
qed (simp_all add: Repository_Save_def)

text \<open>What the transaction holds after a decision, for each way it can end.\<close>

definition nothing_written :: "('id, 's) Table \<Rightarrow> carrier \<Rightarrow> ('id, 's, 'e) Tx \<Rightarrow> ('id, 's, 'e) Tx \<Rightarrow> bool" where
  "nothing_written t ctx tx tx' \<longleftrightarrow>
     (\<forall>j. Repository_Load t ctx j tx' = Repository_Load t ctx j tx) \<and> tx_outbox tx' = tx_outbox tx \<and>
     tx_inbox tx' = tx_inbox tx"

definition decision_written :: "('id, 's) Table \<Rightarrow> carrier \<Rightarrow> 'id \<Rightarrow> Identity \<Rightarrow> Origin \<Rightarrow> Version \<Rightarrow> 's \<Rightarrow> 'e list \<Rightarrow>
    ('id, 's, 'e) Tx \<Rightarrow> ('id, 's, 'e) Tx \<Rightarrow> bool" where
  "decision_written t ctx i identity origin v state events tx tx' \<longleftrightarrow>
     Repository_Load t ctx i tx' = Ok (state, v + 1) \<and>
     tx_outbox tx' = tx_outbox tx @ entries_for ctx identity origin (v + 1) events \<and> tx_inbox tx' = tx_inbox tx"

text \<open>
  C29. A decision is all or nothing. When \<open>Decide\<close> accepts, the aggregate was loaded at some version \<open>v\<close>, the
  domain accepted over it, the repository now holds the new state at version \<open>v + 1\<close>, and the outbox gained
  exactly the accepted events, in order, each under its own resolved identifier and at version \<open>v + 1\<close>. When it
  refuses, by the domain or by a declared unique constraint, or fails, no row and no entry was written. It panics
  only when the decision produced more events than identifiers were resolved, or the domain's loader panics.
\<close>

theorem Decide_all_or_nothing:
  assumes "tables_wf (tx_tables tx)" and "Table_validate t = Ok ()" and "faithful t"
  shows "case Decide ctx (Repository_Load t ctx) (Repository_Save t ctx) Outbox_Enqueue origin i identity loader Snapshot decide tx of
      (tx', Ok (OAccepted response)) \<Rightarrow>
        (\<exists>aggregate v aggregate' accepted. loader (Repository_Load t ctx) i tx = Ok (aggregate, v) \<and>
           decide aggregate = (aggregate', Inr accepted) \<and> response = acc_response accepted \<and>
           decision_written t ctx i identity origin v (Snapshot aggregate') (Events accepted) tx tx')
    | (tx', Ok (ORejected _)) \<Rightarrow> nothing_written t ctx tx tx'
    | (tx', Err _) \<Rightarrow> nothing_written t ctx tx tx'
    | (tx', Panic _) \<Rightarrow> (\<exists>m. loader (Repository_Load t ctx) i tx = Panic m) \<or>
        (\<exists>aggregate v aggregate' accepted. loader (Repository_Load t ctx) i tx = Ok (aggregate, v) \<and>
           decide aggregate = (aggregate', Inr accepted) \<and> length (idn_MessageIDs identity) < length (Events accepted))"
proof -
  let ?reader = "Repository_Load t ctx" and ?save = "Repository_Save t ctx"
  show ?thesis
  proof (cases "loader ?reader i tx")
    case (Ok loaded)
    then obtain aggregate v where l: "loader ?reader i tx = Ok (aggregate, v)"
      by (cases loaded) simp
    obtain aggregate' d where d: "decide aggregate = (aggregate', d)"
      by fastforce
    show ?thesis
    proof (cases d)
      case (Inl rejection)
      with l d show ?thesis
        by (simp add: Decide_def nothing_written_def)
    next
      case (Inr accepted)
      obtain tx1 r where sv: "?save i (Snapshot aggregate') v tx = (tx1, r)"
        by fastforce
      note other = Repository_Save_other [of t ctx i "Snapshot aggregate'" v tx, unfolded sv fst_conv]
      show ?thesis
      proof (cases r)
        case (Err e)
        have "nothing_written t ctx tx tx1"
          using mem_repo.save_err [of tx t ctx i "Snapshot aggregate'" v] assms sv Err other by (simp add: nothing_written_def)
        with l d Inr sv Err show ?thesis
          by (auto simp: Decide_def split: option.splits)
      next
        case (Panic m)
        with Repository_Save_no_panic [OF assms(1,2), of ctx i "Snapshot aggregate'" v m] sv show ?thesis
          by simp
      next
        case ok: (Ok u)
        show ?thesis
        proof (cases "length (Events accepted) \<le> length (idn_MessageIDs identity)")
          case True
          from Enqueue_memory [OF this, of ctx origin "v + 1" tx1] obtain writes where
            enq: "Enqueue ctx Outbox_Enqueue identity origin (v + 1) (Events accepted) tx1 =
              (tx1\<lparr>tx_outbox := tx_outbox tx1 @ entries_for ctx identity origin (v + 1) (Events accepted), tx_writes := writes\<rparr>, Ok ())"
            by blast
          have "?reader i tx1 = Ok (Snapshot aggregate', v + 1)"
            using mem_repo.save_ok [of tx t ctx i "Snapshot aggregate'" v] assms sv ok by (simp add: faithful_def)
          with l d Inr sv ok enq other show ?thesis
            by (simp add: Decide_def decision_written_def Repository_Load_def)
        next
          case False
          with l d Inr sv ok show ?thesis
            by (simp add: Decide_def Enqueue_def)
        qed
      qed
    qed
  qed (simp_all add: Decide_def nothing_written_def)
qed

definition sample_decide :: "string \<Rightarrow> string \<times> (nat, unit) decision" where
  "sample_decide a = (a @ ''x'', Inr (Accept 9 [()]))"

definition sample_decided :: "(nat, string, unit) Tx \<times> nat Outcome result" where
  "sample_decided = Decide sample_context (Repository_Load sample_table sample_context) (Repository_Save sample_table sample_context)
     Outbox_Enqueue \<lparr>org_Destination = ''d'', org_AggregateType = ''order'', org_AggregateID = ''7''\<rparr> 7
     \<lparr>idn_OccurredAt = 5, idn_MessageIDs = [''m-1'']\<rparr> (OrNew (\<lambda>_. ''a'') id) id sample_decide sample_tx"

lemma sample_decided_accepts: "snd sample_decided = Ok (OAccepted 9)"
  by code_simp

lemma sample_table_faithful: "faithful sample_table"
  by (simp add: faithful_def sample_table_def Table_copy_def)

theorem Decide_all_or_nothing_witness:
  "\<exists>v. Repository_Load sample_table sample_context 7 (fst sample_decided) = Ok (''ax'', v + 1) \<and>
     length (tx_outbox (fst sample_decided)) = 1"
proof -
  obtain tx' where eq: "sample_decided = (tx', Ok (OAccepted 9))"
    using sample_decided_accepts by (metis prod.collapse)
  have loaded: "OrNew (\<lambda>_. ''a'') id (Repository_Load sample_table sample_context) 7 sample_tx = Ok (''a'', 0)"
    by code_simp
  have "tx_outbox sample_tx = []"
    by (simp add: sample_tx_def opened_def)
  with Decide_all_or_nothing [OF sample_tx_wf sample_table_valid sample_table_faithful, where ctx = sample_context and i = 7 and
      origin = "\<lparr>org_Destination = ''d'', org_AggregateType = ''order'', org_AggregateID = ''7''\<rparr>" and
      identity = "\<lparr>idn_OccurredAt = 5, idn_MessageIDs = [''m-1'']\<rparr>" and
      loader = "OrNew (\<lambda>_. ''a'') id" and Snapshot = id and decide = sample_decide]
  show ?thesis
    unfolding sample_decided_def [symmetric] eq
    by (auto simp: loaded sample_decide_def decision_written_def entries_for_def Events_def Accept_def)
qed

end
