(* ===== verification/Application_Idempotency.thy ===== *)
theory Application_Idempotency
  imports Application_UseCase
begin

text \<open>
  Commands run at most once. The argument has three layers: what \<open>RunIdempotent\<close> registers (\<open>command_receipt\<close>);
  one run over any inbox that keeps the contract of the locale \<open>inbox\<close>, with an operation codec that keeps the
  one of \<open>outcome_codec\<close>; and two executions over the in-memory store, where the second meets the committed entry
  of the first.
\<close>

section \<open>Hashes\<close>

lemma hex_digit_inject: "m < 16 \<Longrightarrow> n < 16 \<Longrightarrow> hex_digit m = hex_digit n \<longleftrightarrow> m = n"
proof -
  assume less: "m < 16" "n < 16"
  have val: "of_char (hex_digit k) = (if k < 10 then 48 + k else 87 + k)" if "k < 16" for k
    using that by (simp add: hex_digit_def of_char_of)
  show ?thesis
  proof
    assume "hex_digit m = hex_digit n"
    then have "(if m < 10 then 48 + m else 87 + m) = (if n < 10 then 48 + n else 87 + n)"
      using val [OF less(1)] val [OF less(2)] by (simp only:)
    with less show "m = n"
      by (simp split: if_splits)
  qed simp
qed

lemma hex_bytes_inject: "hex_bytes xs = hex_bytes ys \<longleftrightarrow> xs = ys"
proof
  show "hex_bytes xs = hex_bytes ys \<Longrightarrow> xs = ys"
  proof (induction xs arbitrary: ys)
    case Nil
    then show ?case by (cases ys) (simp_all add: hex_bytes_def)
  next
    case (Cons x xs)
    then obtain y ys' where ys: "ys = y # ys'"
      by (cases ys) (simp_all add: hex_bytes_def)
    have less: "unat (b :: 8 word) div 16 < 16" for b
      using unsigned_less [of b, where 'a = nat] by simp
    have "unat x div 16 = unat y div 16" "unat x mod 16 = unat y mod 16" "hex_bytes xs = hex_bytes ys'"
      using Cons.prems less [of x] less [of y] by (simp_all add: ys hex_bytes_def hex_digit_inject)
    then have "unat x = unat y" "xs = ys'"
      using Cons.IH by (metis div_mult_mod_eq, simp)
    then show ?case by (simp add: ys word_unat_eq_iff)
  qed
qed simp

section \<open>What a command registers\<close>

definition command_receipt :: "carrier \<Rightarrow> ('tx, 'p, 'r) IdempotentCommand \<Rightarrow> Receipt result" where
  "command_receipt ctx cmd =
     (case IdempotencyKeyFrom ctx of
        None \<Rightarrow> Fail ErrIdempotencyKeyAbsent
      | Some key \<Rightarrow>
          if key = [] then Fail ErrIdempotencyKeyAbsent
          else if \<not> ValidIdempotencyKey key then Fail ErrIdempotencyKeyInvalid
          else res_bind (RequireExecutionContext ctx) (\<lambda>execution.
            case (ic_Fingerprint cmd, pol_Digest (ic_Policy cmd)) of
              (Some canonical, Some Digest) \<Rightarrow>
                Ok (receipt_of cmd key (Digest (fp_under (ic_Operation cmd) canonical)) (ec_deadline execution))
            | _ \<Rightarrow> FailWith ErrIncompleteCommand (ic_Operation cmd)))"

lemma command_receipt_cases:
  obtains (refused) e where "command_receipt ctx cmd = Err e" "\<And>w. RunIdempotent ctx cmd w = (w, Err e)"
  | (receipt) key execution canonical Digest r where
      "IdempotencyKeyFrom ctx = Some key" "ValidIdempotencyKey key" "RequireExecutionContext ctx = Ok execution"
      "ic_Fingerprint cmd = Some canonical" "pol_Digest (ic_Policy cmd) = Some Digest"
      "r = receipt_of cmd key (Digest (fp_under (ic_Operation cmd) canonical)) (ec_deadline execution)"
      "command_receipt ctx cmd = Ok r"
      "\<And>tx sl. RunIdempotent ctx cmd (tx, sl) =
        (case ic_Register cmd ctx r tx of
           (tx', Err e) \<Rightarrow>
             if errors_Is e ErrRegisterTimeout
             then ((tx', MarkIdempotency IdempotencyInFlight sl), Err (Wrapped [] [Sentinel ErrIdempotencyInFlight, e]))
             else ((tx', sl), Err e)
         | (tx', Panic m) \<Rightarrow> ((tx', sl), Panic m)
         | (tx', Ok reception) \<Rightarrow> match_reception cmd reception (tx', sl))"
proof (cases "IdempotencyKeyFrom ctx")
  case None
  with refused [of "Sentinel ErrIdempotencyKeyAbsent"] show thesis
    by (simp add: command_receipt_def RunIdempotent_def split: prod.splits)
next
  case (Some key)
  show thesis
  proof (cases "key = [] \<or> \<not> ValidIdempotencyKey key")
    case True
    with Some refused show thesis
      by (cases "key = []") (simp_all add: command_receipt_def RunIdempotent_def split: prod.splits)
  next
    case valid: False
    show thesis
    proof (cases "RequireExecutionContext ctx")
      case (Ok execution)
      show thesis
      proof (cases "ic_Fingerprint cmd = None \<or> pol_Digest (ic_Policy cmd) = None")
        case True
        with Some valid Ok refused [of "Wrapped (ic_Operation cmd) [Sentinel ErrIncompleteCommand]"] show thesis
          by (auto simp: command_receipt_def RunIdempotent_def split: prod.splits option.splits)
      next
        case False
        then obtain canonical Digest where "ic_Fingerprint cmd = Some canonical" "pol_Digest (ic_Policy cmd) = Some Digest"
          by auto
        with Some valid Ok receipt [of key execution canonical Digest] show thesis
          by (simp add: command_receipt_def RunIdempotent_def Let_def)
      qed
    next
      case (Err e)
      with Some valid refused show thesis
        by (simp add: command_receipt_def RunIdempotent_def split: prod.splits)
    next
      case (Panic m)
      then show thesis
        by (simp add: RequireExecutionContext_def split: option.splits)
    qed
  qed
qed

lemma RunIdempotent_registers:
  assumes "command_receipt ctx cmd = Ok r"
  shows "RunIdempotent ctx cmd (tx, sl) =
    (case ic_Register cmd ctx r tx of
       (tx', Err e) \<Rightarrow>
         if errors_Is e ErrRegisterTimeout
         then ((tx', MarkIdempotency IdempotencyInFlight sl), Err (Wrapped [] [Sentinel ErrIdempotencyInFlight, e]))
         else ((tx', sl), Err e)
     | (tx', Panic m) \<Rightarrow> ((tx', sl), Panic m)
     | (tx', Ok reception) \<Rightarrow> match_reception cmd reception (tx', sl))"
  using assms by (cases rule: command_receipt_cases [of ctx cmd]) simp_all

text \<open>The parts of a receipt the inbox compares.\<close>

lemma command_receipt_fields:
  assumes "command_receipt ctx cmd = Ok r"
  shows "rcp_Consumer r = ic_Consumer cmd" "IdempotencyKeyFrom ctx = Some (rcp_MessageID r)"
    "ValidIdempotencyKey (rcp_MessageID r)" "rcp_ReceivedAt r = ic_Now cmd"
    "rcp_ExpiresAt r = wrap64 (ic_Now cmd + pol_Retention (ic_Policy cmd))"
    "\<exists>canonical Digest. ic_Fingerprint cmd = Some canonical \<and> pol_Digest (ic_Policy cmd) = Some Digest \<and>
       rcp_PayloadHash r = hex_bytes (Digest (fp_under (ic_Operation cmd) canonical))"
  using assms by (cases rule: command_receipt_cases [of ctx cmd]; auto simp: receipt_of_def)+

section \<open>One run over an inbox\<close>

definition uses_inbox where
  "uses_inbox cmd register complete completed \<longleftrightarrow>
     ic_Register cmd = register \<and> ic_Complete cmd = complete \<and> ic_Completed cmd = completed"

definition completion_of :: "('tx, 'p, 'r) IdempotentCommand \<Rightarrow> 'r Outcome \<Rightarrow> Completion" where
  "completion_of cmd outcome =
     \<lparr>cpl_Status = (if Outcome_Rejection outcome \<noteq> None then StatusRejected else StatusProcessed),
      cpl_At = ic_Now cmd, cpl_LastError = [], cpl_Outcome = EncodeOutcome (ic_Codec cmd) outcome\<rparr>"

text \<open>A run that was not a replay ran the command and completed the reception with its outcome.\<close>

lemma run_first_Ok:
  assumes "run_first cmd p (tx, outcome, replayed) = (p', w', Ok ())"
  shows "\<exists>tx1 produced tx2. ic_Run cmd tx = (tx1, Ok produced) \<and>
    ic_Complete cmd p (completion_of cmd produced) tx1 = (p', tx2, Ok ()) \<and> w' = (tx2, Some produced, replayed)"
proof -
  have "run_first cmd p (tx, outcome, replayed) =
      (case ic_Run cmd tx of
         (tx1, Err e) \<Rightarrow> (p, (tx1, outcome, replayed), Err e)
       | (tx1, Panic m) \<Rightarrow> (p, (tx1, outcome, replayed), Panic m)
       | (tx1, Ok produced) \<Rightarrow>
           (case ic_Complete cmd p (completion_of cmd produced) tx1 of
              (p', tx2, Ok _) \<Rightarrow> (p', (tx2, Some produced, replayed), Ok ())
            | (p', tx2, Err e) \<Rightarrow> (p', (tx2, outcome, replayed), Err e)
            | (p', tx2, Panic m) \<Rightarrow> (p', (tx2, outcome, replayed), Panic m)))"
    by (simp only: run_first_def completion_of_def Let_def prod.case)
  with assms show ?thesis
    by (auto split: prod.splits res.splits)
qed

lemma match_reception_new:
  assumes "match_reception cmd rc (tx, sl) = ((tx', sl'), Ok (outcome, False))"
  shows "\<exists>p tx1 p'. rc_kind rc = receptionFirst p \<and> ic_Run cmd tx = (tx1, Ok outcome) \<and>
    ic_Complete cmd p (completion_of cmd outcome) tx1 = (p', tx', Ok ()) \<and>
    sl' = MarkIdempotency IdempotencyNew sl"
proof (cases "rc_kind rc")
  case (receptionFirst p)
  let ?match = "Reception_Match (ic_Completed cmd) rc (run_first cmd) (run_replay (ic_Codec cmd) (Stored rc))
    (run_replay (ic_Codec cmd) (Stored rc)) (\<lambda>w. (w, Fail ErrIdempotencyMismatch)) (tx, None, False)"
  have m: "?match = ((tx', Some outcome, False), Ok ())" and sl: "sl' = MarkIdempotency IdempotencyNew sl"
    using assms by (auto simp: match_reception_def split: prod.splits res.splits option.splits bool.splits if_splits)
  from Reception_Match_first_Ok [OF receptionFirst m] obtain p' where "run_first cmd p (tx, None, False) = (p', (tx', Some outcome, False), Ok ())"
    by blast
  from run_first_Ok [OF this] receptionFirst sl show ?thesis
    by auto
qed (use assms in \<open>auto simp: match_reception_def Reception_Match_def run_replay_def split: res.splits if_splits\<close>)

lemma match_reception_replay:
  assumes "rc_kind rc = receptionProcessed \<or> rc_kind rc = receptionRejected"
    and "DecodeOutcome (ic_Codec cmd) (Stored rc) = Ok outcome"
  shows "match_reception cmd rc (tx, sl) = ((tx, MarkIdempotency IdempotencyReplayed sl), Ok (outcome, True))"
  using assms by (auto simp: match_reception_def Reception_Match_def run_replay_def)

lemma match_reception_collision:
  assumes "rc_kind rc = receptionCollision"
  shows "match_reception cmd rc (tx, sl) = ((tx, MarkIdempotency IdempotencyMismatch sl), Fail ErrIdempotencyMismatch)"
  using assms by (simp add: match_reception_def Reception_Match_def)

context inbox
begin

text \<open>
  The second command of an entry: whatever it would run, it replays the first outcome when the fingerprints
  agree and is refused as a mismatch when they do not; in both cases the transaction is untouched.
\<close>

lemma second_run:
  assumes first: "uses_inbox cmd register complete completed" "command_receipt ctx cmd = Ok r"
      "RunIdempotent ctx cmd (tx, sl) = ((tx1, sl1), Ok (outcome, False))"
    and second: "uses_inbox cmd' register complete completed" "command_receipt ctx' cmd' = Ok r'" "admits ctx' r'"
      "same ctx r ctx' r'" "row_of ctx' r' tx2 = row_of ctx' r' tx1"
    and codec: "DecodeOutcome (ic_Codec cmd') (EncodeOutcome (ic_Codec cmd) outcome) = Ok outcome"
    and business: "\<And>t. untouched t (fst (ic_Run cmd t))"
  shows "RunIdempotent ctx' cmd' (tx2, sl2) =
    (if rcp_PayloadHash r' = rcp_PayloadHash r
     then ((tx2, MarkIdempotency IdempotencyReplayed sl2), Ok (outcome, True))
     else ((tx2, MarkIdempotency IdempotencyMismatch sl2), Fail ErrIdempotencyMismatch))"
proof -
  from first obtain tx0 rc where rc: "register ctx r tx = (tx0, Ok rc)" "match_reception cmd rc (tx0, sl) = ((tx1, sl1), Ok (outcome, False))"
    by (auto simp: RunIdempotent_registers uses_inbox_def split: prod.splits res.splits if_splits)
  from match_reception_new [OF rc(2)] first(1) obtain p txa p' where p: "rc_kind rc = receptionFirst p"
    "complete p (completion_of cmd outcome) txa = (p', tx1, Ok ())" and run: "ic_Run cmd tx0 = (txa, Ok outcome)"
    by (auto simp: uses_inbox_def)
  have kept: "untouched tx0 txa"
    using business [of tx0] by (simp add: run)
  let ?ok = "cpl_Status (completion_of cmd outcome) = StatusProcessed"
  have row: "row_of ctx' r' tx2 = Some (rcp_PayloadHash r, ?ok, EncodeOutcome (ic_Codec cmd) outcome)"
    using complete_remembered [OF rc(1) p(1) kept p(2) second(4)] second(5) by (simp add: completion_of_def)
  from register_known [OF second(3) row] obtain rc' where rc': "register ctx' r' tx2 = (tx2, Ok rc')"
    "rcp_PayloadHash r \<noteq> rcp_PayloadHash r' \<longrightarrow> rc_kind rc' = receptionCollision"
    "rcp_PayloadHash r = rcp_PayloadHash r' \<longrightarrow> Stored rc' = EncodeOutcome (ic_Codec cmd) outcome \<and>
      rc_kind rc' = (if ?ok then receptionProcessed else receptionRejected)"
    by blast
  have "RunIdempotent ctx' cmd' (tx2, sl2) = match_reception cmd' rc' (tx2, sl2)"
    using second(1,2) rc'(1) by (simp add: RunIdempotent_registers uses_inbox_def)
  with rc'(2,3) codec show ?thesis
    by (auto simp: match_reception_replay match_reception_collision)
qed

text \<open>The first command of an entry runs, and its outcome is what the caller gets and what is stored.\<close>

lemma first_run:
  assumes "uses_inbox cmd register complete completed" "command_receipt ctx cmd = Ok r" "admits ctx r" "row_of ctx r tx = None"
    and "well tx" and run: "\<And>t. untouched t (fst (ic_Run cmd t)) \<and> snd (ic_Run cmd t) = Ok produced"
    and "same ctx r ctx' r'"
  shows "\<exists>tx'. RunIdempotent ctx cmd (tx, sl) = ((tx', MarkIdempotency IdempotencyNew sl), Ok (produced, False)) \<and>
    row_of ctx' r' tx' = Some (rcp_PayloadHash r, Outcome_Rejection produced = None, EncodeOutcome (ic_Codec cmd) produced)"
proof -
  let ?c = "completion_of cmd produced"
  from register_new [OF assms(3,4)] obtain tx0 rc p where rc: "register ctx r tx = (tx0, Ok rc)" "rc_kind rc = receptionFirst p"
    by blast
  obtain tx1 where tx1: "ic_Run cmd tx0 = (tx1, Ok produced)" "untouched tx0 tx1"
    using run [of tx0] by (cases "ic_Run cmd tx0") auto
  have status: "cpl_Status ?c \<in> {StatusProcessed, StatusRejected}"
    by (simp add: completion_of_def)
  from complete_total [OF assms(5) rc tx1(2) this] obtain p' tx2 where fin: "complete p ?c tx1 = (p', tx2, Ok ())"
    by blast
  from complete_remembered [OF rc tx1(2) this assms(7)] have "completed p'"
    and row: "row_of ctx' r' tx2 = Some (rcp_PayloadHash r, cpl_Status ?c = StatusProcessed, cpl_Outcome ?c)"
    by auto
  moreover have "run_first cmd p (tx0, None, False) = (p', (tx2, Some produced, False), Ok ())"
    using assms(1) tx1(1) fin by (simp add: run_first_def uses_inbox_def completion_of_def Let_def)
  ultimately have "RunIdempotent ctx cmd (tx, sl) = ((tx2, MarkIdempotency IdempotencyNew sl), Ok (produced, False))"
    using assms(1,2) rc by (simp add: RunIdempotent_registers uses_inbox_def match_reception_def Reception_Match_def)
  with row show ?thesis
    by (simp add: completion_of_def)
qed

text \<open>A run that fails or panics before completing leaves the entry absent only in its own transaction: the error surfaces.\<close>

lemma failed_run_surfaces:
  assumes "uses_inbox cmd register complete completed" "command_receipt ctx cmd = Ok r" "admits ctx r" "row_of ctx r tx = None"
    "\<And>t. ic_Run cmd t = (tx1, Err e)"
  shows "\<exists>sl'. RunIdempotent ctx cmd (tx, sl) = ((tx1, sl'), Err e)"
proof -
  from register_new [OF assms(3,4)] obtain tx0 rc p where "register ctx r tx = (tx0, Ok rc)" "rc_kind rc = receptionFirst p"
    by blast
  with assms show ?thesis
    by (auto simp: RunIdempotent_registers uses_inbox_def match_reception_def Reception_Match_def run_first_def)
qed

end

section \<open>Executions over the in-memory store\<close>

definition mem_executor ::
    "string \<Rightarrow> Instant \<Rightarrow> ('g \<Rightarrow> 'g \<times> MessageID) \<Rightarrow> int \<Rightarrow> IdempotencyPolicy \<Rightarrow> 'op Authorize \<Rightarrow>
     (carrier \<Rightarrow> string \<Rightarrow> carrier) option \<Rightarrow>
     (('id, 's, 'e) Store, ('id, 's, 'e) Tx, memoryPending, 'g, 'op, 'r) Executor" where
  "mem_executor consumer now gen maxEvents policy authz inst =
     \<lparr>x_UoW = Within, x_Register = mem_Register (Tx_CommandInbox consumer), x_Complete = Pending_Complete,
      x_Completed = mp_completed, x_Consumer = consumer, x_Now = now, x_IDs = gen, x_MaxEvents = maxEvents,
      x_Policy = policy, x_Authorize = authz, x_Instrumentation = inst\<rparr>"

lemma mem_executor_simps [simp]:
  fixes consumer now gen maxEvents policy authz inst
  defines "x \<equiv> mem_executor consumer now gen maxEvents policy authz inst"
  shows "x_UoW x = Within" "x_Register x = mem_Register (Tx_CommandInbox consumer)" "x_Complete x = Pending_Complete"
    "x_Completed x = mp_completed" "x_Consumer x = consumer" "x_Now x = now" "x_IDs x = gen" "x_MaxEvents x = maxEvents"
    "x_Policy x = policy" "x_Authorize x = authz" "x_Instrumentation x = inst"
  by (simp_all add: x_def mem_executor_def)

definition clones_faithful :: "('id, 's) tables \<Rightarrow> bool" where
  "clones_faithful ts \<longleftrightarrow> (\<forall>(name, tab) \<in> set ts. case tab_clone tab of None \<Rightarrow> True | Some clone \<Rightarrow> \<forall>s. clone s = s)"

lemma cloneRows_faithful:
  "(case tab_clone tab of None \<Rightarrow> True | Some clone \<Rightarrow> \<forall>s. clone s = s) \<Longrightarrow> cloneRows tab = tab"
  by (auto simp: cloneRows_def case_prod_unfold split: option.splits)

lemma cloneTables_faithful: "clones_faithful ts \<Longrightarrow> cloneTables ts = ts"
  unfolding clones_faithful_def cloneTables_def
  by (rule map_idI) (auto simp: cloneRows_faithful)

lemma execute_callback_Ok:
  "execute_callback x c identity ctx tx w = (tx', w', Ok ()) \<Longrightarrow>
     \<exists>outcome replayed sl. w' = (Some outcome, replayed, sl) \<and>
       RunIdempotent ctx (idempotent_command x c ctx identity) (tx, snd (snd w)) = ((tx', sl), Ok (outcome, replayed))"
  by (auto simp: execute_callback_def split: prod.splits res.splits)

lemma ResolveIdentity_OccurredAt: "ResolveIdentity now gen n g = (g', Ok identity) \<Longrightarrow> idn_OccurredAt identity = now"
  by (auto simp: ResolveIdentity_def split: prod.splits if_splits)

definition end_calls :: "('tx, 'op, 'r) Command \<Rightarrow> Identity \<Rightarrow> 'r Outcome \<Rightarrow> bool \<Rightarrow> inst_call list" where
  "end_calls c identity outcome replayed =
     EndOp \<lparr>result_Outcome = Outcome_Category outcome, result_Err = None\<rparr> #
       (if replayed then []
        else [AuditOp \<lparr>ae_Object = c_Object c, ae_Action = c_Operation c, ae_Outcome = Outcome_Category outcome,
          ae_At = idn_OccurredAt identity\<rparr>])"

lemma Execute_Ok:
  assumes "Execute ctx0 x c wd = (wd', Ok outcome)" and ctx: "ctx = BeginOperation (x_Instrumentation x) ctx0 (c_Operation c)"
  obtains identity g replayed sl where "x_Authorize x ctx (c_Input c) = Ok ()"
    "ResolveIdentity (x_Now x) (x_IDs x) (x_MaxEvents x) (wd_ids wd) = (g, Ok identity)"
    "x_UoW x (wd_store wd) ctx (execute_callback x c identity) (None, False, wd_slots wd) =
       (wd_store wd', (Some outcome, replayed, sl), Ok ())"
    "wd_trace wd' = wd_trace wd @ [BeginOp (c_Operation c)] @ end_calls c identity outcome replayed"
  using assms(1)
  by (auto simp: Execute_def ctx [symmetric] Let_def traced_def end_calls_def
      split: res.splits prod.splits option.splits if_splits)

lemma Execute_intro:
  assumes "ctx = BeginOperation (x_Instrumentation x) ctx0 (c_Operation c)" "x_Authorize x ctx (c_Input c) = Ok ()"
    "ResolveIdentity (x_Now x) (x_IDs x) (x_MaxEvents x) (wd_ids wd) = (g, Ok identity)"
    "x_UoW x (wd_store wd) ctx (execute_callback x c identity) (None, False, wd_slots wd) =
       (st, (Some outcome, replayed, sl), Ok ())"
  shows "Execute ctx0 x c wd =
    (\<lparr>wd_store = st, wd_ids = g, wd_slots = sl,
      wd_trace = wd_trace wd @ [BeginOp (c_Operation c)] @ end_calls c identity outcome replayed\<rparr>, Ok outcome)"
  using assms by (simp add: Execute_def Let_def traced_def end_calls_def)

lemma mem_row_of_inbox: "tx_inbox tx = tx_inbox tx' \<Longrightarrow> mem_row_of i ctx r tx = mem_row_of i ctx r tx'"
  by (auto simp: mem_row_of_def remembered_def split: res.splits)

text \<open>An execution that was audited ran its command over the opened state and committed what it left.\<close>

lemma Execute_first:
  assumes "Execute ctx (mem_executor consumer now gen maxEvents policy authz inst) c wd = (wd1, Ok outcome)"
    and "last (wd_trace wd1) = AuditOp audit" and "BeginOperation inst ctx (c_Operation c) = ctx"
  obtains identity tx sl where "idn_OccurredAt identity = now"
    "RunIdempotent ctx (idempotent_command (mem_executor consumer now gen maxEvents policy authz inst) c ctx identity)
       (opened (wd_store wd), wd_slots wd) = ((tx, sl), Ok (outcome, False))"
    "committed tx (wd_store wd) (wd_store wd1)"
proof -
  let ?x = "mem_executor consumer now gen maxEvents policy authz inst"
  have ctx: "ctx = BeginOperation (x_Instrumentation ?x) ctx (c_Operation c)"
    using assms(3) by simp
  obtain identity g replayed sl where ex: "ResolveIdentity now gen maxEvents (wd_ids wd) = (g, Ok identity)"
    "Within (wd_store wd) ctx (execute_callback ?x c identity) (None, False, wd_slots wd) =
       (wd_store wd1, (Some outcome, replayed, sl), Ok ())"
    "wd_trace wd1 = wd_trace wd @ [BeginOp (c_Operation c)] @ end_calls c identity outcome replayed"
    by (rule Execute_Ok [OF assms(1) ctx]) simp
  have "\<not> replayed"
    using assms(2) ex(3) by (auto simp: end_calls_def split: if_splits)
  moreover obtain tx where tx: "execute_callback ?x c identity ctx (opened (wd_store wd)) (None, False, wd_slots wd) =
      (tx, (Some outcome, replayed, sl), Ok ())" "committed tx (wd_store wd) (wd_store wd1)"
    using ex(2) by (cases rule: Within_cases [of "wd_store wd" ctx "execute_callback ?x c identity" "(None, False, wd_slots wd)"]) auto
  ultimately show thesis
    using that [OF ResolveIdentity_OccurredAt [OF ex(1)]] execute_callback_Ok [OF tx(1)] by auto
qed

lemma command_receipt_exists:
  assumes "command_receipt ctx cmd = Ok r" "IdempotencyKeyFrom ctx' = IdempotencyKeyFrom ctx"
    "RequireExecutionContext ctx' = Ok ec" "ic_Fingerprint cmd' = ic_Fingerprint cmd"
    "pol_Digest (ic_Policy cmd') = pol_Digest (ic_Policy cmd)" "ic_Operation cmd' = ic_Operation cmd"
  shows "\<exists>r'. command_receipt ctx' cmd' = Ok r' \<and> rcp_PayloadHash r' = rcp_PayloadHash r \<and> rcp_MessageID r' = rcp_MessageID r"
proof (cases rule: command_receipt_cases [of ctx cmd])
  case (receipt key execution canonical Digest r0)
  then have "key \<noteq> []"
    using assms(1) by (auto simp: command_receipt_def)
  with receipt assms show ?thesis
    by (auto simp: command_receipt_def receipt_of_def)
qed (use assms(1) in simp)

lemma scopedKey_requires: "scopedKey ctx i = Ok key \<Longrightarrow> \<exists>ec. RequireExecutionContext ctx = Ok ec"
  by (auto simp: scopedKey_def)

text \<open>
  The receipts of a command that succeeded and of a later one under the same key, tenant, operation and
  fingerprint: they carry the same hash and name the same entry, which is admitted.
\<close>

lemma same_command_receipts:
  assumes uses: "uses_inbox cmd (mem_Register (Tx_CommandInbox consumer)) Pending_Complete mp_completed"
    and run: "RunIdempotent ctx cmd (tx, sl) = (w, Ok x)"
    and cmd': "ic_Consumer cmd' = ic_Consumer cmd" "ic_Fingerprint cmd' = ic_Fingerprint cmd" "ic_Operation cmd' = ic_Operation cmd"
      "pol_Digest (ic_Policy cmd') = pol_Digest (ic_Policy cmd)"
    and ctx': "IdempotencyKeyFrom ctx' = IdempotencyKeyFrom ctx" "scopedKey ctx' ''k'' = scopedKey ctx ''k''"
    and time: "ic_Now cmd' < wrap64 (ic_Now cmd' + pol_Retention (ic_Policy cmd'))"
      "ic_Now cmd' < wrap64 (ic_Now cmd + pol_Retention (ic_Policy cmd))"
  obtains r r' where "command_receipt ctx cmd = Ok r" "command_receipt ctx' cmd' = Ok r'" "rcp_PayloadHash r' = rcp_PayloadHash r"
    "same_entry (Tx_CommandInbox consumer) ctx r ctx' r'" "receipt_ok (Tx_CommandInbox consumer) ctx' r'"
proof -
  let ?i = "Tx_CommandInbox consumer"
  obtain r where r: "command_receipt ctx cmd = Ok r"
    using run by (cases rule: command_receipt_cases [of ctx cmd]) auto
  have admitted: "receipt_ok ?i ctx r"
  proof (rule ccontr)
    assume "\<not> receipt_ok ?i ctx r"
    with Register_refused [of ?i ctx r tx] run r uses show False
      by (auto simp: RunIdempotent_registers uses_inbox_def mem_Register_def split: if_splits)
  qed
  then obtain key where key: "scopedKey ctx (rcp_MessageID r) = Ok key"
    by (auto simp: receipt_ok_def inbox_id_def Tx_CommandInbox_def split: if_splits)
  have key': "scopedKey ctx' (rcp_MessageID r) = Ok \<lparr>rk_tenant = rk_tenant key, rk_id = rcp_MessageID r\<rparr>"
    using scopedKey_tenant [OF key, of "''k''"] ctx'(2) scopedKey_tenant [of ctx' "''k''" _ "rcp_MessageID r"] by auto
  from scopedKey_requires [OF this] obtain ec where ec: "RequireExecutionContext ctx' = Ok ec" by blast
  obtain r' where r': "command_receipt ctx' cmd' = Ok r'" "rcp_PayloadHash r' = rcp_PayloadHash r" "rcp_MessageID r' = rcp_MessageID r"
    using command_receipt_exists [OF r ctx'(1) ec, of cmd'] cmd' by auto
  note f = command_receipt_fields [OF r] and f' = command_receipt_fields [OF r'(1)]
  have "same_entry ?i ctx r ctx' r'" "receipt_ok ?i ctx' r'"
    using admitted key key' f f' r'(3) time cmd'(1) scopedKey_Ok [OF key]
    by (auto simp: same_entry_def receipt_ok_def inbox_id_def Tx_CommandInbox_def split: if_splits)
  with r r' that show thesis by blast
qed

text \<open>
  C2. A command runs at most once. Take a command that was executed and audited over the in-memory store, and a
  later execution, by any instance of the service, under the same idempotency key, tenant, operation and
  fingerprint, before the entry of the first expires. Whatever the second would run, it returns the outcome of the
  first, changes no table, no inbox row, no outbox entry and no attempt, and is reported without an audit event.
\<close>

theorem Execute_at_most_once:
  assumes "Execute ctx (mem_executor consumer now gen maxEvents policy authz inst) c wd = (wd1, Ok outcome)"
    and "last (wd_trace wd1) = AuditOp audit" and "BeginOperation inst ctx (c_Operation c) = ctx"
    and "c_Operation c' = c_Operation c" and "c_Fingerprint c' = c_Fingerprint c" and "c_Codec c' = c_Codec c"
    and "pol_Digest policy' = pol_Digest policy"
    and "DecodeOutcome (c_Codec c) (EncodeOutcome (c_Codec c) outcome) = Ok outcome"
    and "IdempotencyKeyFrom ctx' = IdempotencyKeyFrom ctx" and "scopedKey ctx' ''k'' = scopedKey ctx ''k''"
    and "BeginOperation inst' ctx' (c_Operation c) = ctx'" and "ctx_err ctx' = None" and "ctx_err_locked ctx' = None"
    and "authz' ctx' (c_Input c') = Ok ()"
    and "ResolveIdentity now' gen' maxEvents' (wd_ids wd2) = (g', Ok identity')"
    and "now' < wrap64 (now' + pol_Retention policy')" and "now' < wrap64 (now + pol_Retention policy)"
    and "wd_store wd2 = wd_store wd1" and "st_failNextCommit (wd_store wd1) = None" and "clones_faithful (st_tables (wd_store wd1))"
  shows "\<exists>wd3. Execute ctx' (mem_executor consumer now' gen' maxEvents' policy' authz' inst') c' wd2 = (wd3, Ok outcome) \<and>
    st_tables (wd_store wd3) = st_tables (wd_store wd1) \<and> st_inbox (wd_store wd3) = st_inbox (wd_store wd1) \<and>
    st_outbox (wd_store wd3) = st_outbox (wd_store wd1) \<and> st_attempts (wd_store wd3) = st_attempts (wd_store wd1) \<and>
    wd_trace wd3 = wd_trace wd2 @ [BeginOp (c_Operation c),
      EndOp \<lparr>result_Outcome = Outcome_Category outcome, result_Err = None\<rparr>]"
proof -
  let ?x = "mem_executor consumer now gen maxEvents policy authz inst"
    and ?x' = "mem_executor consumer now' gen' maxEvents' policy' authz' inst'" and ?i = "Tx_CommandInbox consumer"
  let ?s = "wd_store wd1"
  obtain identity tx sl where first: "idn_OccurredAt identity = now"
    "RunIdempotent ctx (idempotent_command ?x c ctx identity) (opened (wd_store wd), wd_slots wd) = ((tx, sl), Ok (outcome, False))"
    "committed tx (wd_store wd) ?s"
    using assms(1-3) by (rule Execute_first)
  let ?cmd = "idempotent_command ?x c ctx identity" and ?cmd' = "idempotent_command ?x' c' ctx' identity'"
  have now': "idn_OccurredAt identity' = now'"
    using assms(15) by (rule ResolveIdentity_OccurredAt)
  have uses: "uses_inbox ?cmd (mem_Register ?i) Pending_Complete mp_completed"
    "uses_inbox ?cmd' (mem_Register ?i) Pending_Complete mp_completed"
    by (simp_all add: uses_inbox_def idempotent_command_def)
  obtain r r' where r: "command_receipt ctx ?cmd = Ok r" "command_receipt ctx' ?cmd' = Ok r'" "rcp_PayloadHash r' = rcp_PayloadHash r"
    "same_entry ?i ctx r ctx' r'" "receipt_ok ?i ctx' r'"
    by (rule same_command_receipts [OF uses(1) first(2), of ?cmd' ctx'])
      (use assms(4,5,7,9,10,16,17) first(1) now' in \<open>simp_all add: idempotent_command_def\<close>)
  have "RunIdempotent ctx' ?cmd' (opened ?s, wd_slots wd2) =
      ((opened ?s, MarkIdempotency IdempotencyReplayed (wd_slots wd2)), Ok (outcome, True))"
    using mem_inbox.second_run [OF uses(1) r(1) first(2) uses(2) r(2,5,4), of "opened ?s" "wd_slots wd2"] r(3) assms(6,8)
      first(3) mem_row_of_inbox [of "opened ?s" tx ?i ctx' r']
    by (simp add: committed_def opened_def idempotent_command_def)
  then have cb: "execute_callback ?x' c' identity' ctx' (opened ?s) (None, False, wd_slots wd2) =
      (opened ?s, (Some outcome, True, MarkIdempotency IdempotencyReplayed (wd_slots wd2)), Ok ())"
    by (simp add: execute_callback_def)
  obtain s3 where s3: "Within ?s ctx' (execute_callback ?x' c' identity') (None, False, wd_slots wd2) =
      (s3, (Some outcome, True, MarkIdempotency IdempotencyReplayed (wd_slots wd2)), Ok ())" "committed (opened ?s) ?s s3"
    using cb assms(12,13,19)
    by (cases rule: Within_cases [of ?s ctx' "execute_callback ?x' c' identity'" "(None, False, wd_slots wd2)"]) auto
  have "Execute ctx' ?x' c' wd2 = (\<lparr>wd_store = s3, wd_ids = g', wd_slots = MarkIdempotency IdempotencyReplayed (wd_slots wd2),
      wd_trace = wd_trace wd2 @ [BeginOp (c_Operation c')] @ end_calls c' identity' outcome True\<rparr>, Ok outcome)"
    using assms(4,11,14,15,18) s3(1) by (intro Execute_intro [where ctx = ctx']) simp_all
  with s3(2) assms(4,20) show ?thesis
    by (simp add: committed_def opened_def cloneTables_faithful end_calls_def)
qed

definition sample_policy :: IdempotencyPolicy where
  "sample_policy = \<lparr>pol_Wait = 5, pol_Retention = 1000, pol_Digest = Some (\<lambda>_. replicate 32 0)\<rparr>"

definition int_codec :: "int OutcomeCodec" where
  "int_codec = \<lparr>codec_Encode = enc_Int, codec_Decode = dec_Int\<rparr>"

definition sample_command :: "int \<Rightarrow> ((nat, string, unit) Tx, unit, int) Command" where
  "sample_command n = \<lparr>c_Operation = ''orders.AddItem'', c_Object = ''7'', c_Input = (), c_Fingerprint = Some [],
     c_Codec = int_codec, c_Run = (\<lambda>ctx identity tx. (tx, Ok (OAccepted n)))\<rparr>"

definition sample_executor :: "Instant \<Rightarrow> ((nat, string, unit) Store, (nat, string, unit) Tx, memoryPending, SequenceIDs, unit, int) Executor" where
  "sample_executor now = mem_executor ''orders'' now NewMessageID 1 sample_policy AllowAll None"

definition sample_world :: "((nat, string, unit) Store, SequenceIDs) world" where
  "sample_world = \<lparr>wd_store = Store_New, wd_ids = \<lparr>seq_Prefix = ''m-'', seq_issued = 0\<rparr>, wd_slots = no_slots, wd_trace = []\<rparr>"

definition sample_call :: carrier where
  "sample_call = WithIdempotencyKey sample_context ''key-1''"

definition sample_executed :: "((nat, string, unit) Store, SequenceIDs) world \<times> int Outcome result" where
  "sample_executed = Execute sample_call (sample_executor 10) (sample_command 5) sample_world"

lemma sample_executed_Ok: "snd sample_executed = Ok (OAccepted 5)"
  by code_simp

lemma sample_executed_audited:
  "last (wd_trace (fst sample_executed)) =
     AuditOp \<lparr>ae_Object = ''7'', ae_Action = ''orders.AddItem'', ae_Outcome = OutcomeAccepted, ae_At = 10\<rparr>"
  by code_simp

theorem Execute_at_most_once_witness:
  "\<exists>wd3. Execute sample_call (sample_executor 20) (sample_command 99) (fst sample_executed) = (wd3, Ok (OAccepted 5)) \<and>
     st_outbox (wd_store wd3) = st_outbox (wd_store (fst sample_executed))"
proof -
  have first: "Execute sample_call (mem_executor ''orders'' 10 NewMessageID 1 sample_policy AllowAll None) (sample_command 5) sample_world =
      (fst sample_executed, Ok (OAccepted 5))"
    using sample_executed_Ok unfolding sample_executed_def sample_executor_def by (metis prod.collapse)
  have codec: "DecodeOutcome (c_Codec (sample_command 5)) (EncodeOutcome (c_Codec (sample_command 5)) (OAccepted 5)) = Ok (OAccepted 5)"
    by code_simp
  obtain g' identity' where ids: "ResolveIdentity 20 NewMessageID 1 (wd_ids (fst sample_executed)) = (g', Ok identity')"
    using sequence.ResolveIdentity_total [of 1 20 "wd_ids (fst sample_executed)"] by auto
  have "length (st_tables (wd_store (fst sample_executed))) = 0"
    by code_simp
  then have store: "clones_faithful (st_tables (wd_store (fst sample_executed)))"
    by (simp add: clones_faithful_def)
  have commit: "st_failNextCommit (wd_store (fst sample_executed)) = None"
    by code_simp
  have params: "BeginOperation None ctx op = ctx" "c_Operation (sample_command n) = ''orders.AddItem''"
    "c_Fingerprint (sample_command n) = Some []" "c_Codec (sample_command n) = int_codec" "ctx_err sample_call = None"
    "ctx_err_locked sample_call = None" "AllowAll ctx () = Ok ()" "pol_Retention sample_policy = 1000" for ctx op n
    by (simp_all add: BeginOperation_def sample_command_def sample_policy_def sample_call_def WithIdempotencyKey_def
        sample_context_def background_def AllowAll_def)
  from Execute_at_most_once [OF first sample_executed_audited, where c' = "sample_command 99" and ctx' = sample_call and
        policy' = sample_policy and inst' = None and now' = 20 and gen' = NewMessageID and maxEvents' = 1 and authz' = AllowAll,
        OF _ _ _ _ _ codec _ _ _ _ _ _ ids _ _ refl commit store]
  show ?thesis
    by (auto simp: params wrap64_def sample_executor_def)
qed

end
