(* ===== verification/Application_External.thy ===== *)
theory Application_External
  imports Ports_External Application_Codec
begin

text \<open>
  The pure decisions of the external command cycle, \<^verbatim>\<open>libs/backend/go/application\<close>: what follows an
  outcome or a finding (\<^verbatim>\<open>next_step.go\<close>), which partner profiles are admissible
  (\<^verbatim>\<open>external_profile.go\<close>) and how the outbound key derives from the intent (\<^verbatim>\<open>outbound_key.go\<close>).

  The digest of the key policy is code outside the repository's block (SHA-256 realizes it), so it is
  a parameter: a function from bytes to the 32 bytes of \<open>ports.Fingerprint\<close>. An index out of range of
  the alphabet or of the digest is a panic of the model, as it is in Go; that it is never reached is
  part of the theorem.
\<close>

section \<open>Next step\<close>

datatype Step =
  StepConfirm | StepAwait | StepRetry | StepFail | StepQuery | StepReconcile | StepSuspend

fun Step_String :: "Step \<Rightarrow> string" where
  "Step_String StepConfirm = ''confirm''"
| "Step_String StepAwait = ''await''"
| "Step_String StepRetry = ''retry''"
| "Step_String StepFail = ''fail''"
| "Step_String StepQuery = ''query''"
| "Step_String StepReconcile = ''reconcile''"
| "Step_String StepSuspend = ''suspend''"

record StepInput =
  in_Class :: ExternalClass
  in_Finding :: Finding
  in_Profile :: ExternalProfile
  in_QueryAvailable :: bool
  in_QueriesDone :: int

definition awaitOrReconcile :: "StepInput \<Rightarrow> Step" where
  "awaitOrReconcile i =
     (if in_QueriesDone i < prof_MaxQueries (in_Profile i) then StepAwait else StepReconcile)"

definition queryOrReconcile :: "StepInput \<Rightarrow> Step" where
  "queryOrReconcile i =
     (if in_QueryAvailable i \<and> in_QueriesDone i < prof_MaxQueries (in_Profile i) then StepQuery
      else StepReconcile)"

definition stepForFinding :: "StepInput \<Rightarrow> Step" where
  "stepForFinding i =
     (case in_Finding i of
        FindingApplied \<Rightarrow> StepConfirm
      | FindingRejected \<Rightarrow> StepFail
      | FindingAbsent \<Rightarrow>
          if prof_KeySemantics (in_Profile i) = KeyNative \<or> prof_KeySemantics (in_Profile i) = KeyHeader \<or>
             prof_AuthoritativeAbsence (in_Profile i)
          then StepRetry else StepReconcile
      | FindingPending \<Rightarrow> awaitOrReconcile i
      | _ \<Rightarrow> queryOrReconcile i)"

definition NextStep :: "StepInput \<Rightarrow> Step" where
  "NextStep i =
     (if in_Finding i \<noteq> NoFinding then stepForFinding i
      else case in_Class i of
        ClassAccepted \<Rightarrow>
          if prof_Efficacy (in_Profile i) = EfficacyOnSubmit then StepConfirm else awaitOrReconcile i
      | ClassRetryableTransport \<Rightarrow> StepRetry
      | ClassRetryableUpstream \<Rightarrow> StepRetry
      | ClassFinalValidation \<Rightarrow> StepFail
      | ClassFinalBusiness \<Rightarrow> StepFail
      | ClassFinalAuthorization \<Rightarrow> StepFail
      | ClassSchemaMismatch \<Rightarrow> StepSuspend
      | _ \<Rightarrow> queryOrReconcile i)"

section \<open>Profiles\<close>

definition minKeyBits :: nat where "minKeyBits = 128"
definition firstKeySymbol :: nat where "firstKeySymbol = 0x21"
definition lastKeySymbol :: nat where "lastKeySymbol = 0x7E"

fun symbolBits_loop :: "nat \<Rightarrow> nat \<Rightarrow> nat" where
  "symbolBits_loop bits n = (if n > 1 then symbolBits_loop (bits + 1) (n div 2) else bits)"

declare symbolBits_loop.simps [simp del]

definition symbolBits :: "string \<Rightarrow> nat" where
  "symbolBits alphabet = symbolBits_loop 0 (length alphabet)"

text \<open>The array \<open>seen\<close> indexed by byte is the list of the bytes already marked.\<close>

fun alphabet_scan :: "char list \<Rightarrow> string \<Rightarrow> unit result" where
  "alphabet_scan seen [] = Ok ()"
| "alphabet_scan seen (b # bs) =
     (if of_char b < firstKeySymbol \<or> of_char b > lastKeySymbol
        then FailWith ErrInvalidExternalProfile ''alphabet byte is not visible ASCII''
      else if b \<in> set seen then FailWith ErrInvalidExternalProfile ''alphabet repeats''
      else alphabet_scan (b # seen) bs)"

definition validateKeyAlphabet :: "string \<Rightarrow> unit result" where
  "validateKeyAlphabet alphabet =
     res_bind (alphabet_scan [] alphabet) (\<lambda>_.
       if symbolBits alphabet = 0
         then FailWith ErrInvalidExternalProfile ''alphabet carries no bit'' else Ok ())"

definition ValidateExternalProfile :: "ExternalProfile \<Rightarrow> unit result" where
  "ValidateExternalProfile p =
     (if \<not> (prof_KeySemantics p = KeyNative \<or> prof_KeySemantics p = KeyHeader \<or> prof_KeySemantics p = KeyNone)
        then FailWith ErrInvalidExternalProfile ''key semantics undeclared''
      else if \<not> (prof_Efficacy p = EfficacyOnSubmit \<or> prof_Efficacy p = EfficacyByObservation)
        then FailWith ErrInvalidExternalProfile ''efficacy undeclared''
      else if prof_Quiescence p < 0 then FailWith ErrInvalidExternalProfile ''negative quiescence''
      else if prof_MaxQueries p \<le> 0 then FailWith ErrInvalidExternalProfile ''query ceiling not positive''
      else res_bind (validateKeyAlphabet (prof_KeyAlphabet p)) (\<lambda>_.
        let bits = symbolBits (prof_KeyAlphabet p); minLength = (minKeyBits + bits - 1) div bits in
        if prof_KeyMaxLength p < int minLength
          then FailWith ErrInvalidExternalProfile ''key is below the floor'' else Ok ()))"

section \<open>Outbound keys\<close>

definition outboundKeyDomain :: string where
  "outboundKeyDomain = ''dmpf.outbound-key''"

definition digestBits :: nat where
  "digestBits = 32 * 8"

record OutboundKeyPolicy =
  okp_Digest :: "(bytes \<Rightarrow> bytes) option"

record OutboundIntent =
  oi_Tenant :: string
  oi_Destination :: string
  oi_Operation :: string
  oi_IntentID :: string
  oi_Generation :: int

definition validateOutboundIntent :: "OutboundIntent \<Rightarrow> unit result" where
  "validateOutboundIntent intent =
     (if oi_IntentID intent = [] then FailWith ErrIncompleteOutboundIntent ''empty intent id''
      else if oi_Destination intent = [] then FailWith ErrIncompleteOutboundIntent ''empty destination''
      else if oi_Operation intent = [] then FailWith ErrIncompleteOutboundIntent ''empty operation''
      else if oi_Generation intent < 0 then FailWith ErrIncompleteOutboundIntent ''negative generation''
      else Ok ())"

primrec readBits_loop :: "bytes \<Rightarrow> nat \<Rightarrow> nat \<Rightarrow> nat \<Rightarrow> nat result" where
  "readBits_loop digest 0 i acc = Ok acc"
| "readBits_loop digest (Suc k) i acc =
     (if i div 8 < length digest
      then readBits_loop digest k (i + 1)
        (push_bit 1 acc OR unat (drop_bit (7 - i mod 8) (digest ! (i div 8)) AND 1))
      else Panic ''index out of range'')"

definition readBits :: "bytes \<Rightarrow> nat \<Rightarrow> nat \<Rightarrow> nat result" where
  "readBits digest offset width = readBits_loop digest width offset 0"

fun key_symbols :: "string \<Rightarrow> bytes \<Rightarrow> nat \<Rightarrow> nat list \<Rightarrow> string result" where
  "key_symbols alphabet digest bits [] = Ok []"
| "key_symbols alphabet digest bits (i # is) =
     res_bind (readBits digest (i * bits) bits) (\<lambda>v.
       if v < length alphabet
       then res_map (\<lambda>key. alphabet ! v # key) (key_symbols alphabet digest bits is)
       else Panic ''index out of range'')"

definition outbound_canonical :: "OutboundIntent \<Rightarrow> bytes" where
  "outbound_canonical intent =
     fp_Int (oi_Generation intent)
       (fp_String (oi_IntentID intent)
         (fp_String (oi_Operation intent)
           (fp_String (oi_Destination intent)
             (fp_String (oi_Tenant intent) (NewFingerprint outboundKeyDomain)))))"

definition DeriveOutboundKey :: "OutboundKeyPolicy \<Rightarrow> ExternalProfile \<Rightarrow> OutboundIntent \<Rightarrow> OutboundKey result" where
  "DeriveOutboundKey policy profile intent =
     res_bind (validateOutboundIntent intent) (\<lambda>_.
       case okp_Digest policy of
         None \<Rightarrow> Fail ErrIncompleteOutboundPolicy
       | Some Digest \<Rightarrow>
           res_bind (ValidateExternalProfile profile) (\<lambda>_.
             let digest = Digest (outbound_canonical intent);
                 bits = symbolBits (prof_KeyAlphabet profile);
                 n = min (prof_KeyMaxLength profile) (int (digestBits div bits)) in
             if n < 0 then Panic ''makeslice: len out of range''
             else key_symbols (prof_KeyAlphabet profile) digest bits [0 ..< nat n]))"

section \<open>Outbound keys identify their intent\<close>

lemma symbolBits_loop_acc: "symbolBits_loop bits n = bits + symbolBits_loop 0 n"
proof (induction n arbitrary: bits rule: less_induct)
  case (less n)
  show ?case
  proof (cases "n > 1")
    case True
    then have "n div 2 < n"
      by simp
    with True less [of "n div 2" "bits + 1"] less [of "n div 2" 1] show ?thesis
      by (simp add: symbolBits_loop.simps [of _ n])
  qed (simp add: symbolBits_loop.simps [of _ n])
qed

lemma symbolBits_loop_log:
  "0 < n \<Longrightarrow> 2 ^ symbolBits_loop 0 n \<le> n \<and> n < 2 ^ (symbolBits_loop 0 n + 1)"
proof (induction n rule: less_induct)
  case (less n)
  show ?case
  proof (cases "n > 1")
    case True
    then have eq: "symbolBits_loop 0 n = 1 + symbolBits_loop 0 (n div 2)"
      by (simp add: symbolBits_loop.simps [of 0 n] symbolBits_loop_acc [of "Suc 0"])
    moreover have "2 ^ symbolBits_loop 0 (n div 2) \<le> n div 2 \<and> n div 2 < 2 ^ (symbolBits_loop 0 (n div 2) + 1)"
      using True less by simp
    ultimately show ?thesis
      by auto
  next
    case False
    with less.prems show ?thesis
      by (simp add: symbolBits_loop.simps [of 0 n])
  qed
qed

lemma alphabet_scan_Ok:
  "alphabet_scan seen bs = Ok u \<Longrightarrow>
     distinct bs \<and> set seen \<inter> set bs = {} \<and> (\<forall>b \<in> set bs. of_char b \<in> {firstKeySymbol .. lastKeySymbol})"
  by (induction seen bs rule: alphabet_scan.induct) (auto split: if_splits)

lemma alphabet_scan_no_panic: "alphabet_scan seen bs \<noteq> Panic m"
  by (induction seen bs rule: alphabet_scan.induct) auto

lemma visible_alphabet_length:
  assumes "distinct bs" "\<forall>b \<in> set bs. of_char b \<in> {firstKeySymbol .. lastKeySymbol}"
  shows "length bs \<le> 94"
proof -
  have "card (of_char ` set bs :: nat set) \<le> card {firstKeySymbol .. lastKeySymbol}"
    using assms(2) by (intro card_mono) auto
  moreover have "card (of_char ` set bs :: nat set) = length bs"
    using assms(1) by (simp add: card_image distinct_card inj_on_def)
  ultimately show ?thesis
    by (simp add: firstKeySymbol_def lastKeySymbol_def)
qed

definition profile_ok :: "ExternalProfile \<Rightarrow> bool" where
  "profile_ok p \<longleftrightarrow> ValidateExternalProfile p = Ok ()"

lemma profile_ok_bits:
  assumes "profile_ok p"
  defines "bits \<equiv> symbolBits (prof_KeyAlphabet p)"
  shows "0 < bits" "bits \<le> 6" "2 ^ bits \<le> length (prof_KeyAlphabet p)"
    "int ((127 + bits) div bits) \<le> prof_KeyMaxLength p" "distinct (prof_KeyAlphabet p)"
proof -
  from assms have scan: "alphabet_scan [] (prof_KeyAlphabet p) = Ok ()" and pos: "0 < bits"
    and len: "int ((minKeyBits + bits - 1) div bits) \<le> prof_KeyMaxLength p"
    by (auto simp: profile_ok_def ValidateExternalProfile_def validateKeyAlphabet_def Let_def split: if_splits)
  from pos len show "0 < bits" "int ((127 + bits) div bits) \<le> prof_KeyMaxLength p"
    by (simp_all add: minKeyBits_def)
  from alphabet_scan_Ok [OF scan] show "distinct (prof_KeyAlphabet p)" by simp
  from alphabet_scan_Ok [OF scan] have "length (prof_KeyAlphabet p) \<le> 94"
    using visible_alphabet_length by blast
  moreover have "0 < length (prof_KeyAlphabet p)"
    using pos by (cases "prof_KeyAlphabet p") (simp_all add: bits_def symbolBits_def symbolBits_loop.simps)
  ultimately show two: "2 ^ bits \<le> length (prof_KeyAlphabet p)"
    and "bits \<le> 6"
    using symbolBits_loop_log [of "length (prof_KeyAlphabet p)"] power_increasing [of 7 bits "2 :: nat"]
    by (fastforce simp: bits_def symbolBits_def)+
qed

text \<open>The bit at position \<open>i\<close> of a digest, most significant first, and the number a run of them spells.\<close>

definition digest_bit :: "bytes \<Rightarrow> nat \<Rightarrow> bool" where
  "digest_bit digest i \<longleftrightarrow> bit (digest ! (i div 8)) (7 - i mod 8)"

primrec bits_value :: "bytes \<Rightarrow> nat \<Rightarrow> nat \<Rightarrow> nat" where
  "bits_value digest i 0 = 0"
| "bits_value digest i (Suc k) = of_bool (digest_bit digest i) * 2 ^ k + bits_value digest (i + 1) k"

lemma read_step: "push_bit (Suc 0) acc OR unat (drop_bit k w AND 1) = 2 * acc + of_bool (bit (w :: 8 word) k)"
proof -
  have "unat (drop_bit k w AND 1) = of_bool (bit w k)"
    by (simp add: and_one_eq bit_iff_odd_drop_bit odd_iff_mod_2_eq_one)
  moreover have "2 * acc OR 1 = 2 * acc + 1"
    by (simp only: or_one_eq) simp
  moreover have "push_bit (Suc 0) acc = 2 * acc"
    by (simp add: push_bit_eq_mult)
  ultimately show ?thesis
    by (cases "bit w k") (simp_all only: of_bool_eq or.right_neutral add_0_right)
qed

lemma bits_value_less: "bits_value digest i k < 2 ^ k"
proof (induction k arbitrary: i)
  case (Suc k)
  have "bits_value digest (i + 1) k < 2 ^ k"
    by (rule Suc.IH)
  then show ?case
    by (cases "digest_bit digest i") simp_all
qed simp

lemma readBits_loop_value:
  "i + k \<le> 8 * length digest \<Longrightarrow>
   readBits_loop digest k i acc = Ok (acc * 2 ^ k + bits_value digest i k)"
proof (induction k arbitrary: i acc)
  case (Suc k)
  then have "i div 8 < length digest"
    by simp
  then have "readBits_loop digest (Suc k) i acc =
      readBits_loop digest k (i + 1) (2 * acc + of_bool (digest_bit digest i))"
    by (simp only: readBits_loop.simps if_True read_step digest_bit_def One_nat_def)
  with Suc show ?case
    by (simp add: algebra_simps del: readBits_loop.simps)
qed simp

lemma bits_value_inject:
  "bits_value d i k = bits_value d' i k \<Longrightarrow> \<forall>j < k. digest_bit d (i + j) = digest_bit d' (i + j)"
proof (induction k arbitrary: i)
  case (Suc k)
  have "bits_value d (i + 1) k < 2 ^ k" "bits_value d' (i + 1) k < 2 ^ k"
    by (rule bits_value_less)+
  with Suc.prems have head: "digest_bit d i = digest_bit d' i" and "bits_value d (i + 1) k = bits_value d' (i + 1) k"
    by (cases "digest_bit d i"; cases "digest_bit d' i"; simp)+
  with Suc.IH [of "i + 1"] have "\<forall>j < k. digest_bit d (Suc (i + j)) = digest_bit d' (Suc (i + j))"
    by simp
  with head show ?case
    by (metis Suc_less_eq add_Suc_right add_0_right less_Suc_eq_0_disj)
qed simp

lemma key_symbols_value:
  assumes "2 ^ bits \<le> length alphabet" "\<forall>i \<in> set is. (i + 1) * bits \<le> 8 * length digest"
  shows "key_symbols alphabet digest bits is = Ok (map (\<lambda>i. alphabet ! bits_value digest (i * bits) bits) is)"
  using assms(2)
proof (induction "is")
  case (Cons i "is")
  have "readBits digest (i * bits) bits = Ok (bits_value digest (i * bits) bits)"
    using Cons.prems by (simp add: readBits_def readBits_loop_value algebra_simps)
  moreover have "bits_value digest (i * bits) bits < length alphabet"
    using bits_value_less assms(1) by (rule less_le_trans)
  ultimately show ?case
    using Cons by simp
qed simp

definition key_length :: "ExternalProfile \<Rightarrow> nat" where
  "key_length p = nat (min (prof_KeyMaxLength p) (int (digestBits div symbolBits (prof_KeyAlphabet p))))"

lemma key_length_bounds:
  assumes "profile_ok p"
  defines "bits \<equiv> symbolBits (prof_KeyAlphabet p)"
  shows "128 \<le> key_length p * bits" "key_length p * bits \<le> 256" "0 \<le> prof_KeyMaxLength p"
    "int (key_length p) \<le> prof_KeyMaxLength p"
proof -
  note b = profile_ok_bits [OF assms(1), folded bits_def]
  then show nonneg: "0 \<le> prof_KeyMaxLength p" by linarith
  have "key_length p \<le> 256 div bits"
    by (simp add: key_length_def digestBits_def bits_def nat_le_iff)
  then have "key_length p * bits \<le> 256 div bits * bits"
    by (rule mult_le_mono1)
  also have "\<dots> \<le> 256" by simp
  finally show "key_length p * bits \<le> 256" .
  have "128 \<le> (127 + bits) div bits * bits"
    using b(1) div_mult_mod_eq [of "127 + bits" bits] mod_less_divisor [of bits "127 + bits"] by linarith
  moreover have "128 \<le> 256 div bits * bits"
    using b(1,2) div_mult_mod_eq [of 256 bits] mod_less_divisor [of bits 256] by linarith
  moreover have "key_length p = min (nat (prof_KeyMaxLength p)) (256 div bits)"
    using nonneg by (simp add: key_length_def digestBits_def bits_def min_def nat_le_iff le_nat_iff)
  moreover have "(127 + bits) div bits \<le> nat (prof_KeyMaxLength p)"
    using b(4) by simp
  ultimately show "128 \<le> key_length p * bits"
    by (metis le_trans min_def mult_le_mono1)
  show "int (key_length p) \<le> prof_KeyMaxLength p"
    using nonneg by (simp add: key_length_def)
qed

lemma DeriveOutboundKey_value:
  assumes "validateOutboundIntent intent = Ok ()" "okp_Digest policy = Some Digest" "profile_ok p"
    "length (Digest (outbound_canonical intent)) = 32"
  defines "bits \<equiv> symbolBits (prof_KeyAlphabet p)"
  shows "DeriveOutboundKey policy p intent =
    Ok (map (\<lambda>i. prof_KeyAlphabet p ! bits_value (Digest (outbound_canonical intent)) (i * bits) bits)
      [0 ..< key_length p])"
proof -
  have "(i + 1) * bits \<le> 256" if "i < key_length p" for i
  proof -
    have "(i + 1) * bits \<le> key_length p * bits"
      using that by (intro mult_le_mono1) simp
    with key_length_bounds(2) [OF assms(3)] show ?thesis
      by (simp add: bits_def)
  qed
  then have "key_symbols (prof_KeyAlphabet p) (Digest (outbound_canonical intent)) bits [0 ..< key_length p] =
    Ok (map (\<lambda>i. prof_KeyAlphabet p ! bits_value (Digest (outbound_canonical intent)) (i * bits) bits) [0 ..< key_length p])"
    using profile_ok_bits(3) [OF assms(3)] assms(4) by (intro key_symbols_value) (auto simp: bits_def)
  then show ?thesis
    using assms(1,2,3) key_length_bounds(3) [OF assms(3)]
    by (simp add: DeriveOutboundKey_def profile_ok_def key_length_def bits_def Let_def)
qed

text \<open>What the Go types bound: the strings of an intent and its \<open>int64\<close> generation.\<close>

definition intent_ok :: "OutboundIntent \<Rightarrow> bool" where
  "intent_ok i \<longleftrightarrow> go_string (oi_Tenant i) \<and> go_string (oi_Destination i) \<and> go_string (oi_Operation i) \<and>
     go_string (oi_IntentID i) \<and> int64 (oi_Generation i)"

lemma outbound_canonical_fields:
  "outbound_canonical i = fp_of [FString outboundKeyDomain, FString (oi_Tenant i), FString (oi_Destination i),
     FString (oi_Operation i), FString (oi_IntentID i), FInt (oi_Generation i)]"
  by (simp add: outbound_canonical_def NewFingerprint_def fp_of_def)

lemma outbound_canonical_inject:
  assumes "intent_ok i" "intent_ok j"
  shows "outbound_canonical i = outbound_canonical j \<longleftrightarrow> i = j"
proof
  assume "outbound_canonical i = outbound_canonical j"
  then have "[FString outboundKeyDomain, FString (oi_Tenant i), FString (oi_Destination i),
      FString (oi_Operation i), FString (oi_IntentID i), FInt (oi_Generation i)] =
    [FString outboundKeyDomain, FString (oi_Tenant j), FString (oi_Destination j),
      FString (oi_Operation j), FString (oi_IntentID j), FInt (oi_Generation j)]"
    unfolding outbound_canonical_fields fp_of_bytes
    using assms by (intro fp_concat_inject) (simp_all add: intent_ok_def go_string_def outboundKeyDomain_def)
  then show "i = j"
    by (simp add: OutboundIntent.equality)
qed simp

lemma ValidateExternalProfile_no_panic: "ValidateExternalProfile p \<noteq> Panic m"
  using alphabet_scan_no_panic [of "[]" "prof_KeyAlphabet p"]
  by (auto simp: ValidateExternalProfile_def validateKeyAlphabet_def Let_def
      split: if_splits elim!: res_bind.elims)

lemma ValidateExternalProfile_Err:
  "ValidateExternalProfile p = Err e \<Longrightarrow> errors_Is e ErrInvalidExternalProfile"
proof -
  have scan: "alphabet_scan seen bs = Err e \<Longrightarrow> errors_Is e ErrInvalidExternalProfile" for seen bs
    by (induction seen bs rule: alphabet_scan.induct) (auto split: if_splits)
  assume "ValidateExternalProfile p = Err e"
  then show ?thesis
    by (auto simp: ValidateExternalProfile_def validateKeyAlphabet_def Let_def
      split: if_splits elim!: res_bind.elims dest: scan)
qed

text \<open>
  Deriving the outbound key. Over a 32-byte digest the derivation never indexes out of range. It
  returns a key exactly for a complete intent under an admissible profile; that key is drawn from the
  first \<open>2^b\<close> symbols of the partner's alphabet, respects the partner's length and carries at least 128
  bits of the digest.
\<close>

theorem DeriveOutboundKey_characterised:
  assumes "\<And>c. length (Digest c) = 32"
  shows "case DeriveOutboundKey \<lparr>okp_Digest = Some Digest\<rparr> p intent of
      Ok key \<Rightarrow> validateOutboundIntent intent = Ok () \<and> ValidateExternalProfile p = Ok () \<and>
        128 \<le> length key * symbolBits (prof_KeyAlphabet p) \<and> int (length key) \<le> prof_KeyMaxLength p \<and>
        set key \<subseteq> set (take (2 ^ symbolBits (prof_KeyAlphabet p)) (prof_KeyAlphabet p))
    | Err e \<Rightarrow> validateOutboundIntent intent = Err e \<or> ValidateExternalProfile p = Err e
    | Panic _ \<Rightarrow> False"
proof (cases "validateOutboundIntent intent")
  case (Err e)
  then show ?thesis
    by (simp add: DeriveOutboundKey_def)
next
  case (Panic m)
  then show ?thesis
    by (simp add: validateOutboundIntent_def split: if_splits)
next
  case (Ok u)
  show ?thesis
  proof (cases "profile_ok p")
    case False
    with Ok ValidateExternalProfile_no_panic show ?thesis
      by (cases "ValidateExternalProfile p") (simp_all add: DeriveOutboundKey_def profile_ok_def)
  next
    case True
    let ?bits = "symbolBits (prof_KeyAlphabet p)" and ?d = "Digest (outbound_canonical intent)"
    have "prof_KeyAlphabet p ! bits_value ?d (i * ?bits) ?bits \<in> set (take (2 ^ ?bits) (prof_KeyAlphabet p))" for i
      using bits_value_less [of ?d "i * ?bits" ?bits] profile_ok_bits(3) [OF True]
      by (auto simp: in_set_conv_nth intro!: exI [of _ "bits_value ?d (i * ?bits) ?bits"])
    with DeriveOutboundKey_value [of intent "\<lparr>okp_Digest = Some Digest\<rparr>" Digest p] True Ok assms
      key_length_bounds [OF True]
    show ?thesis
      by (auto simp: profile_ok_def)
  qed
qed

definition sample_profile :: ExternalProfile where
  "sample_profile = \<lparr>prof_KeySemantics = KeyHeader, prof_Efficacy = EfficacyOnSubmit, prof_Quiescence = 0,
     prof_AuthoritativeAbsence = False, prof_MaxQueries = 3, prof_KeyAlphabet = ''0123456789abcdef'',
     prof_KeyMaxLength = 40\<rparr>"

definition sample_intent :: OutboundIntent where
  "sample_intent = \<lparr>oi_Tenant = ''t-1'', oi_Destination = ''payments'', oi_Operation = ''charge'',
     oi_IntentID = ''i-1'', oi_Generation = 0\<rparr>"

lemma sample_profile_ok: "ValidateExternalProfile sample_profile = Ok ()"
  by code_simp

lemma sample_intent_ok: "validateOutboundIntent sample_intent = Ok ()" "intent_ok sample_intent"
  by (simp_all add: sample_intent_def validateOutboundIntent_def intent_ok_def go_string_def int64_def)

theorem DeriveOutboundKey_characterised_witness:
  "\<exists>key. DeriveOutboundKey \<lparr>okp_Digest = Some (\<lambda>c. replicate 32 0)\<rparr> sample_profile sample_intent = Ok key \<and>
     128 \<le> length key * symbolBits (prof_KeyAlphabet sample_profile)"
  using DeriveOutboundKey_characterised [of "\<lambda>c. replicate 32 0" sample_intent sample_profile]
    sample_profile_ok sample_intent_ok
  by (simp split: res.splits)

text \<open>
  The outbound key identifies its intent up to the digest. When two intents derive the same key
  under one profile, the digests of their canonical encodings agree on their first 128 bits; and those
  encodings are the same only for the same intent. So two distinct intents share a key only when the
  digest collides on 128 bits.
\<close>

theorem outbound_key_identifies_intent:
  assumes "\<And>c. length (Digest c) = 32" and "intent_ok i" and "intent_ok j"
    and "DeriveOutboundKey \<lparr>okp_Digest = Some Digest\<rparr> p i = Ok key"
    and "DeriveOutboundKey \<lparr>okp_Digest = Some Digest\<rparr> p j = Ok key"
  shows "(\<forall>n < 128. digest_bit (Digest (outbound_canonical i)) n = digest_bit (Digest (outbound_canonical j)) n) \<and>
    (outbound_canonical i = outbound_canonical j) = (i = j)"
proof -
  let ?bits = "symbolBits (prof_KeyAlphabet p)" and ?al = "prof_KeyAlphabet p"
  let ?d = "Digest (outbound_canonical i)" and ?e = "Digest (outbound_canonical j)"
  have ok: "profile_ok p" "validateOutboundIntent i = Ok ()" "validateOutboundIntent j = Ok ()"
    using assms(4,5) by (auto simp: DeriveOutboundKey_def profile_ok_def)
  have eq: "map (\<lambda>n. ?al ! bits_value ?d (n * ?bits) ?bits) [0 ..< key_length p] =
      map (\<lambda>n. ?al ! bits_value ?e (n * ?bits) ?bits) [0 ..< key_length p]"
    using DeriveOutboundKey_value [OF ok(2) _ ok(1)] DeriveOutboundKey_value [OF ok(3) _ ok(1)] assms(1,4,5)
    by simp
  have val: "bits_value ?d (n * ?bits) ?bits = bits_value ?e (n * ?bits) ?bits" if "n < key_length p" for n
  proof -
    have "?al ! bits_value ?d (n * ?bits) ?bits = ?al ! bits_value ?e (n * ?bits) ?bits"
      using eq that by (simp add: map_eq_conv)
    moreover have "bits_value x (n * ?bits) ?bits < length ?al" for x
      using bits_value_less profile_ok_bits(3) [OF ok(1)] by (rule less_le_trans)
    ultimately show ?thesis
      using profile_ok_bits(5) [OF ok(1)] by (simp add: nth_eq_iff_index_eq)
  qed
  have "digest_bit ?d n = digest_bit ?e n" if "n < 128" for n
  proof -
    have pos: "0 < ?bits" using profile_ok_bits(1) [OF ok(1)] .
    have "n < key_length p * ?bits"
      using key_length_bounds(1) [OF ok(1)] that by simp
    then have "n div ?bits < key_length p"
      using pos by (simp add: less_mult_imp_div_less)
    from bits_value_inject [OF val [OF this]] have "digest_bit ?d (n div ?bits * ?bits + n mod ?bits) =
        digest_bit ?e (n div ?bits * ?bits + n mod ?bits)"
      using mod_less_divisor [OF pos, of n] by blast
    then show ?thesis by simp
  qed
  with outbound_canonical_inject [OF assms(2,3)] show ?thesis by blast
qed

theorem outbound_key_identifies_intent_witness:
  "outbound_canonical sample_intent \<noteq> outbound_canonical (sample_intent\<lparr>oi_IntentID := ''i-2''\<rparr>) \<and>
   digest_bit (replicate 32 0) 5 = digest_bit (replicate 32 0) 5"
proof -
  let ?D = "\<lambda>c :: bytes. replicate 32 (0 :: 8 word)" and ?j = "sample_intent\<lparr>oi_IntentID := ''i-2''\<rparr>"
  have j: "validateOutboundIntent ?j = Ok ()" "intent_ok ?j"
    by (simp_all add: sample_intent_def validateOutboundIntent_def intent_ok_def go_string_def int64_def)
  obtain key where "DeriveOutboundKey \<lparr>okp_Digest = Some ?D\<rparr> sample_profile sample_intent = Ok key"
    "DeriveOutboundKey \<lparr>okp_Digest = Some ?D\<rparr> sample_profile ?j = Ok key"
    using DeriveOutboundKey_value [of sample_intent "\<lparr>okp_Digest = Some ?D\<rparr>" ?D sample_profile]
      DeriveOutboundKey_value [of ?j "\<lparr>okp_Digest = Some ?D\<rparr>" ?D sample_profile]
      sample_profile_ok sample_intent_ok j by (simp add: profile_ok_def)
  from outbound_key_identifies_intent [OF _ sample_intent_ok(2) j(2) this] show ?thesis
    by (simp add: sample_intent_def)
qed

end
