(* ===== verification/Application_Cycle.thy ===== *)
theory Application_Cycle
  imports Application_UseCase Application_External
begin

text \<open>
  The external command cycle of \<^verbatim>\<open>libs/backend/go/application\<close>: \<open>Dispatch\<close> (\<^verbatim>\<open>dispatch.go\<close>) begins an
  attempt, calls the partner outside any transaction and settles the outcome in one; \<open>Abandon\<close>
  (\<^verbatim>\<open>abandon.go\<close>) closes an attempt nobody finished; \<open>Resolve\<close> (\<^verbatim>\<open>resolve.go\<close>) records an observation; and
  \<open>SweepStale\<close> (\<^verbatim>\<open>sweep.go\<close>) walks one page of begun attempts.

  The dependencies of each struct are functions over the store \<open>'st\<close> and the transaction \<open>'tx\<close>; the checks that
  an interface field is not nil are the flags \<open>d_wired1\<close> and following, one per case of \<open>validate\<close>. The partner
  is the parameter \<open>d_Submit\<close>. The clock may answer differently on each reading, so it is a function of the
  number of readings, which the world counts. What a use case marks on its context is the record \<open>slots\<close>.
\<close>

section \<open>Values\<close>

record ExternalStep =
  es_Step :: Step
  es_Attempt :: Attempt
  es_Class :: ExternalClass
  es_Observation :: Observation

definition finished_zero :: Finished where
  "finished_zero = \<lparr>fin_Result = NoFinish, fin_Recorded = NoClass\<rparr>"

definition observed_zero :: Observed where
  "observed_zero = \<lparr>obd_Result = NoObserve, obd_N = 0, obd_Class = NoClass, obd_QueriesDone = 0\<rparr>"

record settlement =
  set_attempt :: Attempt
  set_class :: ExternalClass
  set_observation :: Observation
  set_owned :: bool
  set_presumed :: bool

definition settlement_outcome :: "settlement \<Rightarrow> OutboundKey \<Rightarrow> Instant \<Rightarrow> AttemptOutcome" where
  "settlement_outcome s key at =
     \<lparr>out_Key = key, out_N = att_N (set_attempt s), out_Class = set_class s, out_Observation = set_observation s,
      out_FinishedAt = at, out_Presumed = set_presumed s\<rparr>"

record 'st xworld =
  xw_store :: 'st
  xw_slots :: slots
  xw_trace :: "inst_call list"
  xw_ticks :: nat

definition xtraced :: "inst_call list \<Rightarrow> 'st xworld \<Rightarrow> 'st xworld" where
  "xtraced calls w = w\<lparr>xw_trace := xw_trace w @ calls\<rparr>"

definition operationResult :: "gerr option \<Rightarrow> Result" where
  "operationResult e =
     (case e of
        Some err \<Rightarrow> \<lparr>result_Outcome = OutcomeFailed, result_Err = Some err\<rparr>
      | None \<Rightarrow> \<lparr>result_Outcome = OutcomeAccepted, result_Err = None\<rparr>)"

section \<open>Dispatch\<close>

record ('st, 'tx, 'p) ExternalDispatch =
  d_wired1 :: bool
  d_wired2 :: bool
  d_wired3 :: bool
  d_UoW :: "('st, 'tx, Disposition \<times> Finished \<times> nat) unit_of_work"
  d_Begin :: "'st \<Rightarrow> carrier \<Rightarrow> OutboundKey \<Rightarrow> MessageID \<Rightarrow> Instant \<Rightarrow> 'st \<times> AttemptStart result"
  d_Finish :: "'st \<Rightarrow> carrier \<Rightarrow> AttemptOutcome \<Rightarrow> 'st \<times> Finished result"
  d_Ledger :: "carrier \<Rightarrow> AttemptOutcome \<Rightarrow> 'tx \<Rightarrow> 'tx \<times> Finished result"
  d_Register :: "carrier \<Rightarrow> Receipt \<Rightarrow> 'tx \<Rightarrow> 'tx \<times> 'p Reception result"
  d_Complete :: "'p \<Rightarrow> Completion \<Rightarrow> 'tx \<Rightarrow> 'p \<times> 'tx \<times> unit result"
  d_Completed :: "'p \<Rightarrow> bool"
  d_Receipt :: Receipt
  d_Submit :: "carrier \<Rightarrow> OutboundKey \<Rightarrow> bytes \<Rightarrow> ExternalClass \<times> Observation \<times> gerr option"
  d_Key :: OutboundKey
  d_Payload :: bytes
  d_Profile :: ExternalProfile
  d_QueryAvailable :: bool
  d_StaleAfter :: int
  d_Clock :: "nat \<Rightarrow> Instant"
  d_SettleContext :: "carrier \<Rightarrow> carrier"
  d_Instrumentation :: "carrier \<Rightarrow> string \<Rightarrow> carrier"
  d_Apply :: "carrier \<Rightarrow> ExternalStep \<Rightarrow> 'tx \<Rightarrow> 'tx \<times> unit result"

definition dispatch_validate :: "('st, 'tx, 'p) ExternalDispatch \<Rightarrow> unit result" where
  "dispatch_validate d =
     (if \<not> d_wired1 d then FailWith ErrIncompleteDispatch ''a transaction, a store and both accessors are required''
      else if \<not> d_wired2 d then FailWith ErrIncompleteDispatch ''a command, a clock and an apply are required''
      else if \<not> d_wired3 d then FailWith ErrIncompleteDispatch ''a settle context and an instrumentation are required''
      else if d_Key d = [] then FailWith ErrIncompleteDispatch ''no outbound key''
      else if d_StaleAfter d \<le> 0 then FailWith ErrIncompleteDispatch ''stale cutoff''
      else ValidateExternalProfile (d_Profile d))"

text \<open>\<open>context.WithoutCancel\<close>: the derived context is never done.\<close>

definition WithoutCancel :: "carrier \<Rightarrow> carrier" where
  "WithoutCancel ctx = ctx\<lparr>ctx_err := None, ctx_err_locked := None\<rparr>"

definition settleContext :: "('st, 'tx, 'p) ExternalDispatch \<Rightarrow> carrier \<Rightarrow> carrier" where
  "settleContext d ctx = d_SettleContext d (WithoutCancel ctx)"

definition dispatch_resume :: "('st, 'tx, 'p) ExternalDispatch \<Rightarrow> Attempt \<Rightarrow> 'st xworld \<Rightarrow> 'st xworld \<times> settlement result" where
  "dispatch_resume d a w =
     (let now = d_Clock d (xw_ticks w); w' = w\<lparr>xw_ticks := xw_ticks w + 1\<rparr> in
      if wrap64 (now - att_StartedAt a) < d_StaleAfter d
      then (w', Err (NewFailure TransientDependency True (Some (Wrapped ''application: dispatch: attempt'' [Sentinel ErrAttemptInFlight]))))
      else (w', Ok \<lparr>set_attempt = a, set_class = ClassUnknownSent, set_observation = obs_zero, set_owned = True, set_presumed = True\<rparr>))"

definition mark_finish_result :: "FinishResult \<Rightarrow> slots \<Rightarrow> slots" where
  "mark_finish_result r sl =
     (case r of FinishConflict \<Rightarrow> MarkExternalConflict sl | FinishSaturated \<Rightarrow> MarkExternalSaturation sl | _ \<Rightarrow> sl)"

definition dispatch_submit :: "('st, 'tx, 'p) ExternalDispatch \<Rightarrow> carrier \<Rightarrow> Attempt \<Rightarrow> 'st xworld \<Rightarrow> 'st xworld \<times> settlement result" where
  "dispatch_submit d ctx a w =
     (let (submitted, observation, cause) = d_Submit d ctx (d_Key d) (d_Payload d);
          c = (if submitted = NoClass then ClassUnknownAmbiguous else submitted);
          s = \<lparr>set_attempt = a, set_class = c, set_observation = observation, set_owned = True, set_presumed = False\<rparr> in
      if \<not> Retryable c then (w, Ok s)
      else
        let w1 = w\<lparr>xw_slots := MarkExternalClass c (xw_slots w), xw_ticks := xw_ticks w + 1\<rparr> in
        (case d_Finish d (xw_store w1) (settleContext d ctx) (settlement_outcome s (d_Key d) (d_Clock d (xw_ticks w))) of
           (st, Err e) \<Rightarrow> (w1\<lparr>xw_store := st\<rparr>, Err (Wrapped ''application: dispatch: finish attempt'' [e]))
         | (st, Panic m) \<Rightarrow> (w1\<lparr>xw_store := st\<rparr>, Panic m)
         | (st, Ok finished) \<Rightarrow>
             let w2 = w1\<lparr>xw_store := st, xw_slots := mark_finish_result (fin_Result finished) (xw_slots w1)\<rparr> in
             if fin_Result finished \<noteq> FinishRecorded \<and> \<not> Retryable (fin_Recorded finished)
             then (w2, Ok (s\<lparr>set_class := fin_Recorded finished\<rparr>))
             else (w2, Err (NewFailure TransientDependency True cause))))"

type_synonym 'tx settling = "'tx \<times> Disposition \<times> Finished \<times> nat"

definition dispatch_close :: "('st, 'tx, 'p) ExternalDispatch \<Rightarrow> carrier \<Rightarrow> settlement \<Rightarrow> Disposition \<Rightarrow> 'tx settling \<Rightarrow> 'tx settling \<times> unit result" where
  "dispatch_close d ctx s code v =
     (case v of (tx, _, _, ticks) \<Rightarrow>
        if \<not> set_owned s then ((tx, code, finished_zero, ticks), Ok ())
        else (case d_Ledger d ctx (settlement_outcome s (d_Key d) (d_Clock d ticks)) tx of
          (tx1, Ok finished) \<Rightarrow> ((tx1, code, finished, ticks + 1), Ok ())
        | (tx1, Err e) \<Rightarrow> ((tx1, code, finished_zero, ticks + 1), Err e)
        | (tx1, Panic m) \<Rightarrow> ((tx1, code, finished_zero, ticks + 1), Panic m)))"

definition dispatch_finish :: "('st, 'tx, 'p) ExternalDispatch \<Rightarrow> carrier \<Rightarrow> settlement \<Rightarrow> 'p \<Rightarrow> 'tx settling \<Rightarrow> 'p \<times> 'tx settling \<times> unit result" where
  "dispatch_finish d ctx s pending v =
     (case v of (tx, _, _, ticks) \<Rightarrow>
        let now = d_Clock d ticks in
        (case d_Ledger d ctx (settlement_outcome s (d_Key d) now) tx of
           (tx1, Err e) \<Rightarrow> (pending, (tx1, R1D1, finished_zero, ticks + 1), Err e)
         | (tx1, Panic m) \<Rightarrow> (pending, (tx1, R1D1, finished_zero, ticks + 1), Panic m)
         | (tx1, Ok finished) \<Rightarrow>
             let step = NextStep \<lparr>in_Class = set_class s, in_Finding = obs_Finding (set_observation s), in_Profile = d_Profile d,
                   in_QueryAvailable = d_QueryAvailable d, in_QueriesDone = 0\<rparr>;
                 applied = (if fin_Result finished = FinishRecorded
                   then d_Apply d ctx \<lparr>es_Step = step, es_Attempt = set_attempt s, es_Class = set_class s, es_Observation = set_observation s\<rparr> tx1
                   else (tx1, Ok ())) in
             (case applied of
                (tx2, Err e) \<Rightarrow> (pending, (tx2, R1D1, finished_zero, ticks + 1), Err e)
              | (tx2, Panic m) \<Rightarrow> (pending, (tx2, R1D1, finished_zero, ticks + 1), Panic m)
              | (tx2, Ok _) \<Rightarrow>
                  (case d_Complete d pending \<lparr>cpl_Status = StatusProcessed, cpl_At = now, cpl_LastError = [], cpl_Outcome = []\<rparr> tx2 of
                     (p', tx3, r) \<Rightarrow> (p', (tx3, R1D1, finished, ticks + 1), r)))))"

definition settle_callback :: "('st, 'tx, 'p) ExternalDispatch \<Rightarrow> settlement \<Rightarrow> carrier \<Rightarrow> 'tx \<Rightarrow> Disposition \<times> Finished \<times> nat \<Rightarrow>
    'tx \<times> (Disposition \<times> Finished \<times> nat) \<times> unit result" where
  "settle_callback d s ctx tx v =
     (case v of (disposition, _, ticks) \<Rightarrow>
        (case d_Register d ctx (d_Receipt d) tx of
           (tx0, Err e) \<Rightarrow> (tx0, (disposition, finished_zero, ticks), Err e)
         | (tx0, Panic m) \<Rightarrow> (tx0, (disposition, finished_zero, ticks), Panic m)
         | (tx0, Ok reception) \<Rightarrow>
             (case Reception_Match (d_Completed d) reception (dispatch_finish d ctx s)
                 (dispatch_close d ctx s R2) (dispatch_close d ctx s R3) (dispatch_close d ctx s R4)
                 (tx0, disposition, finished_zero, ticks) of
                ((tx', disposition', finished', ticks'), r) \<Rightarrow> (tx', (disposition', finished', ticks'), r))))"

definition markFinished :: "Finished \<Rightarrow> slots \<Rightarrow> slots" where
  "markFinished finished sl =
     mark_finish_result (fin_Result finished)
       (if fin_Recorded finished \<noteq> NoClass then MarkExternalClass (fin_Recorded finished) sl else sl)"

type_synonym dispatched = "(Disposition \<times> gerr option) result"

definition failed_with :: "gerr \<Rightarrow> dispatched" where
  "failed_with e = Ok (classify_err e, Some e)"

definition dispatch_settle :: "('st, 'tx, 'p) ExternalDispatch \<Rightarrow> carrier \<Rightarrow> settlement \<Rightarrow> 'st xworld \<Rightarrow> 'st xworld \<times> dispatched" where
  "dispatch_settle d ctx s w =
     (case d_UoW d (xw_store w) (settleContext d ctx) (settle_callback d s) (DispositionZero, finished_zero, xw_ticks w) of
        (st, (disposition, finished, ticks), r) \<Rightarrow>
          let w' = w\<lparr>xw_store := st, xw_ticks := ticks\<rparr> in
          (case r of
             Err e \<Rightarrow> (w', failed_with (Wrapped ''application: dispatch'' [e]))
           | Panic m \<Rightarrow> (w', Panic m)
           | Ok _ \<Rightarrow> (w'\<lparr>xw_slots := markFinished finished (xw_slots w')\<rparr>, Ok (disposition, None))))"

definition dispatch_run :: "('st, 'tx, 'p) ExternalDispatch \<Rightarrow> carrier \<Rightarrow> 'st xworld \<Rightarrow> 'st xworld \<times> dispatched" where
  "dispatch_run d ctx w =
     (let now = d_Clock d (xw_ticks w); w0 = w\<lparr>xw_ticks := xw_ticks w + 1\<rparr> in
      case d_Begin d (xw_store w0) ctx (d_Key d) (rcp_MessageID (d_Receipt d)) now of
        (st, Err e) \<Rightarrow> (w0\<lparr>xw_store := st\<rparr>, failed_with (Wrapped ''application: dispatch: begin'' [e]))
      | (st, Panic m) \<Rightarrow> (w0\<lparr>xw_store := st\<rparr>, Panic m)
      | (st, Ok start) \<Rightarrow>
          let w1 = w0\<lparr>xw_store := st\<rparr>;
              matched = AttemptStart_Match start
                (\<lambda>a. dispatch_submit d ctx a w1)
                (\<lambda>a. dispatch_resume d a w1)
                (\<lambda>a c. (w1, Ok \<lparr>set_attempt = a, set_class = c, set_observation = obs_zero, set_owned = False, set_presumed = False\<rparr>))
                (\<lambda>m. (w1, Panic m)) in
          (case matched of
             (w2, Err e) \<Rightarrow> (w2, failed_with e)
           | (w2, Panic m) \<Rightarrow> (w2, Panic m)
           | (w2, Ok s) \<Rightarrow> dispatch_settle d ctx s (w2\<lparr>xw_slots := MarkExternalClass (set_class s) (xw_slots w2)\<rparr>)))"

definition operationDispatch :: string where "operationDispatch = ''external.dispatch''"
definition operationResolve :: string where "operationResolve = ''external.resolve''"
definition operationAbandon :: string where "operationAbandon = ''external.abandon''"

definition Dispatch :: "carrier \<Rightarrow> ('st, 'tx, 'p) ExternalDispatch \<Rightarrow> 'st xworld \<Rightarrow> 'st xworld \<times> dispatched" where
  "Dispatch ctx0 d w0 =
     (case dispatch_validate d of
        Err e \<Rightarrow> (w0, failed_with e)
      | Panic m \<Rightarrow> (w0, Panic m)
      | Ok _ \<Rightarrow>
          let ctx = d_Instrumentation d ctx0 operationDispatch in
          (case dispatch_run d ctx (xtraced [BeginOp operationDispatch] w0) of
             (w, Ok (disposition, err)) \<Rightarrow> (xtraced [EndOp (operationResult err)] w, Ok (disposition, err))
           | (w, r) \<Rightarrow> (w, r)))"

section \<open>Abandon\<close>

record ('st, 'tx) ExternalAbandon =
  ab_wired :: bool
  ab_UoW :: "('st, 'tx, Finished \<times> nat) unit_of_work"
  ab_Ledger :: "carrier \<Rightarrow> AttemptOutcome \<Rightarrow> 'tx \<Rightarrow> 'tx \<times> Finished result"
  ab_Attempt :: Attempt
  ab_Profile :: ExternalProfile
  ab_QueryAvailable :: bool
  ab_Clock :: "nat \<Rightarrow> Instant"
  ab_Instrumentation :: "carrier \<Rightarrow> string \<Rightarrow> carrier"
  ab_Apply :: "carrier \<Rightarrow> ExternalStep \<Rightarrow> 'tx \<Rightarrow> 'tx \<times> unit result"

definition abandon_validate :: "('st, 'tx) ExternalAbandon \<Rightarrow> carrier \<Rightarrow> unit result" where
  "abandon_validate a ctx =
     (if \<not> ab_wired a then FailWith ErrIncompleteAbandon ''a transaction, a ledger accessor, a clock, an instrumentation and an apply are required''
      else if att_Key (ab_Attempt a) = [] \<or> att_N (ab_Attempt a) < 1 then FailWith ErrIncompleteAbandon ''attempt of no key''
      else res_bind (ValidateExternalProfile (ab_Profile a)) (\<lambda>_.
        res_bind (RequireExecutionContext ctx) (\<lambda>execution.
          if ec_Tenant execution \<noteq> Some (att_Tenant (ab_Attempt a)) then FailWith ErrAbandonOutsideTenant ''attempt''
          else Ok ())))"

definition abandon_outcome :: "('st, 'tx) ExternalAbandon \<Rightarrow> Instant \<Rightarrow> AttemptOutcome" where
  "abandon_outcome a now =
     \<lparr>out_Key = att_Key (ab_Attempt a), out_N = att_N (ab_Attempt a), out_Class = ClassUnknownSent,
      out_Observation = obs_zero, out_FinishedAt = now, out_Presumed = True\<rparr>"

definition abandon_callback :: "('st, 'tx) ExternalAbandon \<Rightarrow> carrier \<Rightarrow> 'tx \<Rightarrow> Finished \<times> nat \<Rightarrow> 'tx \<times> (Finished \<times> nat) \<times> unit result" where
  "abandon_callback a ctx tx v =
     (case v of (_, ticks) \<Rightarrow>
        (case ab_Ledger a ctx (abandon_outcome a (ab_Clock a ticks)) tx of
           (tx1, Err e) \<Rightarrow> (tx1, (finished_zero, ticks + 1), Err e)
         | (tx1, Panic m) \<Rightarrow> (tx1, (finished_zero, ticks + 1), Panic m)
         | (tx1, Ok finished) \<Rightarrow>
             if fin_Result finished \<noteq> FinishRecorded then (tx1, (finished, ticks + 1), Ok ())
             else let step = NextStep \<lparr>in_Class = ClassUnknownSent, in_Finding = NoFinding, in_Profile = ab_Profile a,
                    in_QueryAvailable = ab_QueryAvailable a, in_QueriesDone = 0\<rparr> in
               (case ab_Apply a ctx \<lparr>es_Step = step, es_Attempt = ab_Attempt a, es_Class = ClassUnknownSent, es_Observation = obs_zero\<rparr> tx1 of
                  (tx2, r) \<Rightarrow> (tx2, (finished, ticks + 1), r))))"

definition abandon_run :: "('st, 'tx) ExternalAbandon \<Rightarrow> carrier \<Rightarrow> 'st xworld \<Rightarrow> 'st xworld \<times> Finished result" where
  "abandon_run a ctx w =
     (case ab_UoW a (xw_store w) ctx (abandon_callback a) (finished_zero, xw_ticks w) of
        (st, (finished, ticks), r) \<Rightarrow>
          let w' = w\<lparr>xw_store := st, xw_ticks := ticks\<rparr> in
          (case r of
             Err e \<Rightarrow> (w', Err (Wrapped ''application: abandon attempt'' [e]))
           | Panic m \<Rightarrow> (w', Panic m)
           | Ok _ \<Rightarrow>
               let sl = (if fin_Recorded finished \<noteq> NoClass then MarkExternalClass (fin_Recorded finished) (xw_slots w') else xw_slots w');
                   sl' = (if fin_Result finished = FinishConflict then MarkExternalConflict sl else sl) in
               (w'\<lparr>xw_slots := sl'\<rparr>, Ok finished)))"

text \<open>The end of an operation that returns a value or an error.\<close>

definition ended :: "'st xworld \<times> 'a result \<Rightarrow> 'st xworld \<times> 'a result" where
  "ended wr =
     (case wr of
        (w, Ok a) \<Rightarrow> (xtraced [EndOp (operationResult None)] w, Ok a)
      | (w, Err e) \<Rightarrow> (xtraced [EndOp (operationResult (Some e))] w, Err e)
      | (w, Panic m) \<Rightarrow> (w, Panic m))"

definition Abandon :: "carrier \<Rightarrow> ('st, 'tx) ExternalAbandon \<Rightarrow> 'st xworld \<Rightarrow> 'st xworld \<times> Finished result" where
  "Abandon ctx0 a w0 =
     (case abandon_validate a ctx0 of
        Err e \<Rightarrow> (w0, Err e)
      | Panic m \<Rightarrow> (w0, Panic m)
      | Ok _ \<Rightarrow> ended (abandon_run a (ab_Instrumentation a ctx0 operationAbandon) (xtraced [BeginOp operationAbandon] w0)))"

section \<open>Resolve\<close>

record ('st, 'tx) ExternalResolution =
  re_wired :: bool
  re_UoW :: "('st, 'tx, Observed \<times> nat) unit_of_work"
  re_Ledger :: "carrier \<Rightarrow> Observation \<Rightarrow> Instant \<Rightarrow> 'tx \<Rightarrow> 'tx \<times> Observed result"
  re_Observation :: Observation
  re_Profile :: ExternalProfile
  re_QueryAvailable :: bool
  re_Clock :: "nat \<Rightarrow> Instant"
  re_Instrumentation :: "carrier \<Rightarrow> string \<Rightarrow> carrier"
  re_Apply :: "carrier \<Rightarrow> ExternalStep \<Rightarrow> 'tx \<Rightarrow> 'tx \<times> unit result"

definition resolve_validate :: "('st, 'tx) ExternalResolution \<Rightarrow> unit result" where
  "resolve_validate r =
     (if \<not> re_wired r then FailWith ErrIncompleteResolution ''a transaction, a ledger accessor, a clock, an instrumentation and an apply are required''
      else ValidateExternalProfile (re_Profile r))"

definition resolve_callback :: "('st, 'tx) ExternalResolution \<Rightarrow> carrier \<Rightarrow> 'tx \<Rightarrow> Observed \<times> nat \<Rightarrow> 'tx \<times> (Observed \<times> nat) \<times> unit result" where
  "resolve_callback r ctx tx v =
     (case v of (_, ticks) \<Rightarrow>
        (case re_Ledger r ctx (re_Observation r) (re_Clock r ticks) tx of
           (tx1, Err e) \<Rightarrow> (tx1, (observed_zero, ticks + 1), Err e)
         | (tx1, Panic m) \<Rightarrow> (tx1, (observed_zero, ticks + 1), Panic m)
         | (tx1, Ok observed) \<Rightarrow>
             if obd_Result observed \<noteq> ObserveRecorded then (tx1, (observed, ticks + 1), Ok ())
             else let step = NextStep \<lparr>in_Class = obd_Class observed, in_Finding = obs_Finding (re_Observation r),
                    in_Profile = re_Profile r, in_QueryAvailable = re_QueryAvailable r, in_QueriesDone = obd_QueriesDone observed\<rparr> in
               (case re_Apply r ctx \<lparr>es_Step = step,
                    es_Attempt = \<lparr>att_Tenant = [], att_Key = obs_Key (re_Observation r), att_N = obd_N observed, att_MessageID = [], att_StartedAt = 0\<rparr>,
                    es_Class = obd_Class observed, es_Observation = re_Observation r\<rparr> tx1 of
                  (tx2, res) \<Rightarrow> (tx2, (observed, ticks + 1), res))))"

definition resolve_run :: "('st, 'tx) ExternalResolution \<Rightarrow> carrier \<Rightarrow> 'st xworld \<Rightarrow> 'st xworld \<times> Observed result" where
  "resolve_run r ctx w =
     (case re_UoW r (xw_store w) ctx (resolve_callback r) (observed_zero, xw_ticks w) of
        (st, (observed, ticks), res) \<Rightarrow>
          let w' = w\<lparr>xw_store := st, xw_ticks := ticks\<rparr> in
          (case res of
             Err e \<Rightarrow> (w', Err (Wrapped ''application: resolve'' [e]))
           | Panic m \<Rightarrow> (w', Panic m)
           | Ok _ \<Rightarrow>
               let sl = (if obd_Class observed \<noteq> NoClass then MarkExternalClass (obd_Class observed) (xw_slots w') else xw_slots w');
                   sl' = (case obd_Result observed of
                     ObserveConflict \<Rightarrow> MarkExternalConflict sl | ObserveSaturated \<Rightarrow> MarkExternalSaturation sl | _ \<Rightarrow> sl) in
               (w'\<lparr>xw_slots := sl'\<rparr>, Ok observed)))"

definition Resolve :: "carrier \<Rightarrow> ('st, 'tx) ExternalResolution \<Rightarrow> 'st xworld \<Rightarrow> 'st xworld \<times> Observed result" where
  "Resolve ctx0 r w0 =
     (case resolve_validate r of
        Err e \<Rightarrow> (w0, Err e)
      | Panic m \<Rightarrow> (w0, Panic m)
      | Ok _ \<Rightarrow> ended (resolve_run r (re_Instrumentation r ctx0 operationResolve) (xtraced [BeginOp operationResolve] w0)))"

section \<open>Sweep\<close>

record SweepPage =
  sp_Seen :: int
  sp_Swept :: int
  sp_Next :: AttemptCursor

text \<open>
  The loop over one page. \<open>ctx.Err()\<close> is read before each attempt: \<open>ctxErr i\<close> is the reading before the \<open>i\<close>-th.
  Closing an attempt changes the state \<open>'w\<close>.
\<close>

fun sweep_loop :: "(nat \<Rightarrow> gerr option) \<Rightarrow> (Attempt \<Rightarrow> 'w \<Rightarrow> 'w \<times> gerr option) \<Rightarrow> nat \<Rightarrow> Attempt list \<Rightarrow> SweepPage \<Rightarrow> gerr list \<Rightarrow> 'w \<Rightarrow>
    'w \<times> SweepPage \<times> gerr list" where
  "sweep_loop ctxErr closeAttempt i [] page failures w = (w, page, failures)"
| "sweep_loop ctxErr closeAttempt i (attempt # rest) page failures w =
     (case ctxErr i of
        Some e \<Rightarrow> (w, page, failures @ [e])
      | None \<Rightarrow>
          let page1 = page\<lparr>sp_Seen := wrap64 (sp_Seen page + 1), sp_Next := Attempt_Cursor attempt\<rparr> in
          (case closeAttempt attempt w of
             (w', Some e) \<Rightarrow> sweep_loop ctxErr closeAttempt (i + 1) rest page1 (failures @ [e]) w'
           | (w', None) \<Rightarrow> sweep_loop ctxErr closeAttempt (i + 1) rest (page1\<lparr>sp_Swept := wrap64 (sp_Swept page1 + 1)\<rparr>) failures w'))"

definition SweepStale :: "('w \<Rightarrow> 'w \<times> Attempt list result) \<Rightarrow> AttemptCursor \<Rightarrow> (nat \<Rightarrow> gerr option) \<Rightarrow>
    (Attempt \<Rightarrow> 'w \<Rightarrow> 'w \<times> gerr option) \<Rightarrow> 'w \<Rightarrow> 'w \<times> (SweepPage \<times> gerr option) result" where
  "SweepStale stale after ctxErr closeAttempt w =
     (case stale w of
        (w1, Ok attempts) \<Rightarrow>
          (case sweep_loop ctxErr closeAttempt 0 attempts \<lparr>sp_Seen = 0, sp_Swept = 0, sp_Next = after\<rparr> [] w1 of
             (w2, page, failures) \<Rightarrow> (w2, Ok (page, errors_Join (map Some failures))))
      | (w1, Err e) \<Rightarrow>
          (w1, Ok (\<lparr>sp_Seen = 0, sp_Swept = 0, sp_Next = cursor_zero\<rparr>, Some (Wrapped ''application: list stale attempts'' [e])))
      | (w1, Panic m) \<Rightarrow> (w1, Panic m))"

section \<open>The cycle over the in-memory ledger\<close>

definition mem_Begin :: "('id, 's, 'e) Store \<Rightarrow> carrier \<Rightarrow> OutboundKey \<Rightarrow> MessageID \<Rightarrow> Instant \<Rightarrow> ('id, 's, 'e) Store \<times> AttemptStart result" where
  "mem_Begin s ctx key message now =
     (case AttemptStore_Begin (Some s) ctx key message now of (Some s', r) \<Rightarrow> (s', r) | (None, r) \<Rightarrow> (s, r))"

definition mem_Finish :: "('id, 's, 'e) Store \<Rightarrow> carrier \<Rightarrow> AttemptOutcome \<Rightarrow> ('id, 's, 'e) Store \<times> Finished result" where
  "mem_Finish s ctx ao =
     (case AttemptStore_Finish (Some s) ctx ao of (Some s', r) \<Rightarrow> (s', r) | (None, r) \<Rightarrow> (s, r))"

definition tx_Finish :: "carrier \<Rightarrow> AttemptOutcome \<Rightarrow> ('id, 's, 'e) Tx \<Rightarrow> ('id, 's, 'e) Tx \<times> Finished result" where
  "tx_Finish ctx ao = Tx_Ledger (Finish ctx ao)"

text \<open>What \<open>Begin\<close> in a transaction of its own returns is what the ledger answers over the committed attempts.\<close>

lemma mem_Begin_Ok:
  assumes "mem_Begin s ctx key message now = (s', Ok start)"
  shows "Begin ctx key message now (st_attempts s) = (st_attempts s', Ok start)"
proof -
  obtain st' where st': "AttemptStore_within (Some s) ctx (\<lambda>ctx. Begin ctx key message now) = (st', Ok start)" "st' = None \<or> st' = Some s'"
    using assms by (auto simp: mem_Begin_def AttemptStore_Begin_def split: prod.splits option.splits)
  from AttemptStore_within_cases [OF st'(1)] st'(2) show ?thesis
    by auto
qed

lemma dispatch_without_submit:
  "dispatch_settle (d\<lparr>d_Submit := f\<rparr>) ctx s w = dispatch_settle d ctx s w"
proof -
  have "dispatch_finish (d\<lparr>d_Submit := f\<rparr>) = dispatch_finish d"
    by (intro ext, cases d, hypsubst) (unfold dispatch_finish_def ExternalDispatch.update_convs ExternalDispatch.select_convs, rule refl)
  moreover have "dispatch_close (d\<lparr>d_Submit := f\<rparr>) = dispatch_close d"
    by (intro ext, cases d, hypsubst) (unfold dispatch_close_def ExternalDispatch.update_convs ExternalDispatch.select_convs, rule refl)
  ultimately have "settle_callback (d\<lparr>d_Submit := f\<rparr>) = settle_callback d"
    by (intro ext) (simp add: settle_callback_def split: prod.split res.split)
  then show ?thesis
    by (simp add: dispatch_settle_def settleContext_def)
qed

text \<open>The partner is reached only through a started attempt.\<close>

lemma Dispatch_submit_irrelevant:
  assumes "\<And>a st. d_Begin d (xw_store w) (d_Instrumentation d ctx operationDispatch) (d_Key d) (rcp_MessageID (d_Receipt d))
      (d_Clock d (xw_ticks w)) \<noteq> (st, Ok (StartedAttempt a))"
  shows "Dispatch ctx (d\<lparr>d_Submit := f\<rparr>) w = Dispatch ctx d w"
proof -
  obtain st r where b: "d_Begin d (xw_store w) (d_Instrumentation d ctx operationDispatch) (d_Key d) (rcp_MessageID (d_Receipt d))
      (d_Clock d (xw_ticks w)) = (st, r)"
    by fastforce
  have "dispatch_run (d\<lparr>d_Submit := f\<rparr>) (d_Instrumentation d ctx operationDispatch) (xtraced [BeginOp operationDispatch] w) =
      dispatch_run d (d_Instrumentation d ctx operationDispatch) (xtraced [BeginOp operationDispatch] w)"
  proof (cases r)
    case (Ok start)
    with b assms show ?thesis
      by (cases start) (simp_all add: dispatch_run_def xtraced_def dispatch_without_submit dispatch_resume_def)
  qed (use b in \<open>simp_all add: dispatch_run_def xtraced_def\<close>)
  moreover have "dispatch_validate (d\<lparr>d_Submit := f\<rparr>) = dispatch_validate d"
    by (simp add: dispatch_validate_def)
  ultimately show ?thesis
    by (cases "dispatch_validate d") (simp_all add: Dispatch_def)
qed

text \<open>
  C3. The partner is not called twice. Over the in-memory ledger, when the key has an attempt in flight, or when
  the message being delivered already concluded an attempt of the key with a class no resend follows, dispatching
  the message does not depend on the partner at all: whatever the call would do or answer, store, slots, trace
  and disposition are the same.
\<close>

theorem Dispatch_never_resends:
  assumes "d_Begin d = mem_Begin" and "ledger_ok (st_attempts (xw_store w))"
    and "ledger_scope (d_Instrumentation d ctx operationDispatch) (d_Key d) = Ok scope"
    and "(rows_of (st_attempts (xw_store w)) scope \<noteq> [] \<and> \<not> ar_finished (last (rows_of (st_attempts (xw_store w)) scope))) \<or>
      list_ex (concluded_by (rcp_MessageID (d_Receipt d))) (rows_of (st_attempts (xw_store w)) scope)"
  shows "Dispatch ctx (d\<lparr>d_Submit := f\<rparr>) w = Dispatch ctx d w"
proof (rule Dispatch_submit_irrelevant)
  let ?a = "st_attempts (xw_store w)" and ?m = "rcp_MessageID (d_Receipt d)" and ?now = "d_Clock d (xw_ticks w)"
  let ?ctx = "d_Instrumentation d ctx operationDispatch"
  fix a st
  show "d_Begin d (xw_store w) ?ctx (d_Key d) ?m ?now \<noteq> (st, Ok (StartedAttempt a))"
  proof
    assume "d_Begin d (xw_store w) ?ctx (d_Key d) ?m ?now = (st, Ok (StartedAttempt a))"
    then have "Begin ?ctx (d_Key d) ?m ?now ?a = (st_attempts st, Ok (StartedAttempt a))"
      using assms(1) by (simp add: mem_Begin_Ok)
    then have "begin_spec ?ctx (d_Key d) ?m ?now ?a (st_attempts st) (Ok (StartedAttempt a))"
      using Begin_spec_holds [OF assms(2), of ?ctx "d_Key d" ?m ?now] by simp
    then have all: "list_all ar_finished (rows_of ?a scope)" "\<not> list_ex (concluded_by ?m) (rows_of ?a scope)"
      using assms(3) by (auto simp: begin_spec_def)
    then have "rows_of ?a scope \<noteq> [] \<Longrightarrow> ar_finished (last (rows_of ?a scope))"
      by (simp add: list_all_iff)
    with all(2) assms(4) show False
      by blast
  qed
qed

definition sample_dispatch :: "((nat, string, unit) Store, (nat, string, unit) Tx, memoryPending) ExternalDispatch" where
  "sample_dispatch =
     \<lparr>d_wired1 = True, d_wired2 = True, d_wired3 = True, d_UoW = Within, d_Begin = mem_Begin, d_Finish = mem_Finish,
      d_Ledger = tx_Finish, d_Register = mem_Register (Tx_Inbox ''payments''), d_Complete = Pending_Complete,
      d_Completed = mp_completed, d_Receipt = \<lparr>rcp_Consumer = ''payments'', rcp_MessageID = ''m'', rcp_MessageType = ''charge'',
        rcp_PayloadHash = ''h'', rcp_ReceivedAt = 10, rcp_WaitUntil = 0, rcp_ExpiresAt = 0\<rparr>,
      d_Submit = (\<lambda>ctx key payload. (ClassAccepted, obs_zero, None)), d_Key = ''k'', d_Payload = [], d_Profile = sample_profile,
      d_QueryAvailable = True, d_StaleAfter = 60, d_Clock = (\<lambda>n. 20 + int n), d_SettleContext = id,
      d_Instrumentation = (\<lambda>ctx operation. ctx), d_Apply = (\<lambda>ctx step tx. (tx, Ok ()))\<rparr>"

definition sample_xworld :: "attempts \<Rightarrow> (nat, string, unit) Store xworld" where
  "sample_xworld a = \<lparr>xw_store = Store_New\<lparr>st_attempts := a\<rparr>, xw_slots = no_slots, xw_trace = [], xw_ticks = 0\<rparr>"

lemma sample_ledgers_ok: "ledger_ok sample_begun" "ledger_ok sample_finished"
  using ledger_step_ok [OF sample_begin_step] ledger_step_ok [OF sample_finish_step] by simp_all

theorem Dispatch_never_resends_witness:
  "Dispatch sample_context (sample_dispatch\<lparr>d_Submit := (\<lambda>ctx key payload. (ClassFinalBusiness, obs_zero, None))\<rparr>) (sample_xworld sample_finished) =
     Dispatch sample_context sample_dispatch (sample_xworld sample_finished)"
proof (rule Dispatch_never_resends)
  show "d_Begin sample_dispatch = mem_Begin"
    by (simp add: sample_dispatch_def)
  show "ledger_ok (st_attempts (xw_store (sample_xworld sample_finished)))"
    by (simp add: sample_xworld_def sample_ledgers_ok)
  show "ledger_scope (d_Instrumentation sample_dispatch sample_context operationDispatch) (d_Key sample_dispatch) = Ok sample_scope"
    by (simp add: sample_dispatch_def sample_scope_eq)
  show "(rows_of (st_attempts (xw_store (sample_xworld sample_finished))) sample_scope \<noteq> [] \<and>
      \<not> ar_finished (last (rows_of (st_attempts (xw_store (sample_xworld sample_finished))) sample_scope))) \<or>
    list_ex (concluded_by (rcp_MessageID (d_Receipt sample_dispatch))) (rows_of (st_attempts (xw_store (sample_xworld sample_finished))) sample_scope)"
    by (simp add: sample_xworld_def sample_dispatch_def sample_finished_def rows_of_def record_outcome_def sample_outcome_def
        concluded_by_def Retryable_def obs_zero_def new_row_def Let_def)
qed

lemma mem_Begin_pending:
  assumes "ctx_err ctx = None" "ctx_err_locked ctx = None" "st_failNextCommit s = None" "key \<noteq> []" "message \<noteq> []"
    "ledger_scope ctx key = Ok scope" "rows_of (st_attempts s) scope \<noteq> []" "\<not> ar_finished (last (rows_of (st_attempts s) scope))"
    "\<not> list_ex (concluded_by message) (rows_of (st_attempts s) scope)"
  shows "\<exists>s' a. mem_Begin s ctx key message now = (s', Ok (PendingAttempt a)) \<and> st_attempts s' = st_attempts s \<and>
    st_inbox s' = st_inbox s \<and> st_outbox s' = st_outbox s \<and> att_StartedAt a = ar_startedAt (last (rows_of (st_attempts s) scope))"
proof -
  let ?rows = "rows_of (st_attempts s) scope"
  have "find_done message ?rows (length ?rows) = None"
  proof (rule ccontr)
    assume "find_done message ?rows (length ?rows) \<noteq> None"
    then obtain i where "i < length ?rows" "concluded_by message (?rows ! i)"
      using find_done_Some by blast
    with assms(9) show False
      by (simp add: list_ex_length)
  qed
  with assms(4-8) have "Begin ctx key message now (st_attempts s) =
      (st_attempts s, Ok (PendingAttempt (attemptOf scope (length ?rows) (last ?rows))))"
    by (simp add: Begin_def Let_def last_conv_nth)
  from AttemptStore_within_Ok [where call = "\<lambda>ctx. Begin ctx key message now", OF assms(1-3) this] show ?thesis
    by (auto simp: mem_Begin_def AttemptStore_Begin_def attemptOf_def)
qed

text \<open>
  C30. A redelivery waits for the owner. When the key's last attempt is in flight and younger than \<open>StaleAfter\<close>,
  dispatching a message that concluded no attempt closes nothing and applies nothing: it returns a retryable
  failure (R1 with a retry) that tells the attempt is in flight, and attempts, inbox and outbox are as they were.
\<close>

theorem Dispatch_waits_for_owner:
  assumes "d_Begin d = mem_Begin" and "dispatch_validate d = Ok ()" and "rcp_MessageID (d_Receipt d) \<noteq> []"
    and "ctx1 = d_Instrumentation d ctx operationDispatch" and "ctx_err ctx1 = None" and "ctx_err_locked ctx1 = None"
    and "st_failNextCommit (xw_store w) = None" and "ledger_scope ctx1 (d_Key d) = Ok scope"
    and "rows = rows_of (st_attempts (xw_store w)) scope" and "rows \<noteq> []" and "\<not> ar_finished (last rows)"
    and "\<not> list_ex (concluded_by (rcp_MessageID (d_Receipt d))) rows"
    and "wrap64 (d_Clock d (xw_ticks w + 1) - ar_startedAt (last rows)) < d_StaleAfter d"
  shows "case Dispatch ctx d w of
      (w', Ok (disposition, Some e)) \<Rightarrow> disposition = R1D3 \<and> errors_Is e ErrAttemptInFlight \<and>
        st_attempts (xw_store w') = st_attempts (xw_store w) \<and> st_inbox (xw_store w') = st_inbox (xw_store w) \<and>
        st_outbox (xw_store w') = st_outbox (xw_store w)
    | _ \<Rightarrow> False"
proof -
  have key: "d_Key d \<noteq> []"
    using assms(2) by (auto simp: dispatch_validate_def split: if_splits)
  obtain s' a where b: "mem_Begin (xw_store w) ctx1 (d_Key d) (rcp_MessageID (d_Receipt d)) (d_Clock d (xw_ticks w)) =
      (s', Ok (PendingAttempt a))" "st_attempts s' = st_attempts (xw_store w)" "st_inbox s' = st_inbox (xw_store w)"
      "st_outbox s' = st_outbox (xw_store w)" "att_StartedAt a = ar_startedAt (last rows)"
    using mem_Begin_pending [OF assms(5-7) key assms(3,8)] assms(9-12) by blast
  have "classify_err (NewFailure TransientDependency True cause) = R1D3" for cause
    by (simp add: classify_err_def Classify_def NewFailure_def errors_As_head)
  with assms(1,2,13) b show ?thesis
    by (simp add: Dispatch_def dispatch_run_def dispatch_resume_def xtraced_def failed_with_def NewFailure_def
        assms(4) [symmetric])
qed

definition sample_redelivery :: "((nat, string, unit) Store, (nat, string, unit) Tx, memoryPending) ExternalDispatch" where
  "sample_redelivery = sample_dispatch\<lparr>d_Receipt := (d_Receipt sample_dispatch)\<lparr>rcp_MessageID := ''n''\<rparr>\<rparr>"

theorem Dispatch_waits_for_owner_witness:
  "case Dispatch sample_context sample_redelivery (sample_xworld sample_begun) of
      (w', Ok (disposition, Some e)) \<Rightarrow> disposition = R1D3 \<and> errors_Is e ErrAttemptInFlight \<and>
        st_attempts (xw_store w') = st_attempts (xw_store (sample_xworld sample_begun)) \<and>
        st_inbox (xw_store w') = st_inbox (xw_store (sample_xworld sample_begun)) \<and>
        st_outbox (xw_store w') = st_outbox (xw_store (sample_xworld sample_begun))
    | _ \<Rightarrow> False"
proof (rule Dispatch_waits_for_owner [OF _ _ _ refl _ _ _ _ refl])
  show "ledger_scope (d_Instrumentation sample_redelivery sample_context operationDispatch) (d_Key sample_redelivery) = Ok sample_scope"
    by (simp add: sample_redelivery_def sample_dispatch_def sample_scope_eq)
  show "dispatch_validate sample_redelivery = Ok ()"
    by (simp add: dispatch_validate_def sample_redelivery_def sample_dispatch_def sample_profile_ok)
qed (simp_all add: sample_redelivery_def sample_dispatch_def sample_xworld_def sample_begun_def rows_of_def new_row_def
    concluded_by_def wrap64_def sample_context_def background_def Store_New_def)

section \<open>Steps follow recorded outcomes\<close>

lemma finish_row_finished:
  "ar_finished r \<Longrightarrow> fin_Result (snd (finish_row ao r)) \<noteq> FinishRecorded"
  by (simp add: finish_row_def)

text \<open>An attempt that is finished answers every later \<open>Finish\<close> with something other than \<open>FinishRecorded\<close>.\<close>

lemma tx_Finish_finished:
  assumes "tx_Finish ctx ao tx = (tx', Ok f)" "ledger_scope ctx (out_Key ao) = Ok scope"
    "ar_finished (rows_of (tx_attempts tx) scope ! nat (out_N ao - 1))"
  shows "fin_Result f \<noteq> FinishRecorded"
proof -
  obtain a' where "Finish ctx ao (tx_attempts tx) = (a', Ok f)"
    using assms(1) by (auto simp: tx_Finish_def Tx_Ledger_def split: prod.splits)
  then show ?thesis
  proof (cases rule: Finish_cases)
    case (finished scope' i row f')
    with assms(2,3) finish_row_finished [of "rows_of (tx_attempts tx) scope ! i" ao] show ?thesis
      by simp
  qed simp
qed

lemma dispatch_finish_apply_irrelevant:
  assumes "\<And>tx' f. d_Ledger d ctx (settlement_outcome s (d_Key d) (d_Clock d ticks)) tx = (tx', Ok f) \<Longrightarrow> fin_Result f \<noteq> FinishRecorded"
  shows "dispatch_finish (d\<lparr>d_Apply := g\<rparr>) ctx s p (tx, x, y, ticks) = dispatch_finish d ctx s p (tx, x, y, ticks)"
proof -
  obtain tx' r where l: "d_Ledger d ctx (settlement_outcome s (d_Key d) (d_Clock d ticks)) tx = (tx', r)"
    by fastforce
  with assms show ?thesis
    by (cases r) (simp_all add: dispatch_finish_def)
qed

text \<open>
  C31. A step is applied only for an outcome that this settlement recorded. When the attempt being settled is
  already finished in the transaction (its outcome came from the sweep, from another delivery or from a late
  reply), settling it does not depend on \<open>Apply\<close>: no step is applied a second time.
\<close>

theorem step_applied_only_when_recorded:
  assumes "d_Ledger d = tx_Finish" and "d_Register d = mem_Register i" and "ledger_scope ctx (d_Key d) = Ok scope"
    and "ar_finished (rows_of (tx_attempts tx) scope ! nat (att_N (set_attempt s) - 1))"
  shows "settle_callback (d\<lparr>d_Apply := g\<rparr>) s ctx tx v = settle_callback d s ctx tx v"
proof -
  obtain disposition x ticks where v: "v = (disposition, x, ticks)"
    by (cases v)
  have first: "dispatch_finish (d\<lparr>d_Apply := g\<rparr>) ctx s p (tx, disposition, finished_zero, ticks) =
      dispatch_finish d ctx s p (tx, disposition, finished_zero, ticks)" for p
    using assms tx_Finish_finished [of ctx "settlement_outcome s (d_Key d) (d_Clock d ticks)" tx]
    by (intro dispatch_finish_apply_irrelevant) (auto simp: settlement_outcome_def)
  have close: "dispatch_close (d\<lparr>d_Apply := g\<rparr>) = dispatch_close d"
    by (intro ext, cases d, hypsubst) (unfold dispatch_close_def ExternalDispatch.update_convs ExternalDispatch.select_convs, rule refl)
  have "Reception_Match (d_Completed d) rc (dispatch_finish (d\<lparr>d_Apply := g\<rparr>) ctx s) (dispatch_close d ctx s R2)
      (dispatch_close d ctx s R3) (dispatch_close d ctx s R4) (tx, disposition, finished_zero, ticks) =
    Reception_Match (d_Completed d) rc (dispatch_finish d ctx s) (dispatch_close d ctx s R2)
      (dispatch_close d ctx s R3) (dispatch_close d ctx s R4) (tx, disposition, finished_zero, ticks)" for rc
    by (cases "rc_kind rc") (simp_all add: Reception_Match_def first)
  then show ?thesis
    using assms(2) by (cases "Inbox_Register i ctx (d_Receipt d) tx") (simp_all add: settle_callback_def v close mem_Register_def)
qed

definition sample_settlement :: settlement where
  "sample_settlement = \<lparr>set_attempt = attemptOf sample_scope 1 (new_row ''m'' 10), set_class = ClassAccepted,
     set_observation = obs_zero, set_owned = True, set_presumed = False\<rparr>"

theorem step_applied_only_when_recorded_witness:
  "settle_callback (sample_dispatch\<lparr>d_Apply := (\<lambda>ctx step tx. (tx, Fail ErrNotFound))\<rparr>) sample_settlement sample_context
     (sample_tx\<lparr>tx_attempts := sample_finished\<rparr>) (DispositionZero, finished_zero, 0) =
   settle_callback sample_dispatch sample_settlement sample_context
     (sample_tx\<lparr>tx_attempts := sample_finished\<rparr>) (DispositionZero, finished_zero, 0)"
  by (rule step_applied_only_when_recorded [where scope = sample_scope and i = "Tx_Inbox ''payments''"])
    (simp_all add: sample_dispatch_def sample_scope_eq sample_settlement_def attemptOf_def sample_finished_def rows_of_def
      record_outcome_def Let_def)

text \<open>The presumed class of the sweep leaves a finished row as it is.\<close>

lemma Finish_presumed_finished:
  assumes "validOutcome ao = Ok ()" "ledger_scope ctx (out_Key ao) = Ok scope" "nat (out_N ao - 1) < length (rows_of a scope)"
    "ar_finished (rows_of a scope ! nat (out_N ao - 1))" "out_Presumed ao"
  shows "\<exists>a'. Finish ctx ao a = (a', Ok \<lparr>fin_Result = FinishUnchanged, fin_Recorded = ar_class (rows_of a scope ! nat (out_N ao - 1))\<rparr>) \<and>
    (\<forall>scope. rows_of a' scope = rows_of a scope)"
proof -
  have "\<not> out_N ao > int (length (rows_of a scope))"
    using assms(3) validOutcome_Ok [OF assms(1)] by linarith
  with assms show ?thesis
    by (simp add: Finish_def finish_row_def Let_def)
qed

text \<open>
  The sweep never overrides a recorded outcome. Abandoning an attempt that is already finished, over the
  in-memory store, does not depend on \<open>Apply\<close> and leaves every attempt of every key as it was; and when it returns a
  value, that value reports the recorded class as unchanged.
\<close>

theorem Abandon_yields_to_record:
  assumes "ab_UoW a = Within" and "ab_Ledger a = tx_Finish" and "ctx1 = ab_Instrumentation a ctx operationAbandon"
    and "ledger_scope ctx1 (att_Key (ab_Attempt a)) = Ok scope" and "rows = rows_of (st_attempts (xw_store w)) scope"
    and "i = nat (att_N (ab_Attempt a) - 1)" and "i < length rows" and "ar_finished (rows ! i)"
  shows "Abandon ctx (a\<lparr>ab_Apply := g\<rparr>) w = Abandon ctx a w \<and>
    (\<forall>sc. rows_of (st_attempts (xw_store (fst (Abandon ctx a w)))) sc = rows_of (st_attempts (xw_store w)) sc) \<and>
    (case snd (Abandon ctx a w) of
       Ok f \<Rightarrow> f = \<lparr>fin_Result = FinishUnchanged, fin_Recorded = ar_class (rows ! i)\<rparr>
     | Err _ \<Rightarrow> True
     | Panic _ \<Rightarrow> False)"
proof (cases "abandon_validate a ctx")
  case (Ok u)
  let ?s = "xw_store w" and ?ticks = "xw_ticks w" and ?fin = "\<lparr>fin_Result = FinishUnchanged, fin_Recorded = ar_class (rows ! i)\<rparr>"
  have "validOutcome (abandon_outcome a now) = Ok ()" for now
    using Ok by (auto simp: abandon_validate_def validOutcome_def abandon_outcome_def obs_zero_def validClass_def split: if_splits)
  then obtain at where fin: "Finish ctx1 (abandon_outcome a (ab_Clock a ?ticks)) (st_attempts ?s) = (at, Ok ?fin)"
    and rows: "\<forall>scope. rows_of at scope = rows_of (st_attempts ?s) scope"
    using Finish_presumed_finished [of "abandon_outcome a (ab_Clock a ?ticks)" ctx1 scope "st_attempts ?s"] assms(4-8)
    by (auto simp: abandon_outcome_def)
  have cb: "abandon_callback (a\<lparr>ab_Apply := f\<rparr>) ctx1 (opened ?s) (finished_zero, ?ticks) =
      ((opened ?s)\<lparr>tx_attempts := at\<rparr>, (?fin, ?ticks + 1), Ok ())" for f
    using fin assms(2) by (simp add: abandon_callback_def tx_Finish_def Tx_Ledger_def abandon_outcome_def opened_def)
  have "a = a\<lparr>ab_Apply := ab_Apply a\<rparr>"
    by simp
  then have cb0: "abandon_callback a ctx1 (opened ?s) (finished_zero, ?ticks) =
      ((opened ?s)\<lparr>tx_attempts := at\<rparr>, (?fin, ?ticks + 1), Ok ())"
    using cb [of "ab_Apply a"] by simp
  have same: "Within ?s ctx1 (abandon_callback (a\<lparr>ab_Apply := f\<rparr>)) (finished_zero, ?ticks) =
      Within ?s ctx1 (abandon_callback a) (finished_zero, ?ticks)" for f
    by (simp add: Within_def uow_open_simps cb cb0 split: option.splits)
  have run: "abandon_run (a\<lparr>ab_Apply := f\<rparr>) ctx1 (xtraced cs w) = abandon_run a ctx1 (xtraced cs w)" for f cs
    using same [of f] assms(1) by (simp add: abandon_run_def xtraced_def)
  have valid: "abandon_validate (a\<lparr>ab_Apply := g\<rparr>) ctx = abandon_validate a ctx"
    by (simp add: abandon_validate_def)
  show ?thesis
    using Ok valid run assms(1,3) rows cb0
    by (cases rule: Within_cases [of ?s ctx1 "abandon_callback a" "(finished_zero, ?ticks)"])
      (auto simp: Abandon_def abandon_run_def ended_def xtraced_def same_data_def committed_def Let_def)
next
  case (Err e)
  moreover have "abandon_validate (a\<lparr>ab_Apply := g\<rparr>) ctx = abandon_validate a ctx"
    by (simp add: abandon_validate_def)
  ultimately show ?thesis
    by (simp add: Abandon_def)
next
  case (Panic m)
  then show ?thesis
    using ValidateExternalProfile_no_panic [of "ab_Profile a"]
    by (cases "ValidateExternalProfile (ab_Profile a)")
      (auto simp: abandon_validate_def RequireExecutionContext_def split: if_splits option.splits)
qed

definition sample_abandon :: "((nat, string, unit) Store, (nat, string, unit) Tx) ExternalAbandon" where
  "sample_abandon =
     \<lparr>ab_wired = True, ab_UoW = Within, ab_Ledger = tx_Finish, ab_Attempt = attemptOf sample_scope 1 (new_row ''m'' 10),
      ab_Profile = sample_profile, ab_QueryAvailable = True, ab_Clock = (\<lambda>n. 500 + int n),
      ab_Instrumentation = (\<lambda>ctx operation. ctx), ab_Apply = (\<lambda>ctx step tx. (tx, Fail ErrNotFound))\<rparr>"

theorem Abandon_yields_to_record_witness:
  "let w = sample_xworld sample_finished in
    Abandon sample_context (sample_abandon\<lparr>ab_Apply := (\<lambda>ctx step tx. (tx, Ok ()))\<rparr>) w = Abandon sample_context sample_abandon w \<and>
    (\<forall>sc. rows_of (st_attempts (xw_store (fst (Abandon sample_context sample_abandon w)))) sc = rows_of (st_attempts (xw_store w)) sc) \<and>
    (case snd (Abandon sample_context sample_abandon w) of
       Ok f \<Rightarrow> f = \<lparr>fin_Result = FinishUnchanged, fin_Recorded = ar_class (rows_of (st_attempts (xw_store w)) sample_scope ! 0)\<rparr>
     | Err _ \<Rightarrow> True
     | Panic _ \<Rightarrow> False)"
  unfolding Let_def
proof (rule Abandon_yields_to_record [OF _ _ refl _ refl])
  show "ledger_scope (ab_Instrumentation sample_abandon sample_context operationAbandon) (att_Key (ab_Attempt sample_abandon)) = Ok sample_scope"
    by (simp add: sample_abandon_def attemptOf_def sample_scope_eq sample_scope_def [symmetric])
      (simp add: sample_scope_def sample_scope_eq [unfolded sample_scope_def])
qed (simp_all add: sample_abandon_def sample_xworld_def sample_finished_def rows_of_def record_outcome_def attemptOf_def Let_def)

section \<open>A page of the sweep\<close>

text \<open>Closing a list of attempts in order, whatever each close answers.\<close>

fun close_all :: "(Attempt \<Rightarrow> 'w \<Rightarrow> 'w \<times> gerr option) \<Rightarrow> Attempt list \<Rightarrow> 'w \<Rightarrow> 'w \<times> gerr list" where
  "close_all closeAttempt [] w = (w, [])"
| "close_all closeAttempt (a # rest) w =
     (case closeAttempt a w of
        (w1, e) \<Rightarrow> (case close_all closeAttempt rest w1 of (w2, es) \<Rightarrow> (w2, (case e of Some x \<Rightarrow> x # es | None \<Rightarrow> es))))"

lemma close_all_bound: "length (snd (close_all c xs w)) \<le> length xs"
proof (induction xs arbitrary: w)
  case (Cons a xs)
  obtain w1 e where c: "c a w = (w1, e)"
    by fastforce
  obtain w2 es where r: "close_all c xs w1 = (w2, es)"
    by fastforce
  show ?case
    using Cons.IH [of w1] c r by (cases e) simp_all
qed simp

lemma sweep_loop_closes:
  assumes "int64 (sp_Seen page + int (length xs))" "int64 (sp_Swept page + int (length xs))" "0 \<le> sp_Seen page" "0 \<le> sp_Swept page"
    and "n \<le> length xs" "\<forall>j<n. ctxErr (i + j) = None" "n = length xs \<or> ctxErr (i + n) = Some cause"
    and "close_all c (take n xs) w = (w', es)"
  shows "sweep_loop ctxErr c i xs page failures w =
    (w', \<lparr>sp_Seen = sp_Seen page + int n, sp_Swept = sp_Swept page + int (n - length es),
          sp_Next = (if n = 0 then sp_Next page else Attempt_Cursor (xs ! (n - 1)))\<rparr>,
     failures @ es @ (if n = length xs then [] else [cause]))"
  using assms
proof (induction xs arbitrary: n i page failures w es)
  case Nil
  then show ?case by simp
next
  case (Cons a xs)
  show ?case
  proof (cases n)
    case 0
    with Cons.prems show ?thesis by auto
  next
    case (Suc m)
    obtain w1 e where c: "c a w = (w1, e)"
      by fastforce
    obtain es1 where r: "close_all c (take m xs) w1 = (w', es1)" "es = (case e of Some x \<Rightarrow> x # es1 | None \<Rightarrow> es1)"
      using Cons.prems(8) Suc c by (auto split: prod.splits)
    have le: "length es1 \<le> m"
      using close_all_bound [of c "take m xs" w1] Cons.prems(5) Suc r(1) by simp
    have here: "ctxErr i = None" "\<forall>j<m. ctxErr (Suc i + j) = None"
      using Cons.prems(6) Suc by (auto dest: spec [of _ 0] spec [of _ "Suc _"])
    have wraps: "wrap64 (sp_Seen page + 1) = sp_Seen page + 1" "wrap64 (sp_Swept page + 1) = sp_Swept page + 1"
      using Cons.prems(1-4) by (simp_all add: int64_def)
    define page1 where "page1 = page\<lparr>sp_Seen := sp_Seen page + 1, sp_Next := Attempt_Cursor a,
      sp_Swept := (case e of Some _ \<Rightarrow> sp_Swept page | None \<Rightarrow> sp_Swept page + 1)\<rparr>"
    have "sweep_loop ctxErr c i (a # xs) page failures w =
        sweep_loop ctxErr c (Suc i) xs page1 (failures @ (case e of Some x \<Rightarrow> [x] | None \<Rightarrow> [])) w1"
      using here c wraps by (cases e) (simp_all add: page1_def Let_def)
    also have "\<dots> = (w', \<lparr>sp_Seen = sp_Seen page1 + int m, sp_Swept = sp_Swept page1 + int (m - length es1),
          sp_Next = (if m = 0 then sp_Next page1 else Attempt_Cursor (xs ! (m - 1)))\<rparr>,
        (failures @ (case e of Some x \<Rightarrow> [x] | None \<Rightarrow> [])) @ es1 @ (if m = length xs then [] else [cause]))"
      using Cons.prems(1-5,7) Suc here(2) r(1)
      by (intro Cons.IH) (auto simp: page1_def int64_def split: option.splits)
    finally show ?thesis
      using r(2) Suc le by (cases e) (auto simp: page1_def nth_Cons' of_nat_diff)
  qed
qed

text \<open>
  A page of the sweep is total and resumes after what it saw. When the listing answers, the sweep closes in
  order exactly the attempts read before the context was done (all of them when it never is), failed closes
  included; \<open>Seen\<close> counts them, \<open>Swept\<close> those whose close succeeded, \<open>Next\<close> is the cursor of the last one (or the
  cursor it started from), and it returns no error exactly when every attempt of the page was closed.
\<close>

theorem SweepStale_page:
  assumes "stale w = (w1, Ok xs)" and "length xs < 2 ^ 63" and "n \<le> length xs" and "\<forall>j<n. ctxErr j = None"
    and "n = length xs \<or> ctxErr n = Some cause" and "close_all c (take n xs) w1 = (w2, es)"
  shows "\<exists>err. SweepStale stale after ctxErr c w =
      (w2, Ok (\<lparr>sp_Seen = int n, sp_Swept = int (n - length es),
         sp_Next = (if n = 0 then after else Attempt_Cursor (xs ! (n - 1)))\<rparr>, err)) \<and>
    (err = None \<longleftrightarrow> n = length xs \<and> es = [])"
proof -
  have "sweep_loop ctxErr c 0 xs \<lparr>sp_Seen = 0, sp_Swept = 0, sp_Next = after\<rparr> [] w1 =
    (w2, \<lparr>sp_Seen = int n, sp_Swept = int (n - length es), sp_Next = (if n = 0 then after else Attempt_Cursor (xs ! (n - 1)))\<rparr>,
     es @ (if n = length xs then [] else [cause]))"
    using assms sweep_loop_closes [of "\<lparr>sp_Seen = 0, sp_Swept = 0, sp_Next = after\<rparr>" xs n ctxErr 0 cause c w1 w2 es "[]"]
    by (simp add: int64_def)
  then show ?thesis
    using assms(1) by (auto simp: SweepStale_def errors_Join_def List.map_filter_def comp_def split: list.splits)
qed

theorem SweepStale_page_witness:
  "\<exists>err. SweepStale (\<lambda>k. (k, Ok [attemptOf sample_scope 1 (new_row ''m'' 10), attemptOf sample_scope 2 (new_row ''n'' 11)]))
       cursor_zero (\<lambda>i. None) (\<lambda>a k. (k + 1, if att_N a = 1 then Some (Sentinel ErrNotFound) else None)) (0 :: nat) =
     (2, Ok (\<lparr>sp_Seen = 2, sp_Swept = 1, sp_Next = Attempt_Cursor (attemptOf sample_scope 2 (new_row ''n'' 11))\<rparr>, err)) \<and> err \<noteq> None"
  using SweepStale_page [where stale = "\<lambda>k. (k, Ok [attemptOf sample_scope 1 (new_row ''m'' 10), attemptOf sample_scope 2 (new_row ''n'' 11)])"
      and w = "0 :: nat" and n = 2 and ctxErr = "\<lambda>i. None" and after = cursor_zero
      and c = "\<lambda>a k. (k + 1, if att_N a = 1 then Some (Sentinel ErrNotFound) else None)", OF refl]
  by (auto simp: attemptOf_def)

end
