(* ===== verification/Application_Aggregate.thy ===== *)
theory Application_Aggregate
  imports Application_Idempotency
begin

text \<open>
  What a bounded context gains from the use case skeleton: an invariant of its aggregate is an invariant of every
  stored row. The locale \<open>aggregate\<close> is the interface between a context's domain and the skeleton; its lemma
  carries the invariant through \<open>Decide\<close>, and \<open>Execute_keeps_tables\<close> carries any property of the tables through
  \<open>Execute\<close> over the in-memory store.
\<close>

section \<open>Properties of the rows\<close>

text \<open>\<open>rows_inv t ok ts\<close>: every row of the table of \<open>t\<close> holds a snapshot that is right for the identifier it is under.\<close>

definition rows_inv :: "('id, 's) Table \<Rightarrow> ('id \<Rightarrow> 's \<Rightarrow> bool) \<Rightarrow> ('id, 's) tables \<Rightarrow> bool" where
  "rows_inv t ok ts \<longleftrightarrow> tables_wf ts \<and>
     (\<forall>tab. map_of ts (tbl_Name t) = Some tab \<longrightarrow> tab_clone tab = tbl_Clone t) \<and>
     (\<forall>key rec. abs_tables ts (tbl_Name t, key) = Some rec \<longrightarrow> ok (rk_id key) (row_snapshot rec))"

lemma rows_inv_wf: "rows_inv t ok ts \<Longrightarrow> tables_wf ts"
  by (simp add: rows_inv_def)

lemma rows_inv_empty: "rows_inv t ok []"
  by (simp add: rows_inv_def tables_wf_def abs_tables_def)

lemma rows_inv_clone:
  assumes "rows_inv t ok ts" "faithful t"
  shows "rows_inv t ok (cloneTables ts)"
proof -
  have id: "(case tbl_Clone t of None \<Rightarrow> rec | Some clone \<Rightarrow> rec\<lparr>row_snapshot := clone (row_snapshot rec)\<rparr>) = rec" for rec
    using assms(2) by (auto simp: faithful_def Table_copy_def split: option.splits)
  have "tab_clone (cloneRows tab) = tab_clone tab" for tab :: "('a, 'b) table"
    by (simp add: cloneRows_def)
  with assms(1) show ?thesis
    by (auto simp: rows_inv_def abs_tables_def map_of_cloneTables map_of_cloneRows id split: option.split_asm)
qed

lemma rows_inv_save:
  assumes "rows_inv t ok (tx_tables tx)" "Table_validate t = Ok ()" "faithful t" "ok i state"
  shows "rows_inv t ok (tx_tables (fst (Repository_Save t ctx i state v tx)))"
proof (cases "scopedKey ctx i")
  case (Ok key)
  obtain tx1 rows where tab: "tx_table t tx = (tx1, rows)"
    by fastforce
  let ?r = "saveAs t key state v tx"
  note wf = rows_inv_wf [OF assms(1)]
  have clone: "tab_clone rows = tbl_Clone t"
    using tab assms(1) by (auto simp: tx_table_def rows_inv_def Let_def split: option.splits)
  have clones: "\<forall>tab. map_of (tx_tables (fst ?r)) (tbl_Name t) = Some tab \<longrightarrow> tab_clone tab = tbl_Clone t"
    using tab clone tx_table_props(2) [OF tab] by (auto simp: saveAs_def Let_def split: res.splits)
  have "abs_tables (tx_tables (fst ?r)) = fst (spec_save t key state v (tx_writes tx = 0) (abs_tables (tx_tables tx)))"
    using saveAs_spec [OF wf assms(2), of key state v] by (metis fst_conv)
  with assms(1,3,4) scopedKey_Ok [OF Ok]
  have "\<forall>k rec. abs_tables (tx_tables (fst ?r)) (tbl_Name t, k) = Some rec \<longrightarrow> ok (rk_id k) (row_snapshot rec)"
    by (auto simp: spec_save_def rows_inv_def faithful_def split: option.splits if_splits)
  with clones saveAs_wf [OF wf] Ok show ?thesis
    by (simp add: rows_inv_def Repository_Save_def)
qed (use assms in \<open>simp_all add: Repository_Save_def\<close>)

lemma enqueue_tables: "tx_tables (fst (Enqueue ctx Outbox_Enqueue identity origin v es tx)) = tx_tables tx"
proof -
  have "tx_tables (fst (enqueue_loop Outbox_Enqueue entry n es tx)) = tx_tables tx" for entry n
    using enqueue_loop_memory [of entry n es tx] by auto
  then show ?thesis
    by (simp add: Enqueue_def)
qed

section \<open>The aggregate interface\<close>

text \<open>
  What the skeleton needs of a context: a snapshot restores to the aggregate it was taken of, and an accepted
  decision keeps the invariant \<open>ok\<close> of the aggregate with identifier \<open>i\<close>.
\<close>

locale aggregate =
  fixes ok :: "'id \<Rightarrow> 'a \<Rightarrow> bool" and restore :: "'s \<Rightarrow> 'a" and snapshot :: "'a \<Rightarrow> 's"
    and decide :: "'a \<Rightarrow> 'a \<times> ('r, 'e) decision"
  assumes restore_snapshot: "restore (snapshot a) = a"
    and decide_keeps: "ok i a \<Longrightarrow> decide a = (a', Inr accepted) \<Longrightarrow> ok i a'"
begin

definition row_holds :: "'id \<Rightarrow> 's \<Rightarrow> bool" where
  "row_holds i s = ok i (restore s)"

text \<open>A loader that hands out only aggregates with the invariant, over rows that have it.\<close>

definition loads_ok :: "('id, 's) Table \<Rightarrow> carrier \<Rightarrow> 'id \<Rightarrow> ('id, 's, 'a, ('id, 's, 'e) Tx) Loader \<Rightarrow> bool" where
  "loads_ok t ctx i loader \<longleftrightarrow>
     (\<forall>tx a v. rows_inv t row_holds (tx_tables tx) \<longrightarrow> loader (Repository_Load t ctx) i tx = Ok (a, v) \<longrightarrow> ok i a)"

lemma load_row_holds:
  assumes "rows_inv t row_holds (tx_tables tx)" "faithful t" "Repository_Load t ctx i tx = Ok (s, v)"
  shows "ok i (restore s)"
proof -
  obtain key where key: "scopedKey ctx i = Ok key"
    using assms(3) by (cases "scopedKey ctx i") (simp_all add: Repository_Load_def load_def)
  then obtain rec where rec: "abs_tables (tx_tables tx) (tbl_Name t, key) = Some rec"
    using assms(3) load_absent [OF key, of "tx_tables tx" t]
    by (cases "abs_tables (tx_tables tx) (tbl_Name t, key)") (auto simp: Repository_Load_def)
  then have "s = row_snapshot rec"
    using load_present [OF key rec] assms(2,3) by (simp add: Repository_Load_def faithful_def)
  with assms(1) rec scopedKey_Ok [OF key] show ?thesis
    by (auto simp: rows_inv_def row_holds_def)
qed

lemma Existing_loads_ok: "faithful t \<Longrightarrow> loads_ok t ctx i (Existing restore)"
  unfolding loads_ok_def
proof (intro allI impI)
  fix tx a v
  assume t: "faithful t" "rows_inv t row_holds (tx_tables tx)" and l: "Existing restore (Repository_Load t ctx) i tx = Ok (a, v)"
  then show "ok i a"
    using load_row_holds [OF t(2,1), of ctx i] by (cases "Repository_Load t ctx i tx") (auto simp: Existing_def split: prod.splits)
qed

lemma OrNew_loads_ok: "faithful t \<Longrightarrow> ok i (fresh i) \<Longrightarrow> loads_ok t ctx i (OrNew fresh restore)"
  unfolding loads_ok_def
proof (intro allI impI)
  fix tx a v
  assume t: "faithful t" "ok i (fresh i)" "rows_inv t row_holds (tx_tables tx)"
    and l: "OrNew fresh restore (Repository_Load t ctx) i tx = Ok (a, v)"
  then show "ok i a"
    using load_row_holds [OF t(3,1), of ctx i]
    by (cases "Repository_Load t ctx i tx") (auto simp: OrNew_def split: prod.splits if_splits)
qed

lemma Decide_keeps_rows:
  assumes "rows_inv t row_holds (tx_tables tx)" "Table_validate t = Ok ()" "faithful t" "loads_ok t ctx i loader"
  shows "rows_inv t row_holds (tx_tables (fst (Decide ctx (Repository_Load t ctx) (Repository_Save t ctx) Outbox_Enqueue
    origin i identity loader snapshot decide tx)))"
proof (cases "loader (Repository_Load t ctx) i tx")
  case (Ok found)
  obtain a v a' d where l: "loader (Repository_Load t ctx) i tx = Ok (a, v)" "decide a = (a', d)"
    using Ok by (metis prod.collapse)
  show ?thesis
  proof (cases d)
    case (Inr accepted)
    have "row_holds i (snapshot a')"
      using decide_keeps [of i a a' accepted] l Inr assms(1,4) by (auto simp: row_holds_def restore_snapshot loads_ok_def)
    then have saved: "rows_inv t row_holds (tx_tables (fst (Repository_Save t ctx i (snapshot a') v tx)))"
      using assms(1-3) by (intro rows_inv_save) auto
    obtain tx1 r where s: "Repository_Save t ctx i (snapshot a') v tx = (tx1, r)"
      by fastforce
    obtain tx2 r2 where e: "Enqueue ctx Outbox_Enqueue identity origin (v + 1) (Events accepted) tx1 = (tx2, r2)"
      by fastforce
    have "tx_tables tx2 = tx_tables tx1"
      using enqueue_tables [of ctx identity origin "v + 1" "Events accepted" tx1] e by simp
    with l Inr s e saved show ?thesis
      by (cases r; cases r2) (auto simp: Decide_def split: option.splits)
  qed (use l assms(1) in \<open>simp add: Decide_def\<close>)
qed (use assms(1) in \<open>simp_all add: Decide_def\<close>)

end

section \<open>Executions keep what their commands keep\<close>

lemma Pending_Complete_tables: "tx_tables (fst (snd (Pending_Complete p c tx))) = tx_tables tx"
  by (auto simp: Pending_Complete_def Let_def split: option.splits)

lemma run_first_tables:
  assumes "ic_Complete cmd = Pending_Complete"
  shows "tx_tables (fst (fst (snd (run_first cmd p (tx, outcome, replayed))))) = tx_tables (fst (ic_Run cmd tx))"
proof (cases "ic_Run cmd tx")
  case (Pair tx1 r)
  have t: "tx_tables (fst (snd (Pending_Complete p c tx1))) = tx_tables tx1" for c
    by (rule Pending_Complete_tables)
  show ?thesis
  proof (cases r)
    case (Ok produced)
    obtain p' tx2 r2 where c: "Pending_Complete p (completion_of cmd produced) tx1 = (p', tx2, r2)"
      by (metis prod_cases3)
    then have "tx_tables tx2 = tx_tables tx1"
      using t [of "completion_of cmd produced"] by simp
    with Pair Ok c assms show ?thesis
      by (cases r2) (simp_all add: run_first_def completion_of_def Let_def)
  qed (use Pair in \<open>simp_all add: run_first_def\<close>)
qed

lemma match_reception_state:
  "fst (fst (match_reception cmd rc (tx, sl))) =
     fst (fst (Reception_Match (ic_Completed cmd) rc (run_first cmd) (run_replay (ic_Codec cmd) (Stored rc))
       (run_replay (ic_Codec cmd) (Stored rc)) (\<lambda>w. (w, Fail ErrIdempotencyMismatch)) (tx, None, False)))"
proof -
  obtain tx1 oc replayed r where m: "Reception_Match (ic_Completed cmd) rc (run_first cmd) (run_replay (ic_Codec cmd) (Stored rc))
      (run_replay (ic_Codec cmd) (Stored rc)) (\<lambda>w. (w, Fail ErrIdempotencyMismatch)) (tx, None, False) = ((tx1, oc, replayed), r)"
    by (metis prod.collapse)
  show ?thesis
    by (cases r; cases oc; cases replayed) (simp_all add: match_reception_def m)
qed

lemma match_reception_tables:
  assumes "ic_Complete cmd = Pending_Complete"
  shows "tx_tables (fst (fst (match_reception cmd rc (tx, sl)))) \<in> {tx_tables tx, tx_tables (fst (ic_Run cmd tx))}"
proof -
  have replay: "fst (fst (run_replay (ic_Codec cmd) stored (tx, x, y))) = tx" for stored x y
    by (simp add: run_replay_def split: res.split)
  have first: "tx_tables (fst (fst (case run_first cmd p (tx, None, False) of
      (p', w', Ok _) \<Rightarrow> if ic_Completed cmd p' then (w', Ok ()) else (w', Fail ErrPendingNotCompleted)
    | (_, w', Err e) \<Rightarrow> (w', Err e) | (_, w', Panic m) \<Rightarrow> (w', Panic m)))) = tx_tables (fst (ic_Run cmd tx))" for p
    using run_first_tables [OF assms, of p tx None False]
    by (cases "run_first cmd p (tx, None, False)") (simp split: res.split)
  show ?thesis
    unfolding match_reception_state by (cases "rc_kind rc") (simp_all add: Reception_Match_def replay first)
qed

lemma RunIdempotent_tables:
  assumes "uses_inbox cmd (mem_Register i) Pending_Complete mp_completed"
  shows "tx_tables (fst (fst (RunIdempotent ctx cmd (tx, sl)))) \<in> {tx_tables tx, tx_tables (fst (ic_Run cmd tx))}"
proof (cases rule: command_receipt_cases [of ctx cmd])
  case (receipt key execution canonical Digest r)
  have "tx_tables (fst (fst (match_reception cmd rc (tx, sl)))) \<in> {tx_tables tx, tx_tables (fst (ic_Run cmd tx))}" for rc
    using match_reception_tables [of cmd rc tx sl] assms by (simp add: uses_inbox_def)
  with RunIdempotent_registers [OF receipt(7)] assms show ?thesis
    by (auto simp: uses_inbox_def mem_Register_def split: res.splits)
qed simp

text \<open>A property of the tables that copying and the command keep is kept by the whole execution.\<close>

lemma Execute_keeps_tables:
  assumes "I (st_tables (wd_store wd))" and clone: "\<And>ts. I ts \<Longrightarrow> I (cloneTables ts)"
    and run: "\<And>ctx identity tx. I (tx_tables tx) \<Longrightarrow> I (tx_tables (fst (c_Run c ctx identity tx)))"
  shows "I (st_tables (wd_store (fst (Execute ctx (mem_executor consumer now gen maxEvents policy authz inst) c wd))))"
proof -
  let ?x = "mem_executor consumer now gen maxEvents policy authz inst"
  define s where "s = wd_store wd"
  have "I (st_tables (fst (Within s ctx1 (execute_callback ?x c identity) w)))" for ctx1 identity w
  proof (cases rule: Within_cases [of s ctx1 "execute_callback ?x c identity" w])
    case (committed tx w' s')
    let ?cmd = "idempotent_command ?x c ctx1 identity"
    have "tx_tables tx \<in> {tx_tables (opened s), tx_tables (fst (ic_Run ?cmd (opened s)))}"
      using execute_callback_Ok [OF committed(1)] RunIdempotent_tables [of ?cmd "Tx_CommandInbox consumer" ctx1 "opened s" "snd (snd w)"]
      by (auto simp: uses_inbox_def idempotent_command_def)
    moreover have "I (tx_tables (opened s))"
      using assms(1) clone by (simp add: opened_def s_def)
    ultimately have "I (tx_tables tx)"
      using run by (auto simp: idempotent_command_def)
    with committed clone show ?thesis
      by (simp add: committed_def)
  qed (use assms(1) in \<open>simp_all add: s_def same_data_def\<close>)
  note within = this [unfolded s_def]
  obtain g ri where ri: "ResolveIdentity now gen maxEvents (wd_ids wd) = (g, ri)"
    by fastforce
  show ?thesis
  proof (cases "authz (BeginOperation inst ctx (c_Operation c)) (c_Input c)")
    case (Ok u)
    show ?thesis
    proof (cases ri)
      case ident: (Ok identity)
      obtain st oc replayed sl r where w: "Within (wd_store wd) (BeginOperation inst ctx (c_Operation c)) (execute_callback ?x c identity)
          (None, False, wd_slots wd) = (st, (oc, replayed, sl), r)"
        by (metis prod.collapse)
      then have "I (st_tables st)"
        using within [of "BeginOperation inst ctx (c_Operation c)" identity "(None, False, wd_slots wd)"] by simp
      with Ok ident w ri show ?thesis
        by (cases r; cases oc) (simp_all add: Execute_def traced_def Let_def)
    qed (use Ok ri assms(1) in \<open>simp_all add: Execute_def traced_def Let_def\<close>)
  qed (use assms(1) in \<open>simp_all add: Execute_def traced_def Let_def\<close>)
qed

end
