(* ===== verification/Orders_Domain.thy ===== *)
theory Orders_Domain
  imports Application_Codec "HOL-Library.Sublist"
begin

text \<open>
  The domain of the orders context, \<^verbatim>\<open>apps/backend/orders/domain\<close>: the aggregate \<open>Order\<close> with its two UPRs
  \<open>AddItem\<close> and \<open>Place\<close>, its snapshots, and the stored forms of it (the response codecs of
  \<^verbatim>\<open>application/codecs.go\<close> and the column of \<^verbatim>\<open>provider/order_repository.go\<close>).

  A receiver \<open>*Order\<close> is explicit state: an operation takes the order and returns it with the decision. The
  status is the Go integer it is declared as, since a snapshot read from a store may carry any.
\<close>

section \<open>Values\<close>

type_synonym OrderID = string
type_synonym SKU = string
type_synonym OrderStatus = int

record Item =
  item_SKU :: SKU
  item_Quantity :: int

definition Open :: OrderStatus where "Open = 0"
definition Placed :: OrderStatus where "Placed = 1"

record AddItemCmd =
  ai_SKU :: SKU
  ai_Quantity :: int
  ai_At :: Instant

record PlaceOrderCmd =
  po_At :: Instant

datatype OrderEvent = ItemAdded OrderID SKU int Instant | OrderPlaced OrderID int Instant

fun EventName :: "OrderEvent \<Rightarrow> string" where
  "EventName (ItemAdded _ _ _ _) = ''orders.item-added''"
| "EventName (OrderPlaced _ _ _) = ''orders.order-placed''"

record ItemAccepted =
  iac_Order :: OrderID
  iac_Items :: int

record PlacedResponse =
  plr_Order :: OrderID

definition CodeOrderItemLimitExceeded :: string where "CodeOrderItemLimitExceeded = ''orders/item-limit-exceeded''"
definition CodeOrderEmpty :: string where "CodeOrderEmpty = ''orders/empty-order''"
definition CodeOrderNotOpen :: string where "CodeOrderNotOpen = ''orders/order-not-open''"

section \<open>The aggregate\<close>

record Order =
  o_id :: OrderID
  o_status :: OrderStatus
  o_items :: "Item list"
  o_itemLimit :: int

record Snapshot =
  sn_ID :: OrderID
  sn_Status :: OrderStatus
  sn_ItemLimit :: int
  sn_Items :: "Item list"

definition NewOrder :: "OrderID \<Rightarrow> int \<Rightarrow> Order" where
  "NewOrder i itemLimit = \<lparr>o_id = i, o_status = Open, o_items = [], o_itemLimit = itemLimit\<rparr>"

definition FromSnapshot :: "Snapshot \<Rightarrow> Order" where
  "FromSnapshot s = \<lparr>o_id = sn_ID s, o_status = sn_Status s, o_items = sn_Items s, o_itemLimit = sn_ItemLimit s\<rparr>"

definition Order_Snapshot :: "Order \<Rightarrow> Snapshot" where
  "Order_Snapshot o' = \<lparr>sn_ID = o_id o', sn_Status = o_status o', sn_ItemLimit = o_itemLimit o', sn_Items = o_items o'\<rparr>"

definition Snapshot_Equal :: "Snapshot \<Rightarrow> Snapshot \<Rightarrow> bool" where
  "Snapshot_Equal s other \<longleftrightarrow> sn_ID s = sn_ID other \<and> sn_Status s = sn_Status other \<and>
     sn_ItemLimit s = sn_ItemLimit other \<and> sn_Items s = sn_Items other"

definition Order_clone :: "Order \<Rightarrow> Order" where
  "Order_clone o' = \<lparr>o_id = o_id o', o_status = o_status o', o_items = o_items o', o_itemLimit = o_itemLimit o'\<rparr>"

definition Order_AddItem :: "AddItemCmd \<Rightarrow> Order \<Rightarrow> Order \<times> (ItemAccepted, OrderEvent) decision" where
  "Order_AddItem cmd =
     DecideOver Order_clone (\<lambda>next.
       if o_status next \<noteq> Open then (next, Refuse CodeOrderNotOpen ''order is not open'' [])
       else let attempted = wrap64 (int (length (o_items next)) + 1) in
         if attempted > o_itemLimit next
         then (next, Refuse CodeOrderItemLimitExceeded ''item limit exceeded''
           [\<lparr>det_Key = ''limit'', det_Value = itoa_int (o_itemLimit next)\<rparr>,
            \<lparr>det_Key = ''attempted'', det_Value = itoa_int attempted\<rparr>])
         else let next' = next\<lparr>o_items := o_items next @ [\<lparr>item_SKU = ai_SKU cmd, item_Quantity = ai_Quantity cmd\<rparr>]\<rparr> in
           (next', Inr (Accept \<lparr>iac_Order = o_id next', iac_Items = int (length (o_items next'))\<rparr>
              [ItemAdded (o_id next') (ai_SKU cmd) (ai_Quantity cmd) (ai_At cmd)])))"

definition Order_Place :: "PlaceOrderCmd \<Rightarrow> Order \<Rightarrow> Order \<times> (PlacedResponse, OrderEvent) decision" where
  "Order_Place cmd =
     DecideOver Order_clone (\<lambda>next.
       if o_status next \<noteq> Open then (next, Refuse CodeOrderNotOpen ''order is not open'' [])
       else if o_items next = [] then (next, Refuse CodeOrderEmpty ''order has no items'' [])
       else let next' = next\<lparr>o_status := Placed\<rparr> in
         (next', Inr (Accept \<lparr>plr_Order = o_id next'\<rparr> [OrderPlaced (o_id next') (int (length (o_items next'))) (po_At cmd)])))"

text \<open>Both UPRs keep the order they refuse over; the law is the kernel's.\<close>

interpretation add_item: upr "Order_AddItem cmd"
  unfolding Order_AddItem_def by unfold_locales (rule decide_over.refused_keeps)

interpretation place: upr "Order_Place cmd"
  unfolding Order_Place_def by unfold_locales (rule decide_over.refused_keeps)

section \<open>Stored forms\<close>

definition itemAcceptedCodec :: "ItemAccepted OutcomeCodec" where
  "itemAcceptedCodec =
     \<lparr>codec_Encode = (\<lambda>e r. enc_Int (enc_String e (iac_Order r)) (iac_Items r)),
      codec_Decode = (\<lambda>d. let (order, d1) = dec_String d; (items, d2) = dec_Int d1 in (\<lparr>iac_Order = order, iac_Items = items\<rparr>, d2))\<rparr>"

definition placedCodec :: "PlacedResponse OutcomeCodec" where
  "placedCodec =
     \<lparr>codec_Encode = (\<lambda>e r. enc_String e (plr_Order r)),
      codec_Decode = (\<lambda>d. let (order, d1) = dec_String d in (\<lparr>plr_Order = order\<rparr>, d1))\<rparr>"

record itemState =
  is_SKU :: string
  is_Quantity :: int

record orderState =
  os_Status :: int
  os_ItemLimit :: int
  os_Items :: "itemState list"

definition state_of_snapshot :: "Snapshot \<Rightarrow> orderState" where
  "state_of_snapshot s =
     \<lparr>os_Status = sn_Status s, os_ItemLimit = sn_ItemLimit s,
      os_Items = map (\<lambda>item. \<lparr>is_SKU = item_SKU item, is_Quantity = item_Quantity item\<rparr>) (sn_Items s)\<rparr>"

definition snapshot_of_state :: "orderState \<Rightarrow> Snapshot" where
  "snapshot_of_state state =
     \<lparr>sn_ID = [], sn_Status = os_Status state, sn_ItemLimit = os_ItemLimit state,
      sn_Items = map (\<lambda>item. \<lparr>item_SKU = is_SKU item, item_Quantity = is_Quantity item\<rparr>) (os_Items state)\<rparr>"

definition with_id :: "Snapshot \<Rightarrow> OrderID \<Rightarrow> Snapshot" where
  "with_id s i = s\<lparr>sn_ID := i\<rparr>"

section \<open>The life of an order\<close>

lemma Order_clone_id [simp]: "Order_clone o' = o'"
  by (simp add: Order_clone_def)

lemmas order_ops = Order_AddItem_def Order_Place_def DecideOver_def Refuse_def Reject_def Accept_def Let_def

lemma Order_AddItem_eq:
  "Order_AddItem cmd o' =
     (if o_status o' \<noteq> Open then (o', Inl (Reject CodeOrderNotOpen ''order is not open'' []))
      else if wrap64 (int (length (o_items o')) + 1) > o_itemLimit o'
      then (o', Inl (Reject CodeOrderItemLimitExceeded ''item limit exceeded''
        [\<lparr>det_Key = ''limit'', det_Value = itoa_int (o_itemLimit o')\<rparr>,
         \<lparr>det_Key = ''attempted'', det_Value = itoa_int (wrap64 (int (length (o_items o')) + 1))\<rparr>]))
      else (o'\<lparr>o_items := o_items o' @ [\<lparr>item_SKU = ai_SKU cmd, item_Quantity = ai_Quantity cmd\<rparr>]\<rparr>,
        Inr (Accept \<lparr>iac_Order = o_id o', iac_Items = int (length (o_items o')) + 1\<rparr>
          [ItemAdded (o_id o') (ai_SKU cmd) (ai_Quantity cmd) (ai_At cmd)])))"
  by (simp add: order_ops)

lemma Order_Place_eq:
  "Order_Place cmd o' =
     (if o_status o' \<noteq> Open then (o', Inl (Reject CodeOrderNotOpen ''order is not open'' []))
      else if o_items o' = [] then (o', Inl (Reject CodeOrderEmpty ''order has no items'' []))
      else (o'\<lparr>o_status := Placed\<rparr>,
        Inr (Accept \<lparr>plr_Order = o_id o'\<rparr> [OrderPlaced (o_id o') (int (length (o_items o'))) (po_At cmd)])))"
  by (simp add: order_ops)

datatype OrderCommand = CAddItem AddItemCmd | CPlace PlaceOrderCmd

text \<open>What a command does to an order, and the events of its decision.\<close>

fun order_apply :: "OrderCommand \<Rightarrow> Order \<Rightarrow> Order \<times> OrderEvent list" where
  "order_apply (CAddItem cmd) o' =
     (case Order_AddItem cmd o' of (o1, Inl _) \<Rightarrow> (o1, []) | (o1, Inr a) \<Rightarrow> (o1, Events a))"
| "order_apply (CPlace cmd) o' =
     (case Order_Place cmd o' of (o1, Inl _) \<Rightarrow> (o1, []) | (o1, Inr a) \<Rightarrow> (o1, Events a))"

fun order_run :: "OrderCommand list \<Rightarrow> Order \<Rightarrow> Order \<times> OrderEvent list" where
  "order_run [] o' = (o', [])"
| "order_run (c # cs) o' =
     (let (o1, es1) = order_apply c o'; (o2, es2) = order_run cs o1 in (o2, es1 @ es2))"

inductive order_step :: "Order \<Rightarrow> Order \<Rightarrow> bool" where
  step: "order_apply c o' = (o1, es) \<Longrightarrow> order_step o' o1"

inductive_cases order_stepE: "order_step o' o1"

lemma order_apply_cases:
  obtains (refused) "order_apply c o' = (o', [])"
  | (added) cmd where "c = CAddItem cmd" "o_status o' = Open" "wrap64 (int (length (o_items o')) + 1) \<le> o_itemLimit o'"
      "order_apply c o' = (o'\<lparr>o_items := o_items o' @ [\<lparr>item_SKU = ai_SKU cmd, item_Quantity = ai_Quantity cmd\<rparr>]\<rparr>,
         [ItemAdded (o_id o') (ai_SKU cmd) (ai_Quantity cmd) (ai_At cmd)])"
  | (placed) cmd where "c = CPlace cmd" "o_status o' = Open" "o_items o' \<noteq> []"
      "order_apply c o' = (o'\<lparr>o_status := Placed\<rparr>, [OrderPlaced (o_id o') (int (length (o_items o'))) (po_At cmd)])"
proof (cases c)
  case (CAddItem cmd)
  then show thesis
    using refused added [of cmd] by (fastforce simp: Order_AddItem_eq Events_def Accept_def split: if_splits)
next
  case (CPlace cmd)
  then show thesis
    using refused placed [of cmd] by (fastforce simp: Order_Place_eq Events_def Accept_def split: if_splits)
qed

lemma Open_not_Placed [simp]: "Open \<noteq> Placed" "Placed \<noteq> Open"
  by (simp_all add: Open_def Placed_def)

definition order_ok :: "Order \<Rightarrow> bool" where
  "order_ok o' \<longleftrightarrow> int (length (o_items o')) \<le> max 0 (o_itemLimit o') \<and>
     (o_status o' = Open \<or> o_status o' = Placed \<and> o_items o' \<noteq> [])"

lemma order_apply_ok:
  assumes "order_ok o'" "o_itemLimit o' < 2 ^ 63 - 1"
  shows "order_ok (fst (order_apply c o')) \<and> o_id (fst (order_apply c o')) = o_id o' \<and>
    o_itemLimit (fst (order_apply c o')) = o_itemLimit o' \<and> prefix (o_items o') (o_items (fst (order_apply c o'))) \<and>
    (o_status o' = Placed \<longrightarrow> fst (order_apply c o') = o')"
proof (cases rule: order_apply_cases [of c o'])
  case (added cmd)
  have "int (length (o_items o')) < 2 ^ 63 - 1"
    using assms by (simp add: order_ok_def max_def split: if_splits)
  then have "int64 (int (length (o_items o')) + 1)"
    by (simp add: int64_def)
  with added assms show ?thesis
    by (simp add: order_ok_def)
qed (use assms in \<open>simp_all add: order_ok_def\<close>)

text \<open>
  C37. The invariant of an order. Whatever commands an order takes from its creation on, refused or accepted, it
  keeps its identity and its item limit, it never holds more items than the limit, it is placed only with items, its
  items are only appended to, and once placed it never changes again.
\<close>

theorem order_invariant:
  assumes "order_step\<^sup>*\<^sup>* (NewOrder i limit) o'" and "order_step\<^sup>*\<^sup>* o' o1" and "limit < 2 ^ 63 - 1"
  shows "o_id o' = i \<and> o_itemLimit o' = limit \<and> int (length (o_items o')) \<le> max 0 limit \<and>
    (o_status o' = Open \<or> o_status o' = Placed \<and> o_items o' \<noteq> []) \<and>
    prefix (o_items o') (o_items o1) \<and> (o_status o' = Placed \<longrightarrow> o1 = o')"
proof -
  have next_ok: "order_ok b \<and> o_id b = o_id a \<and> o_itemLimit b = o_itemLimit a \<and> prefix (o_items a) (o_items b) \<and>
      (o_status a = Placed \<longrightarrow> b = a)" if "order_step a b" "order_ok a" "o_itemLimit a = limit" for a b
    using that assms(3) order_apply_ok [of a] by (auto elim!: order_stepE simp: prod_eq_iff)
  have "order_ok (NewOrder i limit)"
    by (simp add: order_ok_def NewOrder_def)
  with assms(1) have o': "order_ok o' \<and> o_id o' = i \<and> o_itemLimit o' = limit"
    by (induction rule: rtranclp_induct) (use next_ok in \<open>auto simp: NewOrder_def\<close>)
  from assms(2) have "order_ok o1 \<and> o_itemLimit o1 = limit \<and> prefix (o_items o') (o_items o1) \<and> (o_status o' = Placed \<longrightarrow> o1 = o')"
  proof (induction rule: rtranclp_induct)
    case base
    with o' show ?case by simp
  next
    case (step y z)
    with next_ok [of y z] show ?case
      by (auto intro: prefix_order.trans)
  qed
  with o' show ?thesis
    by (auto simp: order_ok_def)
qed

lemma order_steps: "order_step\<^sup>*\<^sup>* o' (fst (order_run cs o'))"
proof (induction cs arbitrary: o')
  case (Cons c cs)
  obtain o1 es where a: "order_apply c o' = (o1, es)"
    by fastforce
  then have "order_step o' o1"
    by (rule order_step.intros)
  with Cons.IH [of o1] a show ?case
    by (auto simp: split_beta intro: converse_rtranclp_into_rtranclp)
qed simp

definition sample_add :: OrderCommand where
  "sample_add = CAddItem \<lparr>ai_SKU = ''ABC'', ai_Quantity = 2, ai_At = 5\<rparr>"

definition sample_place :: OrderCommand where
  "sample_place = CPlace \<lparr>po_At = 6\<rparr>"

definition sample_order :: Order where
  "sample_order = fst (order_run [sample_add, sample_place] (NewOrder ''P-100'' 1))"

theorem order_invariant_witness:
  "o_status sample_order = Placed \<and> length (o_items sample_order) = 1 \<and>
     fst (order_run [sample_add] sample_order) = sample_order"
proof -
  have placed: "o_status sample_order = Placed" "length (o_items sample_order) = 1"
    by (simp_all add: sample_order_def sample_add_def sample_place_def Order_AddItem_eq Order_Place_eq NewOrder_def wrap64_def)
  with order_invariant [OF order_steps [of "NewOrder ''P-100'' 1" "[sample_add, sample_place]", folded sample_order_def]
      order_steps [of sample_order "[sample_add]"]] show ?thesis
    by simp
qed

section \<open>The events of an order\<close>

definition item_event :: "OrderID \<Rightarrow> Item \<Rightarrow> Instant \<Rightarrow> OrderEvent" where
  "item_event i item at = ItemAdded i (item_SKU item) (item_Quantity item) at"

text \<open>The log of an order: one event per item, in order, and the placing last.\<close>

definition order_log :: "Order \<Rightarrow> Instant list \<Rightarrow> Instant list \<Rightarrow> OrderEvent list" where
  "order_log o' ats placed = map2 (item_event (o_id o')) (o_items o') ats @
     map (OrderPlaced (o_id o') (int (length (o_items o')))) placed"

definition log_ok :: "Order \<Rightarrow> Instant list \<Rightarrow> Instant list \<Rightarrow> bool" where
  "log_ok o' ats placed \<longleftrightarrow> length ats = length (o_items o') \<and>
     (if o_status o' = Open then placed = [] else o_status o' = Placed \<and> length placed = 1)"

lemma order_apply_log:
  assumes "log_ok o' ats placed" "order_apply c o' = (o1, es)"
  shows "\<exists>ats' placed'. log_ok o1 ats' placed' \<and> order_log o1 ats' placed' = order_log o' ats placed @ es"
proof (cases rule: order_apply_cases [of c o'])
  case refused
  with assms show ?thesis by auto
next
  case (added cmd)
  with assms show ?thesis
    by (intro exI [of _ "ats @ [ai_At cmd]"] exI [of _ "[]"])
      (simp add: log_ok_def order_log_def item_event_def)
next
  case (placed cmd)
  with assms show ?thesis
    by (intro exI [of _ ats] exI [of _ "[po_At cmd]"]) (simp add: log_ok_def order_log_def)
qed

lemma order_run_log:
  "log_ok o' ats placed \<Longrightarrow> order_run cs o' = (o1, es) \<Longrightarrow>
     \<exists>ats' placed'. log_ok o1 ats' placed' \<and> order_log o1 ats' placed' = order_log o' ats placed @ es"
proof (induction cs arbitrary: o' ats placed es)
  case (Cons c cs)
  obtain o2 es2 es3 where r: "order_apply c o' = (o2, es2)" "order_run cs o2 = (o1, es3)" "es = es2 @ es3"
    using Cons.prems(2) by (auto simp: Let_def split: prod.splits)
  obtain ats2 placed2 where "log_ok o2 ats2 placed2" "order_log o2 ats2 placed2 = order_log o' ats placed @ es2"
    using order_apply_log [OF Cons.prems(1) r(1)] by blast
  with Cons.IH [OF this(1) r(2)] r(3) show ?case
    by simp
qed auto

text \<open>
  The events of an order are its complete log. For any sequence of commands from the creation of an order,
  the events of the accepted decisions are, in order, one \<open>ItemAdded\<close> for each item the order holds, with its SKU
  and its quantity, followed by exactly one \<open>OrderPlaced\<close> with the number of items when the order is placed and by
  nothing when it is not: a refused command leaves no event, and no event is lost, repeated or out of order.
\<close>

theorem order_events_are_its_log:
  "case order_run cs (NewOrder i limit) of
     (o', es) \<Rightarrow> \<exists>ats placed. length ats = length (o_items o') \<and>
       length placed = (if o_status o' = Placed then 1 else 0) \<and> o_status o' \<in> {Open, Placed} \<and>
       es = map2 (\<lambda>item at. ItemAdded i (item_SKU item) (item_Quantity item) at) (o_items o') ats @
         map (OrderPlaced i (int (length (o_items o')))) placed"
proof -
  obtain o' es where r: "order_run cs (NewOrder i limit) = (o', es)"
    by fastforce
  have "log_ok (NewOrder i limit) [] []" "order_log (NewOrder i limit) [] [] = []"
    by (simp_all add: log_ok_def order_log_def NewOrder_def)
  with order_run_log [OF _ r] obtain ats placed where log: "log_ok o' ats placed" "order_log o' ats placed = es"
    by fastforce
  have "o_id (fst (order_run cs o0)) = o_id o0" for o0
  proof (induction cs arbitrary: o0)
    case (Cons c cs)
    show ?case
      by (cases rule: order_apply_cases [of c o0]) (simp_all add: split_beta Cons.IH)
  qed simp
  from this [of "NewOrder i limit"] r have "o_id o' = i"
    by (simp add: NewOrder_def)
  with r log show ?thesis
    by (auto simp: log_ok_def order_log_def item_event_def [abs_def] split: if_splits)
qed

section \<open>Stored outcomes and stored orders\<close>

interpretation item_accepted: outcome_codec itemAcceptedCodec "\<lambda>r. go_string (iac_Order r) \<and> int64 (iac_Items r)"
proof (unfold_locales, goal_cases)
  case (1 buf r)
  show ?case
    by (simp add: itemAcceptedCodec_def enc_String_buf [of buf] enc_Int_buf [of "_ @ _"] enc_Int_buf [of "enc_String [] _"])
next
  case (2 r rest)
  then show ?case
    by (simp add: itemAcceptedCodec_def enc_Int_buf [of "enc_String [] _"] dec_String_enc dec_Int_enc)
qed

interpretation placed_response: outcome_codec placedCodec "\<lambda>r. go_string (plr_Order r)"
  by unfold_locales (simp_all add: placedCodec_def enc_String_buf [symmetric] dec_String_enc)

lemma length_itoa: "n < 10 ^ k \<Longrightarrow> 0 < k \<Longrightarrow> length (itoa n) \<le> k"
proof (induction k arbitrary: n)
  case (Suc k)
  show ?case
  proof (cases "n < 10")
    case False
    with Suc.prems have "n div 10 < 10 ^ k" "0 < k"
      by (auto simp: div_less_iff_less_mult intro: ccontr)
    with Suc.IH [of "n div 10"] False show ?thesis
      by (simp add: itoa.simps [of n])
  qed (simp add: itoa.simps [of n])
qed simp

lemma go_string_itoa_int: "int64 i \<Longrightarrow> go_string (itoa_int i)"
proof -
  assume "int64 i"
  then have "nat i < 10 ^ 20" "nat (- i) < 10 ^ 20"
    by (auto simp: int64_def)
  from length_itoa [OF this(1)] length_itoa [OF this(2)] show ?thesis
    by (simp add: itoa_int_def go_string_def)
qed

definition outcome_of :: "('r, 'e) decision \<Rightarrow> 'r Outcome" where
  "outcome_of d = (case d of Inl r \<Rightarrow> ORejected r | Inr a \<Rightarrow> OAccepted (acc_response a))"

text \<open>
  What an order answers can be stored and read back. The outcome of \<open>AddItem\<close> and of \<open>Place\<close> over any order
  whose identifier and limit are Go values, a refusal with its details included, is decoded from its stored form as
  it was; and an order written to the provider's column and read back under its identifier is the same order.
\<close>

theorem order_round_trips:
  assumes "go_string (o_id o')" and "int64 (o_itemLimit o')" and "length (o_items o') < 2 ^ 63 - 1"
  shows "DecodeOutcome itemAcceptedCodec (EncodeOutcome itemAcceptedCodec (outcome_of (snd (Order_AddItem add o')))) =
      Ok (outcome_of (snd (Order_AddItem add o'))) \<and>
    DecodeOutcome placedCodec (EncodeOutcome placedCodec (outcome_of (snd (Order_Place place o')))) =
      Ok (outcome_of (snd (Order_Place place o'))) \<and>
    FromSnapshot (with_id (snapshot_of_state (state_of_snapshot (Order_Snapshot o'))) (o_id o')) = o'"
proof (intro conjI)
  have n: "int64 (int (length (o_items o')) + 1)" "int64 (1 + int (length (o_items o')))"
    using assms(3) by (simp_all add: int64_def)
  have codes: "go_string CodeOrderNotOpen" "go_string CodeOrderItemLimitExceeded" "go_string CodeOrderEmpty"
    by (simp_all add: go_string_def CodeOrderNotOpen_def CodeOrderItemLimitExceeded_def CodeOrderEmpty_def)
  show "DecodeOutcome itemAcceptedCodec (EncodeOutcome itemAcceptedCodec (outcome_of (snd (Order_AddItem add o')))) =
      Ok (outcome_of (snd (Order_AddItem add o')))"
    using assms n codes go_string_itoa_int [OF assms(2)] go_string_itoa_int [OF n(1)]
    by (intro item_accepted.round_trip)
      (auto simp: Order_AddItem_eq outcome_of_def Accept_def Reject_def rejection_ok_def maxDetailsCount_def go_string_def
        split: if_splits)
  show "DecodeOutcome placedCodec (EncodeOutcome placedCodec (outcome_of (snd (Order_Place place o')))) =
      Ok (outcome_of (snd (Order_Place place o')))"
    using assms codes
    by (intro placed_response.round_trip)
      (auto simp: Order_Place_eq outcome_of_def Accept_def Reject_def rejection_ok_def maxDetailsCount_def go_string_def
        split: if_splits)
  show "FromSnapshot (with_id (snapshot_of_state (state_of_snapshot (Order_Snapshot o'))) (o_id o')) = o'"
    by (simp add: FromSnapshot_def with_id_def snapshot_of_state_def state_of_snapshot_def Order_Snapshot_def comp_def
        map_idI)
qed

theorem order_round_trips_witness:
  "DecodeOutcome itemAcceptedCodec (EncodeOutcome itemAcceptedCodec
     (outcome_of (snd (Order_AddItem \<lparr>ai_SKU = ''ABC'', ai_Quantity = 2, ai_At = 5\<rparr> (NewOrder ''P-100'' 3))))) =
   Ok (OAccepted \<lparr>iac_Order = ''P-100'', iac_Items = 1\<rparr>)"
  using order_round_trips [of "NewOrder ''P-100'' 3" "\<lparr>ai_SKU = ''ABC'', ai_Quantity = 2, ai_At = 5\<rparr>"]
  by (simp add: NewOrder_def go_string_def int64_def Order_AddItem_eq outcome_of_def Accept_def wrap64_def)

end
