(* ===== verification/Orders_Application.thy ===== *)
theory Orders_Application
  imports Application_Aggregate Orders_Domain
begin

text \<open>
  The use cases of the orders context, \<^verbatim>\<open>apps/backend/orders/application\<close>: the service with its operations
  \<open>AddItem\<close>, \<open>PlaceOrder\<close> and \<open>FindOrder\<close>, and the permissions its composition root declares
  (\<^verbatim>\<open>app/authorization.go\<close>). The resources of a transaction are functions over it; the unit of work, whose callback
  result differs between the operations, is an argument of each.
\<close>

section \<open>The service\<close>

definition AggregateType :: string where "AggregateType = ''orders.Order''"
definition Destination :: string where "Destination = ''orders.events''"
definition CommandConsumer :: string where "CommandConsumer = ''orders.commands''"
definition OperationAddItem :: string where "OperationAddItem = ''orders.AddItem''"
definition OperationPlaceOrder :: string where "OperationPlaceOrder = ''orders.PlaceOrder''"
definition OperationFindOrder :: string where "OperationFindOrder = ''orders.FindOrder''"
definition maxEventsPerCommand :: int where "maxEventsPerCommand = 1"

datatype OrderOperation = OpAddItem OrderID SKU int | OpPlaceOrder OrderID | OpFindOrder OrderID

record ('tx, 'p) Resources =
  res_Load :: "carrier \<Rightarrow> OrderID \<Rightarrow> 'tx \<Rightarrow> (Snapshot \<times> Version) result"
  res_Save :: "carrier \<Rightarrow> OrderID \<Rightarrow> Snapshot \<Rightarrow> Version \<Rightarrow> 'tx \<Rightarrow> 'tx \<times> unit result"
  res_Enqueue :: "OrderEvent OutboxEntry \<Rightarrow> 'tx \<Rightarrow> 'tx \<times> unit result"
  res_Register :: "carrier \<Rightarrow> Receipt \<Rightarrow> 'tx \<Rightarrow> 'tx \<times> 'p Reception result"
  res_Complete :: "'p \<Rightarrow> Completion \<Rightarrow> 'tx \<Rightarrow> 'p \<times> 'tx \<times> unit result"
  res_Completed :: "'p \<Rightarrow> bool"

record 'g Service =
  sv_Now :: Instant
  sv_IDs :: "'g \<Rightarrow> 'g \<times> MessageID"
  sv_Authorize :: "OrderOperation Authorize"
  sv_ItemLimit :: int
  sv_Idempotency :: IdempotencyPolicy
  sv_Instrumentation :: "(carrier \<Rightarrow> string \<Rightarrow> carrier) option"

definition Service_executor ::
    "('st, 'tx, 'r Outcome option \<times> bool \<times> slots) unit_of_work \<Rightarrow> ('tx, 'p) Resources \<Rightarrow> 'g Service \<Rightarrow>
     ('st, 'tx, 'p, 'g, OrderOperation, 'r) Executor" where
  "Service_executor uow res s =
     \<lparr>x_UoW = uow, x_Register = res_Register res, x_Complete = res_Complete res, x_Completed = res_Completed res,
      x_Consumer = CommandConsumer, x_Now = sv_Now s, x_IDs = sv_IDs s, x_MaxEvents = maxEventsPerCommand,
      x_Policy = sv_Idempotency s, x_Authorize = sv_Authorize s, x_Instrumentation = sv_Instrumentation s\<rparr>"

definition order_origin :: "OrderID \<Rightarrow> Origin" where
  "order_origin order = \<lparr>org_Destination = Destination, org_AggregateType = AggregateType, org_AggregateID = order\<rparr>"

definition errorf :: "string \<Rightarrow> 'tx \<times> 'r result \<Rightarrow> 'tx \<times> 'r result" where
  "errorf message r = map_prod id (res_map_err (\<lambda>e. Wrapped message [e])) r"

definition run_AddItem :: "('tx, 'p) Resources \<Rightarrow> 'g Service \<Rightarrow> OrderID \<Rightarrow> SKU \<Rightarrow> int \<Rightarrow> carrier \<Rightarrow> Identity \<Rightarrow> 'tx \<Rightarrow>
    'tx \<times> ItemAccepted Outcome result" where
  "run_AddItem res s order sku quantity ctx identity tx =
     errorf (''application: add item to '' @ order)
       (Decide ctx (res_Load res ctx) (res_Save res ctx) (res_Enqueue res) (order_origin order) order identity
         (OrNew (\<lambda>i. NewOrder i (sv_ItemLimit s)) FromSnapshot) Order_Snapshot
         (Order_AddItem \<lparr>ai_SKU = sku, ai_Quantity = quantity, ai_At = idn_OccurredAt identity\<rparr>) tx)"

definition Service_AddItem where
  "Service_AddItem uow res s ctx order sku quantity =
     Execute ctx (Service_executor uow res s)
       \<lparr>c_Operation = OperationAddItem, c_Object = order, c_Input = OpAddItem order sku quantity,
        c_Fingerprint = Some (fp_Int quantity (fp_String sku (fp_String order (NewFingerprint OperationAddItem)))),
        c_Codec = itemAcceptedCodec, c_Run = run_AddItem res s order sku quantity\<rparr>"

definition run_PlaceOrder :: "('tx, 'p) Resources \<Rightarrow> OrderID \<Rightarrow> carrier \<Rightarrow> Identity \<Rightarrow> 'tx \<Rightarrow> 'tx \<times> PlacedResponse Outcome result" where
  "run_PlaceOrder res order ctx identity tx =
     errorf (''application: place order '' @ order)
       (Decide ctx (res_Load res ctx) (res_Save res ctx) (res_Enqueue res) (order_origin order) order identity
         (Existing FromSnapshot) Order_Snapshot (Order_Place \<lparr>po_At = idn_OccurredAt identity\<rparr>) tx)"

definition Service_PlaceOrder where
  "Service_PlaceOrder uow res s ctx order =
     Execute ctx (Service_executor uow res s)
       \<lparr>c_Operation = OperationPlaceOrder, c_Object = order, c_Input = OpPlaceOrder order,
        c_Fingerprint = Some (fp_String order (NewFingerprint OperationPlaceOrder)),
        c_Codec = placedCodec, c_Run = run_PlaceOrder res order\<rparr>"

definition Service_FindOrder ::
    "(carrier \<Rightarrow> OrderID \<Rightarrow> (Snapshot \<times> Version) result) \<Rightarrow> 'g Service \<Rightarrow> carrier \<Rightarrow> OrderID \<Rightarrow> ('st, 'g) world \<Rightarrow>
     ('st, 'g) world \<times> Snapshot result" where
  "Service_FindOrder reader s ctx i =
     Query ctx (sv_Instrumentation s) (sv_Authorize s) OperationFindOrder (OpFindOrder i)
       (\<lambda>ctx. res_map_err (\<lambda>e. Wrapped (''application: find order '' @ i) [e]) (res_map fst (reader ctx i)))"

fun permissionOf :: "OrderOperation \<Rightarrow> Permission" where
  "permissionOf (OpAddItem _ _ _) = ''orders:write''"
| "permissionOf (OpPlaceOrder _) = ''orders:write''"
| "permissionOf (OpFindOrder _) = ''orders:read''"

definition Authorization :: "OrderOperation Authorize" where
  "Authorization = Permitted permissionOf"

section \<open>The service over the in-memory store\<close>

definition mem_resources :: "(OrderID, Snapshot) Table \<Rightarrow> ((OrderID, Snapshot, OrderEvent) Tx, memoryPending) Resources" where
  "mem_resources t =
     \<lparr>res_Load = Repository_Load t, res_Save = Repository_Save t, res_Enqueue = Outbox_Enqueue,
      res_Register = mem_Register (Tx_CommandInbox CommandConsumer), res_Complete = Pending_Complete,
      res_Completed = mp_completed\<rparr>"

lemma mem_service_executor:
  "Service_executor Within (mem_resources t) s =
     mem_executor CommandConsumer (sv_Now s) (sv_IDs s) maxEventsPerCommand (sv_Idempotency s) (sv_Authorize s) (sv_Instrumentation s)"
  by (simp add: Service_executor_def mem_resources_def mem_executor_def)

text \<open>The order with identifier \<open>i\<close> under the item limit \<open>limit\<close> that the service was configured with.\<close>

definition order_of :: "int \<Rightarrow> OrderID \<Rightarrow> Order \<Rightarrow> bool" where
  "order_of limit i o' \<longleftrightarrow> o_id o' = i \<and> o_itemLimit o' = limit \<and> order_ok o'"

lemma restore_snapshot: "FromSnapshot (Order_Snapshot o') = o'"
  by (simp add: FromSnapshot_def Order_Snapshot_def)

text \<open>
  The orders of a service are an aggregate of the skeleton under either operation. Limits are those a configuration
  can hold: at \<open>2 ^ 63 - 1\<close> the count of attempted items would wrap.
\<close>

definition limit_ok :: "int \<Rightarrow> bool" where
  "limit_ok limit \<longleftrightarrow> limit < 2 ^ 63 - 1"

interpretation added: aggregate "\<lambda>i o'. limit_ok limit \<and> order_of limit i o'" FromSnapshot Order_Snapshot "Order_AddItem cmd"
proof (unfold_locales, goal_cases)
  case (2 i o' o1 accepted)
  then show ?case
    using order_apply_ok [of o' "CAddItem cmd"] by (simp add: order_of_def limit_ok_def)
qed (rule restore_snapshot)

interpretation placing: aggregate "\<lambda>i o'. limit_ok limit \<and> order_of limit i o'" FromSnapshot Order_Snapshot "Order_Place cmd"
proof (unfold_locales, goal_cases)
  case (2 i o' o1 accepted)
  then show ?case
    using order_apply_ok [of o' "CPlace cmd"] by (simp add: order_of_def limit_ok_def)
qed (rule restore_snapshot)

text \<open>One call of the service, by anyone, at any time and under any key, and the world it leaves.\<close>

inductive orders_call :: "(OrderID, Snapshot) Table \<Rightarrow> int \<Rightarrow> ((OrderID, Snapshot, OrderEvent) Store, 'g) world \<Rightarrow>
    ((OrderID, Snapshot, OrderEvent) Store, 'g) world \<Rightarrow> bool" for t limit where
  add_item: "sv_ItemLimit s = limit \<Longrightarrow> Service_AddItem Within (mem_resources t) s ctx order sku quantity wd = (wd', r) \<Longrightarrow>
    orders_call t limit wd wd'"
| place_order: "Service_PlaceOrder Within (mem_resources t) s ctx order wd = (wd', r) \<Longrightarrow> orders_call t limit wd wd'"
| find_order: "Service_FindOrder (Reader_Load t (wd_store wd)) s ctx order wd = (wd', r) \<Longrightarrow> orders_call t limit wd wd'"

abbreviation "orders_inv t limit \<equiv> rows_inv t (\<lambda>i s. limit_ok limit \<and> order_of limit i (FromSnapshot s))"

lemma errorf_fst [simp]: "fst (errorf m r) = fst r"
  by (cases r) (simp add: errorf_def)

lemma Service_AddItem_keeps:
  assumes "orders_inv t limit (st_tables (wd_store wd))" "Table_validate t = Ok ()" "faithful t" "limit_ok limit" "sv_ItemLimit s = limit"
  shows "orders_inv t limit (st_tables (wd_store (fst (Service_AddItem Within (mem_resources t) s ctx order sku quantity wd))))"
  unfolding Service_AddItem_def mem_service_executor
proof (rule Execute_keeps_tables [where I = "orders_inv t limit", OF assms(1)], goal_cases)
  case (1 ts)
  then show ?case
    using assms(3) by (rule rows_inv_clone)
next
  case (2 ctx identity tx)
  have "added.loads_ok limit t ctx order (OrNew (\<lambda>i. NewOrder i (sv_ItemLimit s)) FromSnapshot)"
    using assms(3-5) by (intro added.OrNew_loads_ok) (simp_all add: order_of_def order_ok_def NewOrder_def)
  with 2 assms(2,3) show ?case
    using added.Decide_keeps_rows [where limit = limit] by (simp add: run_AddItem_def mem_resources_def added.row_holds_def [abs_def])
qed

lemma Service_PlaceOrder_keeps:
  assumes "orders_inv t limit (st_tables (wd_store wd))" "Table_validate t = Ok ()" "faithful t"
  shows "orders_inv t limit (st_tables (wd_store (fst (Service_PlaceOrder Within (mem_resources t) s ctx order wd))))"
  unfolding Service_PlaceOrder_def mem_service_executor
proof (rule Execute_keeps_tables [where I = "orders_inv t limit", OF assms(1)], goal_cases)
  case (1 ts)
  then show ?case
    using assms(3) by (rule rows_inv_clone)
next
  case (2 ctx identity tx)
  then show ?case
    using placing.Decide_keeps_rows [where limit = limit] placing.Existing_loads_ok [OF assms(3)] assms(2,3)
    by (simp add: run_PlaceOrder_def mem_resources_def placing.row_holds_def [abs_def])
qed

lemma Query_store: "wd_store (fst (Query ctx inst authz operation input loader wd)) = wd_store wd"
  by (simp add: Query_def traced_def Let_def split: res.split)

text \<open>
  C38. Every stored order is a valid order. Whatever sequence of calls the service takes over an empty store, in
  whatever tenants, by whatever callers, with or without permission, under repeated keys or at repeated versions:
  each row of the table of orders is the order it is filed under, with the service's limit, no more items than
  that limit, in one of the two states, and with at least one item when it is placed.
\<close>

theorem stored_orders_are_valid:
  fixes wd wd' :: "((OrderID, Snapshot, OrderEvent) Store, 'g) world"
  assumes "(orders_call t limit)\<^sup>*\<^sup>* wd wd'" and "st_tables (wd_store wd) = []"
    and "Table_validate t = Ok ()" and "faithful t" and "limit < 2 ^ 63 - 1"
    and "abs_tables (st_tables (wd_store wd')) (tbl_Name t, key) = Some rec" and "s = row_snapshot rec"
  shows "sn_ID s = rk_id key \<and> sn_ItemLimit s = limit \<and> int (length (sn_Items s)) \<le> max 0 limit \<and>
    (sn_Status s = Open \<or> sn_Status s = Placed \<and> sn_Items s \<noteq> [])"
proof -
  have keeps: "orders_inv t limit (st_tables (wd_store b))" if "orders_call t limit a b" "orders_inv t limit (st_tables (wd_store a))"
    for a b :: "((OrderID, Snapshot, OrderEvent) Store, 'g) world"
    using that
  proof (cases rule: orders_call.cases)
    case (add_item s ctx order sku quantity r)
    with that(2) Service_AddItem_keeps [of t limit a s ctx order sku quantity] assms(3-5) show ?thesis
      by (simp add: limit_ok_def)
  next
    case (place_order s ctx order r)
    with that(2) Service_PlaceOrder_keeps [of t limit a s ctx order] assms(3,4) show ?thesis
      by simp
  next
    case (find_order s ctx order r)
    with that(2) Query_store [of ctx "sv_Instrumentation s" "sv_Authorize s" OperationFindOrder "OpFindOrder order" _ a] show ?thesis
      by (metis Service_FindOrder_def fst_conv)
  qed
  have start: "orders_inv t limit (st_tables (wd_store wd))"
    using assms(2) by (simp add: rows_inv_empty)
  from assms(1) have "orders_inv t limit (st_tables (wd_store wd'))"
    by (induction rule: rtranclp_induct) (use start keeps in auto)
  with assms(6,7) show ?thesis
    by (auto simp: rows_inv_def order_of_def order_ok_def FromSnapshot_def)
qed

definition order_table :: "(OrderID, Snapshot) Table" where
  "order_table = \<lparr>tbl_Name = ''orders'', tbl_Clone = None, tbl_Unique = [], tbl_Format = id\<rparr>"

definition sample_service :: "SequenceIDs Service" where
  "sample_service = \<lparr>sv_Now = 10, sv_IDs = NewMessageID, sv_Authorize = Authorization, sv_ItemLimit = 3,
     sv_Idempotency = sample_policy, sv_Instrumentation = None\<rparr>"

definition orders_world :: "((OrderID, Snapshot, OrderEvent) Store, SequenceIDs) world" where
  "orders_world = \<lparr>wd_store = Store_New, wd_ids = \<lparr>seq_Prefix = ''m-'', seq_issued = 0\<rparr>, wd_slots = no_slots, wd_trace = []\<rparr>"

definition orders_after :: "((OrderID, Snapshot, OrderEvent) Store, SequenceIDs) world" where
  "orders_after = fst (Service_AddItem Within (mem_resources order_table) sample_service sample_call ''P-100'' ''ABC'' 2 orders_world)"

lemma orders_after_row:
  "map_of (tab_rows (the (map_of (st_tables (wd_store orders_after)) ''orders''))) \<lparr>rk_tenant = ''t-1'', rk_id = ''P-100''\<rparr> =
     Some \<lparr>row_snapshot = \<lparr>sn_ID = ''P-100'', sn_Status = 0, sn_ItemLimit = 3,
       sn_Items = [\<lparr>item_SKU = ''ABC'', item_Quantity = 2\<rparr>]\<rparr>, row_version = 1\<rparr>"
  by code_simp

lemma orders_after_table: "map_of (st_tables (wd_store orders_after)) ''orders'' \<noteq> None"
  by code_simp

theorem stored_orders_are_valid_witness:
  "\<exists>rec. abs_tables (st_tables (wd_store orders_after)) (''orders'', \<lparr>rk_tenant = ''t-1'', rk_id = ''P-100''\<rparr>) = Some rec \<and>
     sn_ID (row_snapshot rec) = ''P-100'' \<and> int (length (sn_Items (row_snapshot rec))) \<le> 3"
proof -
  have call: "orders_call order_table 3 orders_world orders_after"
    by (rule orders_call.add_item [where s = sample_service and ctx = sample_call and order = "''P-100''" and sku = "''ABC''" and quantity = 2],
        simp add: sample_service_def, unfold orders_after_def, rule surjective_pairing)
  obtain rec where rec: "abs_tables (st_tables (wd_store orders_after)) (tbl_Name order_table, \<lparr>rk_tenant = ''t-1'', rk_id = ''P-100''\<rparr>) = Some rec"
    using orders_after_row orders_after_table by (auto simp: abs_tables_def order_table_def)
  have table: "Table_validate order_table = Ok ()" "faithful order_table" "st_tables (wd_store orders_world) = []"
    by (simp_all add: Table_validate_def order_table_def faithful_def Table_copy_def orders_world_def Store_New_def)
  from stored_orders_are_valid [OF r_into_rtranclp [where r = "orders_call order_table 3", OF call] table(3,1,2) _ rec refl] rec show ?thesis
    by (simp add: order_table_def)
qed

section \<open>Permissions\<close>

text \<open>
  No operation of the context runs without its permission. Under the authorization the composition root
  declares, a call whose execution context lacks a tenant, or whose subject lacks \<open>orders:write\<close> for the two commands
  and \<open>orders:read\<close> for the query, returns an error and leaves the store, the identifiers and the marks as they were:
  the trace alone grows, by the beginning and the end of the operation.
\<close>

theorem orders_denied_without_permission:
  assumes "sv_Authorize s = Authorization" and "sv_Instrumentation s = None"
  shows "(\<not> permission_held (\<lambda>_. ''orders:write'') ctx () \<longrightarrow>
      (case Service_AddItem uow res s ctx order sku quantity wd of
         (wd', Err e) \<Rightarrow> wd' = traced [BeginOp OperationAddItem, EndOp (AuthorizationResult e)] wd
       | _ \<Rightarrow> False) \<and>
      (case Service_PlaceOrder uow' res s ctx order wd of
         (wd', Err e) \<Rightarrow> wd' = traced [BeginOp OperationPlaceOrder, EndOp (AuthorizationResult e)] wd
       | _ \<Rightarrow> False)) \<and>
    (\<not> permission_held (\<lambda>_. ''orders:read'') ctx () \<longrightarrow>
      (case Service_FindOrder reader s ctx order wd of
         (wd', Err e) \<Rightarrow> wd' = traced [BeginOp OperationFindOrder, EndOp (AuthorizationResult e)] wd
       | _ \<Rightarrow> False))"
proof -
  have denied: "\<exists>e. Authorization ctx op = Err e" if "\<not> permission_held (\<lambda>_. permissionOf op) ctx ()" for op
    using Permitted_refuses [of permissionOf ctx op] that by (auto simp: Authorization_def permission_held_def)
  have tr: "traced ys (traced xs wd) = traced (xs @ ys) wd" for xs ys
    by (simp add: traced_def)
  show ?thesis
    using denied [of "OpAddItem order sku quantity"] denied [of "OpPlaceOrder order"] denied [of "OpFindOrder order"] assms
    by (auto simp: Service_AddItem_def Service_PlaceOrder_def Service_FindOrder_def Execute_def Query_def Service_executor_def
        BeginOperation_def tr)
qed

theorem orders_denied_without_permission_witness:
  "case Service_PlaceOrder Within (mem_resources order_table) sample_service background ''P-100'' orders_world of
     (wd', Err e) \<Rightarrow> wd' = traced [BeginOp OperationPlaceOrder, EndOp (AuthorizationResult e)] orders_world
   | _ \<Rightarrow> False"
proof -
  have denied: "\<not> permission_held (\<lambda>_. ''orders:write'') background ()"
    by (simp add: permission_held_def background_def)
  have service: "sv_Authorize sample_service = Authorization" "sv_Instrumentation sample_service = None"
    by (simp_all add: sample_service_def)
  show ?thesis
    by (rule conjunct2 [OF mp [OF conjunct1 [OF orders_denied_without_permission [OF service]] denied]])
qed

end
