(* ===== verification/Memory_Objects.thy ===== *)
theory Memory_Objects
  imports Go_SHA256 Application_UseCase
begin

text \<open>
  The object store: its vocabulary and pure rules (\<^verbatim>\<open>ports/objectstore.go\<close>) and its in-memory realization
  (\<^verbatim>\<open>memory/objectstore.go\<close>). A bucket is its versions and the count of those it issued; the bucket's clock is the
  argument \<open>now\<close> of the operations that read it. The two readings a call makes of \<open>ctx.Err()\<close> are the two fields of
  the carrier, as in the unit of work.
\<close>

section \<open>Vocabulary\<close>

type_synonym ObjectKey = string
type_synonym VersionID = string
type_synonym Scope = string
type_synonym RetentionMode = string

definition ScopeTenant :: Scope where "ScopeTenant = ''tenant''"
definition ScopePlatform :: Scope where "ScopePlatform = ''platform''"
definition RetentionCompliance :: RetentionMode where "RetentionCompliance = ''COMPLIANCE''"
definition RetentionGovernance :: RetentionMode where "RetentionGovernance = ''GOVERNANCE''"

definition ObjectKey_Validate :: "ObjectKey \<Rightarrow> unit result" where
  "ObjectKey_Validate k =
     (if k = [] then FailWith ErrObjectKeyInvalid ''empty''
      else if has_prefix k ''/'' then FailWith ErrObjectKeyInvalid ''leading slash''
      else if list_ex (\<lambda>segment. segment = ''.'' \<or> segment = ''..'') (split_on (CHR ''/'') k)
        then FailWith ErrObjectKeyInvalid ''dot segment''
      else Ok ())"

record ObjectRef =
  ref_Key :: ObjectKey
  ref_Version :: VersionID

definition RetentionMode_Known :: "RetentionMode \<Rightarrow> bool" where
  "RetentionMode_Known m \<longleftrightarrow> m = RetentionCompliance \<or> m = RetentionGovernance"

record Retention =
  ret_Mode :: RetentionMode
  ret_Until :: Instant

definition RetentionSpan_Add :: "int \<Rightarrow> Instant \<Rightarrow> Instant option" where
  "RetentionSpan_Add s at =
     (let sum = wrap64 (at + s) in
      if (s > 0 \<and> sum < at) \<or> (s < 0 \<and> sum > at) then None else Some sum)"

record RetentionCeiling =
  ceil_Span :: int
  ceil_Origin :: string

record Encryption =
  en_Algorithm :: string
  en_KeyRef :: string

record ObjectStoreDeclaration =
  decl_Scope :: Scope
  decl_Encryption :: Encryption
  decl_Ceiling :: "RetentionCeiling option"

definition Declaration_Validate :: "ObjectStoreDeclaration \<Rightarrow> unit result" where
  "Declaration_Validate d =
     (if decl_Scope d = [] then Fail ErrScopeUndeclared
      else if decl_Scope d \<noteq> ScopeTenant \<and> decl_Scope d \<noteq> ScopePlatform then FailWith ErrScopeUndeclared ''unknown scope''
      else if en_Algorithm (decl_Encryption d) = [] then Fail ErrEncryptionUndeclared
      else (case decl_Ceiling d of
          None \<Rightarrow> Ok ()
        | Some ceiling \<Rightarrow>
            if ceil_Span ceiling \<le> 0 then FailWith ErrRetentionCeilingUndeclared ''ceiling span must be positive''
            else if ceil_Origin ceiling = [] then FailWith ErrRetentionCeilingUndeclared ''ceiling origin is required (DAT-15)''
            else Ok ()))"

record PutRequest =
  put_Key :: ObjectKey
  put_Body :: bytes
  put_ContentSHA256 :: string
  put_ContentType :: string
  put_Retention :: "Retention option"

record ObjectVersion =
  ov_Key :: ObjectKey
  ov_Version :: VersionID
  ov_ContentSHA256 :: string
  ov_Size :: int
  ov_StoredAt :: Instant

definition ObjectVersion_Ref :: "ObjectVersion \<Rightarrow> ObjectRef" where
  "ObjectVersion_Ref v = \<lparr>ref_Key = ov_Key v, ref_Version = ov_Version v\<rparr>"

record ObjectInfo =
  oi_Version :: ObjectVersion
  oi_ContentType :: string
  oi_Retention :: "Retention option"
  oi_LegalHold :: bool
  oi_Encryption :: Encryption

record Object =
  ob_Info :: ObjectInfo
  ob_Body :: bytes

record LegalHold =
  lh_On :: bool
  lh_Reason :: string

record HoldReceipt =
  hr_Ref :: ObjectRef
  hr_On :: bool
  hr_Reason :: string
  hr_At :: Instant

record PurgeReceipt =
  pr_Ref :: ObjectRef
  pr_PurgedAt :: Instant
  pr_RetainedUntil :: Instant

section \<open>The bucket and its stores\<close>

definition retentionResolution :: Instant where
  "retentionResolution = 1000000000"

record objectAddress =
  oa_physical :: string
  oa_version :: VersionID

record storedVersion =
  sv_info :: ObjectInfo
  sv_body :: bytes

record ObjectBucket =
  bk_versions :: "(objectAddress \<times> storedVersion) list"
  bk_issued :: nat

definition NewObjectBucket :: ObjectBucket where
  "NewObjectBucket = \<lparr>bk_versions = [], bk_issued = 0\<rparr>"

text \<open>A sorted list of the distinct physical keys; \<open>slices.Compact\<close> over a sorted slice removes every repetition.\<close>

definition PhysicalKeys :: "ObjectBucket \<Rightarrow> string list" where
  "PhysicalKeys b = remdups_adj (sort (map (oa_physical \<circ> fst) (bk_versions b)))"

definition bucket_acquire :: "carrier \<Rightarrow> unit result" where
  "bucket_acquire ctx = (case ctx_err_locked ctx of Some err \<Rightarrow> Err err | None \<Rightarrow> Ok ())"

definition NewObjectStore :: "bool \<Rightarrow> ObjectStoreDeclaration \<Rightarrow> ObjectStoreDeclaration result" where
  "NewObjectStore bucketWithClock decl =
     (if \<not> bucketWithClock then Fail ErrIncompleteObjectStore
      else res_map (\<lambda>_. decl) (Declaration_Validate decl))"

definition wholeSeconds :: "Retention \<Rightarrow> Retention" where
  "wholeSeconds r = r\<lparr>ret_Until := wrap64 (ret_Until r - go_rem (ret_Until r) retentionResolution)\<rparr>"

definition checkRetention :: "ObjectStoreDeclaration \<Rightarrow> Instant \<Rightarrow> Retention \<Rightarrow> unit result" where
  "checkRetention decl now r =
     (case decl_Ceiling decl of
        None \<Rightarrow> Fail ErrRetentionCeilingUndeclared
      | Some declared \<Rightarrow>
          if \<not> RetentionMode_Known (ret_Mode r) then FailWith ErrRetentionModeUnknown (ret_Mode r)
          else if ret_Until r \<le> now then Fail ErrRetentionUnbounded
          else (case RetentionSpan_Add (ceil_Span declared) now of
              Some ceiling \<Rightarrow> if ret_Until r > ceiling then Fail ErrRetentionAboveCeiling else Ok ()
            | None \<Rightarrow> Ok ()))"

definition physical :: "ObjectStoreDeclaration \<Rightarrow> carrier \<Rightarrow> ObjectKey \<Rightarrow> string result" where
  "physical decl ctx key =
     (case ctx_err ctx of
        Some err \<Rightarrow> Err err
      | None \<Rightarrow>
          res_bind (RequireExecutionContext ctx) (\<lambda>execution.
            if decl_Scope decl = ScopePlatform
            then (case ec_Tenant execution of Some _ \<Rightarrow> Fail ErrScopeMismatch | None \<Rightarrow> Ok (''platform/'' @ key))
            else (case ec_Tenant execution of
                None \<Rightarrow> Fail ErrTenantUnresolved
              | Some tenant \<Rightarrow>
                  if CHR ''/'' \<in> set tenant then Fail ErrTenantUnresolved
                  else Ok (''tenant/'' @ tenant @ ''/'' @ key))))"

definition locate :: "ObjectStoreDeclaration \<Rightarrow> carrier \<Rightarrow> ObjectRef \<Rightarrow> objectAddress result" where
  "locate decl ctx ref =
     (if ref_Version ref = [] then Fail ErrVersionRequired
      else res_bind (ObjectKey_Validate (ref_Key ref)) (\<lambda>_.
        res_map (\<lambda>p. \<lparr>oa_physical = p, oa_version = ref_Version ref\<rparr>) (physical decl ctx (ref_Key ref))))"

text \<open>Copies are the values themselves, so the snapshot of a version is its information.\<close>

definition storedVersion_snapshot :: "storedVersion \<Rightarrow> ObjectInfo" where
  "storedVersion_snapshot v = sv_info v"

definition put_retention :: "ObjectStoreDeclaration \<Rightarrow> Instant \<Rightarrow> Retention option \<Rightarrow> Retention option result" where
  "put_retention decl now requested =
     (case requested of
        None \<Rightarrow> Ok None
      | Some r \<Rightarrow> (let dated = wholeSeconds r in res_map (\<lambda>_. Some dated) (checkRetention decl now dated)))"

definition Object_Put :: "ObjectStoreDeclaration \<Rightarrow> carrier \<Rightarrow> Instant \<Rightarrow> PutRequest \<Rightarrow> ObjectBucket \<Rightarrow> ObjectBucket \<times> ObjectVersion result" where
  "Object_Put decl ctx now req b =
     (let digest = hex_bytes (Sum256 (put_Body req));
          checked = res_bind (ObjectKey_Validate (put_Key req)) (\<lambda>_.
            res_bind (physical decl ctx (put_Key req)) (\<lambda>p.
              if put_ContentSHA256 req \<noteq> digest then Fail ErrIntegrity
              else res_bind (put_retention decl now (put_Retention req)) (\<lambda>retention.
                res_map (\<lambda>_. (p, retention)) (bucket_acquire ctx)))) in
      case checked of
        Err e \<Rightarrow> (b, Err e)
      | Panic m \<Rightarrow> (b, Panic m)
      | Ok (p, retention) \<Rightarrow>
          let issued = bk_issued b + 1;
              version = \<lparr>ov_Key = put_Key req, ov_Version = ''v-'' @ pad6 issued, ov_ContentSHA256 = digest,
                ov_Size = int (length (put_Body req)), ov_StoredAt = now\<rparr>;
              stored = \<lparr>sv_info = \<lparr>oi_Version = version, oi_ContentType = put_ContentType req, oi_Retention = retention,
                oi_LegalHold = False, oi_Encryption = decl_Encryption decl\<rparr>, sv_body = put_Body req\<rparr> in
          (b\<lparr>bk_versions := AList.update \<lparr>oa_physical = p, oa_version = ov_Version version\<rparr> stored (bk_versions b), bk_issued := issued\<rparr>,
           Ok version))"

text \<open>The four operations on a stored version locate it, take the lock and look it up.\<close>

definition lookup :: "ObjectStoreDeclaration \<Rightarrow> carrier \<Rightarrow> unit result \<Rightarrow> ObjectRef \<Rightarrow> ObjectBucket \<Rightarrow> (objectAddress \<times> storedVersion) result" where
  "lookup decl ctx checked ref b =
     res_bind (locate decl ctx ref) (\<lambda>address. res_bind checked (\<lambda>_. res_bind (bucket_acquire ctx) (\<lambda>_.
       case map_of (bk_versions b) address of
         None \<Rightarrow> Err ErrObjectNotFound
       | Some stored \<Rightarrow> Ok (address, stored))))"

definition Object_Get :: "ObjectStoreDeclaration \<Rightarrow> carrier \<Rightarrow> ObjectRef \<Rightarrow> ObjectBucket \<Rightarrow> Object result" where
  "Object_Get decl ctx ref b =
     res_map (\<lambda>(_, stored). \<lparr>ob_Info = storedVersion_snapshot stored, ob_Body = sv_body stored\<rparr>) (lookup decl ctx (Ok ()) ref b)"

definition Object_Head :: "ObjectStoreDeclaration \<Rightarrow> carrier \<Rightarrow> ObjectRef \<Rightarrow> ObjectBucket \<Rightarrow> ObjectInfo result" where
  "Object_Head decl ctx ref b = res_map (\<lambda>(_, stored). storedVersion_snapshot stored) (lookup decl ctx (Ok ()) ref b)"

definition retain_allowed :: "Retention option \<Rightarrow> Instant \<Rightarrow> Retention \<Rightarrow> unit result" where
  "retain_allowed held now to =
     (case held of
        None \<Rightarrow> Ok ()
      | Some current \<Rightarrow>
          if ret_Until current > now then
            (if ret_Mode current = RetentionCompliance \<and> ret_Mode to = RetentionGovernance then Fail ErrRetentionModeChange
             else let promoted = (ret_Mode current = RetentionGovernance \<and> ret_Mode to = RetentionCompliance) in
               if ret_Until to < ret_Until current \<or> (ret_Until to = ret_Until current \<and> \<not> promoted)
               then Fail ErrRetentionNotExtended else Ok ())
          else Ok ())"

definition store_version :: "objectAddress \<Rightarrow> storedVersion \<Rightarrow> ObjectBucket \<Rightarrow> ObjectBucket" where
  "store_version address stored b = b\<lparr>bk_versions := AList.update address stored (bk_versions b)\<rparr>"

definition Object_Retain :: "ObjectStoreDeclaration \<Rightarrow> carrier \<Rightarrow> Instant \<Rightarrow> ObjectRef \<Rightarrow> Retention \<Rightarrow> ObjectBucket \<Rightarrow> ObjectBucket \<times> ObjectInfo result" where
  "Object_Retain decl ctx now ref to0 b =
     (let to = wholeSeconds to0 in
      case lookup decl ctx (checkRetention decl now to) ref b of
        Err e \<Rightarrow> (b, Err e)
      | Panic m \<Rightarrow> (b, Panic m)
      | Ok (address, stored) \<Rightarrow>
          (case retain_allowed (oi_Retention (sv_info stored)) now to of
             Err e \<Rightarrow> (b, Err e)
           | Panic m \<Rightarrow> (b, Panic m)
           | Ok _ \<Rightarrow>
               let stored' = stored\<lparr>sv_info := (sv_info stored)\<lparr>oi_Retention := Some to\<rparr>\<rparr> in
               (store_version address stored' b, Ok (storedVersion_snapshot stored'))))"

definition Object_SetLegalHold :: "ObjectStoreDeclaration \<Rightarrow> carrier \<Rightarrow> Instant \<Rightarrow> ObjectRef \<Rightarrow> LegalHold \<Rightarrow> ObjectBucket \<Rightarrow> ObjectBucket \<times> HoldReceipt result" where
  "Object_SetLegalHold decl ctx now ref hold b =
     (case lookup decl ctx (if lh_On hold \<and> lh_Reason hold = [] then Fail ErrLegalHoldReasonRequired else Ok ()) ref b of
        Err e \<Rightarrow> (b, Err e)
      | Panic m \<Rightarrow> (b, Panic m)
      | Ok (address, stored) \<Rightarrow>
          (store_version address (stored\<lparr>sv_info := (sv_info stored)\<lparr>oi_LegalHold := lh_On hold\<rparr>\<rparr>) b,
           Ok \<lparr>hr_Ref = ref, hr_On = lh_On hold, hr_Reason = lh_Reason hold, hr_At = now\<rparr>))"

definition Object_Purge :: "ObjectStoreDeclaration \<Rightarrow> carrier \<Rightarrow> Instant \<Rightarrow> ObjectRef \<Rightarrow> ObjectBucket \<Rightarrow> ObjectBucket \<times> PurgeReceipt result" where
  "Object_Purge decl ctx now ref b =
     (case lookup decl ctx (Ok ()) ref b of
        Err e \<Rightarrow> (b, Err e)
      | Panic m \<Rightarrow> (b, Panic m)
      | Ok (address, stored) \<Rightarrow>
          if oi_LegalHold (sv_info stored) then (b, Fail ErrObjectLocked)
          else (case oi_Retention (sv_info stored) of
              None \<Rightarrow> (b\<lparr>bk_versions := AList.delete address (bk_versions b)\<rparr>, Ok \<lparr>pr_Ref = ref, pr_PurgedAt = now, pr_RetainedUntil = 0\<rparr>)
            | Some retention \<Rightarrow>
                if ret_Until retention > now then (b, Fail ErrObjectLocked)
                else (b\<lparr>bk_versions := AList.delete address (bk_versions b)\<rparr>,
                  Ok \<lparr>pr_Ref = ref, pr_PurgedAt = now, pr_RetainedUntil = ret_Until retention\<rparr>)))"

section \<open>Steps of a bucket\<close>

text \<open>One call of any store over the bucket, at the bucket's time \<open>now\<close>.\<close>

inductive object_step :: "Instant \<Rightarrow> ObjectBucket \<Rightarrow> ObjectBucket \<Rightarrow> bool" for now where
  put: "Object_Put decl ctx now req b = (b', written) \<Longrightarrow> object_step now b b'"
| retain: "Object_Retain decl ctx now ref to b = (b', info) \<Longrightarrow> object_step now b b'"
| hold: "Object_SetLegalHold decl ctx now ref lh b = (b', held) \<Longrightarrow> object_step now b b'"
| purge: "Object_Purge decl ctx now ref b = (b', purged) \<Longrightarrow> object_step now b b'"

definition version_id :: "nat \<Rightarrow> VersionID" where
  "version_id k = ''v-'' @ pad6 k"

lemma version_id_inject [simp]: "version_id j = version_id k \<longleftrightarrow> j = k"
  by (simp add: version_id_def pad6_inject)

text \<open>What an operation may do to the bucket: nothing, add a version, change one under the rules, or remove a free one.\<close>

definition same_content :: "storedVersion \<Rightarrow> storedVersion \<Rightarrow> bool" where
  "same_content v v' \<longleftrightarrow> sv_body v' = sv_body v \<and> oi_Version (sv_info v') = oi_Version (sv_info v) \<and>
     oi_ContentType (sv_info v') = oi_ContentType (sv_info v) \<and> oi_Encryption (sv_info v') = oi_Encryption (sv_info v)"

definition version_ok :: "objectAddress \<Rightarrow> storedVersion \<Rightarrow> bool" where
  "version_ok a v \<longleftrightarrow> ov_Version (oi_Version (sv_info v)) = oa_version a \<and>
     ov_ContentSHA256 (oi_Version (sv_info v)) = hex_bytes (Sum256 (sv_body v)) \<and>
     ov_Size (oi_Version (sv_info v)) = int (length (sv_body v)) \<and>
     (case oi_Retention (sv_info v) of None \<Rightarrow> True | Some r \<Rightarrow> RetentionMode_Known (ret_Mode r))"

definition free_at :: "Instant \<Rightarrow> storedVersion \<Rightarrow> bool" where
  "free_at now v \<longleftrightarrow> \<not> oi_LegalHold (sv_info v) \<and>
     (case oi_Retention (sv_info v) of None \<Rightarrow> True | Some r \<Rightarrow> ret_Until r \<le> now)"

definition retention_kept :: "Instant \<Rightarrow> storedVersion \<Rightarrow> storedVersion \<Rightarrow> bool" where
  "retention_kept now v v' \<longleftrightarrow>
     (case oi_Retention (sv_info v) of
        None \<Rightarrow> True
      | Some r \<Rightarrow> now < ret_Until r \<longrightarrow>
          (\<exists>r'. oi_Retention (sv_info v') = Some r' \<and> ret_Until r \<le> ret_Until r' \<and>
             (ret_Mode r = RetentionCompliance \<longrightarrow> ret_Mode r' = RetentionCompliance)))"

lemma checkRetention_Known: "checkRetention decl now r = Ok u \<Longrightarrow> RetentionMode_Known (ret_Mode r)"
  by (auto simp: checkRetention_def split: option.splits if_splits)

lemma checkRetention_no_panic [simp]: "checkRetention decl now r \<noteq> Panic m"
  by (auto simp: checkRetention_def split: option.splits)

lemma lookup_Ok:
  assumes "lookup decl ctx checked ref b = Ok (a, v)"
  shows "map_of (bk_versions b) a = Some v" "locate decl ctx ref = Ok a" "checked = Ok ()"
  using assms by (auto simp: lookup_def split: option.splits)

lemma put_retention_Ok:
  "put_retention decl now requested = Ok retention \<Longrightarrow>
     (case retention of None \<Rightarrow> True | Some r \<Rightarrow> RetentionMode_Known (ret_Mode r))"
  by (auto simp: put_retention_def Let_def dest: checkRetention_Known split: option.splits)

lemma put_retention_no_panic: "put_retention decl now requested \<noteq> Panic m"
  by (cases requested; cases "checkRetention decl now (wholeSeconds (the requested))") (auto simp: put_retention_def Let_def)

lemma ObjectKey_Validate_no_panic: "ObjectKey_Validate k \<noteq> Panic m"
  by (simp add: ObjectKey_Validate_def)

lemma physical_no_panic: "physical decl ctx key \<noteq> Panic m"
  by (auto simp: physical_def RequireExecutionContext_def split: option.splits)

lemma bucket_acquire_no_panic: "bucket_acquire ctx \<noteq> Panic m"
  by (simp add: bucket_acquire_def split: option.splits)

lemmas object_no_panic = put_retention_no_panic ObjectKey_Validate_no_panic physical_no_panic bucket_acquire_no_panic

lemma Object_Put_cases:
  obtains (refused) e where "Object_Put decl ctx now req b = (b, Err e)"
  | (written) p retention version where
      "physical decl ctx (put_Key req) = Ok p" "ObjectKey_Validate (put_Key req) = Ok ()" "bucket_acquire ctx = Ok ()"
      "case retention of None \<Rightarrow> True | Some r \<Rightarrow> RetentionMode_Known (ret_Mode r)"
      "version = \<lparr>ov_Key = put_Key req, ov_Version = version_id (bk_issued b + 1),
         ov_ContentSHA256 = hex_bytes (Sum256 (put_Body req)), ov_Size = int (length (put_Body req)), ov_StoredAt = now\<rparr>"
      "Object_Put decl ctx now req b =
          (b\<lparr>bk_versions := AList.update \<lparr>oa_physical = p, oa_version = version_id (bk_issued b + 1)\<rparr>
               \<lparr>sv_info = \<lparr>oi_Version = version, oi_ContentType = put_ContentType req, oi_Retention = retention,
                  oi_LegalHold = False, oi_Encryption = decl_Encryption decl\<rparr>, sv_body = put_Body req\<rparr> (bk_versions b),
             bk_issued := bk_issued b + 1\<rparr>, Ok version)"
proof -
  let ?key = "ObjectKey_Validate (put_Key req)" and ?p = "physical decl ctx (put_Key req)"
    and ?r = "put_retention decl now (put_Retention req)"
  show thesis
  proof (cases "\<exists>p retention. ?key = Ok () \<and> ?p = Ok p \<and> put_ContentSHA256 req = hex_bytes (Sum256 (put_Body req)) \<and>
      ?r = Ok retention \<and> bucket_acquire ctx = Ok ()")
    case True
    then obtain p retention where ok: "?key = Ok ()" "?p = Ok p" "put_ContentSHA256 req = hex_bytes (Sum256 (put_Body req))"
      "?r = Ok retention" "bucket_acquire ctx = Ok ()"
      by blast
    show thesis
      by (rule written [OF ok(2,1,5) put_retention_Ok [OF ok(4)] refl])
        (simp add: Object_Put_def ok version_id_def Let_def)
  next
    case False
    then have "\<exists>e. Object_Put decl ctx now req b = (b, Err e)"
      using object_no_panic by (cases ?key; cases ?p; cases ?r; cases "bucket_acquire ctx") (auto simp: Object_Put_def Let_def)
    with refused show thesis
      by blast
  qed
qed

text \<open>A version written before is not the next one, whose identifier is new.\<close>

definition bucket_ok :: "ObjectBucket \<Rightarrow> bool" where
  "bucket_ok b \<longleftrightarrow> (\<forall>a v. map_of (bk_versions b) a = Some v \<longrightarrow>
     version_ok a v \<and> (\<exists>k \<le> bk_issued b. oa_version a = version_id k))"

text \<open>The effect of a call on the versions that were there.\<close>

definition versions_kept :: "Instant \<Rightarrow> ObjectBucket \<Rightarrow> ObjectBucket \<Rightarrow> bool" where
  "versions_kept now b b' \<longleftrightarrow> (\<forall>a v. map_of (bk_versions b) a = Some v \<longrightarrow>
     (case map_of (bk_versions b') a of
        None \<Rightarrow> free_at now v
      | Some v' \<Rightarrow> same_content v v' \<and> retention_kept now v v'))"

lemma same_content_refl [simp]: "same_content v v"
  by (simp add: same_content_def)

lemma same_content_trans: "same_content u v \<Longrightarrow> same_content v w \<Longrightarrow> same_content u w"
  by (simp add: same_content_def)

lemma retention_kept_refl [simp]: "retention_kept now v v"
  by (simp add: retention_kept_def split: option.split)

lemma versions_kept_refl [simp]: "versions_kept now b b"
  by (simp add: versions_kept_def)

lemma map_of_delete [simp]: "map_of (AList.delete k al) = (map_of al)(k := None)"
  by (rule delete_conv')

lemma put_effect:
  assumes "bucket_ok b" "Object_Put decl ctx now req b = (b', r)"
  shows "bucket_ok b' \<and> versions_kept now b b'"
proof (cases rule: Object_Put_cases [of decl ctx now req b])
  case (refused e)
  with assms show ?thesis by simp
next
  case (written p retention version)
  let ?a = "\<lparr>oa_physical = p, oa_version = version_id (bk_issued b + 1)\<rparr>"
  have new: "map_of (bk_versions b) ?a = None"
  proof (rule ccontr)
    assume "map_of (bk_versions b) ?a \<noteq> None"
    then obtain k where "k \<le> bk_issued b" "version_id (bk_issued b + 1) = version_id k"
      using assms(1) unfolding bucket_ok_def by fastforce
    then show False
      by simp
  qed
  have "b' = fst (Object_Put decl ctx now req b)"
    using assms(2) by simp
  then have b': "map_of (bk_versions b') = (map_of (bk_versions b))(?a \<mapsto> \<lparr>sv_info = \<lparr>oi_Version = version,
      oi_ContentType = put_ContentType req, oi_Retention = retention, oi_LegalHold = False, oi_Encryption = decl_Encryption decl\<rparr>,
      sv_body = put_Body req\<rparr>)" "bk_issued b' = bk_issued b + 1"
    by (simp_all add: written)
  have "bucket_ok b'"
    using assms(1) written(4,5) by (auto simp: bucket_ok_def b' version_ok_def) (meson le_SucI)
  moreover have "versions_kept now b b'"
    using new by (auto simp: versions_kept_def b')
  ultimately show ?thesis ..
qed

lemma store_version_effect:
  assumes "bucket_ok b" "map_of (bk_versions b) a = Some v" "version_ok a v'" "same_content v v'" "retention_kept now v v'"
  shows "bucket_ok (store_version a v' b) \<and> versions_kept now b (store_version a v' b)"
  using assms by (auto simp: bucket_ok_def versions_kept_def store_version_def)

lemma retain_effect:
  assumes "bucket_ok b" "Object_Retain decl ctx now ref to b = (b', r)"
  shows "bucket_ok b' \<and> versions_kept now b b'"
proof (cases "lookup decl ctx (checkRetention decl now (wholeSeconds to)) ref b")
  case (Ok found)
  obtain a v where f: "found = (a, v)"
    by (cases found)
  note l = lookup_Ok [OF Ok [unfolded f]]
  let ?to = "wholeSeconds to" and ?v = "v\<lparr>sv_info := (sv_info v)\<lparr>oi_Retention := Some (wholeSeconds to)\<rparr>\<rparr>"
  have known: "RetentionMode_Known (ret_Mode ?to)"
    by (rule checkRetention_Known [OF l(3)])
  have "version_ok a v"
    using assms(1) l(1) by (simp add: bucket_ok_def)
  then have ok: "version_ok a ?v" "same_content v ?v" "\<And>r. oi_Retention (sv_info v) = Some r \<Longrightarrow> RetentionMode_Known (ret_Mode r)"
    using known by (auto simp: version_ok_def same_content_def)
  show ?thesis
  proof (cases "retain_allowed (oi_Retention (sv_info v)) now ?to")
    case allowed: (Ok u)
    have "retention_kept now v ?v"
      using allowed known by (auto simp: retention_kept_def retain_allowed_def RetentionMode_Known_def Let_def
          split: option.splits if_splits)
    from store_version_effect [OF assms(1) l(1) ok(1,2) this] assms(2) Ok f allowed show ?thesis
      by (simp add: Object_Retain_def Let_def)
  qed (use assms Ok f in \<open>simp_all add: Object_Retain_def Let_def\<close>)
qed (use assms in \<open>simp_all add: Object_Retain_def Let_def\<close>)

lemma hold_effect:
  assumes "bucket_ok b" "Object_SetLegalHold decl ctx now ref lh b = (b', r)"
  shows "bucket_ok b' \<and> versions_kept now b b'"
proof (cases "lookup decl ctx (if lh_On lh \<and> lh_Reason lh = [] then Fail ErrLegalHoldReasonRequired else Ok ()) ref b")
  case (Ok found)
  obtain a v where f: "found = (a, v)"
    by (cases found)
  note l = lookup_Ok [OF Ok [unfolded f]]
  let ?v = "v\<lparr>sv_info := (sv_info v)\<lparr>oi_LegalHold := lh_On lh\<rparr>\<rparr>"
  have "version_ok a v"
    using assms(1) l(1) by (simp add: bucket_ok_def)
  then have "version_ok a ?v" "same_content v ?v" "retention_kept now v ?v"
    by (auto simp: version_ok_def same_content_def retention_kept_def split: option.splits)
  from store_version_effect [OF assms(1) l(1) this] assms(2) Ok f show ?thesis
    by (simp add: Object_SetLegalHold_def)
qed (use assms in \<open>simp_all add: Object_SetLegalHold_def\<close>)

lemma purge_effect:
  assumes "bucket_ok b" "Object_Purge decl ctx now ref b = (b', r)"
  shows "bucket_ok b' \<and> versions_kept now b b'"
proof (cases "lookup decl ctx (Ok ()) ref b")
  case (Ok found)
  obtain a v where f: "found = (a, v)"
    by (cases found)
  note l = lookup_Ok [OF Ok [unfolded f]]
  show ?thesis
  proof (cases "free_at now v")
    case True
    then have "b' = b\<lparr>bk_versions := AList.delete a (bk_versions b)\<rparr>"
      using assms(2) Ok f by (auto simp: Object_Purge_def free_at_def split: option.splits if_splits)
    with assms(1) l(1) True show ?thesis
      by (auto simp: bucket_ok_def versions_kept_def)
  next
    case False
    then have "b' = b"
      using assms(2) Ok f by (auto simp: Object_Purge_def free_at_def split: option.splits if_splits)
    with assms(1) show ?thesis by simp
  qed
qed (use assms in \<open>simp_all add: Object_Purge_def\<close>)

lemma object_step_effect:
  assumes "object_step now b b'" "bucket_ok b"
  shows "bucket_ok b' \<and> versions_kept now b b'"
  using assms(1)
proof (cases rule: object_step.cases)
  case (put decl ctx req written)
  with assms(2) show ?thesis by (rule put_effect)
next
  case (retain decl ctx ref to info)
  with assms(2) show ?thesis by (rule retain_effect)
next
  case (hold decl ctx ref lh held)
  with assms(2) show ?thesis by (rule hold_effect)
next
  case (purge decl ctx ref purged)
  with assms(2) show ?thesis by (rule purge_effect)
qed

section \<open>Retention and integrity\<close>

text \<open>Buckets that calls build from the empty one, at any times.\<close>

definition bucket_reachable :: "ObjectBucket \<Rightarrow> bool" where
  "bucket_reachable b \<longleftrightarrow> (\<lambda>b b'. \<exists>now. object_step now b b')\<^sup>*\<^sup>* NewObjectBucket b"

lemma bucket_steps_ok: "(\<lambda>b b'. \<exists>now. P now \<and> object_step now b b')\<^sup>*\<^sup>* b b' \<Longrightarrow> bucket_ok b \<Longrightarrow> bucket_ok b'"
  by (induction rule: rtranclp_induct) (use object_step_effect in blast)+

lemma bucket_reachable_ok: "bucket_reachable b \<Longrightarrow> bucket_ok b"
  using bucket_steps_ok [of "\<lambda>_. True" NewObjectBucket b] by (simp add: bucket_reachable_def bucket_ok_def NewObjectBucket_def)

lemma versions_stay:
  assumes "(\<lambda>b b'. \<exists>now. P now \<and> object_step now b b')\<^sup>*\<^sup>* b b'" "bucket_ok b"
    and "map_of (bk_versions b) a = Some v" "oi_Retention (sv_info v) = Some r" "\<And>now. P now \<Longrightarrow> now < ret_Until r"
  shows "\<exists>v' r'. map_of (bk_versions b') a = Some v' \<and> same_content v v' \<and> oi_Retention (sv_info v') = Some r' \<and>
    ret_Until r \<le> ret_Until r' \<and> (ret_Mode r = RetentionCompliance \<longrightarrow> ret_Mode r' = RetentionCompliance)"
  using assms(1)
proof (induction rule: rtranclp_induct)
  case base
  with assms(3,4) show ?case by auto
next
  case (step y z)
  then obtain v1 r1 now where y: "map_of (bk_versions y) a = Some v1" "same_content v v1" "oi_Retention (sv_info v1) = Some r1"
    "ret_Until r \<le> ret_Until r1" "ret_Mode r = RetentionCompliance \<longrightarrow> ret_Mode r1 = RetentionCompliance"
    "P now" "object_step now y z"
    by auto
  have "versions_kept now y z"
    using object_step_effect [OF y(7)] bucket_steps_ok [OF step(1) assms(2)] by blast
  moreover have "now < ret_Until r1"
    using assms(5) [OF y(6)] y(4) by simp
  ultimately obtain v2 r2 where "map_of (bk_versions z) a = Some v2" "same_content v1 v2" "oi_Retention (sv_info v2) = Some r2"
    "ret_Until r1 \<le> ret_Until r2" "ret_Mode r1 = RetentionCompliance \<longrightarrow> ret_Mode r2 = RetentionCompliance"
    using y(1,3) by (fastforce simp: versions_kept_def retention_kept_def free_at_def split: option.splits)
  with y show ?case
    by (auto intro: same_content_trans)
qed

text \<open>
  C35. Nothing beats a retention. Take a version under a retention in any bucket that calls have built. Whatever
  calls follow at times before its date, by stores of any scope, ceiling and carrier: the version is still there, with
  the same body, key, digest, size, time, type and encryption, under a retention that ends no earlier, and one in
  compliance mode is in compliance mode still. So it can be extended and promoted, and neither shortened, nor
  downgraded, nor bypassed by a purge.
\<close>

theorem retention_protects:
  assumes "bucket_reachable b" and "map_of (bk_versions b) a = Some v" and "oi_Retention (sv_info v) = Some r"
    and "(\<lambda>b b'. \<exists>now. now < ret_Until r \<and> object_step now b b')\<^sup>*\<^sup>* b b'"
  shows "\<exists>v' r'. map_of (bk_versions b') a = Some v' \<and> same_content v v' \<and> oi_Retention (sv_info v') = Some r' \<and>
    ret_Until r \<le> ret_Until r' \<and> (ret_Mode r = RetentionCompliance \<longrightarrow> ret_Mode r' = RetentionCompliance)"
  using versions_stay [OF assms(4) bucket_reachable_ok [OF assms(1)] assms(2,3)] .

definition sample_declaration :: ObjectStoreDeclaration where
  "sample_declaration = \<lparr>decl_Scope = ScopeTenant, decl_Encryption = \<lparr>en_Algorithm = ''AES256'', en_KeyRef = []\<rparr>,
     decl_Ceiling = Some \<lparr>ceil_Span = 9000000000, ceil_Origin = ''policy''\<rparr>\<rparr>"

definition sample_put :: PutRequest where
  "sample_put = \<lparr>put_Key = ''a/b'', put_Body = [1, 2], put_ContentSHA256 = hex_bytes (Sum256 [1, 2]), put_ContentType = ''text'',
     put_Retention = Some \<lparr>ret_Mode = RetentionCompliance, ret_Until = 8000000001\<rparr>\<rparr>"

definition sample_version :: ObjectVersion where
  "sample_version = \<lparr>ov_Key = ''a/b'', ov_Version = version_id 1, ov_ContentSHA256 = hex_bytes (Sum256 [1, 2]), ov_Size = 2, ov_StoredAt = 5\<rparr>"

definition sample_address :: objectAddress where
  "sample_address = \<lparr>oa_physical = ''tenant/t-1/a/b'', oa_version = version_id 1\<rparr>"

definition sample_stored :: storedVersion where
  "sample_stored = \<lparr>sv_info = \<lparr>oi_Version = sample_version, oi_ContentType = ''text'',
     oi_Retention = Some \<lparr>ret_Mode = RetentionCompliance, ret_Until = 8000000000\<rparr>, oi_LegalHold = False,
     oi_Encryption = \<lparr>en_Algorithm = ''AES256'', en_KeyRef = []\<rparr>\<rparr>, sv_body = [1, 2]\<rparr>"

definition sample_bucket :: ObjectBucket where
  "sample_bucket = \<lparr>bk_versions = [(sample_address, sample_stored)], bk_issued = 1\<rparr>"

lemma sample_put_eq: "Object_Put sample_declaration sample_context 5 sample_put NewObjectBucket = (sample_bucket, Ok sample_version)"
  by (simp add: Object_Put_def sample_declaration_def sample_put_def ObjectKey_Validate_def has_prefix_def physical_def
      RequireExecutionContext_def ExecutionContextFrom_def sample_context_def background_def ec_Tenant_def ScopeTenant_def ScopePlatform_def
      put_retention_def wholeSeconds_def go_rem_def retentionResolution_def wrap64_def checkRetention_def RetentionMode_Known_def
      RetentionSpan_Add_def bucket_acquire_def NewObjectBucket_def sample_bucket_def sample_address_def sample_stored_def
      sample_version_def version_id_def Let_def)

lemma sample_bucket_reachable: "bucket_reachable sample_bucket"
  unfolding bucket_reachable_def by (intro r_into_rtranclp exI [of _ 5] object_step.put [OF sample_put_eq])

theorem retention_protects_witness:
  "\<exists>v' r'. map_of (bk_versions (fst (Object_Purge sample_declaration sample_context 7999999999
       \<lparr>ref_Key = ''a/b'', ref_Version = version_id 1\<rparr> sample_bucket))) sample_address = Some v' \<and>
     same_content sample_stored v' \<and> oi_Retention (sv_info v') = Some r' \<and> 8000000000 \<le> ret_Until r'"
proof -
  let ?b = "fst (Object_Purge sample_declaration sample_context 7999999999 \<lparr>ref_Key = ''a/b'', ref_Version = version_id 1\<rparr> sample_bucket)"
  have "object_step 7999999999 sample_bucket ?b"
    by (rule object_step.purge) (rule surjective_pairing)
  then have "(\<lambda>b b'. \<exists>now. now < ret_Until \<lparr>ret_Mode = RetentionCompliance, ret_Until = 8000000000\<rparr> \<and> object_step now b b')\<^sup>*\<^sup>* sample_bucket ?b"
    by (intro r_into_rtranclp exI [of _ 7999999999]) simp
  moreover have "map_of (bk_versions sample_bucket) sample_address = Some sample_stored"
    by (simp add: sample_bucket_def)
  ultimately show ?thesis
    using retention_protects [OF sample_bucket_reachable, of sample_address sample_stored "\<lparr>ret_Mode = RetentionCompliance, ret_Until = 8000000000\<rparr>" ?b]
    by (auto simp: sample_stored_def)
qed

section \<open>What was put is what is read\<close>

text \<open>The addresses of a bucket after a call: those it had, and the one a put issued.\<close>

definition addresses_from :: "ObjectBucket \<Rightarrow> ObjectBucket \<Rightarrow> bool" where
  "addresses_from b b' \<longleftrightarrow> bk_issued b \<le> bk_issued b' \<and>
     (\<forall>a. map_of (bk_versions b') a \<noteq> None \<longrightarrow> map_of (bk_versions b) a \<noteq> None \<or> oa_version a = version_id (bk_issued b + 1))"

lemma addresses_from_refl [simp]: "addresses_from b b"
  by (simp add: addresses_from_def)

lemma addresses_from_lookup:
  assumes "lookup decl ctx checked ref b = Ok (a, v)"
  shows "addresses_from b (store_version a v' b)" "addresses_from b (b\<lparr>bk_versions := AList.delete a (bk_versions b)\<rparr>)"
  using lookup_Ok(1) [OF assms] by (simp_all add: addresses_from_def store_version_def)

lemma object_step_addresses:
  assumes "object_step now b b'"
  shows "addresses_from b b'"
  using assms
proof (cases rule: object_step.cases)
  case (put decl ctx req written)
  have "addresses_from b (fst (Object_Put decl ctx now req b))"
    by (cases rule: Object_Put_cases [of decl ctx now req b]) (auto simp: addresses_from_def)
  with put show ?thesis by simp
next
  case (retain decl ctx ref to info)
  then show ?thesis
    using addresses_from_lookup(1) by (auto simp: Object_Retain_def Let_def split: res.splits)
next
  case (hold decl ctx ref lh held)
  then show ?thesis
    using addresses_from_lookup(1) by (auto simp: Object_SetLegalHold_def split: res.splits)
next
  case (purge decl ctx ref purged)
  then show ?thesis
    using addresses_from_lookup(2) by (auto simp: Object_Purge_def split: res.splits option.splits if_splits)
qed

text \<open>A version that was issued has, at any later time, the content it was written with, or is gone for good.\<close>

lemma versions_content:
  assumes "(\<lambda>b b'. \<exists>now. object_step now b b')\<^sup>*\<^sup>* b b'" "bucket_ok b" "map_of (bk_versions b) a = Some v"
    "oa_version a = version_id k" "k \<le> bk_issued b"
  shows "(case map_of (bk_versions b') a of None \<Rightarrow> True | Some v' \<Rightarrow> same_content v v') \<and> k \<le> bk_issued b'"
  using assms(1)
proof (induction rule: rtranclp_induct)
  case base
  with assms(3,5) show ?case by simp
next
  case (step y z)
  obtain now where now: "object_step now y z"
    using step(2) by blast
  have "bucket_ok y"
    using bucket_steps_ok [of "\<lambda>_. True" b y] step(1) assms(2) by simp
  then have kept: "versions_kept now y z" "addresses_from y z"
    using object_step_effect [OF now] object_step_addresses [OF now] by simp_all
  have new: "oa_version a \<noteq> version_id (bk_issued y + 1)"
    using step(3) assms(4) by simp
  show ?case
  proof (cases "map_of (bk_versions z) a")
    case None
    with step(3) kept(2) show ?thesis
      by (simp add: addresses_from_def)
  next
    case (Some v2)
    with kept(2) new obtain v1 where v1: "map_of (bk_versions y) a = Some v1"
      by (force simp: addresses_from_def)
    with Some kept step(3) show ?thesis
      by (force simp: versions_kept_def addresses_from_def intro: same_content_trans)
  qed
qed

lemma Object_Put_Ok:
  assumes "Object_Put decl ctx now req b = (b', Ok version)" "bucket_ok b"
  shows "ObjectVersion_Ref version = \<lparr>ref_Key = put_Key req, ref_Version = version_id (bk_issued b + 1)\<rparr>"
    "bk_issued b' = bk_issued b + 1" "bucket_acquire ctx = Ok ()"
    "\<exists>p v. locate decl ctx (ObjectVersion_Ref version) = Ok \<lparr>oa_physical = p, oa_version = version_id (bk_issued b + 1)\<rparr> \<and>
       map_of (bk_versions b') \<lparr>oa_physical = p, oa_version = version_id (bk_issued b + 1)\<rparr> = Some v \<and>
       sv_body v = put_Body req \<and> oi_Version (sv_info v) = version \<and> oi_ContentType (sv_info v) = put_ContentType req \<and>
       oi_Encryption (sv_info v) = decl_Encryption decl"
proof -
  have "version_id k \<noteq> []" for k
    by (simp add: version_id_def)
  note id = this
  consider p retention where "physical decl ctx (put_Key req) = Ok p" "ObjectKey_Validate (put_Key req) = Ok ()" "bucket_acquire ctx = Ok ()"
      "version = \<lparr>ov_Key = put_Key req, ov_Version = version_id (bk_issued b + 1),
         ov_ContentSHA256 = hex_bytes (Sum256 (put_Body req)), ov_Size = int (length (put_Body req)), ov_StoredAt = now\<rparr>"
      "b' = b\<lparr>bk_versions := AList.update \<lparr>oa_physical = p, oa_version = version_id (bk_issued b + 1)\<rparr>
               \<lparr>sv_info = \<lparr>oi_Version = version, oi_ContentType = put_ContentType req, oi_Retention = retention,
                  oi_LegalHold = False, oi_Encryption = decl_Encryption decl\<rparr>, sv_body = put_Body req\<rparr> (bk_versions b),
             bk_issued := bk_issued b + 1\<rparr>"
    using assms(1) by (cases rule: Object_Put_cases [of decl ctx now req b]) auto
  note written = this
  show "ObjectVersion_Ref version = \<lparr>ref_Key = put_Key req, ref_Version = version_id (bk_issued b + 1)\<rparr>"
    "bk_issued b' = bk_issued b + 1" "bucket_acquire ctx = Ok ()"
    by (rule written; simp add: ObjectVersion_Ref_def)+
  show "\<exists>p v. locate decl ctx (ObjectVersion_Ref version) = Ok \<lparr>oa_physical = p, oa_version = version_id (bk_issued b + 1)\<rparr> \<and>
       map_of (bk_versions b') \<lparr>oa_physical = p, oa_version = version_id (bk_issued b + 1)\<rparr> = Some v \<and>
       sv_body v = put_Body req \<and> oi_Version (sv_info v) = version \<and> oi_ContentType (sv_info v) = put_ContentType req \<and>
       oi_Encryption (sv_info v) = decl_Encryption decl"
    by (rule written) (simp add: locate_def ObjectVersion_Ref_def id)
qed

text \<open>
  What was put is what is read. The version a \<open>Put\<close> returned is, after any later calls on the bucket by anyone,
  read back by the same store and carrier with the very body, digest, size, type and encryption it was put with, or
  reported as not found once it was purged: no call overwrites it, and its identifier is never issued again.
\<close>

theorem put_then_get:
  assumes "bucket_reachable b" and "Object_Put decl ctx now req b = (b1, Ok version)"
    and "(\<lambda>b b'. \<exists>now. object_step now b b')\<^sup>*\<^sup>* b1 b2"
  shows "case Object_Get decl ctx (ObjectVersion_Ref version) b2 of
      Ok found \<Rightarrow> ob_Body found = put_Body req \<and> oi_Version (ob_Info found) = version \<and>
        ov_ContentSHA256 version = hex_bytes (Sum256 (ob_Body found)) \<and> ov_Size version = int (length (ob_Body found)) \<and>
        oi_ContentType (ob_Info found) = put_ContentType req \<and> oi_Encryption (ob_Info found) = decl_Encryption decl
    | Err e \<Rightarrow> e = ErrObjectNotFound
    | Panic _ \<Rightarrow> False"
proof -
  note ok = bucket_reachable_ok [OF assms(1)]
  have ok1: "bucket_ok b1"
    using put_effect [OF ok assms(2)] by simp
  obtain p v where loc: "locate decl ctx (ObjectVersion_Ref version) = Ok \<lparr>oa_physical = p, oa_version = version_id (bk_issued b + 1)\<rparr>"
    and v: "map_of (bk_versions b1) \<lparr>oa_physical = p, oa_version = version_id (bk_issued b + 1)\<rparr> = Some v"
      "sv_body v = put_Body req" "oi_Version (sv_info v) = version" "oi_ContentType (sv_info v) = put_ContentType req"
      "oi_Encryption (sv_info v) = decl_Encryption decl"
    using Object_Put_Ok(4) [OF assms(2) ok] by blast
  have "version_ok \<lparr>oa_physical = p, oa_version = version_id (bk_issued b + 1)\<rparr> v"
    using ok1 v(1) by (simp add: bucket_ok_def)
  then have hash: "ov_ContentSHA256 version = hex_bytes (Sum256 (put_Body req))" "ov_Size version = int (length (put_Body req))"
    using v by (simp_all add: version_ok_def)
  have "case map_of (bk_versions b2) \<lparr>oa_physical = p, oa_version = version_id (bk_issued b + 1)\<rparr> of None \<Rightarrow> True | Some v' \<Rightarrow> same_content v v'"
    using versions_content [OF assms(3) ok1 v(1), of "bk_issued b + 1"] Object_Put_Ok(2) [OF assms(2) ok] by simp
  with v hash loc Object_Put_Ok(3) [OF assms(2) ok] show ?thesis
    by (cases "map_of (bk_versions b2) \<lparr>oa_physical = p, oa_version = version_id (bk_issued b + 1)\<rparr>")
      (auto simp: Object_Get_def lookup_def same_content_def storedVersion_snapshot_def)
qed

theorem put_then_get_witness:
  "case Object_Get sample_declaration sample_context (ObjectVersion_Ref sample_version) sample_bucket of
     Ok found \<Rightarrow> ob_Body found = [1, 2] | Err e \<Rightarrow> e = ErrObjectNotFound | Panic _ \<Rightarrow> False"
proof -
  have "bucket_reachable NewObjectBucket"
    by (simp add: bucket_reachable_def)
  from put_then_get [OF this sample_put_eq rtranclp.rtrancl_refl] show ?thesis
    by (auto simp: sample_put_def split: res.splits)
qed

section \<open>Scopes\<close>

text \<open>The owner of the prefix a store writes under for a carrier: a tenant, or the platform.\<close>

definition prefix_owner :: "ObjectStoreDeclaration \<Rightarrow> carrier \<Rightarrow> TenantID option" where
  "prefix_owner decl ctx =
     (if decl_Scope decl = ScopePlatform then None
      else (case ctx_execution ctx of None \<Rightarrow> None | Some ec \<Rightarrow> ec_Tenant ec))"

lemma physical_owner:
  assumes "physical decl ctx key = Ok p"
  shows "p = (case prefix_owner decl ctx of None \<Rightarrow> ''platform/'' @ key | Some t \<Rightarrow> ''tenant/'' @ t @ ''/'' @ key) \<and>
    (case prefix_owner decl ctx of None \<Rightarrow> True | Some t \<Rightarrow> CHR ''/'' \<notin> set t)"
  using assms by (auto simp: physical_def RequireExecutionContext_def ExecutionContextFrom_def prefix_owner_def
      split: option.splits if_splits)

lemma physical_disjoint:
  assumes "physical decl ctx key = Ok p" "physical decl' ctx' key' = Ok p"
  shows "prefix_owner decl ctx = prefix_owner decl' ctx' \<and> key = key'"
proof -
  have "(case prefix_owner decl ctx of None \<Rightarrow> ''platform/'' @ key | Some t \<Rightarrow> ''tenant/'' @ t @ ''/'' @ key) =
      (case prefix_owner decl' ctx' of None \<Rightarrow> ''platform/'' @ key' | Some t \<Rightarrow> ''tenant/'' @ t @ ''/'' @ key')"
    by (rule trans [OF sym [OF conjunct1 [OF physical_owner [OF assms(1)]]] conjunct1 [OF physical_owner [OF assms(2)]]])
  then consider "prefix_owner decl ctx = None" "prefix_owner decl' ctx' = None" "key = key'"
    | t t' where "prefix_owner decl ctx = Some t" "prefix_owner decl' ctx' = Some t'" "t @ CHR ''/'' # key = t' @ CHR ''/'' # key'"
    by (auto split: option.splits)
  then show ?thesis
  proof cases
    case (2 t t')
    moreover have "CHR ''/'' \<notin> set t" "CHR ''/'' \<notin> set t'"
      using conjunct2 [OF physical_owner [OF assms(1)]] conjunct2 [OF physical_owner [OF assms(2)]] 2(1,2) by simp_all
    ultimately show ?thesis
      using append_sep_inject [of "CHR ''/''" t t' key key'] by simp
  qed simp
qed

lemma locate_physical: "locate decl ctx ref = Ok a \<Longrightarrow> physical decl ctx (ref_Key ref) = Ok (oa_physical a)"
  by (auto simp: locate_def split: if_splits)

lemma locate_owner:
  assumes "locate decl ctx ref = Ok a" "locate decl' ctx' ref' = Ok a'" "prefix_owner decl ctx \<noteq> prefix_owner decl' ctx'"
  shows "a \<noteq> a'"
  using physical_disjoint [OF locate_physical [OF assms(1)], of decl' ctx' "ref_Key ref'"] locate_physical [OF assms(2)] assms(3)
  by blast

text \<open>
  Scopes do not reach each other. Two stores over one bucket whose carriers own different prefixes (two tenants,
  or a tenant and the platform, whatever the tenant is called) never meet: nothing the one puts, retains, holds or
  purges, by whatever reference, changes what the other reads by any reference, found or not.
\<close>

theorem object_scopes_are_isolated:
  assumes "prefix_owner decl ctx \<noteq> prefix_owner decl' ctx'"
  shows "Object_Get decl' ctx' ref' (fst (Object_Put decl ctx now req b)) = Object_Get decl' ctx' ref' b \<and>
    Object_Get decl' ctx' ref' (fst (Object_Retain decl ctx now ref to b)) = Object_Get decl' ctx' ref' b \<and>
    Object_Get decl' ctx' ref' (fst (Object_SetLegalHold decl ctx now ref hold b)) = Object_Get decl' ctx' ref' b \<and>
    Object_Get decl' ctx' ref' (fst (Object_Purge decl ctx now ref b)) = Object_Get decl' ctx' ref' b"
proof -
  have get: "Object_Get decl' ctx' ref' b' = Object_Get decl' ctx' ref' b"
    if "\<And>a. locate decl' ctx' ref' = Ok a \<Longrightarrow> map_of (bk_versions b') a = map_of (bk_versions b) a" for b'
    using that by (cases "locate decl' ctx' ref'") (simp_all add: Object_Get_def lookup_def)
  have other: "a \<noteq> a'" if "lookup decl ctx checked ref b = Ok (a, v)" "locate decl' ctx' ref' = Ok a'" for checked a v a'
    using locate_owner [OF lookup_Ok(2) [OF that(1)] that(2) assms] .
  have "Object_Get decl' ctx' ref' (fst (Object_Put decl ctx now req b)) = Object_Get decl' ctx' ref' b"
  proof (rule get)
    fix a
    assume a: "locate decl' ctx' ref' = Ok a"
    show "map_of (bk_versions (fst (Object_Put decl ctx now req b))) a = map_of (bk_versions b) a"
    proof (cases rule: Object_Put_cases [of decl ctx now req b])
      case (written p retention version)
      then have "p \<noteq> oa_physical a"
        using locate_physical [OF a] assms physical_disjoint [OF written(1), of decl' ctx' "ref_Key ref'"] by blast
      with written show ?thesis by auto
    qed simp
  qed
  moreover have "Object_Get decl' ctx' ref' (fst (Object_Retain decl ctx now ref to b)) = Object_Get decl' ctx' ref' b"
    by (rule get) (auto simp: Object_Retain_def store_version_def Let_def dest: other split: res.splits)
  moreover have "Object_Get decl' ctx' ref' (fst (Object_SetLegalHold decl ctx now ref hold b)) = Object_Get decl' ctx' ref' b"
    by (rule get) (auto simp: Object_SetLegalHold_def store_version_def dest: other split: res.splits)
  moreover have "Object_Get decl' ctx' ref' (fst (Object_Purge decl ctx now ref b)) = Object_Get decl' ctx' ref' b"
    by (rule get) (auto simp: Object_Purge_def dest: other split: res.splits option.splits)
  ultimately show ?thesis by blast
qed

theorem object_scopes_are_isolated_witness:
  "Object_Get sample_declaration sample_context (ObjectVersion_Ref sample_version)
     (fst (Object_Purge (sample_declaration\<lparr>decl_Scope := ScopePlatform\<rparr>) background 9000000000 (ObjectVersion_Ref sample_version) sample_bucket)) =
   Object_Get sample_declaration sample_context (ObjectVersion_Ref sample_version) sample_bucket"
proof -
  have "prefix_owner (sample_declaration\<lparr>decl_Scope := ScopePlatform\<rparr>) background \<noteq> prefix_owner sample_declaration sample_context"
    by (simp add: prefix_owner_def sample_declaration_def ScopeTenant_def ScopePlatform_def sample_context_def ec_Tenant_def)
  from object_scopes_are_isolated [OF this] show ?thesis by blast
qed

section \<open>Ceilings\<close>

text \<open>\<open>RetentionSpan.Add\<close> is exact addition where the sum is an instant and refuses where it is not.\<close>

lemma RetentionSpan_Add_exact:
  "int64 s \<Longrightarrow> int64 at \<Longrightarrow> RetentionSpan_Add s at = (if int64 (at + s) then Some (at + s) else None)"
proof (cases "int64 (at + s)")
  case False
  moreover assume "int64 s" "int64 at"
  ultimately consider "2 ^ 63 \<le> at + s" "0 < s" "wrap64 (at + s) = at + s - 2 ^ 64"
    | "at + s < - (2 ^ 63)" "s < 0" "wrap64 (at + s) = at + s + 2 ^ 64"
    using wrap64_over [of at s] wrap64_under [of at s] by (fastforce simp: int64_def)
  then show ?thesis
    using False \<open>int64 s\<close> by cases (simp_all add: RetentionSpan_Add_def int64_def)
qed (auto simp: RetentionSpan_Add_def)

end
