(* ===== verification/Memory_Platform.thy ===== *)
theory Memory_Platform
  imports Memory_Store
begin

text \<open>
  Access across tenants: the vocabulary of \<^verbatim>\<open>ports/platform.go\<close> and its in-memory realization
  \<^verbatim>\<open>memory/platform.go\<close>, a reader over every tenant's rows and a projector that writes into one destination tenant.
  The audit trail is a function over its own state \<open>'a\<close>; the rendering of an identifier (\<open>%#v\<close>), which orders the
  pages, is the argument \<open>render\<close>.
\<close>

section \<open>Vocabulary\<close>

definition PlatformPageMax :: int where
  "PlatformPageMax = 500"

record 'id PlatformKey =
  pk_Tenant :: TenantID
  pk_ID :: 'id

record ('id, 's) PlatformRow =
  prw_Tenant :: TenantID
  prw_ID :: 'id
  prw_State :: 's
  prw_Version :: Version

definition AuditPlatformRead :: string where "AuditPlatformRead = ''platform.cross_tenant_read''"
definition AuditProjectionWrite :: string where "AuditProjectionWrite = ''projection.cross_tenant_write''"

record AuditRecord =
  aur_Action :: string
  aur_Subject :: string
  aur_Object :: string
  aur_Outcome :: string
  aur_Tenant :: string
  aur_DataTenant :: string

type_synonym 'a AuditTrail = "carrier \<Rightarrow> AuditRecord \<Rightarrow> 'a \<Rightarrow> 'a \<times> unit result"
type_synonym ProjectionPolicy = "carrier \<Rightarrow> TenantID option \<Rightarrow> TenantID \<Rightarrow> unit result"

fun OutcomeCategory_string :: "OutcomeCategory \<Rightarrow> string" where
  "OutcomeCategory_string OutcomeAccepted = ''accepted''"
| "OutcomeCategory_string OutcomeRejected = ''rejected''"
| "OutcomeCategory_string OutcomeDenied = ''denied''"
| "OutcomeCategory_string OutcomeFailed = ''failed''"

definition contextTenant :: "carrier \<Rightarrow> TenantID option" where
  "contextTenant ctx = (case ExecutionContextFrom ctx of None \<Rightarrow> None | Some execution \<Rightarrow> ec_Tenant execution)"

definition trailEvent :: "carrier \<Rightarrow> string \<Rightarrow> string \<Rightarrow> TenantID \<Rightarrow> OutcomeCategory \<Rightarrow> AuditRecord" where
  "trailEvent ctx action object data outcome =
     \<lparr>aur_Action = action, aur_Subject = SubjectOf ctx, aur_Object = object, aur_Outcome = OutcomeCategory_string outcome,
      aur_Tenant = (case contextTenant ctx of None \<Rightarrow> [] | Some origin \<Rightarrow> origin), aur_DataTenant = data\<rparr>"

section \<open>The platform reader\<close>

definition WithPageMax :: "int \<Rightarrow> int result" where
  "WithPageMax n = (if n \<le> 0 then Panic ''memory: page ceiling is not positive'' else Ok n)"

definition platform_declared :: "('id, 's) Table \<Rightarrow> 'a AuditTrail \<Rightarrow> carrier \<Rightarrow> TenantID \<Rightarrow> 'a \<Rightarrow> 'a \<times> unit result" where
  "platform_declared t trail ctx asked log =
     (if PlatformReachFrom ctx \<noteq> ReachAllTenants
      then (case trail ctx (trailEvent ctx AuditPlatformRead (tbl_Name t) asked OutcomeDenied) log of
          (log', Panic m) \<Rightarrow> (log', Panic m)
        | (log', _) \<Rightarrow> (log', FailWith ErrPlatformReachUndeclared (''memory: '' @ tbl_Name t)))
      else (log, res_map (\<lambda>_. ()) (RequireExecutionContext ctx)))"

definition platform_row :: "('id, 's) Table \<Rightarrow> 'id rowKey \<Rightarrow> 's row \<Rightarrow> ('id, 's) PlatformRow" where
  "platform_row t key rec =
     \<lparr>prw_Tenant = rk_tenant key, prw_ID = rk_id key, prw_State = Table_copy t (row_snapshot rec), prw_Version = row_version rec\<rparr>"

definition LoadIn :: "('id, 's) Table \<Rightarrow> ('id, 's, 'e) Store \<Rightarrow> 'a AuditTrail \<Rightarrow> carrier \<Rightarrow> TenantID \<Rightarrow> 'id \<Rightarrow> 'a \<Rightarrow>
    'a \<times> ('id, 's) PlatformRow result" where
  "LoadIn t s trail ctx tenant i log =
     (case platform_declared t trail ctx tenant log of
        (log1, Err e) \<Rightarrow> (log1, Err e)
      | (log1, Panic m) \<Rightarrow> (log1, Panic m)
      | (log1, Ok _) \<Rightarrow>
          if tenant = [] then (log1, Fail ErrNotFound)
          else (case trail ctx (trailEvent ctx AuditPlatformRead (tbl_Name t) tenant OutcomeAccepted) log1 of
              (log2, Err e) \<Rightarrow> (log2, Err e)
            | (log2, Panic m) \<Rightarrow> (log2, Panic m)
            | (log2, Ok _) \<Rightarrow>
                (log2, (case map_of (st_tables s) (tbl_Name t) of
                   None \<Rightarrow> Fail ErrNotFound
                 | Some rows \<Rightarrow>
                     (case map_of (tab_rows rows) \<lparr>rk_tenant = tenant, rk_id = i\<rparr> of
                        None \<Rightarrow> Fail ErrNotFound
                      | Some rec \<Rightarrow> Ok (platform_row t \<lparr>rk_tenant = tenant, rk_id = i\<rparr> rec))))))"

definition comparePlatform :: "('id \<Rightarrow> string) \<Rightarrow> 'id rowKey \<Rightarrow> 'id rowKey \<Rightarrow> int" where
  "comparePlatform render a b =
     cmp_Or [cmp_Compare (rk_tenant a) (rk_tenant b), cmp_Compare (render (rk_id a)) (render (rk_id b))]"

definition platform_page :: "('id, 's) Table \<Rightarrow> ('id \<Rightarrow> string) \<Rightarrow> ('id, 's, 'e) Store \<Rightarrow> 'id PlatformKey option \<Rightarrow> int \<Rightarrow> ('id, 's) PlatformRow list" where
  "platform_page t render s after limit =
     (case map_of (st_tables s) (tbl_Name t) of
        None \<Rightarrow> []
      | Some rows \<Rightarrow>
          let keys = filter (\<lambda>key. case after of None \<Rightarrow> True
                | Some k \<Rightarrow> comparePlatform render key \<lparr>rk_tenant = pk_Tenant k, rk_id = pk_ID k\<rparr> > 0) (map fst (tab_rows rows));
              sorted_keys = SortFunc (comparePlatform render) keys in
          map (\<lambda>key. platform_row t key (the (map_of (tab_rows rows) key))) (take (nat limit) sorted_keys))"

text \<open>One record per tenant of the page: a row whose tenant is the previous row's is skipped.\<close>

fun audit_page :: "('id, 's) Table \<Rightarrow> 'a AuditTrail \<Rightarrow> carrier \<Rightarrow> TenantID option \<Rightarrow> ('id, 's) PlatformRow list \<Rightarrow> 'a \<Rightarrow> 'a \<times> unit result" where
  "audit_page t trail ctx previous [] log = (log, Ok ())"
| "audit_page t trail ctx previous (r # rest) log =
     (if previous = Some (prw_Tenant r) then audit_page t trail ctx (Some (prw_Tenant r)) rest log
      else (case trail ctx (trailEvent ctx AuditPlatformRead (tbl_Name t) (prw_Tenant r) OutcomeAccepted) log of
          (log1, Ok _) \<Rightarrow> audit_page t trail ctx (Some (prw_Tenant r)) rest log1
        | (log1, Err e) \<Rightarrow> (log1, Err e)
        | (log1, Panic m) \<Rightarrow> (log1, Panic m)))"

definition platform_List :: "('id, 's) Table \<Rightarrow> ('id \<Rightarrow> string) \<Rightarrow> int \<Rightarrow> ('id, 's, 'e) Store \<Rightarrow> 'a AuditTrail \<Rightarrow> carrier \<Rightarrow>
    'id PlatformKey option \<Rightarrow> int \<Rightarrow> 'a \<Rightarrow> 'a \<times> ('id, 's) PlatformRow list result" where
  "platform_List t render pageMax s trail ctx after limit log =
     (case platform_declared t trail ctx [] log of
        (log1, Err e) \<Rightarrow> (log1, Err e)
      | (log1, Panic m) \<Rightarrow> (log1, Panic m)
      | (log1, Ok _) \<Rightarrow>
          if limit \<le> 0 \<or> limit > pageMax then (log1, FailWith ErrPlatformLimitInvalid (''memory: '' @ tbl_Name t))
          else let page = platform_page t render s after limit in
            (case audit_page t trail ctx None page log1 of
               (log2, Ok _) \<Rightarrow> (log2, Ok page)
             | (log2, Err e) \<Rightarrow> (log2, Err e)
             | (log2, Panic m) \<Rightarrow> (log2, Panic m)))"

section \<open>The projector\<close>

definition projection_permitted :: "('id, 's) Table \<Rightarrow> ProjectionPolicy option \<Rightarrow> carrier \<Rightarrow> TenantID \<Rightarrow> unit result" where
  "projection_permitted t policy ctx destination =
     (let origin = contextTenant ctx in
      if origin = Some destination then FailWith ErrProjectionDenied (''memory: '' @ tbl_Name t)
      else (case policy of
          None \<Rightarrow> FailWith ErrProjectionDenied (''memory: '' @ tbl_Name t)
        | Some permits \<Rightarrow>
            (case permits ctx origin destination of
               Err e \<Rightarrow> Err (Wrapped (''memory: '' @ tbl_Name t) [Sentinel ErrProjectionDenied, e])
             | Panic m \<Rightarrow> Panic m
             | Ok _ \<Rightarrow> Ok ())))"

definition ignoring :: "'a \<times> unit result \<Rightarrow> 'b result \<Rightarrow> 'a \<times> 'b result" where
  "ignoring recorded r = (case recorded of (log, Panic m) \<Rightarrow> (log, Panic m) | (log, _) \<Rightarrow> (log, r))"

definition projection_authorize :: "('id, 's) Table \<Rightarrow> ProjectionPolicy option \<Rightarrow> 'a AuditTrail \<Rightarrow> carrier \<Rightarrow> TenantID \<Rightarrow> 'a \<Rightarrow> 'a \<times> unit result" where
  "projection_authorize t policy trail ctx destination log =
     (case RequireExecutionContext ctx of
        Err e \<Rightarrow> (log, Err e)
      | Panic m \<Rightarrow> (log, Panic m)
      | Ok _ \<Rightarrow>
          if destination = []
          then ignoring (trail ctx (trailEvent ctx AuditProjectionWrite (tbl_Name t) [] OutcomeDenied) log)
            (FailWith ErrProjectionDestinationAbsent (''memory: '' @ tbl_Name t))
          else (case projection_permitted t policy ctx destination of
              Err e \<Rightarrow> ignoring (trail ctx (trailEvent ctx AuditProjectionWrite (tbl_Name t) destination OutcomeDenied) log) (Err e)
            | Panic m \<Rightarrow> (log, Panic m)
            | Ok _ \<Rightarrow> trail ctx (trailEvent ctx AuditProjectionWrite (tbl_Name t) destination OutcomeAccepted) log))"

definition Projector_Load :: "('id, 's) Table \<Rightarrow> ProjectionPolicy option \<Rightarrow> 'a AuditTrail \<Rightarrow> carrier \<Rightarrow> TenantID \<Rightarrow> 'id \<Rightarrow> ('id, 's, 'e) Tx \<Rightarrow> 'a \<Rightarrow>
    'a \<times> ('s \<times> Version) result" where
  "Projector_Load t policy trail ctx destination i tx log =
     (case projection_authorize t policy trail ctx destination log of
        (log1, Err e) \<Rightarrow> (log1, Err e)
      | (log1, Panic m) \<Rightarrow> (log1, Panic m)
      | (log1, Ok _) \<Rightarrow>
          (log1, (case map_of (tx_tables tx) (tbl_Name t) of
             None \<Rightarrow> Fail ErrNotFound
           | Some rows \<Rightarrow>
               (case map_of (tab_rows rows) \<lparr>rk_tenant = destination, rk_id = i\<rparr> of
                  None \<Rightarrow> Fail ErrNotFound
                | Some rec \<Rightarrow> Ok (Table_copy t (row_snapshot rec), row_version rec)))))"

definition Projector_Save :: "('id, 's) Table \<Rightarrow> ProjectionPolicy option \<Rightarrow> 'a AuditTrail \<Rightarrow> carrier \<Rightarrow> TenantID \<Rightarrow> 'id \<Rightarrow> 's \<Rightarrow> Version \<Rightarrow>
    ('id, 's, 'e) Tx \<Rightarrow> 'a \<Rightarrow> 'a \<times> ('id, 's, 'e) Tx \<times> unit result" where
  "Projector_Save t policy trail ctx destination i state expected tx log =
     (case projection_authorize t policy trail ctx destination log of
        (log1, Err e) \<Rightarrow> (log1, tx, Err e)
      | (log1, Panic m) \<Rightarrow> (log1, tx, Panic m)
      | (log1, Ok _) \<Rightarrow> (log1, saveAs t \<lparr>rk_tenant = destination, rk_id = i\<rparr> state expected tx))"

section \<open>No access without its record\<close>

text \<open>
  The same trail, keeping beside its own state the records it confirmed. It answers as the trail it wraps does, so the
  accesses behave alike and the list is what they were allowed on.
\<close>

definition confirming :: "'a AuditTrail \<Rightarrow> ('a \<times> AuditRecord list) AuditTrail" where
  "confirming trail ctx r s =
     (case trail ctx r (fst s) of
        (log, Ok u) \<Rightarrow> ((log, snd s @ [r]), Ok u)
      | (log, Err e) \<Rightarrow> ((log, snd s), Err e)
      | (log, Panic m) \<Rightarrow> ((log, snd s), Panic m))"

lemma confirming_cases:
  obtains (confirmed) log' where "confirming trail ctx r (log, seen) = ((log', seen @ [r]), Ok ())" "trail ctx r log = (log', Ok ())"
  | (failed) log' e where "confirming trail ctx r (log, seen) = ((log', seen), Err e)" "trail ctx r log = (log', Err e)"
  | (panicked) log' m where "confirming trail ctx r (log, seen) = ((log', seen), Panic m)" "trail ctx r log = (log', Panic m)"
  by (cases "trail ctx r log"; cases "snd (trail ctx r log)") (auto simp: confirming_def)

lemma trailEvent_sel [simp]:
  "aur_DataTenant (trailEvent ctx action object data outcome) = data"
  "aur_Outcome (trailEvent ctx action object data outcome) = OutcomeCategory_string outcome"
  by (simp_all add: trailEvent_def)

lemma audit_page_confirming:
  "\<exists>log' more x. audit_page t trail ctx previous page log = (log', x) \<and>
     audit_page t (confirming trail) ctx previous page (log, seen) = ((log', seen @ more), x) \<and>
     (x = Ok () \<longrightarrow> (\<forall>r \<in> set page. previous = Some (prw_Tenant r) \<or>
          trailEvent ctx AuditPlatformRead (tbl_Name t) (prw_Tenant r) OutcomeAccepted \<in> set more))"
proof (induction page arbitrary: previous log seen)
  case (Cons r rest)
  let ?event = "trailEvent ctx AuditPlatformRead (tbl_Name t) (prw_Tenant r) OutcomeAccepted"
  show ?case
  proof (cases "previous = Some (prw_Tenant r)")
    case True
    with Cons.IH [of "Some (prw_Tenant r)" log seen] show ?thesis by simp
  next
    case False
    show ?thesis
    proof (cases rule: confirming_cases [of trail ctx ?event log seen])
      case (confirmed log')
      from Cons.IH [of "Some (prw_Tenant r)" log' "seen @ [?event]"] obtain log'' more x where
        "audit_page t trail ctx (Some (prw_Tenant r)) rest log' = (log'', x)"
        "audit_page t (confirming trail) ctx (Some (prw_Tenant r)) rest (log', seen @ [?event]) = ((log'', (seen @ [?event]) @ more), x)"
        "x = Ok () \<longrightarrow> (\<forall>y \<in> set rest. prw_Tenant r = prw_Tenant y \<or>
             trailEvent ctx AuditPlatformRead (tbl_Name t) (prw_Tenant y) OutcomeAccepted \<in> set more)"
        by auto
      with False confirmed show ?thesis
        by (intro exI [of _ log''] exI [of _ "?event # more"] exI [of _ x]) auto
    qed (use False in auto)
  qed
qed simp

lemma projection_authorize_Ok:
  assumes "projection_authorize t policy trail ctx destination log = (log', Ok ())"
  shows "\<exists>permits ec. RequireExecutionContext ctx = Ok ec \<and> destination \<noteq> [] \<and> contextTenant ctx \<noteq> Some destination \<and>
    policy = Some permits \<and> permits ctx (contextTenant ctx) destination = Ok () \<and>
    trail ctx (trailEvent ctx AuditProjectionWrite (tbl_Name t) destination OutcomeAccepted) log = (log', Ok ())"
  using assms by (auto simp: projection_authorize_def projection_permitted_def ignoring_def Let_def
      split: res.splits if_splits option.splits prod.splits)

lemma declared_confirming:
  "\<exists>log' seen' r. platform_declared t trail ctx asked log = (log', r) \<and>
     platform_declared t (confirming trail) ctx asked (log, seen) = ((log', seen'), r) \<and> (r = Ok () \<longrightarrow> log' = log \<and> seen' = seen)"
  by (cases rule: confirming_cases [of trail ctx "trailEvent ctx AuditPlatformRead (tbl_Name t) asked OutcomeDenied" log seen])
    (auto simp: platform_declared_def)

lemma LoadIn_confirming:
  "case LoadIn t s (confirming trail) ctx T i (log, seen) of ((_, seen'), r) \<Rightarrow>
     snd (LoadIn t s trail ctx T i log) = r \<and>
     (\<forall>row. r = Ok row \<longrightarrow> prw_Tenant row = T \<and> trailEvent ctx AuditPlatformRead (tbl_Name t) T OutcomeAccepted \<in> set seen')"
proof -
  obtain log1 seen1 r1 where d: "platform_declared t trail ctx T log = (log1, r1)"
    "platform_declared t (confirming trail) ctx T (log, seen) = ((log1, seen1), r1)" "r1 = Ok () \<longrightarrow> log1 = log \<and> seen1 = seen"
    using declared_confirming [of t trail ctx T log seen] by auto
  show ?thesis
  proof (cases r1)
    case (Ok u)
    with d show ?thesis
      by (cases rule: confirming_cases [of trail ctx "trailEvent ctx AuditPlatformRead (tbl_Name t) T OutcomeAccepted" log seen])
        (auto simp: LoadIn_def platform_row_def split: option.splits)
  qed (use d in \<open>auto simp: LoadIn_def\<close>)
qed

lemma List_confirming:
  "case platform_List t render pageMax s (confirming trail) ctx after limit (log, seen) of ((_, seen'), r) \<Rightarrow>
     snd (platform_List t render pageMax s trail ctx after limit log) = r \<and>
     (\<forall>page. r = Ok page \<longrightarrow>
        list_all (\<lambda>x. trailEvent ctx AuditPlatformRead (tbl_Name t) (prw_Tenant x) OutcomeAccepted \<in> set seen') page)"
proof -
  obtain log1 seen1 r1 where d: "platform_declared t trail ctx [] log = (log1, r1)"
    "platform_declared t (confirming trail) ctx [] (log, seen) = ((log1, seen1), r1)" "r1 = Ok () \<longrightarrow> log1 = log \<and> seen1 = seen"
    using declared_confirming [of t trail ctx "[]" log seen] by auto
  let ?page = "platform_page t render s after limit"
  obtain log2 more r2 where a: "audit_page t trail ctx None ?page log = (log2, r2)"
     "audit_page t (confirming trail) ctx None ?page (log, seen) = ((log2, seen @ more), r2)"
     "r2 = Ok () \<longrightarrow> (\<forall>r \<in> set ?page. trailEvent ctx AuditPlatformRead (tbl_Name t) (prw_Tenant r) OutcomeAccepted \<in> set more)"
    using audit_page_confirming [of t trail ctx None ?page log seen] by auto
  show ?thesis
  proof (cases r1)
    case (Ok u)
    with d a show ?thesis
      by (cases r2) (auto simp: platform_List_def Let_def list_all_iff simp del: audit_page.simps)
  qed (use d in \<open>auto simp: platform_List_def\<close>)
qed

lemma authorize_confirming:
  "\<exists>log' seen' r. projection_authorize t policy trail ctx destination log = (log', r) \<and>
     projection_authorize t policy (confirming trail) ctx destination (log, seen) = ((log', seen'), r) \<and>
     (r = Ok () \<longrightarrow> trailEvent ctx AuditProjectionWrite (tbl_Name t) destination OutcomeAccepted \<in> set seen')"
proof -
  have denied: "\<exists>log' seen' r. ignoring (trail ctx e log) x = (log', r) \<and> ignoring (confirming trail ctx e (log, seen)) x = ((log', seen'), r) \<and>
      r \<noteq> Ok ()" if "x \<noteq> Ok ()" for e and x :: "unit result"
    using that by (cases rule: confirming_cases [of trail ctx e log seen]) (auto simp: ignoring_def)
  show ?thesis
  proof (cases "RequireExecutionContext ctx")
    case (Ok ec)
    show ?thesis
    proof (cases "destination = []")
      case True
      with Ok denied [of "FailWith ErrProjectionDestinationAbsent (''memory: '' @ tbl_Name t)"
          "trailEvent ctx AuditProjectionWrite (tbl_Name t) [] OutcomeDenied"] show ?thesis
        by (auto simp: projection_authorize_def)
    next
      case False
      show ?thesis
      proof (cases "projection_permitted t policy ctx destination")
        case permitted: (Ok u)
        with Ok False show ?thesis
          by (cases rule: confirming_cases [of trail ctx "trailEvent ctx AuditProjectionWrite (tbl_Name t) destination OutcomeAccepted" log seen])
            (auto simp: projection_authorize_def)
      next
        case (Err e)
        with Ok False denied [of "Err e" "trailEvent ctx AuditProjectionWrite (tbl_Name t) destination OutcomeDenied"] show ?thesis
          by (auto simp: projection_authorize_def)
      qed (use Ok False in \<open>simp add: projection_authorize_def\<close>)
    qed
  qed (simp_all add: projection_authorize_def)
qed

lemma Projector_confirming:
  "case Projector_Load t policy (confirming trail) ctx T i tx (log, seen) of ((_, seen'), r) \<Rightarrow>
     snd (Projector_Load t policy trail ctx T i tx log) = r \<and>
     (\<forall>found. r = Ok found \<longrightarrow> trailEvent ctx AuditProjectionWrite (tbl_Name t) T OutcomeAccepted \<in> set seen')"
  "case Projector_Save t policy (confirming trail) ctx T i state expected tx (log, seen) of ((_, seen'), tx', r) \<Rightarrow>
     snd (Projector_Save t policy trail ctx T i state expected tx log) = (tx', r) \<and>
     (trailEvent ctx AuditProjectionWrite (tbl_Name t) T OutcomeAccepted \<in> set seen' \<or> tx' = tx \<and> r \<noteq> Ok ())"
proof -
  obtain log1 seen1 r1 where a: "projection_authorize t policy trail ctx T log = (log1, r1)"
    "projection_authorize t policy (confirming trail) ctx T (log, seen) = ((log1, seen1), r1)"
    "r1 = Ok () \<longrightarrow> trailEvent ctx AuditProjectionWrite (tbl_Name t) T OutcomeAccepted \<in> set seen1"
    using authorize_confirming [of t policy trail ctx T log seen] by auto
  show "case Projector_Load t policy (confirming trail) ctx T i tx (log, seen) of ((_, seen'), r) \<Rightarrow>
     snd (Projector_Load t policy trail ctx T i tx log) = r \<and>
     (\<forall>found. r = Ok found \<longrightarrow> trailEvent ctx AuditProjectionWrite (tbl_Name t) T OutcomeAccepted \<in> set seen')"
    using a by (cases r1) (auto simp: Projector_Load_def)
  show "case Projector_Save t policy (confirming trail) ctx T i state expected tx (log, seen) of ((_, seen'), tx', r) \<Rightarrow>
     snd (Projector_Save t policy trail ctx T i state expected tx log) = (tx', r) \<and>
     (trailEvent ctx AuditProjectionWrite (tbl_Name t) T OutcomeAccepted \<in> set seen' \<or> tx' = tx \<and> r \<noteq> Ok ())"
    using a by (cases r1) (auto simp: Projector_Save_def split: prod.splits)
qed

text \<open>
  C36. No access to a tenant's data happens without its record. Whatever the trail answers, and run over a trail that
  keeps the records it confirmed: when a platform load returns a row of \<open>T\<close>, the trail has confirmed the record of that
  read of \<open>T\<close>; when a page is returned, it has confirmed one for the tenant of every row of the page; when a projection
  load into \<open>T\<close> returns or a projection save changes the transaction or succeeds, it has confirmed the record of that
  write to \<open>T\<close>. Keeping the records changes no answer.
\<close>

theorem unconfirmed_access_fails_closed:
  "(case LoadIn t s (confirming trail) ctx T i (log, []) of
      ((_, seen), Ok row) \<Rightarrow> prw_Tenant row = T \<and> trailEvent ctx AuditPlatformRead (tbl_Name t) T OutcomeAccepted \<in> set seen
    | _ \<Rightarrow> True) \<and>
   (case platform_List t render pageMax s (confirming trail) ctx after limit (log, []) of
      ((_, seen), Ok page) \<Rightarrow>
        list_all (\<lambda>r. trailEvent ctx AuditPlatformRead (tbl_Name t) (prw_Tenant r) OutcomeAccepted \<in> set seen) page
    | _ \<Rightarrow> True) \<and>
   (case Projector_Load t policy (confirming trail) ctx T i tx (log, []) of
      ((_, seen), Ok found) \<Rightarrow> trailEvent ctx AuditProjectionWrite (tbl_Name t) T OutcomeAccepted \<in> set seen
    | _ \<Rightarrow> True) \<and>
   (case Projector_Save t policy (confirming trail) ctx T i state expected tx (log, []) of
      ((_, seen), tx', r) \<Rightarrow> (if trailEvent ctx AuditProjectionWrite (tbl_Name t) T OutcomeAccepted \<in> set seen then True
         else tx' = tx \<and> r \<noteq> Ok ())) \<and>
   snd (LoadIn t s (confirming trail) ctx T i (log, [])) = snd (LoadIn t s trail ctx T i log) \<and>
   snd (platform_List t render pageMax s (confirming trail) ctx after limit (log, [])) =
     snd (platform_List t render pageMax s trail ctx after limit log) \<and>
   snd (Projector_Load t policy (confirming trail) ctx T i tx (log, [])) = snd (Projector_Load t policy trail ctx T i tx log) \<and>
   snd (Projector_Save t policy (confirming trail) ctx T i state expected tx (log, [])) =
     snd (Projector_Save t policy trail ctx T i state expected tx log)"
proof (intro conjI)
  note load = LoadIn_confirming [of t s trail ctx T i log "[]"]
  note pages = List_confirming [of t render pageMax s trail ctx after limit log "[]"]
  note project = Projector_confirming(1) [of t policy trail ctx T i tx log "[]"]
    Projector_confirming(2) [of t policy trail ctx T i state expected tx log "[]"]
  show "case LoadIn t s (confirming trail) ctx T i (log, []) of
      ((_, seen), Ok row) \<Rightarrow> prw_Tenant row = T \<and> trailEvent ctx AuditPlatformRead (tbl_Name t) T OutcomeAccepted \<in> set seen
    | _ \<Rightarrow> True"
    using load by (auto split: prod.splits res.splits)
  show "case platform_List t render pageMax s (confirming trail) ctx after limit (log, []) of
      ((_, seen), Ok page) \<Rightarrow>
        list_all (\<lambda>r. trailEvent ctx AuditPlatformRead (tbl_Name t) (prw_Tenant r) OutcomeAccepted \<in> set seen) page
    | _ \<Rightarrow> True"
    using pages by (auto split: prod.splits res.splits)
  show "case Projector_Load t policy (confirming trail) ctx T i tx (log, []) of
      ((_, seen), Ok found) \<Rightarrow> trailEvent ctx AuditProjectionWrite (tbl_Name t) T OutcomeAccepted \<in> set seen
    | _ \<Rightarrow> True"
    using project(1) by (auto split: prod.splits res.splits)
  show "case Projector_Save t policy (confirming trail) ctx T i state expected tx (log, []) of
      ((_, seen), tx', r) \<Rightarrow> (if trailEvent ctx AuditProjectionWrite (tbl_Name t) T OutcomeAccepted \<in> set seen then True
         else tx' = tx \<and> r \<noteq> Ok ())"
    using project(2) by (auto split: prod.splits)
qed (use LoadIn_confirming [of t s trail ctx T i log "[]"] List_confirming [of t render pageMax s trail ctx after limit log "[]"]
    Projector_confirming(1) [of t policy trail ctx T i tx log "[]"]
    Projector_confirming(2) [of t policy trail ctx T i state expected tx log "[]"] in \<open>simp_all split: prod.splits\<close>)

definition page_world :: "(nat, string, unit) Store" where
  "page_world = Store_New\<lparr>st_tables := [(''orders'', \<lparr>tab_rows = [(\<lparr>rk_tenant = ''t-2'', rk_id = 7\<rparr>,
     \<lparr>row_snapshot = ''a'', row_version = 4\<rparr>)], tab_clone = None\<rparr>)]\<rparr>"

definition reaching :: carrier where
  "reaching = WithPlatformReach sample_context ReachAllTenants"

definition choosing_trail :: "string \<Rightarrow> unit AuditTrail" where
  "choosing_trail refused ctx r log = (log, if aur_DataTenant r = refused then Fail ErrAuditUnavailable else Ok ())"

text \<open>A read of tenant \<open>t-2\<close> under platform reach: with a trail that confirms it, and with one that does not.\<close>

theorem unconfirmed_access_fails_closed_witness:
  "\<exists>seen row. LoadIn sample_table page_world (confirming (choosing_trail ''t-3'')) reaching ''t-2'' 7 ((), []) = (((), seen), Ok row) \<and>
     prw_State row = ''a'' \<and> trailEvent reaching AuditPlatformRead ''orders'' ''t-2'' OutcomeAccepted \<in> set seen \<and>
     snd (LoadIn sample_table page_world (choosing_trail ''t-2'') reaching ''t-2'' 7 ()) = Fail ErrAuditUnavailable"
proof -
  have reach: "PlatformReachFrom reaching = ReachAllTenants" "\<exists>ec. RequireExecutionContext reaching = Ok ec"
    by (simp_all add: reaching_def PlatformReachFrom_def WithPlatformReach_def RequireExecutionContext_def ExecutionContextFrom_def
        sample_context_def)
  then obtain seen row where run: "LoadIn sample_table page_world (confirming (choosing_trail ''t-3'')) reaching ''t-2'' 7 ((), []) =
      (((), seen), Ok row)" "prw_State row = ''a''"
    by (auto simp: LoadIn_def platform_declared_def confirming_def choosing_trail_def page_world_def sample_table_def platform_row_def
        Table_copy_def)
  have refused: "snd (LoadIn sample_table page_world (choosing_trail ''t-2'') reaching ''t-2'' 7 ()) = Fail ErrAuditUnavailable"
    using reach by (auto simp: LoadIn_def platform_declared_def choosing_trail_def)
  have "trailEvent reaching AuditPlatformRead (tbl_Name sample_table) ''t-2'' OutcomeAccepted \<in> set seen"
    using unconfirmed_access_fails_closed [where t = sample_table and s = page_world and
        trail = "choosing_trail ''t-3''" and ctx = reaching and T = "''t-2''" and i = 7 and log = "()", THEN conjunct1]
    by (simp add: run)
  with run refused show ?thesis
    by (auto simp: sample_table_def)
qed

section \<open>A projection is confined\<close>

text \<open>
  A projection writes only where its policy lets it. \<open>Save\<close> through a projector changes no row of a tenant other
  than the destination; it succeeds only when the destination is named, is not the tenant of the carrier, and the
  policy permits it; and without that it leaves the transaction as it was.
\<close>

theorem projection_is_confined:
  assumes "tables_wf (tx_tables tx)" and "Table_validate t = Ok ()"
  shows "case Projector_Save t policy trail ctx destination i state expected tx log of
    (_, tx', r) \<Rightarrow>
      (\<forall>name key. rk_tenant key \<noteq> destination \<longrightarrow> abs_tables (tx_tables tx') (name, key) = abs_tables (tx_tables tx) (name, key)) \<and>
      (if destination \<noteq> [] \<and> contextTenant ctx \<noteq> Some destination \<and>
          (\<exists>permits. policy = Some permits \<and> permits ctx (contextTenant ctx) destination = Ok ())
       then True else tx' = tx \<and> r \<noteq> Ok ())"
proof -
  let ?key = "\<lparr>rk_tenant = destination, rk_id = i\<rparr>"
  obtain log1 r where a: "projection_authorize t policy trail ctx destination log = (log1, r)"
    by fastforce
  show ?thesis
  proof (cases r)
    case (Ok u)
    then have "projection_authorize t policy trail ctx destination log = (log1, Ok ())"
      using a by simp
    note allowed = projection_authorize_Ok [OF this]
    have "abs_tables (tx_tables (fst (saveAs t ?key state expected tx))) (name, key) = abs_tables (tx_tables tx) (name, key)"
      if "rk_tenant key \<noteq> destination" for name key
      using that saveAs_spec [OF assms, of ?key state expected] spec_save_frame [of key ?key] by (metis fst_conv rowKey.select_convs(1))
    with a Ok allowed show ?thesis
      by (auto simp: Projector_Save_def split: prod.splits)
  qed (use a in \<open>simp_all add: Projector_Save_def\<close>)
qed

theorem projection_is_confined_witness:
  "case Projector_Save sample_table (Some (\<lambda>ctx origin destination. Ok ())) (\<lambda>ctx r log. (log, Ok ())) sample_context ''t-1'' 7 ''a'' 0 sample_tx () of
     (_, tx', r) \<Rightarrow> tx' = sample_tx \<and> r \<noteq> Ok ()"
proof -
  have "contextTenant sample_context = Some ''t-1''"
    by (simp add: contextTenant_def ExecutionContextFrom_def sample_context_def ec_Tenant_def)
  with projection_is_confined [OF sample_tx_wf sample_table_valid, where policy = "Some (\<lambda>ctx origin destination. Ok ())" and
      trail = "\<lambda>ctx r log. (log, Ok ())" and ctx = sample_context and destination = "''t-1''" and i = 7 and state = "''a''" and
      expected = 0 and log = "()"] show ?thesis
    by (simp split: prod.splits)
qed

section \<open>Pages over every tenant\<close>

definition platform_pos :: "('id \<Rightarrow> string) \<Rightarrow> 'id rowKey \<Rightarrow> string \<times> string" where
  "platform_pos render key = (rk_tenant key, render (rk_id key))"

definition after_key :: "'id PlatformKey \<Rightarrow> 'id rowKey" where
  "after_key k = \<lparr>rk_tenant = pk_Tenant k, rk_id = pk_ID k\<rparr>"

definition row_key :: "('id, 's) PlatformRow \<Rightarrow> 'id PlatformKey" where
  "row_key r = \<lparr>pk_Tenant = prw_Tenant r, pk_ID = prw_ID r\<rparr>"

lemma comparePlatform_le: "comparePlatform render a b \<le> 0 \<longleftrightarrow> platform_pos render a \<le> platform_pos render b"
  by (auto simp: comparePlatform_def platform_pos_def less_eq_prod_def cmp_Compare_sign)

lemma comparePlatform_gt: "0 < comparePlatform render a b \<longleftrightarrow> platform_pos render b < platform_pos render a"
  using comparePlatform_le [of render a b] by (simp only: not_le [symmetric])

lemma SortFunc_platform: "SortFunc (comparePlatform render) xs = sort_key (platform_pos render) xs"
proof -
  have "insert_func (comparePlatform render) x ys = insort_key (platform_pos render) x ys" for x ys
    by (induction ys) (simp_all only: insert_func.simps insort_key.simps comparePlatform_le)
  then have "insert_func (comparePlatform render) = insort_key (platform_pos render)"
    by (intro ext)
  then show ?thesis
    by (simp add: SortFunc_def sort_key_def)
qed

lemma platform_pos_inj: "inj render \<Longrightarrow> inj (platform_pos render)"
  by (auto simp: inj_def platform_pos_def intro: rowKey.equality)

text \<open>The keys a page is cut from, in order.\<close>

definition keys_after :: "('id \<Rightarrow> string) \<Rightarrow> 'id PlatformKey option \<Rightarrow> 'id rowKey list \<Rightarrow> 'id rowKey list" where
  "keys_after render after keys = filter (\<lambda>key. case after of None \<Rightarrow> True
     | Some k \<Rightarrow> platform_pos render (after_key k) < platform_pos render key) (sort_key (platform_pos render) keys)"

lemma platform_page_keys:
  assumes "map_of (st_tables s) (tbl_Name t) = Some rows"
  shows "platform_page t render s after limit =
    map (\<lambda>key. platform_row t key (the (map_of (tab_rows rows) key))) (take (nat limit) (keys_after render after (map fst (tab_rows rows))))"
  using assms by (cases after) (simp_all add: platform_page_def SortFunc_platform comparePlatform_gt keys_after_def filter_sort after_key_def)

lemma strictly_sorted_keys:
  assumes "inj render" "distinct keys"
  shows "sorted_wrt (\<lambda>x y. platform_pos render x < platform_pos render y) (sort_key (platform_pos render) keys)"
proof -
  have "sorted (map (platform_pos render) (sort_key (platform_pos render) keys))"
    by (rule sorted_sort_key)
  moreover have "distinct (map (platform_pos render) (sort_key (platform_pos render) keys))"
    using assms(2) inj_on_subset [OF platform_pos_inj [OF assms(1)], of "set keys"] by (simp add: distinct_map)
  ultimately have "sorted_wrt (<) (map (platform_pos render) (sort_key (platform_pos render) keys))"
    by (simp only: strict_sorted_iff)
  then show ?thesis
    by (simp only: sorted_wrt_map)
qed

lemma keys_after_resume:
  assumes "inj render" "distinct keys" "keys_after render after keys = pre @ [x] @ post" "after_key k = x"
  shows "keys_after render (Some k) keys = post"
proof -
  let ?pos = "platform_pos render"
  have sorted: "sorted_wrt (\<lambda>x y. ?pos x < ?pos y) (pre @ [x] @ post)"
    unfolding assms(3) [symmetric] keys_after_def by (rule sorted_wrt_filter [OF strictly_sorted_keys [OF assms(1,2)]])
  have x: "case after of None \<Rightarrow> True | Some k \<Rightarrow> ?pos (after_key k) < ?pos x"
    using arg_cong [OF assms(3), of set] by (auto simp: keys_after_def)
  have "keys_after render (Some k) keys = filter (\<lambda>key. ?pos x < ?pos key) (keys_after render after keys)"
    using x by (auto simp: keys_after_def assms(4) intro!: filter_cong split: option.splits)
  also have "\<dots> = post"
    using sorted by (auto simp: assms(3) sorted_wrt_append filter_id_conv filter_empty_conv dest: less_asym)
  finally show ?thesis .
qed

text \<open>
  Pages over every tenant. A page is in the strict order of tenant and rendered identifier and holds stored rows
  only; a page shorter than its limit is complete; and a page resumed at the last row of the one before continues it
  without a gap or a repetition: the two are the one page of their joint length, in whatever order the map iterates.
\<close>

theorem platform_pages:
  assumes "map_of (st_tables s) (tbl_Name t) = Some rows" and "distinct (map fst (tab_rows rows))" and "inj render"
    and "xs = platform_page t render s after limit" and "xs \<noteq> []" and "0 \<le> limit'"
  shows "platform_page t render s after (int (length xs) + limit') =
      xs @ platform_page t render s (Some (row_key (last xs))) limit' \<and>
    sorted_wrt (\<lambda>x y. comparePlatform render (after_key (row_key y)) (after_key (row_key x)) > 0) xs \<and>
    (\<forall>x \<in> set xs. \<exists>rec. map_of (tab_rows rows) (after_key (row_key x)) = Some rec \<and> x = platform_row t (after_key (row_key x)) rec) \<and>
    (int (length xs) < limit \<longrightarrow> (\<forall>key rec. map_of (tab_rows rows) key = Some rec \<longrightarrow>
      (case after of None \<Rightarrow> True | Some k \<Rightarrow> comparePlatform render key (after_key k) > 0) \<longrightarrow> platform_row t key rec \<in> set xs))"
proof -
  let ?keys = "map fst (tab_rows rows)" and ?row = "\<lambda>key. platform_row t key (the (map_of (tab_rows rows) key))"
  let ?L = "keys_after render after ?keys" and ?n = "length xs"
  note page = platform_page_keys [OF assms(1), of render]
  have key: "after_key (row_key (?row k)) = k" for k
    by (simp add: after_key_def row_key_def platform_row_def)
  have xs: "xs = map ?row (take (nat limit) ?L)"
    using assms(4) page by simp
  then have n: "?n = min (length ?L) (nat limit)"
    by simp
  then have "take ?n ?L = take (nat limit) ?L"
    by (simp add: min_def)
  then have xs': "xs = map ?row (take ?n ?L)"
    using xs by simp
  have pos: "0 < ?n" "?n \<le> length ?L"
    using assms(5) by (simp, subst n, simp)
  have lt: "?n - 1 < length ?L" and suc: "Suc (?n - 1) = ?n"
    using pos by arith+
  have split: "?L = take (?n - 1) ?L @ [?L ! (?n - 1)] @ drop ?n ?L"
    using id_take_nth_drop [OF lt] unfolding suc by simp
  have "last xs = ?row (?L ! (?n - 1))"
  proof -
    have "last xs = xs ! (?n - 1)"
      using assms(5) by (rule last_conv_nth)
    also have "\<dots> = map ?row (take ?n ?L) ! (?n - 1)"
      using xs' by (rule arg_cong)
    also have "\<dots> = ?row (?L ! (?n - 1))"
      using lt pos by (simp only: nth_map length_take nth_take take_map) (simp add: nth_map min_def)
    finally show ?thesis .
  qed
  then have last: "after_key (row_key (last xs)) = ?L ! (?n - 1)"
    by (simp add: key)
  have dist: "distinct ?keys"
    by (rule assms(2))
  have resume: "keys_after render (Some (row_key (last xs))) ?keys = drop ?n ?L"
    by (rule keys_after_resume [OF assms(3) dist split last])
  have joint: "platform_page t render s after (int ?n + limit') = xs @ platform_page t render s (Some (row_key (last xs))) limit'"
    unfolding page resume using assms(6) by (subst (2) xs') (simp add: nat_add_distrib take_add)
  have sorted: "sorted_wrt (\<lambda>x y. comparePlatform render (after_key (row_key y)) (after_key (row_key x)) > 0) xs"
    unfolding comparePlatform_gt xs sorted_wrt_map key
    by (rule sorted_wrt_take) (simp only: keys_after_def, rule sorted_wrt_filter [OF strictly_sorted_keys [OF assms(3) dist]])
  have L: "set ?L = {key \<in> set ?keys. case after of None \<Rightarrow> True | Some k \<Rightarrow> platform_pos render (after_key k) < platform_pos render key}"
    by (auto simp: keys_after_def)
  have stored: "\<forall>x \<in> set xs. \<exists>rec. map_of (tab_rows rows) (after_key (row_key x)) = Some rec \<and> x = platform_row t (after_key (row_key x)) rec"
  proof
    fix x
    assume "x \<in> set xs"
    then obtain k where k: "k \<in> set ?L" "x = ?row k"
      using xs by (auto dest: in_set_takeD)
    then have "map_of (tab_rows rows) k \<noteq> None"
      using L by (auto simp: map_of_eq_None_iff)
    then show "\<exists>rec. map_of (tab_rows rows) (after_key (row_key x)) = Some rec \<and> x = platform_row t (after_key (row_key x)) rec"
      using k(2) key by auto
  qed
  have "\<forall>key rec. map_of (tab_rows rows) key = Some rec \<longrightarrow>
      (case after of None \<Rightarrow> True | Some k \<Rightarrow> comparePlatform render key (after_key k) > 0) \<longrightarrow> platform_row t key rec \<in> set xs"
    if "int ?n < limit"
  proof (intro allI impI)
    fix k rec
    assume k: "map_of (tab_rows rows) k = Some rec" "case after of None \<Rightarrow> True | Some k' \<Rightarrow> comparePlatform render k (after_key k') > 0"
    then have "k \<in> set ?L"
      by (auto simp: L comparePlatform_gt dest: map_of_SomeD split: option.splits intro: rev_image_eqI)
    moreover have "take (nat limit) ?L = ?L"
      using that n by simp
    ultimately show "platform_row t k rec \<in> set xs"
      using k(1) xs by force
  qed
  with joint sorted stored show ?thesis by blast
qed

definition sample_rows :: "(nat rowKey \<times> string row) list" where
  "sample_rows = [(\<lparr>rk_tenant = ''t-2'', rk_id = 7\<rparr>, \<lparr>row_snapshot = ''b'', row_version = 1\<rparr>),
     (\<lparr>rk_tenant = ''t-1'', rk_id = 9\<rparr>, \<lparr>row_snapshot = ''a'', row_version = 4\<rparr>)]"

definition sample_platform :: "(nat, string, unit) Store" where
  "sample_platform = Store_New\<lparr>st_tables := [(''orders'', \<lparr>tab_rows = sample_rows, tab_clone = None\<rparr>)]\<rparr>"

theorem platform_pages_witness:
  "platform_page sample_table itoa sample_platform None 2 =
     platform_page sample_table itoa sample_platform None 1 @
     platform_page sample_table itoa sample_platform (Some \<lparr>pk_Tenant = ''t-1'', pk_ID = 9\<rparr>) 1"
proof -
  have page: "platform_page sample_table itoa sample_platform None 1 = [\<lparr>prw_Tenant = ''t-1'', prw_ID = 9, prw_State = ''a'', prw_Version = 4\<rparr>]"
    by code_simp
  have tab: "map_of (st_tables sample_platform) (tbl_Name sample_table) = Some \<lparr>tab_rows = sample_rows, tab_clone = None\<rparr>"
    "distinct (map fst (tab_rows \<lparr>tab_rows = sample_rows, tab_clone = None\<rparr>))"
    by (simp_all add: sample_platform_def sample_table_def sample_rows_def)
  have "inj itoa"
    by (simp add: inj_def itoa_inject)
  from platform_pages [OF tab(1,2) this page [symmetric], of 1] show ?thesis
    by (simp add: page row_key_def)
qed

end
