(* ===== verification/Go_Numbers.thy ===== *)
theory Go_Numbers
  imports Go_Prelude Complex_Main "HOL-Library.Log_Nat"
begin

text \<open>
  Go's \<open>float64\<close> and \<open>time\<close> as far as the sources use them. A finite \<open>float64\<close> is the rational number it
  stands for and \<open>f64\<close> is the rounding of an exact result to the nearest representable number, ties to
  even, with 53 significant bits. The quantities of the sources (ratios of counts, fractions in
  \<open>[0, 1)\<close>, durations) stay inside the normal range, so neither subnormal numbers nor infinities occur
  and the exponent is not bounded here; NaN and infinite configuration values are outside the model.
  A \<open>time.Time\<close> is its reading in nanoseconds, unbounded; a \<open>time.Duration\<close> is an \<open>int64\<close>.
\<close>

section \<open>Rounding\<close>

definition half_even :: "rat \<Rightarrow> int" where
  "half_even x = (let r = \<lfloor>x\<rfloor>; f = x - of_int r in if f < 1 / 2 \<or> f = 1 / 2 \<and> even r then r else r + 1)"

text \<open>The exponent of the unit in the last place of a positive number: \<open>\<lfloor>log2 q\<rfloor> - 52\<close>.\<close>

definition ulp_exp :: "rat \<Rightarrow> int" where
  "ulp_exp q =
     (case quotient_of q of (a, b) \<Rightarrow>
        let d = int (floorlog 2 (nat a)) - int (floorlog 2 (nat b)) in
        (if 2 powi d \<le> q then d else d - 1) - 52)"

definition f64 :: "rat \<Rightarrow> rat" where
  "f64 q = (let u = 2 powi ulp_exp \<bar>q\<bar> in sgn q * (of_int (half_even (\<bar>q\<bar> / u)) * u))"

lemma half_even_le: "x \<le> of_int n \<Longrightarrow> half_even x \<le> n"
  unfolding half_even_def Let_def by (auto split: if_splits simp: floor_le_iff)

lemma half_even_ge: "of_int n \<le> x \<Longrightarrow> n \<le> half_even x"
  unfolding half_even_def Let_def by (auto split: if_splits simp: le_floor_iff) linarith+

lemma half_even_error: "\<bar>of_int (half_even x) - x\<bar> \<le> 1 / 2"
  using floor_correct [of x] unfolding half_even_def Let_def by (auto split: if_splits simp: abs_le_iff)

lemma floorlog_bounds:
  assumes "0 < a"
  shows "(2::rat) powi (int (floorlog 2 (nat a)) - 1) \<le> of_int a" "of_int a < (2::rat) powi int (floorlog 2 (nat a))"
proof -
  have "2 ^ (floorlog 2 (nat a) - 1) \<le> nat a" and "nat a < 2 ^ floorlog 2 (nat a)" and "0 < floorlog 2 (nat a)"
    using floorlog_bounds [of "nat a" 2] assms by (auto simp: floorlog_def)
  then have "(2::int) ^ (floorlog 2 (nat a) - 1) \<le> a" and "a < (2::int) ^ floorlog 2 (nat a)"
    using assms by (simp_all add: nat_le_iff nat_less_iff le_nat_iff)
  then have "(of_int (2 ^ (floorlog 2 (nat a) - 1)) :: rat) \<le> of_int a" and "(of_int a :: rat) < of_int (2 ^ floorlog 2 (nat a))"
    by (simp_all only: of_int_le_iff of_int_less_iff)
  then show "(2::rat) powi (int (floorlog 2 (nat a)) - 1) \<le> of_int a" "of_int a < (2::rat) powi int (floorlog 2 (nat a))"
    using \<open>0 < floorlog 2 (nat a)\<close> by (simp_all add: power_int_def nat_diff_distrib)
qed

text \<open>\<open>ulp_exp\<close> is the exponent that leaves 53 significant bits.\<close>

lemma ulp_exp_bounds:
  assumes "0 < q"
  shows "2 powi (ulp_exp q + 52) \<le> q" "q < 2 powi (ulp_exp q + 53)"
proof -
  obtain a b where ab: "quotient_of q = (a, b)" by fastforce
  then have b: "0 < b" and q: "q = of_int a / of_int b"
    using quotient_of_denom_pos quotient_of_div by auto
  then have a: "0 < a" using assms by (simp add: zero_less_divide_iff)
  define la lb where "la = int (floorlog 2 (nat a))" and "lb = int (floorlog 2 (nat b))"
  have fa: "(2::rat) powi (la - 1) \<le> of_int a" "of_int a < (2::rat) powi la"
    and fb: "(2::rat) powi (lb - 1) \<le> of_int b" "of_int b < (2::rat) powi lb"
    using floorlog_bounds [OF a] floorlog_bounds [OF b] by (simp_all add: la_def lb_def)
  have "(2::rat) powi (la - 1 - lb) * of_int b \<le> 2 powi (la - 1 - lb) * 2 powi lb"
    using fb(2) by (intro mult_left_mono) auto
  also have "\<dots> = 2 powi (la - 1)" by (simp flip: power_int_add)
  finally have lo: "(2::rat) powi (la - lb - 1) \<le> q"
    using fa(1) b by (simp add: q le_divide_eq algebra_simps)
  have "of_int a < (2::rat) powi (la - lb + 1) * 2 powi (lb - 1)"
    using fa(2) by (simp flip: power_int_add)
  also have "\<dots> \<le> 2 powi (la - lb + 1) * of_int b"
    using fb(1) by (intro mult_left_mono) auto
  finally have hi: "q < (2::rat) powi (la - lb + 1)" using b by (simp add: q divide_less_eq)
  have "ulp_exp q = (if 2 powi (la - lb) \<le> q then la - lb else la - lb - 1) - 52"
    by (simp add: ulp_exp_def ab Let_def la_def lb_def)
  then show "2 powi (ulp_exp q + 52) \<le> q" "q < 2 powi (ulp_exp q + 53)"
    using lo hi by (auto split: if_splits simp: algebra_simps)
qed

text \<open>Rounding does not move a number past a representable whole number.\<close>

lemma f64_pos: "0 < q \<Longrightarrow> f64 q = of_int (half_even (q / 2 powi ulp_exp q)) * 2 powi ulp_exp q"
  by (simp add: f64_def Let_def)

lemma f64_0 [simp]: "f64 0 = 0"
  by (simp add: f64_def)

lemma ulp_exp_small:
  assumes "0 < q" and "q < 2 ^ 53"
  shows "ulp_exp q \<le> 0"
proof (rule ccontr)
  assume "\<not> ulp_exp q \<le> 0"
  then have "(2::rat) powi 53 \<le> 2 powi (ulp_exp q + 52)" by (intro power_int_increasing) auto
  with ulp_exp_bounds(1) [OF assms(1)] assms(2) show False by simp
qed

lemma whole_ulps:
  assumes "e \<le> 0"
  shows "(of_int n :: rat) / 2 powi e = of_int (n * 2 ^ nat (- e))"
  using assms by (simp add: power_int_def field_simps)

lemma f64_le_whole:
  assumes "0 \<le> q" and "q \<le> of_int n" and "n < 2 ^ 53"
  shows "f64 q \<le> of_int n"
proof (cases "q = 0")
  case False
  have "(of_int n :: rat) < of_int (2 ^ 53)" using assms(3) by (simp only: of_int_less_iff)
  then have e: "0 < q" "ulp_exp q \<le> 0" using False assms ulp_exp_small by auto
  have "q / 2 powi ulp_exp q \<le> of_int n / 2 powi ulp_exp q" using assms(2) by (intro divide_right_mono) auto
  then have "half_even (q / 2 powi ulp_exp q) \<le> n * 2 ^ nat (- ulp_exp q)"
    unfolding whole_ulps [OF e(2)] by (rule half_even_le)
  then have "(of_int (half_even (q / 2 powi ulp_exp q)) :: rat) \<le> of_int n / 2 powi ulp_exp q"
    unfolding whole_ulps [OF e(2)] by (simp only: of_int_le_iff)
  then show ?thesis by (simp add: f64_pos e(1) le_divide_eq)
qed (use assms in simp)

lemma f64_ge_whole:
  assumes "of_int n \<le> q" and "0 \<le> n" and "q < 2 ^ 53"
  shows "of_int n \<le> f64 q"
proof (cases "q = 0")
  case False
  then have e: "0 < q" "ulp_exp q \<le> 0" using assms ulp_exp_small [of q] by (auto simp: order_less_le)
  have "of_int n / 2 powi ulp_exp q \<le> q / 2 powi ulp_exp q" using assms(1) by (intro divide_right_mono) auto
  then have "n * 2 ^ nat (- ulp_exp q) \<le> half_even (q / 2 powi ulp_exp q)"
    unfolding whole_ulps [OF e(2)] by (rule half_even_ge)
  then have "of_int n / 2 powi ulp_exp q \<le> (of_int (half_even (q / 2 powi ulp_exp q)) :: rat)"
    unfolding whole_ulps [OF e(2)] by (simp only: of_int_le_iff)
  then show ?thesis by (simp add: f64_pos e(1) divide_le_eq)
qed (use assms in simp)

lemma f64_whole: "0 \<le> n \<Longrightarrow> n < 2 ^ 53 \<Longrightarrow> f64 (of_int n) = of_int n"
  using f64_le_whole [of "of_int n" n] f64_ge_whole [of n "of_int n"]
    of_int_less_iff [of n "2 ^ 53", where ?'a = rat] by (intro antisym) auto

lemma f64_nonneg: "0 \<le> q \<Longrightarrow> 0 \<le> f64 q"
  using half_even_ge [of 0 "q / 2 powi ulp_exp q"] by (cases "q = 0") (auto simp: f64_pos)

section \<open>Conversions, durations and instants\<close>

text \<open>\<open>float64(i)\<close> of an integer, and the truncation of a conversion back to \<open>int64\<close>.\<close>

definition float64 :: "int \<Rightarrow> rat" where
  "float64 i = f64 (of_int i)"

definition f64_trunc :: "rat \<Rightarrow> int" where
  "f64_trunc q = (if q < 0 then - \<lfloor>- q\<rfloor> else \<lfloor>q\<rfloor>)"

text \<open>\<open>t.Sub(u)\<close> saturates at the bounds of a \<open>Duration\<close>.\<close>

definition time_Sub :: "int \<Rightarrow> int \<Rightarrow> int" where
  "time_Sub t u = max (- (2 ^ 63)) (min (2 ^ 63 - 1) (t - u))"

lemma time_Sub_exact: "int64 (t - u) \<Longrightarrow> time_Sub t u = t - u"
  by (auto simp: time_Sub_def int64_def)

lemma time_Sub_less: "d \<le> 2 ^ 63 - 1 \<Longrightarrow> - (2 ^ 63) < d \<Longrightarrow> time_Sub t u < d \<longleftrightarrow> t - u < d"
  by (auto simp: time_Sub_def)

end
