(* ===== verification/Observability_Retry.thy ===== *)
theory Observability_Retry
  imports Go_Numbers Go_Errors "HOL-Library.Multiset"
begin

text \<open>
  Retries, \<^verbatim>\<open>libs/backend/go/observability/retry\<close>: the budget of time an execution may spend on
  repeating calls (\<open>budget.go\<close>), the backoff (\<open>backoff.go\<close>) and the conjunction that decides one more
  attempt (\<open>evaluate.go\<close>). The budget is shared by concurrent calls: each of its operations is one
  atomic transition, as the compare-and-swap loops of the source make it, except \<open>Arm\<close>, which swaps
  the flag and stores the balance in two transitions that others may separate. \<open>budget_step\<close> is
  the resulting interleaving, with the claims its callers hold and the size it was given.
\<close>

section \<open>Budget\<close>

record Budget =
  bud_remaining :: int
  bud_armed :: bool
  bud_reported :: bool

definition budget_zero :: Budget where
  "budget_zero = \<lparr>bud_remaining = 0, bud_armed = False, bud_reported = False\<rparr>"

definition WithTotal :: "int \<Rightarrow> Budget \<Rightarrow> Budget" where
  "WithTotal amount b = (if amount > 0 then b\<lparr>bud_remaining := amount, bud_armed := True\<rparr> else b)"

text \<open>\<open>Arm\<close> in its two steps: the swap of the flag, which says whether this call won it, and the store.\<close>

definition Arm_swap :: "int \<Rightarrow> Budget \<Rightarrow> Budget \<times> bool" where
  "Arm_swap remaining b =
     (if remaining \<le> 0 \<or> bud_armed b then (b, False) else (b\<lparr>bud_armed := True\<rparr>, True))"

definition Arm_store :: "int \<Rightarrow> Budget \<Rightarrow> Budget" where
  "Arm_store remaining b = b\<lparr>bud_remaining := remaining div 2\<rparr>"

definition Arm :: "int \<Rightarrow> Budget \<Rightarrow> Budget" where
  "Arm remaining b = (case Arm_swap remaining b of (b', won) \<Rightarrow> if won then Arm_store remaining b' else b')"

definition Debit :: "int \<Rightarrow> Budget \<Rightarrow> Budget" where
  "Debit spent b =
     (if spent \<le> 0 then b
      else let next = wrap64 (bud_remaining b - spent) in
        b\<lparr>bud_remaining := if next < 0 then 0 else next\<rparr>)"

definition Reserve :: "int \<Rightarrow> Budget \<Rightarrow> Budget \<times> bool" where
  "Reserve need b =
     (if need \<le> 0 \<or> \<not> bud_armed b then (b, False)
      else if bud_remaining b < need then (b, False)
      else (b\<lparr>bud_remaining := wrap64 (bud_remaining b - need)\<rparr>, True))"

definition refund :: "int \<Rightarrow> Budget \<Rightarrow> Budget" where
  "refund unspent b = b\<lparr>bud_remaining := wrap64 (bud_remaining b + unspent)\<rparr>"

definition Settle :: "int \<Rightarrow> int \<Rightarrow> Budget \<Rightarrow> Budget" where
  "Settle reserved actual b =
     (if actual > reserved then Debit (wrap64 (actual - reserved)) b
      else if actual < reserved then refund (wrap64 (reserved - actual)) b
      else b)"

definition Budget_Remaining :: "Budget \<Rightarrow> int" where
  "Budget_Remaining b = (if \<not> bud_armed b then 0 else bud_remaining b)"

definition ReportExhaustion :: "Budget \<Rightarrow> Budget \<times> bool" where
  "ReportExhaustion b =
     (if \<not> bud_armed b then (b, False)
      else if bud_reported b then (b, False)
      else (b\<lparr>bud_reported := True\<rparr>, True))"

definition Exhausted :: "Budget \<Rightarrow> Budget \<times> bool" where
  "Exhausted b =
     (if \<not> bud_armed b \<or> bud_remaining b > 0 then (b, False)
      else if bud_reported b then (b, False)
      else (b\<lparr>bud_reported := True\<rparr>, True))"

section \<open>Concurrent callers\<close>

record budget_state =
  bs_budget :: Budget
  bs_storing :: "int option"
  bs_claims :: "int multiset"
  bs_sized :: int
  bs_reports :: nat

text \<open>
  \<open>bs_storing\<close> is the remaining deadline of the \<open>Arm\<close> that won the flag and has not stored yet,
  \<open>bs_claims\<close> the reservations not settled, \<open>bs_sized\<close> what the budget was sized with, \<open>bs_reports\<close>
  how many callers were told to report the exhaustion. A caller settles a claim it holds.
\<close>

inductive budget_step :: "budget_state \<Rightarrow> budget_state \<Rightarrow> bool" where
  arm_swap: "int64 remaining \<Longrightarrow> Arm_swap remaining (bs_budget s) = (b, True) \<Longrightarrow>
     budget_step s (s\<lparr>bs_budget := b, bs_storing := Some remaining, bs_sized := remaining div 2\<rparr>)"
| arm_store: "bs_storing s = Some remaining \<Longrightarrow>
     budget_step s (s\<lparr>bs_budget := Arm_store remaining (bs_budget s), bs_storing := None\<rparr>)"
| debit: "int64 spent \<Longrightarrow> budget_step s (s\<lparr>bs_budget := Debit spent (bs_budget s)\<rparr>)"
| reserve: "int64 need \<Longrightarrow> Reserve need (bs_budget s) = (b, True) \<Longrightarrow>
     budget_step s (s\<lparr>bs_budget := b, bs_claims := add_mset need (bs_claims s)\<rparr>)"
| settle: "reserved \<in># bs_claims s \<Longrightarrow> 0 \<le> actual \<Longrightarrow> int64 actual \<Longrightarrow>
     budget_step s (s\<lparr>bs_budget := Settle reserved actual (bs_budget s), bs_claims := bs_claims s - {#reserved#}\<rparr>)"
| report: "ReportExhaustion (bs_budget s) = (b, told) \<Longrightarrow>
     budget_step s (s\<lparr>bs_budget := b, bs_reports := bs_reports s + (if told then 1 else 0)\<rparr>)"
| exhausted: "Exhausted (bs_budget s) = (b, told) \<Longrightarrow>
     budget_step s (s\<lparr>bs_budget := b, bs_reports := bs_reports s + (if told then 1 else 0)\<rparr>)"

definition budget_start :: "int \<Rightarrow> budget_state" where
  "budget_start amount = \<lparr>bs_budget = WithTotal amount budget_zero, bs_storing = None, bs_claims = {#},
     bs_sized = max 0 amount, bs_reports = 0\<rparr>"

definition budget_ok :: "budget_state \<Rightarrow> bool" where
  "budget_ok s \<longleftrightarrow>
     0 \<le> bud_remaining (bs_budget s) \<and> int64 (bs_sized s) \<and> (\<forall>c \<in># bs_claims s. 0 < c) \<and>
     bud_remaining (bs_budget s) + sum_mset (bs_claims s) \<le> bs_sized s \<and>
     (\<not> bud_armed (bs_budget s) \<longrightarrow> bs_storing s = None) \<and>
     (\<not> bud_armed (bs_budget s) \<or> bs_storing s \<noteq> None \<longrightarrow> bud_remaining (bs_budget s) = 0 \<and> bs_claims s = {#}) \<and>
     (\<forall>r. bs_storing s = Some r \<longrightarrow> 0 < r \<and> bs_sized s = r div 2) \<and>
     bs_reports s = (if bud_reported (bs_budget s) then 1 else 0)"

lemma sum_mset_nonneg: "\<forall>c \<in># M. 0 < c \<Longrightarrow> (0::int) \<le> sum_mset M"
  by (induction M) auto

lemma Debit_cases:
  assumes "int64 spent" and "0 \<le> bud_remaining b" and "int64 (bud_remaining b)"
  obtains r where "Debit spent b = b\<lparr>bud_remaining := r\<rparr>" "0 \<le> r" "r \<le> bud_remaining b"
    "0 \<le> spent \<Longrightarrow> r = max 0 (bud_remaining b - spent)"
proof (cases "spent \<le> 0")
  case True
  then show ?thesis using assms by (intro that [of "bud_remaining b"]) (auto simp: Debit_def)
next
  case False
  then have "wrap64 (bud_remaining b - spent) = bud_remaining b - spent"
    using assms by (intro wrap64_id) (auto simp: int64_def)
  then show ?thesis using False assms
    by (intro that [of "max 0 (bud_remaining b - spent)"]) (auto simp: Debit_def Let_def max_def)
qed

lemma Settle_cases:
  assumes "0 < reserved" and "0 \<le> actual" and "int64 actual" and "int64 reserved"
    and "0 \<le> bud_remaining b" and "int64 (bud_remaining b + reserved)"
  obtains r where "Settle reserved actual b = b\<lparr>bud_remaining := r\<rparr>" "0 \<le> r"
    "r = max 0 (bud_remaining b + reserved - actual)"
proof -
  have w: "wrap64 (actual - reserved) = actual - reserved" "wrap64 (reserved - actual) = reserved - actual"
    using assms by (auto simp: int64_def intro!: wrap64_id)
  show ?thesis
  proof (cases "actual > reserved")
    case True
    have "int64 (bud_remaining b)" and "int64 (actual - reserved)" using assms by (auto simp: int64_def)
    then show ?thesis
      using True assms(5) w by (elim Debit_cases [of "actual - reserved" b])
        (auto simp: Settle_def intro!: that)
  next
    case False
    then have "wrap64 (bud_remaining b + (reserved - actual)) = bud_remaining b + (reserved - actual)"
      using assms by (auto simp: int64_def intro!: wrap64_id)
    then show ?thesis using False assms w
      by (intro that [of "bud_remaining b + (reserved - actual)"]) (auto simp: Settle_def refund_def)
  qed
qed

lemma Reserve_True:
  assumes "Reserve need b = (b', True)" and "0 \<le> bud_remaining b" and "int64 (bud_remaining b)"
  shows "b' = b\<lparr>bud_remaining := bud_remaining b - need\<rparr>" "0 < need" "need \<le> bud_remaining b" "bud_armed b"
proof -
  have "0 < need" "need \<le> bud_remaining b" "bud_armed b" "b' = b\<lparr>bud_remaining := wrap64 (bud_remaining b - need)\<rparr>"
    using assms(1) by (auto simp: Reserve_def split: if_splits)
  moreover from this have "wrap64 (bud_remaining b - need) = bud_remaining b - need"
    using assms by (intro wrap64_id) (auto simp: int64_def)
  ultimately show "b' = b\<lparr>bud_remaining := bud_remaining b - need\<rparr>" "0 < need" "need \<le> bud_remaining b" "bud_armed b"
    by simp_all
qed

lemma budget_ok_int64:
  assumes "budget_ok s"
  shows "int64 (bud_remaining (bs_budget s))" "c \<in># bs_claims s \<Longrightarrow> int64 (bud_remaining (bs_budget s) + c)"
    "c \<in># bs_claims s \<Longrightarrow> int64 c"
proof -
  have r: "0 \<le> bud_remaining (bs_budget s)" "bud_remaining (bs_budget s) + sum_mset (bs_claims s) \<le> bs_sized s"
      "int64 (bs_sized s)" and pos: "\<forall>c \<in># bs_claims s. 0 < c" using assms by (auto simp: budget_ok_def)
  then show "int64 (bud_remaining (bs_budget s))" using sum_mset_nonneg [OF pos] by (auto simp: int64_def)
  show "int64 (bud_remaining (bs_budget s) + c)" "int64 c" if "c \<in># bs_claims s"
  proof -
    from that obtain M where M: "bs_claims s = add_mset c M" by (meson mset_add)
    with pos have "0 \<le> sum_mset M" "0 < c" by (auto intro: sum_mset_nonneg)
    with r M show "int64 (bud_remaining (bs_budget s) + c)" "int64 c" by (auto simp: int64_def)
  qed
qed

lemma budget_step_ok: "budget_step s s' \<Longrightarrow> budget_ok s \<Longrightarrow> budget_ok s'"
proof (induction rule: budget_step.induct)
  case (arm_swap remaining s b)
  then have "b = (bs_budget s)\<lparr>bud_armed := True\<rparr>" "0 < remaining" "\<not> bud_armed (bs_budget s)"
    by (auto simp: Arm_swap_def split: if_splits)
  with arm_swap show ?case by (auto simp: budget_ok_def int64_def)
next
  case (arm_store s remaining)
  then show ?case by (auto simp: budget_ok_def Arm_store_def split: if_splits)
next
  case (debit spent s)
  then have "0 \<le> bud_remaining (bs_budget s)" by (simp add: budget_ok_def)
  with debit budget_ok_int64(1) [OF debit.prems] show ?case
    by (elim Debit_cases [of spent "bs_budget s"]) (auto simp: budget_ok_def)
next
  case (reserve need s b)
  have nn: "0 \<le> bud_remaining (bs_budget s)" using reserve by (simp add: budget_ok_def)
  note R = Reserve_True [OF reserve.hyps(2) nn budget_ok_int64(1) [OF reserve.prems]]
  with reserve.prems show ?case by (auto simp: budget_ok_def)
next
  case (settle reserved s actual)
  obtain M where M: "bs_claims s = add_mset reserved M" using settle.hyps by (meson mset_add)
  have nn: "0 \<le> bud_remaining (bs_budget s)" "0 < reserved" using settle M by (auto simp: budget_ok_def)
  obtain r where r: "Settle reserved actual (bs_budget s) = (bs_budget s)\<lparr>bud_remaining := r\<rparr>" "0 \<le> r"
      "r = max 0 (bud_remaining (bs_budget s) + reserved - actual)"
    using Settle_cases [OF nn(2) settle.hyps(2,3) budget_ok_int64(3) [OF settle.prems settle.hyps(1)] nn(1)
      budget_ok_int64(2) [OF settle.prems settle.hyps(1)]] by metis
  have "0 \<le> sum_mset M" using settle.prems M by (intro sum_mset_nonneg) (auto simp: budget_ok_def)
  with settle r M show ?case by (auto simp: budget_ok_def)
qed (auto simp: budget_ok_def ReportExhaustion_def Exhausted_def split: if_splits)

lemma budget_start_ok: "int64 amount \<Longrightarrow> budget_ok (budget_start amount)"
  by (auto simp: budget_ok_def budget_start_def WithTotal_def budget_zero_def int64_def)

lemma budget_reachable_ok: "budget_step\<^sup>*\<^sup>* s s' \<Longrightarrow> budget_ok s \<Longrightarrow> budget_ok s'"
  by (induction rule: rtranclp_induct) (auto intro: budget_step_ok)

lemma budget_step_armed:
  "budget_step s s' \<Longrightarrow> bud_armed (bs_budget s) \<Longrightarrow> bud_armed (bs_budget s') \<and> bs_sized s' = bs_sized s"
  by (induction rule: budget_step.induct)
    (auto simp: Arm_swap_def Arm_store_def Debit_def Reserve_def Settle_def refund_def ReportExhaustion_def
       Exhausted_def Let_def split: if_splits)

lemma budget_sized_once:
  "budget_step\<^sup>*\<^sup>* s s' \<Longrightarrow> bud_armed (bs_budget s) \<Longrightarrow> bud_armed (bs_budget s') \<and> bs_sized s' = bs_sized s"
  by (induction rule: rtranclp_induct) (auto dest: budget_step_armed)

text \<open>C34. However the calls of an execution interleave on its shared retry budget, the balance is
  never negative, the balance and the reservations in flight together never exceed what the budget was
  sized with, no operation overflows, a declared size is never replaced by \<open>Arm\<close>, and the exhaustion is
  reported at most once.\<close>

theorem budget_never_overspent:
  assumes "budget_step\<^sup>*\<^sup>* (budget_start amount) s" and "int64 amount"
  shows "0 \<le> bud_remaining (bs_budget s) \<and>
    bud_remaining (bs_budget s) + sum_mset (bs_claims s) \<le> bs_sized s \<and> bs_sized s < 2 ^ 63 \<and>
    (\<forall>c \<in># bs_claims s. 0 < c) \<and> (0 < amount \<longrightarrow> bs_sized s = amount) \<and> bs_reports s \<le> 1"
proof -
  have ok: "budget_ok s" using budget_reachable_ok [OF assms(1)] budget_start_ok [OF assms(2)] by blast
  have "bs_sized s = amount" if "0 < amount"
  proof -
    have "bud_armed (bs_budget (budget_start amount))" using that by (simp add: budget_start_def WithTotal_def)
    with budget_sized_once [OF assms(1)] that show ?thesis by (simp add: budget_start_def)
  qed
  with ok show ?thesis by (auto simp: budget_ok_def int64_def)
qed

text \<open>Two calls reserve 60 of 100 at once: the second is refused; the first then returns 20 early.\<close>

lemma budget_never_overspent_witness:
  "snd (Reserve 60 (fst (Reserve 60 (WithTotal 100 budget_zero)))) = False \<and>
   0 \<le> bud_remaining (Settle 60 40 (fst (Reserve 60 (WithTotal 100 budget_zero)))) \<and>
   bud_remaining (Settle 60 40 (fst (Reserve 60 (WithTotal 100 budget_zero)))) + 0 \<le> 100"
proof -
  define s1 where "s1 = (budget_start 100)\<lparr>bs_budget := fst (Reserve 60 (WithTotal 100 budget_zero)), bs_claims := {#60#}\<rparr>"
  define s2 where "s2 = s1\<lparr>bs_budget := Settle 60 40 (bs_budget s1), bs_claims := bs_claims s1 - {#60#}\<rparr>"
  have "Reserve 60 (bs_budget (budget_start 100)) = (fst (Reserve 60 (WithTotal 100 budget_zero)), True)"
    by (simp add: Reserve_def WithTotal_def budget_start_def)
  from budget_step.reserve [OF _ this] have "budget_step (budget_start 100) s1"
    by (simp add: s1_def budget_start_def int64_def)
  moreover have "budget_step s1 s2"
    unfolding s2_def by (rule budget_step.settle) (simp_all add: s1_def int64_def)
  ultimately have "budget_step\<^sup>*\<^sup>* (budget_start 100) s2" by simp
  from budget_never_overspent [OF this] show ?thesis
    by (simp add: s1_def s2_def budget_start_def int64_def Reserve_def WithTotal_def wrap64_def budget_zero_def)
qed

section \<open>Backoff\<close>

record Backoff =
  bo_Base :: int
  bo_Factor :: int
  bo_Cap :: int

definition DefaultBackoff :: Backoff where
  "DefaultBackoff = \<lparr>bo_Base = 100000000, bo_Factor = 2, bo_Cap = 5000000000\<rparr>"

text \<open>\<open>interval_loop b n i\<close> is the loop with \<open>n\<close> rounds left and the final clamp.\<close>

definition interval_clamp :: "Backoff \<Rightarrow> int \<Rightarrow> int" where
  "interval_clamp b i = (if bo_Cap b > 0 \<and> i > bo_Cap b then bo_Cap b else i)"

fun interval_loop :: "Backoff \<Rightarrow> nat \<Rightarrow> int \<Rightarrow> int" where
  "interval_loop b 0 i = interval_clamp b i"
| "interval_loop b (Suc n) i =
     (if bo_Factor b \<le> 1 then interval_clamp b i
      else let i' = wrap64 (i * bo_Factor b) in
        if bo_Cap b > 0 \<and> i' \<ge> bo_Cap b then bo_Cap b else interval_loop b n i')"

definition interval :: "Backoff \<Rightarrow> int \<Rightarrow> int" where
  "interval b attempt = (if bo_Base b \<le> 0 \<or> attempt < 0 then 0 else interval_loop b (nat attempt) (bo_Base b))"

text \<open>The injected source of randomness is its draw, \<open>None\<close> for a nil function.\<close>

definition Backoff_Next :: "Backoff \<Rightarrow> int \<Rightarrow> rat option \<Rightarrow> int" where
  "Backoff_Next b attempt rand =
     (let i = interval b attempt in
      if i \<le> 0 then 0
      else case rand of
        None \<Rightarrow> i
      | Some draw \<Rightarrow>
          if draw \<le> 0 then 0 else if draw \<ge> 1 then i else f64_trunc (f64 (float64 i * draw)))"

lemma interval_loop_exact:
  assumes "1 \<le> i" and "1 \<le> bo_Factor b" and "1 \<le> bo_Cap b" and "bo_Cap b * bo_Factor b < 2 ^ 63"
    and "i \<le> bo_Cap b"
  shows "interval_loop b n i = min (bo_Cap b) (i * bo_Factor b ^ n)"
  using assms(1,5)
proof (induction n arbitrary: i)
  case 0
  then show ?case by (simp add: interval_clamp_def)
next
  case (Suc n)
  show ?case
  proof (cases "bo_Factor b = 1")
    case True
    then show ?thesis using Suc.prems by (simp add: interval_clamp_def)
  next
    case False
    have "i * bo_Factor b \<le> bo_Cap b * bo_Factor b" using Suc.prems assms(2) by (intro mult_right_mono) auto
    moreover have "0 \<le> i * bo_Factor b" using Suc.prems assms(2) by (intro mult_nonneg_nonneg) auto
    ultimately have "int64 (i * bo_Factor b)" using assms(4) unfolding int64_def by linarith
    then have w: "wrap64 (i * bo_Factor b) = i * bo_Factor b" by (rule wrap64_id)
    show ?thesis
    proof (cases "bo_Cap b \<le> i * bo_Factor b")
      case True
      have "i * bo_Factor b * 1 \<le> i * bo_Factor b * bo_Factor b ^ n"
        using assms(2) Suc.prems by (intro mult_left_mono) auto
      with True False w assms show ?thesis by (simp add: mult.assoc)
    next
      case small: False
      have "1 * 1 \<le> i * bo_Factor b" using assms(2) Suc.prems by (intro mult_mono) auto
      with Suc.IH [of "i * bo_Factor b"] small w False assms show ?thesis by (simp add: mult.assoc)
    qed
  qed
qed

lemma interval_exact:
  assumes "1 \<le> bo_Base b" and "1 \<le> bo_Factor b" and "bo_Base b \<le> bo_Cap b" and "bo_Cap b * bo_Factor b < 2 ^ 63"
    and "0 \<le> attempt"
  shows "interval b attempt = min (bo_Cap b) (bo_Base b * bo_Factor b ^ nat attempt)"
  using interval_loop_exact [of "bo_Base b" b "nat attempt"] assms by (simp add: interval_def)

text \<open>Without a cap the doubling wraps: the wait of the 38th attempt with the default base is 0, not
  the longest of all.\<close>

lemma uncapped_backoff_wraps:
  "Backoff_Next \<lparr>bo_Base = 100000000, bo_Factor = 2, bo_Cap = 0\<rparr> 36 None = 6871947673600000000 \<and>
   Backoff_Next \<lparr>bo_Base = 100000000, bo_Factor = 2, bo_Cap = 0\<rparr> 37 None = 0"
  by code_simp

lemma jittered_bound:
  assumes "1 \<le> i" and "i < 2 ^ 53" and "0 < draw" and "draw < 1"
  shows "0 \<le> f64_trunc (f64 (float64 i * draw))" "f64_trunc (f64 (float64 i * draw)) \<le> i"
proof -
  have f: "float64 i = of_int i" using assms by (simp add: float64_def f64_whole)
  have p: "0 \<le> of_int i * draw" "of_int i * draw \<le> of_int i * 1"
    using assms by (auto intro!: mult_left_mono)
  then have "f64 (of_int i * draw) \<le> of_int i" and "0 \<le> f64 (of_int i * draw)"
    using assms by (auto intro!: f64_le_whole f64_nonneg)
  then show "0 \<le> f64_trunc (f64 (float64 i * draw))" "f64_trunc (f64 (float64 i * draw)) \<le> i"
    by (auto simp: f f64_trunc_def floor_le_iff)
qed

lemma Backoff_Next_bounds:
  assumes "1 \<le> bo_Base b" and "1 \<le> bo_Factor b" and "bo_Base b \<le> bo_Cap b" and "bo_Cap b * bo_Factor b < 2 ^ 63"
    and "bo_Cap b < 2 ^ 53" and "0 \<le> attempt"
  shows "0 \<le> Backoff_Next b attempt rand \<and> Backoff_Next b attempt rand \<le> interval b attempt"
proof -
  have "1 * 1 \<le> bo_Base b * bo_Factor b ^ nat attempt" using assms by (intro mult_mono) auto
  then have "1 \<le> interval b attempt" "interval b attempt < 2 ^ 53"
    using interval_exact [OF assms(1-4,6)] assms by auto
  then show ?thesis using jittered_bound [of "interval b attempt"]
    by (auto simp: Backoff_Next_def Let_def split: option.splits)
qed

section \<open>The retry conjunction\<close>

datatype Retryability = Retryability_Unknown | Retryability_Retryable | Retryability_NotRetryable

record RetryOperation =
  rop_Dependency :: string
  rop_Method :: string
  rop_Idempotent :: bool
  rop_EffectAbsent :: "(gerr \<Rightarrow> bool) option"
  rop_EstimatedDuration :: int

datatype Factor = FactorNone | FactorAttempts | FactorRetryable | FactorIdempotent | FactorBudget | FactorDeadline

record EvaluateInput =
  inp_Err :: gerr
  inp_Classifier :: "(gerr \<Rightarrow> Retryability) option"
  inp_Operation :: RetryOperation
  inp_Attempt :: int
  inp_MaxAttempts :: int
  inp_Budget :: "Budget option"
  inp_Remaining :: int
  inp_Backoff :: Backoff
  inp_Rand :: "rat option"

record Verdict =
  ver_Allowed :: bool
  ver_Denied :: Factor
  ver_Wait :: int
  ver_Need :: int

definition deniedBy :: "Factor \<Rightarrow> Verdict" where
  "deniedBy f = \<lparr>ver_Allowed = False, ver_Denied = f, ver_Wait = 0, ver_Need = 0\<rparr>"

definition repeatable :: "RetryOperation \<Rightarrow> gerr \<Rightarrow> bool" where
  "repeatable op err =
     (if rop_Idempotent op then True
      else (case rop_EffectAbsent op of None \<Rightarrow> False | Some absent \<Rightarrow> absent err))"

definition Evaluate :: "EvaluateInput \<Rightarrow> Verdict" where
  "Evaluate i =
     (if wrap64 (inp_Attempt i + 1) \<ge> inp_MaxAttempts i then deniedBy FactorAttempts
      else let
        wait = Backoff_Next (inp_Backoff i) (inp_Attempt i) (inp_Rand i);
        need = wrap64 (rop_EstimatedDuration (inp_Operation i) + wait) in
        if (case inp_Classifier i of None \<Rightarrow> True | Some classify \<Rightarrow> classify (inp_Err i) \<noteq> Retryability_Retryable)
        then deniedBy FactorRetryable
        else if \<not> repeatable (inp_Operation i) (inp_Err i) then deniedBy FactorIdempotent
        else if (case inp_Budget i of None \<Rightarrow> True | Some b \<Rightarrow> Budget_Remaining b < need) then deniedBy FactorBudget
        else if inp_Remaining i < need then deniedBy FactorDeadline
        else \<lparr>ver_Allowed = True, ver_Denied = FactorNone, ver_Wait = wait, ver_Need = need\<rparr>)"

text \<open>The five conditions in the order the evaluation names them, each over exact integers.\<close>

definition retry_factors :: "EvaluateInput \<Rightarrow> (Factor \<times> bool) list" where
  "retry_factors i =
     (let need = rop_EstimatedDuration (inp_Operation i) + Backoff_Next (inp_Backoff i) (inp_Attempt i) (inp_Rand i) in
      [(FactorAttempts, inp_Attempt i + 1 < inp_MaxAttempts i),
       (FactorRetryable, \<exists>c. inp_Classifier i = Some c \<and> c (inp_Err i) = Retryability_Retryable),
       (FactorIdempotent, rop_Idempotent (inp_Operation i) \<or>
          (\<exists>absent. rop_EffectAbsent (inp_Operation i) = Some absent \<and> absent (inp_Err i))),
       (FactorBudget, \<exists>b. inp_Budget i = Some b \<and> need \<le> Budget_Remaining b),
       (FactorDeadline, need \<le> inp_Remaining i)])"

fun first_false :: "(Factor \<times> bool) list \<Rightarrow> Factor" where
  "first_false [] = FactorNone"
| "first_false ((f, holds) # fs) = (if holds then first_false fs else f)"

lemma Evaluate_denied: "ver_Denied (Evaluate i) = FactorNone \<longleftrightarrow> ver_Allowed (Evaluate i)"
  by (simp add: Evaluate_def deniedBy_def Let_def split: option.splits)

lemma Evaluate_attempts: "ver_Allowed (Evaluate i) \<Longrightarrow> wrap64 (inp_Attempt i + 1) < inp_MaxAttempts i"
  by (simp add: Evaluate_def deniedBy_def split: if_splits)

lemma Evaluate_budget: "ver_Allowed (Evaluate i) \<Longrightarrow>
    \<exists>b. inp_Budget i = Some b \<and> ver_Need (Evaluate i) \<le> Budget_Remaining b"
  by (auto simp: Evaluate_def deniedBy_def Let_def split: if_splits option.splits)

text \<open>\<open>Evaluate\<close> is the five-way conjunction: it names the first condition that fails in the
  declared order and allows the retry when none does. An allowance waits no longer than the capped
  exponential interval, and what it says the attempt needs fits in the remaining deadline and can be
  reserved at once from the balance it read.\<close>

theorem Evaluate_conjunction:
  assumes "1 \<le> bo_Base b" and "1 \<le> bo_Factor b" and "bo_Base b \<le> bo_Cap b" and "bo_Cap b * bo_Factor b < 2 ^ 63"
    and "bo_Cap b < 2 ^ 53" and "inp_Backoff i = b" and "0 \<le> inp_Attempt i" and "inp_Attempt i < 2 ^ 63 - 1"
    and "1 \<le> rop_EstimatedDuration (inp_Operation i)" and "rop_EstimatedDuration (inp_Operation i) < 2 ^ 62"
  shows "ver_Denied (Evaluate i) = first_false (retry_factors i) \<and>
    (ver_Allowed (Evaluate i) \<longleftrightarrow> (\<forall>(f, holds) \<in> set (retry_factors i). holds)) \<and>
    (ver_Allowed (Evaluate i) \<longrightarrow>
       0 \<le> ver_Wait (Evaluate i) \<and>
       ver_Wait (Evaluate i) \<le> min (bo_Cap b) (bo_Base b * bo_Factor b ^ nat (inp_Attempt i)) \<and>
       ver_Need (Evaluate i) = rop_EstimatedDuration (inp_Operation i) + ver_Wait (Evaluate i) \<and>
       ver_Need (Evaluate i) \<le> inp_Remaining i \<and>
       (\<exists>budget. inp_Budget i = Some budget \<and> snd (Reserve (ver_Need (Evaluate i)) budget)))"
proof -
  define wait where "wait = Backoff_Next (inp_Backoff i) (inp_Attempt i) (inp_Rand i)"
  have w: "0 \<le> wait" "wait \<le> min (bo_Cap b) (bo_Base b * bo_Factor b ^ nat (inp_Attempt i))"
    using Backoff_Next_bounds [OF assms(1-5,7)] interval_exact [OF assms(1-4,7)] by (simp_all add: wait_def assms(6))
  have need: "wrap64 (rop_EstimatedDuration (inp_Operation i) + wait) = rop_EstimatedDuration (inp_Operation i) + wait"
    and incr: "wrap64 (inp_Attempt i + 1) = inp_Attempt i + 1"
    using assms w by (auto intro!: wrap64_id simp: int64_def)
  have "ver_Denied (Evaluate i) = first_false (retry_factors i)"
    by (simp add: Evaluate_def retry_factors_def deniedBy_def repeatable_def Let_def need incr
        not_le not_less flip: wait_def split: option.splits)
  moreover have "ver_Allowed (Evaluate i) \<longleftrightarrow> (\<forall>(f, holds) \<in> set (retry_factors i). holds)"
    by (simp add: Evaluate_def retry_factors_def deniedBy_def repeatable_def Let_def need incr
        not_le not_less flip: wait_def split: option.splits)
  moreover have shape: "ver_Wait (Evaluate i) = wait \<and> ver_Need (Evaluate i) = rop_EstimatedDuration (inp_Operation i) + wait \<and>
      ver_Need (Evaluate i) \<le> inp_Remaining i" if "ver_Allowed (Evaluate i)"
    using that by (auto simp: Evaluate_def deniedBy_def Let_def need incr simp flip: wait_def split: if_splits)
  moreover have "\<exists>budget. inp_Budget i = Some budget \<and> snd (Reserve (ver_Need (Evaluate i)) budget)"
    if allowed: "ver_Allowed (Evaluate i)"
  proof -
    obtain budget where "inp_Budget i = Some budget" "ver_Need (Evaluate i) \<le> Budget_Remaining budget"
      using Evaluate_budget [OF allowed] by blast
    moreover have "1 \<le> ver_Need (Evaluate i)"
      using shape [OF allowed] w assms(9) by simp
    ultimately show ?thesis by (intro exI [of _ budget]) (simp add: Reserve_def Budget_Remaining_def split: if_splits)
  qed
  ultimately show ?thesis using w by blast
qed

definition sample_evaluation :: EvaluateInput where
  "sample_evaluation = \<lparr>inp_Err = Sentinel ErrBreakerOpen, inp_Classifier = Some (\<lambda>_. Retryability_Retryable),
      inp_Operation = \<lparr>rop_Dependency = ''db'', rop_Method = ''get'', rop_Idempotent = True, rop_EffectAbsent = None,
        rop_EstimatedDuration = 1000\<rparr>,
      inp_Attempt = 1, inp_MaxAttempts = 3, inp_Budget = Some (WithTotal 1000000000 budget_zero),
      inp_Remaining = 2000000000, inp_Backoff = DefaultBackoff, inp_Rand = None\<rparr>"

lemma Evaluate_conjunction_witness:
  "ver_Allowed (Evaluate sample_evaluation) \<and> ver_Wait (Evaluate sample_evaluation) = 200000000 \<and>
   ver_Need (Evaluate sample_evaluation) = 200001000 \<and> ver_Need (Evaluate sample_evaluation) \<le> 2000000000 \<and>
   snd (Reserve 200001000 (WithTotal 1000000000 budget_zero))"
proof -
  let ?i = sample_evaluation
  have f: "inp_Backoff ?i = DefaultBackoff" "inp_Attempt ?i = 1" "inp_Remaining ?i = 2000000000"
      "rop_EstimatedDuration (inp_Operation ?i) = 1000" "inp_Budget ?i = Some (WithTotal 1000000000 budget_zero)"
    by (simp_all add: sample_evaluation_def)
  have "ver_Allowed (Evaluate ?i) \<and> ver_Wait (Evaluate ?i) = 200000000" by code_simp
  then show ?thesis using Evaluate_conjunction [of DefaultBackoff ?i] by (auto simp: DefaultBackoff_def f)
qed

end
