(* ===== verification/Resilience_Breaker.thy ===== *)
theory Resilience_Breaker
  imports Go_Numbers Go_Errors "HOL-Library.Multiset" "HOL-Library.Word"
begin

text \<open>
  The circuit breaker, \<^verbatim>\<open>libs/backend/go/observability/resilience/breaker.go\<close>. \<open>admit\<close> and
  \<open>record_call\<close> run under the breaker's lock, so each is one transition; the clock reading they make is
  an argument. The gauge, the span and the log they write are not modelled. \<open>breaker_step\<close> interleaves
  the calls of a process: a call holds the ticket it was admitted with until it returns, in any order.
\<close>

section \<open>State and operations\<close>

datatype BreakerState = BreakerClosed | BreakerHalfOpen | BreakerOpen

fun BreakerState_String :: "BreakerState \<Rightarrow> string" where
  "BreakerState_String BreakerHalfOpen = ''half_open''"
| "BreakerState_String BreakerOpen = ''open''"
| "BreakerState_String BreakerClosed = ''closed''"

record BreakerPolicy =
  bp_Window :: int
  bp_Threshold :: rat
  bp_MinSamples :: int
  bp_Cooldown :: int
  bp_Probes :: int

record admission =
  adm_probe :: bool
  adm_generation :: "64 word"

record observed_call =
  obc_at :: int
  obc_failed :: bool

record Breaker =
  br_dependency :: string
  br_policy :: BreakerPolicy
  br_failure :: "(gerr \<Rightarrow> bool) option"
  br_window :: "observed_call list"
  br_state :: BreakerState
  br_openedAt :: int
  br_probing :: int
  br_generation :: "64 word"

text \<open>The zero \<open>time.Time\<close> of \<open>openedAt\<close> is read in the open state only, which sets it.\<close>

definition NewBreaker :: "string \<Rightarrow> BreakerPolicy \<Rightarrow> Breaker" where
  "NewBreaker dependency policy = \<lparr>br_dependency = dependency, br_policy = policy, br_failure = None, br_window = [],
     br_state = BreakerClosed, br_openedAt = 0, br_probing = 0, br_generation = 0\<rparr>"

definition CountsAsFailure :: "(gerr \<Rightarrow> bool) option \<Rightarrow> Breaker \<Rightarrow> Breaker" where
  "CountsAsFailure failure b = b\<lparr>br_failure := failure\<rparr>"

definition probes :: "Breaker \<Rightarrow> int" where
  "probes b = (if bp_Probes (br_policy b) \<le> 0 then 1 else bp_Probes (br_policy b))"

definition transition :: "BreakerState \<Rightarrow> int \<Rightarrow> Breaker \<Rightarrow> Breaker" where
  "transition to now b =
     (let b1 = b\<lparr>br_generation := br_generation b + 1, br_state := to\<rparr> in
      case to of
        BreakerOpen \<Rightarrow> b1\<lparr>br_openedAt := now, br_probing := 0\<rparr>
      | BreakerClosed \<Rightarrow> b1\<lparr>br_probing := 0\<rparr>
      | BreakerHalfOpen \<Rightarrow> b1)"

definition breaker_refuse :: "string \<Rightarrow> Breaker \<Rightarrow> admission result" where
  "breaker_refuse why b = FailWith ErrBreakerOpen (br_dependency b @ '' '' @ why)"

definition admit :: "int \<Rightarrow> Breaker \<Rightarrow> Breaker \<times> admission result" where
  "admit now b =
     (if br_state b = BreakerOpen \<and> time_Sub now (br_openedAt b) < bp_Cooldown (br_policy b)
      then (b, breaker_refuse ''is open'' b)
      else let b1 = (if br_state b = BreakerOpen then transition BreakerHalfOpen now b else b) in
        if br_state b1 = BreakerHalfOpen
        then if br_probing b1 \<ge> probes b1
          then (b1, breaker_refuse ''is half-open and its probes are in flight'' b1)
          else let b2 = b1\<lparr>br_probing := br_probing b1 + 1\<rparr> in
            (b2, Ok \<lparr>adm_probe = True, adm_generation = br_generation b2\<rparr>)
        else (b1, Ok \<lparr>adm_probe = False, adm_generation = br_generation b1\<rparr>))"

definition releaseProbe :: "admission \<Rightarrow> Breaker \<Rightarrow> Breaker" where
  "releaseProbe granted b =
     (if \<not> adm_probe granted then b
      else if adm_generation granted = br_generation b \<and> br_state b = BreakerHalfOpen \<and> br_probing b > 0
      then b\<lparr>br_probing := br_probing b - 1\<rparr>
      else b)"

text \<open>With no observation the ratio is \<open>0/0\<close>, a NaN, and every comparison with it is false.\<close>

definition shouldOpen :: "Breaker \<Rightarrow> bool" where
  "shouldOpen b =
     (let n = int (length (br_window b)) in
      if n < bp_MinSamples (br_policy b) then False
      else if n = 0 then False
      else let failures = int (length (filter obc_failed (br_window b))) in
        f64 (float64 failures / float64 n) \<ge> bp_Threshold (br_policy b))"

definition prune :: "int \<Rightarrow> Breaker \<Rightarrow> observed_call list" where
  "prune now b =
     (if bp_Window (br_policy b) \<le> 0 then br_window b
      else filter (\<lambda>seen. obc_at seen > now - bp_Window (br_policy b)) (br_window b))"

definition record_call :: "int \<Rightarrow> admission \<Rightarrow> gerr option \<Rightarrow> Breaker \<Rightarrow> Breaker" where
  "record_call now granted err b =
     (if (case err of Some e \<Rightarrow> errors_Is e ErrCancelled | None \<Rightarrow> False) then releaseProbe granted b
      else let failed = (case err of None \<Rightarrow> False
                         | Some e \<Rightarrow> (case br_failure b of None \<Rightarrow> True | Some failure \<Rightarrow> failure e)) in
        if adm_probe granted
        then if adm_generation granted \<noteq> br_generation b \<or> br_state b \<noteq> BreakerHalfOpen then b
          else let b1 = b\<lparr>br_probing := br_probing b - 1, br_window := []\<rparr> in
            if failed then transition BreakerOpen now b1 else transition BreakerClosed now b1
        else if br_state b = BreakerHalfOpen then b
        else let b1 = b\<lparr>br_window := prune now b @ [\<lparr>obc_at = now, obc_failed = failed\<rparr>]\<rparr> in
          if shouldOpen b1 then transition BreakerOpen now b1 else b1)"

section \<open>Interleaved calls\<close>

text \<open>\<open>bk_turns\<close> counts the transitions, of which the generation is the value modulo \<open>2^64\<close>.\<close>

record breaker_run =
  bk_breaker :: Breaker
  bk_inflight :: "admission multiset"
  bk_now :: int
  bk_turns :: nat

definition turned :: "Breaker \<Rightarrow> Breaker \<Rightarrow> nat" where
  "turned b b' = (if br_generation b' = br_generation b then 0 else 1)"

inductive breaker_step :: "breaker_run \<Rightarrow> breaker_run \<Rightarrow> bool" where
  call_admitted: "bk_now s \<le> now \<Longrightarrow> admit now (bk_breaker s) = (b, Ok granted) \<Longrightarrow>
     breaker_step s \<lparr>bk_breaker = b, bk_inflight = add_mset granted (bk_inflight s), bk_now = now,
       bk_turns = bk_turns s + turned (bk_breaker s) b\<rparr>"
| call_refused: "bk_now s \<le> now \<Longrightarrow> admit now (bk_breaker s) = (b, Err e) \<Longrightarrow>
     breaker_step s \<lparr>bk_breaker = b, bk_inflight = bk_inflight s, bk_now = now,
       bk_turns = bk_turns s + turned (bk_breaker s) b\<rparr>"
| call_returns: "bk_now s \<le> now \<Longrightarrow> granted \<in># bk_inflight s \<Longrightarrow> record_call now granted err (bk_breaker s) = b \<Longrightarrow>
     breaker_step s \<lparr>bk_breaker = b, bk_inflight = bk_inflight s - {#granted#}, bk_now = now,
       bk_turns = bk_turns s + turned (bk_breaker s) b\<rparr>"

definition breaker_start :: "string \<Rightarrow> BreakerPolicy \<Rightarrow> (gerr \<Rightarrow> bool) option \<Rightarrow> int \<Rightarrow> breaker_run" where
  "breaker_start dependency policy failure now =
     \<lparr>bk_breaker = CountsAsFailure failure (NewBreaker dependency policy), bk_inflight = {#}, bk_now = now, bk_turns = 0\<rparr>"

definition current_probe :: "Breaker \<Rightarrow> admission \<Rightarrow> bool" where
  "current_probe b t \<longleftrightarrow> adm_probe t \<and> adm_generation t = br_generation b"

definition probing_ok :: "Breaker \<Rightarrow> int \<Rightarrow> bool" where
  "probing_ok b now \<longleftrightarrow> 0 \<le> br_probing b \<and> br_probing b \<le> probes b \<and>
     (br_state b \<noteq> BreakerHalfOpen \<longrightarrow> br_probing b = 0) \<and> (br_state b = BreakerOpen \<longrightarrow> br_openedAt b \<le> now)"

definition tickets_ok :: "Breaker \<Rightarrow> admission multiset \<Rightarrow> nat \<Rightarrow> bool" where
  "tickets_ok b tickets turns \<longleftrightarrow> br_generation b = of_nat turns \<and>
     (\<forall>t \<in># tickets. \<exists>n \<le> turns. adm_generation t = of_nat n)"

definition probes_counted :: "Breaker \<Rightarrow> admission multiset \<Rightarrow> bool" where
  "probes_counted b tickets \<longleftrightarrow>
     (br_state b = BreakerHalfOpen \<longrightarrow> int (size (filter_mset (current_probe b) tickets)) = br_probing b)"

definition breaker_ok :: "breaker_run \<Rightarrow> bool" where
  "breaker_ok s \<longleftrightarrow> probing_ok (bk_breaker s) (bk_now s) \<and>
     tickets_ok (bk_breaker s) (bk_inflight s) (bk_turns s) \<and> probes_counted (bk_breaker s) (bk_inflight s)"

lemma transition_simps [simp]:
  "br_state (transition to now b) = to"
  "br_generation (transition to now b) = br_generation b + 1"
  "br_policy (transition to now b) = br_policy b"
  "br_window (transition to now b) = br_window b"
  "br_failure (transition to now b) = br_failure b"
  "br_openedAt (transition BreakerOpen now b) = now"
  "br_openedAt (transition BreakerHalfOpen now b) = br_openedAt b"
  "br_probing (transition BreakerOpen now b) = 0"
  "br_probing (transition BreakerClosed now b) = 0"
  "br_probing (transition BreakerHalfOpen now b) = br_probing b"
  "probes (transition to now b) = probes b"
  by (cases to; simp add: transition_def probes_def Let_def)+

lemma probes_simps [simp]: "0 < probes b" "0 \<le> probes b" "probes (b\<lparr>br_probing := n\<rparr>) = probes b" "probes (b\<lparr>br_window := w\<rparr>) = probes b"
  by (simp_all add: probes_def)

lemma turned_simps [simp]:
  "turned b b = 0" "br_generation b' = br_generation b \<Longrightarrow> turned b b' = 0" "br_generation b' = br_generation b + 1 \<Longrightarrow> turned b b' = 1"
  by (simp_all add: turned_def)

lemma of_nat_word_inject:
  "m < 2 ^ 64 \<Longrightarrow> n < 2 ^ 64 \<Longrightarrow> (of_nat m :: 64 word) = of_nat n \<longleftrightarrow> m = n"
  by (auto dest!: arg_cong [where f = unat] simp: unat_of_nat take_bit_nat_eq_self)

lemma admit_cases:
  assumes "admit now b = (b', r)"
  obtains
    (cooling) "br_state b = BreakerOpen" "time_Sub now (br_openedAt b) < bp_Cooldown (br_policy b)"
      "b' = b" "r = breaker_refuse ''is open'' b"
  | (closed) "br_state b = BreakerClosed" "b' = b" "r = Ok \<lparr>adm_probe = False, adm_generation = br_generation b\<rparr>"
  | (half_open) b1 where
      "b1 = b \<and> br_state b = BreakerHalfOpen \<or> b1 = transition BreakerHalfOpen now b \<and> br_state b = BreakerOpen \<and>
         \<not> time_Sub now (br_openedAt b) < bp_Cooldown (br_policy b)"
      "if br_probing b < probes b
       then b' = b1\<lparr>br_probing := br_probing b + 1\<rparr> \<and> r = Ok \<lparr>adm_probe = True, adm_generation = br_generation b1\<rparr>
       else b' = b1 \<and> (\<exists>e. r = Err e)"
proof (cases "br_state b")
  case BreakerClosed
  then show ?thesis using assms by (intro closed) (auto simp: admit_def)
next
  case BreakerHalfOpen
  then show ?thesis using assms
    by (intro half_open [of b]) (auto simp: admit_def breaker_refuse_def Let_def split: if_splits)
next
  case BreakerOpen
  then show ?thesis
  proof (cases "time_Sub now (br_openedAt b) < bp_Cooldown (br_policy b)")
    case True
    then show ?thesis using assms BreakerOpen by (intro cooling) (auto simp: admit_def)
  next
    case False
    then show ?thesis using assms BreakerOpen
      by (intro half_open [of "transition BreakerHalfOpen now b"])
        (auto simp: admit_def breaker_refuse_def Let_def split: if_splits)
  qed
qed

lemma record_cases:
  obtains
    (unchanged) "record_call now granted err b = b"
      "current_probe b granted \<Longrightarrow> br_state b = BreakerHalfOpen \<Longrightarrow> br_probing b \<le> 0"
  | (slot_freed) "current_probe b granted" "br_state b = BreakerHalfOpen" "0 < br_probing b"
      "record_call now granted err b = b\<lparr>br_probing := br_probing b - 1\<rparr>"
  | (decided) to where "current_probe b granted" "br_state b = BreakerHalfOpen" "to = BreakerOpen \<or> to = BreakerClosed"
      "record_call now granted err b = transition to now (b\<lparr>br_probing := br_probing b - 1, br_window := []\<rparr>)"
  | (counted) w where "\<not> adm_probe granted" "br_state b \<noteq> BreakerHalfOpen"
      "record_call now granted err b = b\<lparr>br_window := w\<rparr>"
  | (opened) w where "\<not> adm_probe granted" "br_state b \<noteq> BreakerHalfOpen"
      "record_call now granted err b = transition BreakerOpen now (b\<lparr>br_window := w\<rparr>)"
proof (cases "case err of Some e \<Rightarrow> errors_Is e ErrCancelled | None \<Rightarrow> False")
  case True
  then have eq: "record_call now granted err b = releaseProbe granted b" by (simp add: record_call_def)
  show ?thesis
  proof (cases "current_probe b granted \<and> br_state b = BreakerHalfOpen \<and> 0 < br_probing b")
    case True
    then show ?thesis by (intro slot_freed) (auto simp: eq releaseProbe_def current_probe_def)
  next
    case False
    then show ?thesis by (intro unchanged) (auto simp: eq releaseProbe_def current_probe_def)
  qed
next
  case False
  define failed where "failed = (case err of None \<Rightarrow> False
    | Some e \<Rightarrow> (case br_failure b of None \<Rightarrow> True | Some failure \<Rightarrow> failure e))"
  define w where "w = prune now b @ [\<lparr>obc_at = now, obc_failed = failed\<rparr>]"
  have eq: "record_call now granted err b =
     (if adm_probe granted
      then if \<not> current_probe b granted \<or> br_state b \<noteq> BreakerHalfOpen then b
        else transition (if failed then BreakerOpen else BreakerClosed) now (b\<lparr>br_probing := br_probing b - 1, br_window := []\<rparr>)
      else if br_state b = BreakerHalfOpen then b
      else if shouldOpen (b\<lparr>br_window := w\<rparr>) then transition BreakerOpen now (b\<lparr>br_window := w\<rparr>) else b\<lparr>br_window := w\<rparr>)"
    using False by (simp add: record_call_def failed_def w_def current_probe_def Let_def)
  show ?thesis
  proof (cases "adm_probe granted")
    case True
    show ?thesis
    proof (cases "current_probe b granted \<and> br_state b = BreakerHalfOpen")
      case True
      with \<open>adm_probe granted\<close> show ?thesis by (intro decided [of "if failed then BreakerOpen else BreakerClosed"]) (auto simp: eq)
    next
      case False
      with \<open>adm_probe granted\<close> show ?thesis by (intro unchanged) (auto simp: eq)
    qed
  next
    case no_probe: False
    show ?thesis
    proof (cases "br_state b = BreakerHalfOpen")
      case True
      with no_probe show ?thesis by (intro unchanged) (auto simp: eq current_probe_def)
    next
      case False
      with no_probe show ?thesis
        by (cases "shouldOpen (b\<lparr>br_window := w\<rparr>)") (auto simp: eq intro: counted opened)
    qed
  qed
qed

lemma tickets_turn:
  assumes "tickets_ok b tickets turns" and "Suc turns < 2 ^ 64" and "br_generation b' = br_generation b + 1"
  shows "tickets_ok b' tickets (Suc turns)" "filter_mset (current_probe b') tickets = {#}"
proof -
  have g: "br_generation b' = of_nat (Suc turns)" using assms by (simp add: tickets_ok_def)
  with assms(1) show "tickets_ok b' tickets (Suc turns)" unfolding tickets_ok_def by (meson le_SucI)
  have "\<not> current_probe b' t" if t: "t \<in># tickets" for t
  proof -
    obtain n where n: "n \<le> turns" "adm_generation t = of_nat n" using assms(1) t by (auto simp: tickets_ok_def)
    then have "(of_nat n :: 64 word) \<noteq> of_nat (Suc turns)"
      using assms(2) by (subst of_nat_word_inject) auto
    then show ?thesis using n g by (simp add: current_probe_def)
  qed
  then show "filter_mset (current_probe b') tickets = {#}" by (simp add: filter_mset_eq_conv)
qed

lemma tickets_admit:
  "tickets_ok b tickets turns \<Longrightarrow> adm_generation t = br_generation b \<Longrightarrow> tickets_ok b (add_mset t tickets) turns"
  by (auto simp: tickets_ok_def)

lemma tickets_remove: "tickets_ok b tickets turns \<Longrightarrow> tickets_ok b (tickets - {#t#}) turns"
  by (auto simp: tickets_ok_def dest: in_diffD)

lemma tickets_same: "br_generation b' = br_generation b \<Longrightarrow> tickets_ok b' tickets turns = tickets_ok b tickets turns"
  by (simp add: tickets_ok_def)

lemma field_updates [simp]:
  "current_probe (b\<lparr>br_probing := n\<rparr>) = current_probe b"
  "current_probe (b\<lparr>br_window := w\<rparr>) = current_probe b"
  "tickets_ok (b\<lparr>br_probing := n\<rparr>) = tickets_ok b"
  "tickets_ok (b\<lparr>br_window := w\<rparr>) = tickets_ok b"
  "probing_ok (b\<lparr>br_window := w\<rparr>) = probing_ok b"
  "probes_counted (b\<lparr>br_window := w\<rparr>) = probes_counted b"
  "turned b (b\<lparr>br_probing := n\<rparr>) = 0"
  "turned b (b\<lparr>br_window := w\<rparr>) = 0"
  by (auto simp: fun_eq_iff current_probe_def tickets_ok_def probing_ok_def probes_counted_def cong: filter_mset_cong)

text \<open>What a call finds when it is not refused by the cooldown: a half-open breaker of its cycle.\<close>

lemma half_open_ok:
  assumes "b1 = b \<and> br_state b = BreakerHalfOpen \<or> b1 = transition BreakerHalfOpen now b \<and> br_state b = BreakerOpen \<and> c"
    and "probing_ok b now0" and "tickets_ok b tickets turns" and "probes_counted b tickets"
    and "turns + turned b b1 < 2 ^ 64"
  shows "probing_ok b1 now \<and> tickets_ok b1 tickets (turns + turned b b1) \<and> probes_counted b1 tickets \<and>
    br_state b1 = BreakerHalfOpen \<and> br_probing b1 = br_probing b \<and> probes b1 = probes b"
  using assms(1)
proof (elim disjE conjE)
  assume "b1 = b" "br_state b = BreakerHalfOpen"
  then show ?thesis using assms by (simp add: probing_ok_def)
next
  assume b1: "b1 = transition BreakerHalfOpen now b" and "br_state b = BreakerOpen"
  then have "filter_mset (current_probe b1) tickets = {#}" "tickets_ok b1 tickets (Suc turns)"
    using tickets_turn [OF assms(3), of b1] assms(5) by auto
  with b1 \<open>br_state b = BreakerOpen\<close> assms(2) show ?thesis by (auto simp: probing_ok_def probes_counted_def)
qed

lemma probing_later: "probing_ok b now \<Longrightarrow> now \<le> now' \<Longrightarrow> probing_ok b now'"
  by (auto simp: probing_ok_def)

lemma admit_ok:
  assumes "admit now b = (b', r)" and "probing_ok b now0" and "now0 \<le> now" and "tickets_ok b tickets turns"
    and "probes_counted b tickets" and "turns + turned b b' < 2 ^ 64"
  shows "probing_ok b' now" and "tickets_ok b' (case r of Ok t \<Rightarrow> add_mset t tickets | _ \<Rightarrow> tickets) (turns + turned b b')"
    and "probes_counted b' (case r of Ok t \<Rightarrow> add_mset t tickets | _ \<Rightarrow> tickets)"
proof -
  have "probing_ok b' now \<and> tickets_ok b' (case r of Ok t \<Rightarrow> add_mset t tickets | _ \<Rightarrow> tickets) (turns + turned b b') \<and>
    probes_counted b' (case r of Ok t \<Rightarrow> add_mset t tickets | _ \<Rightarrow> tickets)"
    using assms(1)
  proof (cases rule: admit_cases)
    case cooling
    then show ?thesis using assms probing_later by (simp add: breaker_refuse_def)
  next
    case closed
    then show ?thesis using assms probing_later
      by (simp add: tickets_admit probes_counted_def)
  next
    case (half_open b1)
    have t: "turned b b' = turned b b1" using half_open(2) by (simp add: turned_def split: if_splits)
    note h = half_open_ok [OF half_open(1) assms(2,4,5) assms(6) [unfolded t]]
    show ?thesis
    proof (cases "br_probing b < probes b")
      case True
      with half_open(2) have b': "b' = b1\<lparr>br_probing := br_probing b + 1\<rparr>"
        and r: "r = Ok \<lparr>adm_probe = True, adm_generation = br_generation b1\<rparr>" by auto
      have "probing_ok b' now" using h True by (simp add: b' probing_ok_def)
      moreover have "tickets_ok b' (add_mset \<lparr>adm_probe = True, adm_generation = br_generation b1\<rparr> tickets) (turns + turned b b1)"
        using h by (simp add: b' tickets_admit)
      moreover have "current_probe b1 \<lparr>adm_probe = True, adm_generation = br_generation b1\<rparr>"
        by (simp add: current_probe_def)
      then have "probes_counted b' (add_mset \<lparr>adm_probe = True, adm_generation = br_generation b1\<rparr> tickets)"
        using h by (simp add: b' probes_counted_def)
      ultimately show ?thesis by (simp add: r t)
    next
      case False
      with half_open(2) h t show ?thesis by auto
    qed
  qed
  then show "probing_ok b' now" and "tickets_ok b' (case r of Ok t \<Rightarrow> add_mset t tickets | _ \<Rightarrow> tickets) (turns + turned b b')"
    and "probes_counted b' (case r of Ok t \<Rightarrow> add_mset t tickets | _ \<Rightarrow> tickets)" by auto
qed

lemma probes_counted_remove:
  assumes "probes_counted b tickets" and "\<not> (current_probe b t \<and> br_state b = BreakerHalfOpen)"
  shows "probes_counted b (tickets - {#t#})"
  using assms by (auto simp: probes_counted_def)

lemma record_ok:
  assumes "t \<in># tickets" and "probing_ok b now0" and "now0 \<le> now" and "tickets_ok b tickets turns"
    and "probes_counted b tickets" and "turns + turned b (record_call now t err b) < 2 ^ 64"
  shows "probing_ok (record_call now t err b) now \<and>
    tickets_ok (record_call now t err b) (tickets - {#t#}) (turns + turned b (record_call now t err b)) \<and>
    probes_counted (record_call now t err b) (tickets - {#t#})"
proof -
  have positive: "0 < br_probing b" if "current_probe b t" "br_state b = BreakerHalfOpen"
  proof -
    have "t \<in># filter_mset (current_probe b) tickets" using that assms(1) by simp
    then have "0 < size (filter_mset (current_probe b) tickets)" by (metis nonempty_has_size empty_iff set_mset_empty)
    with assms(5) that show ?thesis by (simp add: probes_counted_def)
  qed
  show ?thesis
  proof (cases rule: record_cases [of now t err b])
    case unchanged
    then have "\<not> (current_probe b t \<and> br_state b = BreakerHalfOpen)" using positive by fastforce
    with unchanged(1) assms show ?thesis
      by (simp add: probing_later tickets_remove probes_counted_remove)
  next
    case slot_freed
    have "size (filter_mset (current_probe b) (tickets - {#t#})) + 1 = size (filter_mset (current_probe b) tickets)"
      using slot_freed(1) assms(1) multi_member_split [OF assms(1)] by auto
    then have "probes_counted (b\<lparr>br_probing := br_probing b - 1\<rparr>) (tickets - {#t#})"
      using assms(5) slot_freed(2) by (simp add: probes_counted_def)
    moreover have "probing_ok (b\<lparr>br_probing := br_probing b - 1\<rparr>) now"
      using assms(2) slot_freed(2,3) by (simp add: probing_ok_def)
    ultimately show ?thesis using assms(4) by (simp add: slot_freed(4) tickets_remove)
  next
    case (decided to)
    then have "tickets_ok (record_call now t err b) (tickets - {#t#}) (Suc turns)"
      using tickets_turn(1) [OF tickets_remove [OF assms(4)]] assms(6) by auto
    with decided show ?thesis by (auto simp: probing_ok_def probes_counted_def)
  next
    case (counted w)
    then show ?thesis using assms probing_later probes_counted_remove by (simp add: tickets_remove)
  next
    case (opened w)
    then have "tickets_ok (record_call now t err b) (tickets - {#t#}) (Suc turns)"
      using tickets_turn(1) [OF tickets_remove [OF assms(4)]] assms(6) by auto
    with opened show ?thesis by (auto simp: probing_ok_def probes_counted_def)
  qed
qed

lemma breaker_step_turns: "breaker_step s s' \<Longrightarrow> bk_turns s \<le> bk_turns s' \<and> bk_now s \<le> bk_now s'"
  by (induction rule: breaker_step.induct) auto

lemma breaker_steps_turns: "breaker_step\<^sup>*\<^sup>* s s' \<Longrightarrow> bk_turns s \<le> bk_turns s' \<and> bk_now s \<le> bk_now s'"
  by (induction rule: rtranclp_induct) (auto dest!: breaker_step_turns)

lemma breaker_step_ok:
  assumes "breaker_step s s'" and "breaker_ok s" and "bk_turns s' < 2 ^ 64"
  shows "breaker_ok s'"
  using assms(1)
proof (cases rule: breaker_step.cases)
  case (call_admitted now b granted)
  with admit_ok [OF call_admitted(3)] assms(2,3) show ?thesis by (fastforce simp: breaker_ok_def)
next
  case (call_refused now b e)
  with admit_ok [OF call_refused(3)] assms(2,3) show ?thesis by (fastforce simp: breaker_ok_def)
next
  case (call_returns now granted err b)
  then have "turned (bk_breaker s) (record_call now granted err (bk_breaker s)) + bk_turns s < 2 ^ 64"
    using assms(3) by simp
  with record_ok [OF call_returns(3), of "bk_breaker s" "bk_now s" now "bk_turns s" err] assms(2) call_returns
  show ?thesis by (simp add: breaker_ok_def add.commute)
qed

lemma breaker_start_ok: "breaker_ok (breaker_start dependency policy failure now)"
  by (simp add: breaker_ok_def breaker_start_def probing_ok_def tickets_ok_def probes_counted_def NewBreaker_def
      CountsAsFailure_def probes_def)

lemma breaker_steps_ok:
  "breaker_step\<^sup>*\<^sup>* s s' \<Longrightarrow> breaker_ok s \<Longrightarrow> bk_turns s' < 2 ^ 64 \<Longrightarrow> breaker_ok s'"
proof (induction rule: rtranclp_induct)
  case (step s1 s2)
  then have "bk_turns s1 < 2 ^ 64" using breaker_step_turns [OF step.hyps(2)] by simp
  with step breaker_step_ok show ?case by blast
qed simp

section \<open>Properties\<close>

text \<open>The probes of a cycle that are in flight, whichever cycle runs now.\<close>

definition probes_of :: "64 word \<Rightarrow> admission multiset \<Rightarrow> admission multiset" where
  "probes_of g tickets = filter_mset (\<lambda>t. adm_probe t \<and> adm_generation t = g) tickets"

definition cycles_bounded :: "breaker_run \<Rightarrow> bool" where
  "cycles_bounded s \<longleftrightarrow> (\<forall>g. int (size (probes_of g (bk_inflight s))) \<le> probes (bk_breaker s))"

lemma probes_of_current: "probes_of (br_generation b) tickets = filter_mset (current_probe b) tickets"
  by (auto simp: probes_of_def current_probe_def intro!: filter_mset_cong)

lemma admit_grants:
  assumes "admit now b = (b', Ok t)"
  shows "adm_generation t = br_generation b'" "adm_probe t \<Longrightarrow> br_state b' = BreakerHalfOpen" "probes b' = probes b"
    "br_state b \<noteq> BreakerClosed \<Longrightarrow> current_probe b' t \<and> br_state b' = BreakerHalfOpen"
  using assms by (cases rule: admit_cases; auto simp: breaker_refuse_def current_probe_def split: if_splits)+

lemma probes_kept: "breaker_step s s' \<Longrightarrow> probes (bk_breaker s') = probes (bk_breaker s)"
proof (induction rule: breaker_step.induct)
  case (call_refused s now b e)
  from call_refused.hyps(2) show ?case
    by (cases rule: admit_cases) (auto simp: breaker_refuse_def split: if_splits)
next
  case (call_returns s now granted err b)
  then show ?case
    by (cases rule: record_cases [of now granted err "bk_breaker s"]) auto
qed (simp add: admit_grants)

lemma cycles_step:
  assumes "breaker_step s s'" and "cycles_bounded s" and "breaker_ok s'"
  shows "cycles_bounded s'"
  using assms(1)
proof (cases rule: breaker_step.cases)
  case (call_admitted now b t)
  note grants = admit_grants [OF call_admitted(3)]
  have "int (size (probes_of g (add_mset t (bk_inflight s)))) \<le> probes b" for g
  proof (cases "adm_probe t \<and> g = br_generation b")
    case True
    with grants(2) assms(3) call_admitted(1) show ?thesis
      by (auto simp: probes_of_current breaker_ok_def probing_ok_def probes_counted_def)
  next
    case False
    with grants(1) have "probes_of g (add_mset t (bk_inflight s)) = probes_of g (bk_inflight s)"
      by (auto simp: probes_of_def)
    with assms(2) grants(3) show ?thesis by (simp add: cycles_bounded_def)
  qed
  with call_admitted(1) show ?thesis by (simp add: cycles_bounded_def)
next
  case (call_refused now b e)
  with probes_kept [OF assms(1)] assms(2) show ?thesis by (simp add: cycles_bounded_def)
next
  case (call_returns now t err b)
  have "size (probes_of g (bk_inflight s - {#t#})) \<le> size (probes_of g (bk_inflight s))" for g
    unfolding probes_of_def by (intro size_mset_mono multiset_filter_mono) simp
  with call_returns probes_kept [OF assms(1)] assms(2) show ?thesis
    unfolding cycles_bounded_def by simp (meson of_nat_mono order_trans)
qed

lemma cycles_steps:
  "breaker_step\<^sup>*\<^sup>* s s' \<Longrightarrow> breaker_ok s \<Longrightarrow> cycles_bounded s \<Longrightarrow> bk_turns s' < 2 ^ 64 \<Longrightarrow> cycles_bounded s'"
proof (induction rule: rtranclp_induct)
  case (step s1 s2)
  then have "bk_turns s1 < 2 ^ 64" using breaker_step_turns [OF step.hyps(2)] by simp
  with step breaker_steps_ok [OF rtranclp.rtrancl_into_rtrancl [OF step.hyps]] show ?case
    by (blast intro: cycles_step)
qed simp

text \<open>C32. In every interleaving of fewer than \<open>2^64\<close> transitions, no cycle of the breaker has ever more probes in
  flight than the declared number, a half-open breaker counts exactly the probes of its own cycle, and the counter
  is zero in the other states: no answer of an earlier cycle frees or takes a slot. Probes of an earlier cycle may
  still be in flight beside them.\<close>

theorem breaker_probes_bounded:
  assumes "breaker_step\<^sup>*\<^sup>* (breaker_start dependency policy failure start) s" and "bk_turns s < 2 ^ 64"
  shows "int (size (probes_of g (bk_inflight s))) \<le> probes (bk_breaker s) \<and>
    0 \<le> br_probing (bk_breaker s) \<and> br_probing (bk_breaker s) \<le> probes (bk_breaker s) \<and>
    (br_state (bk_breaker s) \<noteq> BreakerHalfOpen \<longrightarrow> br_probing (bk_breaker s) = 0) \<and>
    (br_state (bk_breaker s) = BreakerHalfOpen \<longrightarrow>
       int (size (probes_of (br_generation (bk_breaker s)) (bk_inflight s))) = br_probing (bk_breaker s))"
proof -
  have "cycles_bounded (breaker_start dependency policy failure start)"
    by (simp add: cycles_bounded_def probes_of_def breaker_start_def)
  with cycles_steps [OF assms(1) breaker_start_ok _ assms(2)] have "cycles_bounded s" .
  then show ?thesis
    using breaker_steps_ok [OF assms(1) breaker_start_ok assms(2)]
    by (simp add: cycles_bounded_def breaker_ok_def probing_ok_def probes_counted_def probes_of_current)
qed

lemma fails_fast_step:
  assumes "breaker_step s s'" and "br_state (bk_breaker s) = BreakerOpen" and "br_openedAt (bk_breaker s) \<le> bk_now s"
    and "bk_now s' < br_openedAt (bk_breaker s) + bp_Cooldown (br_policy (bk_breaker s))"
    and "- (2 ^ 63) < bp_Cooldown (br_policy (bk_breaker s))" and "bp_Cooldown (br_policy (bk_breaker s)) < 2 ^ 63"
  shows "br_state (bk_breaker s') = BreakerOpen \<and> br_openedAt (bk_breaker s) \<le> br_openedAt (bk_breaker s') \<and>
    br_openedAt (bk_breaker s') \<le> bk_now s' \<and> br_policy (bk_breaker s') = br_policy (bk_breaker s) \<and>
    bk_inflight s' \<subseteq># bk_inflight s"
  using assms(1)
proof (cases rule: breaker_step.cases)
  case (call_admitted now b granted)
  have "time_Sub now (br_openedAt (bk_breaker s)) < bp_Cooldown (br_policy (bk_breaker s))"
    using assms(4-6) call_admitted(1) by (subst time_Sub_less) auto
  with call_admitted(3) assms(2) show ?thesis by (simp add: admit_def breaker_refuse_def)
next
  case (call_refused now b e)
  have "time_Sub now (br_openedAt (bk_breaker s)) < bp_Cooldown (br_policy (bk_breaker s))"
    using assms(4-6) call_refused(1) by (subst time_Sub_less) auto
  with call_refused assms(2,3) show ?thesis by (simp add: admit_def breaker_refuse_def)
next
  case (call_returns now granted err b)
  then show ?thesis using assms(2,3)
    by (cases rule: record_cases [of now granted err "bk_breaker s"]) auto
qed

text \<open>An open breaker fails fast: whatever calls return late in the meantime, until the cooldown
  since it opened has elapsed it stays open and admits nothing.\<close>

theorem breaker_fails_fast:
  assumes "breaker_step\<^sup>*\<^sup>* s s'" and "br_state (bk_breaker s) = BreakerOpen" and "br_openedAt (bk_breaker s) \<le> bk_now s"
    and "bk_now s' < br_openedAt (bk_breaker s) + bp_Cooldown (br_policy (bk_breaker s))"
    and "0 \<le> bp_Cooldown (br_policy (bk_breaker s))" and "bp_Cooldown (br_policy (bk_breaker s)) < 2 ^ 63"
  shows "br_state (bk_breaker s') = BreakerOpen \<and> br_openedAt (bk_breaker s) \<le> br_openedAt (bk_breaker s') \<and>
    bk_inflight s' \<subseteq># bk_inflight s \<and> snd (admit (bk_now s') (bk_breaker s')) = breaker_refuse ''is open'' (bk_breaker s')"
proof -
  have *: "br_state (bk_breaker s') = BreakerOpen \<and> br_openedAt (bk_breaker s) \<le> br_openedAt (bk_breaker s') \<and>
    br_openedAt (bk_breaker s') \<le> bk_now s' \<and> br_policy (bk_breaker s') = br_policy (bk_breaker s) \<and>
    bk_inflight s' \<subseteq># bk_inflight s"
    using assms(1,4)
  proof (induction rule: rtranclp_induct)
    case base
    then show ?case using assms by simp
  next
    case (step s1 s2)
    have "bk_now s1 \<le> bk_now s2" using breaker_step_turns [OF step.hyps(2)] by simp
    with step have IH: "br_state (bk_breaker s1) = BreakerOpen" "br_openedAt (bk_breaker s) \<le> br_openedAt (bk_breaker s1)"
      "br_openedAt (bk_breaker s1) \<le> bk_now s1" "br_policy (bk_breaker s1) = br_policy (bk_breaker s)"
      "bk_inflight s1 \<subseteq># bk_inflight s" by auto
    have "bk_now s2 < br_openedAt (bk_breaker s1) + bp_Cooldown (br_policy (bk_breaker s1))"
      using IH(2,4) step.prems by simp
    from fails_fast_step [OF step.hyps(2) IH(1,3) this] IH assms(5,6) show ?case
      by (auto dest: subset_mset.trans)
  qed
  then have "time_Sub (bk_now s') (br_openedAt (bk_breaker s')) < bp_Cooldown (br_policy (bk_breaker s'))"
    using assms(4-6) by (subst time_Sub_less) auto
  with * show ?thesis by (simp add: admit_def)
qed

lemma admit_ready:
  assumes "br_state b = BreakerOpen \<Longrightarrow> bp_Cooldown (br_policy b) \<le> time_Sub now (br_openedAt b)"
    and "br_state b \<noteq> BreakerClosed \<Longrightarrow> br_probing b < probes b"
  shows "\<exists>b' t. admit now b = (b', Ok t)"
  using assms by (cases "br_state b") (auto simp: admit_def Let_def)

lemma time_Sub_ge: "d < 2 ^ 63 \<Longrightarrow> u + d \<le> t \<Longrightarrow> d \<le> time_Sub t u"
  by (auto simp: time_Sub_def)

text \<open>An answer that is not held against the dependency, from a call that was not cancelled.\<close>

definition answered_well :: "Breaker \<Rightarrow> gerr option \<Rightarrow> bool" where
  "answered_well b err \<longleftrightarrow>
     (case err of None \<Rightarrow> True
      | Some e \<Rightarrow> \<not> errors_Is e ErrCancelled \<and> (case br_failure b of None \<Rightarrow> False | Some failure \<Rightarrow> \<not> failure e))"

lemma probe_success:
  assumes "current_probe b t" and "br_state b = BreakerHalfOpen" and "answered_well b err"
  shows "br_state (record_call now t err b) = BreakerClosed" "br_window (record_call now t err b) = []"
    "\<exists>t'. admit later (record_call now t err b) = (record_call now t err b, Ok t')"
proof -
  have eq: "record_call now t err b = transition BreakerClosed now (b\<lparr>br_probing := br_probing b - 1, br_window := []\<rparr>)"
    using assms by (auto simp: record_call_def answered_well_def current_probe_def Let_def split: option.splits)
  then show "br_state (record_call now t err b) = BreakerClosed" "br_window (record_call now t err b) = []"
    by simp_all
  show "\<exists>t'. admit later (record_call now t err b) = (record_call now t err b, Ok t')"
    by (simp add: eq admit_def)
qed


section \<open>Runs\<close>

definition probe_policy :: BreakerPolicy where
  "probe_policy = \<lparr>bp_Window = 30, bp_Threshold = 1 / 2, bp_MinSamples = 1, bp_Cooldown = 30, bp_Probes = 2\<rparr>"

definition sample_closed :: Breaker where
  "sample_closed = CountsAsFailure None (NewBreaker ''db'' probe_policy)"

abbreviation probe_call :: admission where
  "probe_call \<equiv> \<lparr>adm_probe = False, adm_generation = 0\<rparr>"

lemma f64_small [simp]: "f64 1 = 1" "f64 2 = 2"
  using f64_whole [of 1] f64_whole [of 2] by simp_all

lemma sample_opens:
  "record_call 5 probe_call (Some (Sentinel ErrNotFound)) sample_closed =
   transition BreakerOpen 5 (sample_closed\<lparr>br_window := [\<lparr>obc_at = 5, obc_failed = True\<rparr>]\<rparr>)"
  by (simp add: record_call_def sample_closed_def CountsAsFailure_def NewBreaker_def probe_policy_def prune_def
      shouldOpen_def float64_def)

text \<open>
  A call admitted before the breaker opened and returning after is counted in the running cycle: its
  failure restarts the cooldown of a breaker that is open already.
\<close>

lemma late_answer_restarts_cooldown:
  "let opened = record_call 5 probe_call (Some (Sentinel ErrNotFound)) sample_closed;
       again = record_call 20 probe_call (Some (Sentinel ErrNotFound)) opened in
   br_state opened = BreakerOpen \<and> br_openedAt opened = 5 \<and> br_state again = BreakerOpen \<and> br_openedAt again = 20 \<and>
   (\<exists>t. snd (admit 35 opened) = Ok t) \<and> snd (admit 35 again) = breaker_refuse ''is open'' again"
  unfolding sample_opens
  by (simp add: record_call_def transition_def sample_closed_def CountsAsFailure_def NewBreaker_def probe_policy_def prune_def
      shouldOpen_def float64_def admit_def breaker_refuse_def time_Sub_def probes_def Let_def)

definition sample_open :: Breaker where
  "sample_open = record_call 5 probe_call (Some (Sentinel ErrNotFound)) sample_closed"

lemma sample_open_fields [simp]:
  "br_state sample_open = BreakerOpen" "br_openedAt sample_open = 5" "br_policy sample_open = probe_policy"
  "br_generation sample_open = 1" "br_probing sample_open = 0" "br_failure sample_open = None"
  unfolding sample_open_def sample_opens
  by (simp_all add: sample_closed_def CountsAsFailure_def NewBreaker_def)

definition probe_run :: breaker_run where
  "probe_run = \<lparr>bk_breaker = sample_open,
     bk_inflight = {#}, bk_now = 5, bk_turns = 1\<rparr>"

lemma probe_run_reached: "breaker_step\<^sup>*\<^sup>* (breaker_start ''db'' probe_policy None 0) probe_run"
proof -
  let ?s1 = "\<lparr>bk_breaker = sample_closed, bk_inflight = {#probe_call#}, bk_now = 0, bk_turns = 0\<rparr>"
  have "breaker_step (breaker_start ''db'' probe_policy None 0) ?s1"
    using call_admitted [of "breaker_start ''db'' probe_policy None 0" 0 sample_closed probe_call]
    by (simp add: breaker_start_def sample_closed_def CountsAsFailure_def NewBreaker_def admit_def)
  moreover have "breaker_step ?s1 probe_run"
    using call_returns [of ?s1 5 probe_call "Some (Sentinel ErrNotFound)" sample_open]
    by (simp add: probe_run_def turned_def sample_open_def [symmetric])
      (simp add: sample_closed_def CountsAsFailure_def NewBreaker_def)
  ultimately show ?thesis by simp
qed

abbreviation probe_of_cycle :: "64 word \<Rightarrow> admission" where
  "probe_of_cycle g \<equiv> \<lparr>adm_probe = True, adm_generation = g\<rparr>"

text \<open>
  Two cycles: of the two probes of the first one fails and opens the breaker again while the other is in flight; after
  the cooldown two more are let through, so three calls are in flight and two of them are of the running cycle.
\<close>

lemma two_cycles:
  obtains b where "breaker_step\<^sup>*\<^sup>* (breaker_start ''db'' probe_policy None 0)
      \<lparr>bk_breaker = b, bk_inflight = {#probe_of_cycle 4, probe_of_cycle 4, probe_of_cycle 2#}, bk_now = 66, bk_turns = 4\<rparr>"
    "br_state b = BreakerHalfOpen" "br_generation b = 4" "br_probing b = 2" "br_policy b = probe_policy" "br_openedAt b = 36"
    "br_failure b = None"
proof -
  let ?h0 = "transition BreakerHalfOpen 35 sample_open"
  let ?h1 = "?h0\<lparr>br_probing := 1\<rparr>" let ?h2 = "?h0\<lparr>br_probing := 2\<rparr>"
  let ?o = "transition BreakerOpen 36 (?h2\<lparr>br_probing := 1, br_window := []\<rparr>)"
  let ?i0 = "transition BreakerHalfOpen 66 ?o"
  let ?i1 = "?i0\<lparr>br_probing := 1\<rparr>" let ?i2 = "?i0\<lparr>br_probing := 2\<rparr>"
  let ?s = "\<lambda>b tickets now turns. \<lparr>bk_breaker = b, bk_inflight = tickets, bk_now = now, bk_turns = turns\<rparr>"
  have p: "probes b = 2" if "br_policy b = probe_policy" for b
    using that by (simp add: probes_def probe_policy_def)
  have cool: "bp_Cooldown probe_policy = 30" by (simp add: probe_policy_def)
  have "breaker_step probe_run (?s ?h1 {#probe_of_cycle 2#} 35 2)"
    using call_admitted [of probe_run 35 ?h1 "probe_of_cycle 2"]
    by (simp add: probe_run_def admit_def Let_def p cool time_Sub_def numeral_2_eq_2)
  moreover have "breaker_step (?s ?h1 {#probe_of_cycle 2#} 35 2) (?s ?h2 {#probe_of_cycle 2, probe_of_cycle 2#} 35 2)"
    using call_admitted [of "?s ?h1 {#probe_of_cycle 2#} 35 2" 35 ?h2 "probe_of_cycle 2"]
    by (simp add: admit_def Let_def p)
  moreover have "breaker_step (?s ?h2 {#probe_of_cycle 2, probe_of_cycle 2#} 35 2) (?s ?o {#probe_of_cycle 2#} 36 3)"
    using call_returns [of "?s ?h2 {#probe_of_cycle 2, probe_of_cycle 2#} 35 2" 36 "probe_of_cycle 2" "Some (Sentinel ErrNotFound)" ?o]
    by (simp add: record_call_def Let_def)
  moreover have "breaker_step (?s ?o {#probe_of_cycle 2#} 36 3) (?s ?i1 {#probe_of_cycle 4, probe_of_cycle 2#} 66 4)"
    using call_admitted [of "?s ?o {#probe_of_cycle 2#} 36 3" 66 ?i1 "probe_of_cycle 4"]
    by (simp add: admit_def Let_def p cool time_Sub_def)
  moreover have "breaker_step (?s ?i1 {#probe_of_cycle 4, probe_of_cycle 2#} 66 4)
      (?s ?i2 {#probe_of_cycle 4, probe_of_cycle 4, probe_of_cycle 2#} 66 4)"
    using call_admitted [of "?s ?i1 {#probe_of_cycle 4, probe_of_cycle 2#} 66 4" 66 ?i2 "probe_of_cycle 4"]
    by (simp add: admit_def Let_def p)
  ultimately have "breaker_step\<^sup>*\<^sup>* (breaker_start ''db'' probe_policy None 0)
      (?s ?i2 {#probe_of_cycle 4, probe_of_cycle 4, probe_of_cycle 2#} 66 4)"
    using probe_run_reached by (meson rtranclp.rtrancl_into_rtrancl)
  then show thesis
    by (rule that) simp_all
qed

lemma breaker_probes_bounded_witness:
  "\<exists>s. breaker_step\<^sup>*\<^sup>* (breaker_start ''db'' probe_policy None 0) s \<and> br_state (bk_breaker s) = BreakerHalfOpen \<and>
     size (bk_inflight s) = 3 \<and> size (probes_of 2 (bk_inflight s)) \<le> 2 \<and> int (size (probes_of 4 (bk_inflight s))) = 2"
proof -
  obtain b where b: "breaker_step\<^sup>*\<^sup>* (breaker_start ''db'' probe_policy None 0)
      \<lparr>bk_breaker = b, bk_inflight = {#probe_of_cycle 4, probe_of_cycle 4, probe_of_cycle 2#}, bk_now = 66, bk_turns = 4\<rparr>"
    "br_state b = BreakerHalfOpen" "br_generation b = 4" "br_probing b = 2" "br_policy b = probe_policy"
    by (rule two_cycles)
  let ?s = "\<lparr>bk_breaker = b, bk_inflight = {#probe_of_cycle 4, probe_of_cycle 4, probe_of_cycle 2#}, bk_now = 66, bk_turns = 4\<rparr>"
  have "probes b = 2" using b(5) by (simp add: probes_def probe_policy_def)
  with breaker_probes_bounded [OF b(1), of 2] b(2-)
  have "size (probes_of 2 (bk_inflight ?s)) \<le> 2" "int (size (probes_of 4 (bk_inflight ?s))) = 2"
    by simp_all
  with b(1,2) show ?thesis
    by (intro exI [of _ ?s]) simp
qed

lemma breaker_fails_fast_witness:
  "snd (admit 5 (bk_breaker probe_run)) = breaker_refuse ''is open'' (bk_breaker probe_run)"
  using breaker_fails_fast [of probe_run probe_run]
  by (simp add: probe_run_def probe_policy_def)


end
