(* ===== verification/Resilience_Bulkhead.thy ===== *)
theory Resilience_Bulkhead
  imports Go_Errors "HOL-Library.Multiset"
begin

text \<open>
  The bulkhead, \<^verbatim>\<open>libs/backend/go/observability/resilience/bulkhead.go\<close>: two buffered channels used as
  counting semaphores, \<open>admissions\<close> for the calls inside and \<open>slots\<close> for the calls running. A channel is
  the number of elements it buffers; a send is possible below its capacity, a receive above zero. One
  call goes through the phases of \<open>phase\<close>, each channel operation of \<open>acquire\<close> and of the release it
  returns being one step; \<open>bulkhead_step\<close> interleaves any number of calls, of which only the phase matters.
\<close>

section \<open>Pool\<close>

record BulkheadPolicy =
  blp_Pool :: int
  blp_Queue :: int
  blp_Acquisition :: int

record Bulkhead =
  blk_capacity :: nat
  blk_pool :: nat
  blk_admissions :: nat
  blk_slots :: nat

definition DefaultBulkheadPool :: int where
  "DefaultBulkheadPool = 16"

definition NewBulkhead :: "BulkheadPolicy \<Rightarrow> Bulkhead" where
  "NewBulkhead policy =
     (let pool = (if blp_Pool policy \<le> 0 then DefaultBulkheadPool else blp_Pool policy);
          queue = (if blp_Queue policy \<le> 0 then pool else blp_Queue policy) in
      \<lparr>blk_capacity = nat (pool + queue), blk_pool = nat pool, blk_admissions = 0, blk_slots = 0\<rparr>)"

text \<open>Where a call is in \<open>Decorate\<close>; \<open>Refused\<close> carries the reason, \<open>Cancelled\<close> stands for \<open>ctx.Err()\<close>.\<close>

datatype phase =
    Arriving | AtSlots | Waiting | GaveUp bool | Running | Leaving | Left | RefusedCall string | CancelledCall

text \<open>The first \<open>select\<close> of \<open>acquire\<close>, the second one, and the three arms of the third.\<close>

definition take_admission :: "Bulkhead \<Rightarrow> Bulkhead \<times> phase" where
  "take_admission b =
     (if blk_admissions b < blk_capacity b then (b\<lparr>blk_admissions := blk_admissions b + 1\<rparr>, AtSlots)
      else (b, RefusedCall ''the pool and its queue are full''))"

definition take_free_slot :: "Bulkhead \<Rightarrow> Bulkhead \<times> phase" where
  "take_free_slot b =
     (if blk_slots b < blk_pool b then (b\<lparr>blk_slots := blk_slots b + 1\<rparr>, Running) else (b, Waiting))"

definition await_slot :: "Bulkhead \<Rightarrow> (Bulkhead \<times> phase) option" where
  "await_slot b =
     (if blk_slots b < blk_pool b then Some (b\<lparr>blk_slots := blk_slots b + 1\<rparr>, Running) else None)"

definition give_back_admission :: "bool \<Rightarrow> Bulkhead \<Rightarrow> (Bulkhead \<times> phase) option" where
  "give_back_admission timed_out b =
     (if blk_admissions b > 0
      then Some (b\<lparr>blk_admissions := blk_admissions b - 1\<rparr>,
        if timed_out then RefusedCall ''no slot became free within the acquisition window'' else CancelledCall)
      else None)"

definition release_slot :: "Bulkhead \<Rightarrow> (Bulkhead \<times> phase) option" where
  "release_slot b = (if blk_slots b > 0 then Some (b\<lparr>blk_slots := blk_slots b - 1\<rparr>, Leaving) else None)"

definition release_admission :: "Bulkhead \<Rightarrow> (Bulkhead \<times> phase) option" where
  "release_admission b =
     (if blk_admissions b > 0 then Some (b\<lparr>blk_admissions := blk_admissions b - 1\<rparr>, Left) else None)"

section \<open>Interleaved calls\<close>

text \<open>What a call may do next: a blocking channel operation has no successor while it blocks.\<close>

inductive call_moves :: "Bulkhead \<Rightarrow> phase \<Rightarrow> Bulkhead \<Rightarrow> phase \<Rightarrow> bool" where
  "take_admission b = (b', p) \<Longrightarrow> call_moves b Arriving b' p"
| "take_free_slot b = (b', p) \<Longrightarrow> call_moves b AtSlots b' p"
| "await_slot b = Some (b', p) \<Longrightarrow> call_moves b Waiting b' p"
| "call_moves b Waiting b (GaveUp timed_out)"
| "give_back_admission timed_out b = Some (b', p) \<Longrightarrow> call_moves b (GaveUp timed_out) b' p"
| "release_slot b = Some (b', p) \<Longrightarrow> call_moves b Running b' p"
| "release_admission b = Some (b', p) \<Longrightarrow> call_moves b Leaving b' p"

inductive_cases call_movesE: "call_moves b p b' p'"

inductive bulkhead_step :: "Bulkhead \<times> phase multiset \<Rightarrow> Bulkhead \<times> phase multiset \<Rightarrow> bool" where
  arrives: "bulkhead_step (b, calls) (b, add_mset Arriving calls)"
| moves: "call_moves b p b' p' \<Longrightarrow> bulkhead_step (b, add_mset p calls) (b', add_mset p' calls)"

fun holds_admission :: "phase \<Rightarrow> bool" where
  "holds_admission AtSlots = True"
| "holds_admission Waiting = True"
| "holds_admission (GaveUp _) = True"
| "holds_admission Running = True"
| "holds_admission Leaving = True"
| "holds_admission _ = False"

definition inside :: "phase multiset \<Rightarrow> nat" where
  "inside calls = size (filter_mset holds_admission calls)"

definition bulkhead_ok :: "Bulkhead \<times> phase multiset \<Rightarrow> bool" where
  "bulkhead_ok s \<longleftrightarrow> (case s of (b, calls) \<Rightarrow>
     blk_admissions b = inside calls \<and> blk_slots b = count calls Running \<and>
     blk_admissions b \<le> blk_capacity b \<and> blk_slots b \<le> blk_pool b)"

lemma inside_empty [simp]: "inside {#} = 0"
  by (simp add: inside_def)

lemma inside_add [simp]: "inside (add_mset p calls) = (if holds_admission p then 1 else 0) + inside calls"
  by (simp add: inside_def)

lemma call_moves_ok:
  assumes "call_moves b p b' p'" and "bulkhead_ok (b, add_mset p calls)"
  shows "bulkhead_ok (b', add_mset p' calls) \<and> blk_capacity b' = blk_capacity b \<and> blk_pool b' = blk_pool b"
  using assms
  by (cases rule: call_moves.cases)
    (auto simp: bulkhead_ok_def take_admission_def take_free_slot_def await_slot_def give_back_admission_def
       release_slot_def release_admission_def split: if_splits)

lemma bulkhead_step_ok:
  "bulkhead_step s s' \<Longrightarrow> bulkhead_ok s \<Longrightarrow>
     bulkhead_ok s' \<and> blk_capacity (fst s') = blk_capacity (fst s) \<and> blk_pool (fst s') = blk_pool (fst s)"
  by (induction rule: bulkhead_step.induct) (auto dest!: call_moves_ok, simp add: bulkhead_ok_def)

lemma bulkhead_steps_ok:
  "bulkhead_step\<^sup>*\<^sup>* s s' \<Longrightarrow> bulkhead_ok s \<Longrightarrow>
     bulkhead_ok s' \<and> blk_capacity (fst s') = blk_capacity (fst s) \<and> blk_pool (fst s') = blk_pool (fst s)"
  by (induction rule: rtranclp_induct) (auto dest!: bulkhead_step_ok)

lemma NewBulkhead_ok: "bulkhead_ok (NewBulkhead policy, {#})"
  by (simp add: bulkhead_ok_def NewBulkhead_def inside_def Let_def)

lemma NewBulkhead_sizes: "0 < blk_pool (NewBulkhead policy)" "blk_pool (NewBulkhead policy) < blk_capacity (NewBulkhead policy)"
  by (auto simp: NewBulkhead_def Let_def DefaultBulkheadPool_def)

section \<open>Properties\<close>

text \<open>C21. Whatever calls share a bulkhead and however they interleave, at most the pool runs and at most
  pool and queue are inside; a call is refused at the door only when they are full; the receives of a
  call that gives up or leaves never block, so no slot or admission leaks; a call that waits gets a slot
  exactly when fewer than the pool run; and once no call is inside the bulkhead is as free as it was made.\<close>

theorem bulkhead_isolates:
  assumes "bulkhead_step\<^sup>*\<^sup>* (NewBulkhead policy, {#}) (b, calls)"
  shows "count calls Running \<le> blk_pool (NewBulkhead policy) \<and> inside calls \<le> blk_capacity (NewBulkhead policy) \<and>
    ((\<exists>why. snd (take_admission b) = RefusedCall why) \<longleftrightarrow> inside calls = blk_capacity (NewBulkhead policy)) \<and>
    (Running \<in># calls \<longrightarrow> release_slot b \<noteq> None) \<and> (Leaving \<in># calls \<longrightarrow> release_admission b \<noteq> None) \<and>
    (\<forall>t. GaveUp t \<in># calls \<longrightarrow> give_back_admission t b \<noteq> None) \<and>
    (await_slot b \<noteq> None \<longleftrightarrow> count calls Running < blk_pool (NewBulkhead policy)) \<and>
    (inside calls = 0 \<longrightarrow> b = NewBulkhead policy)"
proof -
  have ok: "bulkhead_ok (b, calls)" and same: "blk_capacity b = blk_capacity (NewBulkhead policy)"
      "blk_pool b = blk_pool (NewBulkhead policy)"
    using bulkhead_steps_ok [OF assms NewBulkhead_ok] by auto
  have counts: "blk_admissions b = inside calls" "blk_slots b = count calls Running"
      "inside calls \<le> blk_capacity b" "count calls Running \<le> blk_pool b"
    using ok by (simp_all add: bulkhead_ok_def)
  have pos: "0 < blk_admissions b" if "p \<in># calls" "holds_admission p" for p
    using that counts(1) by (auto dest!: multi_member_split)
  have "count calls Running \<le> inside calls"
    unfolding inside_def by (metis count_filter_mset count_le_size holds_admission.simps(4))
  then have "b = NewBulkhead policy" if "inside calls = 0"
    using that counts same by (intro Bulkhead.equality) (simp_all add: NewBulkhead_def Let_def)
  moreover have "release_slot b \<noteq> None" if "Running \<in># calls"
    using that counts(2) by (simp add: release_slot_def)
  moreover have "release_admission b \<noteq> None" if "Leaving \<in># calls"
    using pos [OF that] by (simp add: release_admission_def)
  moreover have "give_back_admission t b \<noteq> None" if "GaveUp t \<in># calls" for t
    using pos [OF that] by (simp add: give_back_admission_def)
  moreover have "(\<exists>why. snd (take_admission b) = RefusedCall why) \<longleftrightarrow> inside calls = blk_capacity b"
    using counts(1,3) by (auto simp: take_admission_def)
  moreover have "await_slot b \<noteq> None \<longleftrightarrow> count calls Running < blk_pool b"
    using counts(2) by (simp add: await_slot_def)
  ultimately show ?thesis using counts same by simp
qed

definition one_and_one :: Bulkhead where
  "one_and_one = NewBulkhead \<lparr>blp_Pool = 1, blp_Queue = 1, blp_Acquisition = 0\<rparr>"

lemma arrives_more:
  "bulkhead_step\<^sup>*\<^sup>* s (b, calls) \<Longrightarrow> bulkhead_step\<^sup>*\<^sup>* s (b, add_mset Arriving calls)"
  by (erule rtranclp.rtrancl_into_rtrancl) (rule arrives)

lemma one_and_one_reaches:
  "bulkhead_step\<^sup>*\<^sup>* (one_and_one, {#})
     (one_and_one\<lparr>blk_admissions := 2, blk_slots := 1\<rparr>, {#Waiting, Running, Arriving#})"
proof -
  let ?b = one_and_one
  have "bulkhead_step\<^sup>*\<^sup>* (?b, {#}) (?b, {#Arriving, Arriving, Arriving#})"
    by (simp add: arrives_more)
  also have "bulkhead_step \<dots> (?b\<lparr>blk_admissions := 1\<rparr>, {#AtSlots, Arriving, Arriving#})"
    by (intro moves call_moves.intros) (simp add: take_admission_def one_and_one_def NewBulkhead_def)
  also have "bulkhead_step \<dots> (?b\<lparr>blk_admissions := 1, blk_slots := 1\<rparr>, {#Running, Arriving, Arriving#})"
    by (intro moves call_moves.intros) (simp add: take_free_slot_def one_and_one_def NewBulkhead_def)
  also have "{#Running, Arriving, Arriving#} = {#Arriving, Running, Arriving#}"
    by simp
  also have "bulkhead_step (?b\<lparr>blk_admissions := 1, blk_slots := 1\<rparr>, {#Arriving, Running, Arriving#})
      (?b\<lparr>blk_admissions := 2, blk_slots := 1\<rparr>, {#AtSlots, Running, Arriving#})"
    by (intro moves call_moves.intros) (simp add: take_admission_def one_and_one_def NewBulkhead_def)
  also have "bulkhead_step \<dots> (?b\<lparr>blk_admissions := 2, blk_slots := 1\<rparr>, {#Waiting, Running, Arriving#})"
    by (intro moves call_moves.intros) (simp add: take_free_slot_def one_and_one_def NewBulkhead_def)
  finally show ?thesis .
qed

lemma bulkhead_isolates_witness:
  "let b = one_and_one\<lparr>blk_admissions := 2, blk_slots := 1\<rparr> in
   (\<exists>why. snd (take_admission b) = RefusedCall why) \<and> await_slot b = None \<and> release_slot b \<noteq> None"
  using bulkhead_isolates [OF one_and_one_reaches [unfolded one_and_one_def]]
  by (simp add: one_and_one_def NewBulkhead_def option.disc_eq_case flip: not_None_eq)

end
