(* ===== verification/Resilience_Compose.thy ===== *)
theory Resilience_Compose
  imports Observability_Retry Resilience_Breaker Resilience_Bulkhead
begin

text \<open>
  The decorators around a call and their composition, \<^verbatim>\<open>libs/backend/go/observability/resilience\<close>: the
  operation (\<open>operation.go\<close>), the sheet (\<open>sheet.go\<close>), the route (\<open>route.go\<close>), the timeout
  (\<open>timeout.go\<close>), the retry decorator (\<open>retry_decorator.go\<close>), the degradation modes (\<open>degrade.go\<close>)
  and the canonical order (\<open>compose.go\<close>). A call is a transformer of the world it runs in: the time,
  the retry budget the context carries, the breaker of the dependency, and a rest the calls may
  change. Spans, metrics and logs are not modelled.
\<close>

section \<open>Operations\<close>

datatype Kind = KindBlank | Remote | UnitOfWork

record Operation =
  op_Dependency :: string
  op_Method :: string
  op_Kind :: Kind
  op_Idempotent :: bool
  op_EffectAbsent :: "(gerr \<Rightarrow> bool) option"
  op_Deadline :: int
  op_EstimatedDuration :: int

definition ForRetry :: "Operation \<Rightarrow> RetryOperation" where
  "ForRetry o' = \<lparr>rop_Dependency = op_Dependency o', rop_Method = op_Method o', rop_Idempotent = op_Idempotent o',
     rop_EffectAbsent = op_EffectAbsent o', rop_EstimatedDuration = op_EstimatedDuration o'\<rparr>"

definition Operation_Validate :: "Operation \<Rightarrow> unit result" where
  "Operation_Validate o' =
     (if op_Dependency o' = [] then Err (Wrapped ''resilience: operation declares no dependency'' [])
      else if op_Method o' = [] then Err (Wrapped ''resilience: operation declares no method'' [])
      else if op_Kind o' = KindBlank then Err (Wrapped ''resilience: operation declares no kind'' [])
      else if op_Deadline o' \<le> 0 then Err (Wrapped ''resilience: operation declares no deadline (RES-05)'' [])
      else if op_EstimatedDuration o' \<le> 0 then Err (Wrapped ''resilience: operation declares no estimated duration'' [])
      else Ok ())"

definition DefaultHopSlack :: int where
  "DefaultHopSlack = 50000000"

fun route_needs :: "Operation list \<Rightarrow> int \<Rightarrow> int result" where
  "route_needs [] needed = Ok needed"
| "route_needs (hop # hops) needed =
     res_bind (Operation_Validate hop) (\<lambda>_. route_needs hops (wrap64 (needed + wrap64 (op_Deadline hop + DefaultHopSlack))))"

definition ValidateRoute :: "int \<Rightarrow> Operation list \<Rightarrow> unit result" where
  "ValidateRoute remaining hops =
     (if hops = [] then Ok ()
      else res_bind (route_needs hops 0) (\<lambda>needed.
        if needed > remaining then FailWith ErrDeadlineComposition ''hops do not fit'' else Ok ()))"

section \<open>The sheet\<close>

text \<open>A field is the zero value, \<open>Declare\<close> or \<open>Skip\<close>; no other value can be built.\<close>

datatype 'a Field = Blank | Declare 'a | Skip string

definition Field_Get :: "'a Field \<Rightarrow> 'a option" where
  "Field_Get f = (case f of Declare v \<Rightarrow> Some v | _ \<Rightarrow> None)"

definition isSkipped :: "'a Field \<Rightarrow> bool" where
  "isSkipped f = (case f of Skip _ \<Rightarrow> True | _ \<Rightarrow> False)"

definition Declared :: "'a Field \<Rightarrow> bool" where
  "Declared f = (case f of Blank \<Rightarrow> False | _ \<Rightarrow> True)"

record RateLimitPolicy =
  rlp_PerSecond :: int
  rlp_Burst :: int

record Sheet =
  sh_Dependency :: string
  sh_Deadline :: "int Field"
  sh_Retry :: "bool Field"
  sh_Budget :: "int Field"
  sh_Backoff :: "Backoff Field"
  sh_MaxAttempts :: "int Field"
  sh_Breaker :: "BreakerPolicy Field"
  sh_Bulkhead :: "BulkheadPolicy Field"
  sh_RateLimit :: "RateLimitPolicy Field"
  sh_Cache :: "int Field"
  sh_Degradation :: "string Field"

definition Defaults :: "string \<Rightarrow> Sheet" where
  "Defaults dependency = \<lparr>sh_Dependency = dependency, sh_Deadline = Declare 2000000000, sh_Retry = Declare True,
     sh_Budget = Declare 1000000000, sh_Backoff = Declare DefaultBackoff, sh_MaxAttempts = Declare 3,
     sh_Breaker = Declare \<lparr>bp_Window = 30000000000, bp_Threshold = 1 / 2, bp_MinSamples = 20, bp_Cooldown = 30000000000,
       bp_Probes = 1\<rparr>,
     sh_Bulkhead = Declare \<lparr>blp_Pool = 16, blp_Queue = 16, blp_Acquisition = 100000000\<rparr>,
     sh_RateLimit = Skip ''KRN-10'', sh_Cache = Skip ''FND-08'', sh_Degradation = Declare ''fail''\<rparr>"

definition declarations :: "Sheet \<Rightarrow> (string \<times> bool) list" where
  "declarations s =
     [(''deadline'', Declared (sh_Deadline s)), (''retry'', Declared (sh_Retry s)), (''budget'', Declared (sh_Budget s)),
      (''backoff'', Declared (sh_Backoff s)), (''max_attempts'', Declared (sh_MaxAttempts s)),
      (''breaker'', Declared (sh_Breaker s)), (''bulkhead'', Declared (sh_Bulkhead s)),
      (''rate_limit'', Declared (sh_RateLimit s)), (''cache'', Declared (sh_Cache s)),
      (''degradation'', Declared (sh_Degradation s))]"

definition Sheet_Validate :: "Sheet \<Rightarrow> unit result" where
  "Sheet_Validate s =
     (if sh_Dependency s = [] then FailWith ErrBlankField ''sheet declares no dependency''
      else if list_ex (\<lambda>(name, declared). \<not> declared) (declarations s)
      then FailWith ErrBlankField ''declare neither a value nor a reason''
      else if (case Field_Get (sh_Deadline s) of Some d \<Rightarrow> d \<le> 0 | None \<Rightarrow> False)
      then FailWith ErrBlankField ''the deadline is not positive (RES-05)''
      else case Field_Get (sh_Degradation s) of
        None \<Rightarrow> Ok ()
      | Some mode \<Rightarrow>
          if mode = ''defer'' then Fail ErrDeferIsOutbox
          else if mode \<notin> {''fail'', ''degrade'', ''ignore''}
          then FailWith ErrBlankField ''declares the unknown degradation mode''
          else Ok ())"

section \<open>Calls\<close>

record 'v rworld =
  rw_now :: int
  rw_budget :: Budget
  rw_breaker :: Breaker
  rw_rest :: 'v

text \<open>The context of a call: its deadline, whether it carries the budget, and \<open>ctx.Err()\<close> in a world.\<close>

record 'v rcontext =
  rc_deadline :: "int option"
  rc_budget :: bool
  rc_err :: "'v rworld \<Rightarrow> gerr option"

type_synonym 'v work = "'v rcontext \<Rightarrow> 'v rworld \<Rightarrow> 'v rworld \<times> gerr option"
type_synonym 'v Call = "'v rcontext \<Rightarrow> Operation \<Rightarrow> 'v work \<Rightarrow> 'v rworld \<Rightarrow> 'v rworld \<times> gerr option"
type_synonym 'v Decorator = "'v Call \<Rightarrow> 'v Call"

definition Direct :: "'v Call" where
  "Direct ctx op do w = do ctx w"

definition carried_budget :: "'v rcontext \<Rightarrow> 'v rworld \<Rightarrow> Budget option" where
  "carried_budget ctx w = (if rc_budget ctx then Some (rw_budget w) else None)"

definition Breaker_Decorate :: "'v Decorator" where
  "Breaker_Decorate next' ctx op do w =
     (case admit (rw_now w) (rw_breaker w) of
        (b, Err e) \<Rightarrow> (w\<lparr>rw_breaker := b\<rparr>, Some e)
      | (b, Panic m) \<Rightarrow> (w\<lparr>rw_breaker := b\<rparr>, None)
      | (b, Ok granted) \<Rightarrow>
          (case next' ctx op do (w\<lparr>rw_breaker := b\<rparr>) of
             (w1, err) \<Rightarrow> (w1\<lparr>rw_breaker := record_call (rw_now w1) granted err (rw_breaker w1)\<rparr>, err)))"

subsection \<open>Timeout\<close>

definition EffectiveDeadline :: "'v rcontext \<Rightarrow> Operation \<Rightarrow> int \<Rightarrow> 'v rworld \<Rightarrow> int" where
  "EffectiveDeadline ctx op reserve w =
     (let e0 = op_Deadline op;
          e1 = (case rc_deadline ctx of
                  None \<Rightarrow> e0
                | Some d \<Rightarrow> (let remaining = time_Sub d (rw_now w) in if remaining < e0 then remaining else e0)) in
      case carried_budget ctx w of
        None \<Rightarrow> e1
      | Some b \<Rightarrow>
          (let balance = Budget_Remaining b in
           if balance > 0
           then (let available = wrap64 (balance - reserve) in if available < e1 then available else e1)
           else e1))"

definition WithTimeout :: "'v rcontext \<Rightarrow> int \<Rightarrow> 'v rworld \<Rightarrow> 'v rcontext" where
  "WithTimeout ctx d w =
     (let until = (case rc_deadline ctx of None \<Rightarrow> rw_now w + d | Some u \<Rightarrow> min u (rw_now w + d)) in
      ctx\<lparr>rc_deadline := Some until,
        rc_err := \<lambda>w'. case rc_err ctx w' of Some e \<Rightarrow> Some e
          | None \<Rightarrow> if until \<le> rw_now w' then Some (Sentinel DeadlineExceeded) else None\<rparr>)"

definition is_err :: "gerr option \<Rightarrow> sentinel \<Rightarrow> bool" where
  "is_err e s = (case e of None \<Rightarrow> False | Some err \<Rightarrow> errors_Is err s)"

definition classify_call :: "'v rcontext \<Rightarrow> 'v rcontext \<Rightarrow> 'v rworld \<Rightarrow> gerr option \<Rightarrow> gerr option" where
  "classify_call ctx bounded w err =
     (case err of
        None \<Rightarrow> None
      | Some e \<Rightarrow>
          if is_err (rc_err ctx w) Canceled then Some (Wrapped [] [Sentinel ErrCancelled, e])
          else if errors_Is e DeadlineExceeded \<or> is_err (rc_err bounded w) DeadlineExceeded
          then Some (Wrapped [] [Sentinel ErrDeadlineExceeded, e])
          else if errors_Is e Canceled then Some (Wrapped [] [Sentinel ErrCancelled, e])
          else Some e)"

definition Timeout :: "int \<Rightarrow> 'v Decorator" where
  "Timeout reserve next' ctx op do w =
     (let effective = EffectiveDeadline ctx op reserve w in
      if effective \<le> 0 then (w, Some (Wrapped ''has no time left'' [Sentinel ErrDeadlineExceeded]))
      else let bounded = WithTimeout ctx effective w in
        (case next' bounded op do w of (w1, err) \<Rightarrow> (w1, classify_call ctx bounded w1 err)))"

subsection \<open>Degradation\<close>

definition givenUp :: "'v rcontext \<Rightarrow> 'v rworld \<Rightarrow> gerr \<Rightarrow> bool" where
  "givenUp ctx w e \<longleftrightarrow> errors_Is e ErrCancelled \<or> errors_Is e Canceled \<or> is_err (rc_err ctx w) Canceled"

definition NewDegradation :: "string \<Rightarrow> string \<Rightarrow> 'v Decorator result" where
  "NewDegradation mode dependency =
     (if mode = ''fail'' \<or> mode = [] then Ok (\<lambda>next'. next')
      else if mode = ''degrade'' then Ok (\<lambda>next' ctx op do w.
        (case next' ctx op do w of
           (w1, None) \<Rightarrow> (w1, None)
         | (w1, Some e) \<Rightarrow> (w1, Some (if givenUp ctx w1 e then e else DegradedResult dependency e))))
      else if mode = ''ignore'' then Ok (\<lambda>next' ctx op do w.
        (case next' ctx op do w of
           (w1, None) \<Rightarrow> (w1, None)
         | (w1, Some e) \<Rightarrow> (w1, if givenUp ctx w1 e then Some e else None)))
      else if mode = ''defer'' then FailWith ErrDeferIsOutbox dependency
      else FailWith ErrBlankField dependency)"

subsection \<open>Retry\<close>

record 'v RetryConfig =
  rt_Dependency :: string
  rt_Classifier :: "(gerr \<Rightarrow> Retryability) option"
  rt_MaxAttempts :: int
  rt_Backoff :: Backoff
  rt_Rand :: "'v rworld \<Rightarrow> rat option"

type_synonym 'v Sleeper = "'v rcontext \<Rightarrow> int \<Rightarrow> 'v rworld \<Rightarrow> 'v rworld \<times> gerr option"

definition armBudget :: "'v rcontext \<Rightarrow> 'v rworld \<Rightarrow> 'v rworld" where
  "armBudget ctx w =
     (case rc_deadline ctx of None \<Rightarrow> w | Some d \<Rightarrow> w\<lparr>rw_budget := Arm (time_Sub d (rw_now w)) (rw_budget w)\<rparr>)"

definition remainingOf :: "'v rcontext \<Rightarrow> 'v rworld \<Rightarrow> int" where
  "remainingOf ctx w = (case rc_deadline ctx of None \<Rightarrow> 2 ^ 63 - 1 | Some d \<Rightarrow> time_Sub d (rw_now w))"

definition retry_input :: "'v RetryConfig \<Rightarrow> 'v rcontext \<Rightarrow> Operation \<Rightarrow> int \<Rightarrow> gerr \<Rightarrow> 'v rworld \<Rightarrow> EvaluateInput" where
  "retry_input config ctx op attempt e w = \<lparr>inp_Err = e, inp_Classifier = rt_Classifier config, inp_Operation = ForRetry op,
     inp_Attempt = attempt, inp_MaxAttempts = rt_MaxAttempts config, inp_Budget = carried_budget ctx w,
     inp_Remaining = remainingOf ctx w, inp_Backoff = rt_Backoff config, inp_Rand = rt_Rand config w\<rparr>"

definition exhausted :: "'v rworld \<Rightarrow> 'v rworld" where
  "exhausted w = w\<lparr>rw_budget := fst (ReportExhaustion (rw_budget w))\<rparr>"

text \<open>
  The loop, with \<open>n\<close> rounds at most: \<open>claimed\<close> and \<open>waited\<close> are what the previous round reserved and the
  wait it paid. \<open>retry_loop_returns\<close> shows that the declared number of attempts bounds the rounds.
\<close>

fun retry_loop :: "'v RetryConfig \<Rightarrow> 'v Sleeper \<Rightarrow> 'v Call \<Rightarrow> 'v rcontext \<Rightarrow> Operation \<Rightarrow> 'v work \<Rightarrow>
    nat \<Rightarrow> int \<Rightarrow> int \<Rightarrow> int \<Rightarrow> 'v rworld \<Rightarrow> ('v rworld \<times> gerr option) option" where
  "retry_loop config sleeper next' ctx op do 0 attempt claimed waited w = None"
| "retry_loop config sleeper next' ctx op do (Suc n) attempt claimed waited w =
     (let startedAt = rw_now w; (w1, err) = next' ctx op do w;
          w2 = (if attempt > 0 \<and> rc_budget ctx
                then w1\<lparr>rw_budget := Settle claimed (wrap64 (waited + time_Sub (rw_now w1) startedAt)) (rw_budget w1)\<rparr>
                else w1) in
      case err of
        None \<Rightarrow> Some (w2, None)
      | Some e \<Rightarrow>
          let w3 = (if rc_budget ctx then armBudget ctx w2 else w2);
              verdict = Evaluate (retry_input config ctx op attempt e w3) in
          if \<not> ver_Allowed verdict
          then Some (if ver_Denied verdict = FactorBudget \<and> rc_budget ctx then exhausted w3 else w3, Some e)
          else let (b, reserved) = (if rc_budget ctx then Reserve (ver_Need verdict) (rw_budget w3) else (rw_budget w3, True));
                   w4 = w3\<lparr>rw_budget := b\<rparr> in
            if \<not> reserved then Some (exhausted w4, Some e)
            else (case sleeper ctx (ver_Wait verdict) w4 of
                (w5, Some slept) \<Rightarrow> Some (w5, errors_Join [Some e, Some slept])
              | (w5, None) \<Rightarrow> retry_loop config sleeper next' ctx op do n (wrap64 (attempt + 1))
                  (if rc_budget ctx then ver_Need verdict else 0) (if rc_budget ctx then ver_Wait verdict else 0) w5))"

definition Retry_Decorate :: "'v RetryConfig \<Rightarrow> 'v Sleeper \<Rightarrow> 'v Decorator" where
  "Retry_Decorate config sleeper next' ctx op do w =
     (if op_Kind op = UnitOfWork then (w, Some (Wrapped ''is a unit of work'' [Sentinel ErrWrapsUnitOfWork]))
      else case retry_loop config sleeper next' ctx op do (nat (rt_MaxAttempts config)) 0 0 0 w of
        Some r \<Rightarrow> r
      | None \<Rightarrow> (w, None))"

definition NewRetry :: "'v RetryConfig \<Rightarrow> bool \<Rightarrow> 'v Sleeper option \<Rightarrow> 'v Decorator result" where
  "NewRetry config hasClock sleeper =
     (if rt_MaxAttempts config \<le> 0 then FailWith ErrBlankField ''declares no attempt ceiling (RES-33)''
      else case sleeper of
        None \<Rightarrow> FailWith ErrBlankField ''the retry decorator needs a clock and a sleeper''
      | Some sl \<Rightarrow>
          if \<not> hasClock then FailWith ErrBlankField ''the retry decorator needs a clock and a sleeper''
          else Ok (Retry_Decorate config sl))"

section \<open>Composition\<close>

record 'v Slots =
  slot_Tracing :: "'v Decorator option"
  slot_Metrics :: "'v Decorator option"
  slot_Logging :: "'v Decorator option"
  slot_Bulkhead :: "'v Decorator option"
  slot_Breaker :: "'v Decorator option"
  slot_RateLimit :: "'v Decorator option"
  slot_Retry :: "'v Decorator option"
  slot_Timeout :: "'v Decorator option"

definition CanonicalOrder :: "string list" where
  "CanonicalOrder = [''tracing'', ''metrics'', ''logging'', ''bulkhead'', ''breaker'', ''rate_limit'', ''retry'', ''timeout'']"

definition Slots_at :: "'v Slots \<Rightarrow> string \<Rightarrow> 'v Decorator option" where
  "Slots_at s position =
     (if position = ''tracing'' then slot_Tracing s
      else if position = ''metrics'' then slot_Metrics s
      else if position = ''logging'' then slot_Logging s
      else if position = ''bulkhead'' then slot_Bulkhead s
      else if position = ''breaker'' then slot_Breaker s
      else if position = ''rate_limit'' then slot_RateLimit s
      else if position = ''retry'' then slot_Retry s
      else if position = ''timeout'' then slot_Timeout s
      else None)"

fun order_scan :: "string list \<Rightarrow> string list \<Rightarrow> unit result" where
  "order_scan [] seen = Ok ()"
| "order_scan (position # order) seen =
     (if position \<notin> set CanonicalOrder then FailWith ErrBlankField ''is not a position of RES-22''
      else if position \<in> set seen then FailWith ErrBlankField ''appears twice in the order''
      else order_scan order (position # seen))"

definition validateOrder :: "string list \<Rightarrow> unit result" where
  "validateOrder order =
     (if length order \<noteq> length CanonicalOrder then FailWith ErrBlankField ''the order has another number of positions''
      else order_scan order [])"

definition requireDeclaredAbsences :: "Sheet \<Rightarrow> 'v Slots \<Rightarrow> unit result" where
  "requireDeclaredAbsences sheet slots =
     (let declared = [(''bulkhead'', isSkipped (sh_Bulkhead sheet)), (''breaker'', isSkipped (sh_Breaker sheet)),
            (''rate_limit'', isSkipped (sh_RateLimit sheet)), (''retry'', isSkipped (sh_Retry sheet)),
            (''timeout'', isSkipped (sh_Deadline sheet))];
          missing = filter (\<lambda>position. Slots_at slots position = None \<and> map_of declared position \<noteq> Some True) CanonicalOrder in
      if missing \<noteq> [] then FailWith ErrBlankField ''are empty and the sheet does not declare them not applicable'' else Ok ())"

definition build :: "Sheet \<Rightarrow> 'v Slots \<Rightarrow> string list \<Rightarrow> 'v Call result" where
  "build sheet slots order =
     res_bind (Sheet_Validate sheet) (\<lambda>_. res_bind (requireDeclaredAbsences sheet slots) (\<lambda>_.
       Ok (fold (\<lambda>position call. case Slots_at slots position of None \<Rightarrow> call | Some decorator \<Rightarrow> decorator call)
         (rev order) Direct)))"

definition Compose :: "Sheet \<Rightarrow> 'v Slots \<Rightarrow> 'v Call result" where
  "Compose sheet slots = build sheet slots CanonicalOrder"

definition ComposeWithOrder :: "Sheet \<Rightarrow> 'v Slots \<Rightarrow> string list \<Rightarrow> string \<Rightarrow> 'v Call result" where
  "ComposeWithOrder sheet slots order reason =
     (if reason = [] then FailWith ErrOrderReasonRequired (sh_Dependency sheet)
      else res_bind (validateOrder order) (\<lambda>_. build sheet slots order))"

section \<open>Properties\<close>

lemma retry_loop_counts:
  assumes "\<And>w. calls (rw_rest (fst (next' ctx op do w))) = Suc (calls (rw_rest w))"
    and "\<And>d w. calls (rw_rest (fst (sleeper ctx d w))) = calls (rw_rest w)"
    and "0 \<le> attempt" and "attempt < rt_MaxAttempts config" and "rt_MaxAttempts config < 2 ^ 63"
    and "n = nat (rt_MaxAttempts config - attempt)"
  shows "\<exists>w' r. retry_loop config sleeper next' ctx op do n attempt claimed waited w = Some (w', r) \<and>
    calls (rw_rest w) < calls (rw_rest w') \<and> calls (rw_rest w') \<le> calls (rw_rest w) + n"
  using assms(3-6)
proof (induction n arbitrary: attempt claimed waited w)
  case (Suc n)
  obtain w1 err where call: "next' ctx op do w = (w1, err)" by fastforce
  then have c1: "calls (rw_rest w1) = Suc (calls (rw_rest w))" using assms(1) [of w] by simp
  have rest: "rw_rest (if c then w1\<lparr>rw_budget := x\<rparr> else w1) = rw_rest w1" for c x by simp
  define w2 where "w2 = (if attempt > 0 \<and> rc_budget ctx
      then w1\<lparr>rw_budget := Settle claimed (wrap64 (waited + time_Sub (rw_now w1) (rw_now w))) (rw_budget w1)\<rparr> else w1)"
  define w3 where "w3 = (if rc_budget ctx then armBudget ctx w2 else w2)"
  have w3: "rw_rest w3 = rw_rest w1" by (simp add: w3_def w2_def armBudget_def split: option.splits)
  show ?case
  proof (cases err)
    case None
    then show ?thesis using c1 by (simp add: call rest)
  next
    case (Some e)
    define verdict where "verdict = Evaluate (retry_input config ctx op attempt e w3)"
    show ?thesis
    proof (cases "ver_Allowed verdict")
      case False
      then show ?thesis using c1 w3
        by (simp add: call Some exhausted_def flip: w2_def w3_def verdict_def)
    next
      case True
      obtain b reserved where res: "(if rc_budget ctx then Reserve (ver_Need verdict) (rw_budget w3) else (rw_budget w3, True)) = (b, reserved)"
        by fastforce
      obtain w5 slept where sl: "sleeper ctx (ver_Wait verdict) (w3\<lparr>rw_budget := b\<rparr>) = (w5, slept)" by fastforce
      have c5: "calls (rw_rest w5) = calls (rw_rest w1)" using assms(2) [of "ver_Wait verdict" "w3\<lparr>rw_budget := b\<rparr>"] sl w3 by simp
      have a: "wrap64 (attempt + 1) = attempt + 1" using Suc.prems by (intro wrap64_id) (simp add: int64_def)
      have "wrap64 (attempt + 1) < rt_MaxAttempts config"
        using Evaluate_attempts [OF True [unfolded verdict_def]] by (simp add: retry_input_def)
      then have "\<exists>w' r. retry_loop config sleeper next' ctx op do n (wrap64 (attempt + 1))
          (if rc_budget ctx then ver_Need verdict else 0) (if rc_budget ctx then ver_Wait verdict else 0) w5 = Some (w', r) \<and>
          calls (rw_rest w5) < calls (rw_rest w') \<and> calls (rw_rest w') \<le> calls (rw_rest w5) + n"
        using Suc.prems a by (intro Suc.IH) auto
      then show ?thesis using True c1 c5 w3 sl
        by (cases slept; cases reserved)
          (auto simp: call Some res exhausted_def simp flip: w2_def w3_def verdict_def)
    qed
  qed
qed simp

lemma retry_loop_once:
  assumes "\<not> rc_budget ctx"
  shows "retry_loop config sleeper next' ctx op do (Suc n) 0 claimed waited w = Some (next' ctx op do w)"
proof -
  obtain w1 err where call: "next' ctx op do w = (w1, err)" by fastforce
  have "\<not> ver_Allowed (Evaluate (retry_input config ctx op 0 e w1))" for e
    using Evaluate_budget [of "retry_input config ctx op 0 e w1"] assms by (auto simp: retry_input_def carried_budget_def)
  then show ?thesis using assms by (simp add: call split: option.splits)
qed

text \<open>C22. The retry decorator always returns: it makes at least one and at most \<open>MaxAttempts\<close> calls,
  exactly the one of the caller when the context carries no budget, and none at all around a unit of
  work, which it refuses without touching the world.\<close>

theorem retry_bounded:
  assumes "NewRetry config hasClock sleeper = Ok decorate" and "rt_MaxAttempts config < 2 ^ 63"
    and "\<And>w. calls (rw_rest (fst (next' ctx op do w))) = Suc (calls (rw_rest w))"
    and "pred_option (\<lambda>sl. \<forall>d w. calls (rw_rest (fst (sl ctx d w))) = calls (rw_rest w)) sleeper"
  shows "if op_Kind op = UnitOfWork
    then \<exists>e. decorate next' ctx op do w = (w, Some e) \<and> errors_Is e ErrWrapsUnitOfWork
    else calls (rw_rest w) < calls (rw_rest (fst (decorate next' ctx op do w))) \<and>
      calls (rw_rest (fst (decorate next' ctx op do w))) \<le> calls (rw_rest w) + nat (rt_MaxAttempts config) \<and>
      (\<not> rc_budget ctx \<longrightarrow> decorate next' ctx op do w = next' ctx op do w)"
proof -
  obtain sl where sl: "sleeper = Some sl" and d: "decorate = Retry_Decorate config sl" and max: "0 < rt_MaxAttempts config"
    using assms(1) by (auto simp: NewRetry_def split: if_splits option.splits)
  obtain n where n: "nat (rt_MaxAttempts config) = Suc n" using max by (cases "nat (rt_MaxAttempts config)") auto
  have "\<exists>w' r. retry_loop config sl next' ctx op do (nat (rt_MaxAttempts config)) 0 0 0 w = Some (w', r) \<and>
      calls (rw_rest w) < calls (rw_rest w') \<and> calls (rw_rest w') \<le> calls (rw_rest w) + nat (rt_MaxAttempts config)"
    using assms(2-4) sl max by (intro retry_loop_counts) auto
  then show ?thesis
    using retry_loop_once [of ctx config sl next' op do n 0 0 w]
    by (auto simp: d Retry_Decorate_def n simp del: retry_loop.simps)
qed

lemma order_scan_Ok:
  "order_scan order seen = Ok () \<longleftrightarrow> set order \<subseteq> set CanonicalOrder \<and> distinct order \<and> set order \<inter> set seen = {}"
  by (induction order arbitrary: seen) auto

text \<open>An order is accepted exactly when it is a permutation of the canonical one: no decorator
  is dropped and none is applied twice.\<close>

theorem order_accepted_iff_permutation:
  "validateOrder order = Ok () \<longleftrightarrow> mset order = mset CanonicalOrder"
proof
  assume ok: "validateOrder order = Ok ()"
  then have o': "set order \<subseteq> set CanonicalOrder" "distinct order" "length order = length CanonicalOrder"
    by (auto simp: validateOrder_def order_scan_Ok split: if_splits)
  have "distinct CanonicalOrder" by (simp add: CanonicalOrder_def)
  moreover from this o' have "set order = set CanonicalOrder"
    by (metis List.finite_set card_subset_eq distinct_card)
  ultimately show "mset order = mset CanonicalOrder" using o'(2) set_eq_iff_mset_eq_distinct by blast
next
  assume "mset order = mset CanonicalOrder"
  moreover have "distinct CanonicalOrder" by (simp add: CanonicalOrder_def)
  ultimately have "distinct order" "set order = set CanonicalOrder" "length order = length CanonicalOrder"
    by (metis mset_eq_imp_distinct_iff, metis mset_eq_setD, metis size_mset)
  then show "validateOrder order = Ok ()" by (simp add: validateOrder_def order_scan_Ok)
qed

definition transparent :: "'v Decorator option \<Rightarrow> bool" where
  "transparent d \<longleftrightarrow> d = Some (\<lambda>next'. next')"

text \<open>In the canonical composition an open breaker refuses before anything below it: the rate
  limit, the retry, the timeout and the call itself do not run, and neither an attempt, nor time, nor
  retry budget is spent.\<close>

theorem open_breaker_spends_nothing:
  assumes "Compose sheet slots = Ok call" and "slot_Breaker slots = Some Breaker_Decorate"
    and "transparent (slot_Tracing slots)" and "transparent (slot_Metrics slots)" and "transparent (slot_Logging slots)"
    and "transparent (slot_Bulkhead slots)"
    and "br_state (rw_breaker w) = BreakerOpen"
    and "time_Sub (rw_now w) (br_openedAt (rw_breaker w)) < bp_Cooldown (br_policy (rw_breaker w))"
  shows "\<exists>e. call ctx op do w = (w, Some e) \<and> errors_Is e ErrBreakerOpen"
proof -
  have slots: "Slots_at slots ''tracing'' = Some (\<lambda>next'. next')" "Slots_at slots ''metrics'' = Some (\<lambda>next'. next')"
    "Slots_at slots ''logging'' = Some (\<lambda>next'. next')" "Slots_at slots ''bulkhead'' = Some (\<lambda>next'. next')"
    "Slots_at slots ''breaker'' = Some Breaker_Decorate"
    using assms(2-6) by (simp_all add: Slots_at_def transparent_def)
  from assms(1) obtain below where "call = Breaker_Decorate below"
    by (auto simp: Compose_def build_def CanonicalOrder_def slots split: option.splits)
  then show ?thesis using assms(7,8)
    by (simp add: Breaker_Decorate_def admit_def breaker_refuse_def)
qed

subsection \<open>A composed call\<close>

definition sample_slots :: "nat Slots" where
  "sample_slots = \<lparr>slot_Tracing = Some (\<lambda>next'. next'), slot_Metrics = Some (\<lambda>next'. next'),
     slot_Logging = Some (\<lambda>next'. next'), slot_Bulkhead = Some (\<lambda>next'. next'), slot_Breaker = Some Breaker_Decorate,
     slot_RateLimit = None, slot_Retry = Some (\<lambda>next'. next'), slot_Timeout = Some (Timeout 0)\<rparr>"

definition demo_world :: "nat rworld" where
  "demo_world = \<lparr>rw_now = 20, rw_budget = WithTotal 1000000000 budget_zero, rw_breaker = sample_open, rw_rest = 0\<rparr>"

definition demo_carrier :: "nat rcontext" where
  "demo_carrier = \<lparr>rc_deadline = None, rc_budget = True, rc_err = (\<lambda>_. None)\<rparr>"

definition sample_operation :: Operation where
  "sample_operation = \<lparr>op_Dependency = ''db'', op_Method = ''get'', op_Kind = Remote, op_Idempotent = True,
     op_EffectAbsent = None, op_Deadline = 1000, op_EstimatedDuration = 1000\<rparr>"

definition counted :: "nat work" where
  "counted ctx w = (w\<lparr>rw_rest := Suc (rw_rest w)\<rparr>, Some (Sentinel ErrNotFound))"

definition sample_retry :: "nat RetryConfig" where
  "sample_retry = \<lparr>rt_Dependency = ''db'', rt_Classifier = Some (\<lambda>_. Retryability_Retryable), rt_MaxAttempts = 3,
     rt_Backoff = DefaultBackoff, rt_Rand = (\<lambda>_. None)\<rparr>"

lemma sample_slots_accepted: "\<exists>call. Compose (Defaults ''db'') sample_slots = Ok call"
  by (simp add: Compose_def build_def Sheet_Validate_def declarations_def Declared_def Defaults_def Field_Get_def
      requireDeclaredAbsences_def Slots_at_def sample_slots_def isSkipped_def CanonicalOrder_def)

lemma open_breaker_spends_nothing_witness:
  "\<exists>call e. Compose (Defaults ''db'') sample_slots = Ok call \<and>
     call demo_carrier sample_operation counted demo_world = (demo_world, Some e) \<and> errors_Is e ErrBreakerOpen"
proof -
  obtain call where call: "Compose (Defaults ''db'') sample_slots = Ok call" using sample_slots_accepted by blast
  show ?thesis
    using open_breaker_spends_nothing [OF call, of demo_world demo_carrier sample_operation counted] call
    by (simp add: sample_slots_def transparent_def demo_world_def probe_policy_def time_Sub_def)
qed

lemma retry_bounded_witness:
  "\<exists>decorate. NewRetry sample_retry True (Some (\<lambda>_ _ w. (w, None))) = Ok decorate \<and>
     0 < rw_rest (fst (decorate Direct demo_carrier sample_operation counted demo_world)) \<and>
     rw_rest (fst (decorate Direct demo_carrier sample_operation counted demo_world)) \<le> 3"
proof -
  let ?d = "Retry_Decorate sample_retry (\<lambda>_ _ w. (w, None))"
  have new: "NewRetry sample_retry True (Some (\<lambda>_ _ w. (w, None))) = Ok ?d" by (simp add: NewRetry_def sample_retry_def)
  have f: "op_Kind sample_operation = Remote" "rw_rest demo_world = 0" "rt_MaxAttempts sample_retry = 3"
    by (simp_all add: sample_operation_def demo_world_def sample_retry_def)
  have "0 < rw_rest (fst (?d Direct demo_carrier sample_operation counted demo_world)) \<and>
     rw_rest (fst (?d Direct demo_carrier sample_operation counted demo_world)) \<le> 3"
    using retry_bounded [OF new, where calls = id and next' = Direct and ctx = demo_carrier and op = sample_operation
        and do = counted and w = demo_world]
    by (auto simp: Direct_def counted_def f split: if_splits)
  with new show ?thesis by blast
qed

text \<open>
  A wait the sleeper cuts short leaves its reservation on the budget: no attempt ran, nothing is settled,
  and the time reserved for it is gone for every other dependency of the execution.
\<close>

lemma interrupted_wait_keeps_its_claim:
  "case Retry_Decorate sample_retry (\<lambda>_ _ w. (w, Some (Sentinel Canceled))) Direct demo_carrier sample_operation counted demo_world of
     (w, Some e) \<Rightarrow> rw_rest w = 1 \<and> errors_Is e Canceled \<and> Budget_Remaining (rw_budget w) = 899999000
   | _ \<Rightarrow> False"
  by code_simp

end
