(* ===== verification/Contracts_Envelope.thy ===== *)
theory Contracts_Envelope
  imports Application_Codec
begin

text \<open>
  The DMPF profile of the CloudEvents envelope, \<^verbatim>\<open>libs/backend/go/contracts/envelope\<close>: the profile view
  \<open>Envelope\<close>, its validation, and the translation to and from the generated \<open>CloudEvent\<close> message, whose
  fields and attribute values are the types \<open>CloudEvent\<close> and \<open>AttributeValue\<close> here. The wire format is the
  protobuf library's: \<open>Marshal\<close> and \<open>Unmarshal\<close> take its two functions as arguments.
\<close>

section \<open>The profile\<close>

record Timestamp =
  ts_seconds :: int
  ts_nanos :: int

record Envelope =
  env_ID :: string
  env_Source :: string
  env_SpecVersion :: string
  env_Type :: string
  env_Subject :: string
  env_Time :: "Timestamp option"
  env_DataSchema :: string
  env_DataContentType :: string
  env_CorrelationID :: string
  env_CausationID :: string
  env_PartitionKey :: string
  env_TraceParent :: string
  env_AggregateVersion :: "int option"
  env_TenantID :: "string option"
  env_TraceState :: "string option"
  env_Payload :: bytes

definition SpecVersion :: string where
  "SpecVersion = ''1.0''"

definition ContentType :: string where
  "ContentType = ''application/protobuf''"

definition typeURLPrefix :: string where
  "typeURLPrefix = ''type.googleapis.com/''"

text \<open>\<open>s[strings.LastIndex(s, c)+1:]\<close>, the whole of \<open>s\<close> when \<open>c\<close> does not occur.\<close>

definition after_last :: "char \<Rightarrow> string \<Rightarrow> string" where
  "after_last c s = rev (takeWhile (\<lambda>x. x \<noteq> c) (rev s))"

definition majorOfSchema :: "string \<Rightarrow> string" where
  "majorOfSchema dataSchema =
     (let segments = split_on (CHR ''.'') (after_last (CHR ''/'') dataSchema) in
      if length segments < 2 then [] else segments ! (length segments - 2))"

definition majorOfType :: "string \<Rightarrow> string" where
  "majorOfType eventType = (if CHR ''.'' \<notin> set eventType then [] else after_last (CHR ''.'') eventType)"

definition attributeError :: "sentinel \<Rightarrow> string \<Rightarrow> 'a result" where
  "attributeError s attribute = Err (AttributeError attribute (Sentinel s))"

fun require_attributes :: "(string \<times> string) list \<Rightarrow> unit result" where
  "require_attributes [] = Ok ()"
| "require_attributes ((name, v) # rest) =
     (if v = [] then attributeError ErrMissingAttribute name else require_attributes rest)"

definition validatePresence :: "Envelope \<Rightarrow> unit result" where
  "validatePresence e =
     (case require_attributes
        [(''id'', env_ID e), (''source'', env_Source e), (''specversion'', env_SpecVersion e), (''type'', env_Type e),
         (''subject'', env_Subject e), (''dataschema'', env_DataSchema e), (''datacontenttype'', env_DataContentType e),
         (''correlationid'', env_CorrelationID e), (''causationid'', env_CausationID e),
         (''partitionkey'', env_PartitionKey e), (''traceparent'', env_TraceParent e)] of
        Ok _ \<Rightarrow>
          if env_Time e = None then attributeError ErrMissingAttribute ''time''
          else if env_TenantID e = Some [] then attributeError ErrEmptyConditional ''tenantid''
          else if env_TraceState e = Some [] then attributeError ErrEmptyConditional ''tracestate''
          else Ok ()
      | r \<Rightarrow> r)"

definition validateProfile :: "Envelope \<Rightarrow> unit result" where
  "validateProfile e =
     (if env_SpecVersion e \<noteq> SpecVersion then Fail ErrSpecVersion
      else if env_DataContentType e \<noteq> ContentType then Fail ErrContentType
      else if \<not> has_prefix (env_DataSchema e) typeURLPrefix \<or> length (env_DataSchema e) = length typeURLPrefix
      then Fail ErrDataSchemaForm
      else if majorOfSchema (env_DataSchema e) = [] \<or> majorOfSchema (env_DataSchema e) \<noteq> majorOfType (env_Type e)
      then Fail ErrMajorMismatch
      else Ok ())"

definition Envelope_Validate :: "Envelope \<Rightarrow> unit result" where
  "Envelope_Validate e = res_bind (validatePresence e) (\<lambda>_. validateProfile e)"

section \<open>The CloudEvent message\<close>

text \<open>\<open>AttrUnset\<close> is a nil value or one whose oneof is not set; the kinds the profile does not use are \<open>CeOther\<close>.\<close>

datatype AttributeValue = AttrUnset | CeString string | CeUri string | CeInteger int | CeTimestamp "Timestamp option" | CeOther

record Any =
  any_TypeUrl :: string
  any_Value :: bytes

datatype EventData = DataUnset | BinaryData bytes | TextData string | ProtoData "Any option"

record CloudEvent =
  ce_Id :: string
  ce_Source :: string
  ce_SpecVersion :: string
  ce_Type :: string
  ce_Attributes :: "string \<rightharpoonup> AttributeValue"
  ce_Data :: EventData

definition base_attributes :: "Envelope \<Rightarrow> string \<rightharpoonup> AttributeValue" where
  "base_attributes e =
     [''subject'' \<mapsto> CeString (env_Subject e), ''time'' \<mapsto> CeTimestamp (env_Time e), ''dataschema'' \<mapsto> CeUri (env_DataSchema e),
      ''datacontenttype'' \<mapsto> CeString (env_DataContentType e), ''correlationid'' \<mapsto> CeString (env_CorrelationID e),
      ''causationid'' \<mapsto> CeString (env_CausationID e), ''partitionkey'' \<mapsto> CeString (env_PartitionKey e),
      ''traceparent'' \<mapsto> CeString (env_TraceParent e)]"

definition Encode :: "Envelope \<Rightarrow> CloudEvent result" where
  "Encode e =
     res_bind (Envelope_Validate e) (\<lambda>_.
       let a0 = base_attributes e;
           a1 = (case env_AggregateVersion e of None \<Rightarrow> a0 | Some v \<Rightarrow> a0(''aggregateversion'' \<mapsto> CeInteger v));
           a2 = (case env_TenantID e of None \<Rightarrow> a1 | Some t \<Rightarrow> a1(''tenantid'' \<mapsto> CeString t));
           a3 = (case env_TraceState e of None \<Rightarrow> a2 | Some t \<Rightarrow> a2(''tracestate'' \<mapsto> CeString t)) in
       Ok \<lparr>ce_Id = env_ID e, ce_Source = env_Source e, ce_SpecVersion = env_SpecVersion e, ce_Type = env_Type e,
           ce_Attributes = a3,
           ce_Data = ProtoData (Some \<lparr>any_TypeUrl = env_DataSchema e, any_Value = env_Payload e\<rparr>)\<rparr>)"

fun as_string :: "AttributeValue \<Rightarrow> string option" where
  "as_string (CeString s) = Some s"
| "as_string _ = None"

fun as_uri :: "AttributeValue \<Rightarrow> string option" where
  "as_uri (CeUri s) = Some s"
| "as_uri _ = None"

fun as_timestamp :: "AttributeValue \<Rightarrow> Timestamp option option" where
  "as_timestamp (CeTimestamp t) = Some t"
| "as_timestamp _ = None"

fun as_integer :: "AttributeValue \<Rightarrow> int option" where
  "as_integer (CeInteger i) = Some i"
| "as_integer _ = None"

text \<open>\<open>requiredString\<close>, \<open>requiredURI\<close> and \<open>requiredTimestamp\<close>; \<open>optionalString\<close> and \<open>optionalInteger\<close>.\<close>

definition required :: "(AttributeValue \<Rightarrow> 'a option) \<Rightarrow> (string \<rightharpoonup> AttributeValue) \<Rightarrow> string \<Rightarrow> 'a result" where
  "required kind attrs name =
     (case attrs name of
        None \<Rightarrow> attributeError ErrMissingAttribute name
      | Some v \<Rightarrow> (case kind v of None \<Rightarrow> attributeError ErrAttributeType name | Some a \<Rightarrow> Ok a))"

definition optional :: "(AttributeValue \<Rightarrow> 'a option) \<Rightarrow> (string \<rightharpoonup> AttributeValue) \<Rightarrow> string \<Rightarrow> 'a option result" where
  "optional kind attrs name =
     (case attrs name of
        None \<Rightarrow> Ok None
      | Some v \<Rightarrow> (case kind v of None \<Rightarrow> attributeError ErrAttributeType name | Some a \<Rightarrow> Ok (Some a)))"

definition decode_attributes :: "CloudEvent \<Rightarrow> bytes \<Rightarrow> Envelope result" where
  "decode_attributes ce payload =
     (let attrs = ce_Attributes ce in
      res_bind (required as_string attrs ''subject'') (\<lambda>subject.
      res_bind (required as_timestamp attrs ''time'') (\<lambda>time.
      res_bind (required as_uri attrs ''dataschema'') (\<lambda>schema.
      res_bind (required as_string attrs ''datacontenttype'') (\<lambda>content.
      res_bind (required as_string attrs ''correlationid'') (\<lambda>correlation.
      res_bind (required as_string attrs ''causationid'') (\<lambda>causation.
      res_bind (required as_string attrs ''partitionkey'') (\<lambda>partition_key.
      res_bind (required as_string attrs ''traceparent'') (\<lambda>traceparent.
      res_bind (optional as_integer attrs ''aggregateversion'') (\<lambda>version.
      res_bind (optional as_string attrs ''tenantid'') (\<lambda>tenant.
      res_bind (optional as_string attrs ''tracestate'') (\<lambda>tracestate.
      Ok \<lparr>env_ID = ce_Id ce, env_Source = ce_Source ce, env_SpecVersion = ce_SpecVersion ce, env_Type = ce_Type ce,
          env_Subject = subject, env_Time = time, env_DataSchema = schema, env_DataContentType = content,
          env_CorrelationID = correlation, env_CausationID = causation, env_PartitionKey = partition_key,
          env_TraceParent = traceparent, env_AggregateVersion = version, env_TenantID = tenant,
          env_TraceState = tracestate, env_Payload = payload\<rparr>))))))))))))"

definition Decode :: "CloudEvent option \<Rightarrow> Envelope result" where
  "Decode event =
     (case event of
        None \<Rightarrow> Fail ErrModality
      | Some ce \<Rightarrow>
          (case ce_Data ce of
             ProtoData (Some a) \<Rightarrow>
               res_bind (decode_attributes ce (any_Value a)) (\<lambda>e.
               res_bind (validatePresence e) (\<lambda>_.
               if any_TypeUrl a \<noteq> env_DataSchema e then Fail ErrSchemaMismatch
               else res_bind (validateProfile e) (\<lambda>_. Ok e)))
           | _ \<Rightarrow> Fail ErrModality))"

definition Marshal :: "(CloudEvent \<Rightarrow> bytes result) \<Rightarrow> Envelope \<Rightarrow> bytes result" where
  "Marshal proto_Marshal e = res_bind (Encode e) proto_Marshal"

definition Unmarshal :: "(bytes \<Rightarrow> CloudEvent result) \<Rightarrow> bytes \<Rightarrow> Envelope result" where
  "Unmarshal proto_Unmarshal raw =
     (case proto_Unmarshal raw of
        Ok ce \<Rightarrow> Decode (Some ce)
      | Err e \<Rightarrow> Err (Wrapped [] [Sentinel ErrMalformed, e])
      | Panic m \<Rightarrow> Panic m)"

section \<open>Properties\<close>

lemma base_attributes_simps [simp]:
  "base_attributes e ''subject'' = Some (CeString (env_Subject e))"
  "base_attributes e ''time'' = Some (CeTimestamp (env_Time e))"
  "base_attributes e ''dataschema'' = Some (CeUri (env_DataSchema e))"
  "base_attributes e ''datacontenttype'' = Some (CeString (env_DataContentType e))"
  "base_attributes e ''correlationid'' = Some (CeString (env_CorrelationID e))"
  "base_attributes e ''causationid'' = Some (CeString (env_CausationID e))"
  "base_attributes e ''partitionkey'' = Some (CeString (env_PartitionKey e))"
  "base_attributes e ''traceparent'' = Some (CeString (env_TraceParent e))"
  "base_attributes e ''aggregateversion'' = None" "base_attributes e ''tenantid'' = None"
  "base_attributes e ''tracestate'' = None"
  by (simp_all add: base_attributes_def)

lemma Decode_Encode:
  assumes "Encode e = Ok ce"
  shows "Decode (Some ce) = Ok e"
proof -
  have v: "validatePresence e = Ok ()" "validateProfile e = Ok ()"
    using assms by (auto simp: Encode_def Envelope_Validate_def)
  have d: "ce_Data ce = ProtoData (Some \<lparr>any_TypeUrl = env_DataSchema e, any_Value = env_Payload e\<rparr>)"
    using assms by (auto simp: Encode_def Let_def)
  have "decode_attributes ce (env_Payload e) = Ok e"
    using assms
    by (cases "env_AggregateVersion e"; cases "env_TenantID e"; cases "env_TraceState e")
      (auto simp: Encode_def decode_attributes_def required_def optional_def Let_def)
  then show ?thesis using v by (simp add: Decode_def d)
qed

lemma Decode_valid:
  assumes "Decode (Some ce) = Ok e"
  shows "Envelope_Validate e = Ok ()"
    "ce_Data ce = ProtoData (Some \<lparr>any_TypeUrl = env_DataSchema e, any_Value = env_Payload e\<rparr>)"
proof -
  obtain a where a: "ce_Data ce = ProtoData (Some a)" "decode_attributes ce (any_Value a) = Ok e"
      "validatePresence e = Ok ()" "any_TypeUrl a = env_DataSchema e" "validateProfile e = Ok ()"
    using assms by (auto simp: Decode_def split: EventData.splits option.splits if_splits)
  then show "Envelope_Validate e = Ok ()" by (simp add: Envelope_Validate_def)
  have "env_Payload e = any_Value a" using a(2) by (auto simp: decode_attributes_def Let_def)
  with a show "ce_Data ce = ProtoData (Some \<lparr>any_TypeUrl = env_DataSchema e, any_Value = env_Payload e\<rparr>)" by simp
qed

lemma require_attributes_Ok: "require_attributes xs = Ok () \<longleftrightarrow> (\<forall>(name, v) \<in> set xs. v \<noteq> [])"
  by (induction xs rule: require_attributes.induct) (auto simp: attributeError_def)

lemma validatePresence_Ok:
  "validatePresence e = Ok () \<longleftrightarrow>
     env_ID e \<noteq> [] \<and> env_Source e \<noteq> [] \<and> env_SpecVersion e \<noteq> [] \<and> env_Type e \<noteq> [] \<and> env_Subject e \<noteq> [] \<and>
     env_DataSchema e \<noteq> [] \<and> env_DataContentType e \<noteq> [] \<and> env_CorrelationID e \<noteq> [] \<and> env_CausationID e \<noteq> [] \<and>
     env_PartitionKey e \<noteq> [] \<and> env_TraceParent e \<noteq> [] \<and> env_Time e \<noteq> None \<and> env_TenantID e \<noteq> Some [] \<and> env_TraceState e \<noteq> Some []"
  by (auto simp: validatePresence_def attributeError_def)

lemma Unmarshal_valid: "Unmarshal proto_Unmarshal raw = Ok e \<Longrightarrow> Envelope_Validate e = Ok ()"
  by (auto simp: Unmarshal_def dest: Decode_valid(1) split: res.splits)

text \<open>C40. What a publisher marshals a consumer unmarshals to the same envelope, payload bytes included;
  every envelope \<open>Unmarshal\<close> hands out satisfies the whole profile, and can be marshalled again whenever the
  wire format takes it.\<close>

theorem envelope_round_trip:
  assumes "\<And>ce raw. proto_Marshal ce = Ok raw \<Longrightarrow> proto_Unmarshal raw = Ok ce"
  shows "(Marshal proto_Marshal e = Ok raw \<longrightarrow> Unmarshal proto_Unmarshal raw = Ok e) \<and>
    (Unmarshal proto_Unmarshal raw = Ok e \<longrightarrow>
       Envelope_Validate e = Ok () \<and> (\<exists>ce. Encode e = Ok ce \<and> Decode (Some ce) = Ok e))"
proof -
  have "Unmarshal proto_Unmarshal raw = Ok e" if "Marshal proto_Marshal e = Ok raw"
    using that assms by (auto simp: Marshal_def Unmarshal_def Decode_Encode)
  moreover have "\<exists>ce. Encode e = Ok ce \<and> Decode (Some ce) = Ok e" if "Unmarshal proto_Unmarshal raw = Ok e"
    using Unmarshal_valid [OF that] Decode_Encode by (auto simp: Encode_def Let_def)
  ultimately show ?thesis using Unmarshal_valid by blast
qed

definition sample_envelope :: Envelope where
  "sample_envelope = \<lparr>env_ID = ''m-1'', env_Source = ''/orders'', env_SpecVersion = ''1.0'', env_Type = ''com.company.orders.order-placed.v1'',
     env_Subject = ''o-1'', env_Time = Some \<lparr>ts_seconds = 1, ts_nanos = 0\<rparr>,
     env_DataSchema = ''type.googleapis.com/company.orders.event.v1.OrderPlaced'', env_DataContentType = ''application/protobuf'',
     env_CorrelationID = ''c-1'', env_CausationID = ''m-0'', env_PartitionKey = ''o-1'', env_TraceParent = ''00-1-1-01'',
     env_AggregateVersion = Some 1, env_TenantID = Some ''acme'', env_TraceState = None, env_Payload = [1, 2, 3]\<rparr>"

text \<open>A wire format for one message, which is enough to show that the law can hold.\<close>

definition sample_event :: CloudEvent where
  "sample_event = (case Encode sample_envelope of Ok ce \<Rightarrow> ce | _ \<Rightarrow> undefined)"

definition sample_marshal :: "CloudEvent \<Rightarrow> bytes result" where
  "sample_marshal ce = (if ce = sample_event then Ok [10] else Fail ErrMalformed)"

definition sample_unmarshal :: "bytes \<Rightarrow> CloudEvent result" where
  "sample_unmarshal raw = (if raw = [10] then Ok sample_event else Fail ErrMalformed)"

lemma sample_envelope_valid: "Envelope_Validate sample_envelope = Ok ()"
  by code_simp

lemma sample_envelope_Marshal: "Marshal sample_marshal sample_envelope = Ok [10]"
proof -
  obtain ce where "Encode sample_envelope = Ok ce" using sample_envelope_valid by (auto simp: Encode_def Let_def)
  then show ?thesis by (simp add: Marshal_def sample_marshal_def sample_event_def)
qed

lemma sample_wire: "sample_marshal ce = Ok raw \<Longrightarrow> sample_unmarshal raw = Ok ce"
  by (auto simp: sample_marshal_def sample_unmarshal_def split: if_splits)

lemma envelope_round_trip_witness: "Unmarshal sample_unmarshal [10] = Ok sample_envelope"
  using envelope_round_trip [where proto_Marshal = sample_marshal and proto_Unmarshal = sample_unmarshal, OF sample_wire]
    sample_envelope_Marshal by blast

end
