(* ===== verification/Go_UTF8.thy ===== *)
theory Go_UTF8
  imports Go_Prelude
begin

text \<open>
  UTF-8 as Go and PostgreSQL read it: how many bytes of a string form its first character (\<open>utf8.DecodeRune\<close>), which
  strings are valid, what \<open>encoding/json\<close> makes of the others (one replacement character per invalid byte), and which
  strings a \<open>text\<close> column of a UTF-8 database takes. A string is its bytes.
\<close>

definition utf8_tail :: "nat \<Rightarrow> nat \<Rightarrow> char \<Rightarrow> bool" where
  "utf8_tail low high c \<longleftrightarrow> low \<le> of_char c \<and> of_char c \<le> high"

text \<open>The length of the first character, and 0 when the bytes are not one.\<close>

fun utf8_size :: "string \<Rightarrow> nat" where
  "utf8_size [] = 0"
| "utf8_size (c # s) =
     (let b = of_char c :: nat; tail = utf8_tail 128 191; second = (\<lambda>low high. case s of [] \<Rightarrow> False | x # _ \<Rightarrow> utf8_tail low high x);
          third = (case s of _ # x # _ \<Rightarrow> tail x | _ \<Rightarrow> False); fourth = (case s of _ # _ # x # _ \<Rightarrow> tail x | _ \<Rightarrow> False) in
      if b < 128 then 1
      else if 194 \<le> b \<and> b \<le> 223 then (if second 128 191 then 2 else 0)
      else if 224 \<le> b \<and> b \<le> 239 then
        (if second (if b = 224 then 160 else 128) (if b = 237 then 159 else 191) \<and> third then 3 else 0)
      else if 240 \<le> b \<and> b \<le> 244 then
        (if second (if b = 240 then 144 else 128) (if b = 244 then 143 else 191) \<and> third \<and> fourth then 4 else 0)
      else 0)"

definition rune_error :: string where
  "rune_error = [CHR 0xEF, CHR 0xBF, CHR 0xBD]"

text \<open>The next character of a string that is not empty, and the rest: an invalid byte is a character of its own.\<close>

definition utf8_next :: "char \<Rightarrow> string \<Rightarrow> string option \<times> string" where
  "utf8_next c s = (case utf8_size (c # s) of 0 \<Rightarrow> (None, s) | Suc n \<Rightarrow> (Some (take (Suc n) (c # s)), drop n s))"

lemma utf8_next_shorter: "length (snd (utf8_next c s)) \<le> length s"
  by (simp add: utf8_next_def split: nat.split)

function utf8_valid :: "string \<Rightarrow> bool" where
  "utf8_valid [] = True"
| "utf8_valid (c # s) = (case utf8_next c s of (None, _) \<Rightarrow> False | (Some _, rest) \<Rightarrow> utf8_valid rest)"
  by pat_completeness auto
termination
  by (relation "measure length") (use utf8_next_shorter in \<open>auto simp: less_Suc_eq_le, (metis snd_conv)+\<close>)

text \<open>A string through \<open>json.Marshal\<close> and back: its escapes stand for the characters they replace.\<close>

function json_text :: "string \<Rightarrow> string" where
  "json_text [] = []"
| "json_text (c # s) =
     (case utf8_next c s of (None, rest) \<Rightarrow> rune_error @ json_text rest | (Some r, rest) \<Rightarrow> r @ json_text rest)"
  by pat_completeness auto
termination
  by (relation "measure length") (use utf8_next_shorter in \<open>auto simp: less_Suc_eq_le, (metis snd_conv)+\<close>)

lemma json_text_valid: "utf8_valid s \<Longrightarrow> json_text s = s"
proof (induction s rule: json_text.induct)
  case (2 c s)
  then obtain n where n: "utf8_size (c # s) = Suc n"
    by (cases "utf8_size (c # s)") (simp_all add: utf8_next_def)
  with 2 have "json_text (drop n s) = drop n s"
    by (simp add: utf8_next_def)
  with n show ?case
    by (simp add: utf8_next_def)
qed simp

lemma json_text_Nil [simp]: "json_text s = [] \<longleftrightarrow> s = []"
  by (cases s) (auto simp: utf8_next_def rune_error_def split: nat.splits)

declare json_text.simps(2) [simp del] utf8_valid.simps(2) [simp del]

text \<open>A value PostgreSQL stores in a \<open>text\<close> column.\<close>

definition pg_text :: "string \<Rightarrow> bool" where
  "pg_text s \<longleftrightarrow> utf8_valid s \<and> CHR 0x00 \<notin> set s"

text \<open>Strings of ASCII, which most values of the examples are.\<close>

lemma utf8_size_ascii: "of_char c < (128 :: nat) \<Longrightarrow> utf8_size (c # s) = 1"
  by simp

lemma utf8_valid_ascii: "\<forall>c \<in> set s. of_char c < (128 :: nat) \<Longrightarrow> utf8_valid s"
  by (induction s) (simp_all add: utf8_valid.simps utf8_next_def)

lemma pg_text_ascii: "\<forall>c \<in> set s. 0 < (of_char c :: nat) \<and> of_char c < (128 :: nat) \<Longrightarrow> pg_text s"
  using utf8_valid_ascii [of s] by (force simp: pg_text_def)

lemma utf8_examples:
  "utf8_valid [CHR 0xC3, CHR 0xA9]" "\<not> utf8_valid [CHR 0xC3]" "\<not> utf8_valid [CHR 0xED, CHR 0xA0, CHR 0x80]"
  "json_text [CHR ''a'', CHR 0xFF, CHR ''b''] = [CHR ''a''] @ rune_error @ [CHR ''b'']"
  by code_simp+

end
