(* ===== verification/Postgres_Outbox.thy ===== *)
theory Postgres_Outbox
  imports Contracts_Envelope Ports_Inbox Application_Idempotency Go_SHA256 Go_UTF8 "HOL-Library.Product_Lexorder"
begin

text \<open>
  The transactional outbox, \<^verbatim>\<open>libs/backend/go/postgres\<close>: the row written beside the business state
  (\<open>outbox.go\<close>, with \<open>mapper.go\<close>, \<open>destination.go\<close> and \<open>outbox.sql\<close>) and the claim and conditional
  transitions of the drain (\<open>claim.go\<close>) and the purge of what was published (\<open>purge.go\<close>). Each SQL statement is a function on the rows of the table; a
  statement that fails in the driver leaves them as they were. What PostgreSQL does with the statement is
  modelled (row locks of concurrent claims are an argument), the driver and the pool are not. The mapper
  of a bounded context and the protobuf runtime are arguments of \<open>pg_Enqueue\<close>.
\<close>

section \<open>Rows\<close>

text \<open>The \<open>metadata\<close> column as its reader sees it: per key a JSON string, or any other JSON value.\<close>

datatype json = JString string | JOther

type_synonym metadata = "string \<rightharpoonup> json"

datatype outbox_status = StatusPending | StatusPublishing | StatusPublished | StatusFailed

record outbox_row =
  ob_id :: int
  ob_message_id :: string
  ob_message_type :: string
  ob_schema_version :: string
  ob_aggregate_type :: string
  ob_aggregate_id :: string
  ob_aggregate_version :: int
  ob_partition_key :: string
  ob_destination :: string
  ob_payload :: bytes
  ob_payload_hash :: string
  ob_metadata :: metadata
  ob_occurred_at :: int
  ob_available_at :: int
  ob_attempt_count :: int
  ob_status :: outbox_status
  ob_locked_by :: "string option"
  ob_locked_until :: "int option"
  ob_published_at :: "int option"
  ob_last_error :: "string option"

record outbox_table =
  ot_rows :: "outbox_row list"
  ot_next :: int

section \<open>The write side\<close>

text \<open>
  The document \<open>json.Marshal\<close> writes, as its reader sees it: an empty field is left out, and a byte that is not UTF-8
  becomes the replacement character.
\<close>

definition encodeMetadata :: "MessageContext \<Rightarrow> TenantID \<Rightarrow> metadata" where
  "encodeMetadata mc tenant =
     map_of (map (\<lambda>(k, v). (k, JString (json_text v))) (filter (\<lambda>(k, v). v \<noteq> [])
       [(''correlationid'', mc_CorrelationID mc), (''causationid'', mc_CausationID mc),
        (''traceparent'', mc_Traceparent mc), (''tracestate'', mc_Tracestate mc), (''tenantid'', tenant)]))"

definition enqueueTenant :: "carrier \<Rightarrow> TenantID" where
  "enqueueTenant ctx =
     (case ExecutionContextFrom ctx of
        None \<Rightarrow> []
      | Some execution \<Rightarrow> (case ec_Tenant execution of None \<Rightarrow> [] | Some tenant \<Rightarrow> tenant))"

definition majorOfDotted :: "string \<Rightarrow> string" where
  "majorOfDotted dotted = (if CHR ''.'' \<notin> set dotted then [] else after_last (CHR ''.'') dotted)"

record 'm Mapped =
  mpd_Message :: "'m option"
  mpd_Type :: string

record 'm proto =
  pb_package :: "'m \<Rightarrow> string"
  pb_Pack :: "'m \<Rightarrow> (bytes \<times> string) result"

definition checkMajor :: "'m proto \<Rightarrow> 'm Mapped \<Rightarrow> 'm result" where
  "checkMajor p mapped =
     (case mpd_Message mapped of
        None \<Rightarrow> Fail ErrEmptyMapping
      | Some m \<Rightarrow>
          let contract = majorOfDotted (pb_package p m) in
          if contract = [] \<or> contract \<noteq> majorOfDotted (mpd_Type mapped) then Fail ErrMajorMismatch else Ok m)"

definition destinationForm :: rexp where
  "destinationForm =
     Cat (Cat (Class lower) (Star (Class lower_digit)))
       (Star (Cat (Class (\<lambda>c. c = CHR ''.'')) (Cat (Class lower) (Star (Class lower_digit)))))"

definition checkDestination :: "string \<Rightarrow> unit result" where
  "checkDestination destination =
     (if \<not> match_string destinationForm destination then FailWith ErrInvalidDestination destination else Ok ())"

definition pg_error :: "string \<Rightarrow> gerr" where
  "pg_error state = PgError state [] []"

text \<open>
  What the columns take: \<open>text\<close> is UTF-8 without the null character, and a \<open>jsonb\<close> string has no null character either.
\<close>

definition texts_storable :: "outbox_row \<Rightarrow> bool" where
  "texts_storable row \<longleftrightarrow> list_all pg_text [ob_message_id row, ob_message_type row, ob_schema_version row, ob_aggregate_type row,
     ob_aggregate_id row, ob_partition_key row, ob_destination row, ob_payload_hash row]"

definition metadataKeys :: "string list" where
  "metadataKeys = [''correlationid'', ''causationid'', ''traceparent'', ''tracestate'', ''tenantid'']"

definition metadata_storable :: "metadata \<Rightarrow> bool" where
  "metadata_storable md \<longleftrightarrow>
     list_all (\<lambda>k. case md k of Some (JString v) \<Rightarrow> CHR 0x00 \<notin> set v | _ \<Rightarrow> True) metadataKeys"

text \<open>The INSERT: the values, the unique constraint on the message id and the check on the payload.\<close>

definition insert_outbox :: "outbox_row \<Rightarrow> outbox_table \<Rightarrow> outbox_table \<times> unit result" where
  "insert_outbox row t =
     (if \<not> texts_storable row then (t, Err (pg_error ''22021''))
      else if \<not> metadata_storable (ob_metadata row) then (t, Err (pg_error ''22P05''))
      else if ob_message_id row \<in> ob_message_id ` set (ot_rows t)
      then (t, Err (Wrapped [] [Sentinel ErrDuplicateMessage, pg_error ''23505'']))
      else if ob_payload row = [] then (t, Err (pg_error ''23514''))
      else (\<lparr>ot_rows = ot_rows t @ [row\<lparr>ob_id := ot_next t\<rparr>], ot_next = ot_next t + 1\<rparr>, Ok ()))"

lemma pg_text_hex: "pg_text (hex_bytes bs)"
proof (rule pg_text_ascii)
  have "0 < (of_char (hex_digit n) :: nat) \<and> of_char (hex_digit n) < (128 :: nat)" if "n < 16" for n
    using that by (simp add: hex_digit_def of_char_of)
  moreover have "unat b div 16 < 16" "unat b mod 16 < 16" for b :: "8 word"
    using unsigned_less [of b, where 'a = nat] by simp_all
  ultimately show "\<forall>c \<in> set (hex_bytes bs). 0 < (of_char c :: nat) \<and> of_char c < (128 :: nat)"
    by (auto simp: hex_bytes_def)
qed

text \<open>\<open>Enqueue\<close> in a transaction: the table, and the transaction's count of writes.\<close>

definition pg_Enqueue :: "'m proto \<Rightarrow> ('e \<Rightarrow> 'm Mapped result) \<Rightarrow> carrier \<Rightarrow> 'e OutboxEntry \<Rightarrow> outbox_table \<times> int \<Rightarrow>
    (outbox_table \<times> int) \<times> unit result" where
  "pg_Enqueue p mapper ctx entry tx =
     (if oe_MessageID entry = [] then (tx, Fail ErrEmptyMessageID)
      else case res_bind (checkDestination (pi_Destination (oe_Intent entry))) (\<lambda>_.
             res_bind (mapper (oe_Event entry)) (\<lambda>mapped.
             res_bind (checkMajor p mapped) (\<lambda>m.
             res_map (\<lambda>packed. (mapped, packed)) (pb_Pack p m)))) of
        Err e \<Rightarrow> (tx, Err e)
      | Panic m \<Rightarrow> (tx, Panic m)
      | Ok (mapped, payload, typeURL) \<Rightarrow>
          (case insert_outbox \<lparr>ob_id = 0, ob_message_id = oe_MessageID entry, ob_message_type = mpd_Type mapped,
            ob_schema_version = typeURL, ob_aggregate_type = oe_AggregateType entry,
            ob_aggregate_id = oe_AggregateID entry, ob_aggregate_version = sint (oe_AggregateVersion entry),
            ob_partition_key = pi_PartitionKey (oe_Intent entry), ob_destination = pi_Destination (oe_Intent entry),
            ob_payload = payload, ob_payload_hash = hex_bytes (Sum256 payload),
            ob_metadata = encodeMetadata (oe_Context entry) (enqueueTenant ctx),
            ob_occurred_at = oe_OccurredAt entry, ob_available_at = oe_OccurredAt entry, ob_attempt_count = 0,
            ob_status = StatusPending, ob_locked_by = None, ob_locked_until = None, ob_published_at = None,
            ob_last_error = None\<rparr> (fst tx) of
             (t, Ok _) \<Rightarrow> ((t, snd tx + 1), Ok ())
           | (t, r) \<Rightarrow> ((t, snd tx), r)))"

section \<open>The drain side\<close>

definition metadata_text :: "metadata \<Rightarrow> string \<Rightarrow> bool" where
  "metadata_text md key \<longleftrightarrow> (case md key of Some (JString s) \<Rightarrow> s \<noteq> [] | _ \<Rightarrow> False)"

definition eligible :: "int \<Rightarrow> outbox_row \<Rightarrow> bool" where
  "eligible now r \<longleftrightarrow>
     ob_available_at r \<le> now \<and>
     (ob_status r = StatusPending \<or>
      ob_status r = StatusPublishing \<and> (case ob_locked_until r of None \<Rightarrow> True | Some u \<Rightarrow> u \<le> now)) \<and>
     metadata_text (ob_metadata r) ''correlationid'' \<and> metadata_text (ob_metadata r) ''causationid'' \<and>
     metadata_text (ob_metadata r) ''traceparent''"

definition eligible_ids :: "(int \<Rightarrow> bool) \<Rightarrow> int \<Rightarrow> int \<Rightarrow> outbox_row list \<Rightarrow> int list" where
  "eligible_ids row_locked now limit rows =
     take (nat limit) (filter (\<lambda>i. \<not> row_locked i)
       (map ob_id (sort_key (\<lambda>r. (ob_available_at r, ob_id r)) (filter (eligible now) rows))))"

definition claim_row :: "string \<Rightarrow> int \<Rightarrow> outbox_row \<Rightarrow> outbox_row" where
  "claim_row claimID until r = r\<lparr>ob_status := StatusPublishing, ob_locked_by := Some claimID, ob_locked_until := Some until,
     ob_attempt_count := ob_attempt_count r + 1\<rparr>"

text \<open>\<open>Claim\<close> returns the claimed rows themselves, of which the relay reads the columns of \<open>Claimed\<close>.\<close>

definition Outbox_Claim :: "(int \<Rightarrow> bool) \<Rightarrow> int \<Rightarrow> string \<Rightarrow> int \<Rightarrow> int \<Rightarrow> outbox_table \<Rightarrow>
    outbox_table \<times> outbox_row list result" where
  "Outbox_Claim row_locked now claimID limit lease t =
     (if claimID = [] then (t, Fail ErrClaimIdentityRequired)
      else if limit \<le> 0 then (t, Fail ErrInvalidBatchSize)
      else if lease \<le> 0 then (t, Fail ErrInvalidLease)
      else let ids = eligible_ids row_locked now limit (ot_rows t);
               rows = map (\<lambda>r. if ob_id r \<in> set ids then claim_row claimID (wrap64 (now + lease)) r else r) (ot_rows t) in
        (t\<lparr>ot_rows := rows\<rparr>, Ok (filter (\<lambda>r. ob_id r \<in> set ids) rows)))"

definition owned :: "int \<Rightarrow> string \<Rightarrow> outbox_row \<Rightarrow> bool" where
  "owned i claimID r \<longleftrightarrow> ob_id r = i \<and> ob_locked_by r = Some claimID"

definition transition_row :: "(outbox_row \<Rightarrow> outbox_row) \<Rightarrow> int \<Rightarrow> string \<Rightarrow> outbox_table \<Rightarrow> outbox_table \<times> int result" where
  "transition_row statement i claimID t =
     (if claimID = [] then (t, Fail ErrClaimIdentityRequired)
      else (t\<lparr>ot_rows := map (\<lambda>r. if owned i claimID r then statement r else r) (ot_rows t)\<rparr>,
            Ok (int (length (filter (owned i claimID) (ot_rows t))))))"

definition MarkPublished :: "int \<Rightarrow> int \<Rightarrow> string \<Rightarrow> outbox_table \<Rightarrow> outbox_table \<times> int result" where
  "MarkPublished now = transition_row (\<lambda>r. r\<lparr>ob_status := StatusPublished, ob_published_at := Some now,
     ob_locked_until := None, ob_last_error := None\<rparr>)"

definition Reschedule :: "int \<Rightarrow> string \<Rightarrow> int \<Rightarrow> string \<Rightarrow> outbox_table \<Rightarrow> outbox_table \<times> int result" where
  "Reschedule availableAt lastError = transition_row (\<lambda>r. r\<lparr>ob_available_at := max availableAt (ob_occurred_at r),
     ob_locked_until := None, ob_last_error := (if lastError = [] then ob_last_error r else Some lastError)\<rparr>)"

definition Outbox_Fail :: "string \<Rightarrow> int \<Rightarrow> string \<Rightarrow> outbox_table \<Rightarrow> outbox_table \<times> int result" where
  "Outbox_Fail lastError = transition_row (\<lambda>r. r\<lparr>ob_status := StatusFailed, ob_locked_until := None,
     ob_last_error := Some lastError\<rparr>)"

text \<open>\<open>purge.go\<close>: published rows older than the cutoff, as many as the batch, in the order the scan of the
  table meets them; it returns the count.\<close>

definition purgeable :: "(int \<Rightarrow> bool) \<Rightarrow> Instant \<Rightarrow> outbox_row \<Rightarrow> bool" where
  "purgeable row_locked before r \<longleftrightarrow> ob_status r = StatusPublished \<and>
     (case ob_published_at r of None \<Rightarrow> False | Some at \<Rightarrow> at < before) \<and> \<not> row_locked (ob_id r)"

definition PurgePublished :: "(int \<Rightarrow> bool) \<Rightarrow> (outbox_row \<Rightarrow> int) \<Rightarrow> Instant \<Rightarrow> int \<Rightarrow> outbox_table \<Rightarrow> outbox_table \<times> int result" where
  "PurgePublished row_locked scan_order before batch t =
     (if batch \<le> 0 then (t, Fail ErrPurgeBatchRequired)
      else let victims = take (nat batch) (filter (purgeable row_locked before) (sort_key scan_order (ot_rows t))) in
        (t\<lparr>ot_rows := filter (\<lambda>r. r \<notin> set victims) (ot_rows t)\<rparr>, Ok (int (length victims))))"

section \<open>Reachable tables\<close>

definition fresh_row :: "outbox_row \<Rightarrow> bool" where
  "fresh_row r \<longleftrightarrow> ob_status r = StatusPending \<and> ob_locked_by r = None \<and> ob_locked_until r = None \<and>
     ob_attempt_count r = 0 \<and> ob_available_at r = ob_occurred_at r \<and> ob_message_id r \<noteq> []"

text \<open>One committed operation at time \<open>now\<close> by the holder of claim \<open>who\<close>.\<close>

inductive outbox_step :: "int \<Rightarrow> string \<Rightarrow> outbox_table \<Rightarrow> outbox_table \<Rightarrow> bool" for now who where
  enqueued: "fresh_row r \<Longrightarrow> outbox_step now who t (fst (insert_outbox r t))"
| claimed: "outbox_step now who t (fst (Outbox_Claim row_locked now who limit lease t))"
| published: "outbox_step now who t (fst (MarkPublished now i who t))"
| rescheduled: "outbox_step now who t (fst (Reschedule availableAt lastError i who t))"
| failed: "outbox_step now who t (fst (Outbox_Fail lastError i who t))"
| purged: "outbox_step now who t (fst (PurgePublished row_locked scan_order before batch t))"

definition outbox_row_ok :: "outbox_row \<Rightarrow> bool" where
  "outbox_row_ok r \<longleftrightarrow> ob_occurred_at r \<le> ob_available_at r \<and> ob_payload r \<noteq> [] \<and> ob_message_id r \<noteq> [] \<and>
     (ob_status r = StatusPending \<longrightarrow> ob_locked_by r = None \<and> ob_attempt_count r = 0) \<and>
     (ob_status r \<noteq> StatusPending \<longrightarrow> ob_locked_by r \<noteq> None \<and> 0 < ob_attempt_count r) \<and>
     (ob_locked_until r \<noteq> None \<longrightarrow> ob_status r = StatusPublishing) \<and>
     (ob_status r = StatusPublished \<longrightarrow> ob_published_at r \<noteq> None)"

definition table_ok :: "outbox_table \<Rightarrow> bool" where
  "table_ok t \<longleftrightarrow> distinct (map ob_id (ot_rows t)) \<and> distinct (map ob_message_id (ot_rows t)) \<and>
     (\<forall>r \<in> set (ot_rows t). ob_id r < ot_next t \<and> outbox_row_ok r)"

text \<open>What no operation changes: the message as it was written.\<close>

definition same_message :: "outbox_row \<Rightarrow> outbox_row \<Rightarrow> bool" where
  "same_message r r' \<longleftrightarrow>
     ob_id r' = ob_id r \<and> ob_message_id r' = ob_message_id r \<and> ob_message_type r' = ob_message_type r \<and>
     ob_schema_version r' = ob_schema_version r \<and> ob_aggregate_type r' = ob_aggregate_type r \<and>
     ob_aggregate_id r' = ob_aggregate_id r \<and> ob_aggregate_version r' = ob_aggregate_version r \<and>
     ob_partition_key r' = ob_partition_key r \<and> ob_destination r' = ob_destination r \<and> ob_payload r' = ob_payload r \<and>
     ob_payload_hash r' = ob_payload_hash r \<and> ob_metadata r' = ob_metadata r \<and> ob_occurred_at r' = ob_occurred_at r \<and>
     ob_attempt_count r \<le> ob_attempt_count r' \<and> (ob_status r \<noteq> StatusPending \<longrightarrow> ob_status r' \<noteq> StatusPending)"

lemma same_message_refl [simp]: "same_message r r"
  by (simp add: same_message_def)

lemma same_message_trans: "same_message a b \<Longrightarrow> same_message b c \<Longrightarrow> same_message a c"
  by (auto simp: same_message_def)

text \<open>Every update rewrites rows in place; \<open>keeps_rows\<close> is what such a rewriting keeps.\<close>

definition keeps_rows :: "(outbox_row \<Rightarrow> outbox_row) \<Rightarrow> outbox_row list \<Rightarrow> bool" where
  "keeps_rows f rows \<longleftrightarrow> (\<forall>r \<in> set rows. same_message r (f r) \<and> (outbox_row_ok r \<longrightarrow> outbox_row_ok (f r)))"

lemma rewrite_ok:
  assumes "table_ok t" and "keeps_rows f (ot_rows t)"
  shows "table_ok (t\<lparr>ot_rows := map f (ot_rows t)\<rparr>)"
proof -
  have "map ob_id (map f (ot_rows t)) = map ob_id (ot_rows t)"
    and "map ob_message_id (map f (ot_rows t)) = map ob_message_id (ot_rows t)"
    using assms(2) by (simp_all add: keeps_rows_def same_message_def)
  then have d: "distinct (map ob_id (map f (ot_rows t)))" "distinct (map ob_message_id (map f (ot_rows t)))"
    using assms(1) unfolding table_ok_def by metis+
  have "\<forall>r \<in> set (map f (ot_rows t)). ob_id r < ot_next t \<and> outbox_row_ok r"
    using assms by (auto simp: keeps_rows_def table_ok_def same_message_def)
  with d show ?thesis unfolding table_ok_def by simp
qed

lemma eligible_ids_eligible:
  "i \<in> set (eligible_ids row_locked now limit rows) \<Longrightarrow> \<exists>r \<in> set rows. ob_id r = i \<and> eligible now r \<and> \<not> row_locked i"
  by (auto simp: eligible_ids_def dest!: in_set_takeD)

lemma unique_row:
  "distinct (map ob_id rows) \<Longrightarrow> r \<in> set rows \<Longrightarrow> r' \<in> set rows \<Longrightarrow> ob_id r = ob_id r' \<Longrightarrow> r = r'"
  by (auto simp: distinct_map dest: inj_onD)

lemma claimed_was_eligible:
  assumes "distinct (map ob_id rows)" and "r \<in> set rows" and "ob_id r \<in> set (eligible_ids row_locked now limit rows)"
  shows "eligible now r \<and> \<not> row_locked (ob_id r)"
  using eligible_ids_eligible [OF assms(3)] unique_row [OF assms(1,2)] by metis

lemma claim_row_ok: "outbox_row_ok r \<Longrightarrow> outbox_row_ok (claim_row who until r)"
  by (cases "ob_status r") (auto simp: outbox_row_ok_def claim_row_def)

text \<open>A committed operation leaves the table, appends a fresh row, rewrites rows the caller holds or
  claims, or drops published rows.\<close>

lemma step_cases:
  assumes "outbox_step now who t t'" and "table_ok t"
  obtains (unchanged) "t' = t"
  | (new) r where "fresh_row r" "ob_message_id r \<notin> ob_message_id ` set (ot_rows t)" "ob_payload r \<noteq> []"
      "t' = \<lparr>ot_rows = ot_rows t @ [r\<lparr>ob_id := ot_next t\<rparr>], ot_next = ot_next t + 1\<rparr>"
  | (rewritten) f where "t' = t\<lparr>ot_rows := map f (ot_rows t)\<rparr>" "keeps_rows f (ot_rows t)"
      "\<And>r. r \<in> set (ot_rows t) \<Longrightarrow> f r = r \<or> ob_locked_by r = Some who \<or> eligible now r"
  | (dropped) P where "t' = t\<lparr>ot_rows := filter P (ot_rows t)\<rparr>"
      "\<And>r. r \<in> set (ot_rows t) \<Longrightarrow> \<not> P r \<Longrightarrow> ob_status r = StatusPublished"
proof -
  have transition: thesis
    if "t' = fst (transition_row g i who t)" "\<And>r. same_message r (g r)"
      "\<And>r. outbox_row_ok r \<Longrightarrow> ob_locked_by r = Some who \<Longrightarrow> outbox_row_ok (g r)" for g i
  proof (cases "who = []")
    case True
    then show ?thesis using that(1) by (intro unchanged) (simp add: transition_row_def)
  next
    case False
    show ?thesis
      by (rule rewritten [where f = "\<lambda>r. if owned i who r then g r else r"])
        (use False that in \<open>auto simp: transition_row_def owned_def keeps_rows_def\<close>)
  qed
  from assms(1) show ?thesis
  proof (cases rule: outbox_step.cases)
    case (enqueued r)
    then show ?thesis by (auto simp: insert_outbox_def split: if_splits intro: unchanged new)
  next
    case (claimed row_locked limit lease)
    define ids where "ids = eligible_ids row_locked now limit (ot_rows t)"
    have el: "eligible now r" if "r \<in> set (ot_rows t)" "ob_id r \<in> set ids" for r
      using claimed_was_eligible [of "ot_rows t" r row_locked now limit] that assms(2) by (simp add: ids_def table_ok_def)
    show ?thesis
    proof (cases "who = [] \<or> limit \<le> 0 \<or> lease \<le> 0")
      case True
      then show ?thesis using claimed by (intro unchanged) (auto simp: Outbox_Claim_def)
    next
      case False
      show ?thesis
      proof (rule rewritten [where f = "\<lambda>r. if ob_id r \<in> set ids then claim_row who (wrap64 (now + lease)) r else r"])
        show "t' = t\<lparr>ot_rows := map (\<lambda>r. if ob_id r \<in> set ids then claim_row who (wrap64 (now + lease)) r else r) (ot_rows t)\<rparr>"
          using claimed False by (simp add: Outbox_Claim_def Let_def ids_def)
        show "keeps_rows (\<lambda>r. if ob_id r \<in> set ids then claim_row who (wrap64 (now + lease)) r else r) (ot_rows t)"
          using claim_row_ok by (auto simp: keeps_rows_def same_message_def claim_row_def)
      qed (use el in auto)
    qed
  next
    case (published i)
    then show ?thesis
      by (intro transition [of _ i]) (auto simp: MarkPublished_def same_message_def outbox_row_ok_def)
  next
    case (rescheduled availableAt lastError i)
    then show ?thesis
      by (intro transition [of _ i]) (auto simp: Reschedule_def same_message_def outbox_row_ok_def)
  next
    case (failed lastError i)
    then show ?thesis
      by (intro transition [of _ i]) (auto simp: Outbox_Fail_def same_message_def outbox_row_ok_def)
  next
    case (purged row_locked scan_order before batch)
    show ?thesis
    proof (cases "batch \<le> 0")
      case True
      then show ?thesis using purged by (intro unchanged) (simp add: PurgePublished_def)
    next
      case False
      show ?thesis
        by (rule dropped [where P = "\<lambda>r. r \<notin> set (take (nat batch) (filter (purgeable row_locked before) (sort_key scan_order (ot_rows t))))"])
          (use purged False in \<open>auto simp: PurgePublished_def Let_def purgeable_def dest!: in_set_takeD\<close>)
    qed
  qed
qed

lemma step_table_ok:
  assumes "outbox_step now who t t'" and "table_ok t"
  shows "table_ok t'"
  using assms
proof (cases rule: step_cases)
  case (new r)
  have "outbox_row_ok (r\<lparr>ob_id := ot_next t\<rparr>)" using new(1,3) by (simp add: outbox_row_ok_def fresh_row_def)
  moreover have "ot_next t \<notin> ob_id ` set (ot_rows t)" using assms(2) by (force simp: table_ok_def)
  ultimately show ?thesis using new(2,4) assms(2) by (auto simp: table_ok_def)
next
  case (rewritten f)
  then show ?thesis using rewrite_ok assms(2) by simp
next
  case (dropped P)
  then show ?thesis using assms(2) by (auto simp: table_ok_def distinct_map_filter)
qed (use assms in simp)

lemma steps_table_ok:
  "(\<lambda>t t'. \<exists>now who. outbox_step now who t t')\<^sup>*\<^sup>* t t' \<Longrightarrow> table_ok t \<Longrightarrow> table_ok t'"
  by (induction rule: rtranclp_induct) (auto intro: step_table_ok)

section \<open>Properties\<close>

abbreviation outbox_steps :: "outbox_table \<Rightarrow> outbox_table \<Rightarrow> bool" where
  "outbox_steps \<equiv> (\<lambda>t t'. \<exists>now who. outbox_step now who t t')\<^sup>*\<^sup>*"

lemma step_keeps_messages:
  assumes "outbox_step now who t t'" and "table_ok t" and "r \<in> set (ot_rows t)"
  shows "(\<exists>r' \<in> set (ot_rows t'). same_message r r') \<or> ob_status r = StatusPublished"
  using assms(1,2)
proof (cases rule: step_cases)
  case unchanged
  then show ?thesis using assms(3) same_message_refl by blast
next
  case (new r0)
  then have "r \<in> set (ot_rows t')" using assms(3) by simp
  then show ?thesis using same_message_refl by blast
next
  case (rewritten f)
  then have "f r \<in> set (ot_rows t')" "same_message r (f r)" using assms(3) by (auto simp: keeps_rows_def)
  then show ?thesis by blast
next
  case (dropped P)
  then have "P r \<Longrightarrow> r \<in> set (ot_rows t')" using assms(3) by simp
  then show ?thesis using dropped(2) assms(3) same_message_refl by blast
qed

text \<open>The row is still there, or it was there published and was purged since.\<close>

definition accounted :: "outbox_table \<Rightarrow> outbox_table \<Rightarrow> outbox_row \<Rightarrow> bool" where
  "accounted t t' r \<longleftrightarrow> (\<exists>r' \<in> set (ot_rows t'). same_message r r') \<or>
     (\<exists>t1 r1. outbox_steps t t1 \<and> outbox_steps t1 t' \<and> r1 \<in> set (ot_rows t1) \<and> same_message r r1 \<and> ob_status r1 = StatusPublished)"

lemma steps_keep_messages:
  "outbox_steps t t' \<Longrightarrow> table_ok t \<Longrightarrow> r \<in> set (ot_rows t) \<Longrightarrow> accounted t t' r"
proof (induction rule: rtranclp_induct)
  case base
  then show ?case using same_message_refl unfolding accounted_def by blast
next
  case (step t1 t2)
  have ok: "table_ok t1" using steps_table_ok [OF step.hyps(1) step.prems(1)] .
  obtain now who where s: "outbox_step now who t1 t2" using step.hyps(2) by blast
  then have one: "outbox_steps t1 t2" by blast
  from step.IH [OF step.prems] consider (there) r1 where "r1 \<in> set (ot_rows t1)" "same_message r r1"
    | (purged) t0 r0 where "outbox_steps t t0" "outbox_steps t0 t1" "r0 \<in> set (ot_rows t0)" "same_message r r0" "ob_status r0 = StatusPublished"
    unfolding accounted_def by blast
  then show ?case
  proof cases
    case there
    from step_keeps_messages [OF s ok there(1)] show ?thesis
      using there same_message_trans step.hyps(1) one unfolding accounted_def by blast
  next
    case purged
    have "outbox_steps t0 t2" using purged(2) one by (rule rtranclp_trans)
    then show ?thesis using purged unfolding accounted_def by blast
  qed
qed

definition outbox_empty :: outbox_table where
  "outbox_empty = \<lparr>ot_rows = [], ot_next = 1\<rparr>"

lemma outbox_empty_ok: "table_ok outbox_empty"
  by (simp add: outbox_empty_def table_ok_def)

text \<open>C24. In every history of enqueues, claims and transitions the message identifiers of the outbox
  are unique; a lease is held only by a row in publishing, a pending row has never been claimed, a published
  row says when; and a written message never disappears before it was published, and never changes: its
  bytes, hash, addressing and metadata stay as the transaction froze them, and only its attempts grow.\<close>

theorem outbox_history:
  assumes "outbox_steps outbox_empty t" and "outbox_steps t t'"
  shows "distinct (map ob_id (ot_rows t)) \<and> distinct (map ob_message_id (ot_rows t)) \<and>
    (\<forall>r \<in> set (ot_rows t). outbox_row_ok r \<and> accounted t t' r)"
proof -
  have ok: "table_ok t" using steps_table_ok [OF assms(1) outbox_empty_ok] .
  then show ?thesis using steps_keep_messages [OF assms(2) ok] by (simp add: table_ok_def)
qed

lemma leased_row_step:
  assumes "outbox_step now who t t'" and "table_ok t" and "r \<in> set (ot_rows t)"
    and "ob_status r = StatusPublishing" and "ob_locked_by r = Some owner" and "ob_locked_until r = Some until"
    and "who \<noteq> owner" and "now < until"
  shows "r \<in> set (ot_rows t')"
  using assms(1,2)
proof (cases rule: step_cases)
  case (rewritten f)
  have "f r = r" using rewritten(3) [OF assms(3)] assms(4-8) by (auto simp: eligible_def)
  then have "r \<in> f ` set (ot_rows t)" using assms(3) by force
  then show ?thesis by (simp add: rewritten(1))
next
  case (dropped P)
  then have "P r" using assms(3,4) by fastforce
  then show ?thesis using assms(3) by (simp add: dropped(1))
qed (use assms(3) in auto)

lemma leased_row_steps:
  assumes "(\<lambda>t t'. \<exists>now who. who \<noteq> owner \<and> now < until \<and> outbox_step now who t t')\<^sup>*\<^sup>* t t'" and "table_ok t"
    and "r \<in> set (ot_rows t)" and "ob_status r = StatusPublishing" and "ob_locked_by r = Some owner"
    and "ob_locked_until r = Some until"
  shows "table_ok t' \<and> r \<in> set (ot_rows t')"
  using assms(1)
proof (induction rule: rtranclp_induct)
  case (step t1 t2)
  then show ?case using leased_row_step [of _ _ t1 t2 r owner until] step_table_ok assms(4-6) by blast
qed (use assms in simp)

lemma filter_single: "distinct xs \<Longrightarrow> x \<in> set xs \<Longrightarrow> filter (\<lambda>y. y = x) xs = [x]"
  by (induction xs) (auto simp: filter_empty_conv)

lemma transition_count:
  assumes "table_ok t" and "r \<in> set (ot_rows t)" and "ob_locked_by r = Some owner" and "who \<noteq> []"
  shows "snd (transition_row g (ob_id r) who t) = Ok (if who = owner then 1 else 0)"
proof -
  have d: "distinct (map ob_id (ot_rows t))" using assms(1) by (simp add: table_ok_def)
  then have "owned (ob_id r) who r' \<longleftrightarrow> r' = r \<and> who = owner" if "r' \<in> set (ot_rows t)" for r'
    using unique_row [OF d that assms(2)] assms(3) by (auto simp: owned_def)
  then have "filter (owned (ob_id r) who) (ot_rows t) = filter (\<lambda>r'. r' = r \<and> who = owner) (ot_rows t)"
    by (intro filter_cong) auto
  moreover have "filter (\<lambda>r'. r' = r) (ot_rows t) = [r]" using d assms(2) by (intro filter_single) (simp_all add: distinct_map)
  ultimately show ?thesis using assms(4) by (simp add: transition_row_def)
qed

lemma Claim_Ok:
  assumes "Outbox_Claim row_locked now who limit lease t = (t1, Ok rows)"
  shows "who \<noteq> []" "1 \<le> limit" "1 \<le> lease"
    "ot_rows t1 = map (\<lambda>r. if ob_id r \<in> set (eligible_ids row_locked now limit (ot_rows t))
       then claim_row who (wrap64 (now + lease)) r else r) (ot_rows t)"
    "rows = filter (\<lambda>r. ob_id r \<in> set (eligible_ids row_locked now limit (ot_rows t))) (ot_rows t1)"
  using assms by (auto simp: Outbox_Claim_def Let_def split: if_splits)

text \<open>C14. A claim is exclusive for its lease: until the lease ends, whatever the other claimants
  enqueue, claim or settle, a claimed row stays exactly as the claim left it, every transition another claim
  tries on it reports zero rows, and its holder's transition reports one.\<close>

theorem claim_is_exclusive:
  assumes "table_ok t" and "Outbox_Claim row_locked now owner limit lease t = (t1, Ok rows)" and "r \<in> set rows"
    and "int64 (now + lease)"
    and "(\<lambda>t t'. \<exists>later who. who \<noteq> owner \<and> later < now + lease \<and> outbox_step later who t t')\<^sup>*\<^sup>* t1 t2"
  shows "r \<in> set (ot_rows t2) \<and> ob_locked_by r = Some owner \<and> ob_locked_until r = Some (now + lease) \<and>
    (\<forall>who. who \<noteq> [] \<longrightarrow>
       snd (MarkPublished later (ob_id r) who t2) = Ok (if who = owner then 1 else 0) \<and>
       snd (Reschedule at err (ob_id r) who t2) = Ok (if who = owner then 1 else 0) \<and>
       snd (Outbox_Fail err (ob_id r) who t2) = Ok (if who = owner then 1 else 0))"
proof -
  note C = Claim_Ok [OF assms(2)]
  have "outbox_step now owner t t1" using outbox_step.claimed [of now owner t row_locked limit lease] assms(2) by simp
  then have ok1: "table_ok t1" using step_table_ok assms(1) by blast
  have r: "r \<in> set (ot_rows t1)" and "ob_id r \<in> set (eligible_ids row_locked now limit (ot_rows t))"
    using assms(3) by (auto simp: C(5))
  then have f: "ob_status r = StatusPublishing" "ob_locked_by r = Some owner" "ob_locked_until r = Some (now + lease)"
    using assms(4) by (auto simp: C(4) claim_row_def)
  have "table_ok t2 \<and> r \<in> set (ot_rows t2)" by (rule leased_row_steps [OF assms(5) ok1 r f])
  then show ?thesis using f transition_count [of t2 r owner]
    by (simp add: MarkPublished_def Reschedule_def Outbox_Fail_def)
qed

lemma claim_ids_take:
  "eligible_ids row_locked now limit rows = map ob_id (take (nat limit)
     (filter (\<lambda>r. \<not> row_locked (ob_id r)) (sort_key (\<lambda>r. (ob_available_at r, ob_id r)) (filter (eligible now) rows))))"
  by (simp add: eligible_ids_def filter_map comp_def take_map)

lemma take_before_drop:
  "sorted (map f xs) \<Longrightarrow> x \<in> set (take n xs) \<Longrightarrow> y \<in> set (drop n xs) \<Longrightarrow> f x \<le> f y"
proof -
  assume "sorted (map f xs)" "x \<in> set (take n xs)" "y \<in> set (drop n xs)"
  moreover from this(1) have "sorted (map f (take n xs @ drop n xs))" by simp
  ultimately show ?thesis unfolding map_append sorted_append by auto
qed

lemma length_filter_ids:
  assumes "distinct (map f xs)" and "distinct is" and "set is \<subseteq> f ` set xs"
  shows "length (filter (\<lambda>x. f x \<in> set is) xs) = length is"
proof -
  have "distinct (map f (filter (\<lambda>x. f x \<in> set is) xs))" using assms(1) by (rule distinct_map_filter)
  then have "length (filter (\<lambda>x. f x \<in> set is) xs) = card (f ` {x \<in> set xs. f x \<in> set is})"
    using distinct_card by fastforce
  also have "f ` {x \<in> set xs. f x \<in> set is} = set is" using assms(3) by auto
  finally show ?thesis using distinct_card [OF assms(2)] by simp
qed

text \<open>The drain strands nothing and overtakes nobody: a due, complete and unlocked row is claimed,
  or the claim took as many rows as it may and each of them comes before it in the order of availability and
  identity. A row whose lease ran out or was released is due like any other.\<close>

theorem claim_order:
  assumes "table_ok t" and "Outbox_Claim row_locked now who limit lease t = (t1, Ok rows)"
    and "r \<in> set (ot_rows t)" and "eligible now r" and "\<not> row_locked (ob_id r)"
  shows "(\<exists>r' \<in> set rows. same_message r r') \<or>
    int (length rows) = limit \<and>
      (\<forall>r' \<in> set rows. \<exists>r0 \<in> set (ot_rows t). ob_id r0 = ob_id r' \<and> eligible now r0 \<and> \<not> row_locked (ob_id r0) \<and>
         (ob_available_at r0 < ob_available_at r \<or> ob_available_at r0 = ob_available_at r \<and> ob_id r0 < ob_id r))"
proof -
  note C = Claim_Ok [OF assms(2)]
  have d: "distinct (map ob_id (ot_rows t))" using assms(1) by (simp add: table_ok_def)
  let ?key = "\<lambda>r. (ob_available_at r, ob_id r)"
  let ?claim = "claim_row who (wrap64 (now + lease))"
  define sorted_rows where "sorted_rows = filter (\<lambda>r. \<not> row_locked (ob_id r)) (sort_key ?key (filter (eligible now) (ot_rows t)))"
  define ids where "ids = eligible_ids row_locked now limit (ot_rows t)"
  have ids: "ids = map ob_id (take (nat limit) sorted_rows)" unfolding ids_def sorted_rows_def by (rule claim_ids_take)
  have sorted: "sorted (map ?key sorted_rows)" unfolding sorted_rows_def by (simp add: sorted_filter)
  have set_rows: "set sorted_rows = {r \<in> set (ot_rows t). eligible now r \<and> \<not> row_locked (ob_id r)}"
    unfolding sorted_rows_def by auto
  have rows: "rows = filter (\<lambda>r. ob_id r \<in> set ids) (map (\<lambda>r. if ob_id r \<in> set ids then ?claim r else r) (ot_rows t))"
    using C(4,5) by (simp add: ids_def)
  have r: "r \<in> set sorted_rows" using assms(3-5) set_rows by simp
  show ?thesis
  proof (cases "r \<in> set (take (nat limit) sorted_rows)")
    case True
    then have "?claim r \<in> set rows" using assms(3) by (auto simp: rows ids claim_row_def intro!: image_eqI [of _ _ r])
    moreover have "same_message r (?claim r)" by (simp add: same_message_def claim_row_def)
    ultimately show ?thesis by blast
  next
    case False
    then have later: "r \<in> set (drop (nat limit) sorted_rows)" using r by (metis Un_iff append_take_drop_id set_append)
    then have len: "length (take (nat limit) sorted_rows) = nat limit" by (cases "nat limit < length sorted_rows") auto
    have "distinct ids" unfolding ids_def eligible_ids_def
      by (intro distinct_take distinct_filter) (use d in \<open>auto simp: distinct_map inj_on_def\<close>)
    moreover have "set ids \<subseteq> ob_id ` set (ot_rows t)" using eligible_ids_eligible unfolding ids_def by blast
    ultimately have "length (filter (\<lambda>r. ob_id r \<in> set ids) (ot_rows t)) = length ids" using length_filter_ids [OF d] by blast
    moreover have "length rows = length (filter (\<lambda>r. ob_id r \<in> set ids) (ot_rows t))"
      unfolding rows filter_map length_map by (intro arg_cong [of _ _ length] filter_cong) (auto simp: claim_row_def)
    ultimately have "int (length rows) = limit" using ids len C(2) by simp
    moreover have "\<exists>r0 \<in> set (ot_rows t). ob_id r0 = ob_id r' \<and> eligible now r0 \<and> \<not> row_locked (ob_id r0) \<and>
         (ob_available_at r0 < ob_available_at r \<or> ob_available_at r0 = ob_available_at r \<and> ob_id r0 < ob_id r)"
      if "r' \<in> set rows" for r'
    proof -
      have "ob_id r' \<in> set ids" using that by (simp add: rows)
      then obtain r0 where r0: "r0 \<in> set (take (nat limit) sorted_rows)" "ob_id r0 = ob_id r'" by (auto simp: ids)
      have "?key r0 \<le> ?key r" using take_before_drop [OF sorted r0(1) later] .
      moreover have "r0 \<noteq> r" using r0 False by blast
      moreover have "r0 \<in> set sorted_rows" using r0(1) by (rule in_set_takeD)
      ultimately have "r0 \<in> set (ot_rows t)" "eligible now r0 \<and> \<not> row_locked (ob_id r0)" "?key r0 < ?key r"
        using unique_row [OF d, of r0 r] assms(3) by (force simp: set_rows)+
      then show ?thesis using r0(2) by auto
    qed
    ultimately show ?thesis by blast
  qed
qed

text \<open>A message written at 10, claimed at 12 for a lease of 5.\<close>

definition w_row :: outbox_row where
  "w_row = \<lparr>ob_id = 0, ob_message_id = ''m'', ob_message_type = ''a.v1.B'', ob_schema_version = ''t/a.v1.B'',
     ob_aggregate_type = ''A'', ob_aggregate_id = ''a-1'', ob_aggregate_version = 1, ob_partition_key = ''a-1'',
     ob_destination = ''a.events.v1'', ob_payload = [1], ob_payload_hash = ''00'',
     ob_metadata = map_of [(''correlationid'', JString ''c''), (''causationid'', JString ''d''), (''traceparent'', JString ''e'')],
     ob_occurred_at = 10, ob_available_at = 10, ob_attempt_count = 0, ob_status = StatusPending, ob_locked_by = None,
     ob_locked_until = None, ob_published_at = None, ob_last_error = None\<rparr>"

definition w_written :: outbox_table where
  "w_written = fst (insert_outbox w_row outbox_empty)"

definition w_claimed :: outbox_table where
  "w_claimed = fst (Outbox_Claim (\<lambda>_. False) 12 ''relay'' 1 5 w_written)"

lemma w_row_storable: "texts_storable w_row" "metadata_storable (ob_metadata w_row)"
  by code_simp+

lemma w_written_eq: "w_written = \<lparr>ot_rows = [w_row\<lparr>ob_id := 1\<rparr>], ot_next = 2\<rparr>"
  by (simp add: w_written_def insert_outbox_def w_row_storable) (simp add: outbox_empty_def w_row_def)

lemma w_eligible: "eligible 12 (w_row\<lparr>ob_id := 1\<rparr>)"
  by (simp add: eligible_def w_row_def metadata_text_def)

lemma w_claim: "Outbox_Claim (\<lambda>_. False) 12 ''relay'' 1 5 w_written = (w_claimed, Ok [claim_row ''relay'' 17 (w_row\<lparr>ob_id := 1\<rparr>)])"
  by (simp add: w_claimed_def Outbox_Claim_def w_written_eq eligible_ids_def w_eligible Let_def claim_row_def wrap64_def)

lemma w_written_step: "outbox_step 10 [] outbox_empty w_written"
  unfolding w_written_def by (rule outbox_step.enqueued) (simp add: fresh_row_def w_row_def)

lemma w_claimed_step: "outbox_step 12 ''relay'' w_written w_claimed"
  unfolding w_claimed_def by (rule outbox_step.claimed)

lemma w_written_ok: "table_ok w_written"
  using step_table_ok [OF w_written_step outbox_empty_ok] .

theorem outbox_history_witness:
  "accounted w_written w_claimed (w_row\<lparr>ob_id := 1\<rparr>) \<and> outbox_row_ok (w_row\<lparr>ob_id := 1\<rparr>)"
proof -
  have 1: "outbox_steps outbox_empty w_written" using w_written_step by blast
  have 2: "outbox_steps w_written w_claimed" using w_claimed_step by blast
  show ?thesis using outbox_history [OF 1 2] by (simp add: w_written_eq)
qed

theorem claim_is_exclusive_witness:
  "snd (MarkPublished 14 1 ''other'' w_claimed) = Ok 0 \<and> snd (MarkPublished 14 1 ''relay'' w_claimed) = Ok 1"
  using claim_is_exclusive [OF w_written_ok w_claim, of "claim_row ''relay'' 17 (w_row\<lparr>ob_id := 1\<rparr>)" w_claimed 14]
  by (simp add: claim_row_def int64_def)

theorem claim_order_witness: "\<exists>r' \<in> {claim_row ''relay'' 17 (w_row\<lparr>ob_id := 1\<rparr>)}. same_message (w_row\<lparr>ob_id := 1\<rparr>) r'"
  using claim_order [OF w_written_ok w_claim, of "w_row\<lparr>ob_id := 1\<rparr>"] w_eligible by (auto simp: w_written_eq)

end
