(* ===== verification/App_Consumer.thy ===== *)
theory App_Consumer
  imports Contracts_Envelope Ports_Inbox Application_Idempotency Go_SHA256
begin

text \<open>
  The consumer adapter, \<^verbatim>\<open>libs/backend/go/app/consumer.go\<close> with \<open>discard.go\<close>, \<open>containment.go\<close>, the
  gestures of \<open>process.go\<close>, and \<^verbatim>\<open>contracts/payloadhash\<close>: steps 1, 2 and 7 of FND-04 6.3 around a handler.
  The handler, the containment and the broker's acknowledger act on a world and may panic, which the
  adapter recovers. Spans, metrics and logs are not modelled; the minted request id, the trace context of
  the process span and the readings of the clocks are arguments of \<open>Consume\<close>.
\<close>

section \<open>Collaborators\<close>

text \<open>What a call of code outside the adapter does: it returns or it panics with a value of some Go type.\<close>

datatype 'a ran = Returned 'a | Panics string

type_synonym 'w Quarantine = "carrier \<Rightarrow> Contained \<Rightarrow> 'w \<Rightarrow> 'w \<times> gerr option ran"

record 'w Acknowledger =
  ack_Ack :: "carrier \<Rightarrow> 'w \<Rightarrow> 'w \<times> gerr option ran"
  ack_Release :: "carrier \<Rightarrow> 'w \<Rightarrow> 'w \<times> gerr option ran"

type_synonym 'w Handler = "carrier \<Rightarrow> Receipt \<Rightarrow> Envelope \<Rightarrow> 'w \<Rightarrow> 'w \<times> (Disposition \<times> gerr option) ran"

datatype Transport = TransportUndeclared | TransportVerified | TransportDevelopmentOnly

record Boundary =
  bnd_Transport :: Transport
  bnd_Sources :: "string list"

definition Boundary_declared :: "Boundary \<Rightarrow> bool" where
  "Boundary_declared b \<longleftrightarrow>
     (bnd_Transport b = TransportVerified \<or> bnd_Transport b = TransportDevelopmentOnly) \<and> bnd_Sources b \<noteq> []"

definition Boundary_admits :: "Boundary \<Rightarrow> string \<Rightarrow> bool" where
  "Boundary_admits b source \<longleftrightarrow> source \<in> set (bnd_Sources b)"

record Delivery =
  dlv_Raw :: bytes
  dlv_Attempt :: int

record 'w Consumer =
  con_Name :: string
  con_MaxAttempts :: int
  con_Handle :: "'w Handler option"
  con_Accepts :: "string list"
  con_Containment :: "'w Quarantine option"
  con_Clock :: "('w \<Rightarrow> Instant) option"
  con_Timeout :: int
  con_Boundary :: Boundary
  con_Locale :: string
  con_Carries :: "string list"

record Consumed =
  csm_Disposition :: Disposition
  csm_Classified :: bool
  csm_Contained :: bool
  csm_Discarded :: bool
  csm_Reason :: Reason

definition consumed_zero :: Consumed where
  "consumed_zero = \<lparr>csm_Disposition = DispositionZero, csm_Classified = False, csm_Contained = False,
     csm_Discarded = False, csm_Reason = ReasonNone\<rparr>"

section \<open>Validation\<close>

definition Consumer_missing :: "'w Consumer \<Rightarrow> string" where
  "Consumer_missing c =
     (if con_Name c = [] then ''name''
      else if con_Handle c = None then ''handler''
      else if con_Containment c = None then ''containment''
      else if con_Clock c = None then ''clock''
      else if con_Timeout c \<le> 0 then ''timeout''
      else if \<not> Boundary_declared (con_Boundary c) then ''boundary''
      else if con_Locale c = [] then ''locale''
      else if con_Accepts c = [] then ''accepts''
      else if con_Carries c = [] then ''carries''
      else [])"

fun accepts_scan :: "string list \<Rightarrow> string list \<Rightarrow> string list \<Rightarrow> unit result" where
  "accepts_scan carries seen [] = Ok ()"
| "accepts_scan carries seen (accepted # rest) =
     (if accepted \<notin> set carries \<or> accepted \<in> set seen then FailWith ErrSubscriptionOutsideChannel accepted
      else accepts_scan carries (seen @ [accepted]) rest)"

definition Consumer_Validate :: "'w Consumer \<Rightarrow> unit result" where
  "Consumer_Validate c =
     (if Consumer_missing c \<noteq> [] then FailWith ErrIncompleteConsumer (Consumer_missing c)
      else accepts_scan (con_Carries c) [] (con_Accepts c))"

section \<open>Recovered calls\<close>

definition errPanicked :: gerr where
  "errPanicked = SharedFailure ErrPanicked Unexpected False"

text \<open>\<open>recoverInto\<close>: the panic of a gesture or of the containment becomes \<open>errPanicked\<close>.\<close>

fun recoverInto :: "gerr option ran \<Rightarrow> gerr option" where
  "recoverInto (Returned e) = e"
| "recoverInto (Panics goType) = Some (Panicked goType errPanicked)"

definition joinPanicFirst :: "gerr option \<Rightarrow> gerr option \<Rightarrow> gerr option" where
  "joinPanicFirst cause err =
     (if (case err of None \<Rightarrow> False | Some e \<Rightarrow> errors_Is e ErrPanicked) then errors_Join [err, cause]
      else errors_Join [cause, err])"

text \<open>The handler's panic becomes a failure of its own, classified like any other.\<close>

fun handled :: "(Disposition \<times> gerr option) ran \<Rightarrow> Disposition \<times> gerr option" where
  "handled (Returned r) = r"
| "handled (Panics goType) =
     (let e = Panicked goType (NewFailure Unexpected False None) in (classify_err e, Some e))"

section \<open>Containment\<close>

datatype Mechanism = MechanismQuarantine | MechanismDeadLetter

definition MechanismFor :: "Reason \<Rightarrow> Mechanism option" where
  "MechanismFor reason = (case reason of ReasonNone \<Rightarrow> None | _ \<Rightarrow> Some MechanismQuarantine)"

definition quarantine :: "'w Consumer \<Rightarrow> carrier \<Rightarrow> Contained \<Rightarrow> 'w \<Rightarrow> 'w \<times> gerr option" where
  "quarantine c ctx item w =
     (case con_Containment c of
        None \<Rightarrow> (w, Some (Panicked ''runtime.errorString'' errPanicked))
      | Some keep \<Rightarrow> (case keep ctx item w of (w', r) \<Rightarrow> (w', recoverInto r)))"

definition gesture :: "(carrier \<Rightarrow> 'w \<Rightarrow> 'w \<times> gerr option ran) \<Rightarrow> carrier \<Rightarrow> 'w \<Rightarrow> 'w \<times> gerr option" where
  "gesture act ctx w = (case act ctx w of (w', r) \<Rightarrow> (w', recoverInto r))"

definition contain :: "'w Consumer \<Rightarrow> carrier \<Rightarrow> 'w Acknowledger \<Rightarrow> Consumed \<Rightarrow> Contained \<Rightarrow> gerr option \<Rightarrow> 'w \<Rightarrow>
    'w \<times> Consumed \<times> gerr option" where
  "contain c ctx ack outcome item cause w =
     (if MechanismFor (ctd_Reason item) \<noteq> Some MechanismQuarantine
      then (w, outcome, errors_Join [cause, Some (Sentinel ErrUnsupportedMechanism)])
      else (case quarantine c ctx item w of
          (w1, Some err) \<Rightarrow> (w1, outcome, joinPanicFirst cause (Some err))
        | (w1, None) \<Rightarrow>
            (case gesture (ack_Ack ack) ctx w1 of
               (w2, err) \<Rightarrow> (w2, outcome\<lparr>csm_Contained := True\<rparr>, joinPanicFirst cause err))))"

definition discard :: "carrier \<Rightarrow> 'w Acknowledger \<Rightarrow> 'w \<Rightarrow> 'w \<times> Consumed \<times> gerr option" where
  "discard ctx ack w =
     (case gesture (ack_Ack ack) ctx w of
        (w1, Some err) \<Rightarrow> (w1, consumed_zero, Some err)
      | (w1, None) \<Rightarrow> (w1, consumed_zero\<lparr>csm_Discarded := True\<rparr>, None))"

fun Category_String :: "Category \<Rightarrow> string" where
  "Category_String Validation = ''Validation''"
| "Category_String DomainRejection = ''DomainRejection''"
| "Category_String NotFound = ''NotFound''"
| "Category_String Conflict = ''Conflict''"
| "Category_String Forbidden = ''Forbidden''"
| "Category_String Unauthenticated = ''Unauthenticated''"
| "Category_String TransientDependency = ''TransientDependency''"
| "Category_String RateLimited = ''RateLimited''"
| "Category_String DeadlineExceededCategory = ''DeadlineExceeded''"
| "Category_String Cancelled = ''Cancelled''"
| "Category_String Unexpected = ''Unexpected''"

text \<open>The multiplication sign of the notation is the two bytes of its UTF-8 encoding.\<close>

fun Disposition_String :: "Disposition \<Rightarrow> string" where
  "Disposition_String R1D1 = ''R1'' @ [CHR 0xC3, CHR 0x97] @ ''D1''"
| "Disposition_String R1D2 = ''R1'' @ [CHR 0xC3, CHR 0x97] @ ''D2''"
| "Disposition_String R1D3 = ''R1'' @ [CHR 0xC3, CHR 0x97] @ ''D3''"
| "Disposition_String R1D4 = ''R1'' @ [CHR 0xC3, CHR 0x97] @ ''D4''"
| "Disposition_String R2 = ''R2''"
| "Disposition_String R3 = ''R3''"
| "Disposition_String R4 = ''R4''"
| "Disposition_String DispositionZero = ''invalid''"

definition sanitizedError :: "Disposition \<Rightarrow> gerr option \<Rightarrow> string" where
  "sanitizedError disposition cause =
     (case cause of
        None \<Rightarrow> Disposition_String disposition
      | Some e \<Rightarrow> (case errors_As as_Failure e of
          Some (category, _) \<Rightarrow> Category_String category
        | None \<Rightarrow> Disposition_String disposition))"

text \<open>
  \<open>sanitizedEnvelopeError\<close> keeps the text of the package's own errors and drops the wire decoder's;
  the text itself is the argument \<open>text_of\<close>, the rendering of errors not being modelled.
\<close>

definition sanitizedEnvelopeError :: "(gerr \<Rightarrow> string) \<Rightarrow> gerr \<Rightarrow> string" where
  "sanitizedEnvelopeError text_of err =
     (if errors_Is err ErrMalformed then ''envelope: raw bytes do not decode as a CloudEvent'' else text_of err)"

section \<open>Consumption\<close>

text \<open>\<open>payloadhash.Sum\<close>.\<close>

definition payload_hash :: "bytes \<Rightarrow> string" where
  "payload_hash anyValue = hex_bytes (Sum256 anyValue)"

text \<open>What the attempt reads around it: the minted request id, the propagated trace of the process span,
  the wall clock and the deadline of the caller's context.\<close>

record attempt_env =
  at_RequestID :: string
  at_Traceparent :: string
  at_Tracestate :: string
  at_Wall :: int
  at_Deadline :: "int option"

definition handle_deadline :: "'w Consumer \<Rightarrow> attempt_env \<Rightarrow> int" where
  "handle_deadline c env =
     (case at_Deadline env of
        None \<Rightarrow> at_Wall env + con_Timeout c
      | Some d \<Rightarrow> min d (at_Wall env + con_Timeout c))"

definition executionOf :: "'w Consumer \<Rightarrow> attempt_env \<Rightarrow> Envelope \<Rightarrow> ExecutionContext result" where
  "executionOf c env e =
     NewExecutionContext \<lparr>spec_RequestID = at_RequestID env, spec_CorrelationID = env_CorrelationID e,
       spec_CausationID = (if env_CausationID e \<noteq> [] then Some (env_CausationID e) else None),
       spec_TraceContext = env_TraceParent e, spec_Subject = None, spec_Tenant = env_TenantID e,
       spec_Permissions = None, spec_Deadline = wrap64 (handle_deadline c env), spec_Locale = con_Locale c\<rparr>"

definition receiptOf :: "'w Consumer \<Rightarrow> Envelope \<Rightarrow> Instant \<Rightarrow> Receipt" where
  "receiptOf c e now = \<lparr>rcp_Consumer = con_Name c, rcp_MessageID = env_ID e, rcp_MessageType = env_Type e,
     rcp_PayloadHash = payload_hash (env_Payload e), rcp_ReceivedAt = now, rcp_WaitUntil = 0, rcp_ExpiresAt = 0\<rparr>"

definition contained_item :: "Receipt \<Rightarrow> bytes \<Rightarrow> Reason \<Rightarrow> string \<Rightarrow> Contained" where
  "contained_item receipt raw reason err = \<lparr>ctd_Consumer = rcp_Consumer receipt, ctd_MessageID = rcp_MessageID receipt,
     ctd_Reason = reason, ctd_Envelope = raw, ctd_Error = err, ctd_At = rcp_ReceivedAt receipt\<rparr>"

definition clock_now :: "'w Consumer \<Rightarrow> 'w \<Rightarrow> Instant" where
  "clock_now c w = (case con_Clock c of None \<Rightarrow> 0 | Some now \<Rightarrow> now w)"

definition settle_disposition :: "'w Consumer \<Rightarrow> carrier \<Rightarrow> Delivery \<Rightarrow> 'w Acknowledger \<Rightarrow> Receipt \<Rightarrow>
    Disposition \<Rightarrow> gerr option \<Rightarrow> 'w \<Rightarrow> 'w \<times> Consumed \<times> gerr option" where
  "settle_disposition c ctx d ack receipt disposition handleErr w =
     (let outcome = consumed_zero\<lparr>csm_Disposition := disposition, csm_Classified := True\<rparr>;
          keep = (\<lambda>reason. contain c ctx ack (outcome\<lparr>csm_Reason := reason\<rparr>)
            (contained_item receipt (dlv_Raw d) reason (sanitizedError disposition handleErr)) handleErr w);
          confirm = (\<lambda>act. case gesture act ctx w of (w1, err) \<Rightarrow> (w1, outcome, joinPanicFirst handleErr err)) in
      case disposition of
        R1D3 \<Rightarrow>
          if con_MaxAttempts c > 0 \<and> dlv_Attempt d \<ge> con_MaxAttempts c then keep ReasonAttemptsExhausted
          else confirm (ack_Release ack)
      | R1D4 \<Rightarrow> keep ReasonTerminalFailure
      | R4 \<Rightarrow> keep ReasonCollision
      | DispositionZero \<Rightarrow> (w, consumed_zero, errors_Join [handleErr, Some (Sentinel ErrUnknownDisposition)])
      | _ \<Rightarrow> confirm (ack_Ack ack))"

definition admitted :: "'w Consumer \<Rightarrow> carrier \<Rightarrow> attempt_env \<Rightarrow> Delivery \<Rightarrow> Envelope \<Rightarrow> 'w Acknowledger \<Rightarrow> 'w \<Rightarrow>
    'w \<times> Consumed \<times> gerr option" where
  "admitted c ctx env d e ack w =
     (let receipt = receiptOf c e (clock_now c w);
          ctx1 = WithMessageContext ctx \<lparr>mc_CorrelationID = env_CorrelationID e, mc_CausationID = env_ID e,
            mc_Traceparent = at_Traceparent env, mc_Tracestate = at_Tracestate env\<rparr> in
      case (executionOf c env e, con_Handle c) of
        (Ok execution, Some handle) \<Rightarrow>
          (case handle (WithExecutionContext ctx1 execution) receipt e w of
             (w1, r) \<Rightarrow> (case handled r of (disposition, handleErr) \<Rightarrow>
               settle_disposition c ctx1 d ack receipt disposition handleErr w1))
      | _ \<Rightarrow> contain c ctx1 ack (consumed_zero\<lparr>csm_Reason := ReasonInvalidEnvelope\<rparr>)
               (contained_item receipt (dlv_Raw d) ReasonInvalidEnvelope ''app: the envelope produced no execution context'')
               None w)"

definition refuse :: "'w Consumer \<Rightarrow> carrier \<Rightarrow> Delivery \<Rightarrow> MessageID \<Rightarrow> 'w Acknowledger \<Rightarrow> Reason \<Rightarrow> string \<Rightarrow> 'w \<Rightarrow>
    'w \<times> Consumed \<times> gerr option" where
  "refuse c ctx d message ack reason cause w =
     contain c ctx ack (consumed_zero\<lparr>csm_Reason := reason\<rparr>)
       \<lparr>ctd_Consumer = con_Name c, ctd_MessageID = message, ctd_Reason = reason, ctd_Envelope = dlv_Raw d,
         ctd_Error = cause, ctd_At = clock_now c w\<rparr> None w"

definition Consume :: "(bytes \<Rightarrow> CloudEvent result) \<Rightarrow> (gerr \<Rightarrow> string) \<Rightarrow> 'w Consumer \<Rightarrow> carrier \<Rightarrow> attempt_env \<Rightarrow>
    Delivery \<Rightarrow> 'w Acknowledger \<Rightarrow> 'w \<Rightarrow> 'w \<times> Consumed \<times> gerr option" where
  "Consume proto_Unmarshal text_of c ctx env d ack w =
     (case Consumer_Validate c of
        Err err \<Rightarrow> (w, consumed_zero, Some err)
      | Panic m \<Rightarrow> (w, consumed_zero, None)
      | Ok _ \<Rightarrow>
          (case Unmarshal proto_Unmarshal (dlv_Raw d) of
             Err err \<Rightarrow> refuse c ctx d [] ack ReasonInvalidEnvelope (sanitizedEnvelopeError text_of err) w
           | Panic m \<Rightarrow> (w, consumed_zero, None)
           | Ok e \<Rightarrow>
               if \<not> Boundary_admits (con_Boundary c) (env_Source e)
               then refuse c ctx d (env_ID e) ack ReasonUntrustedBoundary ''app: source outside the trusted boundary'' w
               else if env_Type e \<notin> set (con_Carries c)
               then refuse c ctx d (env_ID e) ack ReasonUndeclaredType ''app: type outside the channel's declared set'' w
               else if env_Type e \<notin> set (con_Accepts c) then discard ctx ack w
               else admitted c ctx env d e ack w))"

section \<open>The protocol with the broker\<close>

text \<open>What a run does outside the adapter, with the answer it got: \<open>trace_consumer\<close> and \<open>trace_ack\<close> append
  it to the world.\<close>

datatype act =
    Handled Disposition "gerr option" | Quarantined Contained "gerr option" | Acked "gerr option" | Released "gerr option"

type_synonym 'w trace_world = "'w \<times> act list"

definition log_act :: "('b \<Rightarrow> act) \<Rightarrow> ('w \<Rightarrow> 'w \<times> 'b) \<Rightarrow> 'w trace_world \<Rightarrow> 'w trace_world \<times> 'b" where
  "log_act name f s = (case f (fst s) of (w, r) \<Rightarrow> ((w, snd s @ [name r]), r))"

definition trace_consumer :: "'w Consumer \<Rightarrow> 'w trace_world Consumer" where
  "trace_consumer c = \<lparr>con_Name = con_Name c, con_MaxAttempts = con_MaxAttempts c,
     con_Handle = map_option (\<lambda>h ctx r e. log_act (\<lambda>x. Handled (fst (handled x)) (snd (handled x))) (h ctx r e)) (con_Handle c),
     con_Accepts = con_Accepts c,
     con_Containment = map_option (\<lambda>keep ctx item. log_act (\<lambda>x. Quarantined item (recoverInto x)) (keep ctx item)) (con_Containment c),
     con_Clock = map_option (\<lambda>now s. now (fst s)) (con_Clock c), con_Timeout = con_Timeout c,
     con_Boundary = con_Boundary c, con_Locale = con_Locale c, con_Carries = con_Carries c\<rparr>"

definition trace_ack :: "'w Acknowledger \<Rightarrow> 'w trace_world Acknowledger" where
  "trace_ack a = \<lparr>ack_Ack = (\<lambda>ctx. log_act (\<lambda>x. Acked (recoverInto x)) (ack_Ack a ctx)),
     ack_Release = (\<lambda>ctx. log_act (\<lambda>x. Released (recoverInto x)) (ack_Release a ctx))\<rparr>"

text \<open>The dispositions that confirm, and those that remove the message from the flow on this delivery.\<close>

definition confirms :: "Disposition \<Rightarrow> bool" where
  "confirms D \<longleftrightarrow> D \<in> {R1D1, R1D2, R2, R3}"

definition spent :: "'w Consumer \<Rightarrow> Delivery \<Rightarrow> bool" where
  "spent c d \<longleftrightarrow> con_MaxAttempts c > 0 \<and> dlv_Attempt d \<ge> con_MaxAttempts c"

definition removes :: "'w Consumer \<Rightarrow> Delivery \<Rightarrow> Disposition \<Rightarrow> bool" where
  "removes c d D \<longleftrightarrow> D \<in> {R1D4, R4} \<or> D = R1D3 \<and> spent c d"

text \<open>A quarantined item is the message as delivered, under the consumer's name.\<close>

definition keeps :: "'w Consumer \<Rightarrow> Delivery \<Rightarrow> Contained \<Rightarrow> bool" where
  "keeps c d item \<longleftrightarrow> ctd_Envelope item = dlv_Raw d \<and> ctd_Consumer item = con_Name c \<and> ctd_Reason item \<noteq> ReasonNone"

definition confirmed :: "act list \<Rightarrow> bool" where
  "confirmed acts \<longleftrightarrow> (case acts of [Acked r] \<Rightarrow> True | _ \<Rightarrow> False)"

definition released :: "act list \<Rightarrow> bool" where
  "released acts \<longleftrightarrow> (case acts of [Released r] \<Rightarrow> True | _ \<Rightarrow> False)"

definition kept_aside :: "'w Consumer \<Rightarrow> Delivery \<Rightarrow> Consumed \<Rightarrow> act list \<Rightarrow> bool" where
  "kept_aside c d out acts \<longleftrightarrow>
     (case acts of
        Quarantined item answer # rest \<Rightarrow>
          keeps c d item \<and> csm_Contained out = (answer = None) \<and>
          (if answer = None then confirmed rest else rest = [])
      | _ \<Rightarrow> False)"

text \<open>
  What may follow the handler: a disposition that confirms is acknowledged; one that removes the message is
  quarantined, then acknowledged if that succeeded; a technical failure to retry is released; nothing is done
  on a value outside the seven. Without a handler, the message is quarantined the same way, or discarded.
\<close>

definition protocol :: "'w Consumer \<Rightarrow> Delivery \<Rightarrow> Consumed \<Rightarrow> act list \<Rightarrow> bool" where
  "protocol c d out acts \<longleftrightarrow>
     (case acts of
        [] \<Rightarrow> out = consumed_zero
      | Acked r # rest \<Rightarrow> rest = [] \<and> out = consumed_zero\<lparr>csm_Discarded := (r = None)\<rparr>
      | Released r # rest \<Rightarrow> False
      | Quarantined item answer # rest \<Rightarrow> \<not> csm_Classified out \<and> kept_aside c d out acts
      | Handled D h # rest \<Rightarrow>
          if D = DispositionZero then rest = [] \<and> out = consumed_zero
          else csm_Disposition out = D \<and>
            (if confirms D then confirmed rest \<and> \<not> csm_Contained out
             else if removes c d D then kept_aside c d out rest
             else D = R1D3 \<and> released rest \<and> \<not> csm_Contained out))"

text \<open>
  How a delivery is addressed: the handler runs only for a carried type the consumer accepts, from inside the boundary; the
  only message discarded is one of a carried type it does not accept; what is quarantined without the handler has the
  reason of its defect; nothing at all happens only when the consumer is not valid or the decoder panicked.
\<close>

definition admitted_type :: "'w Consumer \<Rightarrow> Envelope \<Rightarrow> bool" where
  "admitted_type c e \<longleftrightarrow> Boundary_admits (con_Boundary c) (env_Source e) \<and> env_Type e \<in> set (con_Carries c)"

definition defect :: "(bytes \<Rightarrow> CloudEvent result) \<Rightarrow> 'w Consumer \<Rightarrow> Delivery \<Rightarrow> Reason" where
  "defect proto_Unmarshal c d =
     (case Unmarshal proto_Unmarshal (dlv_Raw d) of
        Ok e \<Rightarrow> if \<not> Boundary_admits (con_Boundary c) (env_Source e) then ReasonUntrustedBoundary
          else if env_Type e \<notin> set (con_Carries c) then ReasonUndeclaredType else ReasonInvalidEnvelope
      | _ \<Rightarrow> ReasonInvalidEnvelope)"

definition addressed :: "(bytes \<Rightarrow> CloudEvent result) \<Rightarrow> 'w Consumer \<Rightarrow> Delivery \<Rightarrow> act list \<Rightarrow> bool" where
  "addressed proto_Unmarshal c d acts \<longleftrightarrow>
     (case acts of
        [] \<Rightarrow> Consumer_Validate c \<noteq> Ok () \<or> (\<exists>m. Unmarshal proto_Unmarshal (dlv_Raw d) = Panic m)
      | Handled _ _ # _ \<Rightarrow> \<exists>e. Unmarshal proto_Unmarshal (dlv_Raw d) = Ok e \<and> admitted_type c e \<and> env_Type e \<in> set (con_Accepts c)
      | Acked _ # _ \<Rightarrow> \<exists>e. Unmarshal proto_Unmarshal (dlv_Raw d) = Ok e \<and> admitted_type c e \<and> env_Type e \<notin> set (con_Accepts c)
      | Quarantined item _ # _ \<Rightarrow> ctd_Reason item = defect proto_Unmarshal c d \<and>
          (\<forall>e. Unmarshal proto_Unmarshal (dlv_Raw d) = Ok e \<longrightarrow> admitted_type c e \<longrightarrow> env_Type e \<in> set (con_Accepts c))
      | Released _ # _ \<Rightarrow> False)"

lemma confirms_removes [simp]: "removes c d D \<Longrightarrow> \<not> confirms D" "\<not> confirms DispositionZero" "\<not> removes c d DispositionZero" "\<not> confirms R1D3"
  by (auto simp: removes_def confirms_def)

lemma acked [simp]: "confirmed [Acked r]" "released [Released r]"
  by (simp_all add: confirmed_def released_def)

lemma gesture_traced:
  "gesture (ack_Ack (trace_ack a)) ctx (w, tr) =
     (case gesture (ack_Ack a) ctx w of (w', r) \<Rightarrow> ((w', tr @ [Acked r]), r))"
  "gesture (ack_Release (trace_ack a)) ctx (w, tr) =
     (case gesture (ack_Release a) ctx w of (w', r) \<Rightarrow> ((w', tr @ [Released r]), r))"
  by (auto simp: gesture_def trace_ack_def log_act_def split: prod.splits)

lemma quarantine_traced:
  "con_Containment c \<noteq> None \<Longrightarrow> quarantine (trace_consumer c) ctx item (w, tr) =
     (case quarantine c ctx item w of (w', r) \<Rightarrow> ((w', tr @ [Quarantined item r]), r))"
  by (auto simp: quarantine_def trace_consumer_def log_act_def split: prod.splits)

lemma trace_consumer_simps [simp]:
  "con_Name (trace_consumer c) = con_Name c" "con_MaxAttempts (trace_consumer c) = con_MaxAttempts c"
  "con_Accepts (trace_consumer c) = con_Accepts c" "con_Timeout (trace_consumer c) = con_Timeout c"
  "con_Boundary (trace_consumer c) = con_Boundary c" "con_Locale (trace_consumer c) = con_Locale c"
  "con_Carries (trace_consumer c) = con_Carries c" "clock_now (trace_consumer c) (w, tr) = clock_now c w"
  "Consumer_Validate (trace_consumer c) = Consumer_Validate c"
  "executionOf (trace_consumer c) env e = executionOf c env e"
  "receiptOf (trace_consumer c) e now = receiptOf c e now"
  by (simp_all add: trace_consumer_def clock_now_def Consumer_Validate_def Consumer_missing_def executionOf_def
      handle_deadline_def receiptOf_def split: option.splits)

text \<open>Containing: the quarantine, and the acknowledgement only when it succeeded.\<close>

lemma contain_traced:
  assumes "con_Containment c \<noteq> None" and "ctd_Reason item \<noteq> ReasonNone" and "keeps c d item" and "\<not> csm_Contained outcome"
  obtains w' acts contained cause' where
    "contain c ctx ack outcome item cause w = (w', outcome\<lparr>csm_Contained := contained\<rparr>, cause')"
    "contain (trace_consumer c) ctx (trace_ack ack) outcome item cause (w, tr) =
       ((w', tr @ acts), outcome\<lparr>csm_Contained := contained\<rparr>, cause')"
    "kept_aside c d (outcome\<lparr>csm_Contained := contained\<rparr>) acts" "\<exists>answer rest. acts = Quarantined item answer # rest"
proof -
  have m: "MechanismFor (ctd_Reason item) = Some MechanismQuarantine"
    using assms(2) by (auto simp: MechanismFor_def split: Reason.splits)
  obtain w1 q where q: "quarantine c ctx item w = (w1, q)" by fastforce
  show ?thesis
  proof (cases q)
    case None
    obtain w2 r where "gesture (ack_Ack ack) ctx w1 = (w2, r)" by fastforce
    then show ?thesis using None m q quarantine_traced [OF assms(1), of ctx item w tr] assms(3)
      by (intro that [of w2 True _ "[Quarantined item None, Acked r]"]) (simp_all add: contain_def gesture_traced kept_aside_def)
  next
    case (Some err)
    moreover have "outcome\<lparr>csm_Contained := False\<rparr> = outcome" using assms(4) by (cases outcome) simp
    ultimately show ?thesis using m q quarantine_traced [OF assms(1), of ctx item w tr] assms(3,4)
      by (intro that [of w1 False _ "[Quarantined item (Some err)]"]) (simp_all add: contain_def kept_aside_def)
  qed
qed

definition reason_for :: "Disposition \<Rightarrow> Reason" where
  "reason_for D = (case D of R1D3 \<Rightarrow> ReasonAttemptsExhausted | R1D4 \<Rightarrow> ReasonTerminalFailure | _ \<Rightarrow> ReasonCollision)"

definition classified :: "Disposition \<Rightarrow> Consumed" where
  "classified D = consumed_zero\<lparr>csm_Disposition := D, csm_Classified := True\<rparr>"

lemma settle_confirms:
  "confirms D \<Longrightarrow> settle_disposition c ctx d ack receipt D h w =
     (case gesture (ack_Ack ack) ctx w of (w1, err) \<Rightarrow> (w1, classified D, joinPanicFirst h err))"
  by (auto simp: confirms_def settle_disposition_def classified_def)

lemma settle_releases:
  "\<not> spent c d \<Longrightarrow> settle_disposition c ctx d ack receipt R1D3 h w =
     (case gesture (ack_Release ack) ctx w of (w1, err) \<Rightarrow> (w1, classified R1D3, joinPanicFirst h err))"
  by (auto simp: spent_def settle_disposition_def classified_def)

lemma settle_removes:
  "removes c d D \<Longrightarrow> settle_disposition c ctx d ack receipt D h w =
     contain c ctx ack ((classified D)\<lparr>csm_Reason := reason_for D\<rparr>)
       (contained_item receipt (dlv_Raw d) (reason_for D) (sanitizedError D h)) h w"
  by (auto simp: removes_def spent_def settle_disposition_def classified_def reason_for_def)

lemma disposition_kinds:
  obtains "D = DispositionZero" | "confirms D" | "D = R1D3" "\<not> spent c d" | "removes c d D"
  by (cases D) (auto simp: confirms_def removes_def)

lemma traced_kinds [simp]: "spent (trace_consumer c) d = spent c d" "removes (trace_consumer c) d D = removes c d D"
  by (simp_all add: spent_def removes_def)

lemma classified_simps [simp]:
  "csm_Disposition (classified D) = D" "csm_Contained (classified D) = False" "csm_Classified (classified D) = True"
  by (simp_all add: classified_def consumed_zero_def)

lemma settle_traced:
  assumes "con_Containment c \<noteq> None" and "rcp_Consumer receipt = con_Name c"
  shows "\<exists>w' acts out err. settle_disposition c ctx d ack receipt D h w = (w', out, err) \<and>
    settle_disposition (trace_consumer c) ctx d (trace_ack ack) receipt D h (w, [Handled D h]) = ((w', Handled D h # acts), out, err) \<and>
    protocol c d out (Handled D h # acts)"
proof (rule disposition_kinds [where D = D and c = c and d = d])
  assume "D = DispositionZero"
  then show ?thesis by (intro exI [of _ w] exI [of _ "[]"]) (simp add: settle_disposition_def protocol_def)
next
  assume D: "confirms D"
  obtain w' r where "gesture (ack_Ack ack) ctx w = (w', r)" by fastforce
  with D show ?thesis
    by (intro exI [of _ w'] exI [of _ "[Acked r]"]) (auto simp: settle_confirms gesture_traced protocol_def)
next
  assume D: "D = R1D3" "\<not> spent c d"
  obtain w' r where "gesture (ack_Release ack) ctx w = (w', r)" by fastforce
  with D show ?thesis
    by (intro exI [of _ w'] exI [of _ "[Released r]"])
      (simp add: settle_releases gesture_traced protocol_def removes_def)
next
  assume D: "removes c d D"
  let ?item = "contained_item receipt (dlv_Raw d) (reason_for D) (sanitizedError D h)"
  have k: "ctd_Reason ?item \<noteq> ReasonNone" "keeps c d ?item"
    using assms(2) by (auto simp: contained_item_def keeps_def reason_for_def split: Disposition.splits)
  obtain w' acts contained cause' where
    "contain c ctx ack ((classified D)\<lparr>csm_Reason := reason_for D\<rparr>) ?item h w =
       (w', (classified D)\<lparr>csm_Reason := reason_for D, csm_Contained := contained\<rparr>, cause')"
    "contain (trace_consumer c) ctx (trace_ack ack) ((classified D)\<lparr>csm_Reason := reason_for D\<rparr>) ?item h (w, [Handled D h]) =
       ((w', [Handled D h] @ acts), (classified D)\<lparr>csm_Reason := reason_for D, csm_Contained := contained\<rparr>, cause')"
    "kept_aside c d ((classified D)\<lparr>csm_Reason := reason_for D, csm_Contained := contained\<rparr>) acts"
    by (rule contain_traced [OF assms(1) k, of "(classified D)\<lparr>csm_Reason := reason_for D\<rparr>" ctx ack h w "[Handled D h]"]) auto
  moreover have "D \<noteq> DispositionZero" using D by auto
  ultimately show ?thesis using D
    by (intro exI [of _ w'] exI [of _ acts]) (simp add: settle_removes protocol_def)
qed

lemma Validate_collaborators:
  assumes "Consumer_Validate c = Ok ()"
  shows "con_Containment c \<noteq> None" "con_Handle c \<noteq> None" "con_Timeout c > 0" "con_Locale c \<noteq> []"
  using assms by (auto simp: Consumer_Validate_def Consumer_missing_def split: if_splits)

lemma refuse_traced:
  assumes "con_Containment c \<noteq> None" and "reason \<noteq> ReasonNone"
  shows "\<exists>w' acts out err. refuse c ctx d message ack reason cause w = (w', out, err) \<and>
    refuse (trace_consumer c) ctx d message (trace_ack ack) reason cause (w, []) = ((w', acts), out, err) \<and> protocol c d out acts \<and>
    (\<exists>item answer rest. acts = Quarantined item answer # rest \<and> ctd_Reason item = reason)"
proof -
  let ?item = "\<lparr>ctd_Consumer = con_Name c, ctd_MessageID = message, ctd_Reason = reason, ctd_Envelope = dlv_Raw d,
         ctd_Error = cause, ctd_At = clock_now c w\<rparr>"
  have k: "ctd_Reason ?item \<noteq> ReasonNone" "keeps c d ?item" using assms(2) by (simp_all add: keeps_def)
  show ?thesis
    by (rule contain_traced [OF assms(1) k, of "consumed_zero\<lparr>csm_Reason := reason\<rparr>" ctx ack None w "[]"])
      (auto simp: refuse_def protocol_def consumed_zero_def)
qed

lemma admitted_traced:
  assumes "Consumer_Validate c = Ok ()"
  shows "\<exists>w' acts out err. admitted c ctx env d e ack w = (w', out, err) \<and>
    admitted (trace_consumer c) ctx env d e (trace_ack ack) (w, []) = ((w', acts), out, err) \<and> protocol c d out acts \<and>
    ((\<exists>D h rest. acts = Handled D h # rest) \<or>
     (\<exists>item answer rest. acts = Quarantined item answer # rest \<and> ctd_Reason item = ReasonInvalidEnvelope))"
proof -
  note valid = Validate_collaborators [OF assms]
  define receipt where "receipt = receiptOf c e (clock_now c w)"
  define ctx1 where "ctx1 = WithMessageContext ctx \<lparr>mc_CorrelationID = env_CorrelationID e, mc_CausationID = env_ID e,
    mc_Traceparent = at_Traceparent env, mc_Tracestate = at_Tracestate env\<rparr>"
  obtain handle where handle: "con_Handle c = Some handle" using valid(2) by auto
  have consumer: "rcp_Consumer receipt = con_Name c" by (simp add: receipt_def receiptOf_def)
  show ?thesis
  proof (cases "\<exists>execution. executionOf c env e = Ok execution")
    case True
    then obtain execution where x: "executionOf c env e = Ok execution" ..
    obtain w1 r where h: "handle (WithExecutionContext ctx1 execution) receipt e w = (w1, r)" by fastforce
    obtain D err where D: "handled r = (D, err)" by fastforce
    have th: "con_Handle (trace_consumer c) = Some (\<lambda>ctx r e. log_act (\<lambda>x. Handled (fst (handled x)) (snd (handled x))) (handle ctx r e))"
      by (simp add: trace_consumer_def handle)
    have "admitted c ctx env d e ack w = settle_disposition c ctx1 d ack receipt D err w1"
      by (simp add: admitted_def x handle h D flip: receipt_def ctx1_def)
    moreover have "admitted (trace_consumer c) ctx env d e (trace_ack ack) (w, []) =
        settle_disposition (trace_consumer c) ctx1 d (trace_ack ack) receipt D err (w1, [Handled D err])"
      by (simp add: admitted_def x th h D log_act_def flip: receipt_def ctx1_def)
    ultimately show ?thesis using settle_traced [OF valid(1) consumer, of ctx1 d ack D err w1] by auto
  next
    case False
    let ?item = "contained_item receipt (dlv_Raw d) ReasonInvalidEnvelope ''app: the envelope produced no execution context''"
    have k: "ctd_Reason ?item \<noteq> ReasonNone" "keeps c d ?item" "ctd_Reason ?item = ReasonInvalidEnvelope"
      using consumer by (simp_all add: contained_item_def keeps_def)
    have plain: "admitted c ctx env d e ack w = contain c ctx1 ack (consumed_zero\<lparr>csm_Reason := ReasonInvalidEnvelope\<rparr>) ?item None w"
      using False by (simp add: admitted_def flip: receipt_def ctx1_def split: res.splits)
    have traced: "admitted (trace_consumer c) ctx env d e (trace_ack ack) (w, []) =
        contain (trace_consumer c) ctx1 (trace_ack ack) (consumed_zero\<lparr>csm_Reason := ReasonInvalidEnvelope\<rparr>) ?item None (w, [])"
      using False by (simp add: admitted_def flip: receipt_def ctx1_def split: res.splits)
    show ?thesis
      by (rule contain_traced [OF valid(1) k(1,2), of "consumed_zero\<lparr>csm_Reason := ReasonInvalidEnvelope\<rparr>" ctx1 ack None w "[]"])
        (use k(3) in \<open>auto simp: plain traced protocol_def consumed_zero_def\<close>)
  qed
qed

lemma Consume_traced:
  "\<exists>w' acts out err. Consume proto_Unmarshal text_of c ctx env d ack w = (w', out, err) \<and>
     Consume proto_Unmarshal text_of (trace_consumer c) ctx env d (trace_ack ack) (w, []) = ((w', acts), out, err) \<and>
     protocol c d out acts \<and> addressed proto_Unmarshal c d acts"
proof (cases "Consumer_Validate c")
  case (Ok u)
  then have valid: "Consumer_Validate c = Ok ()" by simp
  note parts = Validate_collaborators [OF valid]
  show ?thesis
  proof (cases "Unmarshal proto_Unmarshal (dlv_Raw d)")
    case (Err err)
    have "ReasonInvalidEnvelope \<noteq> ReasonNone" by simp
    from Err refuse_traced [OF parts(1) this, of ctx d "[]" ack "sanitizedEnvelopeError text_of err" w]
    show ?thesis using Err by (fastforce simp: Consume_def valid addressed_def defect_def)
  next
    case (Panic m)
    then show ?thesis by (simp add: Consume_def valid protocol_def addressed_def)
  next
    case e: (Ok e)
    consider "\<not> Boundary_admits (con_Boundary c) (env_Source e)"
      | "Boundary_admits (con_Boundary c) (env_Source e)" "env_Type e \<notin> set (con_Carries c)"
      | "Boundary_admits (con_Boundary c) (env_Source e)" "env_Type e \<in> set (con_Carries c)" "env_Type e \<notin> set (con_Accepts c)"
      | "Boundary_admits (con_Boundary c) (env_Source e)" "env_Type e \<in> set (con_Carries c)" "env_Type e \<in> set (con_Accepts c)"
      by blast
    then show ?thesis
    proof cases
      case 1
      have "ReasonUntrustedBoundary \<noteq> ReasonNone" by simp
      from 1 refuse_traced [OF parts(1) this, of ctx d "env_ID e" ack "''app: source outside the trusted boundary''" w]
      show ?thesis using 1 by (fastforce simp: Consume_def valid e addressed_def defect_def admitted_type_def)
    next
      case 2
      have "ReasonUndeclaredType \<noteq> ReasonNone" by simp
      from 2 refuse_traced [OF parts(1) this, of ctx d "env_ID e" ack "''app: type outside the channel's declared set''" w]
      show ?thesis using 2 by (fastforce simp: Consume_def valid e addressed_def defect_def admitted_type_def)
    next
      case 3
      obtain w' r where "gesture (ack_Ack ack) ctx w = (w', r)" by fastforce
      with 3 show ?thesis
        by (cases r) (simp_all add: Consume_def valid e discard_def gesture_traced protocol_def consumed_zero_def
            addressed_def admitted_type_def)
    next
      case 4
      with admitted_traced [OF valid, of ctx env d e ack w] show ?thesis
        by (fastforce simp: Consume_def valid e addressed_def defect_def admitted_type_def)
    qed
  qed
qed (simp_all add: Consume_def protocol_def addressed_def)

text \<open>C17. The protocol of consumption: whatever the collaborators answer or panic with, a delivery is
  acknowledged only after its handler returned a disposition that confirms it, or the message, exactly as
  delivered, was kept in quarantine, or, with neither, when it is of a type the channel carries and the consumer does
  not accept. The handler runs only for an accepted type from inside the boundary, and a message refused before it is
  quarantined for its defect. A failed quarantine is never acknowledged; a transient failure is released until the
  attempts are spent, and then contained; at most one gesture reaches the broker, always last.\<close>

theorem consume_protocol:
  "\<exists>w' acts out err. Consume proto_Unmarshal text_of c ctx env d ack w = (w', out, err) \<and>
     Consume proto_Unmarshal text_of (trace_consumer c) ctx env d (trace_ack ack) (w, []) = ((w', acts), out, err) \<and>
     protocol c d out acts \<and> addressed proto_Unmarshal c d acts"
  by (rule Consume_traced)

text \<open>The context a handler runs under comes from the message and from nothing else: for an
  unmarshalled envelope it always exists, with the message's correlation, causation, trace and tenant, no
  subject and no permission, and a deadline no later than the consumer's timeout.\<close>

theorem consumer_context:
  assumes "Unmarshal proto_Unmarshal raw = Ok e" and "Consumer_Validate c = Ok ()" and "at_RequestID env \<noteq> []"
    and "0 < at_Wall env" and "at_Wall env + con_Timeout c < 2 ^ 63"
    and "at_Deadline env = None \<or> (\<exists>t > 0. at_Deadline env = Some t)"
  shows "\<exists>execution. executionOf c env e = Ok execution \<and>
    ec_correlationID execution = env_CorrelationID e \<and> ec_CausationID execution = Some (env_CausationID e) \<and>
    ec_traceContext execution = env_TraceParent e \<and> ec_Tenant execution = env_TenantID e \<and>
    ec_Subject execution = None \<and> ec_Permissions execution = None \<and>
    0 < ec_deadline execution \<and> ec_deadline execution \<le> at_Wall env + con_Timeout c"
proof -
  note valid = Validate_collaborators [OF assms(2)]
  have p: "validatePresence e = Ok ()" using Unmarshal_valid [OF assms(1)] by (simp add: Envelope_Validate_def)
  have dl: "0 < handle_deadline c env" "handle_deadline c env \<le> at_Wall env + con_Timeout c"
    using assms(4,6) valid(3) by (auto simp: handle_deadline_def)
  then have "wrap64 (handle_deadline c env) = handle_deadline c env"
    using assms(5) by (intro wrap64_id) (simp add: int64_def)
  with dl p valid(4) assms(3) show ?thesis
    by (auto simp: executionOf_def NewExecutionContext_def validatePresence_Ok ec_CausationID_def ec_Tenant_def
        ec_Subject_def ec_Permissions_def split: option.splits)
qed

definition sample_consumer :: "unit Consumer" where
  "sample_consumer = \<lparr>con_Name = ''billing'', con_MaxAttempts = 5, con_Handle = Some (\<lambda>_ _ _ w. (w, Returned (R1D1, None))),
     con_Accepts = [''com.company.orders.order-placed.v1''], con_Containment = Some (\<lambda>_ _ w. (w, Returned None)),
     con_Clock = Some (\<lambda>_. 1), con_Timeout = 1000,
     con_Boundary = \<lparr>bnd_Transport = TransportVerified, bnd_Sources = [''/orders'']\<rparr>, con_Locale = ''pt-BR'',
     con_Carries = [''com.company.orders.order-placed.v1'']\<rparr>"

definition sample_attempt :: attempt_env where
  "sample_attempt = \<lparr>at_RequestID = ''r-1'', at_Traceparent = ''00-2-2-01'', at_Tracestate = [], at_Wall = 5, at_Deadline = None\<rparr>"

lemma consumer_context_witness:
  "\<exists>execution. executionOf sample_consumer sample_attempt sample_envelope = Ok execution \<and>
     ec_Tenant execution = Some ''acme'' \<and> ec_Subject execution = None \<and> ec_deadline execution \<le> 1005"
proof -
  have "Unmarshal sample_unmarshal [10] = Ok sample_envelope"
    using sample_envelope_Marshal sample_wire Decode_Encode by (auto simp: Marshal_def Unmarshal_def)
  from consumer_context [OF this, of sample_consumer sample_attempt] show ?thesis
    by (simp add: sample_consumer_def sample_attempt_def Consumer_Validate_def Consumer_missing_def Boundary_declared_def
        sample_envelope_def) blast
qed

end
