(* ===== verification/App_Relay.thy ===== *)
theory App_Relay
  imports Postgres_Outbox App_Consumer Go_Numbers
begin

text \<open>
  The drain loop of the outbox, \<^verbatim>\<open>libs/backend/go/app/relay\<close>: the assembly of the envelope
  (\<open>record.go\<close>), the delivery of one record and its conditional transition (\<open>publish.go\<close>, \<open>send.go\<close>), a
  scan with its concurrent deliveries (\<open>relay.go\<close>) and the release of what it did not finish
  (\<open>shutdown.go\<close>). Store, publisher, claim identities and clock are the interfaces of \<open>ports.go\<close>, fields of
  the record \<open>Relay\<close> acting on a world. A goroutine of a scan is a \<open>flight\<close>, and \<open>scan_step\<close> interleaves
  them. Spans, metrics and logs are not modelled.
\<close>

section \<open>The record and its envelope\<close>

definition meta_string :: "metadata \<Rightarrow> string \<Rightarrow> string" where
  "meta_string raw key = (case raw key of Some (JString text) \<Rightarrow> text | _ \<Rightarrow> [])"

fun required_attributes :: "metadata \<Rightarrow> string list \<Rightarrow> (string \<rightharpoonup> string) \<Rightarrow> (string \<rightharpoonup> string) result" where
  "required_attributes raw [] attributes = Ok attributes"
| "required_attributes raw (key # keys) attributes =
     (if raw key = None then FailWith ErrMissingContextAttributes (key @ '' is absent'')
      else if meta_string raw key = [] then FailWith ErrMissingContextAttributes (key @ '' is not a non-empty string'')
      else required_attributes raw keys (attributes(key \<mapsto> meta_string raw key)))"

definition contextAttributes :: "metadata \<Rightarrow> (string \<rightharpoonup> string) result" where
  "contextAttributes raw =
     res_bind (required_attributes raw [''correlationid'', ''causationid'', ''traceparent''] Map.empty) (\<lambda>attributes.
       if raw ''tenantid'' \<noteq> None \<and> meta_string raw ''tenantid'' = []
       then FailWith ErrMissingContextAttributes ''tenantid is present but not a non-empty string''
       else
         let tenant = (if raw ''tenantid'' = None then attributes else attributes(''tenantid'' \<mapsto> meta_string raw ''tenantid'')) in
         Ok (if meta_string raw ''tracestate'' = [] then tenant else tenant(''tracestate'' \<mapsto> meta_string raw ''tracestate'')))"

text \<open>The lookup of a Go map of strings: the zero value for an absent key.\<close>

definition attr :: "(string \<rightharpoonup> string) \<Rightarrow> string \<Rightarrow> string" where
  "attr m key = (case m key of None \<Rightarrow> [] | Some s \<Rightarrow> s)"

definition timestamp_of :: "Instant \<Rightarrow> Timestamp" where
  "timestamp_of t = \<lparr>ts_seconds = t div 1000000000, ts_nanos = t mod 1000000000\<rparr>"

definition Assemble :: "outbox_row \<Rightarrow> string \<Rightarrow> Envelope result" where
  "Assemble rec source =
     (if source = [] then Fail ErrSourceRequired
      else if payload_hash (ob_payload rec) \<noteq> ob_payload_hash rec
      then FailWith ErrPayloadHashMismatch (''stored '' @ ob_payload_hash rec @ '', computed '' @ payload_hash (ob_payload rec))
      else if ob_aggregate_version rec < 0 \<or> ob_aggregate_version rec > 2 ^ 31 - 1
      then FailWith ErrAggregateVersionOutOfRange (itoa_int (ob_aggregate_version rec))
      else res_map (\<lambda>attributes.
        \<lparr>env_ID = ob_message_id rec, env_Source = source, env_SpecVersion = SpecVersion, env_Type = ob_message_type rec,
         env_Subject = ob_aggregate_id rec, env_Time = Some (timestamp_of (ob_occurred_at rec)),
         env_DataSchema = ob_schema_version rec, env_DataContentType = ContentType,
         env_CorrelationID = attr attributes ''correlationid'', env_CausationID = attr attributes ''causationid'',
         env_PartitionKey = ob_partition_key rec, env_TraceParent = attr attributes ''traceparent'',
         env_AggregateVersion = Some (ob_aggregate_version rec),
         env_TenantID = (if attr attributes ''tenantid'' = [] then None else Some (attr attributes ''tenantid'')),
         env_TraceState = (if attr attributes ''tracestate'' = [] then None else Some (attr attributes ''tracestate'')),
         env_Payload = ob_payload rec\<rparr>) (contextAttributes (ob_metadata rec)))"

definition assembled :: "(CloudEvent \<Rightarrow> bytes result) \<Rightarrow> outbox_row \<Rightarrow> string \<Rightarrow> bytes result" where
  "assembled proto_Marshal rec source = res_bind (Assemble rec source) (Marshal proto_Marshal)"

section \<open>Backoff\<close>

text \<open>\<open>windowFor\<close>: the shifts of Go on a 64-bit duration; a shift by the width or more is never made.\<close>

definition windowFor :: "int \<Rightarrow> int \<Rightarrow> int \<Rightarrow> int" where
  "windowFor base cap attempt =
     (if base \<le> 0 then 0
      else
        let shift = (if attempt < 1 then 1 else attempt) - 1 in
        if shift \<ge> 64 \<or> base > cap div 2 ^ nat shift then cap else wrap64 (base * 2 ^ nat shift))"

text \<open>\<open>jitter\<close> is the fraction drawn for this attempt, \<open>None\<close> without a source of fractions.\<close>

definition ExponentialBackoff :: "int \<Rightarrow> int \<Rightarrow> rat option \<Rightarrow> int \<Rightarrow> int" where
  "ExponentialBackoff base cap jitter attempt =
     (let window = windowFor base cap attempt; half = sgn window * (\<bar>window\<bar> div 2) in
      case jitter of
        None \<Rightarrow> half
      | Some x \<Rightarrow> wrap64 (half + f64_trunc (f64 (x * f64 (of_int (window - half))))))"

section \<open>The relay\<close>

record 'w DrainStore =
  sto_Claim :: "string \<Rightarrow> int \<Rightarrow> int \<Rightarrow> 'w \<Rightarrow> 'w \<times> outbox_row list result"
  sto_MarkPublished :: "int \<Rightarrow> string \<Rightarrow> 'w \<Rightarrow> 'w \<times> int result"
  sto_Reschedule :: "int \<Rightarrow> string \<Rightarrow> Instant \<Rightarrow> string \<Rightarrow> 'w \<Rightarrow> 'w \<times> int result"
  sto_Fail :: "int \<Rightarrow> string \<Rightarrow> string \<Rightarrow> 'w \<Rightarrow> 'w \<times> int result"

text \<open>\<open>rly_Nil\<close> says that one of the four collaborators is nil, which \<open>New\<close> and \<open>validate\<close> refuse.
  \<open>rly_Done\<close> is the caller's cancellation; \<open>rly_Text\<close> and \<open>rly_TypeName\<close> render an error with \<open>Error()\<close> and
  \<open>%T\<close>; \<open>rly_Marshal\<close> is the wire format of the protobuf library.\<close>

record 'w Relay =
  rly_Nil :: bool
  rly_Store :: "'w DrainStore"
  rly_Publish :: "string \<Rightarrow> bytes \<Rightarrow> 'w \<Rightarrow> 'w \<times> unit result"
  rly_Now :: "'w \<Rightarrow> Instant"
  rly_Source :: string
  rly_Interval :: int
  rly_BatchSize :: int
  rly_Lease :: int
  rly_Concurrency :: int
  rly_MaxAttempts :: int
  rly_Backoff :: "(int \<Rightarrow> 'w \<Rightarrow> int) option"
  rly_Done :: "'w \<Rightarrow> bool"
  rly_Text :: "gerr \<Rightarrow> string"
  rly_TypeName :: "gerr \<Rightarrow> string"
  rly_Marshal :: "CloudEvent \<Rightarrow> bytes result"

record Config =
  cfg_Source :: string
  cfg_Interval :: int
  cfg_BatchSize :: int
  cfg_Lease :: int
  cfg_Concurrency :: int
  cfg_MaxAttempts :: int
  cfg_BackoffBase :: int
  cfg_BackoffCeiling :: int
  cfg_ShutdownGrace :: int

fun first_bad :: "(string \<times> bool) list \<Rightarrow> unit result" where
  "first_bad [] = Ok ()"
| "first_bad ((field, bad) # checks) = (if bad then FailWith ErrInvalidConfig field else first_bad checks)"

definition Config_Validate :: "Config \<Rightarrow> unit result" where
  "Config_Validate c = first_bad
     [(''source'', cfg_Source c = []), (''interval'', cfg_Interval c \<le> 0), (''batch size'', cfg_BatchSize c \<le> 0),
      (''lease'', cfg_Lease c \<le> 0), (''concurrency'', cfg_Concurrency c \<le> 0), (''backoff base'', cfg_BackoffBase c < 0),
      (''backoff ceiling'', cfg_BackoffCeiling c < cfg_BackoffBase c), (''shutdown grace'', cfg_ShutdownGrace c < 0)]"

text \<open>\<open>New\<close> takes the collaborators as a relay without configuration and fills in the operational values.\<close>

definition Relay_New :: "'w Relay \<Rightarrow> ('w \<Rightarrow> rat) \<Rightarrow> Config \<Rightarrow> 'w Relay result" where
  "Relay_New parts rand c =
     (if rly_Nil parts then Fail ErrIncompleteRelay
      else res_bind (Config_Validate c) (\<lambda>_. Ok (parts\<lparr>rly_Source := cfg_Source c, rly_Interval := cfg_Interval c,
        rly_BatchSize := cfg_BatchSize c, rly_Lease := cfg_Lease c, rly_Concurrency := cfg_Concurrency c,
        rly_MaxAttempts := cfg_MaxAttempts c,
        rly_Backoff := Some (\<lambda>attempt w. ExponentialBackoff (cfg_BackoffBase c) (cfg_BackoffCeiling c) (Some (rand w)) attempt)\<rparr>)))"

definition Relay_validate :: "'w Relay \<Rightarrow> unit result" where
  "Relay_validate r =
     (if rly_Nil r then Fail ErrIncompleteRelay
      else if rly_Source r = [] then Fail ErrIncompleteRelay
      else if rly_Interval r \<le> 0 \<or> rly_BatchSize r \<le> 0 \<or> rly_Lease r \<le> 0 \<or> rly_Concurrency r \<le> 0 then Fail ErrIncompleteRelay
      else Ok ())"

definition backoffFor :: "'w Relay \<Rightarrow> int \<Rightarrow> 'w \<Rightarrow> int" where
  "backoffFor r attempt w = (case rly_Backoff r of None \<Rightarrow> 0 | Some f \<Rightarrow> f attempt w)"

section \<open>One delivery\<close>

datatype relay_disposition =
    DispositionPublished | DispositionRescheduled | DispositionFailed | DispositionClaimLost | DispositionAbandoned

definition claim_of :: "outbox_row \<Rightarrow> string" where
  "claim_of rec = (case ob_locked_by rec of None \<Rightarrow> [] | Some c \<Rightarrow> c)"

text \<open>A relay's own failure first, then the publisher's: at most one of the two.\<close>

type_synonym sent = "gerr option \<times> gerr option"

definition relay_send :: "'w Relay \<Rightarrow> outbox_row \<Rightarrow> 'w \<Rightarrow> 'w \<times> sent ran" where
  "relay_send r rec w =
     (case assembled (rly_Marshal r) rec (rly_Source r) of
        Err own \<Rightarrow> (w, Returned (Some own, None))
      | Panic m \<Rightarrow> (w, Panics m)
      | Ok message \<Rightarrow>
          (case rly_Publish r (ob_destination rec) message w of
             (w', Ok _) \<Rightarrow> (w', Returned (None, None))
           | (w', Err e) \<Rightarrow> (w', Returned (None, Some e))
           | (w', Panic m) \<Rightarrow> (w', Panics m)))"

definition settle :: "relay_disposition \<Rightarrow> int result \<Rightarrow> (relay_disposition \<times> gerr option) ran" where
  "settle intended r =
     (case r of
        Err e \<Rightarrow> Returned (intended, Some e)
      | Ok affected \<Rightarrow> Returned (if affected = 0 then (DispositionClaimLost, None) else (intended, None))
      | Panic m \<Rightarrow> Panics m)"

definition transportError :: "'w Relay \<Rightarrow> gerr \<Rightarrow> string" where
  "transportError r e = ''relay: delivery failed ('' @ rly_TypeName r e @ '')''"

definition relay_terminal :: "'w Relay \<Rightarrow> outbox_row \<Rightarrow> string \<Rightarrow> 'w \<Rightarrow> 'w \<times> (relay_disposition \<times> gerr option) ran" where
  "relay_terminal r rec reason w =
     (case sto_Fail (rly_Store r) (ob_id rec) (claim_of rec) reason w of (w', n) \<Rightarrow> (w', settle DispositionFailed n))"

definition relay_reschedule :: "'w Relay \<Rightarrow> outbox_row \<Rightarrow> string \<Rightarrow> 'w \<Rightarrow> 'w \<times> (relay_disposition \<times> gerr option) ran" where
  "relay_reschedule r rec reason w =
     (case sto_Reschedule (rly_Store r) (ob_id rec) (claim_of rec)
             (wrap64 (rly_Now r w + backoffFor r (ob_attempt_count rec) w)) reason w of
        (w', n) \<Rightarrow> (w', settle DispositionRescheduled n))"

text \<open>What \<open>deliver\<close> does with the answer of \<open>send\<close>.\<close>

definition conclude :: "'w Relay \<Rightarrow> outbox_row \<Rightarrow> sent \<Rightarrow> 'w \<Rightarrow> 'w \<times> (relay_disposition \<times> gerr option) ran" where
  "conclude r rec answer w =
     (case answer of
        (Some own, _) \<Rightarrow> relay_terminal r rec (rly_Text r own) w
      | (None, Some publishErr) \<Rightarrow>
          if rly_Done r w then (w, Returned (DispositionAbandoned, Some publishErr))
          else if rly_MaxAttempts r > 0 \<and> ob_attempt_count rec \<ge> rly_MaxAttempts r
          then relay_terminal r rec (transportError r publishErr) w
          else relay_reschedule r rec (transportError r publishErr) w
      | (None, None) \<Rightarrow>
          (case sto_MarkPublished (rly_Store r) (ob_id rec) (claim_of rec) w of
             (w', n) \<Rightarrow> (w', settle DispositionPublished n)))"

definition relay_deliver :: "'w Relay \<Rightarrow> outbox_row \<Rightarrow> 'w \<Rightarrow> 'w \<times> (relay_disposition \<times> gerr option) ran" where
  "relay_deliver r rec w =
     (case relay_send r rec w of
        (w', Returned answer) \<Rightarrow> conclude r rec answer w'
      | (w', Panics m) \<Rightarrow> (w', Panics m))"

section \<open>One scan\<close>

text \<open>A goroutine waits for its slot, is publishing, has the answer, or has ended.\<close>

datatype flight = Queued | Publishing | Answered sent | Landed relay_disposition "gerr option" | Crashed

record scan =
  sc_claimed :: "outbox_row list"
  sc_flights :: "flight list"
  sc_holding :: "int \<rightharpoonup> outbox_row"
  sc_failure :: "gerr option"

definition scan_start :: "outbox_row list \<Rightarrow> scan" where
  "scan_start claimed = \<lparr>sc_claimed = claimed, sc_flights = map (\<lambda>_. Queued) claimed,
     sc_holding = map_of (rev (map (\<lambda>rec. (ob_id rec, rec)) claimed)), sc_failure = None\<rparr>"

fun in_slot :: "flight \<Rightarrow> bool" where
  "in_slot Publishing = True"
| "in_slot (Answered a) = True"
| "in_slot _ = False"

fun flight_ended :: "flight \<Rightarrow> bool" where
  "flight_ended (Landed d e) = True"
| "flight_ended Crashed = True"
| "flight_ended _ = False"

definition fly :: "nat \<Rightarrow> flight \<Rightarrow> scan \<Rightarrow> scan" where
  "fly i f s = s\<lparr>sc_flights := (sc_flights s)[i := f]\<rparr>"

definition crash_flight :: "nat \<Rightarrow> scan \<Rightarrow> scan" where
  "crash_flight i s = (fly i Crashed s)\<lparr>sc_failure := Some (Sentinel ErrPanicked)\<rparr>"

definition land :: "nat \<Rightarrow> relay_disposition \<Rightarrow> gerr option \<Rightarrow> scan \<Rightarrow> scan" where
  "land i d e s = (fly i (Landed d e) s)\<lparr>sc_holding :=
     (if e = None then (sc_holding s)(ob_id (sc_claimed s ! i) := None) else sc_holding s)\<rparr>"

inductive scan_step :: "'w Relay \<Rightarrow> scan \<times> 'w \<Rightarrow> scan \<times> 'w \<Rightarrow> bool" for r where
  slot: "i < length (sc_flights s) \<Longrightarrow> sc_flights s ! i = Queued \<Longrightarrow> \<forall>j < i. sc_flights s ! j \<noteq> Queued \<Longrightarrow>
    int (length (filter in_slot (sc_flights s))) < rly_Concurrency r \<Longrightarrow> scan_step r (s, w) (fly i Publishing s, w)"
| sent: "i < length (sc_flights s) \<Longrightarrow> sc_flights s ! i = Publishing \<Longrightarrow>
    relay_send r (sc_claimed s ! i) w = (w', Returned a) \<Longrightarrow> scan_step r (s, w) (fly i (Answered a) s, w')"
| send_panicked: "i < length (sc_flights s) \<Longrightarrow> sc_flights s ! i = Publishing \<Longrightarrow>
    relay_send r (sc_claimed s ! i) w = (w', Panics m) \<Longrightarrow> scan_step r (s, w) (crash_flight i s, w')"
| settled: "i < length (sc_flights s) \<Longrightarrow> sc_flights s ! i = Answered a \<Longrightarrow>
    conclude r (sc_claimed s ! i) a w = (w', Returned (d, e)) \<Longrightarrow> scan_step r (s, w) (land i d e s, w')"
| settle_panicked: "i < length (sc_flights s) \<Longrightarrow> sc_flights s ! i = Answered a \<Longrightarrow>
    conclude r (sc_claimed s ! i) a w = (w', Panics m) \<Longrightarrow> scan_step r (s, w) (crash_flight i s, w')"

definition scan_ended :: "scan \<Rightarrow> bool" where
  "scan_ended s \<longleftrightarrow> (\<forall>f \<in> set (sc_flights s). flight_ended f)"

text \<open>\<open>release\<close> over the records left, in whatever order the map is walked, at one reading of the clock; the
  errors it logs are returned. A panic of the store ends it.\<close>

fun release_records :: "'w Relay \<Rightarrow> Instant \<Rightarrow> outbox_row list \<Rightarrow> 'w \<Rightarrow> 'w \<times> gerr list result" where
  "release_records r now [] w = (w, Ok [])"
| "release_records r now (rec # rest) w =
     (case sto_Reschedule (rly_Store r) (ob_id rec) (claim_of rec) now [] w of
        (w', Panic m) \<Rightarrow> (w', Panic m)
      | (w', Ok _) \<Rightarrow> release_records r now rest w'
      | (w', Err e) \<Rightarrow> (case release_records r now rest w' of (w'', errs) \<Rightarrow> (w'', res_map ((#) e) errs)))"

definition release :: "'w Relay \<Rightarrow> outbox_row list \<Rightarrow> 'w \<Rightarrow> 'w \<times> gerr list result" where
  "release r records w = (if records = [] then (w, Ok []) else release_records r (rly_Now r w) records w)"

definition remaining :: "scan \<Rightarrow> outbox_row list \<Rightarrow> bool" where
  "remaining s records \<longleftrightarrow> distinct records \<and> set records = ran (sc_holding s)"

section \<open>Relays at work\<close>

text \<open>
  Any number of relays over one world: the scans in progress by the identity of their claim, and the
  identities used so far. A pass of the loop of \<open>Run\<close> is \<open>claimed\<close> (or \<open>claim_failed\<close>), the steps of its
  scan and \<open>released\<close>; \<open>killed\<close> is a process that stops in between, \<open>elsewhere\<close> whatever else happens in the
  world. \<open>NewClaimID\<close> answers an identity not used before.
\<close>

record 'w drain =
  dr_world :: 'w
  dr_scans :: "string \<rightharpoonup> scan"
  dr_used :: "string set"

inductive drain_step :: "'w Relay \<Rightarrow> ('w \<Rightarrow> 'w \<Rightarrow> bool) \<Rightarrow> 'w drain \<Rightarrow> 'w drain \<Rightarrow> bool" for r others where
  claimed: "c \<notin> dr_used s \<Longrightarrow> sto_Claim (rly_Store r) c (rly_BatchSize r) (rly_Lease r) (dr_world s) = (w', Ok rows) \<Longrightarrow>
    drain_step r others s \<lparr>dr_world = w', dr_scans = (dr_scans s)(c \<mapsto> scan_start rows), dr_used = insert c (dr_used s)\<rparr>"
| claim_failed: "c \<notin> dr_used s \<Longrightarrow> sto_Claim (rly_Store r) c (rly_BatchSize r) (rly_Lease r) (dr_world s) = (w', a) \<Longrightarrow>
    \<forall>rows. a \<noteq> Ok rows \<Longrightarrow> drain_step r others s (s\<lparr>dr_world := w', dr_used := insert c (dr_used s)\<rparr>)"
| working: "dr_scans s c = Some sc \<Longrightarrow> scan_step r (sc, dr_world s) (sc', w') \<Longrightarrow>
    drain_step r others s (s\<lparr>dr_world := w', dr_scans := (dr_scans s)(c \<mapsto> sc')\<rparr>)"
| released: "dr_scans s c = Some sc \<Longrightarrow> scan_ended sc \<Longrightarrow> remaining sc records \<Longrightarrow> release r records (dr_world s) = (w', a) \<Longrightarrow>
    drain_step r others s (s\<lparr>dr_world := w', dr_scans := (dr_scans s)(c := None)\<rparr>)"
| killed: "drain_step r others s (s\<lparr>dr_scans := (dr_scans s)(c := None)\<rparr>)"
| elsewhere: "others (dr_world s) w' \<Longrightarrow> drain_step r others s (s\<lparr>dr_world := w'\<rparr>)"

definition drain_start :: "'w \<Rightarrow> 'w drain" where
  "drain_start w = \<lparr>dr_world = w, dr_scans = Map.empty, dr_used = {}\<rparr>"

section \<open>What a relay relies on\<close>

text \<open>
  The contract between the loop and its store and publisher. \<open>sound\<close> is an invariant of the world, \<open>known c rec\<close>
  says that the world holds the claimed record, \<open>evidence rec\<close> that the broker accepted its message, and
  \<open>leased w c\<close> is what a claim still blocks. Each law names one call and what it may change.
\<close>

definition drain_keeps :: "('w \<Rightarrow> bool) \<Rightarrow> (string \<Rightarrow> outbox_row \<Rightarrow> 'w \<Rightarrow> bool) \<Rightarrow> (outbox_row \<Rightarrow> 'w \<Rightarrow> bool) \<Rightarrow>
    ('w \<Rightarrow> string \<Rightarrow> int set) \<Rightarrow> string set \<Rightarrow> 'w \<Rightarrow> 'w \<Rightarrow> bool" where
  "drain_keeps sound known evidence leased claims w w' \<longleftrightarrow>
     sound w' \<and> (\<forall>c rec. known c rec w \<longrightarrow> known c rec w') \<and> (\<forall>rec. evidence rec w \<longrightarrow> evidence rec w') \<and>
     (\<forall>c. c \<notin> claims \<longrightarrow> leased w' c \<subseteq> leased w c)"

locale drain_contract =
  fixes r :: "'w Relay" and others :: "'w \<Rightarrow> 'w \<Rightarrow> bool"
    and sound :: "'w \<Rightarrow> bool" and known :: "string \<Rightarrow> outbox_row \<Rightarrow> 'w \<Rightarrow> bool" and evidence :: "outbox_row \<Rightarrow> 'w \<Rightarrow> bool"
    and leased :: "'w \<Rightarrow> string \<Rightarrow> int set"
  assumes claim_law: "sound w \<Longrightarrow> sto_Claim (rly_Store r) c (rly_BatchSize r) (rly_Lease r) w = (w', a) \<Longrightarrow>
      drain_keeps sound known evidence leased {c} w w' \<and>
      (\<forall>rows. a = Ok rows \<longrightarrow> (\<forall>rec \<in> set rows. known c rec w') \<and> leased w' c \<subseteq> leased w c \<union> ob_id ` set rows)"
    and publish_law: "sound w \<Longrightarrow> known c rec w \<Longrightarrow> assembled (rly_Marshal r) rec (rly_Source r) = Ok m \<Longrightarrow>
      rly_Publish r (ob_destination rec) m w = (w', p) \<Longrightarrow>
      drain_keeps sound known evidence leased {} w w' \<and> (p = Ok () \<longrightarrow> evidence rec w')"
    and mark_law: "sound w \<Longrightarrow> known c rec w \<Longrightarrow> evidence rec w \<Longrightarrow>
      sto_MarkPublished (rly_Store r) (ob_id rec) c w = (w', n) \<Longrightarrow>
      drain_keeps sound known evidence leased {} w w' \<and> (\<forall>k. n = Ok k \<longrightarrow> ob_id rec \<notin> leased w' c)"
    and reschedule_law: "sound w \<Longrightarrow> known c rec w \<Longrightarrow>
      sto_Reschedule (rly_Store r) (ob_id rec) c available reason w = (w', n) \<Longrightarrow>
      drain_keeps sound known evidence leased {} w w' \<and> (\<forall>k. n = Ok k \<longrightarrow> ob_id rec \<notin> leased w' c)"
    and fail_law: "sound w \<Longrightarrow> known c rec w \<Longrightarrow>
      sto_Fail (rly_Store r) (ob_id rec) c reason w = (w', n) \<Longrightarrow>
      drain_keeps sound known evidence leased {} w w' \<and> (\<forall>k. n = Ok k \<longrightarrow> ob_id rec \<notin> leased w' c)"
    and others_law: "sound w \<Longrightarrow> others w w' \<Longrightarrow> drain_keeps sound known evidence leased {} w w'"
    and claimed_by: "known c rec w \<Longrightarrow> claim_of rec = c"
begin

abbreviation guarded :: "'w \<Rightarrow> 'w \<Rightarrow> bool" where
  "guarded \<equiv> drain_keeps sound known evidence leased {}"

lemma guarded_refl: "sound w \<Longrightarrow> guarded w w"
  by (simp add: drain_keeps_def)

lemma guarded_trans: "guarded a b \<Longrightarrow> guarded b c \<Longrightarrow> guarded a c"
  unfolding drain_keeps_def by blast

lemma send_keeps:
  assumes "sound w" and "known c rec w" and "relay_send r rec w = (w', x)"
  shows "guarded w w' \<and> (x = Returned (None, None) \<longrightarrow> evidence rec w')"
proof (cases "assembled (rly_Marshal r) rec (rly_Source r)")
  case (Ok m)
  obtain w1 a where p: "rly_Publish r (ob_destination rec) m w = (w1, a)" by fastforce
  have "guarded w w1" "a = Ok () \<longrightarrow> evidence rec w1" using publish_law [OF assms(1,2) Ok p] by auto
  with assms(3) show ?thesis by (cases a) (auto simp: relay_send_def Ok p)
qed (use assms guarded_refl in \<open>auto simp: relay_send_def\<close>)

lemma relay_terminal_keeps:
  assumes "sound w" and "known c rec w" and "relay_terminal r rec reason w = (w', x)"
  shows "guarded w w' \<and> (\<forall>d. x = Returned (d, None) \<longrightarrow> ob_id rec \<notin> leased w' c)"
proof -
  obtain n where "sto_Fail (rly_Store r) (ob_id rec) c reason w = (w', n)" "x = settle DispositionFailed n"
    using assms(3) claimed_by [OF assms(2)] by (auto simp: relay_terminal_def split: prod.splits)
  with fail_law [OF assms(1,2) this(1)] show ?thesis
    by (cases n) (auto simp: settle_def)
qed

lemma reschedule_keeps:
  assumes "sound w" and "known c rec w" and "relay_reschedule r rec reason w = (w', x)"
  shows "guarded w w' \<and> (\<forall>d. x = Returned (d, None) \<longrightarrow> ob_id rec \<notin> leased w' c)"
proof -
  obtain n where "sto_Reschedule (rly_Store r) (ob_id rec) c (wrap64 (rly_Now r w + backoffFor r (ob_attempt_count rec) w)) reason w = (w', n)"
      "x = settle DispositionRescheduled n"
    using assms(3) claimed_by [OF assms(2)] by (auto simp: relay_reschedule_def split: prod.splits)
  with reschedule_law [OF assms(1,2) this(1)] show ?thesis
    by (cases n) (auto simp: settle_def)
qed

lemma conclude_keeps:
  assumes "sound w" and "known c rec w" and "a = (None, None) \<Longrightarrow> evidence rec w" and "conclude r rec a w = (w', x)"
  shows "guarded w w' \<and> (\<forall>d. x = Returned (d, None) \<longrightarrow> ob_id rec \<notin> leased w' c)"
proof (cases a)
  case (Pair own published)
  consider (own) e where "own = Some e" | (abandoned) e where "own = None" "published = Some e" "rly_Done r w"
    | (publisher) e where "own = None" "published = Some e" "\<not> rly_Done r w" | (ok) "own = None" "published = None"
    by (cases own; cases published) auto
  then show ?thesis
  proof cases
    case ok
    then have "evidence rec w" using assms(3) Pair by simp
    obtain n where "sto_MarkPublished (rly_Store r) (ob_id rec) c w = (w', n)" "x = settle DispositionPublished n"
      using assms(4) claimed_by [OF assms(2)] ok Pair by (auto simp: conclude_def split: prod.splits)
    with mark_law [OF assms(1,2) \<open>evidence rec w\<close> this(1)] show ?thesis
      by (cases n) (auto simp: settle_def)
  next
    case abandoned
    then show ?thesis using assms(1,4) Pair guarded_refl by (auto simp: conclude_def)
  next
    case own
    then show ?thesis using relay_terminal_keeps [OF assms(1,2)] assms(4) Pair by (auto simp: conclude_def)
  next
    case publisher
    then show ?thesis using relay_terminal_keeps [OF assms(1,2)] reschedule_keeps [OF assms(1,2)] assms(4) Pair
      by (auto simp: conclude_def split: if_splits)
  qed
qed

text \<open>A scan between its claim and its release.\<close>

definition scan_ok :: "'w \<Rightarrow> string \<Rightarrow> scan \<Rightarrow> bool" where
  "scan_ok w c s \<longleftrightarrow> length (sc_flights s) = length (sc_claimed s) \<and>
     (\<forall>i < length (sc_claimed s). known c (sc_claimed s ! i) w \<and>
        (sc_flights s ! i = Answered (None, None) \<longrightarrow> evidence (sc_claimed s ! i) w)) \<and>
     leased w c \<subseteq> dom (sc_holding s) \<and>
     (\<forall>i rec. sc_holding s i = Some rec \<longrightarrow> ob_id rec = i \<and> known c rec w)"

lemma scan_ok_keeps:
  assumes "drain_keeps sound known evidence leased C w w'" and "c \<notin> C" and "scan_ok w c s"
  shows "scan_ok w' c s"
  using assms by (fastforce simp: scan_ok_def drain_keeps_def)

lemma scan_ok_guarded: "guarded w w' \<Longrightarrow> scan_ok w c s \<Longrightarrow> scan_ok w' c s"
  by (rule scan_ok_keeps) auto

lemma scan_ok_fly: "scan_ok w c s \<Longrightarrow> (f = Answered (None, None) \<Longrightarrow> evidence (sc_claimed s ! i) w) \<Longrightarrow> scan_ok w c (fly i f s)"
proof -
  assume ok: "scan_ok w c s" and f: "f = Answered (None, None) \<Longrightarrow> evidence (sc_claimed s ! i) w"
  have "evidence (sc_claimed s ! j) w" if "j < length (sc_claimed s)" "(sc_flights s)[i := f] ! j = Answered (None, None)" for j
    using that ok f by (cases "j = i") (auto simp: scan_ok_def)
  then show "scan_ok w c (fly i f s)" using ok by (simp add: scan_ok_def fly_def)
qed

lemma scan_ok_crash: "scan_ok w c s \<Longrightarrow> scan_ok w c (crash_flight i s)"
  using scan_ok_fly [of w c s Crashed i] by (simp add: scan_ok_def crash_flight_def)

lemma scan_ok_land:
  assumes "scan_ok w c s" and "e = None \<Longrightarrow> ob_id (sc_claimed s ! i) \<notin> leased w c"
  shows "scan_ok w c (land i d e s)"
proof -
  have "scan_ok w c (fly i (Landed d e) s)" using assms(1) by (intro scan_ok_fly) auto
  then show ?thesis using assms(2) by (fastforce simp: scan_ok_def land_def fly_def)
qed

lemma scan_step_ok:
  assumes "scan_step r (s, w) (s', w')" and "sound w" and "scan_ok w c s"
  shows "guarded w w' \<and> scan_ok w' c s'"
  using assms(1)
proof (cases rule: scan_step.cases)
  case (slot i)
  then show ?thesis using assms scan_ok_fly [of w c s Publishing i] guarded_refl by simp
next
  case (sent i a)
  then have "known c (sc_claimed s ! i) w" using assms(3) by (simp add: scan_ok_def)
  from send_keeps [OF assms(2) this sent(4)] sent(1) show ?thesis
    using scan_ok_guarded [OF _ assms(3)] scan_ok_fly [of w' c s "Answered a" i] by blast
next
  case (send_panicked i m)
  then have "known c (sc_claimed s ! i) w" using assms(3) by (simp add: scan_ok_def)
  from send_keeps [OF assms(2) this send_panicked(4)] send_panicked(1) show ?thesis
    using scan_ok_guarded [OF _ assms(3)] scan_ok_crash by blast
next
  case (settled i a d e)
  then have "known c (sc_claimed s ! i) w" "a = (None, None) \<Longrightarrow> evidence (sc_claimed s ! i) w"
    using assms(3) by (auto simp: scan_ok_def)
  from conclude_keeps [OF assms(2) this settled(4)] settled(1) show ?thesis
    using scan_ok_guarded [OF _ assms(3)] scan_ok_land [of w' c s e i d] by blast
next
  case (settle_panicked i a m)
  then have "known c (sc_claimed s ! i) w" "a = (None, None) \<Longrightarrow> evidence (sc_claimed s ! i) w"
    using assms(3) by (auto simp: scan_ok_def)
  from conclude_keeps [OF assms(2) this settle_panicked(4)] settle_panicked(1) show ?thesis
    using scan_ok_guarded [OF _ assms(3)] scan_ok_crash by blast
qed

lemma scan_start_ok:
  assumes "\<forall>rec \<in> set rows. known c rec w" and "leased w c \<subseteq> ob_id ` set rows"
  shows "scan_ok w c (scan_start rows)"
proof -
  define m where "m = map_of (rev (map (\<lambda>rec. (ob_id rec, rec)) rows))"
  have "dom m = ob_id ` set rows" unfolding m_def by (simp add: dom_map_of_conv_image_fst image_image)
  with assms(2) have "leased w c \<subseteq> dom m" by simp
  moreover have "ob_id rec = i \<and> known c rec w" if "m i = Some rec" for i rec
    using map_of_SomeD [OF that [unfolded m_def]] assms(1) by auto
  moreover have "\<forall>i < length rows. known c (rows ! i) w" using assms(1) by simp
  ultimately show ?thesis unfolding scan_ok_def scan_start_def m_def [symmetric] by simp
qed

lemma release_records_ok:
  assumes "sound w" and "\<forall>rec \<in> set records. known c rec w" and "release_records r now records w = (w', a)"
  shows "guarded w w' \<and> (a = Ok [] \<longrightarrow> (\<forall>rec \<in> set records. ob_id rec \<notin> leased w' c))"
  using assms
proof (induction records arbitrary: w a)
  case Nil
  then show ?case by (simp add: guarded_refl)
next
  case (Cons rec rest)
  have k: "known c rec w" "claim_of rec = c" using Cons.prems(2) claimed_by by auto
  obtain w1 n where s: "sto_Reschedule (rly_Store r) (ob_id rec) c now [] w = (w1, n)" by fastforce
  note law = reschedule_law [OF Cons.prems(1) k(1) s]
  then have "sound w1" "\<forall>rec \<in> set rest. known c rec w1" using Cons.prems(2) by (auto simp: drain_keeps_def)
  note IH = Cons.IH [OF this]
  show ?case
  proof (cases n)
    case (Ok m)
    then have "release_records r now rest w1 = (w', a)" using Cons.prems(3) s k(2) by simp
    note rest = IH [OF this]
    then have "leased w' c \<subseteq> leased w1 c" by (simp add: drain_keeps_def)
    with rest law Ok show ?thesis using guarded_trans [of w w1 w'] by auto
  next
    case (Err e)
    obtain b where "release_records r now rest w1 = (w', b)" "a = res_map ((#) e) b"
      using Cons.prems(3) s k(2) Err by (auto split: prod.splits)
    with IH [OF this(1)] law show ?thesis using guarded_trans [of w w1 w'] by (cases b) auto
  next
    case (Panic m)
    then show ?thesis using Cons.prems(3) s k(2) law by auto
  qed
qed

lemma release_ok:
  assumes "sound w" and "scan_ok w c s" and "remaining s records" and "release r records w = (w', a)"
  shows "guarded w w' \<and> (a = Ok [] \<longrightarrow> leased w' c = {})"
proof -
  have k: "\<forall>rec \<in> set records. known c rec w" using assms(2,3) by (auto simp: remaining_def scan_ok_def ran_def)
  have "guarded w w' \<and> (a = Ok [] \<longrightarrow> (\<forall>rec \<in> set records. ob_id rec \<notin> leased w' c))"
  proof (cases "records = []")
    case True
    then show ?thesis using assms(1,4) guarded_refl by (simp add: release_def)
  next
    case False
    then show ?thesis using release_records_ok [OF assms(1) k] assms(4) by (simp add: release_def)
  qed
  moreover have "dom (sc_holding s) \<subseteq> ob_id ` set records"
  proof
    fix i assume "i \<in> dom (sc_holding s)"
    then obtain rec where "sc_holding s i = Some rec" by auto
    then have "ob_id rec = i" "rec \<in> set records" using assms(2,3) by (auto simp: scan_ok_def remaining_def ran_def)
    then show "i \<in> ob_id ` set records" by auto
  qed
  ultimately show ?thesis using assms(2) by (fastforce simp: scan_ok_def drain_keeps_def)
qed

text \<open>The invariant of the relays at work.\<close>

definition drain_ok :: "'w drain \<Rightarrow> bool" where
  "drain_ok s \<longleftrightarrow> sound (dr_world s) \<and> (\<forall>c. c \<notin> dr_used s \<longrightarrow> leased (dr_world s) c = {} \<and> dr_scans s c = None) \<and>
     (\<forall>c sc. dr_scans s c = Some sc \<longrightarrow> scan_ok (dr_world s) c sc)"

lemma drain_ok_used: "drain_ok s \<Longrightarrow> dr_scans s c = Some sc \<Longrightarrow> c \<in> dr_used s"
  unfolding drain_ok_def by (metis option.distinct(1))

lemma drain_ok_next:
  assumes "drain_ok s" and "drain_keeps sound known evidence leased C (dr_world s) (dr_world s')"
    and "\<And>c sc. dr_scans s' c = Some sc \<Longrightarrow> c \<in> dr_used s' \<and> (c \<notin> C \<and> dr_scans s c = Some sc \<or> scan_ok (dr_world s') c sc)"
    and "dr_used s \<union> C \<subseteq> dr_used s'"
  shows "drain_ok s'"
proof -
  have "sound (dr_world s')" using assms(2) by (simp add: drain_keeps_def)
  moreover have "leased (dr_world s') c = {} \<and> dr_scans s' c = None" if "c \<notin> dr_used s'" for c
  proof -
    have "c \<notin> C" "c \<notin> dr_used s" using that assms(4) by auto
    then have "leased (dr_world s') c \<subseteq> {}" using assms(1,2) by (auto simp: drain_ok_def drain_keeps_def)
    moreover have "dr_scans s' c = None" using assms(3) that by (cases "dr_scans s' c") auto
    ultimately show ?thesis by simp
  qed
  moreover have "scan_ok (dr_world s') c sc" if "dr_scans s' c = Some sc" for c sc
    using assms(3) [OF that] scan_ok_keeps [OF assms(2)] assms(1) by (auto simp: drain_ok_def)
  ultimately show ?thesis by (simp add: drain_ok_def)
qed

lemma drain_step_ok:
  assumes "drain_step r others s s'" and "drain_ok s"
  shows "drain_ok s'"
proof -
  have sound: "sound (dr_world s)" using assms(2) by (simp add: drain_ok_def)
  note used = drain_ok_used [OF assms(2)]
  from assms(1) show ?thesis
  proof (cases rule: drain_step.cases)
    case (claimed c w' rows)
    have "leased (dr_world s) c = {}" using assms(2) claimed(2) by (simp add: drain_ok_def)
    then have "scan_ok w' c (scan_start rows)" using claim_law [OF sound claimed(3)] by (intro scan_start_ok) auto
    then show ?thesis using claim_law [OF sound claimed(3)] used
      by (intro drain_ok_next [OF assms(2), of "{c}"]) (auto simp: claimed(1) split: if_splits)
  next
    case (claim_failed c w' a)
    then show ?thesis using claim_law [OF sound claim_failed(3)] used
      by (intro drain_ok_next [OF assms(2), of "{c}"]) auto
  next
    case (working c sc sc' w')
    have "scan_ok (dr_world s) c sc" using assms(2) working(2) by (simp add: drain_ok_def)
    note step = scan_step_ok [OF working(3) sound this]
    then show ?thesis using used working(2)
      by (intro drain_ok_next [OF assms(2), of "{}"]) (auto simp: working(1) split: if_splits)
  next
    case (released c sc records w' a)
    have "scan_ok (dr_world s) c sc" using assms(2) released(2) by (simp add: drain_ok_def)
    note release = release_ok [OF sound this released(4,5)]
    then show ?thesis using used
      by (intro drain_ok_next [OF assms(2), of "{}"]) (auto simp: released(1) split: if_splits)
  next
    case (killed c)
    then show ?thesis using used guarded_refl [OF sound]
      by (intro drain_ok_next [OF assms(2), of "{}"]) (auto split: if_splits)
  next
    case (elsewhere w')
    then show ?thesis using used others_law [OF sound]
      by (intro drain_ok_next [OF assms(2), of "{}"]) auto
  qed
qed

lemma drain_steps_ok:
  assumes "(drain_step r others)\<^sup>*\<^sup>* (drain_start w) s" and "sound w" and "\<forall>c. leased w c = {}"
  shows "drain_ok s"
  using assms(1)
proof (induction rule: rtranclp_induct)
  case base
  then show ?case using assms(2,3) by (simp add: drain_ok_def drain_start_def)
qed (rule drain_step_ok)

text \<open>The two promises: what is marked was accepted, as far as \<open>sound\<close> says it, and a pass that ends leaves
  nothing leased by its claim.\<close>

lemma drain_sound:
  assumes "(drain_step r others)\<^sup>*\<^sup>* (drain_start w) s" and "sound w" and "\<forall>c. leased w c = {}"
  shows "sound (dr_world s)"
  using drain_steps_ok [OF assms] by (simp add: drain_ok_def)

lemma pass_releases:
  assumes "(drain_step r others)\<^sup>*\<^sup>* (drain_start w) s" and "sound w" and "\<forall>c. leased w c = {}"
    and "dr_scans s c = Some sc" and "remaining sc records" and "release r records (dr_world s) = (w', Ok [])"
  shows "leased w' c = {}"
proof -
  have "drain_ok s" using drain_steps_ok [OF assms(1-3)] .
  then have "sound (dr_world s)" "scan_ok (dr_world s) c sc" using assms(4) by (auto simp: drain_ok_def)
  from release_ok [OF this assms(5,6)] show ?thesis by simp
qed

end

end
