(* ===== verification/App_Drain.thy ===== *)
theory App_Drain
  imports App_Relay
begin

text \<open>
  The relay over the outbox of PostgreSQL: the world \<open>drain_world\<close> of one outbox table and one broker, the
  store of \<^verbatim>\<open>postgres/claim.go\<close> behind the relay's \<open>Store\<close> interface, and the discharge of the contract
  \<open>drain_contract\<close> for them. A statement may fail before or after it took effect and the broker may accept,
  refuse, accept and lose the confirmation, or panic: which one it is comes from the oracles \<open>dw_faults\<close> and
  \<open>dw_answers\<close>, over which the theorems quantify.
\<close>

section \<open>The world\<close>

datatype fault = NoFault | FaultBefore gerr | FaultAfter gerr

datatype broker_answer = Accepts | Refuses gerr | AcceptsUnconfirmed gerr | PublisherPanics string

record drain_world =
  dw_table :: outbox_table
  dw_accepted :: "(string \<times> bytes) list"
  dw_now :: Instant
  dw_row_locked :: "int \<Rightarrow> bool"
  dw_faults :: "nat \<Rightarrow> fault"
  dw_answers :: "nat \<Rightarrow> broker_answer"
  dw_calls :: nat

definition statement :: "(outbox_table \<Rightarrow> outbox_table \<times> 'a result) \<Rightarrow> drain_world \<Rightarrow> drain_world \<times> 'a result" where
  "statement run w =
     (let w1 = w\<lparr>dw_calls := dw_calls w + 1\<rparr> in
      case dw_faults w (dw_calls w) of
        FaultBefore e \<Rightarrow> (w1, Err e)
      | FaultAfter e \<Rightarrow> (w1\<lparr>dw_table := fst (run (dw_table w))\<rparr>, Err e)
      | NoFault \<Rightarrow> (case run (dw_table w) of (t, a) \<Rightarrow> (w1\<lparr>dw_table := t\<rparr>, a)))"

definition outbox_store :: "drain_world DrainStore" where
  "outbox_store = \<lparr>
     sto_Claim = (\<lambda>c limit lease w. statement (Outbox_Claim (dw_row_locked w) (dw_now w) c limit lease) w),
     sto_MarkPublished = (\<lambda>i c w. statement (MarkPublished (dw_now w) i c) w),
     sto_Reschedule = (\<lambda>i c available reason. statement (Reschedule available reason i c)),
     sto_Fail = (\<lambda>i c reason. statement (Outbox_Fail reason i c))\<rparr>"

definition broker_publish :: "string \<Rightarrow> bytes \<Rightarrow> drain_world \<Rightarrow> drain_world \<times> unit result" where
  "broker_publish destination message w =
     (let w1 = w\<lparr>dw_calls := dw_calls w + 1\<rparr>; w2 = w1\<lparr>dw_accepted := dw_accepted w @ [(destination, message)]\<rparr> in
      case dw_answers w (dw_calls w) of
        Accepts \<Rightarrow> (w2, Ok ())
      | Refuses e \<Rightarrow> (w1, Err e)
      | AcceptsUnconfirmed e \<Rightarrow> (w2, Err e)
      | PublisherPanics m \<Rightarrow> (w1, Panic m))"

text \<open>A relay over this world: its configuration is that of \<open>r\<close>, its collaborators are these.\<close>

definition outbox_relay :: "drain_world Relay \<Rightarrow> drain_world Relay" where
  "outbox_relay r = r\<lparr>rly_Store := outbox_store, rly_Publish := broker_publish, rly_Now := dw_now\<rparr>"

text \<open>What else happens: transactions that enqueue, the purge, and time with the locks of other transactions.\<close>

inductive elsewhere_step :: "drain_world \<Rightarrow> drain_world \<Rightarrow> bool" where
  enqueues: "fresh_row row \<Longrightarrow> elsewhere_step w (w\<lparr>dw_table := fst (insert_outbox row (dw_table w))\<rparr>)"
| purges: "elsewhere_step w (w\<lparr>dw_table := fst (PurgePublished (dw_row_locked w) scan_order before batch (dw_table w))\<rparr>)"
| passes: "elsewhere_step w (w\<lparr>dw_now := now, dw_row_locked := locked\<rparr>)"

section \<open>The contract holds\<close>

definition evidence :: "drain_world Relay \<Rightarrow> outbox_row \<Rightarrow> drain_world \<Rightarrow> bool" where
  "evidence r row w \<longleftrightarrow>
     (\<exists>m. assembled (rly_Marshal r) row (rly_Source r) = Ok m \<and> (ob_destination row, m) \<in> set (dw_accepted w))"

definition known_row :: "string \<Rightarrow> outbox_row \<Rightarrow> drain_world \<Rightarrow> bool" where
  "known_row c row w \<longleftrightarrow> claim_of row = c \<and> ob_id row < ot_next (dw_table w) \<and>
     (\<forall>row' \<in> set (ot_rows (dw_table w)). ob_id row' = ob_id row \<longrightarrow> same_message row row')"

definition sound_world :: "drain_world Relay \<Rightarrow> drain_world \<Rightarrow> bool" where
  "sound_world r w \<longleftrightarrow> table_ok (dw_table w) \<and>
     (\<forall>row \<in> set (ot_rows (dw_table w)). ob_status row = StatusPublished \<longrightarrow> evidence r row w)"

definition leased_ids :: "drain_world \<Rightarrow> string \<Rightarrow> int set" where
  "leased_ids w c = ob_id ` {row \<in> set (ot_rows (dw_table w)). ob_locked_by row = Some c \<and> ob_locked_until row \<noteq> None}"

lemma assembled_same_message:
  "same_message a b \<Longrightarrow> assembled marshal b source = assembled marshal a source"
  by (simp add: assembled_def Assemble_def same_message_def)

lemma evidence_same_message: "same_message a b \<Longrightarrow> evidence r a w \<Longrightarrow> evidence r b w"
  using assembled_same_message [of a b] by (auto simp: evidence_def same_message_def)

text \<open>A row after a change and the row it was: its message is the same, it is published only if it was or is
  one of \<open>marked\<close>, and leased only if it was or by one of \<open>claims\<close>.\<close>

definition comes_from :: "int set \<Rightarrow> string set \<Rightarrow> outbox_row \<Rightarrow> outbox_row \<Rightarrow> bool" where
  "comes_from marked claims row row' \<longleftrightarrow> same_message row row' \<and>
     (ob_status row' = StatusPublished \<longrightarrow> ob_status row = StatusPublished \<or> ob_id row \<in> marked) \<and>
     (ob_locked_until row' \<noteq> None \<longrightarrow> ob_locked_by row' = ob_locked_by row \<and> ob_locked_until row \<noteq> None \<or>
        (\<exists>c \<in> claims. ob_locked_by row' = Some c))"

lemma comes_from_refl [simp]: "comes_from marked claims row row"
  by (simp add: comes_from_def)

definition advances :: "int set \<Rightarrow> string set \<Rightarrow> outbox_table \<Rightarrow> outbox_table \<Rightarrow> bool" where
  "advances marked claims t t' \<longleftrightarrow> table_ok t' \<and> ot_next t \<le> ot_next t' \<and>
     (\<forall>row' \<in> set (ot_rows t').
        if ob_id row' < ot_next t then \<exists>row \<in> set (ot_rows t). comes_from marked claims row row'
        else ob_status row' = StatusPending)"

lemma advances_subset:
  assumes "table_ok t" and "table_ok t'" and "ot_next t' = ot_next t" and "set (ot_rows t') \<subseteq> set (ot_rows t)"
  shows "advances marked claims t t'"
proof -
  have "ob_id row < ot_next t \<and> (\<exists>row0 \<in> set (ot_rows t). comes_from marked claims row0 row)" if "row \<in> set (ot_rows t')" for row
    using that assms(1,4) comes_from_refl unfolding table_ok_def by blast
  then show ?thesis using assms(2,3) by (simp add: advances_def)
qed

lemma advances_refl: "table_ok t \<Longrightarrow> advances marked claims t t"
  by (rule advances_subset) auto

lemma advances_map:
  assumes "table_ok t" and "table_ok (t\<lparr>ot_rows := map f (ot_rows t)\<rparr>)"
    and from_row: "\<And>row. row \<in> set (ot_rows t) \<Longrightarrow> comes_from marked claims row (f row)"
  shows "advances marked claims t (t\<lparr>ot_rows := map f (ot_rows t)\<rparr>)"
proof -
  have "ob_id (f row) < ot_next t" if "row \<in> set (ot_rows t)" for row
    using assms(1) from_row [OF that] that by (auto simp: table_ok_def comes_from_def same_message_def)
  then show ?thesis using assms(2) from_row unfolding advances_def by auto
qed

lemma advances_old:
  "advances marked claims t t' \<Longrightarrow> row' \<in> set (ot_rows t') \<Longrightarrow> ob_id row' < ot_next t \<Longrightarrow>
     \<exists>row \<in> set (ot_rows t). comes_from marked claims row row'"
  unfolding advances_def by (metis (full_types))

lemma advances_new:
  "advances marked claims t t' \<Longrightarrow> row' \<in> set (ot_rows t') \<Longrightarrow> ob_status row' \<noteq> StatusPending \<Longrightarrow> ob_id row' < ot_next t"
  unfolding advances_def by (metis (full_types))

lemma advances_keeps:
  assumes "advances marked claims (dw_table w) (dw_table w')" and "sound_world r w"
    and "set (dw_accepted w) \<subseteq> set (dw_accepted w')"
    and "\<forall>row \<in> set (ot_rows (dw_table w)). ob_id row \<in> marked \<longrightarrow> evidence r row w"
  shows "drain_keeps (sound_world r) known_row (evidence r) leased_ids claims w w'"
proof -
  note A = assms(1) [unfolded advances_def]
  have ev: "evidence r row w \<Longrightarrow> evidence r row w'" for row using assms(3) by (auto simp: evidence_def)
  have sound: "sound_world r w'"
    unfolding sound_world_def
  proof (intro conjI ballI impI)
    fix row' assume row': "row' \<in> set (ot_rows (dw_table w'))" "ob_status row' = StatusPublished"
    then obtain row where "row \<in> set (ot_rows (dw_table w))" "comes_from marked claims row row'"
      using advances_old [OF assms(1)] advances_new [OF assms(1)] by force
    then have row: "row \<in> set (ot_rows (dw_table w))" "same_message row row'" "ob_status row = StatusPublished \<or> ob_id row \<in> marked"
      using row'(2) by (auto simp: comes_from_def)
    then have "evidence r row w" using assms(2,4) by (auto simp: sound_world_def)
    then show "evidence r row' w'" using ev evidence_same_message row(2) by blast
  qed (use A in simp)
  have known: "known_row c rec w'" if "known_row c rec w" for c rec
    unfolding known_row_def
  proof (intro conjI ballI impI)
    fix row' assume row': "row' \<in> set (ot_rows (dw_table w'))" "ob_id row' = ob_id rec"
    then have "ob_id row' < ot_next (dw_table w)" using that by (simp add: known_row_def)
    then obtain row where row: "row \<in> set (ot_rows (dw_table w))" "same_message row row'"
      using advances_old [OF assms(1) row'(1)] by (auto simp: comes_from_def)
    then have "ob_id row = ob_id rec" using row'(2) by (simp add: same_message_def)
    then have "same_message rec row" using that row(1) by (auto simp: known_row_def)
    then show "same_message rec row'" using row(2) same_message_trans by blast
  qed (use that A in \<open>auto simp: known_row_def\<close>)
  have leased: "leased_ids w' c \<subseteq> leased_ids w c" if "c \<notin> claims" for c
  proof
    fix i assume "i \<in> leased_ids w' c"
    then obtain row' where row': "row' \<in> set (ot_rows (dw_table w'))" "ob_locked_by row' = Some c"
        "ob_locked_until row' \<noteq> None" "ob_id row' = i"
      by (auto simp: leased_ids_def)
    have "outbox_row_ok row'" using A row'(1) by (auto simp: table_ok_def)
    then have "ob_status row' \<noteq> StatusPending" using row'(2) by (auto simp: outbox_row_ok_def)
    then obtain row where "row \<in> set (ot_rows (dw_table w))" "comes_from marked claims row row'"
      using advances_old [OF assms(1) row'(1)] advances_new [OF assms(1) row'(1)] by blast
    then have "row \<in> set (ot_rows (dw_table w))" "same_message row row'"
        "ob_locked_by row' = ob_locked_by row \<and> ob_locked_until row \<noteq> None \<or> (\<exists>c \<in> claims. ob_locked_by row' = Some c)"
      using row'(3) by (auto simp: comes_from_def)
    then show "i \<in> leased_ids w c" using row' that by (force simp: leased_ids_def same_message_def)
  qed
  show ?thesis using sound known ev leased by (simp add: drain_keeps_def)
qed

text \<open>Each operation advances the table.\<close>

lemma Claim_advances:
  assumes "table_ok t"
  shows "advances {} {c} t (fst (Outbox_Claim row_locked now c limit lease t))"
proof (cases "c = [] \<or> limit \<le> 0 \<or> lease \<le> 0")
  case True
  then show ?thesis using advances_refl [OF assms] by (auto simp: Outbox_Claim_def)
next
  case False
  define ids where "ids = eligible_ids row_locked now limit (ot_rows t)"
  define f where "f = (\<lambda>row. if ob_id row \<in> set ids then claim_row c (wrap64 (now + lease)) row else row)"
  have eq: "fst (Outbox_Claim row_locked now c limit lease t) = t\<lparr>ot_rows := map f (ot_rows t)\<rparr>"
    using False by (simp add: Outbox_Claim_def Let_def ids_def f_def)
  have "table_ok (t\<lparr>ot_rows := map f (ot_rows t)\<rparr>)"
    using step_table_ok [OF outbox_step.claimed [of now c t row_locked limit lease] assms] eq by simp
  then show ?thesis unfolding eq
    by (rule advances_map [OF assms]) (auto simp: f_def claim_row_def comes_from_def same_message_def)
qed

lemma transition_advances:
  assumes "table_ok t" and "table_ok (fst (transition_row g i c t))" and "\<And>row. same_message row (g row)"
    and "\<And>row. ob_locked_until (g row) = None"
    and "\<And>row. ob_status (g row) = StatusPublished \<Longrightarrow> ob_status row = StatusPublished \<or> i \<in> marked"
  shows "advances marked {} t (fst (transition_row g i c t))"
proof (cases "c = []")
  case True
  then show ?thesis using advances_refl [OF assms(1)] by (simp add: transition_row_def)
next
  case False
  then have eq: "fst (transition_row g i c t) = t\<lparr>ot_rows := map (\<lambda>row. if owned i c row then g row else row) (ot_rows t)\<rparr>"
    by (simp add: transition_row_def)
  show ?thesis unfolding eq
    by (rule advances_map [OF assms(1) assms(2) [unfolded eq]])
      (use assms(3-5) in \<open>auto simp: owned_def comes_from_def same_message_def\<close>)
qed

lemma MarkPublished_advances: "table_ok t \<Longrightarrow> advances {i} {} t (fst (MarkPublished now i c t))"
  unfolding MarkPublished_def
  by (rule transition_advances)
    (use step_table_ok [OF outbox_step.published [of now c t i]] in \<open>auto simp: MarkPublished_def same_message_def\<close>)

lemma Reschedule_advances: "table_ok t \<Longrightarrow> advances {} {} t (fst (Reschedule available reason i c t))"
  unfolding Reschedule_def
  by (rule transition_advances)
    (use step_table_ok [OF outbox_step.rescheduled [of _ c t available reason i]] in \<open>auto simp: Reschedule_def same_message_def\<close>)

lemma Fail_advances: "table_ok t \<Longrightarrow> advances {} {} t (fst (Outbox_Fail reason i c t))"
  unfolding Outbox_Fail_def
  by (rule transition_advances)
    (use step_table_ok [OF outbox_step.failed [of _ c t reason i]] in \<open>auto simp: Outbox_Fail_def same_message_def\<close>)

lemma insert_advances:
  assumes "table_ok t" and "fresh_row row"
  shows "advances {} {} t (fst (insert_outbox row t))"
proof (cases "fst (insert_outbox row t) = t")
  case True
  then show ?thesis using advances_refl [OF assms(1)] by simp
next
  case False
  then have eq: "fst (insert_outbox row t) = \<lparr>ot_rows = ot_rows t @ [row\<lparr>ob_id := ot_next t\<rparr>], ot_next = ot_next t + 1\<rparr>"
    by (auto simp: insert_outbox_def split: if_splits)
  have "table_ok (fst (insert_outbox row t))" using step_table_ok [OF outbox_step.enqueued] assms by blast
  moreover have "if ob_id row' < ot_next t then \<exists>row0 \<in> set (ot_rows t). comes_from {} {} row0 row' else ob_status row' = StatusPending"
    if "row' \<in> set (ot_rows t) \<or> row' = row\<lparr>ob_id := ot_next t\<rparr>" for row'
    using that
  proof
    assume "row' \<in> set (ot_rows t)"
    moreover from this have "ob_id row' < ot_next t" using assms(1) by (simp add: table_ok_def)
    ultimately show ?thesis using comes_from_refl by (metis (full_types))
  qed (use assms(2) in \<open>simp add: fresh_row_def\<close>)
  ultimately show ?thesis unfolding advances_def eq by auto
qed

lemma purge_advances:
  assumes "table_ok t"
  shows "advances {} {} t (fst (PurgePublished row_locked scan_order before batch t))"
proof (rule advances_subset [OF assms])
  show "table_ok (fst (PurgePublished row_locked scan_order before batch t))"
    using step_table_ok [OF outbox_step.purged] assms by blast
qed (auto simp: PurgePublished_def Let_def)

text \<open>What a successful transition leaves unleased.\<close>

lemma transition_unleases:
  assumes "snd (transition_row g i c t) = Ok n" and "\<And>row. ob_locked_until (g row) = None" and "\<And>row. ob_id (g row) = ob_id row"
    and "row \<in> set (ot_rows (fst (transition_row g i c t)))" and "ob_locked_by row = Some c" and "ob_id row = i"
  shows "ob_locked_until row = None"
  using assms by (auto simp: transition_row_def owned_def split: if_splits)

text \<open>A statement with its faults: the table advances as the operation does, and an answer is the operation's.\<close>

lemma statement_keeps:
  assumes "statement run w = (w', a)" and "sound_world r w" and "advances marked claims (dw_table w) (fst (run (dw_table w)))"
    and "\<forall>row \<in> set (ot_rows (dw_table w)). ob_id row \<in> marked \<longrightarrow> evidence r row w"
  shows "drain_keeps (sound_world r) known_row (evidence r) leased_ids claims w w' \<and>
    (\<forall>x. a = Ok x \<longrightarrow> run (dw_table w) = (dw_table w', Ok x))"
proof -
  have "advances marked claims (dw_table w) (dw_table w)" using assms(2) advances_refl by (simp add: sound_world_def)
  then have adv: "advances marked claims (dw_table w) (dw_table w')"
    and acc: "dw_accepted w' = dw_accepted w" and ans: "\<forall>x. a = Ok x \<longrightarrow> run (dw_table w) = (dw_table w', Ok x)"
    using assms(1,3) by (auto simp: statement_def Let_def split: fault.splits prod.splits)
  have "drain_keeps (sound_world r) known_row (evidence r) leased_ids claims w w'"
    by (rule advances_keeps [OF adv assms(2) _ assms(4)]) (simp add: acc)
  with ans show ?thesis by blast
qed

text \<open>A successful transition leaves the claim no lease on the row.\<close>

lemma transition_leased:
  assumes "statement (transition_row g i c) w = (w', a)" and "a = Ok n"
    and "\<forall>x. a = Ok x \<longrightarrow> transition_row g i c (dw_table w) = (dw_table w', Ok x)"
    and "\<And>row. ob_locked_until (g row) = None" and "\<And>row. ob_id (g row) = ob_id row"
  shows "i \<notin> leased_ids w' c"
proof -
  have "transition_row g i c (dw_table w) = (dw_table w', Ok n)" using assms(2,3) by blast
  then have "ob_locked_until row = None" if "row \<in> set (ot_rows (dw_table w'))" "ob_locked_by row = Some c" "ob_id row = i" for row
    using transition_unleases [of g i c "dw_table w" n row] assms(4,5) that by simp
  then show ?thesis by (auto simp: leased_ids_def)
qed

lemma Claim_known:
  assumes "Outbox_Claim row_locked now c limit lease t = (t', Ok rows)" and "table_ok t'" and "table_ok t" and "dw_table w' = t'"
  shows "(\<forall>rec \<in> set rows. known_row c rec w')"
    and "\<And>row. row \<in> set (ot_rows t') \<Longrightarrow> ob_id row \<notin> ob_id ` set rows \<Longrightarrow> row \<in> set (ot_rows t)"
proof -
  note C = Claim_Ok [OF assms(1)]
  have d: "distinct (map ob_id (ot_rows t'))" using assms(2) by (simp add: table_ok_def)
  show "\<forall>rec \<in> set rows. known_row c rec w'"
  proof
    fix rec assume "rec \<in> set rows"
    then have rec: "rec \<in> set (ot_rows t')" "ob_locked_by rec = Some c" by (auto simp: C(4,5) claim_row_def)
    have "same_message rec row" if "row \<in> set (ot_rows t')" "ob_id row = ob_id rec" for row
      using unique_row [OF d that(1) rec(1) that(2)] by simp
    then show "known_row c rec w'" using rec assms(2,4) by (auto simp: known_row_def claim_of_def table_ok_def)
  qed
  show "row \<in> set (ot_rows t)" if "row \<in> set (ot_rows t')" "ob_id row \<notin> ob_id ` set rows" for row
  proof -
    define ids where "ids = set (eligible_ids row_locked now limit (ot_rows t))"
    note mem = that(1) [unfolded C(4) set_map]
    then obtain row0 where row0: "row0 \<in> set (ot_rows t)" "row = (if ob_id row0 \<in> ids then claim_row c (wrap64 (now + lease)) row0 else row0)"
      unfolding ids_def by blast
    have "row \<notin> set rows" using that(2) by blast
    then have "ob_id row \<notin> ids" using that(1) by (simp add: C(5) ids_def)
    then have "ob_id row0 \<notin> ids" using row0(2) by (auto simp: claim_row_def)
    then show ?thesis using row0 by simp
  qed
qed

interpretation pg: drain_contract "outbox_relay r" elsewhere_step "sound_world r" known_row "evidence r" leased_ids for r
proof
  note relay = outbox_relay_def outbox_store_def
  fix w c w' a assume w: "sound_world r w"
    and s: "sto_Claim (rly_Store (outbox_relay r)) c (rly_BatchSize (outbox_relay r)) (rly_Lease (outbox_relay r)) w = (w', a)"
  have ok: "table_ok (dw_table w)" using w by (simp add: sound_world_def)
  have "statement (Outbox_Claim (dw_row_locked w) (dw_now w) c (rly_BatchSize r) (rly_Lease r)) w = (w', a)"
    using s by (simp add: relay)
  from statement_keeps [OF this w Claim_advances [OF ok]]
  have keep: "drain_keeps (sound_world r) known_row (evidence r) leased_ids {c} w w'"
    and ans: "\<forall>x. a = Ok x \<longrightarrow> Outbox_Claim (dw_row_locked w) (dw_now w) c (rly_BatchSize r) (rly_Lease r) (dw_table w) = (dw_table w', Ok x)"
    by auto
  have "table_ok (dw_table w')" using keep by (simp add: drain_keeps_def sound_world_def)
  note known = Claim_known [OF _ this ok refl]
  have "leased_ids w' c \<subseteq> leased_ids w c \<union> ob_id ` set rows" if "a = Ok rows" for rows
    using known(2) [OF ans [rule_format, OF that]] by (auto simp: leased_ids_def)
  then show "drain_keeps (sound_world r) known_row (evidence r) leased_ids {c} w w' \<and>
      (\<forall>rows. a = Ok rows \<longrightarrow> (\<forall>rec \<in> set rows. known_row c rec w') \<and> leased_ids w' c \<subseteq> leased_ids w c \<union> ob_id ` set rows)"
    using keep known(1) [OF ans [rule_format]] by blast
next
  fix w c rec m w' p assume w: "sound_world r w" and "known_row c rec w"
    and m: "assembled (rly_Marshal (outbox_relay r)) rec (rly_Source (outbox_relay r)) = Ok m"
    and p: "rly_Publish (outbox_relay r) (ob_destination rec) m w = (w', p)"
  have eq: "dw_table w' = dw_table w" "set (dw_accepted w) \<subseteq> set (dw_accepted w')"
      "p = Ok () \<longrightarrow> (ob_destination rec, m) \<in> set (dw_accepted w')"
    using p by (auto simp: outbox_relay_def broker_publish_def Let_def split: broker_answer.splits)
  have "advances {} {} (dw_table w) (dw_table w')" using advances_refl w eq(1) by (simp add: sound_world_def)
  from advances_keeps [OF this w eq(2)] show "drain_keeps (sound_world r) known_row (evidence r) leased_ids {} w w' \<and> (p = Ok () \<longrightarrow> evidence r rec w')"
    using eq(3) m by (auto simp: evidence_def outbox_relay_def)
next
  fix w c rec w' n assume w: "sound_world r w" and k: "known_row c rec w" and e: "evidence r rec w"
    and s: "sto_MarkPublished (rly_Store (outbox_relay r)) (ob_id rec) c w = (w', n)"
  have ok: "table_ok (dw_table w)" using w by (simp add: sound_world_def)
  have s: "statement (MarkPublished (dw_now w) (ob_id rec) c) w = (w', n)" using s by (simp add: outbox_relay_def outbox_store_def)
  have ev: "\<forall>row \<in> set (ot_rows (dw_table w)). ob_id row \<in> {ob_id rec} \<longrightarrow> evidence r row w"
    using k e evidence_same_message by (auto simp: known_row_def)
  note keep = statement_keeps [OF s w MarkPublished_advances [OF ok] ev]
  show "drain_keeps (sound_world r) known_row (evidence r) leased_ids {} w w' \<and> (\<forall>k. n = Ok k \<longrightarrow> ob_id rec \<notin> leased_ids w' c)"
    using keep transition_leased [OF s [unfolded MarkPublished_def] _ keep [unfolded MarkPublished_def, THEN conjunct2]] by auto
next
  fix w c rec available reason w' n assume w: "sound_world r w" and k: "known_row c rec w"
    and s: "sto_Reschedule (rly_Store (outbox_relay r)) (ob_id rec) c available reason w = (w', n)"
  have ok: "table_ok (dw_table w)" using w by (simp add: sound_world_def)
  have s: "statement (Reschedule available reason (ob_id rec) c) w = (w', n)" using s by (simp add: outbox_relay_def outbox_store_def)
  note keep = statement_keeps [OF s w Reschedule_advances [OF ok], simplified]
  show "drain_keeps (sound_world r) known_row (evidence r) leased_ids {} w w' \<and> (\<forall>k. n = Ok k \<longrightarrow> ob_id rec \<notin> leased_ids w' c)"
    using keep transition_leased [OF s [unfolded Reschedule_def] _ keep [unfolded Reschedule_def, THEN conjunct2]] by auto
next
  fix w c rec reason w' n assume w: "sound_world r w" and k: "known_row c rec w"
    and s: "sto_Fail (rly_Store (outbox_relay r)) (ob_id rec) c reason w = (w', n)"
  have ok: "table_ok (dw_table w)" using w by (simp add: sound_world_def)
  have s: "statement (Outbox_Fail reason (ob_id rec) c) w = (w', n)" using s by (simp add: outbox_relay_def outbox_store_def)
  note keep = statement_keeps [OF s w Fail_advances [OF ok], simplified]
  show "drain_keeps (sound_world r) known_row (evidence r) leased_ids {} w w' \<and> (\<forall>k. n = Ok k \<longrightarrow> ob_id rec \<notin> leased_ids w' c)"
    using keep transition_leased [OF s [unfolded Outbox_Fail_def] _ keep [unfolded Outbox_Fail_def, THEN conjunct2]] by auto
next
  fix w w' assume w: "sound_world r w" and "elsewhere_step w w'"
  have ok: "table_ok (dw_table w)" using w by (simp add: sound_world_def)
  from \<open>elsewhere_step w w'\<close> show "drain_keeps (sound_world r) known_row (evidence r) leased_ids {} w w'"
  proof cases
    case (enqueues row)
    then show ?thesis using insert_advances [OF ok] w by (intro advances_keeps) auto
  next
    case (purges scan_order before batch)
    then show ?thesis using purge_advances [OF ok] w by (intro advances_keeps) auto
  next
    case (passes now locked)
    then show ?thesis using advances_refl [OF ok] w by (intro advances_keeps) auto
  qed
qed (simp add: known_row_def)

section \<open>Properties\<close>

abbreviation drained :: "drain_world Relay \<Rightarrow> drain_world \<Rightarrow> drain_world drain \<Rightarrow> bool" where
  "drained r w s \<equiv> (drain_step (outbox_relay r) elsewhere_step)\<^sup>*\<^sup>* (drain_start w) s"

lemma empty_world:
  assumes "dw_table w = outbox_empty"
  shows "sound_world r w" "\<forall>c. leased_ids w c = {}"
  using assms outbox_empty_ok by (simp_all add: sound_world_def leased_ids_def outbox_empty_def)

text \<open>C1. At least once: whatever relays run over the outbox, however their deliveries interleave,
  whichever statements fail before or after they took effect, whenever a process dies, a row is marked
  published only if the broker accepted, under its destination, exactly the bytes of the envelope that its
  row assembles to.\<close>

theorem published_was_accepted:
  assumes "dw_table w = outbox_empty" and "drained r w s"
    and "row \<in> set (ot_rows (dw_table (dr_world s)))" and "ob_status row = StatusPublished"
  shows "\<exists>message. assembled (rly_Marshal r) row (rly_Source r) = Ok message \<and>
    (ob_destination row, message) \<in> set (dw_accepted (dr_world s))"
proof -
  have "sound_world r (dr_world s)" using pg.drain_sound [OF assms(2) empty_world [OF assms(1)]] .
  then show ?thesis using assms(3,4) by (auto simp: sound_world_def evidence_def)
qed

text \<open>C23. No claim is left to its lease: when a scan has ended and its release reported no failure, no row
  is leased under its claim any more, whether its delivery was published, rescheduled, failed, abandoned at
  shutdown, lost its claim or panicked, and whatever the statements in between did.\<close>

theorem pass_leaves_no_lease:
  assumes "dw_table w = outbox_empty" and "drained r w s" and "dr_scans s c = Some sc"
    and "remaining sc records" and "release (outbox_relay r) records (dr_world s) = (w', Ok [])"
    and "row \<in> set (ot_rows (dw_table w'))" and "ob_locked_by row = Some c"
  shows "ob_locked_until row = None"
proof -
  have "leased_ids w' c = {}"
    using pg.pass_releases [OF assms(2) empty_world [OF assms(1)] assms(3-5)] .
  then show ?thesis using assms(6,7) by (auto simp: leased_ids_def)
qed

lemma int_div_less:
  assumes "0 < d"
  shows "a div d < b \<longleftrightarrow> a < b * (d :: int)"
proof
  assume "a div d < b"
  then have "(a div d + 1) * d \<le> b * d" using assms by (intro mult_right_mono) auto
  moreover have "a < (a div d + 1) * d"
    using assms pos_mod_bound [of d a] div_mult_mod_eq [of a d] unfolding distrib_right by linarith
  ultimately show "a < b * d" by linarith
next
  assume "a < b * d"
  moreover have "a div d * d \<le> a" using assms pos_mod_sign [of d a] div_mult_mod_eq [of a d] by linarith
  ultimately have "a div d * d < b * d" by linarith
  then show "a div d < b" using assms by simp
qed

text \<open>The backoff window of an attempt is the base doubled per earlier attempt and capped, at every
  attempt count and without an overflow of the duration.\<close>

theorem windowFor_is_capped_doubling:
  assumes "0 < base" and "base \<le> cap" and "int64 cap"
  shows "windowFor base cap attempt = min cap (base * 2 ^ nat (max attempt 1 - 1)) \<and>
    base \<le> windowFor base cap attempt \<and> windowFor base cap attempt \<le> cap"
proof -
  define shift where "shift = nat (max attempt 1 - 1)"
  have s: "(if attempt < 1 then 1 else attempt) - 1 = int shift" by (simp add: shift_def)
  have far: "cap < base * 2 ^ shift" if "64 \<le> shift"
  proof -
    have "cap < 2 ^ 64" using assms(3) by (simp add: int64_def)
    also have "(2::int) ^ 64 \<le> 2 ^ shift" using that by (intro power_increasing) auto
    also have "(2::int) ^ shift \<le> base * 2 ^ shift" using assms(1) by simp
    finally show ?thesis .
  qed
  have above: "base > cap div 2 ^ shift \<longleftrightarrow> cap < base * 2 ^ shift"
    using int_div_less [of "2 ^ shift" cap base] by simp
  have grow: "base \<le> base * 2 ^ shift" using assms(1) by simp
  have eq: "windowFor base cap attempt = (if cap < base * 2 ^ shift then cap else base * 2 ^ shift)"
  proof (cases "cap < base * 2 ^ shift")
    case True
    then show ?thesis using assms(1) above by (simp add: windowFor_def s Let_def)
  next
    case False
    moreover have "- (2 ^ 63) \<le> base * 2 ^ shift" using assms(1) by (intro order_trans [OF _ zero_le_mult_iff [THEN iffD2]]) auto
    ultimately have "int64 (base * 2 ^ shift)" using assms(3) unfolding int64_def by linarith
    moreover have "shift < 64" using far False by (meson not_le)
    ultimately show ?thesis using False assms(1) above by (simp add: windowFor_def s Let_def)
  qed
  then show ?thesis using grow assms(2) by (simp add: shift_def [symmetric])
qed

theorem windowFor_is_capped_doubling_witness: "windowFor 1000 60000 5 = 16000 \<and> windowFor 1000 60000 200 = 60000"
  using windowFor_is_capped_doubling [of 1000 60000 5] windowFor_is_capped_doubling [of 1000 60000 200]
  by (simp add: int64_def)

section \<open>Across the broker\<close>

lemma encodeMetadata_lookup:
  "encodeMetadata mc tenant ''correlationid'' = (if mc_CorrelationID mc = [] then None else Some (JString (json_text (mc_CorrelationID mc))))"
  "encodeMetadata mc tenant ''causationid'' = (if mc_CausationID mc = [] then None else Some (JString (json_text (mc_CausationID mc))))"
  "encodeMetadata mc tenant ''traceparent'' = (if mc_Traceparent mc = [] then None else Some (JString (json_text (mc_Traceparent mc))))"
  "encodeMetadata mc tenant ''tracestate'' = (if mc_Tracestate mc = [] then None else Some (JString (json_text (mc_Tracestate mc))))"
  "encodeMetadata mc tenant ''tenantid'' = (if tenant = [] then None else Some (JString (json_text tenant)))"
  by (simp_all add: encodeMetadata_def)

lemma contextAttributes_encoded:
  assumes "contextAttributes (encodeMetadata mc tenant) = Ok attributes"
  shows "attr attributes ''correlationid'' = json_text (mc_CorrelationID mc)" "attr attributes ''causationid'' = json_text (mc_CausationID mc)"
    "attr attributes ''traceparent'' = json_text (mc_Traceparent mc)" "attr attributes ''tracestate'' = json_text (mc_Tracestate mc)"
    "attr attributes ''tenantid'' = json_text tenant"
  using assms
  by (auto simp: contextAttributes_def encodeMetadata_lookup meta_string_def attr_def Let_def split: if_splits)

lemma pg_Enqueue_Ok:
  assumes "pg_Enqueue p mapper ctx entry (t, writes) = ((t', writes'), Ok ())"
  obtains mapped m payload url row where
    "mapper (oe_Event entry) = Ok mapped" "checkMajor p mapped = Ok m" "pb_Pack p m = Ok (payload, url)"
    "ot_rows t' = ot_rows t @ [row]" "oe_MessageID entry \<notin> ob_message_id ` set (ot_rows t)"
    "row = \<lparr>ob_id = ot_next t, ob_message_id = oe_MessageID entry, ob_message_type = mpd_Type mapped,
            ob_schema_version = url, ob_aggregate_type = oe_AggregateType entry,
            ob_aggregate_id = oe_AggregateID entry, ob_aggregate_version = sint (oe_AggregateVersion entry),
            ob_partition_key = pi_PartitionKey (oe_Intent entry), ob_destination = pi_Destination (oe_Intent entry),
            ob_payload = payload, ob_payload_hash = hex_bytes (Sum256 payload),
            ob_metadata = encodeMetadata (oe_Context entry) (enqueueTenant ctx),
            ob_occurred_at = oe_OccurredAt entry, ob_available_at = oe_OccurredAt entry, ob_attempt_count = 0,
            ob_status = StatusPending, ob_locked_by = None, ob_locked_until = None, ob_published_at = None,
            ob_last_error = None\<rparr>"
  using assms
  by (auto simp: pg_Enqueue_def insert_outbox_def split: if_splits res.splits prod.splits)

text \<open>C25. The context of a message crosses the broker: an event enqueued under an execution, drained at any
  later time by a relay and unmarshalled by a consumer, has there the identifier, the aggregate, the
  correlation, the causation, the trace with its state and the tenant it was enqueued with, all of them UTF-8, and
  its payload is, byte for byte
  and by the hash the inbox compares, what the mapper's message packed to.\<close>

theorem context_crosses_the_broker:
  assumes "\<And>ce raw. proto_Marshal ce = Ok raw \<Longrightarrow> proto_Unmarshal raw = Ok ce"
    and "pg_Enqueue p mapper ctx entry (t, writes) = ((t', writes'), Ok ())"
    and "\<forall>v \<in> {mc_CorrelationID (oe_Context entry), mc_CausationID (oe_Context entry), mc_Traceparent (oe_Context entry),
      mc_Tracestate (oe_Context entry), enqueueTenant ctx}. utf8_valid v"
    and "written \<in> set (ot_rows t')" and "ob_message_id written = oe_MessageID entry"
    and "same_message written row" and "assembled proto_Marshal row source = Ok raw"
  shows "\<exists>e. Unmarshal proto_Unmarshal raw = Ok e \<and> env_ID e = oe_MessageID entry \<and> env_Source e = source \<and>
    env_Subject e = oe_AggregateID entry \<and> env_CorrelationID e = mc_CorrelationID (oe_Context entry) \<and>
    env_CausationID e = mc_CausationID (oe_Context entry) \<and> env_TraceParent e = mc_Traceparent (oe_Context entry) \<and>
    env_TraceState e = (if mc_Tracestate (oe_Context entry) = [] then None else Some (mc_Tracestate (oe_Context entry))) \<and>
    env_TenantID e = (if enqueueTenant ctx = [] then None else Some (enqueueTenant ctx)) \<and>
    (\<exists>mapped m. mapper (oe_Event entry) = Ok mapped \<and> checkMajor p mapped = Ok m \<and>
       pb_Pack p m = Ok (env_Payload e, env_DataSchema e) \<and> env_Type e = mpd_Type mapped) \<and>
    rcp_PayloadHash (receiptOf c e now) = ob_payload_hash row"
proof -
  obtain mapped m payload url new where E: "mapper (oe_Event entry) = Ok mapped" "checkMajor p mapped = Ok m"
      "pb_Pack p m = Ok (payload, url)" "ot_rows t' = ot_rows t @ [new]" "oe_MessageID entry \<notin> ob_message_id ` set (ot_rows t)"
      "ob_message_id new = oe_MessageID entry" "ob_message_type new = mpd_Type mapped" "ob_schema_version new = url"
      "ob_aggregate_id new = oe_AggregateID entry" "ob_payload new = payload" "ob_payload_hash new = hex_bytes (Sum256 payload)"
      "ob_metadata new = encodeMetadata (oe_Context entry) (enqueueTenant ctx)"
    using assms(2) by (rule pg_Enqueue_Ok) simp
  then have new: "written = new" using assms(4,5) by (auto simp: image_iff)
  obtain e where e: "Assemble row source = Ok e" "Marshal proto_Marshal e = Ok raw"
    using assms(7) by (auto simp: assembled_def)
  have u: "Unmarshal proto_Unmarshal raw = Ok e"
    using e(2) assms(1) Decode_Encode by (auto simp: Marshal_def Unmarshal_def)
  have same: "ob_message_id row = oe_MessageID entry" "ob_message_type row = mpd_Type mapped" "ob_schema_version row = url"
      "ob_aggregate_id row = oe_AggregateID entry" "ob_payload row = payload" "ob_payload_hash row = hex_bytes (Sum256 payload)"
      "ob_metadata row = encodeMetadata (oe_Context entry) (enqueueTenant ctx)"
    using assms(6) E new by (simp_all add: same_message_def)
  obtain attributes where A: "contextAttributes (encodeMetadata (oe_Context entry) (enqueueTenant ctx)) = Ok attributes"
      "e = \<lparr>env_ID = ob_message_id row, env_Source = source, env_SpecVersion = SpecVersion, env_Type = ob_message_type row,
         env_Subject = ob_aggregate_id row, env_Time = Some (timestamp_of (ob_occurred_at row)),
         env_DataSchema = ob_schema_version row, env_DataContentType = ContentType,
         env_CorrelationID = attr attributes ''correlationid'', env_CausationID = attr attributes ''causationid'',
         env_PartitionKey = ob_partition_key row, env_TraceParent = attr attributes ''traceparent'',
         env_AggregateVersion = Some (ob_aggregate_version row),
         env_TenantID = (if attr attributes ''tenantid'' = [] then None else Some (attr attributes ''tenantid'')),
         env_TraceState = (if attr attributes ''tracestate'' = [] then None else Some (attr attributes ''tracestate'')),
         env_Payload = ob_payload row\<rparr>"
    using e(1) same(7) by (auto simp: Assemble_def split: if_splits)
  show ?thesis
    using u E(1-3) same A(2) contextAttributes_encoded [OF A(1)] assms(3)
    by (intro exI [of _ e]) (simp add: receiptOf_def payload_hash_def json_text_valid)
qed

section \<open>One run\<close>

text \<open>An order enqueued under the tenant \<open>acme\<close>, and its way through a relay.\<close>

definition d_proto :: "unit proto" where
  "d_proto = \<lparr>pb_package = (\<lambda>_. ''acme.v1''), pb_Pack = (\<lambda>_. Ok ([7], ''type.googleapis.com/acme.v1.Placed''))\<rparr>"

definition d_mapper :: "unit \<Rightarrow> unit Mapped result" where
  "d_mapper _ = Ok \<lparr>mpd_Message = Some (), mpd_Type = ''acme.placed.v1''\<rparr>"

definition d_context :: ExecutionContext where
  "d_context = \<lparr>ec_requestID = ''r'', ec_correlationID = ''c'', ec_causationID = ''d'', ec_traceContext = ''t'', ec_subject = ''s'',
     ec_tenant = ''acme'', ec_permissions = [], ec_deadline = 100, ec_locale = ''pt'', ec_hasCausation = True, ec_hasSubject = True,
     ec_hasTenant = True\<rparr>"

definition d_entry :: "unit OutboxEntry" where
  "d_entry = \<lparr>oe_MessageID = ''m-1'', oe_OccurredAt = 10, oe_Intent = \<lparr>pi_Destination = ''acme.orders'', pi_PartitionKey = ''o-1''\<rparr>,
     oe_AggregateType = ''Order'', oe_AggregateID = ''o-1'', oe_AggregateVersion = 1, oe_Event = (),
     oe_Context = \<lparr>mc_CorrelationID = ''c'', mc_CausationID = ''d'', mc_Traceparent = ''tp'', mc_Tracestate = ''v=1''\<rparr>\<rparr>"

definition d_row :: outbox_row where
  "d_row = \<lparr>ob_id = 1, ob_message_id = ''m-1'', ob_message_type = ''acme.placed.v1'',
     ob_schema_version = ''type.googleapis.com/acme.v1.Placed'', ob_aggregate_type = ''Order'', ob_aggregate_id = ''o-1'',
     ob_aggregate_version = 1, ob_partition_key = ''o-1'', ob_destination = ''acme.orders'', ob_payload = [7],
     ob_payload_hash = hex_bytes (Sum256 [7]),
     ob_metadata = encodeMetadata \<lparr>mc_CorrelationID = ''c'', mc_CausationID = ''d'', mc_Traceparent = ''tp'', mc_Tracestate = ''v=1''\<rparr> ''acme'',
     ob_occurred_at = 10, ob_available_at = 10, ob_attempt_count = 0, ob_status = StatusPending, ob_locked_by = None,
     ob_locked_until = None, ob_published_at = None, ob_last_error = None\<rparr>"

definition d_envelope :: Envelope where
  "d_envelope = \<lparr>env_ID = ''m-1'', env_Source = ''/orders'', env_SpecVersion = ''1.0'', env_Type = ''acme.placed.v1'',
     env_Subject = ''o-1'', env_Time = Some \<lparr>ts_seconds = 0, ts_nanos = 10\<rparr>,
     env_DataSchema = ''type.googleapis.com/acme.v1.Placed'', env_DataContentType = ''application/protobuf'',
     env_CorrelationID = ''c'', env_CausationID = ''d'', env_PartitionKey = ''o-1'', env_TraceParent = ''tp'',
     env_AggregateVersion = Some 1, env_TenantID = Some ''acme'', env_TraceState = Some ''v=1'', env_Payload = [7]\<rparr>"

definition d_event :: CloudEvent where
  "d_event = (case Encode d_envelope of Ok ce \<Rightarrow> ce | _ \<Rightarrow> undefined)"

definition d_marshal :: "CloudEvent \<Rightarrow> bytes result" where
  "d_marshal ce = (if ce = d_event then Ok [10] else Fail ErrMalformed)"

definition d_unmarshal :: "bytes \<Rightarrow> CloudEvent result" where
  "d_unmarshal raw = (if raw = [10] then Ok d_event else Fail ErrMalformed)"

lemma d_wire: "d_marshal ce = Ok raw \<Longrightarrow> d_unmarshal raw = Ok ce"
  by (auto simp: d_marshal_def d_unmarshal_def split: if_splits)

lemma d_Marshal: "Marshal d_marshal d_envelope = Ok [10]"
proof -
  have "Envelope_Validate d_envelope = Ok ()" by code_simp
  then obtain ce where "Encode d_envelope = Ok ce" by (auto simp: Encode_def Let_def)
  then show ?thesis by (simp add: Marshal_def d_marshal_def d_event_def)
qed

lemma d_valid: "utf8_valid ''c''" "utf8_valid ''d''" "utf8_valid ''tp''" "utf8_valid ''v=1''" "utf8_valid ''acme''"
  by code_simp+

lemma d_contextAttributes:
  "contextAttributes (ob_metadata d_row) =
     Ok [''correlationid'' \<mapsto> ''c'', ''causationid'' \<mapsto> ''d'', ''traceparent'' \<mapsto> ''tp'', ''tenantid'' \<mapsto> ''acme'',
       ''tracestate'' \<mapsto> ''v=1'']"
  by (simp add: d_row_def contextAttributes_def encodeMetadata_lookup meta_string_def json_text_valid d_valid)

lemma d_assembled: "same_message d_row row \<Longrightarrow> assembled d_marshal row ''/orders'' = Ok [10]"
proof -
  have "Assemble d_row ''/orders'' = Ok d_envelope"
    unfolding Assemble_def d_contextAttributes
    by (simp add: d_row_def d_envelope_def payload_hash_def attr_def timestamp_of_def SpecVersion_def ContentType_def)
  then have "assembled d_marshal d_row ''/orders'' = Ok [10]" by (simp add: assembled_def d_Marshal)
  then show "same_message d_row row \<Longrightarrow> assembled d_marshal row ''/orders'' = Ok [10]"
    using assembled_same_message [of d_row row d_marshal "''/orders''"] by simp
qed

lemma d_row_storable: "texts_storable d_row" "metadata_storable (ob_metadata d_row)"
proof -
  have "list_all pg_text [''m-1'', ''acme.placed.v1'', ''type.googleapis.com/acme.v1.Placed'', ''Order'', ''o-1'', ''acme.orders'']"
    by code_simp
  then show "texts_storable d_row"
    by (simp add: texts_storable_def d_row_def pg_text_hex)
  show "metadata_storable (ob_metadata d_row)"
    by (simp add: metadata_storable_def metadataKeys_def d_row_def encodeMetadata_lookup json_text_valid d_valid)
qed

definition d_written :: outbox_table where
  "d_written = \<lparr>ot_rows = [d_row], ot_next = 2\<rparr>"

lemma d_pack: "pb_Pack d_proto m = Ok ([7], ''type.googleapis.com/acme.v1.Placed'')"
  by (simp add: d_proto_def)

lemma d_enqueued:
  "pg_Enqueue d_proto d_mapper (WithExecutionContext background d_context) d_entry (outbox_empty, 0) = ((d_written, 1), Ok ())"
proof -
  have "checkDestination ''acme.orders'' = Ok ()" by code_simp
  moreover have "checkMajor d_proto \<lparr>mpd_Message = Some (), mpd_Type = ''acme.placed.v1''\<rparr> = Ok ()" by code_simp
  moreover have "enqueueTenant (WithExecutionContext background d_context) = ''acme''"
    by (simp add: enqueueTenant_def ExecutionContextFrom_def WithExecutionContext_def ec_Tenant_def d_context_def)
  ultimately show ?thesis
    using d_row_storable
    by (simp add: pg_Enqueue_def d_entry_def d_mapper_def d_pack insert_outbox_def outbox_empty_def d_written_def d_row_def texts_storable_def)
qed

theorem context_crosses_the_broker_witness:
  "\<exists>e. Unmarshal d_unmarshal [10] = Ok e \<and> env_TenantID e = Some ''acme'' \<and> env_CorrelationID e = ''c'' \<and>
     env_TraceState e = Some ''v=1'' \<and> env_Payload e = [7]"
proof -
  have row: "d_row \<in> set (ot_rows d_written)" "ob_message_id d_row = oe_MessageID d_entry"
    by (simp_all add: d_written_def d_row_def d_entry_def)
  have tenant: "enqueueTenant (WithExecutionContext background d_context) = ''acme''"
    by (simp add: enqueueTenant_def ExecutionContextFrom_def WithExecutionContext_def ec_Tenant_def d_context_def)
  have valid: "\<forall>v \<in> {mc_CorrelationID (oe_Context d_entry), mc_CausationID (oe_Context d_entry), mc_Traceparent (oe_Context d_entry),
      mc_Tracestate (oe_Context d_entry), enqueueTenant (WithExecutionContext background d_context)}. utf8_valid v"
    using d_valid by (simp add: tenant d_entry_def)
  obtain e where "Unmarshal d_unmarshal [10] = Ok e" "env_CorrelationID e = mc_CorrelationID (oe_Context d_entry)"
      "env_TenantID e = (if enqueueTenant (WithExecutionContext background d_context) = [] then None
         else Some (enqueueTenant (WithExecutionContext background d_context)))"
      "env_TraceState e = (if mc_Tracestate (oe_Context d_entry) = [] then None else Some (mc_Tracestate (oe_Context d_entry)))"
      "\<exists>m. pb_Pack d_proto m = Ok (env_Payload e, env_DataSchema e)"
    using context_crosses_the_broker [where now = 0 and c = sample_consumer and proto_Marshal = d_marshal and
        proto_Unmarshal = d_unmarshal, OF d_wire d_enqueued valid row same_message_refl d_assembled [OF same_message_refl]] by blast
  then show ?thesis by (auto simp: tenant d_entry_def d_proto_def)
qed

definition d_relay :: "drain_world Relay" where
  "d_relay = \<lparr>rly_Nil = False, rly_Store = outbox_store, rly_Publish = broker_publish, rly_Now = dw_now, rly_Source = ''/orders'',
     rly_Interval = 1, rly_BatchSize = 1, rly_Lease = 5, rly_Concurrency = 1, rly_MaxAttempts = 3, rly_Backoff = None,
     rly_Done = (\<lambda>_. False), rly_Text = (\<lambda>_. []), rly_TypeName = (\<lambda>_. []), rly_Marshal = d_marshal\<rparr>"

definition d_world :: drain_world where
  "d_world = \<lparr>dw_table = outbox_empty, dw_accepted = [], dw_now = 12, dw_row_locked = (\<lambda>_. False), dw_faults = (\<lambda>_. NoFault),
     dw_answers = (\<lambda>_. Accepts), dw_calls = 0\<rparr>"

definition d_claimed :: outbox_row where
  "d_claimed = claim_row ''k'' 17 d_row"

definition d_published :: outbox_row where
  "d_published = d_claimed\<lparr>ob_status := StatusPublished, ob_published_at := Some 12, ob_locked_until := None, ob_last_error := None\<rparr>"

definition d_scan :: "flight \<Rightarrow> scan" where
  "d_scan f = \<lparr>sc_claimed = [d_claimed], sc_flights = [f], sc_holding = [1 \<mapsto> d_claimed], sc_failure = None\<rparr>"

definition d_at :: "drain_world \<Rightarrow> scan \<Rightarrow> drain_world drain" where
  "d_at w sc = \<lparr>dr_world = w, dr_scans = [''k'' \<mapsto> sc], dr_used = {''k''}\<rparr>"

definition d_table :: "outbox_row \<Rightarrow> outbox_table" where
  "d_table row = \<lparr>ot_rows = [row], ot_next = 2\<rparr>"

lemmas d_defs = d_relay_def d_world_def d_claimed_def d_published_def d_scan_def d_at_def d_table_def outbox_relay_def
  outbox_store_def statement_def broker_publish_def

text \<open>Enqueued, claimed, given a slot, sent and settled.\<close>

lemma d_run:
  "drained d_relay d_world
     (d_at (d_world\<lparr>dw_table := d_table d_published, dw_accepted := [(''acme.orders'', [10])], dw_calls := 3\<rparr>)
        (land 0 DispositionPublished None (d_scan (Answered (None, None)))))"
proof -
  let ?step = "drain_step (outbox_relay d_relay) elsewhere_step"
  let ?w1 = "d_world\<lparr>dw_table := d_written\<rparr>" and ?w2 = "d_world\<lparr>dw_table := d_table d_claimed, dw_calls := 1\<rparr>"
  let ?w3 = "d_world\<lparr>dw_table := d_table d_claimed, dw_accepted := [(''acme.orders'', [10])], dw_calls := 2\<rparr>"
  let ?w4 = "d_world\<lparr>dw_table := d_table d_published, dw_accepted := [(''acme.orders'', [10])], dw_calls := 3\<rparr>"
  have el: "eligible 12 d_row" by (simp add: eligible_def d_row_def metadata_text_def encodeMetadata_lookup)
  have "fst (insert_outbox d_row outbox_empty) = d_written"
    by (simp add: insert_outbox_def d_row_storable) (simp add: outbox_empty_def d_written_def d_row_def)
  moreover have "fresh_row d_row" by (simp add: fresh_row_def d_row_def)
  ultimately have 1: "?step (drain_start d_world) (drain_start ?w1)"
    using drain_step.elsewhere [of elsewhere_step "drain_start d_world" ?w1 "outbox_relay d_relay"] elsewhere_step.enqueues [of d_row d_world]
    by (simp add: drain_start_def d_world_def)
  have "Outbox_Claim (\<lambda>_. False) 12 ''k'' 1 5 d_written = (d_table d_claimed, Ok [d_claimed])"
    using el by (simp add: Outbox_Claim_def eligible_ids_def d_written_def d_table_def d_claimed_def claim_row_def wrap64_def Let_def)
  then have 2: "?step (drain_start ?w1) (d_at ?w2 (scan_start [d_claimed]))"
    using drain_step.claimed [where c = "''k''" and r = "outbox_relay d_relay" and others = elsewhere_step and s = "drain_start ?w1" and w' = ?w2 and rows = "[d_claimed]"]
    by (simp add: drain_start_def d_at_def d_relay_def outbox_relay_def outbox_store_def statement_def d_world_def)
  have start: "scan_start [d_claimed] = d_scan Queued"
    by (simp add: scan_start_def d_scan_def d_claimed_def claim_row_def d_row_def)
  have work: "?step (d_at w sc) (d_at w' sc')" if "scan_step (outbox_relay d_relay) (sc, w) (sc', w')" for sc w sc' w'
    using drain_step.working [where s = "d_at w sc" and c = "''k''" and sc = sc and sc' = sc' and w' = w' and r = "outbox_relay d_relay" and others = elsewhere_step] that
    by (simp add: d_at_def)
  have 3: "scan_step (outbox_relay d_relay) (d_scan Queued, ?w2) (d_scan Publishing, ?w2)"
    using scan_step.slot [of 0 "d_scan Queued" "outbox_relay d_relay" ?w2] by (simp add: d_scan_def fly_def d_relay_def outbox_relay_def)
  have same: "same_message d_row d_claimed" by (simp add: d_claimed_def claim_row_def same_message_def)
  have "relay_send (outbox_relay d_relay) d_claimed ?w2 = (?w3, Returned (None, None))"
    using d_assembled [OF same]
    by (simp add: relay_send_def outbox_relay_def d_relay_def broker_publish_def d_world_def Let_def d_claimed_def claim_row_def d_row_def)
  then have 4: "scan_step (outbox_relay d_relay) (d_scan Publishing, ?w2) (d_scan (Answered (None, None)), ?w3)"
    using scan_step.sent [of 0 "d_scan Publishing" "outbox_relay d_relay" ?w2 ?w3 "(None, None)"] by (simp add: d_scan_def fly_def)
  have "MarkPublished 12 1 ''k'' (d_table d_claimed) = (d_table d_published, Ok 1)"
    by (simp add: MarkPublished_def transition_row_def d_table_def d_published_def d_claimed_def claim_row_def owned_def d_row_def)
  then have "conclude (outbox_relay d_relay) d_claimed (None, None) ?w3 = (?w4, Returned (DispositionPublished, None))"
    by (simp add: conclude_def outbox_relay_def outbox_store_def statement_def d_world_def settle_def Let_def)
      (simp add: d_claimed_def claim_row_def d_row_def claim_of_def)
  then have 5: "scan_step (outbox_relay d_relay) (d_scan (Answered (None, None)), ?w3)
      (land 0 DispositionPublished None (d_scan (Answered (None, None))), ?w4)"
    using scan_step.settled [of 0 "d_scan (Answered (None, None))" "(None, None)" "outbox_relay d_relay" ?w3 ?w4 DispositionPublished None]
    by (simp add: d_scan_def)
  show ?thesis
    using 1 2 [unfolded start] work [OF 3] work [OF 4] work [OF 5] by (meson converse_rtranclp_into_rtranclp rtranclp.rtrancl_refl)
qed

theorem published_was_accepted_witness:
  "\<exists>message. assembled d_marshal d_published ''/orders'' = Ok message \<and> (''acme.orders'', message) \<in> {(''acme.orders'', [10])}"
  using published_was_accepted [OF _ d_run, of d_published]
  by (simp add: d_world_def d_at_def d_table_def d_relay_def) (simp add: d_published_def d_claimed_def claim_row_def d_row_def)

theorem pass_leaves_no_lease_witness: "ob_locked_until d_published = None \<and> ob_locked_by d_published = Some ''k''"
  using pass_leaves_no_lease [OF _ d_run, of "''k''" _ "[]" _ d_published]
  by (simp add: d_at_def d_world_def d_table_def release_def remaining_def land_def fly_def d_scan_def d_published_def d_claimed_def claim_row_def d_row_def)

end
