(* ===== verification/Postgres_Tx.thy ===== *)
theory Postgres_Tx
  imports Postgres_Outbox
begin

text \<open>
  A transaction of the PostgreSQL provider, \<^verbatim>\<open>libs/backend/go/postgres/uow.go\<close>, at READ COMMITTED. A
  statement is a function on the table it works on; each statement sees what other transactions have
  committed before it, so between two statements of one transaction the table may change. What the others
  commit, and which statement the driver or the server fails, are arguments: the record \<open>pg_env\<close>. A
  transaction keeps the rows it locked, and a log of its own statements, from which its guarantee is stated.
\<close>

section \<open>Statements and connections\<close>

text \<open>\<open>pe_others n locks t\<close> is the table the \<open>n\<close>-th statement finds where the previous one left \<open>t\<close>.\<close>

record ('t, 'k) pg_env =
  pe_others :: "nat \<Rightarrow> 'k list \<Rightarrow> 't \<Rightarrow> 't"
  pe_fault :: "nat \<Rightarrow> gerr option"
  pe_begin :: "gerr option"
  pe_commit :: "gerr option"

record ('t, 'k) pg_conn =
  pc_table :: 't
  pc_log :: "('t \<times> 't) list"
  pc_locks :: "'k list"

text \<open>A statement: the new table, the rows it locks and its answer.\<close>

type_synonym ('t, 'k, 'a) pg_statement = "'t \<Rightarrow> 't \<times> 'k list \<times> 'a result"

definition pg_exec ::
    "('t, 'k) pg_env \<Rightarrow> ('t, 'k, 'a) pg_statement \<Rightarrow> ('t, 'k) pg_conn \<Rightarrow> ('t, 'k) pg_conn \<times> 'a result" where
  "pg_exec env statement c =
     (let n = length (pc_log c); t = pe_others env n (pc_locks c) (pc_table c) in
      case pe_fault env n of
        Some e \<Rightarrow> (c\<lparr>pc_table := t, pc_log := pc_log c @ [(t, t)]\<rparr>, Err e)
      | None \<Rightarrow>
          (case statement t of (t', ks, r) \<Rightarrow>
             (\<lparr>pc_table = t', pc_log = pc_log c @ [(t, t')], pc_locks = ks @ pc_locks c\<rparr>, r)))"

text \<open>The early return of an error, statement after statement.\<close>

definition pg_bind :: "('s \<Rightarrow> 's \<times> 'a result) \<Rightarrow> ('a \<Rightarrow> 's \<Rightarrow> 's \<times> 'b result) \<Rightarrow> 's \<Rightarrow> 's \<times> 'b result" where
  "pg_bind m f s =
     (case m s of (s', Ok a) \<Rightarrow> f a s' | (s', Err e) \<Rightarrow> (s', Err e) | (s', Panic p) \<Rightarrow> (s', Panic p))"

definition pg_return :: "'a result \<Rightarrow> 's \<Rightarrow> 's \<times> 'a result" where
  "pg_return r s = (s, r)"

section \<open>The unit of work\<close>

definition pg_opened :: "'t \<Rightarrow> ('t, 'k) pg_conn" where
  "pg_opened t = \<lparr>pc_table = t, pc_log = [], pc_locks = []\<rparr>"

text \<open>
  \<open>Within\<close>: nothing is opened for a dead context; the callback's error or panic rolls back, and so does a
  failed commit. The rollback's own error only joins the callback's. The table of the answer is the one of a
  database this transaction has for itself.
\<close>

definition pg_Within ::
    "('t, 'k) pg_env \<Rightarrow> carrier \<Rightarrow> (carrier \<Rightarrow> ('t, 'k) pg_conn \<Rightarrow> ('t, 'k) pg_conn \<times> 'a result) \<Rightarrow> 't \<Rightarrow> 't \<times> 'a result" where
  "pg_Within env ctx fn t =
     (case ctx_err ctx of
        Some e \<Rightarrow> (t, Err e)
      | None \<Rightarrow>
          (case pe_begin env of
             Some e \<Rightarrow> (t, Err e)
           | None \<Rightarrow>
               (case fn ctx (pg_opened t) of
                  (c, Ok a) \<Rightarrow> (case pe_commit env of None \<Rightarrow> (pc_table c, Ok a) | Some e \<Rightarrow> (t, Err e))
                | (c, Err e) \<Rightarrow> (t, Err e)
                | (c, Panic m) \<Rightarrow> (t, Panic m))))"

text \<open>No other transaction writes; the faults are still arbitrary.\<close>

definition pg_alone :: "('t, 'k) pg_env \<Rightarrow> bool" where
  "pg_alone env \<longleftrightarrow> (\<forall>n ks t. pe_others env n ks t = t)"

definition pg_sound :: "('t, 'k) pg_env \<Rightarrow> bool" where
  "pg_sound env \<longleftrightarrow> pe_begin env = None \<and> pe_commit env = None \<and> (\<forall>n. pe_fault env n = None)"

definition pg_quiet :: "('t, 'k) pg_env" where
  "pg_quiet = \<lparr>pe_others = (\<lambda>_ _ t. t), pe_fault = (\<lambda>_. None), pe_begin = None, pe_commit = None\<rparr>"

section \<open>The tenant of a statement\<close>

text \<open>\<open>tenantOf\<close> of \<^verbatim>\<open>table.go\<close>, the one place a scope is resolved.\<close>

definition pg_tenantOf :: "carrier \<Rightarrow> TenantID result" where
  "pg_tenantOf ctx =
     res_bind (RequireExecutionContext ctx) (\<lambda>execution.
       case ec_Tenant execution of None \<Rightarrow> Fail Pg_ErrTenantUnresolved | Some tenant \<Rightarrow> Ok tenant)"

section \<open>Running statements\<close>

lemma pg_quiet_simps [simp]: "pg_alone pg_quiet" "pg_sound pg_quiet"
  by (simp_all add: pg_quiet_def pg_alone_def pg_sound_def)

lemma pg_exec_quiet [simp]:
  "pg_exec pg_quiet statement c =
     (case statement (pc_table c) of (t', ks, r) \<Rightarrow>
        (\<lparr>pc_table = t', pc_log = pc_log c @ [(pc_table c, t')], pc_locks = ks @ pc_locks c\<rparr>, r))"
  by (simp add: pg_exec_def pg_quiet_def Let_def)

lemma pg_exec_alone:
  "pg_alone env \<Longrightarrow> pg_exec env statement c =
     (case pe_fault env (length (pc_log c)) of
        Some e \<Rightarrow> (c\<lparr>pc_log := pc_log c @ [(pc_table c, pc_table c)]\<rparr>, Err e)
      | None \<Rightarrow>
          (case statement (pc_table c) of (t', ks, r) \<Rightarrow>
             (\<lparr>pc_table = t', pc_log = pc_log c @ [(pc_table c, t')], pc_locks = ks @ pc_locks c\<rparr>, r)))"
  by (simp add: pg_exec_def pg_alone_def Let_def split: option.splits)

lemma pg_bind_cases:
  assumes "pg_bind m f s = (s', r)"
  obtains (ok) s1 a where "m s = (s1, Ok a)" "f a s1 = (s', r)"
  | (err) e where "m s = (s', Err e)" "r = Err e"
  | (panic) p where "m s = (s', Panic p)" "r = Panic p"
  using assms by (auto simp: pg_bind_def split: prod.splits res.splits)

lemma pg_bind_simps [simp]:
  "m s = (s1, Ok a) \<Longrightarrow> pg_bind m f s = f a s1"
  "m s = (s1, Err e) \<Longrightarrow> pg_bind m f s = (s1, Err e)"
  "m s = (s1, Panic p) \<Longrightarrow> pg_bind m f s = (s1, Panic p)"
  by (simp_all add: pg_bind_def)

lemma pg_bind_assoc [simp]: "pg_bind (pg_bind m f) g = pg_bind m (\<lambda>x. pg_bind (f x) g)"
  by (simp add: fun_eq_iff pg_bind_def split: prod.splits res.splits)

lemma pg_Within_cases:
  assumes "pg_Within env ctx fn t = (t', r)"
  obtains (committed) c a where "fn ctx (pg_opened t) = (c, Ok a)" "t' = pc_table c" "r = Ok a"
  | (refused) e where "t' = t" "r = Err e"
  | (panicked) m where "t' = t" "r = Panic m"
  using assms by (auto simp: pg_Within_def split: option.splits prod.splits res.splits)

section \<open>The guarantee of a transaction\<close>

text \<open>
  \<open>pg_relies R lockR env\<close>: what the others do between two statements is an \<open>R\<close> transition of every table,
  and leaves the locked rows as \<open>lockR\<close> says. \<open>pg_guarantees R c c'\<close>: of the statements from \<open>c\<close> to \<open>c'\<close>, each
  was an \<open>R\<close> transition.
\<close>

definition pg_relies :: "('t \<Rightarrow> 't \<Rightarrow> bool) \<Rightarrow> ('k list \<Rightarrow> 't \<Rightarrow> 't \<Rightarrow> bool) \<Rightarrow> ('t, 'k) pg_env \<Rightarrow> bool" where
  "pg_relies R locked env \<longleftrightarrow> (\<forall>n ks t. R t (pe_others env n ks t) \<and> locked ks t (pe_others env n ks t))"

definition pg_guarantees :: "('t \<Rightarrow> 't \<Rightarrow> bool) \<Rightarrow> ('t, 'k) pg_conn \<Rightarrow> bool" where
  "pg_guarantees R c \<longleftrightarrow> (\<forall>(t, t') \<in> set (pc_log c). R t t')"

lemma pg_guarantees_opened [simp]: "pg_guarantees R (pg_opened t)"
  by (simp add: pg_guarantees_def pg_opened_def)

text \<open>One statement, from what it may rely on: the table it runs on is an \<open>R\<close> successor of the connection's.\<close>

lemma pg_exec_cases:
  assumes "pg_exec env statement c = (c', r)" and "pg_relies R locked env"
  obtains (fault) t e where "R (pc_table c) t" "locked (pc_locks c) (pc_table c) t"
      "pc_table c' = t" "pc_log c' = pc_log c @ [(t, t)]" "pc_locks c' = pc_locks c" "r = Err e"
  | (executed) t t' ks where "R (pc_table c) t" "locked (pc_locks c) (pc_table c) t"
      "statement t = (t', ks, r)" "pc_table c' = t'" "pc_log c' = pc_log c @ [(t, t')]" "pc_locks c' = ks @ pc_locks c"
proof -
  let ?t = "pe_others env (length (pc_log c)) (pc_locks c) (pc_table c)"
  have R: "R (pc_table c) ?t" "locked (pc_locks c) (pc_table c) ?t"
    using assms(2) by (simp_all add: pg_relies_def)
  show thesis
  proof (cases "pe_fault env (length (pc_log c))")
    case (Some e)
    with assms(1) show thesis
      by (intro fault [OF R]) (auto simp: pg_exec_def Let_def)
  next
    case None
    obtain t' ks r' where "statement ?t = (t', ks, r')"
      by (cases "statement ?t")
    with None assms(1) show thesis
      by (intro executed [OF R, of t' ks]) (auto simp: pg_exec_def Let_def)
  qed
qed

end
