(* ===== verification/Postgres_Ledger.thy ===== *)
theory Postgres_Ledger
  imports Memory_Ledger Postgres_Tx
begin

text \<open>
  The attempt ledger of the PostgreSQL provider, \<^verbatim>\<open>libs/backend/go/postgres/attempt_ledger.go\<close>, with its table
  \<open>external_attempt\<close> and the purge of finished attempts (\<open>purge.go\<close>). The rows of the table are a list in no
  particular order. The two results are that, alone in the database, it answers as the ledger of package
  \<open>memory\<close> does, and that under READ COMMITTED, whatever other transactions do between its statements,
  a key never has two attempts in flight and what was recorded stays.
\<close>

section \<open>Rows\<close>

datatype attempt_state = AttemptBegun | AttemptFinished

text \<open>A nullable column is an option; an enumeration's number is its value, of which only declared ones are written.\<close>

record ext_conflict =
  xc_class :: "ExternalClass option"
  xc_finding :: "Finding option"
  xc_at :: Instant

record ext_row =
  xa_tenant :: TenantID
  xa_key :: OutboundKey
  xa_attempt :: int
  xa_message :: MessageID
  xa_state :: attempt_state
  xa_started :: Instant
  xa_finished :: "Instant option"
  xa_class :: "ExternalClass option"
  xa_finding :: "Finding option"
  xa_observation_id :: "string option"
  xa_provider :: "string option"
  xa_external_ref :: "string option"
  xa_source_at :: "Instant option"
  xa_terminal :: "Finding option"
  xa_ids :: "string list"
  xa_queries :: int
  xa_conflicts :: "ext_conflict list"

type_synonym ext_table = "ext_row list"
type_synonym ext_pk = "attemptKey \<times> int"

definition xa_scope :: "ext_row \<Rightarrow> attemptKey" where
  "xa_scope r = \<lparr>ak_tenant = xa_tenant r, ak_key = xa_key r\<rparr>"

definition xa_pk :: "ext_row \<Rightarrow> ext_pk" where
  "xa_pk r = (xa_scope r, xa_attempt r)"

text \<open>\<open>external_attempt_entries_check\<close>.\<close>

definition entries_check :: "ext_row \<Rightarrow> bool" where
  "entries_check r \<longleftrightarrow> length (xa_ids r) \<le> 64 \<and> length (xa_conflicts r) \<le> 64"

text \<open>\<open>ORDER BY attempt DESC LIMIT 1\<close>.\<close>

fun latest :: "ext_row list \<Rightarrow> ext_row option" where
  "latest [] = None"
| "latest (r # rs) =
     (case latest rs of None \<Rightarrow> Some r | Some s \<Rightarrow> if xa_attempt s < xa_attempt r then Some r else Some s)"

section \<open>Statements\<close>

type_synonym 'a ext_statement = "(ext_table, ext_pk, 'a) pg_statement"

definition declared_classes :: "ExternalClass list" where
  "declared_classes = [ClassAccepted, ClassRetryableTransport, ClassRetryableUpstream, ClassFinalValidation,
     ClassFinalBusiness, ClassFinalAuthorization, ClassUnknownSent, ClassUnknownAmbiguous, ClassSchemaMismatch]"

definition retryableClasses :: "ExternalClass list" where
  "retryableClasses = filter Retryable declared_classes"

definition done_row :: "attemptKey \<Rightarrow> MessageID \<Rightarrow> ext_row \<Rightarrow> bool" where
  "done_row scope message r \<longleftrightarrow> xa_scope r = scope \<and> xa_message r = message \<and> xa_state r = AttemptFinished \<and>
     (case xa_class r of None \<Rightarrow> False | Some c \<Rightarrow> c \<notin> set retryableClasses)"

definition selectDoneAttempt :: "attemptKey \<Rightarrow> MessageID \<Rightarrow> ext_row option ext_statement" where
  "selectDoneAttempt scope message t = (t, [], Ok (latest (filter (done_row scope message) t)))"

definition selectLastAttempt :: "attemptKey \<Rightarrow> ext_row option ext_statement" where
  "selectLastAttempt scope t = (t, [], Ok (latest (filter (\<lambda>r. xa_scope r = scope) t)))"

definition begun_row :: "attemptKey \<Rightarrow> int \<Rightarrow> MessageID \<Rightarrow> Instant \<Rightarrow> ext_row" where
  "begun_row scope n message now =
     \<lparr>xa_tenant = ak_tenant scope, xa_key = ak_key scope, xa_attempt = n, xa_message = message,
      xa_state = AttemptBegun, xa_started = now, xa_finished = None, xa_class = None, xa_finding = None,
      xa_observation_id = None, xa_provider = None, xa_external_ref = None, xa_source_at = None,
      xa_terminal = None, xa_ids = [], xa_queries = 0, xa_conflicts = []\<rparr>"

text \<open>\<open>ON CONFLICT DO NOTHING\<close>: it answers the rows it wrote.\<close>

definition insertAttempt :: "attemptKey \<Rightarrow> int \<Rightarrow> MessageID \<Rightarrow> Instant \<Rightarrow> nat ext_statement" where
  "insertAttempt scope n message now t =
     (if (scope, n) \<in> xa_pk ` set t then (t, [], Ok 0)
      else (t @ [begun_row scope n message now], [(scope, n)], Ok 1))"

text \<open>An UPDATE rewrites the rows its condition selects, locks them and answers their number.\<close>

definition ext_update :: "(ext_row \<Rightarrow> bool) \<Rightarrow> (ext_row \<Rightarrow> ext_row) \<Rightarrow> nat ext_statement" where
  "ext_update p f t =
     (if list_all entries_check (map f (filter p t))
      then (map (\<lambda>r. if p r then f r else r) t, map xa_pk (filter p t), Ok (length (filter p t)))
      else (t, [], Err (pg_error ''23514'')))"

definition terminalOf :: "Finding \<Rightarrow> Finding option" where
  "terminalOf f = (if f \<noteq> FindingApplied \<and> f \<noteq> FindingRejected then None else Some f)"

definition nullableFinding :: "Finding \<Rightarrow> Finding option" where
  "nullableFinding f = (if f = NoFinding then None else Some f)"

definition classOf :: "ExternalClass option \<Rightarrow> ExternalClass" where
  "classOf stored = (case stored of None \<Rightarrow> NoClass | Some c \<Rightarrow> c)"

text \<open>\<open>observationColumns\<close>: the four columns are NULL where the outcome carried no observation.\<close>

definition observationColumns :: "Observation \<Rightarrow> ext_row \<Rightarrow> ext_row" where
  "observationColumns ob r =
     (if obs_ID ob = [] \<and> obs_Finding ob = NoFinding
      then r\<lparr>xa_observation_id := None, xa_provider := None, xa_external_ref := None, xa_source_at := None\<rparr>
      else r\<lparr>xa_observation_id := Some (obs_ID ob), xa_provider := Some (obs_Provider ob),
             xa_external_ref := Some (obs_ExternalRef ob), xa_source_at := Some (obs_SourceAt ob)\<rparr>)"

definition finished_row :: "AttemptOutcome \<Rightarrow> ext_row \<Rightarrow> ext_row" where
  "finished_row ao r =
     (let ob = out_Observation ao in
      observationColumns ob
        (r\<lparr>xa_state := AttemptFinished, xa_finished := Some (out_FinishedAt ao), xa_class := Some (out_Class ao),
           xa_finding := nullableFinding (obs_Finding ob), xa_terminal := terminalOf (obs_Finding ob),
           xa_ids := (if obs_ID ob = [] then xa_ids r else xa_ids r @ [obs_ID ob])\<rparr>))"

definition finishBegunAttempt :: "attemptKey \<Rightarrow> AttemptOutcome \<Rightarrow> nat ext_statement" where
  "finishBegunAttempt scope ao =
     ext_update (\<lambda>r. xa_pk r = (scope, out_N ao) \<and> xa_state r = AttemptBegun) (finished_row ao)"

text \<open>\<open>lockAttemptClass\<close> and \<open>lockLastAttempt\<close> lock the row they return; the code reads some columns of it.\<close>

definition lockAttemptClass :: "attemptKey \<Rightarrow> int \<Rightarrow> ext_row option ext_statement" where
  "lockAttemptClass scope n t =
     (let row = List.find (\<lambda>r. xa_pk r = (scope, n)) t in
      (t, (case row of None \<Rightarrow> [] | Some r \<Rightarrow> [xa_pk r]), Ok row))"

definition lockLastAttempt :: "attemptKey \<Rightarrow> ext_row option ext_statement" where
  "lockLastAttempt scope t =
     (let row = latest (filter (\<lambda>r. xa_scope r = scope) t) in
      (t, (case row of None \<Rightarrow> [] | Some r \<Rightarrow> [xa_pk r]), Ok row))"

definition appendAttemptConflict ::
    "attemptKey \<Rightarrow> int \<Rightarrow> ExternalClass option \<Rightarrow> Finding option \<Rightarrow> Instant \<Rightarrow> nat ext_statement" where
  "appendAttemptConflict scope n class finding now =
     ext_update (\<lambda>r. xa_pk r = (scope, n))
       (\<lambda>r. r\<lparr>xa_conflicts := xa_conflicts r @ [\<lparr>xc_class = class, xc_finding = finding, xc_at = now\<rparr>]\<rparr>)"

definition recordObservationID :: "attemptKey \<Rightarrow> int \<Rightarrow> string \<Rightarrow> nat ext_statement" where
  "recordObservationID scope n i = ext_update (\<lambda>r. xa_pk r = (scope, n)) (\<lambda>r. r\<lparr>xa_ids := xa_ids r @ [i]\<rparr>)"

definition observed_row :: "Observation \<Rightarrow> bool \<Rightarrow> ext_row \<Rightarrow> ext_row" where
  "observed_row ob full r =
     r\<lparr>xa_finding := Some (obs_Finding ob), xa_terminal := terminalOf (obs_Finding ob), xa_queries := xa_queries r + 1,
       xa_ids := (if full then xa_ids r else xa_ids r @ [obs_ID ob]), xa_observation_id := Some (obs_ID ob),
       xa_provider := Some (obs_Provider ob), xa_external_ref := Some (obs_ExternalRef ob),
       xa_source_at := Some (obs_SourceAt ob)\<rparr>"

text \<open>\<open>RETURNING queries\<close>, scanned as one row.\<close>

definition recordObservation :: "attemptKey \<Rightarrow> int \<Rightarrow> Observation \<Rightarrow> bool \<Rightarrow> int ext_statement" where
  "recordObservation scope n ob full t =
     (case ext_update (\<lambda>r. xa_pk r = (scope, n)) (observed_row ob full) t of
        (t', ks, Ok _) \<Rightarrow>
          (t', ks, (case List.find (\<lambda>r. xa_pk r = (scope, n)) t' of
             None \<Rightarrow> Err (Foreign ''pgx.ErrNoRows'' None None None []) | Some r \<Rightarrow> Ok (xa_queries r)))
      | (t', ks, Err e) \<Rightarrow> (t', ks, Err e)
      | (t', ks, Panic m) \<Rightarrow> (t', ks, Panic m))"

section \<open>Begin\<close>

type_synonym ext_env = "(ext_table, ext_pk) pg_env"
type_synonym ext_conn = "(ext_table, ext_pk) pg_conn"

definition pg_scope :: "carrier \<Rightarrow> OutboundKey \<Rightarrow> attemptKey result" where
  "pg_scope ctx key = res_map (\<lambda>tenant. \<lparr>ak_tenant = tenant, ak_key = key\<rparr>) (pg_tenantOf ctx)"

definition row_attempt :: "ext_row \<Rightarrow> Attempt" where
  "row_attempt r = \<lparr>att_Tenant = xa_tenant r, att_Key = xa_key r, att_N = xa_attempt r,
     att_MessageID = xa_message r, att_StartedAt = xa_started r\<rparr>"

text \<open>
  A row is read into an attempt with the tenant and the key of the call, and a concluded one with its message;
  the statements select by them, so the row's own are the same.
\<close>

definition doneAttempt :: "ext_env \<Rightarrow> attemptKey \<Rightarrow> MessageID \<Rightarrow> ext_conn \<Rightarrow> ext_conn \<times> AttemptStart option result" where
  "doneAttempt env scope message =
     pg_bind (pg_exec env (selectDoneAttempt scope message)) (\<lambda>row.
       pg_return (Ok (map_option (\<lambda>r. DoneAttempt (row_attempt r) (classOf (xa_class r))) row)))"

text \<open>One round: \<open>Some\<close> the settled start, or \<open>None\<close> after a lost insert race.\<close>

definition beginRound ::
    "ext_env \<Rightarrow> attemptKey \<Rightarrow> MessageID \<Rightarrow> Instant \<Rightarrow> ext_conn \<Rightarrow> ext_conn \<times> AttemptStart option result" where
  "beginRound env scope message now =
     pg_bind (doneAttempt env scope message) (\<lambda>finished.
       case finished of
         Some start \<Rightarrow> pg_return (Ok (Some start))
       | None \<Rightarrow>
           pg_bind (pg_exec env (selectLastAttempt scope)) (\<lambda>found.
             let insert = (\<lambda>n. pg_bind (pg_exec env (insertAttempt scope n message now)) (\<lambda>affected.
                   pg_return (Ok (if affected = 0 then None
                     else Some (StartedAttempt \<lparr>att_Tenant = ak_tenant scope, att_Key = ak_key scope, att_N = n,
                                 att_MessageID = message, att_StartedAt = now\<rparr>))))) in
             case found of
               None \<Rightarrow> insert 1
             | Some r \<Rightarrow>
                 if xa_state r = AttemptBegun then pg_return (Ok (Some (PendingAttempt (row_attempt r))))
                 else insert (xa_attempt r + 1)))"

definition beginRounds :: nat where
  "beginRounds = 8"

primrec begin_loop ::
    "ext_env \<Rightarrow> attemptKey \<Rightarrow> MessageID \<Rightarrow> Instant \<Rightarrow> nat \<Rightarrow> ext_conn \<Rightarrow> ext_conn \<times> AttemptStart result" where
  "begin_loop env scope message now 0 =
     pg_return (Err (Wrapped ''postgres: begin: lost insert races in a row'' []))"
| "begin_loop env scope message now (Suc rounds) =
     pg_bind (beginRound env scope message now) (\<lambda>settled.
       case settled of Some start \<Rightarrow> pg_return (Ok start) | None \<Rightarrow> begin_loop env scope message now rounds)"

definition pg_Begin ::
    "ext_env \<Rightarrow> carrier \<Rightarrow> OutboundKey \<Rightarrow> MessageID \<Rightarrow> Instant \<Rightarrow> ext_conn \<Rightarrow> ext_conn \<times> AttemptStart result" where
  "pg_Begin env ctx key message now =
     (if key = [] then pg_return (FailWith ErrInvalidAttempt ''postgres: begin: empty key'')
      else if message = [] then pg_return (FailWith ErrInvalidAttempt ''postgres: begin: empty message ID'')
      else pg_bind (pg_return (pg_scope ctx key)) (\<lambda>scope. begin_loop env scope message now beginRounds))"

section \<open>Finish\<close>

definition pg_validOutcome :: "AttemptOutcome \<Rightarrow> unit result" where
  "pg_validOutcome ao =
     (if out_Key ao = [] then FailWith ErrInvalidAttempt ''postgres: finish: empty key''
      else if out_N ao < 1 then FailWith ErrInvalidAttempt ''postgres: finish: attempt''
      else if \<not> validClass (out_Class ao) then FailWith ErrInvalidAttempt ''postgres: finish: class''
      else if obs_Key (out_Observation ao) \<noteq> [] \<and> obs_Key (out_Observation ao) \<noteq> out_Key ao
        then FailWith ErrInvalidAttempt ''postgres: finish: observation of another key''
      else if (case obs_Finding (out_Observation ao) of InvalidFinding _ \<Rightarrow> True | _ \<Rightarrow> False)
        then FailWith ErrInvalidAttempt ''postgres: finish: finding''
      else Ok ())"

definition saturated :: "nat \<Rightarrow> nat \<Rightarrow> bool" where
  "saturated seen conflicts \<longleftrightarrow> seen \<ge> MaxAttemptEntries \<or> conflicts \<ge> MaxAttemptEntries"

definition finish_begun :: "ext_env \<Rightarrow> attemptKey \<Rightarrow> AttemptOutcome \<Rightarrow> ext_conn \<Rightarrow> ext_conn \<times> Finished result" where
  "finish_begun env scope ao =
     pg_bind (pg_exec env (finishBegunAttempt scope ao)) (\<lambda>affected.
       if affected = 1 then pg_return (Ok \<lparr>fin_Result = FinishRecorded, fin_Recorded = out_Class ao\<rparr>)
       else pg_bind (pg_exec env (lockAttemptClass scope (out_N ao))) (\<lambda>row.
         case row of
           None \<Rightarrow> pg_return (FailWith ErrAttemptUnknown ''postgres: finish attempt'')
         | Some r \<Rightarrow>
             let recorded = classOf (xa_class r) in
             if recorded = out_Class ao \<or> out_Presumed ao
               then pg_return (Ok \<lparr>fin_Result = FinishUnchanged, fin_Recorded = recorded\<rparr>)
             else if saturated (length (xa_ids r)) (length (xa_conflicts r))
               then pg_return (Ok \<lparr>fin_Result = FinishSaturated, fin_Recorded = recorded\<rparr>)
             else pg_bind (pg_exec env (appendAttemptConflict scope (out_N ao) (Some (out_Class ao)) None (out_FinishedAt ao)))
               (\<lambda>_. pg_return (Ok \<lparr>fin_Result = FinishConflict, fin_Recorded = recorded\<rparr>))))"

definition pg_Finish :: "ext_env \<Rightarrow> carrier \<Rightarrow> AttemptOutcome \<Rightarrow> ext_conn \<Rightarrow> ext_conn \<times> Finished result" where
  "pg_Finish env ctx ao =
     pg_bind (pg_return (pg_validOutcome ao)) (\<lambda>_.
     pg_bind (pg_return (pg_scope ctx (out_Key ao))) (\<lambda>scope. finish_begun env scope ao))"

section \<open>Observe\<close>

definition pg_validObservation :: "Observation \<Rightarrow> unit result" where
  "pg_validObservation ob =
     (if obs_Key ob = [] then FailWith ErrInvalidAttempt ''postgres: observe: empty key''
      else if obs_ID ob = [] then FailWith ErrInvalidAttempt ''postgres: observe: empty observation ID''
      else if \<not> validFinding (obs_Finding ob) then FailWith ErrInvalidAttempt ''postgres: observe: finding''
      else Ok ())"

definition observeAfterTerminal ::
    "ext_env \<Rightarrow> attemptKey \<Rightarrow> Observation \<Rightarrow> Instant \<Rightarrow> ext_row \<Rightarrow> Finding \<Rightarrow> Observed \<Rightarrow> ext_conn \<Rightarrow> ext_conn \<times> Observed result" where
  "observeAfterTerminal env scope ob now row final observed =
     pg_bind (pg_exec env (recordObservationID scope (xa_attempt row) (obs_ID ob))) (\<lambda>_.
       if terminalOf (obs_Finding ob) = None \<or> final = obs_Finding ob
       then pg_return (Ok (observed\<lparr>obd_Result := ObserveDuplicate\<rparr>))
       else pg_bind (pg_exec env (appendAttemptConflict scope (xa_attempt row) None (Some (obs_Finding ob)) now))
         (\<lambda>_. pg_return (Ok (observed\<lparr>obd_Result := ObserveConflict\<rparr>))))"

definition observe_last ::
    "ext_env \<Rightarrow> attemptKey \<Rightarrow> Observation \<Rightarrow> Instant \<Rightarrow> ext_row \<Rightarrow> ext_conn \<Rightarrow> ext_conn \<times> Observed result" where
  "observe_last env scope ob now row =
     (let observed = \<lparr>obd_Result = NoObserve, obd_N = xa_attempt row, obd_Class = classOf (xa_class row),
            obd_QueriesDone = xa_queries row\<rparr>;
          full = saturated (length (xa_ids row)) (length (xa_conflicts row)) in
      if obs_ID ob \<in> set (xa_ids row) then pg_return (Ok (observed\<lparr>obd_Result := ObserveDuplicate\<rparr>))
      else if full \<and> xa_terminal row = Some (obs_Finding ob)
        then pg_return (Ok (observed\<lparr>obd_Result := ObserveDuplicate\<rparr>))
      else if full \<and> (xa_terminal row \<noteq> None \<or> terminalOf (obs_Finding ob) = None)
        then pg_return (Ok (observed\<lparr>obd_Result := ObserveSaturated\<rparr>))
      else case xa_terminal row of
        Some final \<Rightarrow> observeAfterTerminal env scope ob now row final observed
      | None \<Rightarrow>
          pg_bind (pg_exec env (recordObservation scope (xa_attempt row) ob full)) (\<lambda>queries.
            pg_return (Ok (observed\<lparr>obd_QueriesDone := queries, obd_Result := ObserveRecorded\<rparr>))))"

definition pg_Observe :: "ext_env \<Rightarrow> carrier \<Rightarrow> Observation \<Rightarrow> Instant \<Rightarrow> ext_conn \<Rightarrow> ext_conn \<times> Observed result" where
  "pg_Observe env ctx ob now =
     pg_bind (pg_return (pg_validObservation ob)) (\<lambda>_.
     pg_bind (pg_return (pg_scope ctx (obs_Key ob))) (\<lambda>scope.
     pg_bind (pg_exec env (lockLastAttempt scope)) (\<lambda>found.
       case found of
         None \<Rightarrow> pg_return (FailWith ErrAttemptUnknown ''postgres: observe'')
       | Some row \<Rightarrow>
           if xa_state row = AttemptBegun then pg_return (FailWith ErrAttemptInFlight ''postgres: observe attempt'')
           else observe_last env scope ob now row)))"

section \<open>Stale\<close>

definition selectStaleAttempts :: "Instant \<Rightarrow> AttemptCursor \<Rightarrow> int \<Rightarrow> Attempt list ext_statement" where
  "selectStaleAttempts cutoff after limit t =
     (t, [], Ok (take (nat limit) (sort_key position (map row_attempt (filter (\<lambda>r.
        xa_state r = AttemptBegun \<and> xa_started r \<le> cutoff \<and>
        (after = cursor_zero \<or> cur_pos after < position (row_attempt r))) t)))))"

definition pg_Stale :: "ext_env \<Rightarrow> Instant \<Rightarrow> AttemptCursor \<Rightarrow> int \<Rightarrow> ext_conn \<Rightarrow> ext_conn \<times> Attempt list result" where
  "pg_Stale env cutoff after limit =
     (if limit < 1 then pg_return (FailWith ErrInvalidAttempt ''postgres: stale limit'')
      else pg_exec env (selectStaleAttempts cutoff after limit))"

section \<open>The store and the purge\<close>

text \<open>\<open>AttemptStore\<close>: each call in a transaction of its own. \<open>pool\<close> says whether there is one.\<close>

definition pg_store_within ::
    "bool \<Rightarrow> ext_env \<Rightarrow> carrier \<Rightarrow> (carrier \<Rightarrow> ext_conn \<Rightarrow> ext_conn \<times> 'a result) \<Rightarrow> ext_table \<Rightarrow> ext_table \<times> 'a result" where
  "pg_store_within pool env ctx call t =
     (if \<not> pool then (t, Fail Pg_ErrIncompleteAttemptStore) else pg_Within env ctx call t)"

definition pg_store_Begin where
  "pg_store_Begin pool env ctx key message now = pg_store_within pool env ctx (\<lambda>ctx. pg_Begin env ctx key message now)"

definition pg_store_Finish where
  "pg_store_Finish pool env ctx ao = pg_store_within pool env ctx (\<lambda>ctx. pg_Finish env ctx ao)"

definition pg_store_Observe where
  "pg_store_Observe pool env ctx ob now = pg_store_within pool env ctx (\<lambda>ctx. pg_Observe env ctx ob now)"

definition pg_store_Stale where
  "pg_store_Stale pool env ctx cutoff after limit =
     pg_store_within pool env ctx (\<lambda>ctx. pg_Stale env cutoff after limit)"

text \<open>\<open>PurgeAttempts\<close>: the finished attempts older than the cutoff, oldest first, up to the batch, less the locked ones.\<close>

definition attempt_purgeable :: "(ext_pk \<Rightarrow> bool) \<Rightarrow> Instant \<Rightarrow> ext_row \<Rightarrow> bool" where
  "attempt_purgeable row_locked before r \<longleftrightarrow> xa_state r = AttemptFinished \<and>
     (case xa_finished r of None \<Rightarrow> False | Some at \<Rightarrow> at < before) \<and> \<not> row_locked (xa_pk r)"

definition PurgeAttempts :: "(ext_pk \<Rightarrow> bool) \<Rightarrow> Instant \<Rightarrow> int \<Rightarrow> ext_table \<Rightarrow> ext_table \<times> int result" where
  "PurgeAttempts row_locked before batch t =
     (if batch \<le> 0 then (t, Fail ErrPurgeBatchRequired)
      else let victims = take (nat batch) (sort_key (\<lambda>r. case xa_finished r of None \<Rightarrow> 0 | Some at \<Rightarrow> at)
                 (filter (attempt_purgeable row_locked before) t)) in
        (filter (\<lambda>r. r \<notin> set victims) t, Ok (int (length victims))))"

end
