(* ===== verification/Ledger_Refinement.thy ===== *)
theory Ledger_Refinement
  imports Postgres_Ledger
begin

text \<open>
  The ledger of package \<open>postgres\<close> refines the ledger of package \<open>memory\<close>: with no other writer between
  its statements, every call answers the same and leaves a table that represents the memory's map, and a call a
  fault ends is rolled back. What is proved of the memory ledger so holds of every table its calls reach.
\<close>

section \<open>A table and the memory's map\<close>

definition pg_conflict :: "attemptConflict \<Rightarrow> ext_conflict" where
  "pg_conflict c = \<lparr>xc_class = (if con_class c = NoClass then None else Some (con_class c)),
     xc_finding = nullableFinding (con_finding c), xc_at = con_at c\<rparr>"

definition pg_row :: "attemptKey \<Rightarrow> nat \<Rightarrow> attemptRow \<Rightarrow> ext_row" where
  "pg_row scope n row = observationColumns (ar_observation row)
     \<lparr>xa_tenant = ak_tenant scope, xa_key = ak_key scope, xa_attempt = int n, xa_message = ar_messageID row,
      xa_state = (if ar_finished row then AttemptFinished else AttemptBegun), xa_started = ar_startedAt row,
      xa_finished = (if ar_finished row then Some (ar_finishedAt row) else None),
      xa_class = (if ar_finished row then Some (ar_class row) else None),
      xa_finding = nullableFinding (ar_finding row),
      xa_observation_id = None, xa_provider = None, xa_external_ref = None, xa_source_at = None,
      xa_terminal = terminalOf (ar_finding row), xa_ids = ar_seen row, xa_queries = ar_queries row,
      xa_conflicts = map pg_conflict (ar_conflicts row)\<rparr>"

definition row_at :: "attempts \<Rightarrow> ext_pk \<Rightarrow> ext_row option" where
  "row_at a pk = (let rows = rows_of a (fst pk) in
     if 1 \<le> snd pk \<and> snd pk \<le> int (length rows) then Some (pg_row (fst pk) (nat (snd pk)) (rows ! nat (snd pk - 1))) else None)"

text \<open>A row per attempt, under its primary key; an attempt in flight has no observation yet.\<close>

definition represents :: "ext_table \<Rightarrow> attempts \<Rightarrow> bool" where
  "represents t a \<longleftrightarrow> distinct (map xa_pk t) \<and> (\<forall>r. r \<in> set t \<longleftrightarrow> row_at a (xa_pk r) = Some r) \<and>
     (\<forall>scope. \<forall>row \<in> set (rows_of a scope). \<not> ar_finished row \<longrightarrow> ar_observation row = obs_zero)"

lemma observationColumns_simps [simp]:
  "xa_tenant (observationColumns ob r) = xa_tenant r" "xa_key (observationColumns ob r) = xa_key r"
  "xa_attempt (observationColumns ob r) = xa_attempt r" "xa_message (observationColumns ob r) = xa_message r"
  "xa_state (observationColumns ob r) = xa_state r" "xa_started (observationColumns ob r) = xa_started r"
  "xa_finished (observationColumns ob r) = xa_finished r" "xa_class (observationColumns ob r) = xa_class r"
  "xa_finding (observationColumns ob r) = xa_finding r" "xa_terminal (observationColumns ob r) = xa_terminal r"
  "xa_ids (observationColumns ob r) = xa_ids r" "xa_queries (observationColumns ob r) = xa_queries r"
  "xa_conflicts (observationColumns ob r) = xa_conflicts r"
  by (simp_all add: observationColumns_def)

lemma pg_row_simps [simp]:
  "xa_tenant (pg_row scope n row) = ak_tenant scope" "xa_key (pg_row scope n row) = ak_key scope"
  "xa_attempt (pg_row scope n row) = int n" "xa_message (pg_row scope n row) = ar_messageID row"
  "xa_state (pg_row scope n row) = AttemptBegun \<longleftrightarrow> \<not> ar_finished row"
  "xa_state (pg_row scope n row) = AttemptFinished \<longleftrightarrow> ar_finished row"
  "xa_started (pg_row scope n row) = ar_startedAt row"
  "xa_class (pg_row scope n row) = (if ar_finished row then Some (ar_class row) else None)"
  "xa_terminal (pg_row scope n row) = terminalOf (ar_finding row)"
  "xa_ids (pg_row scope n row) = ar_seen row" "xa_queries (pg_row scope n row) = ar_queries row"
  "xa_conflicts (pg_row scope n row) = map pg_conflict (ar_conflicts row)"
  "xa_scope (pg_row scope n row) = scope" "xa_pk (pg_row scope n row) = (scope, int n)"
  by (simp_all add: pg_row_def xa_scope_def xa_pk_def)

lemma row_attempt_pg_row [simp]: "row_attempt (pg_row scope n row) = attemptOf scope n row"
  by (simp add: row_attempt_def attemptOf_def)

lemma terminalOf_simps [simp]:
  "terminalOf f = None \<longleftrightarrow> \<not> terminal f" "terminalOf f = Some g \<longleftrightarrow> terminal f \<and> g = f"
  by (auto simp: terminalOf_def terminal_def)

lemma filter_pk: "distinct (map f xs) \<Longrightarrow> x \<in> set xs \<Longrightarrow> filter (\<lambda>y. f y = f x) xs = [x]"
  by (induction xs) (auto simp: filter_empty_conv image_iff)

lemma find_pk: "distinct (map f xs) \<Longrightarrow> x \<in> set xs \<Longrightarrow> List.find (\<lambda>y. f y = f x) xs = Some x"
  by (induction xs) (auto simp: image_iff)

lemma latest_None [simp]: "latest xs = None \<longleftrightarrow> xs = []"
  by (cases xs) (auto split: option.splits)

lemma latest_Some: "latest xs = Some r \<Longrightarrow> r \<in> set xs \<and> (\<forall>s \<in> set xs. xa_attempt s \<le> xa_attempt r)"
  by (induction xs arbitrary: r) (fastforce split: option.splits if_splits)+

lemma latest_eq:
  assumes "r \<in> set xs" "\<And>s. s \<in> set xs \<Longrightarrow> xa_attempt r \<le> xa_attempt s \<Longrightarrow> s = r"
  shows "latest xs = Some r"
proof -
  obtain s where s: "latest xs = Some s"
    using assms(1) by (cases "latest xs") auto
  from latest_Some [OF this] assms have "s = r"
    by blast
  with s show ?thesis by simp
qed

lemma represents_iff: "represents t a \<Longrightarrow> r \<in> set t \<longleftrightarrow> row_at a (xa_pk r) = Some r"
  unfolding represents_def by blast

lemma represents_distinct: "represents t a \<Longrightarrow> distinct (map xa_pk t)"
  by (simp add: represents_def)

lemma represents_row:
  "represents t a \<Longrightarrow> i < length (rows_of a scope) \<Longrightarrow> pg_row scope (i + 1) (rows_of a scope ! i) \<in> set t"
  by (simp add: represents_iff row_at_def nat_add_distrib)

lemma represents_cases:
  assumes "represents t a" "r \<in> set t"
  obtains i where "i < length (rows_of a (xa_scope r))" "r = pg_row (xa_scope r) (i + 1) (rows_of a (xa_scope r) ! i)"
proof -
  let ?i = "nat (xa_attempt r - 1)"
  have "row_at a (xa_scope r, xa_attempt r) = Some r"
    using assms by (simp add: represents_iff xa_pk_def)
  then have n: "1 \<le> xa_attempt r" "xa_attempt r \<le> int (length (rows_of a (xa_scope r)))"
    and r: "r = pg_row (xa_scope r) (nat (xa_attempt r)) (rows_of a (xa_scope r) ! ?i)"
    by (auto simp: row_at_def Let_def split: if_splits)
  have "nat (xa_attempt r) = ?i + 1" "?i < length (rows_of a (xa_scope r))"
    using n by linarith+
  with r that show thesis by metis
qed

lemma represents_at:
  "represents t a \<Longrightarrow> r \<in> set t \<Longrightarrow> xa_pk r = (scope, int i + 1) \<Longrightarrow> i < length (rows_of a scope) \<Longrightarrow>
     r = pg_row scope (i + 1) (rows_of a scope ! i)"
  using represents_iff [of t a r] by (simp add: row_at_def nat_add_distrib)

lemma represents_obs:
  "represents t a \<Longrightarrow> i < length (rows_of a scope) \<Longrightarrow> \<not> ar_finished (rows_of a scope ! i) \<Longrightarrow>
     ar_observation (rows_of a scope ! i) = obs_zero"
  unfolding represents_def using nth_mem by blast

lemma represents_find:
  assumes "represents t a" "i < length (rows_of a scope)"
  shows "List.find (\<lambda>r. xa_pk r = (scope, int i + 1)) t = Some (pg_row scope (i + 1) (rows_of a scope ! i))"
  using find_pk [OF represents_distinct [OF assms(1)] represents_row [OF assms]] by (simp add: add.commute)

lemma represents_filter:
  assumes "represents t a" "i < length (rows_of a scope)"
  shows "filter (\<lambda>r. xa_pk r = (scope, int i + 1)) t = [pg_row scope (i + 1) (rows_of a scope ! i)]"
  using filter_pk [OF represents_distinct [OF assms(1)] represents_row [OF assms]] by (simp add: add.commute)

lemma represents_absent:
  assumes "represents t a" "int (length (rows_of a scope)) < n"
  shows "(scope, n) \<notin> xa_pk ` set t"
proof
  assume "(scope, n) \<in> xa_pk ` set t"
  then obtain r where r: "r \<in> set t" "xa_pk r = (scope, n)"
    by auto
  then obtain i where "i < length (rows_of a (xa_scope r))" "r = pg_row (xa_scope r) (i + 1) (rows_of a (xa_scope r) ! i)"
    by (elim represents_cases [OF assms(1)])
  then have "i < length (rows_of a (xa_scope r))" "xa_attempt r = int (i + 1)"
    by (metis pg_row_simps(3))+
  with r(2) assms(2) show False
    by (simp add: xa_pk_def)
qed

text \<open>The latest row of a key, and the latest one a message concluded.\<close>

lemma represents_latest:
  assumes "represents t a"
  shows "latest (filter (\<lambda>r. xa_scope r = scope) t) =
    (if rows_of a scope = [] then None
     else Some (pg_row scope (length (rows_of a scope)) (last (rows_of a scope))))"
proof (cases "rows_of a scope = []")
  case True
  have "filter (\<lambda>r. xa_scope r = scope) t = []"
    using True by (auto simp: filter_empty_conv elim!: represents_cases [OF assms])
  with True show ?thesis by simp
next
  case False
  let ?rows = "rows_of a scope" and ?n = "length (rows_of a scope) - 1"
  have n: "?n < length ?rows" "?n + 1 = length ?rows" "?rows ! ?n = last ?rows"
    using False by (auto simp: last_conv_nth)
  have "latest (filter (\<lambda>r. xa_scope r = scope) t) = Some (pg_row scope (?n + 1) (?rows ! ?n))"
  proof (rule latest_eq)
    show "pg_row scope (?n + 1) (?rows ! ?n) \<in> set (filter (\<lambda>r. xa_scope r = scope) t)"
      using represents_row [OF assms n(1)] by simp
    fix s
    assume s: "s \<in> set (filter (\<lambda>r. xa_scope r = scope) t)"
      and ge: "xa_attempt (pg_row scope (?n + 1) (?rows ! ?n)) \<le> xa_attempt s"
    then obtain i where i: "i < length ?rows" "s = pg_row scope (i + 1) (?rows ! i)"
      by (auto elim!: represents_cases [OF assms])
    with ge have "i = ?n"
      by simp
    with i(2) show "s = pg_row scope (?n + 1) (?rows ! ?n)" by simp
  qed
  with False n(2,3) show ?thesis
    by simp
qed

lemma retryable_set: "c \<in> set retryableClasses \<longleftrightarrow> Retryable c"
  by (cases c) (simp_all add: retryableClasses_def declared_classes_def Retryable_def)

lemma done_row_pg_row: "done_row scope message (pg_row scope' n row) \<longleftrightarrow> scope' = scope \<and> concluded_by message row"
  by (auto simp: done_row_def concluded_by_def retryable_set)

lemma find_done_latest: "find_done message rows n = Some i \<Longrightarrow> i < j \<Longrightarrow> j < n \<Longrightarrow> \<not> concluded_by message (rows ! j)"
  by (induction n) (auto simp: concluded_by_def Let_def less_Suc_eq split: if_splits dest: find_done_Some)

lemma represents_done:
  assumes "represents t a"
  shows "latest (filter (done_row scope message) t) =
    map_option (\<lambda>i. pg_row scope (i + 1) (rows_of a scope ! i))
      (find_done message (rows_of a scope) (length (rows_of a scope)))"
proof -
  let ?rows = "rows_of a scope"
  have sel: "s \<in> set (filter (done_row scope message) t) \<longleftrightarrow>
      (\<exists>i < length ?rows. s = pg_row scope (i + 1) (?rows ! i) \<and> concluded_by message (?rows ! i))" for s
  proof
    assume s: "s \<in> set (filter (done_row scope message) t)"
    then have "s \<in> set t" "done_row scope message s" "xa_scope s = scope"
      by (auto simp: done_row_def)
    then obtain i where "i < length ?rows" "s = pg_row scope (i + 1) (?rows ! i)"
      by (auto elim: represents_cases [OF assms])
    with \<open>done_row scope message s\<close> show "\<exists>i < length ?rows. s = pg_row scope (i + 1) (?rows ! i) \<and> concluded_by message (?rows ! i)"
      by (auto simp: done_row_pg_row)
  qed (use represents_row [OF assms, of _ scope] in \<open>auto simp: done_row_pg_row\<close>)
  show ?thesis
  proof (cases "find_done message ?rows (length ?rows)")
    case None
    have "filter (done_row scope message) t = []"
    proof (rule ccontr)
      assume "filter (done_row scope message) t \<noteq> []"
      then obtain s where "s \<in> set (filter (done_row scope message) t)"
        by (cases "filter (done_row scope message) t") auto
      with find_done_None [OF None] show False
        unfolding sel by blast
    qed
    with None show ?thesis by simp
  next
    case (Some i)
    have "latest (filter (done_row scope message) t) = Some (pg_row scope (i + 1) (?rows ! i))"
    proof (rule latest_eq)
      show "pg_row scope (i + 1) (?rows ! i) \<in> set (filter (done_row scope message) t)"
        unfolding sel using find_done_Some [OF Some] by blast
      fix s
      assume "s \<in> set (filter (done_row scope message) t)"
        and ge: "xa_attempt (pg_row scope (i + 1) (?rows ! i)) \<le> xa_attempt s"
      then obtain j where j: "j < length ?rows" "s = pg_row scope (j + 1) (?rows ! j)" "concluded_by message (?rows ! j)"
        unfolding sel by blast
      with ge have "i \<le> j" by simp
      with find_done_latest [OF Some, of j] j show "s = pg_row scope (i + 1) (?rows ! i)"
        by (cases "i = j") auto
    qed
    with Some show ?thesis by simp
  qed
qed

section \<open>Writing\<close>

lemma represents_insert:
  assumes "represents t a"
  shows "represents (t @ [begun_row scope (int (length (rows_of a scope)) + 1) message now])
    (AList.update scope (rows_of a scope @ [new_row message now]) a)"
proof -
  let ?n = "length (rows_of a scope)"
  let ?r = "begun_row scope (int ?n + 1) message now" and ?a = "AList.update scope (rows_of a scope @ [new_row message now]) a"
  have pk: "xa_pk ?r = (scope, int ?n + 1)"
    by (simp add: begun_row_def xa_pk_def xa_scope_def)
  have row: "pg_row scope (?n + 1) (new_row message now) = ?r"
    by (simp add: pg_row_def new_row_def begun_row_def obs_zero_def observationColumns_def nullableFinding_def terminalOf_def)
  have at: "row_at ?a pk = (if pk = (scope, int ?n + 1) then Some ?r else row_at a pk)" for pk
  proof (cases "fst pk = scope \<and> 1 \<le> snd pk \<and> snd pk \<le> int ?n + 1")
    case True
    show ?thesis
    proof (cases "snd pk = int ?n + 1")
      case True
      then have "nat (snd pk) = ?n + 1" "nat (snd pk - 1) = ?n" by simp_all
      with True \<open>fst pk = scope \<and> _\<close> row show ?thesis
        by (cases pk) (simp add: row_at_def)
    next
      case False
      with True have "nat (snd pk - 1) < ?n" "snd pk \<le> int ?n" by linarith+
      with True False show ?thesis
        by (cases pk) (simp add: row_at_def nth_append)
    qed
  next
    case False
    then show ?thesis
      by (cases pk) (auto simp: row_at_def Let_def)
  qed
  have fresh: "xa_pk ?r \<notin> xa_pk ` set t"
    using represents_absent [OF assms, of scope "int ?n + 1"] pk by simp
  then have "r \<in> set t \<Longrightarrow> xa_pk r \<noteq> xa_pk ?r" for r
    by (metis imageI)
  moreover have "r \<in> set t \<longleftrightarrow> row_at a (xa_pk r) = Some r" for r
    by (rule represents_iff [OF assms])
  moreover have "row_at a (scope, int ?n + 1) = None"
    by (simp add: row_at_def)
  ultimately have "r \<in> set (t @ [?r]) \<longleftrightarrow> row_at ?a (xa_pk r) = Some r" for r
    by (auto simp: at pk)
  then show ?thesis
    using assms fresh unfolding represents_def by (auto simp: new_row_def)
qed

lemma represents_update:
  assumes "represents t a" "i < length (rows_of a scope)"
    and "\<And>r. r \<in> set t \<Longrightarrow> p r \<longleftrightarrow> xa_pk r = (scope, int i + 1)"
    and "f (pg_row scope (i + 1) (rows_of a scope ! i)) = pg_row scope (i + 1) row"
    and "\<not> ar_finished row \<Longrightarrow> ar_observation row = obs_zero"
  shows "represents (map (\<lambda>r. if p r then f r else r) t) (AList.update scope ((rows_of a scope)[i := row]) a)"
proof -
  let ?rows = "rows_of a scope"
  let ?a = "AList.update scope (?rows[i := row]) a" and ?g = "\<lambda>r. if p r then f r else r"
  have gf: "?g r = (if xa_pk r = (scope, int i + 1) then pg_row scope (i + 1) row else r)" if "r \<in> set t" for r
  proof (cases "xa_pk r = (scope, int i + 1)")
    case True
    with that have "r = pg_row scope (i + 1) (?rows ! i)"
      using represents_iff [OF assms(1), of r] assms(2) by (simp add: row_at_def nat_add_distrib)
    with True that show ?thesis
      using assms(3,4) by simp
  qed (use that assms(3) in simp)
  have pk: "xa_pk (?g r) = xa_pk r" if "r \<in> set t" for r
    using gf [OF that] by simp
  have at: "row_at ?a pk = (if pk = (scope, int i + 1) then Some (pg_row scope (i + 1) row) else row_at a pk)" for pk
  proof (cases "fst pk = scope \<and> 1 \<le> snd pk \<and> snd pk \<le> int (length ?rows)")
    case True
    then have "nat (snd pk - 1) = i \<longleftrightarrow> snd pk = int i + 1" by linarith
    with True assms(2) show ?thesis
      by (cases pk) (simp add: row_at_def nth_list_update nat_add_distrib)
  next
    case False
    with assms(2) show ?thesis
      by (cases pk) (auto simp: row_at_def Let_def)
  qed
  have iff: "r \<in> set (map ?g t) \<longleftrightarrow> row_at ?a (xa_pk r) = Some r" for r
  proof
    assume "r \<in> set (map ?g t)"
    then obtain s where "s \<in> set t" "r = ?g s" by auto
    then show "row_at ?a (xa_pk r) = Some r"
      using gf [of s] pk [of s] represents_iff [OF assms(1), of s] by (auto simp: at)
  next
    assume r: "row_at ?a (xa_pk r) = Some r"
    show "r \<in> set (map ?g t)"
    proof (cases "xa_pk r = (scope, int i + 1)")
      case True
      with r have "r = pg_row scope (i + 1) row" by (simp add: at)
      moreover have "?g (pg_row scope (i + 1) (?rows ! i)) = pg_row scope (i + 1) row"
        using gf [OF represents_row [OF assms(1,2)]] by (simp add: add.commute)
      moreover have "?g (pg_row scope (i + 1) (?rows ! i)) \<in> set (map ?g t)"
        unfolding set_map by (rule imageI) (rule represents_row [OF assms(1,2)])
      ultimately show ?thesis by simp
    next
      case False
      with r have "r \<in> set t" using represents_iff [OF assms(1), of r] by (simp add: at)
      moreover have "?g r = r" using gf [OF \<open>r \<in> set t\<close>] False by simp
      moreover have "?g r \<in> ?g ` set t"
        using \<open>r \<in> set t\<close> by (rule imageI)
      ultimately show ?thesis by (simp only: set_map)
    qed
  qed
  have "map xa_pk (map ?g t) = map xa_pk t"
    using pk by simp
  with assms(1) have "distinct (map xa_pk (map ?g t))"
    by (simp only: represents_def)
  moreover have "\<forall>s. \<forall>x \<in> set (rows_of ?a s). \<not> ar_finished x \<longrightarrow> ar_observation x = obs_zero"
    using assms(1,5) unfolding represents_def by (auto dest!: set_update_subset_insert [THEN subsetD])
  ultimately show ?thesis
    unfolding represents_def by (intro conjI allI iff) simp_all
qed

section \<open>Answers\<close>

text \<open>
  Two refusals are the same when they carry the same of the port's sentinels; each package words its own, and an
  unresolved tenant is a sentinel of each.
\<close>

definition same_refusal :: "gerr \<Rightarrow> gerr \<Rightarrow> bool" where
  "same_refusal e e' \<longleftrightarrow>
     (\<forall>s \<in> {ErrInvalidAttempt, ErrAttemptUnknown, ErrAttemptInFlight, ErrContextAbsent}. errors_Is e s = errors_Is e' s)"

fun same_answer :: "'a result \<Rightarrow> 'a result \<Rightarrow> bool" where
  "same_answer (Ok x) (Ok y) = (x = y)"
| "same_answer (Err e) (Err e') = same_refusal e e'"
| "same_answer _ _ = False"

lemma same_answer_Ok: "same_answer (Ok x) r \<longleftrightarrow> r = Ok x"
  by (cases r) auto

lemma same_refusal_refl [simp]: "same_refusal e e"
  by (simp add: same_refusal_def)

lemma same_refusal_Wrapped [simp]: "same_refusal (Wrapped m es) (Wrapped m' es)"
  by (simp add: same_refusal_def)

lemma same_refusal_tenant [simp]: "same_refusal (Sentinel ErrTenantUnresolved) (Sentinel Pg_ErrTenantUnresolved)"
  by (simp add: same_refusal_def)

text \<open>A call ends with a fault, or as the memory's.\<close>

definition ends_as :: "ext_env \<Rightarrow> attempts \<times> 'a result \<Rightarrow> ext_conn \<times> 'a result \<Rightarrow> bool" where
  "ends_as env mem out \<longleftrightarrow> (\<exists>n e. pe_fault env n = Some e \<and> snd out = Err e) \<or>
     represents (pc_table (fst out)) (fst mem) \<and> same_answer (snd mem) (snd out)"

lemma pg_bind_return [simp]:
  "pg_bind (pg_return (Ok x)) f = f x" "pg_bind (pg_return (Err e)) f = pg_return (Err e)"
  "pg_bind (pg_return (Panic m)) f = pg_return (Panic m)"
  by (simp_all add: fun_eq_iff pg_bind_def pg_return_def)

lemma ends_return: "represents (pc_table c) (fst mem) \<Longrightarrow> same_answer (snd mem) r \<Longrightarrow> ends_as env mem (pg_return r c)"
  by (simp add: ends_as_def pg_return_def)

lemma ends_exec:
  assumes "pg_alone env" and "statement (pc_table c) = (t', ks, r)"
    and "represents t' (fst mem)" and "same_answer (snd mem) r"
  shows "ends_as env mem (pg_exec env statement c)"
  using assms by (auto simp: pg_exec_alone ends_as_def split: option.splits)

lemma ends_bind:
  assumes "pg_alone env" and "statement (pc_table c) = (t', ks, Ok x)"
    and "\<And>c'. pc_table c' = t' \<Longrightarrow> ends_as env mem (f x c')"
  shows "ends_as env mem (pg_bind (pg_exec env statement) f c)"
proof (cases "pe_fault env (length (pc_log c))")
  case None
  with assms show ?thesis by (simp add: pg_exec_alone pg_bind_def)
next
  case (Some e)
  with assms(1) show ?thesis
    by (auto simp: pg_exec_alone pg_bind_def ends_as_def)
qed

lemma scope_cases:
  obtains (resolved) scope where "ledger_scope ctx key = Ok scope" "pg_scope ctx key = Ok scope"
  | (unresolved) e e' where "ledger_scope ctx key = Err e" "pg_scope ctx key = Err e'" "same_refusal e e'"
proof (cases "RequireExecutionContext ctx")
  case (Ok ec)
  then show thesis
    using that by (cases "ec_Tenant ec") (simp_all add: ledger_scope_def scopedKey_def pg_scope_def pg_tenantOf_def)
next
  case (Err e)
  then show thesis
    using that by (simp add: ledger_scope_def scopedKey_def pg_scope_def pg_tenantOf_def)
next
  case (Panic m)
  then show thesis
    by (simp add: RequireExecutionContext_def split: option.splits)
qed

section \<open>Begin\<close>

lemma beginRounds_Suc: "beginRounds = Suc 7"
  by (simp add: beginRounds_def)

lemma pg_Begin_refines:
  assumes alone: "pg_alone env" and rep: "represents (pc_table c) a"
  shows "ends_as env (Begin ctx key message now a) (pg_Begin env ctx key message now c)"
proof (cases "key = [] \<or> message = []")
  case True
  with rep show ?thesis
    by (auto simp: Begin_def pg_Begin_def intro!: ends_return)
next
  case nonempty: False
  show ?thesis
  proof (cases ctx key rule: scope_cases)
    case (unresolved e e')
    with nonempty rep show ?thesis
      by (simp add: Begin_def pg_Begin_def ends_return)
  next
    case (resolved scope)
    let ?rows = "rows_of a scope" and ?n = "length (rows_of a scope)"
    let ?mem = "Begin ctx key message now a"
    have loop: "pg_Begin env ctx key message now = begin_loop env scope message now (Suc 7)"
      using nonempty resolved by (simp add: pg_Begin_def beginRounds_Suc del: begin_loop.simps)
    show ?thesis
    proof (cases "find_done message ?rows ?n")
      case (Some i)
      have "?mem = (a, Ok (DoneAttempt (attemptOf scope (i + 1) (?rows ! i)) (ar_class (?rows ! i))))"
        using nonempty resolved Some by (simp add: Begin_def Let_def)
      moreover have "ar_finished (?rows ! i)"
        using find_done_Some [OF Some] by (simp add: concluded_by_def)
      ultimately show ?thesis
        unfolding loop begin_loop.simps beginRound_def doneAttempt_def pg_bind_assoc
        by (intro ends_bind [OF alone])
          (auto simp: selectDoneAttempt_def represents_done [OF rep] Some classOf_def rep intro!: ends_return)
    next
      case None
      have fresh: "ends_as env (AList.update scope (?rows @ [new_row message now]) a,
            Ok (StartedAttempt (attemptOf scope (?n + 1) (new_row message now))))
          (pg_bind (pg_exec env (insertAttempt scope m message now))
             (\<lambda>affected. pg_bind (pg_return (Ok (if affected = 0 then None
               else Some (StartedAttempt \<lparr>att_Tenant = ak_tenant scope, att_Key = ak_key scope, att_N = m,
                           att_MessageID = message, att_StartedAt = now\<rparr>))))
               (\<lambda>settled. case settled of Some start \<Rightarrow> pg_return (Ok start) | None \<Rightarrow> f)) c')"
        if "pc_table c' = pc_table c" "m = int ?n + 1" for c' f m
        by (rule ends_bind [OF alone, where x = 1])
          (use represents_absent [OF rep, of scope "int ?n + 1"] represents_insert [OF rep, of scope message now] that
            in \<open>auto simp: insertAttempt_def attemptOf_def new_row_def intro!: ends_return\<close>)
      have select: "ends_as env ?mem (pg_bind (pg_exec env (selectDoneAttempt scope message)) g c)"
        if "\<And>c'. pc_table c' = pc_table c \<Longrightarrow> ends_as env ?mem (g None c')" for g
        by (rule ends_bind [OF alone, where x = None]) (auto simp: selectDoneAttempt_def represents_done [OF rep] None that)
      show ?thesis
      proof (cases "?rows = []")
        case True
        with nonempty resolved None have "?mem = (AList.update scope (?rows @ [new_row message now]) a,
            Ok (StartedAttempt (attemptOf scope (?n + 1) (new_row message now))))"
          by (simp add: Begin_def Let_def)
        with True fresh show ?thesis
          unfolding loop begin_loop.simps beginRound_def doneAttempt_def pg_bind_assoc
          by (intro select) (auto intro!: ends_bind [OF alone, where x = None]
              simp: selectLastAttempt_def represents_latest [OF rep] Let_def)
      next
        case False
        then have last: "latest (filter (\<lambda>r. xa_scope r = scope) (pc_table c)) = Some (pg_row scope ?n (last ?rows))"
          by (simp add: represents_latest [OF rep])
        show ?thesis
        proof (cases "ar_finished (last ?rows)")
          case True
          with False nonempty resolved None have "?mem = (AList.update scope (?rows @ [new_row message now]) a,
              Ok (StartedAttempt (attemptOf scope (?n + 1) (new_row message now))))"
            by (auto simp: Begin_def Let_def last_conv_nth)
          with True fresh show ?thesis
            unfolding loop begin_loop.simps beginRound_def doneAttempt_def pg_bind_assoc
            by (intro select) (auto intro!: ends_bind [OF alone, where x = "Some (pg_row scope ?n (last ?rows))"]
                simp: selectLastAttempt_def last Let_def)
        next
          case flight: False
          with False nonempty resolved None have "?mem = (a, Ok (PendingAttempt (attemptOf scope ?n (last ?rows))))"
            by (auto simp: Begin_def Let_def last_conv_nth)
          with flight rep show ?thesis
            unfolding loop begin_loop.simps beginRound_def doneAttempt_def pg_bind_assoc
            by (intro select) (auto intro!: ends_bind [OF alone, where x = "Some (pg_row scope ?n (last ?rows))"] ends_return
                simp: selectLastAttempt_def last Let_def)
        qed
      qed
    qed
  qed
qed

section \<open>Finish\<close>

lemma ext_update_none: "(\<And>r. r \<in> set t \<Longrightarrow> \<not> p r) \<Longrightarrow> ext_update p f t = (t, [], Ok 0)"
proof -
  assume "\<And>r. r \<in> set t \<Longrightarrow> \<not> p r"
  then have "filter p t = []" "map (\<lambda>r. if p r then f r else r) t = t"
    by (auto simp: filter_empty_conv intro: map_idI)
  then show ?thesis by (simp add: ext_update_def)
qed

text \<open>An UPDATE of one attempt by its primary key, and perhaps its state.\<close>

lemma ext_update_one:
  assumes "represents t a" "i < length (rows_of a scope)"
    and "\<And>r. r \<in> set t \<Longrightarrow> p r \<longleftrightarrow> xa_pk r = (scope, int i + 1)"
    and "entries_check (f (pg_row scope (i + 1) (rows_of a scope ! i)))"
  shows "ext_update p f t = (map (\<lambda>r. if p r then f r else r) t, [(scope, int i + 1)], Ok 1)"
proof -
  have "filter p t = filter (\<lambda>r. xa_pk r = (scope, int i + 1)) t"
    using assms(3) by (rule filter_cong [OF refl])
  with represents_filter [OF assms(1,2)] assms(4) show ?thesis
    by (simp add: ext_update_def)
qed

lemma pg_row_eqI:
  assumes "observationColumns (ar_observation row) r = r'"
    and "r = \<lparr>xa_tenant = ak_tenant scope, xa_key = ak_key scope, xa_attempt = int n, xa_message = ar_messageID row,
      xa_state = (if ar_finished row then AttemptFinished else AttemptBegun), xa_started = ar_startedAt row,
      xa_finished = (if ar_finished row then Some (ar_finishedAt row) else None),
      xa_class = (if ar_finished row then Some (ar_class row) else None),
      xa_finding = nullableFinding (ar_finding row),
      xa_observation_id = None, xa_provider = None, xa_external_ref = None, xa_source_at = None,
      xa_terminal = terminalOf (ar_finding row), xa_ids = ar_seen row, xa_queries = ar_queries row,
      xa_conflicts = map pg_conflict (ar_conflicts row)\<rparr>"
  shows "pg_row scope n row = r'"
  using assms by (simp add: pg_row_def)

lemma finished_pg_row:
  assumes "\<not> ar_finished row" "row_ok row" "ar_observation row = obs_zero"
  shows "finished_row ao (pg_row scope n row) = pg_row scope n (record_outcome ao row)"
  using assms
  by (auto simp: finished_row_def pg_row_def record_outcome_def Let_def observationColumns_def row_ok_def obs_zero_def
      nullableFinding_def)

lemma validOutcome_cases:
  obtains (valid) "validOutcome ao = Ok ()" "pg_validOutcome ao = Ok ()"
  | (invalid) e e' where "validOutcome ao = Err e" "pg_validOutcome ao = Err e'" "same_refusal e e'"
proof -
  have f: "f \<noteq> NoFinding \<and> \<not> validFinding f \<longleftrightarrow> (case f of InvalidFinding _ \<Rightarrow> True | _ \<Rightarrow> False)" for f
    by (cases f) (simp_all add: validFinding_def)
  have "same_answer (validOutcome ao) (pg_validOutcome ao)"
    by (simp add: validOutcome_def pg_validOutcome_def f)
  then show thesis
    by (cases "validOutcome ao"; cases "pg_validOutcome ao") (auto intro: valid invalid)
qed

lemma represents_same: "represents t a \<Longrightarrow> (\<And>s. rows_of a' s = rows_of a s) \<Longrightarrow> represents t a'"
  by (simp add: represents_def row_at_def Let_def)

lemma pg_Finish_refines:
  assumes alone: "pg_alone env" and ok: "ledger_ok a" and rep: "represents (pc_table c) a"
  shows "ends_as env (Finish ctx ao a) (pg_Finish env ctx ao c)"
proof (cases ao rule: validOutcome_cases)
  case (invalid e e')
  with rep show ?thesis
    by (simp add: Finish_def pg_Finish_def ends_return)
next
  case valid
  show ?thesis
  proof (cases ctx "out_Key ao" rule: scope_cases)
    case (unresolved e e')
    with valid rep show ?thesis
      by (simp add: Finish_def pg_Finish_def ends_return)
  next
    case (resolved scope)
    let ?rows = "rows_of a scope" and ?n = "length (rows_of a scope)"
    let ?p = "\<lambda>r. xa_pk r = (scope, out_N ao) \<and> xa_state r = AttemptBegun"
    have run: "pg_Finish env ctx ao = finish_begun env scope ao"
      using valid resolved by (simp add: pg_Finish_def)
    show ?thesis
    proof (cases "out_N ao > int ?n")
      case True
      then have "Finish ctx ao a = (a, FailWith ErrAttemptUnknown ''memory: finish attempt'')"
        using valid resolved by (simp add: Finish_def)
      moreover have absent: "xa_pk r \<noteq> (scope, out_N ao)" if "r \<in> set (pc_table c)" for r
        using represents_absent [OF rep True] that by force
      moreover have "List.find (\<lambda>r. xa_pk r = (scope, out_N ao)) (pc_table c) = None"
        using absent by (auto simp: find_None_iff)
      ultimately show ?thesis
        unfolding run finish_begun_def using rep
        by (intro ends_bind [OF alone, where x = 0])
          (auto simp: finishBegunAttempt_def ext_update_none lockAttemptClass_def
            intro!: ends_bind [OF alone, where x = None] ends_return)
    next
      case False
      obtain i where i: "i < ?n" "out_N ao = int i + 1"
        using False validOutcome_Ok [OF valid(1)] that [of "nat (out_N ao - 1)"] by linarith
      let ?row = "?rows ! i"
      have row: "row_ok ?row" "\<not> ar_finished ?row \<Longrightarrow> ar_observation ?row = obs_zero"
        using ok i(1) represents_obs [OF rep i(1)] by (simp_all add: ledger_ok_def rows_ok_nth)
      have mem: "Finish ctx ao a = (AList.update scope (?rows[i := fst (finish_row ao ?row)]) a, Ok (snd (finish_row ao ?row)))"
        using valid resolved i by (simp add: Finish_def Let_def split: prod.splits)
      have pk: "?p r \<longleftrightarrow> \<not> ar_finished ?row \<and> xa_pk r = (scope, int i + 1)" if "r \<in> set (pc_table c)" for r
      proof (cases "xa_pk r = (scope, int i + 1)")
        case True
        with that have "r = pg_row scope (i + 1) ?row"
          using represents_at [OF rep] i(1) by blast
        with True i(2) show ?thesis by simp
      qed (use i(2) in simp)
      show ?thesis
      proof (cases "ar_finished ?row")
        case begun: False
        let ?t = "map (\<lambda>r. if ?p r then finished_row ao r else r) (pc_table c)"
        have fin: "finished_row ao (pg_row scope (i + 1) ?row) = pg_row scope (i + 1) (record_outcome ao ?row)"
          using finished_pg_row begun row by simp
        have "represents ?t (AList.update scope (?rows[i := record_outcome ao ?row]) a)"
          by (rule represents_update [OF rep i(1)]) (use pk begun fin in \<open>auto simp: record_outcome_def Let_def\<close>)
        moreover have "ext_update ?p (finished_row ao) (pc_table c) = (?t, [(scope, int i + 1)], Ok 1)"
          by (rule ext_update_one [OF rep i(1)])
            (use pk begun row in \<open>auto simp: fin [simplified] entries_check_def record_outcome_def Let_def row_ok_def\<close>)
        ultimately show ?thesis
          unfolding run finish_begun_def mem using begun
          by (intro ends_bind [OF alone, where x = 1])
            (auto simp: finishBegunAttempt_def finish_row_def intro!: ends_return)
      next
        case finished: True
        have find: "List.find (\<lambda>r. xa_pk r = (scope, out_N ao)) (pc_table c) = Some (pg_row scope (i + 1) ?row)"
          unfolding i(2) using represents_find [OF rep i(1)] by simp
        have upd: "ext_update ?p (finished_row ao) (pc_table c) = (pc_table c, [], Ok 0)"
          using pk finished by (intro ext_update_none) simp
        show ?thesis
        proof (cases "ar_class ?row = out_Class ao \<or> out_Presumed ao \<or> row_saturated ?row")
          case True
          have "represents (pc_table c) (AList.update scope (?rows[i := ?row]) a)"
            by (rule represents_same [OF rep]) simp
          with True finished show ?thesis
            unfolding run finish_begun_def mem
            by (intro ends_bind [OF alone, where x = 0])
              (auto simp: finishBegunAttempt_def upd lockAttemptClass_def find finish_row_def classOf_def saturated_def
                row_saturated_def intro!: ends_bind [OF alone, where x = "Some (pg_row scope (i + 1) ?row)"] ends_return)
        next
          case False
          let ?con = "\<lparr>con_class = out_Class ao, con_finding = NoFinding, con_at = out_FinishedAt ao\<rparr>"
          let ?row' = "?row\<lparr>ar_conflicts := ar_conflicts ?row @ [?con]\<rparr>"
          let ?f = "\<lambda>r. r\<lparr>xa_conflicts := xa_conflicts r @ [\<lparr>xc_class = Some (out_Class ao), xc_finding = None, xc_at = out_FinishedAt ao\<rparr>]\<rparr>"
          let ?q = "\<lambda>r. xa_pk r = (scope, out_N ao)"
          have "out_Class ao \<noteq> NoClass"
            using validOutcome_Ok [OF valid(1)] by (auto simp: validClass_def)
          then have conf: "?f (pg_row scope (i + 1) ?row) = pg_row scope (i + 1) ?row'"
            by (simp add: pg_row_def observationColumns_def pg_conflict_def nullableFinding_def)
          have "represents (map (\<lambda>r. if ?q r then ?f r else r) (pc_table c)) (AList.update scope (?rows[i := ?row']) a)"
            by (rule represents_update [OF rep i(1)]) (use finished i(2) conf in auto)
          moreover have "ext_update ?q ?f (pc_table c) =
              (map (\<lambda>r. if ?q r then ?f r else r) (pc_table c), [(scope, int i + 1)], Ok 1)"
            by (rule ext_update_one [OF rep i(1)])
              (use False i(2) in \<open>auto simp: entries_check_def row_saturated_def MaxAttemptEntries_def\<close>)
          ultimately show ?thesis
            unfolding run finish_begun_def mem using False finished
            by (intro ends_bind [OF alone, where x = 0])
              (auto simp: finishBegunAttempt_def upd lockAttemptClass_def find finish_row_def classOf_def saturated_def
                row_saturated_def appendAttemptConflict_def
                intro!: ends_bind [OF alone, where x = "Some (pg_row scope (i + 1) ?row)"] ends_bind [OF alone, where x = 1] ends_return)
        qed
      qed
    qed
  qed
qed

section \<open>Observe\<close>

text \<open>One UPDATE of the row \<open>i\<close> of a key, as the memory writes it.\<close>

lemma update_refines:
  assumes "represents t a" "i < length (rows_of a scope)" "ar_finished (rows_of a scope ! i)"
    and "f (pg_row scope (i + 1) (rows_of a scope ! i)) = pg_row scope (i + 1) row"
    and "ar_finished row" "length (ar_seen row) \<le> 64" "length (ar_conflicts row) \<le> 64"
  obtains t' where "ext_update (\<lambda>r. xa_pk r = (scope, int i + 1)) f t = (t', [(scope, int i + 1)], Ok 1)"
    "represents t' (AList.update scope ((rows_of a scope)[i := row]) a)"
proof
  let ?p = "\<lambda>r. xa_pk r = (scope, int i + 1)"
  show "represents (map (\<lambda>r. if ?p r then f r else r) t) (AList.update scope ((rows_of a scope)[i := row]) a)"
    by (rule represents_update [OF assms(1,2)]) (use assms(4,5) in auto)
  show "ext_update ?p f t = (map (\<lambda>r. if ?p r then f r else r) t, [(scope, int i + 1)], Ok 1)"
    by (rule ext_update_one [OF assms(1,2)]) (use assms(4,6,7) in \<open>simp_all add: entries_check_def\<close>)
qed

lemma observe_last_refines:
  assumes alone: "pg_alone env" and rep: "represents (pc_table c) a"
    and i: "i < length (rows_of a scope)" "ar_finished (rows_of a scope ! i)" and ok: "row_ok (rows_of a scope ! i)"
    and ob: "obs_ID ob \<noteq> []" "validFinding (obs_Finding ob)"
  shows "ends_as env
      (AList.update scope ((rows_of a scope)[i := fst (observe_row ob now (i + 1) (rows_of a scope ! i))]) a,
       Ok (snd (observe_row ob now (i + 1) (rows_of a scope ! i))))
      (observe_last env scope ob now (pg_row scope (i + 1) (rows_of a scope ! i)) c)"
proof -
  let ?row = "rows_of a scope ! i"
  let ?r = "pg_row scope (i + 1) ?row" and ?full = "row_saturated ?row"
  have full: "saturated (length (xa_ids ?r)) (length (xa_conflicts ?r)) = ?full"
    by (simp add: saturated_def row_saturated_def)
  have nof: "obs_Finding ob \<noteq> NoFinding"
    using ob(2) by (auto simp: validFinding_def)
  have small: "\<not> ?full \<Longrightarrow> length (ar_seen ?row) < 64 \<and> length (ar_conflicts ?row) < 64"
    "length (ar_seen ?row) \<le> 64 \<and> length (ar_conflicts ?row) \<le> 64"
    using ok by (auto simp: row_saturated_def row_ok_def MaxAttemptEntries_def)
  define obd where "obd = (\<lambda>result. \<lparr>obd_Result = result, obd_N = int (i + 1), obd_Class = ar_class ?row,
      obd_QueriesDone = ar_queries ?row\<rparr>)"
  have at: "xa_attempt ?r = int i + 1" "obd result = \<lparr>obd_Result = result, obd_N = int i + 1, obd_Class = ar_class ?row,
      obd_QueriesDone = ar_queries ?row\<rparr>" for result
    by (simp_all add: obd_def)
  have unchanged: "represents (pc_table c) (AList.update scope ((rows_of a scope)[i := ?row]) a)"
    by (rule represents_same [OF rep]) simp
  show ?thesis
  proof (cases "obs_ID ob \<in> set (ar_seen ?row) \<or> ?full \<and> (terminal (ar_finding ?row) \<or> \<not> terminal (obs_Finding ob))")
    case True
    have "\<exists>result. observe_last env scope ob now ?r = pg_return (Ok (obd result)) \<and>
        observe_row ob now (i + 1) ?row = (?row, obd result)"
    proof (cases "obs_ID ob \<in> set (ar_seen ?row) \<or> ?full \<and> terminal (ar_finding ?row) \<and> obs_Finding ob = ar_finding ?row")
      case True
      then have "observe_row ob now (i + 1) ?row = (?row, obd ObserveDuplicate)"
        by (auto simp: observe_row_def Let_def obd_def)
      moreover have "observe_last env scope ob now ?r = pg_return (Ok (obd ObserveDuplicate))"
        using True i(2) unfolding observe_last_def Let_def full by (auto simp: obd_def classOf_def)
      ultimately show ?thesis by blast
    next
      case False
      with True have "observe_row ob now (i + 1) ?row = (?row, obd ObserveSaturated)"
        by (auto simp: observe_row_def Let_def obd_def)
      moreover have "observe_last env scope ob now ?r = pg_return (Ok (obd ObserveSaturated))"
        using False True i(2) unfolding observe_last_def Let_def full by (auto simp: obd_def classOf_def)
      ultimately show ?thesis by blast
    qed
    with unchanged show ?thesis
      by (auto simp: intro!: ends_return)
  next
    case writes: False
    show ?thesis
    proof (cases "terminal (ar_finding ?row)")
      case True
      with writes have nf: "\<not> ?full" by simp
      let ?row1 = "?row\<lparr>ar_seen := ar_seen ?row @ [obs_ID ob]\<rparr>"
      let ?a1 = "AList.update scope ((rows_of a scope)[i := ?row1]) a"
      let ?f1 = "\<lambda>r. r\<lparr>xa_ids := xa_ids r @ [obs_ID ob]\<rparr>"
      have f1: "?f1 ?r = pg_row scope (i + 1) ?row1"
        by (simp add: pg_row_def observationColumns_def)
      obtain t1 where t1: "ext_update (\<lambda>r. xa_pk r = (scope, int i + 1)) ?f1 (pc_table c)
          = (t1, [(scope, int i + 1)], Ok 1)" "represents t1 ?a1"
        by (rule update_refines [OF rep i, where f = ?f1 and row = ?row1, OF f1]) (use i(2) small nf in auto)
      have tf: "terminalOf (ar_finding ?row) = Some (ar_finding ?row)"
        using True by simp
      have run: "observe_last env scope ob now ?r = observeAfterTerminal env scope ob now ?r (ar_finding ?row) (obd NoObserve)"
        using writes nf i(2) unfolding observe_last_def Let_def full by (simp add: obd_def classOf_def tf)
      have id: "recordObservationID scope (xa_attempt ?r) (obs_ID ob) (pc_table c) = (t1, [(scope, int i + 1)], Ok 1)"
        unfolding recordObservationID_def at by (rule t1(1))
      show ?thesis
      proof (cases "\<not> terminal (obs_Finding ob) \<or> obs_Finding ob = ar_finding ?row")
        case dup: True
        then have mem: "observe_row ob now (i + 1) ?row = (?row1, obd ObserveDuplicate)"
          using True writes nf by (simp add: observe_row_def Let_def obd_def)
        have same: "terminalOf (obs_Finding ob) = None \<or> ar_finding ?row = obs_Finding ob"
          using dup by auto
        show ?thesis
          unfolding run observeAfterTerminal_def mem
          by (rule ends_bind [OF alone], rule id) (use same t1(2) in \<open>auto simp: obd_def intro!: ends_return\<close>)
      next
        case conflict: False
        let ?con = "\<lparr>con_class = NoClass, con_finding = obs_Finding ob, con_at = now\<rparr>"
        let ?row2 = "?row1\<lparr>ar_conflicts := ar_conflicts ?row @ [?con]\<rparr>"
        let ?f2 = "\<lambda>r. r\<lparr>xa_conflicts := xa_conflicts r @ [\<lparr>xc_class = None, xc_finding = Some (obs_Finding ob), xc_at = now\<rparr>]\<rparr>"
        have i1: "i < length (rows_of ?a1 scope)" "ar_finished (rows_of ?a1 scope ! i)"
          and at1: "rows_of ?a1 scope ! i = ?row1" "(rows_of ?a1 scope)[i := ?row2] = (rows_of a scope)[i := ?row2]"
          using i by simp_all
        have f2: "?f2 (pg_row scope (i + 1) (rows_of ?a1 scope ! i)) = pg_row scope (i + 1) ?row2"
          unfolding at1 using nof by (simp add: pg_row_def observationColumns_def pg_conflict_def nullableFinding_def)
        obtain t2 where t2: "ext_update (\<lambda>r. xa_pk r = (scope, int i + 1)) ?f2 t1 = (t2, [(scope, int i + 1)], Ok 1)"
          "represents t2 (AList.update scope ((rows_of ?a1 scope)[i := ?row2]) ?a1)"
          by (rule update_refines [OF t1(2) i1, where f = ?f2 and row = ?row2, OF f2]) (use i(2) small nf in auto)
        have rep2: "represents t2 (AList.update scope ((rows_of a scope)[i := ?row2]) a)"
          by (rule represents_same [OF t2(2)]) (simp add: at1)
        have mem: "observe_row ob now (i + 1) ?row = (?row2, obd ObserveConflict)"
          using True writes nf conflict by (simp add: observe_row_def Let_def obd_def)
        have append: "appendAttemptConflict scope (xa_attempt ?r) None (Some (obs_Finding ob)) now t1 = (t2, [(scope, int i + 1)], Ok 1)"
          unfolding appendAttemptConflict_def at by (rule t2(1))
        have differs: "\<not> (terminalOf (obs_Finding ob) = None \<or> ar_finding ?row = obs_Finding ob)"
          using conflict by auto
        show ?thesis
          unfolding run observeAfterTerminal_def mem
          by (rule ends_bind [OF alone], rule id)
            (use differs append rep2 in \<open>auto simp: obd_def intro!: ends_bind [OF alone, where x = 1] ends_return\<close>)
      qed
    next
      case open_finding: False
      let ?row2 = "(if \<not> ?full then ?row\<lparr>ar_seen := ar_seen ?row @ [obs_ID ob]\<rparr> else ?row)
        \<lparr>ar_observation := ob, ar_finding := obs_Finding ob, ar_observedAt := now, ar_queries := ar_queries ?row + 1\<rparr>"
      have f: "observed_row ob ?full ?r = pg_row scope (i + 1) ?row2"
        using nof by (simp add: observed_row_def pg_row_def observationColumns_def nullableFinding_def)
      obtain t' where t': "ext_update (\<lambda>r. xa_pk r = (scope, int i + 1)) (observed_row ob ?full) (pc_table c)
          = (t', [(scope, int i + 1)], Ok 1)" "represents t' (AList.update scope ((rows_of a scope)[i := ?row2]) a)"
        by (rule update_refines [OF rep i, where f = "observed_row ob ?full" and row = ?row2, OF f]) (use i(2) small in auto)
      have "List.find (\<lambda>r. xa_pk r = (scope, int i + 1)) t' = Some (pg_row scope (i + 1) ?row2)"
        using represents_find [OF t'(2), of i scope] i(1) by simp
      with t'(1) have rec: "recordObservation scope (int i + 1) ob ?full (pc_table c)
          = (t', [(scope, int i + 1)], Ok (ar_queries ?row + 1))"
        by (simp add: recordObservation_def)
      have mem: "observe_row ob now (i + 1) ?row = (?row2, \<lparr>obd_Result = ObserveRecorded, obd_N = int (i + 1),
          obd_Class = ar_class ?row, obd_QueriesDone = ar_queries ?row + 1\<rparr>)"
        using writes open_finding wrap_queries [OF ok] by (auto simp: observe_row_def Let_def)
      have tf: "terminalOf (ar_finding ?row) = None"
        using open_finding by simp
      have run: "observe_last env scope ob now ?r =
          pg_bind (pg_exec env (recordObservation scope (xa_attempt ?r) ob ?full)) (\<lambda>queries.
            pg_return (Ok ((obd NoObserve)\<lparr>obd_QueriesDone := queries, obd_Result := ObserveRecorded\<rparr>)))"
        using writes i(2) unfolding observe_last_def Let_def full by (auto simp: obd_def classOf_def tf)
      have rec': "recordObservation scope (xa_attempt ?r) ob ?full (pc_table c) = (t', [(scope, int i + 1)], Ok (ar_queries ?row + 1))"
        unfolding at by (rule rec)
      show ?thesis
        unfolding run mem by (rule ends_bind [OF alone], rule rec') (use t'(2) in \<open>auto simp: obd_def intro!: ends_return\<close>)
    qed
  qed
qed

lemma validObservation_answer: "same_answer (validObservation ob) (pg_validObservation ob)"
  by (simp add: validObservation_def pg_validObservation_def)

lemma validObservation_Ok: "validObservation ob = Ok u \<Longrightarrow> obs_ID ob \<noteq> [] \<and> validFinding (obs_Finding ob)"
  by (auto simp: validObservation_def split: if_splits)

lemma pg_Observe_refines:
  assumes alone: "pg_alone env" and ok: "ledger_ok a" and rep: "represents (pc_table c) a"
  shows "ends_as env (Observe ctx ob now a) (pg_Observe env ctx ob now c)"
proof (cases "validObservation ob")
  case (Err e)
  with validObservation_answer [of ob] rep show ?thesis
    by (cases "pg_validObservation ob") (simp_all add: Observe_def pg_Observe_def ends_return)
next
  case (Ok u)
  then have valid: "validObservation ob = Ok ()" "pg_validObservation ob = Ok ()"
    using validObservation_answer [of ob] by (cases "pg_validObservation ob"; simp)+
  show ?thesis
  proof (cases ctx "obs_Key ob" rule: scope_cases)
    case (unresolved e e')
    with valid rep show ?thesis
      by (simp add: Observe_def pg_Observe_def ends_return)
  next
    case (resolved scope)
    let ?rows = "rows_of a scope" and ?n = "length (rows_of a scope)"
    have latest: "latest (filter (\<lambda>r. xa_scope r = scope) (pc_table c)) =
        (if ?rows = [] then None else Some (pg_row scope ?n (last ?rows)))"
      by (rule represents_latest [OF rep])
    show ?thesis
    proof (cases "?rows \<noteq> [] \<and> ar_finished (last ?rows)")
      case False
      with resolved valid rep show ?thesis
        by (auto simp: Observe_def pg_Observe_def Let_def lockLastAttempt_def latest last_conv_nth
            intro!: ends_bind [OF alone, where x = "if ?rows = [] then None else Some (pg_row scope ?n (last ?rows))"] ends_return)
    next
      case True
      then obtain i where i: "?n = i + 1" "i < ?n" "last ?rows = ?rows ! i"
        by (cases "?n") (auto simp: last_conv_nth)
      have mem: "Observe ctx ob now a = (AList.update scope (?rows[i := fst (observe_row ob now (i + 1) (?rows ! i))]) a,
          Ok (snd (observe_row ob now (i + 1) (?rows ! i))))"
        using valid resolved True i by (auto simp: Observe_def Let_def split: prod.splits)
      have "row_ok (?rows ! i)"
        using ok i(2) by (simp add: ledger_ok_def rows_ok_nth)
      then have *: "ends_as env (Observe ctx ob now a)
          (observe_last env scope ob now (pg_row scope (i + 1) (?rows ! i)) c')" if "pc_table c' = pc_table c" for c'
        unfolding mem using True i rep that validObservation_Ok [OF Ok]
        by (intro observe_last_refines [OF alone]) auto
      show ?thesis
        unfolding pg_Observe_def valid resolved pg_bind_return
        by (rule ends_bind [OF alone, where x = "Some (pg_row scope (i + 1) (?rows ! i))"])
          (use True i * in \<open>auto simp: lockLastAttempt_def latest\<close>)
    qed
  qed
qed simp

section \<open>Stale\<close>

lemma begun_attempts:
  assumes rep: "represents t a"
  shows "set (map row_attempt (filter (\<lambda>r. xa_state r = AttemptBegun \<and> xa_started r \<le> cutoff \<and>
      (after = cursor_zero \<or> cur_pos after < position (row_attempt r))) t)) = stale_set cutoff after a"
    (is "set (map _ (filter ?p t)) = _")
proof (intro set_eqI iffI)
  fix att
  assume "att \<in> set (map row_attempt (filter ?p t))"
  then obtain r where r: "r \<in> set t" "?p r" "att = row_attempt r"
    by auto
  then obtain i where "i < length (rows_of a (xa_scope r))" "r = pg_row (xa_scope r) (i + 1) (rows_of a (xa_scope r) ! i)"
    by (elim represents_cases [OF rep])
  moreover from this have "stale_row cutoff after (xa_scope r) (i + 1) (rows_of a (xa_scope r) ! i)"
    using r(2) unfolding stale_row_def compareCursor_gt by (metis pg_row_simps(5,7) row_attempt_pg_row)
  ultimately show "att \<in> stale_set cutoff after a"
    unfolding stale_set_def r(3) by (metis (mono_tags, lifting) mem_Collect_eq row_attempt_pg_row)
next
  fix att
  assume "att \<in> stale_set cutoff after a"
  then obtain scope i where i: "i < length (rows_of a scope)" "att = attemptOf scope (i + 1) (rows_of a scope ! i)"
    "stale_row cutoff after scope (i + 1) (rows_of a scope ! i)"
    by (auto simp: stale_set_def)
  then have "?p (pg_row scope (i + 1) (rows_of a scope ! i))"
    unfolding stale_row_def compareCursor_gt by (simp only: pg_row_simps row_attempt_pg_row simp_thms)
  with represents_row [OF rep i(1)] have "row_attempt (pg_row scope (i + 1) (rows_of a scope ! i)) \<in> set (map row_attempt (filter ?p t))"
    unfolding set_map set_filter by blast
  with i(2) show "att \<in> set (map row_attempt (filter ?p t))"
    by simp
qed

lemma stale_listings_agree:
  assumes rep: "represents t a" and ok: "ledger_ok a"
  shows "sort_key position (map row_attempt (filter (\<lambda>r. xa_state r = AttemptBegun \<and> xa_started r \<le> cutoff \<and>
      (after = cursor_zero \<or> cur_pos after < position (row_attempt r))) t)) = stale_sorted cutoff after a"
    (is "sort_key position ?xs = _")
proof (rule strict_lists_equal)
  have dist: "distinct (map fst a)"
    using ok by (simp add: ledger_ok_def)
  have set: "set ?xs = stale_set cutoff after a"
    by (rule begun_attempts [OF rep])
  then show "set (sort_key position ?xs) = set (stale_sorted cutoff after a)"
    by (simp add: stale_sorted_set [OF dist])
  show inj: "inj_on position (set (sort_key position ?xs))"
    using position_inj set by simp
  show "sorted_wrt (\<lambda>x y. position x < position y) (stale_sorted cutoff after a)"
    by (rule stale_sorted_strict [OF dist])
  have "distinct (map xa_pk t)"
    by (rule represents_distinct [OF rep])
  then have "distinct ?xs"
    by (auto simp: distinct_map inj_on_def row_attempt_def xa_pk_def xa_scope_def)
  then have "distinct (map position (sort_key position ?xs))"
    using inj by (simp add: distinct_map)
  moreover have "sorted (map position (sort_key position ?xs))"
    by simp
  ultimately have "sorted_wrt (<) (map position (sort_key position ?xs))"
    by (simp only: strict_sorted_iff)
  then show "sorted_wrt (\<lambda>x y. position x < position y) (sort_key position ?xs)"
    by (simp only: sorted_wrt_map)
qed

lemma pg_Stale_refines:
  assumes alone: "pg_alone env" and ok: "ledger_ok a" and rep: "represents (pc_table c) a"
  shows "ends_as env (a, Stale cutoff after limit a) (pg_Stale env cutoff after limit c)"
proof (cases "limit < 1")
  case True
  with rep show ?thesis
    by (simp add: Stale_def pg_Stale_def ends_return)
next
  case False
  then show ?thesis
    using rep stale_listings_agree [OF rep ok]
    by (auto simp: pg_Stale_def Stale_take selectStaleAttempts_def intro!: ends_exec [OF alone])
qed

section \<open>Every call, and every history\<close>

datatype ledger_call =
    CallBegin carrier OutboundKey MessageID Instant | CallFinish carrier AttemptOutcome
  | CallObserve carrier Observation Instant | CallStale carrier Instant AttemptCursor int

datatype ledger_value =
    ValueStart AttemptStart | ValueFinished Finished | ValueObserved Observed | ValueStale "Attempt list"

fun mem_call :: "ledger_call \<Rightarrow> attempts \<Rightarrow> attempts \<times> ledger_value result" where
  "mem_call (CallBegin ctx key message now) a = map_prod id (res_map ValueStart) (Begin ctx key message now a)"
| "mem_call (CallFinish ctx ao) a = map_prod id (res_map ValueFinished) (Finish ctx ao a)"
| "mem_call (CallObserve ctx ob now) a = map_prod id (res_map ValueObserved) (Observe ctx ob now a)"
| "mem_call (CallStale ctx cutoff after limit) a = (a, res_map ValueStale (Stale cutoff after limit a))"

fun pg_call :: "bool \<Rightarrow> ext_env \<Rightarrow> ledger_call \<Rightarrow> ext_table \<Rightarrow> ext_table \<times> ledger_value result" where
  "pg_call pool env (CallBegin ctx key message now) t =
     map_prod id (res_map ValueStart) (pg_store_Begin pool env ctx key message now t)"
| "pg_call pool env (CallFinish ctx ao) t = map_prod id (res_map ValueFinished) (pg_store_Finish pool env ctx ao t)"
| "pg_call pool env (CallObserve ctx ob now) t = map_prod id (res_map ValueObserved) (pg_store_Observe pool env ctx ob now t)"
| "pg_call pool env (CallStale ctx cutoff after limit) t =
     map_prod id (res_map ValueStale) (pg_store_Stale pool env ctx cutoff after limit t)"

fun call_context :: "ledger_call \<Rightarrow> carrier" where
  "call_context (CallBegin ctx _ _ _) = ctx"
| "call_context (CallFinish ctx _) = ctx"
| "call_context (CallObserve ctx _ _) = ctx"
| "call_context (CallStale ctx _ _ _) = ctx"

text \<open>A call in a transaction of its own: as the memory's, or an error and the table as it was.\<close>

definition call_refines :: "bool \<Rightarrow> attempts \<times> 'a result \<Rightarrow> ext_table \<Rightarrow> ext_table \<times> 'a result \<Rightarrow> bool" where
  "call_refines undisturbed mem t out \<longleftrightarrow>
     represents (fst out) (fst mem) \<and> same_answer (snd mem) (snd out) \<or>
     \<not> undisturbed \<and> fst out = t \<and> (\<exists>e. snd out = Err e)"

lemma same_answer_map: "same_answer r r' \<Longrightarrow> same_answer (res_map f r) (res_map f r')"
  by (cases r; cases r') auto

lemma call_refines_map: "call_refines u m t out \<Longrightarrow> call_refines u (map_prod id (res_map f) m) t (map_prod id (res_map f) out)"
  by (auto simp: call_refines_def intro: same_answer_map)

lemma within_refines:
  assumes rep: "represents t a" and ends: "ends_as env mem (call ctx (pg_opened t))"
    and err: "\<And>e. snd mem = Err e \<Longrightarrow> fst mem = a" and np: "\<And>m. snd mem \<noteq> Panic m"
  shows "call_refines (pool \<and> pg_sound env \<and> ctx_err ctx = None) mem t (pg_store_within pool env ctx call t)"
proof -
  obtain c r where run: "call ctx (pg_opened t) = (c, r)"
    by fastforce
  from ends run have *: "(\<exists>n e. pe_fault env n = Some e \<and> r = Err e) \<or>
      represents (pc_table c) (fst mem) \<and> same_answer (snd mem) r"
    by (simp add: ends_as_def)
  show ?thesis
  proof (cases r)
    case (Ok x)
    with * run show ?thesis
      by (auto simp: call_refines_def pg_store_within_def pg_Within_def pg_sound_def split: option.splits)
  next
    case (Err e)
    show ?thesis
    proof (cases "\<exists>n e. pe_fault env n = Some e \<and> r = Err e")
      case True
      with run show ?thesis
        by (auto simp: call_refines_def pg_store_within_def pg_Within_def pg_sound_def split: option.splits)
    next
      case False
      with * Err obtain e' where "snd mem = Err e'" "same_refusal e' e"
        by (cases "snd mem") auto
      with rep err [of e'] run Err show ?thesis
        by (auto simp: call_refines_def pg_store_within_def pg_Within_def pg_sound_def split: option.splits)
    qed
  next
    case (Panic m)
    with * np show ?thesis
      by (cases "snd mem") auto
  qed
qed

lemma mem_errors:
  "(snd (Begin ctx key message now a) = Err e \<longrightarrow> fst (Begin ctx key message now a) = a) \<and>
     snd (Begin ctx key message now a) \<noteq> Panic m"
  "(snd (Finish ctx ao a) = Err e \<longrightarrow> fst (Finish ctx ao a) = a) \<and> snd (Finish ctx ao a) \<noteq> Panic m"
  "(snd (Observe ctx ob now a) = Err e \<longrightarrow> fst (Observe ctx ob now a) = a) \<and> snd (Observe ctx ob now a) \<noteq> Panic m"
  "Stale cutoff after limit a \<noteq> Panic m"
proof -
  show "(snd (Begin ctx key message now a) = Err e \<longrightarrow> fst (Begin ctx key message now a) = a) \<and>
      snd (Begin ctx key message now a) \<noteq> Panic m"
    by (cases "Begin ctx key message now a" rule: prod.exhaust, rule Begin_cases) auto
  show "(snd (Finish ctx ao a) = Err e \<longrightarrow> fst (Finish ctx ao a) = a) \<and> snd (Finish ctx ao a) \<noteq> Panic m"
    by (cases "Finish ctx ao a" rule: prod.exhaust, rule Finish_cases) auto
  show "(snd (Observe ctx ob now a) = Err e \<longrightarrow> fst (Observe ctx ob now a) = a) \<and> snd (Observe ctx ob now a) \<noteq> Panic m"
    by (cases "Observe ctx ob now a" rule: prod.exhaust, rule Observe_cases) auto
  show "Stale cutoff after limit a \<noteq> Panic m"
    by (simp add: Stale_def)
qed

lemma pg_call_refines:
  assumes "pg_alone env" "ledger_ok a" "represents t a"
  shows "call_refines (pool \<and> pg_sound env \<and> ctx_err (call_context call) = None) (mem_call call a) t (pg_call pool env call t)"
proof -
  have rep: "represents (pc_table (pg_opened t)) a"
    using assms(3) by (simp add: pg_opened_def)
  show ?thesis
  proof (cases call)
    case (CallBegin ctx key message now)
    then show ?thesis
      by (simp add: pg_store_Begin_def)
        (intro call_refines_map within_refines [OF assms(3)] pg_Begin_refines assms rep; use mem_errors in blast)
  next
    case (CallFinish ctx ao)
    then show ?thesis
      by (simp add: pg_store_Finish_def)
        (intro call_refines_map within_refines [OF assms(3)] pg_Finish_refines assms rep; use mem_errors in blast)
  next
    case (CallObserve ctx ob now)
    then show ?thesis
      by (simp add: pg_store_Observe_def)
        (intro call_refines_map within_refines [OF assms(3)] pg_Observe_refines assms rep; use mem_errors in blast)
  next
    case (CallStale ctx cutoff after limit)
    have "call_refines (pool \<and> pg_sound env \<and> ctx_err ctx = None) (a, Stale cutoff after limit a) t
        (pg_store_Stale pool env ctx cutoff after limit t)"
      unfolding pg_store_Stale_def
      by (intro within_refines [OF assms(3)] pg_Stale_refines assms rep) (simp_all add: mem_errors)
    from call_refines_map [OF this] CallStale show ?thesis
      by simp
  qed
qed

lemma mem_call_step: "ledger_step\<^sup>=\<^sup>= a (fst (mem_call call a))"
proof (cases call)
  case (CallBegin ctx key message now)
  then show ?thesis
    using begin_step [OF prod.collapse [symmetric, of "Begin ctx key message now a"]] by simp
next
  case (CallFinish ctx ao)
  then show ?thesis
    using finish_step [OF prod.collapse [symmetric, of "Finish ctx ao a"]] by simp
next
  case (CallObserve ctx ob now)
  then show ?thesis
    using observe_step [OF prod.collapse [symmetric, of "Observe ctx ob now a"]] by simp
qed simp

text \<open>
  C6. The PostgreSQL ledger refines the in-memory one. Over a table that represents the memory's map, each of the four
  calls of the attempt store, run with no other writer between its statements, answers what the memory answers
  and leaves a table that represents the memory's new map; the only other outcome is an error of the driver, of
  the context or of a missing pool, and then the table is as it was.
\<close>

theorem postgres_ledger_refines_memory:
  assumes "pg_alone env" and "ledger_ok a" and "represents t a"
  shows "represents (fst (pg_call pool env call t)) (fst (mem_call call a)) \<and>
      same_answer (snd (mem_call call a)) (snd (pg_call pool env call t)) \<or>
    \<not> (pool \<and> pg_sound env \<and> ctx_err (call_context call) = None) \<and>
      fst (pg_call pool env call t) = t \<and> (\<exists>e. snd (pg_call pool env call t) = Err e)"
  using pg_call_refines [OF assms] by (simp only: call_refines_def)

lemma represents_Nil: "represents [] []"
  by (auto simp: represents_def row_at_def Let_def)

lemma sample_begun_represents: "represents [begun_row sample_scope 1 ''m'' 10] sample_begun"
proof -
  have "sample_begun = AList.update sample_scope (rows_of [] sample_scope @ [new_row ''m'' 10]) []"
    by (simp add: sample_begun_def)
  with represents_insert [OF represents_Nil, of sample_scope "''m''" 10] show ?thesis
    by simp
qed

theorem postgres_ledger_refines_memory_witness:
  "snd (pg_call True pg_quiet (CallFinish sample_context sample_outcome) [begun_row sample_scope 1 ''m'' 10]) =
     Ok (ValueFinished \<lparr>fin_Result = FinishRecorded, fin_Recorded = ClassAccepted\<rparr>)"
proof -
  let ?call = "CallFinish sample_context sample_outcome"
  let ?out = "pg_call True pg_quiet ?call [begun_row sample_scope 1 ''m'' 10]"
  have "ledger_ok sample_begun"
    using ledger_step_ok [OF sample_begin_step] by simp
  moreover have "ctx_err (call_context ?call) = None"
    by (simp add: sample_context_def background_def)
  ultimately have "same_answer (snd (mem_call ?call sample_begun)) (snd ?out)"
    using postgres_ledger_refines_memory [of pg_quiet sample_begun "[begun_row sample_scope 1 ''m'' 10]" True ?call]
      sample_begun_represents by simp
  moreover have "snd (mem_call ?call sample_begun) = Ok (ValueFinished \<lparr>fin_Result = FinishRecorded, fin_Recorded = ClassAccepted\<rparr>)"
    by (simp add: Finish_def validOutcome_def validClass_def sample_outcome_def obs_zero_def sample_scope_eq
        sample_begun_def rows_of_def finish_row_def new_row_def)
  ultimately show ?thesis
    by (simp only: same_answer_Ok)
qed

fun pg_history :: "(bool \<times> ext_env \<times> ledger_call) list \<Rightarrow> ext_table \<Rightarrow> ext_table" where
  "pg_history [] t = t"
| "pg_history ((pool, env, call) # calls) t = pg_history calls (fst (pg_call pool env call t))"

lemma pg_history_represents:
  assumes "\<forall>(pool, env, call) \<in> set calls. pg_alone env" "ledger_ok a" "represents t a"
  shows "\<exists>b. ledger_step\<^sup>*\<^sup>* a b \<and> represents (pg_history calls t) b"
  using assms
proof (induction calls arbitrary: t a)
  case (Cons step calls)
  obtain pool env call where step: "step = (pool, env, call)"
    by (cases step)
  let ?t = "fst (pg_call pool env call t)" and ?a = "fst (mem_call call a)"
  have "pg_alone env"
    using Cons.prems(1) step by simp
  from pg_call_refines [OF this Cons.prems(2,3), of pool call]
  have "represents ?t ?a \<or> ?t = t"
    by (auto simp: call_refines_def)
  then show ?case
  proof
    assume rep: "represents ?t ?a"
    have ok: "ledger_ok ?a" and steps: "ledger_step\<^sup>*\<^sup>* a ?a"
      using mem_call_step [of a call] Cons.prems(2) by (auto intro: ledger_step_ok)
    obtain b where "ledger_step\<^sup>*\<^sup>* ?a b" "represents (pg_history calls ?t) b"
      using Cons.IH [OF _ ok rep] Cons.prems(1) by auto
    with steps show ?thesis
      by (auto simp: step intro: rtranclp_trans)
  next
    assume "?t = t"
    with Cons.IH [OF _ Cons.prems(2,3)] Cons.prems(1) show ?thesis
      by (simp add: step)
  qed
qed auto

text \<open>
  Every table is a memory ledger. Whatever calls ran one after the other from the empty table, some of them ended
  by faults of the database, the rows are those of a state the in-memory ledger reaches: its invariant, the
  permanence of its outcomes and the exclusion of \<open>Begin\<close> hold of the table.
\<close>

theorem every_history_is_a_memory_history:
  assumes "\<forall>(pool, env, call) \<in> set calls. pg_alone env"
  shows "\<exists>a. ledger_step\<^sup>*\<^sup>* [] a \<and> represents (pg_history calls []) a"
  using pg_history_represents [OF assms ledger_ok_Nil represents_Nil] .

theorem every_history_is_a_memory_history_witness:
  "\<exists>a. ledger_step\<^sup>*\<^sup>* [] a \<and> represents (pg_history [(True, pg_quiet, CallBegin sample_context ''k'' ''m'' 10)] []) a"
  by (rule every_history_is_a_memory_history) simp

end
