(* ===== verification/Ledger_Races.thy ===== *)
theory Ledger_Races
  imports Ledger_Refinement
begin

text \<open>
  The ledger of package \<open>postgres\<close> among other transactions. At READ COMMITTED the table may change between two
  statements of one call, by whatever the other calls commit. \<open>ledger_evolves\<close> is what a call may rely on and what
  each of its own statements guarantees, so that any number of calls interleave safely; a row a call locked is left
  alone by the others until it ends. A write stays behind its row's lock until the commit, so an order of the
  statements of several calls is an order of their effects.
\<close>

section \<open>What every statement keeps\<close>

text \<open>A begun attempt has recorded nothing; the attempt before another one is there and finished.\<close>

definition ext_row_ok :: "ext_row \<Rightarrow> bool" where
  "ext_row_ok r \<longleftrightarrow> 1 \<le> xa_attempt r \<and> entries_check r \<and>
     (xa_state r = AttemptBegun \<longrightarrow> xa_class r = None \<and> xa_terminal r = None)"

definition finished_at :: "ext_table \<Rightarrow> ext_pk \<Rightarrow> bool" where
  "finished_at t pk \<longleftrightarrow> (\<exists>s \<in> set t. xa_pk s = pk \<and> xa_state s = AttemptFinished)"

definition attempts_ok :: "ext_table \<Rightarrow> bool" where
  "attempts_ok t \<longleftrightarrow> distinct (map xa_pk t) \<and>
     (\<forall>r \<in> set t. ext_row_ok r \<and> (xa_attempt r = 1 \<or> finished_at t (xa_scope r, xa_attempt r - 1)))"

text \<open>What stays of an attempt: its message and start, a recorded outcome, a terminal finding.\<close>

definition attempt_evolves :: "ext_row \<Rightarrow> ext_row \<Rightarrow> bool" where
  "attempt_evolves r r' \<longleftrightarrow> xa_pk r' = xa_pk r \<and> xa_message r' = xa_message r \<and> xa_started r' = xa_started r \<and>
     (xa_state r = AttemptFinished \<longrightarrow>
        xa_state r' = AttemptFinished \<and> xa_class r' = xa_class r \<and> xa_finished r' = xa_finished r) \<and>
     (xa_terminal r \<noteq> None \<longrightarrow> xa_terminal r' = xa_terminal r)"

definition ledger_evolves :: "ext_table \<Rightarrow> ext_table \<Rightarrow> bool" where
  "ledger_evolves t t' \<longleftrightarrow>
     (attempts_ok t \<longrightarrow> attempts_ok t' \<and> (\<forall>r \<in> set t. \<exists>r' \<in> set t'. attempt_evolves r r'))"

definition locked_kept :: "ext_pk list \<Rightarrow> ext_table \<Rightarrow> ext_table \<Rightarrow> bool" where
  "locked_kept ks t t' \<longleftrightarrow> (\<forall>r \<in> set t. xa_pk r \<in> set ks \<longrightarrow> r \<in> set t')"

lemma attempt_evolves_refl [simp]: "attempt_evolves r r"
  by (simp add: attempt_evolves_def)

lemma attempt_evolves_trans: "attempt_evolves r s \<Longrightarrow> attempt_evolves s u \<Longrightarrow> attempt_evolves r u"
  by (auto simp: attempt_evolves_def)

lemma ledger_evolves_refl [simp]: "ledger_evolves t t"
  by (auto simp: ledger_evolves_def intro: attempt_evolves_refl)

lemma ledger_evolves_trans: "ledger_evolves t u \<Longrightarrow> ledger_evolves u v \<Longrightarrow> ledger_evolves t v"
  unfolding ledger_evolves_def by (meson attempt_evolves_trans)

lemma evolves_ok: "ledger_evolves t t' \<Longrightarrow> attempts_ok t \<Longrightarrow> attempts_ok t'"
  by (simp add: ledger_evolves_def)

lemma evolves_finished: "ledger_evolves t t' \<Longrightarrow> attempts_ok t \<Longrightarrow> finished_at t pk \<Longrightarrow> finished_at t' pk"
  unfolding ledger_evolves_def finished_at_def attempt_evolves_def by metis

text \<open>A key never has two attempts in flight.\<close>

lemma one_in_flight:
  assumes ok: "attempts_ok t" and r: "r \<in> set t" "xa_state r = AttemptBegun"
    and s: "s \<in> set t" "xa_state s = AttemptBegun" and same: "xa_scope r = xa_scope s"
  shows "r = s"
proof -
  have inj: "x = y" if "x \<in> set t" "y \<in> set t" "xa_pk x = xa_pk y" for x y
    using ok that by (auto simp: attempts_ok_def distinct_map dest: inj_onD)
  have later: "finished_at t (xa_scope x, xa_attempt x - k)" if "x \<in> set t" "1 \<le> k" "k < xa_attempt x" for x k
    using that(2,3)
  proof (induction k rule: int_ge_induct)
    case base
    then show ?case
      using ok that(1) by (auto simp: attempts_ok_def)
  next
    case (step k)
    then obtain y where y: "y \<in> set t" "xa_scope y = xa_scope x" "xa_attempt y = xa_attempt x - k"
      by (auto simp: finished_at_def xa_pk_def)
    with step(3) ok have "finished_at t (xa_scope y, xa_attempt y - 1)"
      by (auto simp: attempts_ok_def)
    moreover have "xa_attempt y - 1 = xa_attempt x - (k + 1)"
      using y(3) by simp
    ultimately show ?case
      using y(2) by simp
  qed
  have "\<not> xa_attempt x < xa_attempt y" if "x \<in> set t" "y \<in> set t" "xa_state x = AttemptBegun" "xa_scope x = xa_scope y" for x y
  proof
    assume lt: "xa_attempt x < xa_attempt y"
    have "1 \<le> xa_attempt x"
      using ok that(1) by (auto simp: attempts_ok_def ext_row_ok_def)
    with later [OF that(2), of "xa_attempt y - xa_attempt x"] lt obtain z where "z \<in> set t" "xa_pk z = (xa_scope y, xa_attempt x)"
      "xa_state z = AttemptFinished"
      by (auto simp: finished_at_def)
    with inj [of z x] that show False
      by (simp add: xa_pk_def)
  qed
  from this [of r s] this [of s r] r s same have "xa_attempt r = xa_attempt s"
    by simp
  with same inj r(1) s(1) show ?thesis
    by (simp add: xa_pk_def)
qed

section \<open>Each statement\<close>

lemma update_evolves:
  assumes "ext_update p f t = (t', ks, r)"
    and "\<And>r. r \<in> set t \<Longrightarrow> p r \<Longrightarrow> ext_row_ok r \<Longrightarrow> attempt_evolves r (f r) \<and>
      (entries_check (f r) \<longrightarrow> ext_row_ok (f r))"
  shows "ledger_evolves t t'"
proof (cases "list_all entries_check (map f (filter p t))")
  case False
  with assms(1) show ?thesis by (auto simp: ext_update_def)
next
  case True
  let ?g = "\<lambda>r. if p r then f r else r"
  from True assms(1) have t': "t' = map ?g t"
    by (simp add: ext_update_def)
  show ?thesis
    unfolding ledger_evolves_def
  proof (intro impI conjI)
    assume ok: "attempts_ok t"
    have ev: "attempt_evolves r (?g r)" and good: "ext_row_ok (?g r)" if "r \<in> set t" for r
      using assms(2) [OF that] ok True that by (auto simp: attempts_ok_def list_all_iff)
    then have pk: "xa_pk (?g r) = xa_pk r" if "r \<in> set t" for r
      using that by (simp only: attempt_evolves_def)
    show "\<forall>r \<in> set t. \<exists>r' \<in> set t'. attempt_evolves r r'"
      unfolding t' set_map using ev by blast
    have fin: "finished_at t' k" if "finished_at t k" for k
      using that ev pk unfolding finished_at_def t' set_map attempt_evolves_def by blast
    have "map xa_pk t' = map xa_pk t"
      using pk by (simp add: t')
    moreover have "ext_row_ok x \<and> (xa_attempt x = 1 \<or> finished_at t' (xa_scope x, xa_attempt x - 1))"
      if "x \<in> set t'" for x
    proof -
      from that obtain r where r: "r \<in> set t" "x = ?g r"
        unfolding t' set_map by blast
      with pk have "xa_attempt x = xa_attempt r" "xa_scope x = xa_scope r"
        by (simp_all add: xa_pk_def)
      with r good fin ok show ?thesis
        by (auto simp: attempts_ok_def)
    qed
    ultimately show "attempts_ok t'"
      using ok unfolding attempts_ok_def by simp
  qed
qed

lemma insert_evolves:
  assumes "insertAttempt scope n message now t = (t', ks, r)" and "1 \<le> n"
    and "n = 1 \<or> finished_at t (scope, n - 1)"
  shows "ledger_evolves t t'"
proof (cases "(scope, n) \<in> xa_pk ` set t")
  case True
  with assms(1) show ?thesis by (simp add: insertAttempt_def)
next
  case False
  let ?r = "begun_row scope n message now"
  have t': "t' = t @ [?r]"
    using False assms(1) by (simp add: insertAttempt_def)
  have r: "xa_pk ?r = (scope, n)" "xa_scope ?r = scope" "xa_attempt ?r = n" "ext_row_ok ?r"
    using assms(2) by (simp_all add: begun_row_def xa_pk_def xa_scope_def ext_row_ok_def entries_check_def)
  have fin: "finished_at t' k" if "finished_at t k" for k
    using that by (auto simp: finished_at_def t')
  show ?thesis
    unfolding ledger_evolves_def
  proof (intro impI conjI)
    assume ok: "attempts_ok t"
    show "\<forall>r \<in> set t. \<exists>r' \<in> set t'. attempt_evolves r r'"
      using attempt_evolves_refl unfolding t' by fastforce
    have "\<forall>x \<in> set t'. ext_row_ok x \<and> (xa_attempt x = 1 \<or> finished_at t' (xa_scope x, xa_attempt x - 1))"
      using ok assms(3) r fin by (auto simp: t' attempts_ok_def)
    moreover have "distinct (map xa_pk t')"
      using ok False r(1) by (auto simp: t' attempts_ok_def)
    ultimately show "attempts_ok t'"
      by (simp add: attempts_ok_def)
  qed
qed

section \<open>Programs\<close>

text \<open>
  \<open>tx_keeps env F m Q\<close>: from a connection of a well-formed table with \<open>F\<close>, the program \<open>m\<close> makes only evolving
  statements and, if it answers a value, establishes \<open>Q\<close>. A precondition has to be stable under the others.
\<close>

definition rg_ok :: "ext_conn \<Rightarrow> bool" where
  "rg_ok c \<longleftrightarrow> attempts_ok (pc_table c) \<and> pg_guarantees ledger_evolves c"

definition tx_keeps :: "(ext_conn \<Rightarrow> bool) \<Rightarrow> (ext_conn \<Rightarrow> ext_conn \<times> 'a result) \<Rightarrow> ('a \<Rightarrow> ext_conn \<Rightarrow> bool) \<Rightarrow> bool" where
  "tx_keeps F m Q \<longleftrightarrow> (\<forall>c c' r. rg_ok c \<longrightarrow> F c \<longrightarrow> m c = (c', r) \<longrightarrow>
     rg_ok c' \<and> ledger_evolves (pc_table c) (pc_table c') \<and> (\<forall>x. r = Ok x \<longrightarrow> Q x c'))"

definition stable :: "(ext_conn \<Rightarrow> bool) \<Rightarrow> bool" where
  "stable F \<longleftrightarrow> (\<forall>c t. rg_ok c \<longrightarrow> F c \<longrightarrow> ledger_evolves (pc_table c) t \<longrightarrow> locked_kept (pc_locks c) (pc_table c) t \<longrightarrow>
     F (c\<lparr>pc_table := t\<rparr>))"

lemma keepsD:
  "tx_keeps F m Q \<Longrightarrow> rg_ok c \<Longrightarrow> F c \<Longrightarrow> m c = (c', r) \<Longrightarrow>
     rg_ok c' \<and> ledger_evolves (pc_table c) (pc_table c') \<and> (\<forall>x. r = Ok x \<longrightarrow> Q x c')"
  unfolding tx_keeps_def by blast

lemma keeps_return: "(\<And>x c. r = Ok x \<Longrightarrow> F c \<Longrightarrow> Q x c) \<Longrightarrow> tx_keeps F (pg_return r) Q"
  by (simp add: tx_keeps_def pg_return_def)

lemma keeps_bind:
  assumes "tx_keeps F m G" and "\<And>x. tx_keeps (G x) (f x) Q"
  shows "tx_keeps F (pg_bind m f) Q"
  unfolding tx_keeps_def
proof (intro allI impI)
  fix c c' r
  assume c: "rg_ok c" "F c" and run: "pg_bind m f c = (c', r)"
  from run show "rg_ok c' \<and> ledger_evolves (pc_table c) (pc_table c') \<and> (\<forall>x. r = Ok x \<longrightarrow> Q x c')"
  proof (cases rule: pg_bind_cases)
    case (ok c1 x)
    from keepsD [OF assms(1) c ok(1)] keepsD [OF assms(2) _ _ ok(2)] show ?thesis
      by (blast intro: ledger_evolves_trans)
  next
    case (err e)
    from keepsD [OF assms(1) c err(1)] err(2) show ?thesis by simp
  next
    case (panic p)
    from keepsD [OF assms(1) c panic(1)] panic(2) show ?thesis by simp
  qed
qed

lemma keeps_weaken: "tx_keeps F m Q \<Longrightarrow> (\<And>c. F' c \<Longrightarrow> F c) \<Longrightarrow> (\<And>x c. Q x c \<Longrightarrow> Q' x c) \<Longrightarrow> tx_keeps F' m Q'"
  unfolding tx_keeps_def by blast

lemma keeps_exec:
  assumes "pg_relies ledger_evolves locked_kept env" and "stable F"
    and "\<And>c t' ks r. rg_ok c \<Longrightarrow> F c \<Longrightarrow> statement (pc_table c) = (t', ks, r) \<Longrightarrow>
      ledger_evolves (pc_table c) t' \<and>
      (\<forall>x log. r = Ok x \<longrightarrow> Q x \<lparr>pc_table = t', pc_log = log, pc_locks = ks @ pc_locks c\<rparr>)"
  shows "tx_keeps F (pg_exec env statement) Q"
  unfolding tx_keeps_def
proof (intro allI impI)
  fix c c' r
  assume c: "rg_ok c" "F c" and run: "pg_exec env statement c = (c', r)"
  have step: "rg_ok (c\<lparr>pc_table := t\<rparr>) \<and> F (c\<lparr>pc_table := t\<rparr>)"
    if "ledger_evolves (pc_table c) t" "locked_kept (pc_locks c) (pc_table c) t" for t
    using c that assms(2) by (auto simp: rg_ok_def stable_def pg_guarantees_def intro: evolves_ok)
  from run assms(1) show "rg_ok c' \<and> ledger_evolves (pc_table c) (pc_table c') \<and> (\<forall>x. r = Ok x \<longrightarrow> Q x c')"
  proof (cases rule: pg_exec_cases)
    case (fault t e)
    with c show ?thesis
      by (auto simp: rg_ok_def pg_guarantees_def intro: evolves_ok)
  next
    case (executed t t' ks)
    from step [OF executed(1,2)] assms(3) [of "c\<lparr>pc_table := t\<rparr>" t' ks r] executed(3)
    have ev: "ledger_evolves t t'" "\<forall>x log. r = Ok x \<longrightarrow> Q x \<lparr>pc_table = t', pc_log = log, pc_locks = ks @ pc_locks c\<rparr>"
      by auto
    have c': "c' = \<lparr>pc_table = t', pc_log = pc_log c @ [(t, t')], pc_locks = ks @ pc_locks c\<rparr>"
      using executed(4-6) by (intro pg_conn.equality) simp_all
    have "ledger_evolves (pc_table c) t'"
      using executed(1) ev(1) by (rule ledger_evolves_trans)
    with c ev show ?thesis
      by (auto simp: c' rg_ok_def pg_guarantees_def intro: evolves_ok)
  qed
qed

section \<open>The three calls\<close>

lemma stable_finished: "stable (\<lambda>c. P \<and> (Q \<or> finished_at (pc_table c) pk))"
  by (auto simp: stable_def rg_ok_def intro: evolves_finished)

lemma stable_const [simp]: "stable (\<lambda>_. P)"
  by (simp add: stable_def)

lemma beginRound_keeps:
  assumes env: "pg_relies ledger_evolves locked_kept env"
  shows "tx_keeps (\<lambda>_. True) (beginRound env scope message now) (\<lambda>_ _. True)"
  unfolding beginRound_def
proof (rule keeps_bind)
  show "tx_keeps (\<lambda>_. True) (doneAttempt env scope message) (\<lambda>_ _. True)"
    unfolding doneAttempt_def
    by (rule keeps_bind [OF keeps_exec [OF env, where Q = "\<lambda>_ _. True"]])
      (auto simp: selectDoneAttempt_def intro: keeps_return)
next
  fix finished :: "AttemptStart option"
  let ?G = "\<lambda>found c. case found of None \<Rightarrow> True
      | Some r \<Rightarrow> 1 \<le> xa_attempt r \<and> (xa_state r = AttemptBegun \<or> finished_at (pc_table c) (scope, xa_attempt r))"
  have last: "tx_keeps (\<lambda>_. True) (pg_exec env (selectLastAttempt scope)) ?G"
  proof (rule keeps_exec [OF env])
    fix c :: ext_conn and t' ks r
    assume c: "rg_ok c" and sel: "selectLastAttempt scope (pc_table c) = (t', ks, r)"
    have "1 \<le> xa_attempt x \<and> (xa_state x = AttemptBegun \<or> finished_at (pc_table c) (scope, xa_attempt x))"
      if "latest (filter (\<lambda>r. xa_scope r = scope) (pc_table c)) = Some x" for x
    proof -
      have x: "x \<in> set (pc_table c)" "xa_pk x = (scope, xa_attempt x)"
        using latest_Some [OF that] by (auto simp: xa_pk_def)
      with c have "1 \<le> xa_attempt x"
        by (auto simp: rg_ok_def attempts_ok_def ext_row_ok_def)
      with x show ?thesis
        by (cases "xa_state x") (auto simp: finished_at_def)
    qed
    with sel show "ledger_evolves (pc_table c) t' \<and> (\<forall>x log. r = Ok x \<longrightarrow>
        ?G x \<lparr>pc_table = t', pc_log = log, pc_locks = ks @ pc_locks c\<rparr>)"
      by (auto simp: selectLastAttempt_def split: option.splits)
  qed simp
  have insert: "tx_keeps (\<lambda>c. 1 \<le> n \<and> (n = 1 \<or> finished_at (pc_table c) (scope, n - 1)))
      (pg_bind (pg_exec env (insertAttempt scope n message now)) (\<lambda>affected. pg_return (Ok (f affected)))) (\<lambda>_ _. True)"
    for n and f :: "nat \<Rightarrow> AttemptStart option"
    by (rule keeps_bind [OF keeps_exec [OF env stable_finished, where Q = "\<lambda>_ _. True"]])
      (auto intro: keeps_return dest: insert_evolves)
  show "tx_keeps (\<lambda>_. True) (case finished of Some start \<Rightarrow> pg_return (Ok (Some start))
     | None \<Rightarrow>
         pg_bind (pg_exec env (selectLastAttempt scope)) (\<lambda>found.
           let insert = (\<lambda>n. pg_bind (pg_exec env (insertAttempt scope n message now)) (\<lambda>affected.
                 pg_return (Ok (if affected = 0 then None
                   else Some (StartedAttempt \<lparr>att_Tenant = ak_tenant scope, att_Key = ak_key scope, att_N = n,
                               att_MessageID = message, att_StartedAt = now\<rparr>))))) in
           case found of
             None \<Rightarrow> insert 1
           | Some r \<Rightarrow>
               if xa_state r = AttemptBegun then pg_return (Ok (Some (PendingAttempt (row_attempt r))))
               else insert (xa_attempt r + 1))) (\<lambda>_ _. True)"
    by (cases finished)
      (auto simp: Let_def split: option.splits intro!: keeps_return keeps_bind [OF last] keeps_weaken [OF insert])
qed

lemma pg_Begin_keeps:
  assumes env: "pg_relies ledger_evolves locked_kept env"
  shows "tx_keeps (\<lambda>_. True) (pg_Begin env ctx key message now) (\<lambda>_ _. True)"
proof -
  have loop: "tx_keeps (\<lambda>_. True) (begin_loop env scope message now rounds) (\<lambda>_ _. True)" for scope rounds
    by (induction rounds)
      (auto intro!: keeps_return keeps_bind [OF beginRound_keeps [OF env]] split: option.splits)
  show ?thesis
    unfolding pg_Begin_def
    by (auto intro!: keeps_return keeps_bind [OF keeps_return [where Q = "\<lambda>_ _. True"]] loop)
qed

text \<open>An UPDATE that only adds to the observations or the conflicts of a row.\<close>

lemma append_keeps:
  assumes env: "pg_relies ledger_evolves locked_kept env" and F: "stable F"
  shows "tx_keeps F (pg_exec env (appendAttemptConflict scope n class finding now)) (\<lambda>_ _. True)"
    "tx_keeps F (pg_exec env (recordObservationID scope n i)) (\<lambda>_ _. True)"
  by (rule keeps_exec [OF env F], simp add: appendAttemptConflict_def recordObservationID_def, rule update_evolves,
      assumption, simp add: attempt_evolves_def ext_row_ok_def xa_pk_def xa_scope_def)+

lemma finishBegun_keeps:
  assumes env: "pg_relies ledger_evolves locked_kept env"
  shows "tx_keeps (\<lambda>_. True) (pg_exec env (finishBegunAttempt scope ao)) (\<lambda>_ _. True)"
proof (rule keeps_exec [OF env])
  fix c :: ext_conn and t' ks r
  assume "finishBegunAttempt scope ao (pc_table c) = (t', ks, r)"
  then have "ledger_evolves (pc_table c) t'"
    unfolding finishBegunAttempt_def
    by (rule update_evolves)
      (auto simp: attempt_evolves_def finished_row_def Let_def ext_row_ok_def xa_pk_def xa_scope_def)
  then show "ledger_evolves (pc_table c) t' \<and> (\<forall>x log. r = Ok x \<longrightarrow> True)"
    by simp
qed simp

lemma pg_Finish_keeps:
  assumes env: "pg_relies ledger_evolves locked_kept env"
  shows "tx_keeps (\<lambda>_. True) (pg_Finish env ctx ao) (\<lambda>_ _. True)"
proof -
  have lock: "tx_keeps (\<lambda>_. True) (pg_exec env (lockAttemptClass scope n)) (\<lambda>_ _. True)" for scope n
    by (rule keeps_exec [OF env]) (auto simp: lockAttemptClass_def Let_def)
  have "tx_keeps (\<lambda>_. True) (finish_begun env scope ao) (\<lambda>_ _. True)" for scope
    unfolding finish_begun_def
    by (intro keeps_bind [OF finishBegun_keeps [OF env]])
      (auto simp: Let_def split: option.splits intro!: keeps_return keeps_bind [OF lock] keeps_bind [OF append_keeps(1) [OF env]])
  then show ?thesis
    unfolding pg_Finish_def
    by (auto intro!: keeps_return keeps_bind [OF keeps_return [where Q = "\<lambda>_ _. True"]])
qed

text \<open>The row \<open>lockLastAttempt\<close> locked is the row the next statement finds.\<close>

definition holds :: "ext_row \<Rightarrow> ext_conn \<Rightarrow> bool" where
  "holds r c \<longleftrightarrow> r \<in> set (pc_table c) \<and> xa_pk r \<in> set (pc_locks c)"

lemma stable_holds: "stable (holds r)"
  by (auto simp: stable_def holds_def locked_kept_def)

lemma recordObservation_keeps:
  assumes env: "pg_relies ledger_evolves locked_kept env" and r: "xa_state r = AttemptFinished" "xa_terminal r = None"
  shows "tx_keeps (holds r) (pg_exec env (recordObservation (xa_scope r) (xa_attempt r) ob full)) (\<lambda>_ _. True)"
proof (rule keeps_exec [OF env stable_holds])
  fix c :: ext_conn and t' ks res
  let ?p = "\<lambda>s. xa_pk s = (xa_scope r, xa_attempt r)"
  assume c: "rg_ok c" "holds r c" and run: "recordObservation (xa_scope r) (xa_attempt r) ob full (pc_table c) = (t', ks, res)"
  have only: "s = r" if "s \<in> set (pc_table c)" "?p s" for s
    using c that by (auto simp: rg_ok_def attempts_ok_def holds_def distinct_map xa_pk_def dest!: inj_onD [of xa_pk _ s r])
  obtain u l res' where upd: "ext_update ?p (observed_row ob full) (pc_table c) = (u, l, res')"
    by (cases "ext_update ?p (observed_row ob full) (pc_table c)")
  with run have "t' = u"
    by (cases res') (auto simp: recordObservation_def)
  moreover have "ledger_evolves (pc_table c) u"
    using upd
  proof (rule update_evolves)
    fix s
    assume "s \<in> set (pc_table c)" "?p s" "ext_row_ok s"
    with only have "s = r" "ext_row_ok r" by auto
    with r show "attempt_evolves s (observed_row ob full s) \<and>
        (entries_check (observed_row ob full s) \<longrightarrow> ext_row_ok (observed_row ob full s))"
      by (simp add: attempt_evolves_def observed_row_def ext_row_ok_def xa_pk_def xa_scope_def)
  qed
  ultimately show "ledger_evolves (pc_table c) t' \<and> (\<forall>x log. res = Ok x \<longrightarrow> True)"
    by simp
qed

lemma pg_Observe_keeps:
  assumes env: "pg_relies ledger_evolves locked_kept env"
  shows "tx_keeps (\<lambda>_. True) (pg_Observe env ctx ob now) (\<lambda>_ _. True)"
proof -
  let ?G = "\<lambda>scope found c. case found of None \<Rightarrow> True | Some r \<Rightarrow> holds r c \<and> xa_scope r = scope"
  have lock: "tx_keeps (\<lambda>_. True) (pg_exec env (lockLastAttempt scope)) (?G scope)" for scope
    by (rule keeps_exec [OF env]) (auto simp: lockLastAttempt_def Let_def holds_def split: option.splits dest!: latest_Some)
  have last: "tx_keeps (holds r) (observe_last env (xa_scope r) ob now r) (\<lambda>_ _. True)" if "xa_state r = AttemptFinished" for r
    unfolding observe_last_def observeAfterTerminal_def Let_def
    by (cases "xa_terminal r")
      (auto intro!: keeps_return keeps_bind [OF recordObservation_keeps [OF env that]]
        keeps_bind [OF append_keeps(1) [OF env]] keeps_bind [OF append_keeps(2) [OF env stable_holds]])
  have "tx_keeps (?G scope found) (case found of
         None \<Rightarrow> pg_return (FailWith ErrAttemptUnknown ''postgres: observe'')
       | Some row \<Rightarrow>
           if xa_state row = AttemptBegun then pg_return (FailWith ErrAttemptInFlight ''postgres: observe attempt'')
           else observe_last env scope ob now row) (\<lambda>_ _. True)" for scope found
  proof (cases found)
    case (Some r)
    show ?thesis
    proof (cases "xa_state r")
      case AttemptFinished
      show ?thesis
      proof (cases "xa_scope r = scope")
        case True
        with Some AttemptFinished show ?thesis
          using keeps_weaken [OF last [OF AttemptFinished], of "?G scope found" "\<lambda>_ _. True"] by simp
      qed (simp add: Some tx_keeps_def)
    qed (simp add: Some keeps_return)
  qed (simp add: keeps_return)
  then show ?thesis
    unfolding pg_Observe_def
    by (auto intro!: keeps_bind [OF keeps_return [where Q = "\<lambda>_ _. True"]] keeps_bind [OF lock])
qed

section \<open>Safe among any other calls\<close>

fun tx_call :: "ext_env \<Rightarrow> ledger_call \<Rightarrow> ext_conn \<Rightarrow> ext_conn \<times> ledger_value result" where
  "tx_call env (CallBegin ctx key message now) c = map_prod id (res_map ValueStart) (pg_Begin env ctx key message now c)"
| "tx_call env (CallFinish ctx ao) c = map_prod id (res_map ValueFinished) (pg_Finish env ctx ao c)"
| "tx_call env (CallObserve ctx ob now) c = map_prod id (res_map ValueObserved) (pg_Observe env ctx ob now c)"
| "tx_call env (CallStale ctx cutoff after limit) c = map_prod id (res_map ValueStale) (pg_Stale env cutoff after limit c)"

lemma keeps_map: "tx_keeps F m (\<lambda>_ _. True) \<Longrightarrow> tx_keeps F (\<lambda>c. map_prod id (res_map f) (m c)) (\<lambda>_ _. True)"
  by (auto simp: tx_keeps_def map_prod_def split: prod.splits)

lemma tx_call_keeps:
  assumes env: "pg_relies ledger_evolves locked_kept env"
  shows "tx_keeps (\<lambda>_. True) (tx_call env call) (\<lambda>_ _. True)"
proof -
  have stale: "tx_keeps (\<lambda>_. True) (pg_Stale env cutoff after limit) (\<lambda>_ _. True)" for cutoff after limit
    unfolding pg_Stale_def
    by (auto intro!: keeps_return keeps_exec [OF env] simp: selectStaleAttempts_def)
  have "tx_call env (CallBegin ctx key message now) = (\<lambda>c. map_prod id (res_map ValueStart) (pg_Begin env ctx key message now c))"
    "tx_call env (CallFinish ctx ao) = (\<lambda>c. map_prod id (res_map ValueFinished) (pg_Finish env ctx ao c))"
    "tx_call env (CallObserve ctx ob now) = (\<lambda>c. map_prod id (res_map ValueObserved) (pg_Observe env ctx ob now c))"
    "tx_call env (CallStale ctx cutoff after limit) = (\<lambda>c. map_prod id (res_map ValueStale) (pg_Stale env cutoff after limit c))"
    for ctx key message now ao ob cutoff after limit
    by (rule ext, simp)+
  then show ?thesis
    using keeps_map [OF pg_Begin_keeps [OF env]] keeps_map [OF pg_Finish_keeps [OF env]]
      keeps_map [OF pg_Observe_keeps [OF env]] keeps_map [OF stale]
    by (cases call) simp_all
qed

lemma at_most_one_begun:
  assumes "attempts_ok t"
  shows "length (filter (\<lambda>r. xa_scope r = scope \<and> xa_state r = AttemptBegun) t) \<le> 1"
proof (rule ccontr)
  let ?xs = "filter (\<lambda>r. xa_scope r = scope \<and> xa_state r = AttemptBegun) t"
  assume "\<not> length ?xs \<le> 1"
  then have two: "0 < length ?xs" "1 < length ?xs" by linarith+
  then have mem: "?xs ! 0 \<in> set ?xs" "?xs ! 1 \<in> set ?xs" by (simp_all only: nth_mem)
  have "distinct ?xs"
    using assms by (auto simp: attempts_ok_def distinct_map)
  with two have "?xs ! 0 \<noteq> ?xs ! 1"
    by (simp only: distinct_conv_nth) blast
  moreover have "?xs ! 0 = ?xs ! 1"
    using mem by (intro one_in_flight [OF assms]) auto
  ultimately show False ..
qed

text \<open>
  C7. The ledger of \<open>postgres\<close> under concurrency. Let the other transactions do, between the statements of one call,
  anything that keeps the table well-formed, what was recorded, and the rows this call locked. Then each statement
  of the call does the same, so the calls keep each other's assumption; and at every moment a key has at most one
  attempt in flight, the numbers of its attempts have no gap, no attempt is lost, and no recorded class, time or
  terminal finding changes.
\<close>

theorem ledger_calls_are_race_safe:
  assumes "pg_relies ledger_evolves locked_kept env" and "attempts_ok t"
    and "tx_call env call (pg_opened t) = (c, r)"
  shows "pg_guarantees ledger_evolves c \<and> attempts_ok (pc_table c) \<and>
    (\<forall>r \<in> set t. \<exists>r' \<in> set (pc_table c). attempt_evolves r r') \<and>
    length (filter (\<lambda>r. xa_scope r = scope \<and> xa_state r = AttemptBegun) (pc_table c)) \<le> 1"
proof -
  have "rg_ok (pg_opened t)"
    using assms(2) by (simp add: rg_ok_def pg_opened_def pg_guarantees_def)
  from keepsD [OF tx_call_keeps [OF assms(1)] this _ assms(3)] assms(2)
  have "attempts_ok (pc_table c)" "pg_guarantees ledger_evolves c" "ledger_evolves t (pc_table c)"
    by (auto simp: rg_ok_def pg_opened_def)
  with assms(2) at_most_one_begun [of "pc_table c" scope] show ?thesis
    by (simp add: ledger_evolves_def)
qed

text \<open>The other transaction of the examples: between the first and the second statement it finishes attempt 1.\<close>

definition racing_row :: "ext_row \<Rightarrow> bool" where
  "racing_row r \<longleftrightarrow> xa_pk r = (sample_scope, 1) \<and> xa_state r = AttemptBegun"

definition racing :: ext_env where
  "racing = \<lparr>pe_others = (\<lambda>n ks t. if n = 1 \<and> (sample_scope, 1) \<notin> set ks
       then fst (ext_update racing_row (finished_row sample_outcome) t) else t),
     pe_fault = (\<lambda>_. None), pe_begin = None, pe_commit = None\<rparr>"

definition racing_table :: ext_table where
  "racing_table = [begun_row sample_scope 1 ''m'' 10]"

lemma racing_relies: "pg_relies ledger_evolves locked_kept racing"
proof -
  have "ledger_evolves t (fst (ext_update racing_row (finished_row sample_outcome) t))" for t
    by (rule update_evolves [where p = racing_row and f = "finished_row sample_outcome" and ks = "fst (snd (ext_update racing_row (finished_row sample_outcome) t))"
          and r = "snd (snd (ext_update racing_row (finished_row sample_outcome) t))"], simp)
      (auto simp: racing_row_def attempt_evolves_def finished_row_def Let_def ext_row_ok_def xa_pk_def xa_scope_def)
  moreover have "locked_kept ks t (fst (ext_update racing_row (finished_row sample_outcome) t))"
    if "(sample_scope, 1) \<notin> set ks" for ks t
    using that by (force simp: locked_kept_def ext_update_def racing_row_def)
  ultimately show ?thesis
    by (auto simp: pg_relies_def racing_def locked_kept_def)
qed

lemma racing_table_ok: "attempts_ok racing_table"
  by (simp add: racing_table_def attempts_ok_def begun_row_def ext_row_ok_def entries_check_def)

lemma sample_pg_scope: "pg_scope sample_context ''k'' = Ok sample_scope"
  using sample_scope_eq by (cases sample_context "''k''" rule: scope_cases) auto

lemmas racing_run = racing_def racing_table_def racing_row_def pg_opened_def pg_exec_def Let_def sample_pg_scope
  selectDoneAttempt_def selectLastAttempt_def insertAttempt_def ext_update_def done_row_def begun_row_def xa_pk_def
  xa_scope_def sample_scope_def finished_row_def observationColumns_def sample_outcome_def obs_zero_def
  nullableFinding_def terminalOf_def entries_check_def pg_return_def

theorem ledger_calls_are_race_safe_witness:
  "attempts_ok (pc_table (fst (tx_call racing (CallFinish sample_context sample_outcome) (pg_opened racing_table))))"
proof -
  obtain c r where run: "tx_call racing (CallFinish sample_context sample_outcome) (pg_opened racing_table) = (c, r)"
    by fastforce
  from ledger_calls_are_race_safe [OF racing_relies racing_table_ok run] run show ?thesis
    by simp
qed

section \<open>Redeliveries\<close>

text \<open>
  Retention deletes concluded attempts, so a redelivery may rely on less than a call of the ledger: the attempts
  finished since \<open>before\<close> stay with what was recorded, whichever the other calls and purges up to \<open>before\<close> are.
\<close>

definition outcomes_retained :: "Instant \<Rightarrow> ext_table \<Rightarrow> ext_table \<Rightarrow> bool" where
  "outcomes_retained before t t' \<longleftrightarrow>
     (\<forall>r \<in> set t. xa_state r = AttemptFinished \<longrightarrow>
        (\<exists>r' \<in> set t'. attempt_evolves r r') \<or> (\<exists>at. xa_finished r = Some at \<and> at < before))"

lemma retained_trans: "outcomes_retained before t u \<Longrightarrow> outcomes_retained before u v \<Longrightarrow> outcomes_retained before t v"
  unfolding outcomes_retained_def attempt_evolves_def by metis

lemma retained_evolves: "attempts_ok t \<Longrightarrow> ledger_evolves t t' \<Longrightarrow> outcomes_retained before t t'"
  by (auto simp: ledger_evolves_def outcomes_retained_def)

text \<open>The writes of the calls retain outcomes on any table, also one a purge has left with gaps.\<close>

lemma update_retains:
  assumes "ext_update p f t = (t', ks, r)"
    and "\<And>r. r \<in> set t \<Longrightarrow> p r \<Longrightarrow> xa_state r = AttemptFinished \<Longrightarrow> attempt_evolves r (f r)"
  shows "outcomes_retained before t t'"
proof (cases "list_all entries_check (map f (filter p t))")
  case True
  with assms(1) have t': "t' = map (\<lambda>r. if p r then f r else r) t"
    by (simp add: ext_update_def)
  have "attempt_evolves r (if p r then f r else r)" if "r \<in> set t" "xa_state r = AttemptFinished" for r
    using assms(2) that by simp
  then show ?thesis
    unfolding outcomes_retained_def t' set_map by blast
next
  case False
  with assms(1) show ?thesis
    by (auto simp: ext_update_def outcomes_retained_def intro: attempt_evolves_refl)
qed

lemma writes_retain:
  "insertAttempt scope n message now t = (t', ks, x) \<Longrightarrow> outcomes_retained before t t'"
  "finishBegunAttempt scope ao t = (t', ks, x) \<Longrightarrow> outcomes_retained before t t'"
  "appendAttemptConflict scope n class finding now t = (t', ks, y) \<Longrightarrow> outcomes_retained before t t'"
  "recordObservationID scope n i t = (t', ks, y) \<Longrightarrow> outcomes_retained before t t'"
proof -
  show "insertAttempt scope n message now t = (t', ks, x) \<Longrightarrow> outcomes_retained before t t'"
    by (auto simp: insertAttempt_def outcomes_retained_def intro: attempt_evolves_refl split: if_splits)
  show "finishBegunAttempt scope ao t = (t', ks, x) \<Longrightarrow> outcomes_retained before t t'"
    unfolding finishBegunAttempt_def by (erule update_retains) auto
  show "appendAttemptConflict scope n class finding now t = (t', ks, y) \<Longrightarrow> outcomes_retained before t t'"
    unfolding appendAttemptConflict_def by (erule update_retains) (auto simp: attempt_evolves_def xa_pk_def xa_scope_def)
  show "recordObservationID scope n i t = (t', ks, y) \<Longrightarrow> outcomes_retained before t t'"
    unfolding recordObservationID_def by (erule update_retains) (auto simp: attempt_evolves_def xa_pk_def xa_scope_def)
qed

lemma PurgeAttempts_keeps:
  assumes "PurgeAttempts row_locked before batch t = (t', r)" and "x \<in> set t" and "x \<notin> set t'"
  shows "xa_state x = AttemptFinished \<and> (\<exists>at. xa_finished x = Some at \<and> at < before) \<and> \<not> row_locked (xa_pk x)"
  using assms
  by (auto simp: PurgeAttempts_def Let_def attempt_purgeable_def split: if_splits option.splits dest!: in_set_takeD)

lemma retained_purge:
  assumes "PurgeAttempts row_locked cutoff batch t = (t', r)" and "cutoff \<le> before"
  shows "outcomes_retained before t t'"
  unfolding outcomes_retained_def
proof (intro ballI impI)
  fix x
  assume "x \<in> set t"
  with PurgeAttempts_keeps [OF assms(1) this] assms(2)
  show "(\<exists>r' \<in> set t'. attempt_evolves x r') \<or> (\<exists>at. xa_finished x = Some at \<and> at < before)"
    by (cases "x \<in> set t'") (auto intro: attempt_evolves_refl)
qed


lemma sample_Begin:
  "pg_Begin env sample_context ''k'' ''m'' now =
     pg_bind (beginRound env sample_scope ''m'' now) (\<lambda>settled. case settled of Some start \<Rightarrow> pg_return (Ok start)
       | None \<Rightarrow> begin_loop env sample_scope ''m'' now 7)"
  unfolding pg_Begin_def beginRounds_Suc begin_loop.simps sample_pg_scope pg_bind_return by simp

text \<open>
  C26. A race the ledger does not close. A message is concluded between the two SELECTs of \<open>Begin\<close>: the first one still
  finds its attempt in flight, the second one finds it finished, and \<open>Begin\<close> starts attempt 2 of the message
  the partner has accepted. The other transaction is an ordinary \<open>Finish\<close>, within what a call relies on.
\<close>

theorem begin_races_with_finish:
  "\<exists>c att r. pg_relies ledger_evolves locked_kept racing \<and> attempts_ok racing_table \<and>
     pg_Begin racing sample_context ''k'' ''m'' 30 (pg_opened racing_table) = (c, Ok (StartedAttempt att)) \<and>
     att_N att = 2 \<and> r \<in> set (pc_table c) \<and> done_row sample_scope ''m'' r \<and> xa_attempt r = 1 \<and>
     xa_class r = Some ClassAccepted"
proof -
  let ?done = "finished_row sample_outcome (begun_row sample_scope 1 ''m'' 10)"
  let ?run = "pg_Begin racing sample_context ''k'' ''m'' 30 (pg_opened racing_table)"
  have "set (pc_table (fst ?run)) = {?done, begun_row sample_scope 2 ''m'' 30} \<and>
      snd ?run = Ok (StartedAttempt (row_attempt (begun_row sample_scope 2 ''m'' 30)))"
    by (simp add: sample_Begin beginRound_def doneAttempt_def racing_run pg_bind_def row_attempt_def)
  moreover have "done_row sample_scope ''m'' ?done" "xa_attempt ?done = 1" "xa_class ?done = Some ClassAccepted"
    by (simp_all add: racing_run retryableClasses_def declared_classes_def Retryable_def)
  moreover have "att_N (row_attempt (begun_row sample_scope 2 ''m'' 30)) = 2"
    by (simp add: row_attempt_def begun_row_def)
  ultimately show ?thesis
    using racing_relies racing_table_ok
    by (intro exI [of _ "fst ?run"] exI [of _ "row_attempt (begun_row sample_scope 2 ''m'' 30)"] exI [of _ ?done])
      (auto simp: prod_eq_iff)
qed

text \<open>The other transaction of the example purges, before the first statement, what finished before instant 15.\<close>

definition purging :: ext_env where
  "purging = \<lparr>pe_others = (\<lambda>n ks t. fst (PurgeAttempts (\<lambda>pk. pk \<in> set ks) 15 10 t)), pe_fault = (\<lambda>_. None),
     pe_begin = None, pe_commit = None\<rparr>"

lemma purging_relies: "pg_relies (outcomes_retained 15) locked_kept purging"
  unfolding pg_relies_def
proof (intro allI conjI)
  fix n ks t
  obtain t' r where purge: "PurgeAttempts (\<lambda>pk. pk \<in> set ks) 15 10 t = (t', r)" by fastforce
  with retained_purge [OF purge order_refl] show "outcomes_retained 15 t (pe_others purging n ks t)"
    by (simp add: purging_def)
  from PurgeAttempts_keeps [OF purge] purge show "locked_kept ks t (pe_others purging n ks t)"
    by (auto simp: purging_def locked_kept_def)
qed


end
