(* ===== verification/Postgres_Inbox.thy ===== *)
theory Postgres_Inbox
  imports Postgres_Tx Application_Idempotency
begin

text \<open>
  The inbox of the PostgreSQL provider, \<^verbatim>\<open>libs/backend/go/postgres/inbox.go\<close> over the table of \<open>inbox.sql\<close>, with
  its purges (\<open>purge.go\<close>) and the quarantine (\<open>quarantine.go\<close>). \<open>Register\<close> inserts a provisional row that
  \<open>Complete\<close> overwrites. It is the second realization of the locale \<open>inbox\<close>, so that a command runs at most once over it too.
\<close>

section \<open>Rows\<close>

record ibx_row =
  ibx_consumer :: string
  ibx_message_id :: string
  ibx_message_type :: string
  ibx_payload_hash :: string
  ibx_received_at :: Instant
  ibx_processed_at :: Instant
  ibx_status :: Status
  ibx_last_error :: "string option"
  ibx_outcome :: "bytes option"
  ibx_expires_at :: "Instant option"

type_synonym ibx_table = "ibx_row list"
type_synonym ibx_pk = "string \<times> string"

definition ibx_key :: "ibx_row \<Rightarrow> ibx_pk" where
  "ibx_key r = (ibx_consumer r, ibx_message_id r)"

section \<open>Statements\<close>

type_synonym 'a ibx_statement = "(ibx_table, ibx_pk, 'a) pg_statement"

text \<open>The provisional row: processed, without outcome.\<close>

definition provisional :: "string \<Rightarrow> string \<Rightarrow> Receipt \<Rightarrow> Instant option \<Rightarrow> ibx_row" where
  "provisional consumer mid r expires =
     \<lparr>ibx_consumer = consumer, ibx_message_id = mid, ibx_message_type = rcp_MessageType r,
      ibx_payload_hash = rcp_PayloadHash r, ibx_received_at = rcp_ReceivedAt r, ibx_processed_at = rcp_ReceivedAt r,
      ibx_status = StatusProcessed, ibx_last_error = None, ibx_outcome = None, ibx_expires_at = expires\<rparr>"

definition insertInbox :: "string \<Rightarrow> string \<Rightarrow> Receipt \<Rightarrow> nat ibx_statement" where
  "insertInbox consumer mid r t =
     (if (consumer, mid) \<in> ibx_key ` set t then (t, [], Ok 0)
      else (t @ [provisional consumer mid r None], [(consumer, mid)], Ok 1))"

text \<open>\<open>ON CONFLICT DO UPDATE ... WHERE\<close>: an expired entry is replaced, another one is only locked.\<close>

definition ibx_expired :: "Instant \<Rightarrow> ibx_row \<Rightarrow> bool" where
  "ibx_expired at row \<longleftrightarrow> (case ibx_expires_at row of None \<Rightarrow> False | Some e \<Rightarrow> e \<le> at)"

definition insertCommand :: "string \<Rightarrow> string \<Rightarrow> Receipt \<Rightarrow> nat ibx_statement" where
  "insertCommand consumer mid r t =
     (let row = provisional consumer mid r (Some (rcp_ExpiresAt r)) in
      case List.find (\<lambda>i. ibx_key i = (consumer, mid)) t of
        None \<Rightarrow> (t @ [row], [(consumer, mid)], Ok 1)
      | Some i \<Rightarrow>
          if ibx_expired (rcp_ReceivedAt r) i
          then (map (\<lambda>i. if ibx_key i = (consumer, mid) then row else i) t, [(consumer, mid)], Ok 1)
          else (t, [(consumer, mid)], Ok 0))"

definition selectInbox :: "string \<Rightarrow> string \<Rightarrow> ibx_row option ibx_statement" where
  "selectInbox consumer mid t = (t, [], Ok (List.find (\<lambda>i. ibx_key i = (consumer, mid)) t))"

definition updateInbox :: "string \<Rightarrow> string \<Rightarrow> Completion \<Rightarrow> nat ibx_statement" where
  "updateInbox consumer mid c t =
     (let p = (\<lambda>i. ibx_key i = (consumer, mid)) in
      (map (\<lambda>i. if p i
         then i\<lparr>ibx_status := cpl_Status c, ibx_processed_at := cpl_At c,
                ibx_last_error := (if cpl_LastError c = [] then None else Some (cpl_LastError c)),
                ibx_outcome := Some (cpl_Outcome c)\<rparr> else i) t,
       map ibx_key (filter p t), Ok (length (filter p t))))"

text \<open>\<open>SET LOCAL lock_timeout\<close>: no row changes; the timeout shows as a fault of the insert.\<close>

definition set_lock_timeout :: "unit ibx_statement" where
  "set_lock_timeout t = (t, [], Ok ())"

section \<open>Register\<close>

record pgInbox =
  pgi_consumer :: string
  pgi_wait :: int
  pgi_commands :: bool

definition pgInbox_of :: "string \<Rightarrow> int \<Rightarrow> pgInbox" where
  "pgInbox_of consumer wait = \<lparr>pgi_consumer = consumer, pgi_wait = wait, pgi_commands = False\<rparr>"

definition pgCommandInbox_of :: "string \<Rightarrow> int \<Rightarrow> pgInbox" where
  "pgCommandInbox_of consumer wait = \<lparr>pgi_consumer = consumer, pgi_wait = wait, pgi_commands = True\<rparr>"

record pgPending =
  pgp_consumer :: string
  pgp_messageID :: MessageID
  pgp_completed :: bool

definition commandDeadlineMargin :: int where
  "commandDeadlineMargin = 100000000"

definition tighter :: "int \<Rightarrow> int \<Rightarrow> int" where
  "tighter wait limit = (if wait \<le> 0 \<or> limit < wait then limit else wait)"

text \<open>\<open>remaining\<close> is the time until the deadline of the context, if it has one. A millisecond is the least wait.\<close>

definition commandWait :: "int option \<Rightarrow> int \<Rightarrow> Receipt \<Rightarrow> int" where
  "commandWait remaining bound r =
     (let wait1 = (if 0 < rcp_WaitUntil r then tighter bound (wrap64 (rcp_WaitUntil r - rcp_ReceivedAt r)) else bound);
          wait2 = (case remaining of None \<Rightarrow> wait1 | Some left \<Rightarrow> tighter wait1 (wrap64 (left - commandDeadlineMargin)))
      in max wait2 1000000)"

definition lockNotAvailable :: string where
  "lockNotAvailable = ''55P03''"

definition isLockTimeout :: "gerr \<Rightarrow> bool" where
  "isLockTimeout e \<longleftrightarrow> errors_As as_SQLState e = Some lockNotAvailable"

type_synonym ibx_env = "(ibx_table, ibx_pk) pg_env"
type_synonym ibx_conn = "(ibx_table, ibx_pk) pg_conn"

definition pgi_id :: "pgInbox \<Rightarrow> carrier \<Rightarrow> Receipt \<Rightarrow> MessageID result" where
  "pgi_id i ctx r =
     (if pgi_commands i then
        (if rcp_ExpiresAt r \<le> rcp_ReceivedAt r then Fail Pg_ErrCommandExpiryRequired
         else res_map (\<lambda>tenant. tenant @ ''/'' @ rcp_MessageID r) (pg_tenantOf ctx))
      else Ok (rcp_MessageID r))"

definition pgi_lock_timeout :: "ibx_env \<Rightarrow> int \<Rightarrow> ibx_conn \<Rightarrow> ibx_conn \<times> unit result" where
  "pgi_lock_timeout env wait = (if 0 < wait then pg_exec env set_lock_timeout else pg_return (Ok ()))"

text \<open>The error of the insert, which a lock timeout turns into the port's sentinel.\<close>

definition pgi_insert :: "ibx_env \<Rightarrow> pgInbox \<Rightarrow> MessageID \<Rightarrow> Receipt \<Rightarrow> ibx_conn \<Rightarrow> ibx_conn \<times> nat result" where
  "pgi_insert env i mid r c =
     (case pg_exec env ((if pgi_commands i then insertCommand else insertInbox) (pgi_consumer i) mid r) c of
        (c', Err e) \<Rightarrow> (c', if isLockTimeout e then Err (Wrapped [] [Sentinel ErrRegisterTimeout, e]) else Err e)
      | (c', r) \<Rightarrow> (c', r))"

definition pgi_classify :: "Receipt \<Rightarrow> ibx_row option \<Rightarrow> pgPending Reception result" where
  "pgi_classify r found =
     (case found of
        None \<Rightarrow> Err (Wrapped ''postgres: inbox row absent after conflict'' [])
      | Some row \<Rightarrow>
          let stored = (case ibx_outcome row of None \<Rightarrow> [] | Some bytes \<Rightarrow> bytes) in
          if ibx_payload_hash row \<noteq> rcp_PayloadHash r then Ok CollisionReception
          else if ibx_status row = StatusProcessed then Ok (WithStored stored ProcessedReception)
          else Ok (WithStored stored RejectedReception))"

definition pgi_Register ::
    "ibx_env \<Rightarrow> int option \<Rightarrow> pgInbox \<Rightarrow> carrier \<Rightarrow> Receipt \<Rightarrow> ibx_conn \<Rightarrow> ibx_conn \<times> pgPending Reception result" where
  "pgi_Register env remaining i ctx r =
     (if pgi_consumer i = [] then pg_return (Fail Pg_ErrInboxConsumerRequired)
      else if rcp_Consumer r \<noteq> pgi_consumer i then pg_return (Fail Pg_ErrInboxConsumerMismatch)
      else pg_bind (pg_return (pgi_id i ctx r)) (\<lambda>mid.
        let wait = (if pgi_commands i then commandWait remaining (pgi_wait i) r else pgi_wait i) in
        pg_bind (pgi_lock_timeout env wait) (\<lambda>_.
        pg_bind (pgi_insert env i mid r) (\<lambda>affected.
        pg_bind (pgi_lock_timeout env wait) (\<lambda>_.
          if affected = 1
          then pg_return (FirstReception (Some \<lparr>pgp_consumer = pgi_consumer i, pgp_messageID = mid, pgp_completed = False\<rparr>))
          else pg_bind (pg_exec env (selectInbox (pgi_consumer i) mid)) (\<lambda>row. pg_return (pgi_classify r row)))))))"

section \<open>Complete\<close>

definition pgi_Complete :: "ibx_env \<Rightarrow> pgPending \<Rightarrow> Completion \<Rightarrow> ibx_conn \<Rightarrow> pgPending \<times> ibx_conn \<times> unit result" where
  "pgi_Complete env p c conn =
     (if pgp_completed p then (p, conn, Fail Pg_ErrAlreadyCompleted)
      else if cpl_Status c \<noteq> StatusProcessed \<and> cpl_Status c \<noteq> StatusRejected then (p, conn, Fail Pg_ErrInvalidCompletion)
      else (case pg_exec env (updateInbox (pgp_consumer p) (pgp_messageID p) c) conn of
          (conn', Err e) \<Rightarrow> (p, conn', Err e)
        | (conn', Panic m) \<Rightarrow> (p, conn', Panic m)
        | (conn', Ok n) \<Rightarrow>
            if n \<noteq> 1 then (p, conn', Err (Wrapped ''postgres: inbox update affected rows'' []))
            else (p\<lparr>pgp_completed := True\<rparr>, conn', Ok ())))"

section \<open>Purges and quarantine\<close>

text \<open>A batch of the rows a purge may take, in the order of the scan, less those another transaction locked.\<close>

definition ibx_purge :: "(ibx_row \<Rightarrow> bool) \<Rightarrow> (ibx_pk \<Rightarrow> bool) \<Rightarrow> (ibx_row \<Rightarrow> int) \<Rightarrow> string \<Rightarrow> int \<Rightarrow> ibx_table \<Rightarrow>
    ibx_table \<times> int result" where
  "ibx_purge old row_locked scan_order consumer batch t =
     (if consumer = [] then (t, Fail Pg_ErrInboxConsumerRequired)
      else if batch \<le> 0 then (t, Fail ErrPurgeBatchRequired)
      else let victims = take (nat batch) (filter (\<lambda>i. ibx_consumer i = consumer \<and> old i \<and> \<not> row_locked (ibx_key i))
                 (sort_key scan_order t)) in
        (filter (\<lambda>i. i \<notin> set victims) t, Ok (int (length victims))))"

definition PurgeInbox :: "(ibx_pk \<Rightarrow> bool) \<Rightarrow> (ibx_row \<Rightarrow> int) \<Rightarrow> string \<Rightarrow> Instant \<Rightarrow> int \<Rightarrow> ibx_table \<Rightarrow> ibx_table \<times> int result" where
  "PurgeInbox row_locked scan_order consumer before batch =
     ibx_purge (\<lambda>i. ibx_processed_at i < before) row_locked scan_order consumer batch"

definition PurgeExpiredInbox :: "(ibx_pk \<Rightarrow> bool) \<Rightarrow> (ibx_row \<Rightarrow> int) \<Rightarrow> string \<Rightarrow> Instant \<Rightarrow> int \<Rightarrow> ibx_table \<Rightarrow> ibx_table \<times> int result" where
  "PurgeExpiredInbox row_locked scan_order consumer now batch =
     ibx_purge (ibx_expired now) row_locked scan_order consumer batch"

record quarantine_row =
  qr_consumer :: string
  qr_message_id :: string
  qr_reason :: string
  qr_envelope :: bytes
  qr_digest :: bytes
  qr_last_error :: "string option"
  qr_contained_at :: Instant

definition pg_Quarantine :: "gerr option \<Rightarrow> Contained \<Rightarrow> quarantine_row list \<Rightarrow> quarantine_row list \<times> unit result" where
  "pg_Quarantine fault c t =
     (if ctd_Consumer c = [] \<or> ctd_Reason c = ReasonNone \<or> ctd_Envelope c = [] then (t, Fail ErrInvalidContainment)
      else case fault of
        Some e \<Rightarrow> (t, Err e)
      | None \<Rightarrow>
          let digest = Sum256 (ctd_Envelope c) in
          if (ctd_Consumer c, digest) \<in> (\<lambda>q. (qr_consumer q, qr_digest q)) ` set t then (t, Ok ())
          else (t @ [\<lparr>qr_consumer = ctd_Consumer c, qr_message_id = ctd_MessageID c, qr_reason = Reason_String (ctd_Reason c),
                qr_envelope = ctd_Envelope c, qr_digest = digest,
                qr_last_error = (if ctd_Error c = [] then None else Some (ctd_Error c)), qr_contained_at = ctd_At c\<rparr>], Ok ()))"

section \<open>What the table remembers\<close>

definition ibx_remembered :: "pgInbox \<Rightarrow> MessageID \<Rightarrow> Receipt \<Rightarrow> ibx_table \<Rightarrow> ibx_row option" where
  "ibx_remembered i mid r t =
     (case List.find (\<lambda>x. ibx_key x = (pgi_consumer i, mid)) t of
        None \<Rightarrow> None
      | Some row \<Rightarrow> if pgi_commands i \<and> ibx_expired (rcp_ReceivedAt r) row then None else Some row)"

definition ibx_inserted :: "pgInbox \<Rightarrow> MessageID \<Rightarrow> Receipt \<Rightarrow> ibx_row" where
  "ibx_inserted i mid r = provisional (pgi_consumer i) mid r (if pgi_commands i then Some (rcp_ExpiresAt r) else None)"

lemma ibx_key_provisional [simp]: "ibx_key (provisional consumer mid r e) = (consumer, mid)"
  by (simp add: ibx_key_def provisional_def)

lemma ibx_key_inserted [simp]: "ibx_key (ibx_inserted i mid r) = (pgi_consumer i, mid)"
  by (simp add: ibx_inserted_def)

lemma find_None_key: "List.find (\<lambda>x. ibx_key x = k) t = None \<longleftrightarrow> k \<notin> ibx_key ` set t"
  by (auto simp: find_None_iff image_iff)

lemma find_Some_key: "List.find (\<lambda>x. ibx_key x = k) t = Some row \<Longrightarrow> row \<in> set t \<and> ibx_key row = k"
  by (auto simp: find_Some_iff)

lemma find_map_key: "(\<And>x. ibx_key (g x) = ibx_key x) \<Longrightarrow>
    List.find (\<lambda>x. ibx_key x = k) (map g t) = map_option g (List.find (\<lambda>x. ibx_key x = k) t)"
  by (induction t) auto

lemma find_append_key: "k \<notin> ibx_key ` set t \<Longrightarrow> List.find (\<lambda>x. ibx_key x = k) (t @ xs) = List.find (\<lambda>x. ibx_key x = k) xs"
  by (induction t) auto

text \<open>Either insert, on the two cases of the table.\<close>

abbreviation insert_of :: "pgInbox \<Rightarrow> MessageID \<Rightarrow> Receipt \<Rightarrow> nat ibx_statement" where
  "insert_of i mid r \<equiv> (if pgi_commands i then insertCommand else insertInbox) (pgi_consumer i) mid r"

lemma insert_remembered:
  "ibx_remembered i mid r t = Some row \<Longrightarrow> \<exists>ks. insert_of i mid r t = (t, ks, Ok 0)"
  using find_None_key [of "(pgi_consumer i, mid)" t]
  by (auto simp: ibx_remembered_def insertCommand_def insertInbox_def Let_def split: option.splits if_splits)

lemma insert_fresh:
  assumes "ibx_remembered i mid r t = None"
  obtains t' where "insert_of i mid r t = (t', [(pgi_consumer i, mid)], Ok 1)"
    "List.find (\<lambda>x. ibx_key x = (pgi_consumer i, mid)) t' = Some (ibx_inserted i mid r)"
    "distinct (map ibx_key t) \<longrightarrow> distinct (map ibx_key t')"
proof (cases "List.find (\<lambda>x. ibx_key x = (pgi_consumer i, mid)) t")
  case None
  then have fresh: "(pgi_consumer i, mid) \<notin> ibx_key ` set t"
    by (simp add: find_None_key)
  show thesis
    by (rule that [of "t @ [ibx_inserted i mid r]"])
      (use None fresh in \<open>auto simp: insertCommand_def insertInbox_def Let_def ibx_inserted_def find_append_key\<close>)
next
  case (Some row)
  with assms have exp: "pgi_commands i" "ibx_expired (rcp_ReceivedAt r) row"
    by (auto simp: ibx_remembered_def split: if_splits)
  let ?g = "\<lambda>x. if ibx_key x = (pgi_consumer i, mid) then ibx_inserted i mid r else x"
  have key: "ibx_key (?g x) = ibx_key x" for x
    by simp
  then have keys: "map ibx_key (map ?g t) = map ibx_key t"
    by simp
  show thesis
  proof (rule that [of "map ?g t"])
    show "insert_of i mid r t = (map ?g t, [(pgi_consumer i, mid)], Ok 1)"
      using Some exp by (simp add: insertCommand_def Let_def ibx_inserted_def)
    show "List.find (\<lambda>x. ibx_key x = (pgi_consumer i, mid)) (map ?g t) = Some (ibx_inserted i mid r)"
      using Some find_Some_key [OF Some] by (simp add: find_map_key key)
    show "distinct (map ibx_key t) \<longrightarrow> distinct (map ibx_key (map ?g t))"
      unfolding keys ..
  qed
qed

section \<open>The contract\<close>

text \<open>
  A transaction is the business state and the inbox rows; no other transaction writes between the statements
  and none of them fails.
\<close>

definition pg_register ::
    "int option \<Rightarrow> pgInbox \<Rightarrow> carrier \<Rightarrow> Receipt \<Rightarrow> 'b \<times> ibx_table \<Rightarrow> ('b \<times> ibx_table) \<times> pgPending Reception result" where
  "pg_register remaining i ctx r tx =
     (case pgi_Register pg_quiet remaining i ctx r (pg_opened (snd tx)) of (c, res) \<Rightarrow> ((fst tx, pc_table c), res))"

definition pg_complete ::
    "pgPending \<Rightarrow> Completion \<Rightarrow> 'b \<times> ibx_table \<Rightarrow> pgPending \<times> ('b \<times> ibx_table) \<times> unit result" where
  "pg_complete p c tx =
     (case pgi_Complete pg_quiet p c (pg_opened (snd tx)) of (p', conn, res) \<Rightarrow> (p', (fst tx, pc_table conn), res))"

definition pg_row_of :: "pgInbox \<Rightarrow> carrier \<Rightarrow> Receipt \<Rightarrow> 'b \<times> ibx_table \<Rightarrow> (string \<times> bool \<times> bytes) option" where
  "pg_row_of i ctx r tx =
     (case pgi_id i ctx r of
        Ok mid \<Rightarrow> map_option (\<lambda>row. (ibx_payload_hash row, ibx_status row = StatusProcessed,
            case ibx_outcome row of None \<Rightarrow> [] | Some bytes \<Rightarrow> bytes)) (ibx_remembered i mid r (snd tx))
      | _ \<Rightarrow> None)"

definition pg_admits :: "pgInbox \<Rightarrow> carrier \<Rightarrow> Receipt \<Rightarrow> bool" where
  "pg_admits i ctx r \<longleftrightarrow> pgi_consumer i \<noteq> [] \<and> rcp_Consumer r = pgi_consumer i \<and> (\<exists>mid. pgi_id i ctx r = Ok mid)"

definition pg_same :: "pgInbox \<Rightarrow> carrier \<Rightarrow> Receipt \<Rightarrow> carrier \<Rightarrow> Receipt \<Rightarrow> bool" where
  "pg_same i ctx r ctx' r' \<longleftrightarrow> pgi_id i ctx r = pgi_id i ctx' r' \<and>
     (pgi_commands i \<longrightarrow> rcp_ReceivedAt r' < rcp_ExpiresAt r)"

definition pg_untouched :: "'b \<times> ibx_table \<Rightarrow> 'b \<times> ibx_table \<Rightarrow> bool" where
  "pg_untouched tx tx' \<longleftrightarrow> snd tx' = snd tx"

definition pg_well :: "'b \<times> ibx_table \<Rightarrow> bool" where
  "pg_well tx \<longleftrightarrow> distinct (map ibx_key (snd tx))"

lemma lock_timeout_quiet [simp]:
  "\<exists>c'. pgi_lock_timeout pg_quiet wait c = (c', Ok ()) \<and> pc_table c' = pc_table c"
  by (auto simp: pgi_lock_timeout_def set_lock_timeout_def pg_return_def)

lemma pgi_id_no_panic [simp]: "pgi_id i ctx r \<noteq> Panic m"
  by (auto simp: pgi_id_def pg_tenantOf_def RequireExecutionContext_def split: option.splits)

lemma pg_register_admitted:
  assumes "pg_admits i ctx r" "pgi_id i ctx r = Ok mid" and ins: "insert_of i mid r (snd tx) = (t', ks, Ok n)"
  shows "pg_register remaining i ctx r tx =
    ((fst tx, t'), if n = 1 then Ok \<lparr>rc_kind = receptionFirst \<lparr>pgp_consumer = pgi_consumer i, pgp_messageID = mid,
         pgp_completed = False\<rparr>, rc_stored = []\<rparr>
       else pgi_classify r (List.find (\<lambda>x. ibx_key x = (pgi_consumer i, mid)) t'))"
proof -
  let ?wait = "if pgi_commands i then commandWait remaining (pgi_wait i) r else pgi_wait i"
  obtain c1 where c1: "pgi_lock_timeout pg_quiet ?wait (pg_opened (snd tx)) = (c1, Ok ())" "pc_table c1 = snd tx"
    using lock_timeout_quiet [of ?wait "pg_opened (snd tx)"] by (auto simp: pg_opened_def)
  obtain c2 where c2: "pgi_insert pg_quiet i mid r c1 = (c2, Ok n)" "pc_table c2 = t'"
    using ins by (simp add: pgi_insert_def c1(2))
  obtain c3 where c3: "pgi_lock_timeout pg_quiet ?wait c2 = (c3, Ok ())" "pc_table c3 = t'"
    using lock_timeout_quiet [of ?wait c2] c2(2) by auto
  show ?thesis
    using assms(1,2) c1(1) c2(1) c3
    by (simp add: pg_register_def pgi_Register_def pg_admits_def Let_def selectInbox_def pg_return_def del: split_paired_All)
qed

lemma pg_register_known:
  assumes "pg_admits i ctx r" "pgi_id i ctx r = Ok mid" "ibx_remembered i mid r (snd tx) = Some row"
  shows "pg_register remaining i ctx r tx = (tx, pgi_classify r (Some row))"
proof -
  obtain ks where ins: "insert_of i mid r (snd tx) = (snd tx, ks, Ok 0)"
    using insert_remembered [OF assms(3)] by blast
  have "List.find (\<lambda>x. ibx_key x = (pgi_consumer i, mid)) (snd tx) = Some row"
    using assms(3) by (auto simp: ibx_remembered_def split: option.splits if_splits)
  with pg_register_admitted [OF assms(1,2) ins] show ?thesis
    by simp
qed

lemma pg_register_new:
  assumes "pg_admits i ctx r" "pgi_id i ctx r = Ok mid" "ibx_remembered i mid r (snd tx) = None"
  obtains t' where "pg_register remaining i ctx r tx = ((fst tx, t'), Ok \<lparr>rc_kind = receptionFirst
      \<lparr>pgp_consumer = pgi_consumer i, pgp_messageID = mid, pgp_completed = False\<rparr>, rc_stored = []\<rparr>)"
    "List.find (\<lambda>x. ibx_key x = (pgi_consumer i, mid)) t' = Some (ibx_inserted i mid r)"
    "distinct (map ibx_key (snd tx)) \<longrightarrow> distinct (map ibx_key t')"
proof -
  from assms(3) obtain t' where ins: "insert_of i mid r (snd tx) = (t', [(pgi_consumer i, mid)], Ok 1)"
    and t': "List.find (\<lambda>x. ibx_key x = (pgi_consumer i, mid)) t' = Some (ibx_inserted i mid r)"
    "distinct (map ibx_key (snd tx)) \<longrightarrow> distinct (map ibx_key t')"
    by (rule insert_fresh) blast
  from pg_register_admitted [OF assms(1,2) ins] show thesis
    by (intro that [OF _ t']) simp
qed

lemma pg_register_refused: "\<not> pg_admits i ctx r \<Longrightarrow> \<exists>e. pg_register remaining i ctx r tx = (tx, Err e)"
  by (cases "pgi_id i ctx r") (auto simp: pg_register_def pgi_Register_def pg_admits_def pg_return_def pg_opened_def)

text \<open>A first reception, inverted.\<close>

lemma pg_register_first:
  assumes "pg_register remaining i ctx r tx = (tx0, Ok rc)" "rc_kind rc = receptionFirst p"
  obtains mid where "pgi_id i ctx r = Ok mid" "p = \<lparr>pgp_consumer = pgi_consumer i, pgp_messageID = mid, pgp_completed = False\<rparr>"
    "List.find (\<lambda>x. ibx_key x = (pgi_consumer i, mid)) (snd tx0) = Some (ibx_inserted i mid r)"
    "distinct (map ibx_key (snd tx)) \<longrightarrow> distinct (map ibx_key (snd tx0))"
proof -
  have admits: "pg_admits i ctx r"
    using pg_register_refused [of i ctx r remaining tx] assms(1) by auto
  then obtain mid where mid: "pgi_id i ctx r = Ok mid"
    by (auto simp: pg_admits_def)
  show thesis
  proof (cases "ibx_remembered i mid r (snd tx)")
    case None
    from admits mid None obtain t' where t': "pg_register remaining i ctx r tx = ((fst tx, t'), Ok \<lparr>rc_kind = receptionFirst
      \<lparr>pgp_consumer = pgi_consumer i, pgp_messageID = mid, pgp_completed = False\<rparr>, rc_stored = []\<rparr>)"
      "List.find (\<lambda>x. ibx_key x = (pgi_consumer i, mid)) t' = Some (ibx_inserted i mid r)"
      "distinct (map ibx_key (snd tx)) \<longrightarrow> distinct (map ibx_key t')"
      by (rule pg_register_new [where remaining = remaining])
    from assms t'(1) have "tx0 = (fst tx, t')" "p = \<lparr>pgp_consumer = pgi_consumer i, pgp_messageID = mid, pgp_completed = False\<rparr>"
      by auto
    with that [OF mid] t'(2,3) show thesis
      by simp
  next
    case (Some row)
    with assms pg_register_known [OF admits mid Some] show thesis
      by (auto simp: pgi_classify_def Let_def reception_defs split: if_splits)
  qed
qed

lemma updateInbox_find:
  assumes "List.find (\<lambda>x. ibx_key x = (consumer, mid)) t = Some row"
  shows "List.find (\<lambda>x. ibx_key x = (consumer, mid)) (fst (updateInbox consumer mid c t)) =
    Some (row\<lparr>ibx_status := cpl_Status c, ibx_processed_at := cpl_At c,
      ibx_last_error := (if cpl_LastError c = [] then None else Some (cpl_LastError c)), ibx_outcome := Some (cpl_Outcome c)\<rparr>)"
  unfolding updateInbox_def Let_def fst_conv using assms find_Some_key [OF assms]
  by (subst find_map_key) (simp_all add: ibx_key_def)

lemma updateInbox_one:
  assumes "distinct (map ibx_key t)" "List.find (\<lambda>x. ibx_key x = k) t = Some row"
  shows "filter (\<lambda>x. ibx_key x = k) t = [row]"
proof -
  from find_Some_key [OF assms(2)] have row: "row \<in> set t" "ibx_key row = k" by auto
  with assms(1) show ?thesis
    by (induction t) (auto simp: filter_empty_conv image_iff)
qed

interpretation pg_inbox: inbox "pg_register remaining i" pg_complete pgp_completed "pg_row_of i" "pg_admits i" "pg_same i"
  pg_untouched pg_well
proof (unfold_locales, goal_cases)
  case (1 ctx r tx hash ok outcome)
  then obtain mid row where mid: "pgi_id i ctx r = Ok mid" "ibx_remembered i mid r (snd tx) = Some row"
    and row: "hash = ibx_payload_hash row" "ok = (ibx_status row = StatusProcessed)"
      "outcome = (case ibx_outcome row of None \<Rightarrow> [] | Some bytes \<Rightarrow> bytes)"
    by (auto simp: pg_row_of_def split: res.splits)
  from pg_register_known [OF 1(1) mid] row show ?case
    by (auto simp: pgi_classify_def Let_def reception_defs)
next
  case (2 ctx r tx)
  then obtain mid where mid: "pgi_id i ctx r = Ok mid" "ibx_remembered i mid r (snd tx) = None"
    by (auto simp: pg_admits_def pg_row_of_def)
  from 2(1) mid obtain t' where "pg_register remaining i ctx r tx = ((fst tx, t'), Ok \<lparr>rc_kind = receptionFirst
      \<lparr>pgp_consumer = pgi_consumer i, pgp_messageID = mid, pgp_completed = False\<rparr>, rc_stored = []\<rparr>)"
    by (rule pg_register_new [where remaining = remaining])
  then show ?case
    by auto
next
  case (3 ctx r tx)
  then show ?case
    by (rule pg_register_refused)
next
  case (4 ctx r tx tx0 rc p tx1 c p' tx2 ctx' r')
  obtain mid where mid: "pgi_id i ctx r = Ok mid" "p = \<lparr>pgp_consumer = pgi_consumer i, pgp_messageID = mid, pgp_completed = False\<rparr>"
    "List.find (\<lambda>x. ibx_key x = (pgi_consumer i, mid)) (snd tx0) = Some (ibx_inserted i mid r)"
    by (rule pg_register_first [OF 4(1,2)])
  have t1: "snd tx1 = snd tx0"
    using 4(3) by (simp add: pg_untouched_def)
  have upd: "snd tx2 = fst (updateInbox (pgi_consumer i) mid c (snd tx1))" "pgp_completed p'"
    using 4(4) by (auto simp: pg_complete_def pgi_Complete_def mid(2) updateInbox_def Let_def pg_opened_def split: if_splits prod.splits)
  have mid': "pgi_id i ctx' r' = Ok mid" and live: "pgi_commands i \<longrightarrow> \<not> rcp_ExpiresAt r \<le> rcp_ReceivedAt r'"
    using 4(5) mid(1) by (auto simp: pg_same_def)
  have "ibx_remembered i mid r' (snd tx2) = Some ((ibx_inserted i mid r)\<lparr>ibx_status := cpl_Status c, ibx_processed_at := cpl_At c,
      ibx_last_error := (if cpl_LastError c = [] then None else Some (cpl_LastError c)), ibx_outcome := Some (cpl_Outcome c)\<rparr>)"
    using live unfolding ibx_remembered_def upd(1) t1 updateInbox_find [OF mid(3)]
    by (simp add: ibx_expired_def ibx_inserted_def provisional_def)
  with upd(2) show ?case
    by (simp add: pg_row_of_def mid' ibx_inserted_def provisional_def)
next
  case (5 tx ctx r tx0 res)
  show ?case
  proof (cases "pg_admits i ctx r")
    case True
    then obtain mid where mid: "pgi_id i ctx r = Ok mid"
      by (auto simp: pg_admits_def)
    show ?thesis
    proof (cases "ibx_remembered i mid r (snd tx)")
      case None
      from True mid None obtain t' where "pg_register remaining i ctx r tx = ((fst tx, t'), Ok \<lparr>rc_kind = receptionFirst
        \<lparr>pgp_consumer = pgi_consumer i, pgp_messageID = mid, pgp_completed = False\<rparr>, rc_stored = []\<rparr>)"
        "distinct (map ibx_key (snd tx)) \<longrightarrow> distinct (map ibx_key t')"
        by (rule pg_register_new [where remaining = remaining])
      with 5 show ?thesis
        by (auto simp: pg_well_def)
    next
      case (Some row)
      with 5 pg_register_known [OF True mid Some, of remaining] show ?thesis
        by simp
    qed
  next
    case False
    from pg_register_refused [OF this, of remaining tx] 5 show ?thesis
      by auto
  qed
next
  case (6 tx ctx r tx0 rc p tx1 c)
  obtain mid where mid: "p = \<lparr>pgp_consumer = pgi_consumer i, pgp_messageID = mid, pgp_completed = False\<rparr>"
    "List.find (\<lambda>x. ibx_key x = (pgi_consumer i, mid)) (snd tx0) = Some (ibx_inserted i mid r)"
    "distinct (map ibx_key (snd tx)) \<longrightarrow> distinct (map ibx_key (snd tx0))"
    by (rule pg_register_first [OF 6(2,3)])
  have "filter (\<lambda>x. ibx_key x = (pgi_consumer i, mid)) (snd tx1) = [ibx_inserted i mid r]"
    using updateInbox_one [OF mp [OF mid(3)] mid(2)] 6(1,4) by (simp add: pg_well_def pg_untouched_def)
  with 6(5) show ?case
    by (auto simp: pg_complete_def pgi_Complete_def mid(1) updateInbox_def Let_def pg_opened_def)
qed

section \<open>Commands over the PostgreSQL inbox\<close>

definition over_pg_inbox :: "int option \<Rightarrow> pgInbox \<Rightarrow> ('b \<times> ibx_table, pgPending, 'r) IdempotentCommand \<Rightarrow> bool" where
  "over_pg_inbox remaining i cmd \<longleftrightarrow> uses_inbox cmd (pg_register remaining i) pg_complete pgp_completed"

text \<open>How long a registration would wait for a lock makes no difference to one that meets none.\<close>

lemma pg_register_remaining: "pg_register remaining i = pg_register None i"
proof (intro ext)
  fix ctx r and tx :: "'b \<times> ibx_table"
  show "pg_register remaining i ctx r tx = pg_register None i ctx r tx"
  proof (cases "pg_admits i ctx r")
    case True
    then obtain mid where mid: "pgi_id i ctx r = Ok mid"
      by (auto simp: pg_admits_def)
    have "\<exists>t' ks n. insert_of i mid r (snd tx) = (t', ks, Ok n)"
      by (auto simp: insertCommand_def insertInbox_def Let_def split: option.splits)
    then obtain t' ks n where ins: "insert_of i mid r (snd tx) = (t', ks, Ok n)"
      by blast
    show ?thesis
      by (simp only: pg_register_admitted [OF True mid ins])
  next
    case False
    then show ?thesis
      by (cases "pgi_id i ctx r") (auto simp: pg_register_def pgi_Register_def pg_admits_def pg_return_def pg_opened_def)
  qed
qed

lemma over_pg_inbox_uses:
  "over_pg_inbox remaining i cmd \<Longrightarrow> uses_inbox cmd (pg_register None i) pg_complete pgp_completed"
  by (simp add: over_pg_inbox_def pg_register_remaining [of remaining])

text \<open>
  C15. A command runs once over the PostgreSQL inbox. The first receipt of an entry runs the command and stores its
  outcome in the row it inserted; every later receipt of the entry, before it expires, does not run: with the same
  fingerprint it answers the stored outcome as a replay, with another one the mismatch, and it writes nothing,
  whatever the business state has become.
\<close>

theorem postgres_command_runs_once:
  fixes cmd cmd' :: "('b \<times> ibx_table, pgPending, 'r) IdempotentCommand"
  assumes "over_pg_inbox remaining i cmd" and "over_pg_inbox remaining' i cmd'"
    and "command_receipt ctx cmd = Ok r" and "command_receipt ctx' cmd' = Ok r'"
    and "pg_admits i ctx r" and "pg_admits i ctx' r'" and "pg_same i ctx r ctx' r'"
    and "distinct (map ibx_key rows)" and "pg_row_of i ctx r (b, rows) = None"
    and "\<And>t. snd (fst (ic_Run cmd t)) = snd t \<and> snd (ic_Run cmd t) = Ok produced"
    and "DecodeOutcome (ic_Codec cmd') (EncodeOutcome (ic_Codec cmd) produced) = Ok produced"
  shows "\<exists>b1 rows1. RunIdempotent ctx cmd ((b, rows), sl) = (((b1, rows1), MarkIdempotency IdempotencyNew sl), Ok (produced, False)) \<and>
    (\<forall>b2 sl2. RunIdempotent ctx' cmd' ((b2, rows1), sl2) =
       (if rcp_PayloadHash r' = rcp_PayloadHash r
        then (((b2, rows1), MarkIdempotency IdempotencyReplayed sl2), Ok (produced, True))
        else (((b2, rows1), MarkIdempotency IdempotencyMismatch sl2), Fail ErrIdempotencyMismatch)))"
proof -
  note uses = assms(1,2) [THEN over_pg_inbox_uses]
  have run: "pg_untouched t (fst (ic_Run cmd t)) \<and> snd (ic_Run cmd t) = Ok produced" for t
    using assms(10) by (simp add: pg_untouched_def)
  have well: "pg_well (b, rows)"
    using assms(8) by (simp add: pg_well_def)
  obtain tx1 where tx1: "RunIdempotent ctx cmd ((b, rows), sl) = ((tx1, MarkIdempotency IdempotencyNew sl), Ok (produced, False))"
    using pg_inbox.first_run [OF uses(1) assms(3,5,9) well run assms(7)] by blast
  obtain b1 rows1 where b1: "tx1 = (b1, rows1)"
    by (cases tx1)
  have "RunIdempotent ctx' cmd' ((b2, rows1), sl2) =
       (if rcp_PayloadHash r' = rcp_PayloadHash r
        then (((b2, rows1), MarkIdempotency IdempotencyReplayed sl2), Ok (produced, True))
        else (((b2, rows1), MarkIdempotency IdempotencyMismatch sl2), Fail ErrIdempotencyMismatch))" for b2 sl2
  proof (rule pg_inbox.second_run [OF uses(1) assms(3) tx1 [unfolded b1] uses(2) assms(4,6,7) _ assms(11)])
    show "pg_row_of i ctx' r' (b2, rows1) = pg_row_of i ctx' r' (b1, rows1)"
      by (simp add: pg_row_of_def split: res.split)
  qed (use run in blast)
  with tx1 b1 show ?thesis
    by blast
qed

definition sample_pg_command :: "Instant \<Rightarrow> (unit \<times> ibx_table, pgPending, int) IdempotentCommand" where
  "sample_pg_command now = \<lparr>ic_Register = pg_register None (pgCommandInbox_of ''orders'' 5), ic_Complete = pg_complete,
     ic_Completed = pgp_completed, ic_Consumer = ''orders'', ic_Operation = ''orders.AddItem'', ic_Fingerprint = Some [],
     ic_Now = now, ic_Policy = sample_policy, ic_Codec = int_codec, ic_Run = (\<lambda>tx. (tx, Ok (OAccepted 7)))\<rparr>"

abbreviation sample_pg_inbox :: pgInbox where
  "sample_pg_inbox \<equiv> pgCommandInbox_of ''orders'' 5"

lemma sample_pg_over: "over_pg_inbox None sample_pg_inbox (sample_pg_command now)"
  by (simp add: over_pg_inbox_def uses_inbox_def sample_pg_command_def)

lemma sample_pg_tenant: "pg_tenantOf sample_call = Ok ''t-1''"
  by (simp add: pg_tenantOf_def sample_call_def WithIdempotencyKey_def sample_context_def background_def
      RequireExecutionContext_def ExecutionContextFrom_def ec_Tenant_def)

lemma sample_pg_receipt:
  assumes "0 \<le> now" "now < 1000"
  obtains r where "command_receipt sample_call (sample_pg_command now) = Ok r"
    "rcp_PayloadHash r = hex_bytes (replicate 32 0)" "pgi_id sample_pg_inbox sample_call r = Ok ''t-1/key-1''"
    "pg_admits sample_pg_inbox sample_call r" "rcp_ReceivedAt r = now" "rcp_ExpiresAt r = now + 1000"
proof -
  let ?cmd = "sample_pg_command now"
  have key: "IdempotencyKeyFrom sample_call = Some ''key-1''"
    by (simp add: sample_call_def WithIdempotencyKey_def IdempotencyKeyFrom_def)
  obtain ec where ec: "RequireExecutionContext sample_call = Ok ec"
    using sample_pg_tenant by (auto simp: pg_tenantOf_def)
  define r where "r = receipt_of ?cmd ''key-1'' (replicate 32 0) (ec_deadline ec)"
  have receipt: "command_receipt sample_call ?cmd = Ok r"
    by (simp add: command_receipt_def key ec sample_key_valid r_def sample_pg_command_def sample_policy_def)
  have "int64 (now + 1000)"
    using assms by (simp add: int64_def)
  then have f: "rcp_PayloadHash r = hex_bytes (replicate 32 0)" "rcp_ReceivedAt r = now" "rcp_ExpiresAt r = now + 1000"
    "rcp_Consumer r = ''orders''" "rcp_MessageID r = ''key-1''"
    by (simp_all add: r_def receipt_of_def sample_pg_command_def sample_policy_def)
  then have "pgi_id sample_pg_inbox sample_call r = Ok ''t-1/key-1''"
    by (simp add: pgi_id_def pgCommandInbox_of_def sample_pg_tenant)
  moreover from this f have "pg_admits sample_pg_inbox sample_call r"
    by (simp add: pg_admits_def pgCommandInbox_of_def)
  ultimately show thesis
    using that receipt f by blast
qed

theorem postgres_command_runs_once_witness:
  "\<exists>tx1. RunIdempotent sample_call (sample_pg_command 10) (((), []), no_slots) =
       ((tx1, MarkIdempotency IdempotencyNew no_slots), Ok (OAccepted 7, False)) \<and>
     snd (RunIdempotent sample_call (sample_pg_command 20) (tx1, no_slots)) = Ok (OAccepted 7, True)"
proof -
  obtain r where r: "command_receipt sample_call (sample_pg_command 10) = Ok r"
    "rcp_PayloadHash r = hex_bytes (replicate 32 0)" "pgi_id sample_pg_inbox sample_call r = Ok ''t-1/key-1''"
    "pg_admits sample_pg_inbox sample_call r" "rcp_ExpiresAt r = 1010"
    using sample_pg_receipt [of 10] by auto
  obtain r' where r': "command_receipt sample_call (sample_pg_command 20) = Ok r'"
    "rcp_PayloadHash r' = hex_bytes (replicate 32 0)" "pgi_id sample_pg_inbox sample_call r' = Ok ''t-1/key-1''"
    "pg_admits sample_pg_inbox sample_call r'" "rcp_ReceivedAt r' = 20"
    using sample_pg_receipt [of 20] by auto
  have same: "pg_same sample_pg_inbox sample_call r sample_call r'"
    using r(3,5) r'(3,5) by (simp add: pg_same_def)
  have fresh: "pg_row_of sample_pg_inbox sample_call r ((), []) = None"
    by (simp add: pg_row_of_def ibx_remembered_def r(3))
  have codec: "DecodeOutcome (ic_Codec (sample_pg_command 20)) (EncodeOutcome (ic_Codec (sample_pg_command 10)) (OAccepted 7)) =
      Ok (OAccepted 7)"
    by code_simp
  have "snd (fst (ic_Run (sample_pg_command 10) t)) = snd t \<and> snd (ic_Run (sample_pg_command 10) t) = Ok (OAccepted 7)" for t
    by (simp add: sample_pg_command_def)
  from postgres_command_runs_once [OF sample_pg_over sample_pg_over r(1) r'(1) r(4) r'(4) same _ fresh this codec]
  obtain b1 rows1 where "RunIdempotent sample_call (sample_pg_command 10) (((), []), no_slots) =
      (((b1, rows1), MarkIdempotency IdempotencyNew no_slots), Ok (OAccepted 7, False))"
    "RunIdempotent sample_call (sample_pg_command 20) ((b1, rows1), no_slots) =
      (((b1, rows1), MarkIdempotency IdempotencyReplayed no_slots), Ok (OAccepted 7, True))"
    using r(2) r'(2) by fastforce
  then show ?thesis
    by auto
qed

section \<open>Concurrent registrations\<close>

lemma pgi_insert_Ok:
  assumes "pgi_insert env i mid r c1 = (c2, Ok n)"
  defines "t \<equiv> pe_others env (length (pc_log c1)) (pc_locks c1) (pc_table c1)"
  shows "\<exists>t' ks. insert_of i mid r t = (t', ks, Ok n) \<and> (t, t') \<in> set (pc_log c2) \<and> set ks \<subseteq> set (pc_locks c2)"
proof (cases "pe_fault env (length (pc_log c1))")
  case None
  obtain t' ks res where stmt: "insert_of i mid r t = (t', ks, res)"
    using prod_cases3 by blast
  with assms(1) None show ?thesis
    by (cases res) (auto simp: pgi_insert_def pg_exec_def Let_def t_def split: if_splits)
next
  case (Some e)
  with assms(1) show ?thesis
    by (simp add: pgi_insert_def pg_exec_def Let_def split: if_splits)
qed

text \<open>
  C16. The first reception is exclusive. Whatever other transactions commit between the statements and whichever fail,
  a registration that answers the first reception did so by one statement that found no live row of the
  entry, wrote the caller's row, and holds its lock until the transaction ends.
\<close>

theorem first_reception_is_exclusive:
  assumes "pgi_Register env remaining i ctx r (pg_opened t0) = (c, Ok rc)" and "rc_kind rc = receptionFirst p"
  shows "\<exists>mid t t'. pgi_id i ctx r = Ok mid \<and> p = \<lparr>pgp_consumer = pgi_consumer i, pgp_messageID = mid, pgp_completed = False\<rparr> \<and>
    (t, t') \<in> set (pc_log c) \<and> ibx_remembered i mid r t = None \<and>
    List.find (\<lambda>x. ibx_key x = (pgi_consumer i, mid)) t' = Some (ibx_inserted i mid r) \<and>
    (pgi_consumer i, mid) \<in> set (pc_locks c)"
proof -
  let ?wait = "if pgi_commands i then commandWait remaining (pgi_wait i) r else pgi_wait i"
  obtain mid where mid: "pgi_id i ctx r = Ok mid"
    using assms(1) by (cases "pgi_id i ctx r") (auto simp: pgi_Register_def pg_return_def split: if_splits)
  let ?body = "\<lambda>affected. pg_bind (pgi_lock_timeout env ?wait) (\<lambda>_. if affected = 1
      then pg_return (FirstReception (Some \<lparr>pgp_consumer = pgi_consumer i, pgp_messageID = mid, pgp_completed = False\<rparr>))
      else pg_bind (pg_exec env (selectInbox (pgi_consumer i) mid)) (\<lambda>row. pg_return (pgi_classify r row)))"
  have run: "pg_bind (pgi_lock_timeout env ?wait) (\<lambda>_. pg_bind (pgi_insert env i mid r) ?body) (pg_opened t0) = (c, Ok rc)"
    using assms(1) mid by (auto simp: pgi_Register_def Let_def pg_return_def pg_bind_def split: if_splits)
  then obtain c1 where "pg_bind (pgi_insert env i mid r) ?body c1 = (c, Ok rc)"
    by (cases rule: pg_bind_cases) auto
  then obtain c2 n where c2: "pgi_insert env i mid r c1 = (c2, Ok n)" "?body n c2 = (c, Ok rc)"
    by (cases rule: pg_bind_cases) auto
  from c2(2) obtain c3 where c3: "pgi_lock_timeout env ?wait c2 = (c3, Ok ())"
    "(if n = 1 then pg_return (FirstReception (Some \<lparr>pgp_consumer = pgi_consumer i, pgp_messageID = mid, pgp_completed = False\<rparr>))
      else pg_bind (pg_exec env (selectInbox (pgi_consumer i) mid)) (\<lambda>row. pg_return (pgi_classify r row))) c3 = (c, Ok rc)"
    by (cases rule: pg_bind_cases) auto
  have "n = 1"
  proof (rule ccontr)
    assume "n \<noteq> 1"
    with c3(2) obtain c4 row where "pg_return (pgi_classify r row) c4 = (c, Ok rc)"
      by (auto elim: pg_bind_cases)
    then have "pgi_classify r row = Ok rc"
      by (simp add: pg_return_def)
    with assms(2) show False
      by (auto simp: pgi_classify_def Let_def reception_defs split: option.splits if_splits)
  qed
  with c3(2) assms(2) have c: "c = c3" and p: "p = \<lparr>pgp_consumer = pgi_consumer i, pgp_messageID = mid, pgp_completed = False\<rparr>"
    by (auto simp: pg_return_def)
  have kept: "set (pc_log c2) \<subseteq> set (pc_log c3)" "set (pc_locks c2) \<subseteq> set (pc_locks c3)"
    using c3(1) by (auto simp: pgi_lock_timeout_def pg_exec_def set_lock_timeout_def pg_return_def Let_def split: if_splits option.splits)
  define t where "t = pe_others env (length (pc_log c1)) (pc_locks c1) (pc_table c1)"
  obtain t' ks where ins: "insert_of i mid r t = (t', ks, Ok 1)" "(t, t') \<in> set (pc_log c2)" "set ks \<subseteq> set (pc_locks c2)"
    using pgi_insert_Ok [OF c2(1)] \<open>n = 1\<close> unfolding t_def by blast
  have none: "ibx_remembered i mid r t = None"
  proof (rule ccontr)
    assume "ibx_remembered i mid r t \<noteq> None"
    then obtain row where "ibx_remembered i mid r t = Some row" by blast
    from insert_remembered [OF this] ins(1) show False by auto
  qed
  from none obtain t'' where "insert_of i mid r t = (t'', [(pgi_consumer i, mid)], Ok 1)"
    "List.find (\<lambda>x. ibx_key x = (pgi_consumer i, mid)) t'' = Some (ibx_inserted i mid r)"
    by (rule insert_fresh)
  with ins kept c have "(t, t') \<in> set (pc_log c)" "(pgi_consumer i, mid) \<in> set (pc_locks c)"
    "List.find (\<lambda>x. ibx_key x = (pgi_consumer i, mid)) t' = Some (ibx_inserted i mid r)"
    by auto
  with mid p none show ?thesis
    by blast
qed

theorem first_reception_is_exclusive_witness:
  "\<exists>c. pgi_Register pg_quiet None sample_pg_inbox sample_call sample_receipt (pg_opened []) =
       (c, Ok \<lparr>rc_kind = receptionFirst \<lparr>pgp_consumer = ''orders'', pgp_messageID = ''t-1/key-1'', pgp_completed = False\<rparr>, rc_stored = []\<rparr>) \<and>
     (''orders'', ''t-1/key-1'') \<in> set (pc_locks c)"
proof -
  let ?rc = "\<lparr>rc_kind = receptionFirst \<lparr>pgp_consumer = ''orders'', pgp_messageID = ''t-1/key-1'', pgp_completed = False\<rparr>, rc_stored = []\<rparr>"
  have "snd (pgi_Register pg_quiet None sample_pg_inbox sample_call sample_receipt (pg_opened [])) = Ok ?rc"
    by (simp add: pgi_Register_def pgCommandInbox_of_def sample_receipt_def pgi_id_def sample_pg_tenant Let_def
        pgi_lock_timeout_def set_lock_timeout_def pgi_insert_def insertCommand_def pg_opened_def commandWait_def pg_bind_def pg_return_def)
  then obtain c where run: "pgi_Register pg_quiet None sample_pg_inbox sample_call sample_receipt (pg_opened []) = (c, Ok ?rc)"
    by (metis prod.collapse)
  from first_reception_is_exclusive [OF run, of "\<lparr>pgp_consumer = ''orders'', pgp_messageID = ''t-1/key-1'', pgp_completed = False\<rparr>"]
  have "(''orders'', ''t-1/key-1'') \<in> set (pc_locks c)"
    by (auto simp: pgCommandInbox_of_def)
  with run show ?thesis
    by blast
qed

section \<open>Retention and containment\<close>

text \<open>A purge takes rows of one consumer that are past the cutoff and that nobody holds, at most a batch.\<close>

lemma ibx_purge_only_old:
  assumes "ibx_purge old row_locked scan_order consumer batch t = (t', res)"
  shows "\<forall>x \<in> set t - set t'. ibx_consumer x = consumer \<and> old x \<and> \<not> row_locked (ibx_key x)"
    and "\<forall>n. res = Ok n \<longrightarrow> 0 < batch \<and> n \<le> batch"
  using assms by (auto simp: ibx_purge_def Let_def split: if_splits dest!: in_set_takeD)

text \<open>A poisoned envelope is contained once per consumer, whatever its identifiers claim.\<close>

lemma pg_Quarantine_once:
  assumes "pg_Quarantine None c t = (t', Ok ())"
  shows "pg_Quarantine None (c\<lparr>ctd_MessageID := m, ctd_Reason := reason, ctd_At := at\<rparr>) t' =
    (t', if reason = ReasonNone then Fail ErrInvalidContainment else Ok ())"
  using assms by (force simp: pg_Quarantine_def Let_def split: if_splits)

end
