(* ===== verification/Postgres_Table.thy ===== *)
theory Postgres_Table
  imports Postgres_Tx
begin

text \<open>
  The aggregate tables of the PostgreSQL provider, \<^verbatim>\<open>libs/backend/go/postgres\<close>: a declaration and the statements
  compiled from it (\<^verbatim>\<open>table.go\<close>), business uniqueness under a savepoint (\<^verbatim>\<open>unique.go\<close>), the advisory lock of a
  series (\<^verbatim>\<open>guard.go\<close>) and tables of one snapshot column (\<^verbatim>\<open>snapshot_table.go\<close>).

  A row is its tenant, identifier, version and the values of the declared columns. What the schema does, its
  UNIQUE constraints in the order of their indexes, how a column stores a value, how tenants are collated, is an
  argument: the record \<open>tb_schema\<close>. The text of a statement is compiled by \<open>Table_compile\<close>; what the server does
  with it is a function on the rows.
\<close>

section \<open>Declarations\<close>

datatype sql_value = SqlText string | SqlInt int | SqlBool bool | SqlBytes bytes | SqlNull

record pgUnique =
  pu_Name :: string
  pu_Columns :: "string list"
  pu_Rejection :: "Rejection option"

text \<open>
  \<open>Decode\<close> is handed the answer of the scan: the values of the row's columns, or the error the driver reported.
\<close>

record 's pgTable =
  pt_Name :: string
  pt_IDColumn :: string
  pt_Columns :: "string list"
  pt_Encode :: "('s \<Rightarrow> sql_value list result) option"
  pt_Decode :: "(sql_value list result \<Rightarrow> 's result) option"
  pt_WithID :: "('s \<Rightarrow> string \<Rightarrow> 's) option"
  pt_Unique :: "pgUnique list"
  pt_Guard :: string

definition isIdentifier :: "string \<Rightarrow> bool" where
  "isIdentifier s \<longleftrightarrow>
     (let alpha = (\<lambda>c. c = CHR ''_'' \<or> chr_range (CHR ''a'') (CHR ''z'') c \<or> chr_range (CHR ''A'') (CHR ''Z'') c) in
      case s of [] \<Rightarrow> False
      | c # cs \<Rightarrow> alpha c \<and> list_all (\<lambda>c. alpha c \<or> chr_range (CHR ''0'') (CHR ''9'') c) cs)"

text \<open>\<open>strings.ToLower\<close> on the ASCII text of an identifier.\<close>

definition ascii_lower :: "string \<Rightarrow> string" where
  "ascii_lower = List.map (\<lambda>c. if chr_range (CHR ''A'') (CHR ''Z'') c then char_of (of_char c + 32 :: nat) else c)"

definition isLowerIdentifier :: "string \<Rightarrow> bool" where
  "isLowerIdentifier s \<longleftrightarrow> isIdentifier s \<and> s = ascii_lower s"

fun strings_Join :: "string list \<Rightarrow> string \<Rightarrow> string" where
  "strings_Join [] sep = []"
| "strings_Join [s] sep = s"
| "strings_Join (s # t # ss) sep = s @ sep @ strings_Join (t # ss) sep"

definition maxIdentifier :: nat where
  "maxIdentifier = 63"

definition checkUnique :: "string \<Rightarrow> pgUnique \<Rightarrow> unit result" where
  "checkUnique table u =
     (let refuse = (\<lambda>m. Err (Wrapped m [])) in
      if \<not> list_all isLowerIdentifier (pu_Columns u) then refuse ''postgres: unique column is not a lower-case SQL identifier''
      else if \<not> isLowerIdentifier (pu_Name u) then refuse ''postgres: unique is not a lower-case SQL identifier''
      else if length (pu_Columns u) < 2 \<or> hd (pu_Columns u) \<noteq> ''tenant_id''
        then refuse ''postgres: unique has to lead with tenant_id and one more column''
      else if pu_Name u \<noteq> ascii_lower table @ ''_'' @ strings_Join (pu_Columns u) ''_'' @ ''_key''
        then refuse ''postgres: unique has to be named after its columns''
      else if length (pu_Name u) > maxIdentifier then refuse ''postgres: unique exceeds 63 bytes''
      else case pu_Rejection u of
        None \<Rightarrow> refuse ''postgres: unique declares no rejection''
      | Some r \<Rightarrow> if Code_Valid (rej_code r) then Ok () else refuse ''postgres: unique rejection code is not a domain code'')"

fun checkUniques_from :: "string \<Rightarrow> string list \<Rightarrow> pgUnique list \<Rightarrow> unit result" where
  "checkUniques_from table seen [] = Ok ()"
| "checkUniques_from table seen (u # us) =
     res_bind (checkUnique table u) (\<lambda>_.
       if pu_Name u \<in> set seen then Err (Wrapped ''postgres: Table declares unique twice'' [])
       else checkUniques_from table (pu_Name u # seen) us)"

definition checkUniques :: "string \<Rightarrow> pgUnique list \<Rightarrow> unit result" where
  "checkUniques table = checkUniques_from table []"

fun index_from :: "int \<Rightarrow> string \<Rightarrow> string list \<Rightarrow> int" where
  "index_from i c [] = - 1"
| "index_from i c (d # ds) = (if d = c then i else index_from (i + 1) c ds)"

definition guardIndex :: "'s pgTable \<Rightarrow> int" where
  "guardIndex t = index_from 0 (pt_Guard t) (pt_Columns t)"

fun validate_columns :: "'s pgTable \<Rightarrow> string list \<Rightarrow> unit result" where
  "validate_columns t [] = Ok ()"
| "validate_columns t (c # cs) =
     (if \<not> isIdentifier c then Panic ''postgres: Table column is not a SQL identifier''
      else if c = ''tenant_id'' \<or> c = ''version'' \<or> c = pt_IDColumn t then Panic ''postgres: Table lists a column the table owns''
      else validate_columns t cs)"

definition pgTable_validate :: "'s pgTable \<Rightarrow> unit result" where
  "pgTable_validate t =
     (if \<not> isIdentifier (pt_Name t) then Panic ''postgres: Table.Name is not a SQL identifier''
      else if \<not> isIdentifier (pt_IDColumn t) then Panic ''postgres: Table.IDColumn is not a SQL identifier''
      else if pt_Columns t = [] then Panic ''postgres: Table declares no state column''
      else if pt_Encode t = None \<or> pt_Decode t = None then Panic ''postgres: Table declares no Encode/Decode pair''
      else case validate_columns t (pt_Columns t) of
        Ok _ \<Rightarrow>
          (case checkUniques (pt_Name t) (pt_Unique t) of
             Ok _ \<Rightarrow> if pt_Guard t \<noteq> [] \<and> guardIndex t < 0 then Panic ''postgres: Table Guard is not one of its state columns''
               else Ok ()
           | Err e \<Rightarrow> Panic ''postgres: unique''
           | Panic m \<Rightarrow> Panic m)
      | r \<Rightarrow> r)"

record pgUniqueSet =
  us_Table :: string
  us_Constraints :: "pgUnique list"

definition Table_Uniques :: "'s pgTable \<Rightarrow> pgUniqueSet result" where
  "Table_Uniques t = res_map (\<lambda>_. \<lparr>us_Table = pt_Name t, us_Constraints = pt_Unique t\<rparr>) (pgTable_validate t)"

definition declared_unique :: "'s pgTable \<Rightarrow> string \<Rightarrow> pgUnique option" where
  "declared_unique t constraint = find (\<lambda>u. pu_Name u = constraint) (pt_Unique t)"

definition identify :: "'s pgTable \<Rightarrow> 's \<Rightarrow> string \<Rightarrow> 's" where
  "identify t state i = (case pt_WithID t of None \<Rightarrow> state | Some withID \<Rightarrow> withID state i)"

text \<open>\<open>SnapshotTable\<close>: \<open>to\<close> and \<open>from\<close> with the JSON of the provider's private state, which is the standard library's.\<close>

definition SnapshotTable ::
    "('j \<Rightarrow> bytes result) \<Rightarrow> (bytes \<Rightarrow> 'j result) \<Rightarrow> string \<Rightarrow> string \<Rightarrow> ('s \<Rightarrow> 'j) \<Rightarrow> ('j \<Rightarrow> 's) \<Rightarrow> ('s \<Rightarrow> string \<Rightarrow> 's) option \<Rightarrow> 's pgTable" where
  "SnapshotTable marshal unmarshal name idColumn to_j from_j withID =
     \<lparr>pt_Name = name, pt_IDColumn = idColumn, pt_Columns = [''snapshot''],
      pt_Encode = Some (\<lambda>s. res_map (\<lambda>raw. [SqlBytes raw]) (marshal (to_j s))),
      pt_Decode = Some (\<lambda>scan. res_bind scan (\<lambda>vs.
        case vs of [SqlBytes raw] \<Rightarrow> res_map from_j (unmarshal raw)
        | _ \<Rightarrow> Err (Foreign ''pgx.ScanArgError'' None None None []))),
      pt_WithID = withID, pt_Unique = [], pt_Guard = []\<rparr>"

section \<open>Compiled statements\<close>

record guardStatements =
  gs_shared :: string
  gs_exclusive :: string

record statements =
  sm_selectOne :: string
  sm_owner :: string
  sm_insert :: string
  sm_update :: string
  sm_exists :: string
  sm_guard :: guardStatements

definition compileGuard :: "'s pgTable \<Rightarrow> guardStatements" where
  "compileGuard t =
     (if pt_Guard t = [] then \<lparr>gs_shared = [], gs_exclusive = []\<rparr>
      else let key = ''hashtextextended(concat_ws(chr(31), '' @ [CHR 39] @ pt_Name t @ [CHR 39] @ '', '' @ [CHR 39] @ pt_Guard t @
             [CHR 39] @ '', length($1::text), $1::text, $2::text), 0)'' in
        \<lparr>gs_shared = ''SELECT pg_advisory_xact_lock_shared('' @ key @ '')'',
         gs_exclusive = ''SELECT pg_advisory_xact_lock('' @ key @ '')''\<rparr>)"

definition placeholder :: "nat \<Rightarrow> string" where
  "placeholder i = ''$'' @ itoa i"

definition compile_texts :: "'s pgTable \<Rightarrow> statements" where
  "compile_texts t =
     (let columns = strings_Join (pt_Columns t) '', '';
          indexes = [4 ..< 4 + length (pt_Columns t)];
          placeholders = strings_Join (List.map placeholder indexes) '', '';
          assignments = strings_Join (List.map (\<lambda>(c, i). c @ '' = '' @ placeholder i) (zip (pt_Columns t) indexes)) '', '';
          guarded = (if pt_Guard t \<noteq> [] then '' AND '' @ pt_Guard t @ '' = '' @ placeholder (nat (guardIndex t + 4)) else []) in
      \<lparr>sm_selectOne = ''SELECT version, '' @ columns @ '' FROM '' @ pt_Name t @ '' WHERE tenant_id = $1 AND '' @ pt_IDColumn t @ '' = $2'',
       sm_owner = ''SELECT tenant_id FROM '' @ pt_Name t @ '' WHERE '' @ pt_IDColumn t @
         '' = $1 AND tenant_id <> $2 ORDER BY tenant_id LIMIT 1'',
       sm_insert = ''INSERT INTO '' @ pt_Name t @ '' (tenant_id, '' @ pt_IDColumn t @ '', version, '' @ columns @
         '') VALUES ($1, $2, $3, '' @ placeholders @ '') ON CONFLICT (tenant_id, '' @ pt_IDColumn t @ '') DO NOTHING'',
       sm_update = ''UPDATE '' @ pt_Name t @ '' SET version = $3 + 1, '' @ assignments @ '' WHERE tenant_id = $1 AND '' @
         pt_IDColumn t @ '' = $2 AND version = $3'' @ guarded,
       sm_exists = ''SELECT 1 FROM '' @ pt_Name t @ '' WHERE tenant_id = $1 AND '' @ pt_IDColumn t @ '' = $2'',
       sm_guard = compileGuard t\<rparr>)"

definition Table_compile :: "'s pgTable \<Rightarrow> statements result" where
  "Table_compile t = res_map (\<lambda>_. compile_texts t) (pgTable_validate t)"

section \<open>What the server does\<close>

record tb_schema =
  sc_constraints :: "(string \<times> string list) list"
  sc_store :: "string \<Rightarrow> sql_value \<Rightarrow> sql_value"
  sc_collate :: "string \<Rightarrow> string"

record tb_row =
  tr_tenant :: TenantID
  tr_id :: string
  tr_version :: int
  tr_values :: "sql_value list"

type_synonym tb_table = "tb_row list"

datatype tb_lock = RowLock TenantID string | GuardShared TenantID string | GuardExclusive TenantID string

type_synonym 'a tb_statement = "(tb_table, tb_lock, 'a) pg_statement"

definition tr_pk :: "tb_row \<Rightarrow> TenantID \<times> string" where
  "tr_pk r = (tr_tenant r, tr_id r)"

definition tb_column :: "'s pgTable \<Rightarrow> tb_row \<Rightarrow> string \<Rightarrow> sql_value" where
  "tb_column t r c =
     (if c = ''tenant_id'' then SqlText (tr_tenant r)
      else if c = pt_IDColumn t then SqlText (tr_id r)
      else if c = ''version'' then SqlInt (tr_version r)
      else case map_of (zip (pt_Columns t) (tr_values r)) c of None \<Rightarrow> SqlNull | Some v \<Rightarrow> v)"

definition store_values :: "'s pgTable \<Rightarrow> tb_schema \<Rightarrow> sql_value list \<Rightarrow> sql_value list" where
  "store_values t sc vs = List.map (\<lambda>(c, v). sc_store sc c v) (zip (pt_Columns t) vs)"

text \<open>A unique index does not hold a key with a NULL in it.\<close>

definition index_key :: "'s pgTable \<Rightarrow> string list \<Rightarrow> tb_row \<Rightarrow> sql_value list option" where
  "index_key t cols r = (let key = List.map (tb_column t r) cols in if SqlNull \<in> set key then None else Some key)"

definition breaks :: "'s pgTable \<Rightarrow> tb_row \<Rightarrow> tb_table \<Rightarrow> string \<times> string list \<Rightarrow> bool" where
  "breaks t r rows constraint \<longleftrightarrow>
     index_key t (snd constraint) r \<noteq> None \<and>
     list_ex (\<lambda>other. tr_pk other \<noteq> tr_pk r \<and> index_key t (snd constraint) other = index_key t (snd constraint) r) rows"

definition uniqueViolation :: string where
  "uniqueViolation = ''23505''"

definition unique_error :: "'s pgTable \<Rightarrow> string \<Rightarrow> gerr" where
  "unique_error t constraint = PgError uniqueViolation (ascii_lower (pt_Name t)) constraint"

definition tb_selectOne :: "TenantID \<Rightarrow> string \<Rightarrow> tb_row option tb_statement" where
  "tb_selectOne tenant i rows = (rows, [], Ok (find (\<lambda>r. tr_pk r = (tenant, i)) rows))"

definition owner_of :: "tb_schema \<Rightarrow> TenantID \<Rightarrow> (tb_row \<Rightarrow> bool) \<Rightarrow> TenantID option tb_statement" where
  "owner_of sc tenant p rows =
     (rows, [], Ok (case sort_key (sc_collate sc) (List.map tr_tenant (filter (\<lambda>r. p r \<and> tr_tenant r \<noteq> tenant) rows)) of
        [] \<Rightarrow> None | holder # _ \<Rightarrow> Some holder))"

definition tb_owner :: "tb_schema \<Rightarrow> string \<Rightarrow> TenantID \<Rightarrow> TenantID option tb_statement" where
  "tb_owner sc i tenant = owner_of sc tenant (\<lambda>r. tr_id r = i)"

definition tb_exists :: "TenantID \<Rightarrow> string \<Rightarrow> bool tb_statement" where
  "tb_exists tenant i rows = (rows, [], Ok (\<exists>r \<in> set rows. tr_pk r = (tenant, i)))"

definition tb_insert :: "'s pgTable \<Rightarrow> tb_schema \<Rightarrow> TenantID \<Rightarrow> string \<Rightarrow> int \<Rightarrow> sql_value list \<Rightarrow> nat tb_statement" where
  "tb_insert t sc tenant i version vs rows =
     (let r = \<lparr>tr_tenant = tenant, tr_id = i, tr_version = version, tr_values = store_values t sc vs\<rparr> in
      if \<exists>other \<in> set rows. tr_pk other = (tenant, i) then (rows, [], Ok 0)
      else case find (breaks t r rows) (sc_constraints sc) of
        Some (name, _) \<Rightarrow> (rows, [], Err (unique_error t name))
      | None \<Rightarrow> (rows @ [r], [RowLock tenant i], Ok 1))"

definition bigintOverflow :: string where
  "bigintOverflow = ''22003''"

text \<open>\<open>AND <guard> = $n\<close> compares the stored value with the one sent; a NULL is equal to nothing.\<close>

definition guard_matches :: "'s pgTable \<Rightarrow> tb_schema \<Rightarrow> sql_value list \<Rightarrow> tb_row \<Rightarrow> bool" where
  "guard_matches t sc vs r \<longleftrightarrow>
     (pt_Guard t = [] \<or>
      (case map_of (zip (pt_Columns t) vs) (pt_Guard t) of
         None \<Rightarrow> False
       | Some v \<Rightarrow> sc_store sc (pt_Guard t) v \<noteq> SqlNull \<and> tb_column t r (pt_Guard t) = sc_store sc (pt_Guard t) v))"

definition tb_update :: "'s pgTable \<Rightarrow> tb_schema \<Rightarrow> TenantID \<Rightarrow> string \<Rightarrow> int \<Rightarrow> sql_value list \<Rightarrow> nat tb_statement" where
  "tb_update t sc tenant i version vs rows =
     (let p = (\<lambda>r. tr_pk r = (tenant, i) \<and> tr_version r = version \<and> guard_matches t sc vs r);
          r' = \<lparr>tr_tenant = tenant, tr_id = i, tr_version = version + 1, tr_values = store_values t sc vs\<rparr> in
      if filter p rows = [] then (rows, [], Ok 0)
      else if version + 1 > max_int64 then (rows, [], Err (pg_error bigintOverflow))
      else case find (breaks t r' rows) (sc_constraints sc) of
        Some (name, _) \<Rightarrow> (rows, [], Err (unique_error t name))
      | None \<Rightarrow> (List.map (\<lambda>r. if p r then r' else r) rows, [RowLock tenant i], Ok (length (filter p rows))))"

text \<open>The advisory locks, and the statements of a savepoint and a prepare, which touch no row.\<close>

definition tb_lock_guard :: "tb_lock \<Rightarrow> unit tb_statement" where
  "tb_lock_guard l rows = (rows, [l], Ok ())"

definition tb_nothing :: "unit tb_statement" where
  "tb_nothing rows = (rows, [], Ok ())"

end
