(* ===== verification/Postgres_Repository.thy ===== *)
theory Postgres_Repository
  imports Postgres_Table
begin

text \<open>
  The repository, the reader and the relation of a PostgreSQL table (\<^verbatim>\<open>table.go\<close>, \<^verbatim>\<open>unique.go\<close>, \<^verbatim>\<open>guard.go\<close> under
  \<^verbatim>\<open>libs/backend/go/postgres\<close>). The statements of a call run one after another on the connection of its
  transaction; those of a batch are sent together, and the server skips what follows one it refused. A statement
  the server refuses aborts the transaction until a rollback to a savepoint.
\<close>

section \<open>The transaction\<close>

record savepointPlan =
  sp_unprepared :: bool
  sp_pins :: bool
  sp_pinned :: "string list"

datatype QueryExecMode = CacheStatement | CacheDescribe | DescribeExec | ExecMode | SimpleProtocol

definition savepointPlanOf :: "QueryExecMode \<Rightarrow> savepointPlan" where
  "savepointPlanOf mode = \<lparr>sp_unprepared = (mode = ExecMode \<or> mode = SimpleProtocol), sp_pins = (mode = CacheStatement), sp_pinned = []\<rparr>"

definition plan_inline :: "savepointPlan \<Rightarrow> string \<Rightarrow> bool" where
  "plan_inline p statement \<longleftrightarrow> sp_unprepared p \<or> statement \<in> set (sp_pinned p)"

type_synonym tb_env = "(tb_table, tb_lock) pg_env"

record tb_conn =
  tc_conn :: "(tb_table, tb_lock) pg_conn"
  tc_aborted :: bool
  tc_plan :: savepointPlan
  tc_writes :: int
  tc_guarded :: bool

definition tb_opened :: "savepointPlan \<Rightarrow> tb_table \<Rightarrow> tb_conn" where
  "tb_opened plan rows = \<lparr>tc_conn = pg_opened rows, tc_aborted = False, tc_plan = plan, tc_writes = 0, tc_guarded = False\<rparr>"

definition is_PgError :: "gerr \<Rightarrow> bool" where
  "is_PgError e \<longleftrightarrow> errors_As as_PgError e \<noteq> None"

definition inFailedTransaction :: gerr where
  "inFailedTransaction = PgError ''25P02'' [] []"

definition tb_exec :: "tb_env \<Rightarrow> 'a tb_statement \<Rightarrow> tb_conn \<Rightarrow> tb_conn \<times> 'a result" where
  "tb_exec env statement c =
     (if tc_aborted c then (c, Err inFailedTransaction)
      else case pg_exec env statement (tc_conn c) of
        (cn, r) \<Rightarrow> (c\<lparr>tc_conn := cn, tc_aborted := (case r of Err e \<Rightarrow> is_PgError e | _ \<Rightarrow> False)\<rparr>, r))"

text \<open>
  \<open>ROLLBACK TO SAVEPOINT\<close>. It runs only where no statement since the savepoint succeeded in changing a row, so it
  leaves the rows and makes the transaction usable again.
\<close>

definition tb_rollback :: "tb_env \<Rightarrow> tb_conn \<Rightarrow> tb_conn \<times> unit result" where
  "tb_rollback env c =
     (case pg_exec env tb_nothing (tc_conn c) of
        (cn, r) \<Rightarrow> (c\<lparr>tc_conn := cn, tc_aborted := (case r of Ok _ \<Rightarrow> False | Err e \<Rightarrow> tc_aborted c \<or> is_PgError e | Panic _ \<Rightarrow> tc_aborted c)\<rparr>, r))"

text \<open>\<open>fmt.Errorf\<close> around the error of a call.\<close>

definition tb_wrap :: "(gerr \<Rightarrow> gerr) \<Rightarrow> (tb_conn \<Rightarrow> tb_conn \<times> 'a result) \<Rightarrow> tb_conn \<Rightarrow> tb_conn \<times> 'a result" where
  "tb_wrap f m c = (case m c of (c', r) \<Rightarrow> (c', res_map_err f r))"

abbreviation saying :: "string \<Rightarrow> gerr \<Rightarrow> gerr" where
  "saying m e \<equiv> Wrapped m [e]"

definition ErrNoRows :: gerr where
  "ErrNoRows = Foreign ''pgx.ErrNoRows'' None None None []"

definition is_NoRows :: "gerr \<Rightarrow> bool" where
  "is_NoRows e \<longleftrightarrow> ErrNoRows \<in> set (err_chain e)"

definition scanned :: "'a option result \<Rightarrow> 'a result" where
  "scanned r = res_bind r (\<lambda>row. case row of None \<Rightarrow> Err ErrNoRows | Some x \<Rightarrow> Ok x)"

text \<open>\<open>pgx.ErrPreprocessingBatch\<close> names the statement of the batch the driver could not prepare or encode.\<close>

fun as_Preprocessing :: "gerr \<Rightarrow> (string \<times> gerr) option" where
  "as_Preprocessing (Foreign n _ _ _ [e]) =
     (let prefix = ''pgx.ErrPreprocessingBatch '' in
      if take (length prefix) n = prefix then Some (drop (length prefix) n, e) else None)"
| "as_Preprocessing _ = None"

definition unbatched :: "gerr \<Rightarrow> gerr" where
  "unbatched e = (case errors_As as_Preprocessing e of None \<Rightarrow> e | Some (_, cause) \<Rightarrow> cause)"

definition lockFailed :: "gerr \<Rightarrow> string \<Rightarrow> bool" where
  "lockFailed e lock = (case errors_As as_Preprocessing e of None \<Rightarrow> True | Some (sql, _) \<Rightarrow> sql = lock)"

definition deadlockDetected :: string where
  "deadlockDetected = ''40P01''"

definition conflictOnDeadlock :: "bool \<Rightarrow> gerr \<Rightarrow> gerr" where
  "conflictOnDeadlock guarded e =
     (if guarded \<and> (case errors_As as_PgError e of None \<Rightarrow> False | Some (code, _) \<Rightarrow> code = deadlockDetected)
      then Wrapped [] [Sentinel ErrVersionConflict, e] else e)"

definition on_deadlock :: "(tb_conn \<Rightarrow> tb_conn \<times> 'a result) \<Rightarrow> tb_conn \<Rightarrow> tb_conn \<times> 'a result" where
  "on_deadlock m c = (case m c of (c', r) \<Rightarrow> (c', res_map_err (conflictOnDeadlock (tc_guarded c')) r))"

section \<open>Loads\<close>

definition tb_miss :: "tb_env \<Rightarrow> 's pgTable \<Rightarrow> tb_schema \<Rightarrow> TenantID \<Rightarrow> string \<Rightarrow> tb_conn \<Rightarrow> tb_conn \<times> 'a result" where
  "tb_miss env t sc tenant i c =
     (case tb_exec env (tb_owner sc i tenant) c of
        (c', r) \<Rightarrow>
          (c', case scanned r of
             Ok holder \<Rightarrow> Err (CrossTenantAccess (pt_Name t @ ''/'' @ i) tenant holder)
           | Err e \<Rightarrow> if is_NoRows e then Fail ErrNotFound else Err (saying ''postgres: probe owner'' e)
           | Panic m \<Rightarrow> Panic m))"

definition tb_decode :: "'s pgTable \<Rightarrow> sql_value list result \<Rightarrow> 's result" where
  "tb_decode t scan = (case pt_Decode t of
     None \<Rightarrow> Panic ''invalid memory address or nil pointer dereference'' | Some decode \<Rightarrow> decode scan)"

definition tb_loadAs :: "tb_env \<Rightarrow> 's pgTable \<Rightarrow> TenantID \<Rightarrow> string \<Rightarrow> tb_conn \<Rightarrow> tb_conn \<times> ('s \<times> Version) option result" where
  "tb_loadAs env t tenant i c =
     (case tb_exec env (tb_selectOne tenant i) c of
        (c', r) \<Rightarrow>
          (let version = (case r of Ok (Some row) \<Rightarrow> word_of_int (tr_version row) | _ \<Rightarrow> 0) in
           (c', case tb_decode t (res_map tr_values (scanned r)) of
              Ok state \<Rightarrow> Ok (Some (identify t state i, version))
            | Err e \<Rightarrow> if is_NoRows e then Ok None else Err (saying ''postgres: load'' e)
            | Panic m \<Rightarrow> Panic m)))"

definition tb_load :: "tb_env \<Rightarrow> 's pgTable \<Rightarrow> tb_schema \<Rightarrow> carrier \<Rightarrow> string \<Rightarrow> tb_conn \<Rightarrow> tb_conn \<times> ('s \<times> Version) result" where
  "tb_load env t sc ctx i =
     pg_bind (pg_return (pg_tenantOf ctx)) (\<lambda>tenant.
       pg_bind (tb_loadAs env t tenant i) (\<lambda>found.
         case found of None \<Rightarrow> tb_miss env t sc tenant i | Some sv \<Rightarrow> pg_return (Ok sv)))"

text \<open>\<open>Table.Reader\<close> runs each statement on a pooled connection in autocommit.\<close>

definition tb_Reader_Load :: "tb_env \<Rightarrow> 's pgTable \<Rightarrow> tb_schema \<Rightarrow> savepointPlan \<Rightarrow> carrier \<Rightarrow> string \<Rightarrow> tb_table \<Rightarrow> ('s \<times> Version) result" where
  "tb_Reader_Load env t sc plan ctx i rows = snd (tb_load env t sc ctx i (tb_opened plan rows))"

definition tb_Load :: "tb_env \<Rightarrow> 's pgTable \<Rightarrow> tb_schema \<Rightarrow> carrier \<Rightarrow> string \<Rightarrow> tb_conn \<Rightarrow> tb_conn \<times> ('s \<times> Version) result" where
  "tb_Load env t sc ctx i = on_deadlock (tb_load env t sc ctx i)"

section \<open>Saves\<close>

definition tb_settle :: "nat \<Rightarrow> tb_conn \<Rightarrow> tb_conn \<times> unit result" where
  "tb_settle affected c =
     (if affected = 0 then (c, Fail ErrVersionConflict) else (c\<lparr>tc_writes := tc_writes c + 1\<rparr>, Ok ()))"

definition guardText :: "sql_value \<Rightarrow> string result" where
  "guardText v = (case v of SqlText s \<Rightarrow> Ok s | _ \<Rightarrow> FailWith ErrGuardValue ''got another type'')"

text \<open>The lock a save takes, if the table is guarded; the transaction is guarded from then on.\<close>

definition tb_guard :: "'s pgTable \<Rightarrow> TenantID \<Rightarrow> sql_value list \<Rightarrow> tb_conn \<Rightarrow> tb_conn \<times> tb_lock option result" where
  "tb_guard t tenant vs c =
     (if pt_Guard t = [] then (c, Ok None)
      else case guardText (vs ! nat (guardIndex t)) of
        Ok txt \<Rightarrow> (c\<lparr>tc_guarded := True\<rparr>, Ok (Some (GuardExclusive tenant txt)))
      | Err e \<Rightarrow> (c, Err e)
      | Panic m \<Rightarrow> (c, Panic m))"

text \<open>The end of a batch, whose \<open>Close\<close> may report the connection's failure.\<close>

definition tb_close :: "tb_env \<Rightarrow> tb_conn \<Rightarrow> tb_conn \<times> unit result" where
  "tb_close env = tb_wrap (saying ''postgres: save'') (tb_exec env tb_nothing)"

definition lock_error :: "'s pgTable \<Rightarrow> (gerr \<Rightarrow> gerr) \<Rightarrow> gerr \<Rightarrow> gerr" where
  "lock_error t other e =
     (if lockFailed e (gs_exclusive (compileGuard t)) then saying ''postgres: save: guard'' (unbatched e) else other (unbatched e))"

definition saveGuarded :: "tb_env \<Rightarrow> 's pgTable \<Rightarrow> tb_lock \<Rightarrow> nat tb_statement \<Rightarrow> tb_conn \<Rightarrow> tb_conn \<times> unit result" where
  "saveGuarded env t lock statement =
     pg_bind (tb_wrap (lock_error t (saying ''postgres: save'')) (tb_exec env (tb_lock_guard lock))) (\<lambda>_.
     pg_bind (tb_wrap (\<lambda>e. saying ''postgres: save'' (unbatched e)) (tb_exec env statement)) (\<lambda>affected.
     pg_bind (tb_close env) (\<lambda>_. tb_settle affected)))"

definition unopened :: "gerr \<Rightarrow> gerr" where
  "unopened e = (if is_PgError e then saying ''postgres: save: savepoint'' e else saying ''postgres: save'' e)"

definition identityTaken :: "tb_env \<Rightarrow> TenantID \<Rightarrow> string \<Rightarrow> tb_conn \<Rightarrow> tb_conn \<times> bool result" where
  "identityTaken env tenant i c =
     (case tb_exec env (tb_exists tenant i) c of
        (c', Err e) \<Rightarrow> (c', if is_NoRows e then Ok False else Err (saying ''postgres: probe identity'' e))
      | (c', r) \<Rightarrow> (c', r))"

text \<open>
  \<open>translate\<close>: a declared violation becomes its rejection while the transaction has written nothing, unless another
  transaction took the identity meanwhile.
\<close>

definition translate :: "tb_env \<Rightarrow> 's pgTable \<Rightarrow> TenantID \<Rightarrow> string \<Rightarrow> gerr \<Rightarrow> bool \<Rightarrow> tb_conn \<Rightarrow> tb_conn \<times> unit result" where
  "translate env t tenant i cause creating c =
     (let failed = saying ''postgres: save'' cause in
      case errors_As as_PgError cause of
        None \<Rightarrow> (c, Err failed)
      | Some (code, table, constraint) \<Rightarrow>
          if code \<noteq> uniqueViolation \<or> table \<noteq> ascii_lower (pt_Name t) then (c, Err failed)
          else let violation = (\<lambda>rejection. Err (Wrapped ''postgres: save'' [UniqueViolation (pt_Name t) constraint rejection, cause])) in
            (case declared_unique t constraint of
               None \<Rightarrow> (c, violation None)
             | Some u \<Rightarrow>
                 (case (if creating then identityTaken env tenant i c else (c, Ok False)) of
                    (c', Err e) \<Rightarrow> (c', Err (Wrapped [] [failed, e]))
                  | (c', Ok True) \<Rightarrow> (c', Fail ErrVersionConflict)
                  | (c', Ok False) \<Rightarrow> (c', violation (if tc_writes c' = 0 then pu_Rejection u else None))
                  | (c', Panic m) \<Rightarrow> (c', Panic m))))"

definition tb_undo :: "tb_env \<Rightarrow> 's pgTable \<Rightarrow> TenantID \<Rightarrow> string \<Rightarrow> gerr \<Rightarrow> bool \<Rightarrow> tb_conn \<Rightarrow> tb_conn \<times> unit result" where
  "tb_undo env t tenant i cause creating c =
     (case tb_rollback env c of
        (c', Err e) \<Rightarrow> (c', Err (Wrapped [] [saying ''postgres: save'' cause, saying ''postgres: rollback to savepoint'' e]))
      | (c', Panic m) \<Rightarrow> (c', Panic m)
      | (c', Ok _) \<Rightarrow> translate env t tenant i cause creating c')"

text \<open>\<open>pin\<close> prepares the statements of the next save, the write last recorded as pinned.\<close>

fun prepare_all :: "tb_env \<Rightarrow> nat \<Rightarrow> tb_conn \<Rightarrow> tb_conn \<times> unit result" where
  "prepare_all env 0 = pg_return (Ok ())"
| "prepare_all env (Suc n) = pg_bind (tb_exec env tb_nothing) (\<lambda>_. prepare_all env n)"

definition openSavepoint :: string where
  "openSavepoint = ''SAVEPOINT dmpf_unique''"

definition releaseSavepoint :: string where
  "releaseSavepoint = ''RELEASE SAVEPOINT dmpf_unique''"

definition plan_pin :: "tb_env \<Rightarrow> string \<Rightarrow> string option \<Rightarrow> tb_conn \<Rightarrow> tb_conn \<times> unit result" where
  "plan_pin env text lock c =
     (if \<not> sp_pins (tc_plan c) then (c, Ok ())
      else let pinned = [text, openSavepoint, releaseSavepoint] @ (case lock of None \<Rightarrow> [] | Some l \<Rightarrow> [l]) in
        pg_bind (prepare_all env (length pinned)) (\<lambda>_ c'.
          (c'\<lparr>tc_plan := (tc_plan c')\<lparr>sp_pinned := text # sp_pinned (tc_plan c')\<rparr>\<rparr>, Ok ())) c)"

text \<open>The part of a save after its savepoint: the write, the release, and the undo of a refused write.\<close>

definition savepoint_write ::
    "tb_env \<Rightarrow> 's pgTable \<Rightarrow> TenantID \<Rightarrow> string \<Rightarrow> nat tb_statement \<Rightarrow> bool \<Rightarrow> tb_conn \<Rightarrow> tb_conn \<times> unit result" where
  "savepoint_write env t tenant i statement creating c =
     (case tb_exec env statement c of
        (c', Err e) \<Rightarrow> tb_undo env t tenant i (unbatched e) creating c'
      | (c', Panic m) \<Rightarrow> (c', Panic m)
      | (c', Ok affected) \<Rightarrow>
          pg_bind (tb_wrap (saying ''postgres: save: release savepoint'') (tb_exec env tb_nothing)) (\<lambda>_.
            pg_bind (tb_close env) (\<lambda>_. tb_settle affected)) c')"

definition saveUnderSavepoint ::
    "tb_env \<Rightarrow> 's pgTable \<Rightarrow> TenantID \<Rightarrow> string \<Rightarrow> tb_lock option \<Rightarrow> string \<Rightarrow> nat tb_statement \<Rightarrow> bool \<Rightarrow>
      tb_conn \<Rightarrow> tb_conn \<times> unit result" where
  "saveUnderSavepoint env t tenant i lock text statement creating c =
     (let write = (\<lambda>_. savepoint_write env t tenant i statement creating);
          locking = (\<lambda>err. case lock of
             None \<Rightarrow> pg_return (Ok ())
           | Some l \<Rightarrow> tb_wrap err (tb_exec env (tb_lock_guard l))) in
      if plan_inline (tc_plan c) text
      then pg_bind (locking (lock_error t unopened)) (\<lambda>_.
             pg_bind (tb_wrap (\<lambda>e. unopened (unbatched e)) (tb_exec env tb_nothing)) write) c
      else pg_bind (locking (saying ''postgres: save: guard'')) (\<lambda>_.
             pg_bind (tb_wrap unopened (tb_exec env tb_nothing)) (\<lambda>_ c1.
               case plan_pin env text (map_option (\<lambda>_. gs_exclusive (compileGuard t)) lock) c1 of
                 (c2, Err e) \<Rightarrow> tb_undo env t tenant i e creating c2
               | (c2, Panic m) \<Rightarrow> (c2, Panic m)
               | (c2, Ok u) \<Rightarrow> write u c2)) c)"

definition tb_write :: "'s pgTable \<Rightarrow> tb_schema \<Rightarrow> TenantID \<Rightarrow> string \<Rightarrow> Version \<Rightarrow> sql_value list \<Rightarrow> nat tb_statement" where
  "tb_write t sc tenant i v vs = (if v = 0 then tb_insert t sc tenant i 1 vs else tb_update t sc tenant i (sint v) vs)"

definition write_text :: "'s pgTable \<Rightarrow> Version \<Rightarrow> string" where
  "write_text t v = (if v = 0 then sm_insert (compile_texts t) else sm_update (compile_texts t))"

definition tb_saveAs ::
    "tb_env \<Rightarrow> 's pgTable \<Rightarrow> tb_schema \<Rightarrow> TenantID \<Rightarrow> string \<Rightarrow> 's \<Rightarrow> Version \<Rightarrow> tb_conn \<Rightarrow> tb_conn \<times> unit result" where
  "tb_saveAs env t sc tenant i state expected c =
     (case pt_Encode t of
        None \<Rightarrow> (c, Panic ''invalid memory address or nil pointer dereference'')
      | Some encode \<Rightarrow>
          (case encode state of
             Err e \<Rightarrow> (c, Err (saying ''postgres: encode'' e))
           | Panic m \<Rightarrow> (c, Panic m)
           | Ok vs \<Rightarrow>
               if length vs \<noteq> length (pt_Columns t) then (c, Err (Wrapped ''postgres: encode: values for columns'' []))
               else
                 pg_bind (tb_wrap (saying ''postgres: save'') (tb_guard t tenant vs)) (\<lambda>lock.
                   if pt_Unique t \<noteq> [] then on_deadlock (saveUnderSavepoint env t tenant i lock (write_text t expected)
                       (tb_write t sc tenant i expected vs) (expected = 0))
                   else case lock of
                     Some l \<Rightarrow> on_deadlock (saveGuarded env t l (tb_write t sc tenant i expected vs))
                   | None \<Rightarrow> pg_bind (on_deadlock (tb_wrap (saying ''postgres: save'')
                       (tb_exec env (tb_write t sc tenant i expected vs)))) tb_settle) c))"

definition tb_Save ::
    "tb_env \<Rightarrow> 's pgTable \<Rightarrow> tb_schema \<Rightarrow> carrier \<Rightarrow> string \<Rightarrow> 's \<Rightarrow> Version \<Rightarrow> tb_conn \<Rightarrow> tb_conn \<times> unit result" where
  "tb_Save env t sc ctx i state expected =
     pg_bind (pg_return (pg_tenantOf ctx)) (\<lambda>tenant. tb_saveAs env t sc tenant i state expected)"

section \<open>Relations\<close>

record 's Relation =
  rl_table :: "'s pgTable"
  rl_filter :: string
  rl_lock :: string

definition Table_Relation :: "'s pgTable \<Rightarrow> string \<Rightarrow> 's Relation result" where
  "Table_Relation t filterColumn =
     (if \<not> isIdentifier filterColumn then Panic ''postgres: Table relation column is not a SQL identifier''
      else res_map (\<lambda>_. \<lparr>rl_table = t, rl_filter = filterColumn,
          rl_lock = (if pt_Guard t \<noteq> [] \<and> filterColumn = pt_Guard t then gs_shared (compileGuard t) else [])\<rparr>)
        (pgTable_validate t))"

definition rl_holds :: "'s Relation \<Rightarrow> tb_schema \<Rightarrow> sql_value \<Rightarrow> tb_row \<Rightarrow> bool" where
  "rl_holds rl sc v r \<longleftrightarrow> sc_store sc (rl_filter rl) v \<noteq> SqlNull \<and>
     tb_column (rl_table rl) r (rl_filter rl) = sc_store sc (rl_filter rl) v"

definition rl_select :: "'s Relation \<Rightarrow> tb_schema \<Rightarrow> TenantID \<Rightarrow> sql_value \<Rightarrow> tb_row list tb_statement" where
  "rl_select rl sc tenant v rows = (rows, [], Ok (filter (\<lambda>r. tr_tenant r = tenant \<and> rl_holds rl sc v r) rows))"

fun rl_decode :: "'s pgTable \<Rightarrow> tb_row list \<Rightarrow> 's list result" where
  "rl_decode t [] = Ok []"
| "rl_decode t (r # rs) =
     res_bind (res_map_err (saying ''postgres: scan'') (tb_decode t (Ok (tr_values r)))) (\<lambda>state.
       res_map ((#) (identify t state (tr_id r))) (rl_decode t rs))"

definition go_sprint_value :: "sql_value \<Rightarrow> string" where
  "go_sprint_value v = (case v of SqlText s \<Rightarrow> s | SqlInt i \<Rightarrow> itoa_int i | SqlBool b \<Rightarrow> (if b then ''true'' else ''false'')
     | SqlBytes bs \<Rightarrow> ''['' @ strings_Join (List.map (\<lambda>b. itoa (unat b)) bs) '' '' @ '']'' | SqlNull \<Rightarrow> ''<nil>'')"

definition rl_miss :: "tb_env \<Rightarrow> 's Relation \<Rightarrow> tb_schema \<Rightarrow> TenantID \<Rightarrow> sql_value \<Rightarrow> tb_conn \<Rightarrow> tb_conn \<times> 's list result" where
  "rl_miss env rl sc tenant v c =
     (case tb_exec env (owner_of sc tenant (rl_holds rl sc v)) c of
        (c', r) \<Rightarrow>
          (c', case scanned r of
             Ok holder \<Rightarrow> Err (CrossTenantAccess (pt_Name (rl_table rl) @ ''?'' @ rl_filter rl @ ''='' @ go_sprint_value v) tenant holder)
           | Err e \<Rightarrow> if is_NoRows e then Ok [] else Err (saying ''postgres: probe owner'' e)
           | Panic m \<Rightarrow> Panic m))"

definition rl_answer :: "tb_env \<Rightarrow> 's Relation \<Rightarrow> tb_schema \<Rightarrow> TenantID \<Rightarrow> sql_value \<Rightarrow> 's list \<Rightarrow> tb_conn \<Rightarrow> tb_conn \<times> 's list result" where
  "rl_answer env rl sc tenant v out = (if out = [] then rl_miss env rl sc tenant v else pg_return (Ok out))"

definition rl_collect :: "tb_env \<Rightarrow> 's Relation \<Rightarrow> tb_schema \<Rightarrow> TenantID \<Rightarrow> sql_value \<Rightarrow> tb_conn \<Rightarrow> tb_conn \<times> 's list result" where
  "rl_collect env rl sc tenant v =
     pg_bind (tb_wrap (saying ''postgres: query'') (tb_exec env (rl_select rl sc tenant v))) (\<lambda>rows.
       pg_bind (pg_return (rl_decode (rl_table rl) rows)) (rl_answer env rl sc tenant v))"

definition Relation_Query :: "tb_env \<Rightarrow> 's Relation \<Rightarrow> tb_schema \<Rightarrow> savepointPlan \<Rightarrow> carrier \<Rightarrow> sql_value \<Rightarrow> tb_table \<Rightarrow> 's list result" where
  "Relation_Query env rl sc plan ctx v rows =
     res_bind (pg_tenantOf ctx) (\<lambda>tenant. snd (rl_collect env rl sc tenant v (tb_opened plan rows)))"

definition guardedRead :: "tb_env \<Rightarrow> 's Relation \<Rightarrow> tb_schema \<Rightarrow> TenantID \<Rightarrow> string \<Rightarrow> tb_conn \<Rightarrow> tb_conn \<times> 's list result" where
  "guardedRead env rl sc tenant txt =
     pg_bind (tb_wrap (\<lambda>e. saying (if lockFailed e (rl_lock rl) then ''postgres: guard'' else ''postgres: query'') (unbatched e))
         (tb_exec env (tb_lock_guard (GuardShared tenant txt)))) (\<lambda>_.
     pg_bind (tb_wrap (\<lambda>e. saying ''postgres: query'' (unbatched e)) (tb_exec env (rl_select rl sc tenant (SqlText txt)))) (\<lambda>rows.
     pg_bind (pg_return (rl_decode (rl_table rl) rows)) (\<lambda>out.
     pg_bind (tb_wrap (saying ''postgres: query'') (tb_exec env tb_nothing)) (\<lambda>_.
       rl_answer env rl sc tenant (SqlText txt) out))))"

definition Relation_QueryWithin :: "tb_env \<Rightarrow> 's Relation \<Rightarrow> tb_schema \<Rightarrow> carrier \<Rightarrow> sql_value \<Rightarrow> tb_conn \<Rightarrow> tb_conn \<times> 's list result" where
  "Relation_QueryWithin env rl sc ctx v =
     (if rl_lock rl = [] then pg_return (Panic ''postgres: Table relation column is not its Guard'')
      else pg_bind (pg_return (pg_tenantOf ctx)) (\<lambda>tenant.
        pg_bind (pg_return (guardText v)) (\<lambda>txt c.
          on_deadlock (guardedRead env rl sc tenant txt) (c\<lparr>tc_guarded := True\<rparr>))))"

end
