(* ===== verification/Table_Races.thy ===== *)
theory Table_Races
  imports Postgres_Repository
begin

text \<open>
  The repository of a PostgreSQL table among other transactions at READ COMMITTED. \<open>onward env S c c'\<close> says how a
  call takes a connection from \<open>c\<close> to \<open>c'\<close>: locks are only added, each new statement of the call changed nothing or
  made a change \<open>S\<close> allows under the locks held, and what the other transactions keep, and the changes keep,
  still holds. Every fragment of a call but the write itself is onward with no change at all.
\<close>

section \<open>Onward\<close>

abbreviation tb_rows :: "tb_conn \<Rightarrow> tb_table" where "tb_rows c \<equiv> pc_table (tc_conn c)"
abbreviation tb_log :: "tb_conn \<Rightarrow> (tb_table \<times> tb_table) list" where "tb_log c \<equiv> pc_log (tc_conn c)"
abbreviation tb_locks :: "tb_conn \<Rightarrow> tb_lock set" where "tb_locks c \<equiv> set (pc_locks (tc_conn c))"

type_synonym tb_change = "tb_lock set \<Rightarrow> tb_table \<Rightarrow> tb_table \<Rightarrow> bool"

definition stable_under :: "tb_env \<Rightarrow> tb_lock set \<Rightarrow> (tb_table \<Rightarrow> bool) \<Rightarrow> bool" where
  "stable_under env K D \<longleftrightarrow> (\<forall>n ks x. K \<subseteq> set ks \<longrightarrow> D x \<longrightarrow> D (pe_others env n ks x))"

definition kept_by :: "tb_change \<Rightarrow> (tb_table \<Rightarrow> bool) \<Rightarrow> bool" where
  "kept_by S D \<longleftrightarrow> (\<forall>K a b. S K a b \<longrightarrow> D a \<longrightarrow> D b)"

definition mono_change :: "tb_change \<Rightarrow> bool" where
  "mono_change S \<longleftrightarrow> (\<forall>K K' a b. K \<subseteq> K' \<longrightarrow> S K a b \<longrightarrow> S K' a b)"

definition onward :: "tb_env \<Rightarrow> tb_change \<Rightarrow> tb_conn \<Rightarrow> tb_conn \<Rightarrow> bool" where
  "onward env S c c' \<longleftrightarrow> tb_locks c \<subseteq> tb_locks c' \<and>
     (\<exists>new. tb_log c' = tb_log c @ new \<and> (\<forall>(a, b) \<in> set new. a = b \<or> S (tb_locks c') a b)) \<and>
     (\<forall>D. stable_under env (tb_locks c) D \<longrightarrow> kept_by S D \<longrightarrow> D (tb_rows c) \<longrightarrow> D (tb_rows c'))"

definition unchanged :: tb_change where
  "unchanged K a b \<longleftrightarrow> False"

lemma mono_unchanged [simp]: "mono_change unchanged"
  by (simp add: mono_change_def unchanged_def)

lemma kept_by_unchanged [simp]: "kept_by unchanged D"
  by (simp add: kept_by_def unchanged_def)

lemma onward_same: "tc_conn c' = tc_conn c \<Longrightarrow> onward env S c c'"
  by (simp add: onward_def)

lemma onward_refl [simp]: "onward env S c c"
  by (simp add: onward_same)

lemma stable_more: "stable_under env K D \<Longrightarrow> K \<subseteq> K' \<Longrightarrow> stable_under env K' D"
  unfolding stable_under_def by blast

lemma onward_trans:
  assumes "onward env S c c1" "onward env S c1 c2" "mono_change S"
  shows "onward env S c c2"
proof -
  obtain new1 where new1: "tb_log c1 = tb_log c @ new1" "\<forall>(a, b) \<in> set new1. a = b \<or> S (tb_locks c1) a b"
    using assms(1) unfolding onward_def by blast
  obtain new2 where new2: "tb_log c2 = tb_log c1 @ new2" "\<forall>(a, b) \<in> set new2. a = b \<or> S (tb_locks c2) a b"
    using assms(2) unfolding onward_def by blast
  have locks: "tb_locks c \<subseteq> tb_locks c1" "tb_locks c1 \<subseteq> tb_locks c2"
    using assms(1,2) by (simp_all add: onward_def)
  then have "\<forall>(a, b) \<in> set (new1 @ new2). a = b \<or> S (tb_locks c2) a b"
    using new1(2) new2(2) assms(3) unfolding mono_change_def by fastforce
  moreover have "D (tb_rows c2)" if "stable_under env (tb_locks c) D" "kept_by S D" "D (tb_rows c)" for D
    using assms(1,2) that stable_more [OF that(1) locks(1)] unfolding onward_def by blast
  ultimately show ?thesis
    using locks new1(1) new2(1) by (auto simp: onward_def)
qed

lemma onward_weaken:
  assumes "onward env unchanged c c'"
  shows "onward env S c c'"
proof -
  have "D (tb_rows c')" if "stable_under env (tb_locks c) D" "D (tb_rows c)" for D
    using assms kept_by_unchanged [of D] that unfolding onward_def by blast
  moreover obtain new where "tb_log c' = tb_log c @ new" "\<forall>(a, b) \<in> set new. a = b"
    using assms by (auto simp: onward_def unchanged_def)
  moreover have "tb_locks c \<subseteq> tb_locks c'"
    using assms by (simp add: onward_def)
  ultimately show ?thesis
    by (auto simp: onward_def)
qed

text \<open>A program: whatever it answers, the connection has gone onward.\<close>

definition goes :: "tb_env \<Rightarrow> tb_change \<Rightarrow> (tb_conn \<Rightarrow> tb_conn \<times> 'a result) \<Rightarrow> bool" where
  "goes env S m \<longleftrightarrow> (\<forall>c c' r. m c = (c', r) \<longrightarrow> onward env S c c')"

lemma goesD: "goes env S m \<Longrightarrow> m c = (c', r) \<Longrightarrow> onward env S c c'"
  unfolding goes_def by blast

lemma goes_weaken: "goes env unchanged m \<Longrightarrow> goes env S m"
  unfolding goes_def using onward_weaken by blast

lemma goes_return [simp]: "goes env S (pg_return r)"
  by (simp add: goes_def pg_return_def)

lemma goes_bind:
  assumes "goes env S m" "\<And>x. goes env S (f x)" "mono_change S"
  shows "goes env S (pg_bind m f)"
  unfolding goes_def
proof (intro allI impI)
  fix c c' r
  assume "pg_bind m f c = (c', r)"
  then show "onward env S c c'"
    by (cases rule: pg_bind_cases) (use assms in \<open>auto dest: goesD intro: onward_trans\<close>)
qed

lemma goes_wrap: "goes env S m \<Longrightarrow> goes env S (tb_wrap f m)"
  by (auto simp: goes_def tb_wrap_def split: prod.splits)

lemma goes_on_deadlock: "goes env S m \<Longrightarrow> goes env S (on_deadlock m)"
  by (auto simp: goes_def on_deadlock_def split: prod.splits)

section \<open>Statements\<close>

text \<open>The table a statement of the connection runs on.\<close>

definition tb_before :: "tb_env \<Rightarrow> tb_conn \<Rightarrow> tb_table" where
  "tb_before env c = pe_others env (length (tb_log c)) (pc_locks (tc_conn c)) (tb_rows c)"

lemma stable_before: "stable_under env (tb_locks c) D \<Longrightarrow> D (tb_rows c) \<Longrightarrow> D (tb_before env c)"
  by (simp add: stable_under_def tb_before_def)

lemma pg_exec_split:
  assumes "pg_exec env statement (tc_conn c) = (cn, r)"
  obtains (fault) e where "pe_fault env (length (tb_log c)) = Some e" "r = Err e"
      "pc_table cn = tb_before env c" "pc_log cn = tb_log c @ [(tb_before env c, tb_before env c)]" "pc_locks cn = pc_locks (tc_conn c)"
  | (executed) b ks where "pe_fault env (length (tb_log c)) = None" "statement (tb_before env c) = (b, ks, r)"
      "pc_table cn = b" "pc_log cn = tb_log c @ [(tb_before env c, b)]" "pc_locks cn = ks @ pc_locks (tc_conn c)"
proof (cases "pe_fault env (length (tb_log c))")
  case (Some e)
  with assms show thesis
    by (intro fault) (auto simp: pg_exec_def tb_before_def Let_def)
next
  case None
  with assms show thesis
    by (auto simp: pg_exec_def tb_before_def [symmetric] Let_def split: prod.splits intro: executed)
qed

lemma onward_exec:
  assumes "pg_exec env statement (tc_conn c) = (cn, r)" and "tc_conn c' = cn"
    and S: "\<And>b ks r. statement (tb_before env c) = (b, ks, r) \<Longrightarrow> b = tb_before env c \<or> S (set ks \<union> tb_locks c) (tb_before env c) b"
  shows "onward env S c c'"
  using assms(1)
proof (cases rule: pg_exec_split)
  case (fault e)
  with assms(2) show ?thesis
    by (auto simp: onward_def intro: stable_before)
next
  case (executed b ks)
  have "D b" if "stable_under env (tb_locks c) D" "kept_by S D" "D (tb_rows c)" for D
    using stable_before [OF that(1,3)] S [OF executed(2)] that(2) unfolding kept_by_def by blast
  with executed S [OF executed(2)] assms(2) show ?thesis
    by (auto simp: onward_def)
qed

lemma tb_exec_cases:
  assumes "tb_exec env statement c = (c', r)"
  obtains (dead) "tc_aborted c" "c' = c" "r = Err inFailedTransaction"
  | (run) cn where "\<not> tc_aborted c" "pg_exec env statement (tc_conn c) = (cn, r)" "tc_conn c' = cn"
      "tc_aborted c' = (case r of Err e \<Rightarrow> is_PgError e | _ \<Rightarrow> False)"
      "tc_plan c' = tc_plan c" "tc_writes c' = tc_writes c" "tc_guarded c' = tc_guarded c"
  using assms by (auto simp: tb_exec_def split: if_splits prod.splits)

lemma tb_exec_onward:
  assumes "tb_exec env statement c = (c', r)"
    and "\<And>b ks r. statement (tb_before env c) = (b, ks, r) \<Longrightarrow> b = tb_before env c \<or> S (set ks \<union> tb_locks c) (tb_before env c) b"
  shows "onward env S c c'"
  using assms(1)
proof (cases rule: tb_exec_cases)
  case (run cn)
  show ?thesis
    by (rule onward_exec [where S = S, OF run(2,3)]) (rule assms(2))
qed simp

definition looks :: "'a tb_statement \<Rightarrow> bool" where
  "looks statement \<longleftrightarrow> (\<forall>rows. fst (statement rows) = rows)"

lemma goes_exec: "looks statement \<Longrightarrow> goes env S (tb_exec env statement)"
  unfolding goes_def looks_def by (metis tb_exec_onward fst_conv)

lemma looks_simps [simp]:
  "looks (tb_selectOne tenant i)" "looks (tb_owner sc i tenant)" "looks (tb_exists tenant i)" "looks (tb_lock_guard l)"
  "looks tb_nothing" "looks (rl_select rl sc tenant v)" "looks (owner_of sc tenant p)"
  by (simp_all add: looks_def tb_selectOne_def tb_owner_def owner_of_def tb_exists_def tb_lock_guard_def tb_nothing_def rl_select_def)

lemma goes_rollback: "goes env S (tb_rollback env)"
  unfolding goes_def
proof (intro allI impI)
  fix c c' r
  assume run: "tb_rollback env c = (c', r)"
  obtain cn r' where cn: "pg_exec env tb_nothing (tc_conn c) = (cn, r')"
    by fastforce
  show "onward env S c c'"
    by (rule onward_exec [OF cn]) (use run cn in \<open>auto simp: tb_rollback_def tb_nothing_def\<close>)
qed

section \<open>The fragments of a call\<close>

lemma goes_miss: "goes env S (tb_miss env t sc tenant i)"
  using goesD [OF goes_exec [of "tb_owner sc i tenant" env S]] by (auto simp: goes_def tb_miss_def split: prod.splits)

lemma goes_loadAs: "goes env S (tb_loadAs env t tenant i)"
  using goesD [OF goes_exec [of "tb_selectOne tenant i" env S]] by (auto simp: goes_def tb_loadAs_def Let_def split: prod.splits)

lemma goes_Load: "mono_change S \<Longrightarrow> goes env S (tb_Load env t sc ctx i)"
  unfolding tb_Load_def tb_load_def
  by (intro goes_on_deadlock goes_bind) (auto simp: goes_loadAs goes_miss split: option.split)

lemma goes_settle: "goes env S (tb_settle n)"
  by (auto simp: goes_def tb_settle_def intro: onward_same split: if_splits)

lemma goes_guard: "goes env S (tb_guard t tenant vs)"
  by (auto simp: goes_def tb_guard_def intro: onward_same split: if_splits res.splits)

lemma goes_close: "goes env S (tb_close env)"
  by (simp add: tb_close_def goes_wrap goes_exec)

lemma goes_prepare: "mono_change S \<Longrightarrow> goes env S (prepare_all env n)"
  by (induction n) (auto intro!: goes_bind goes_exec)

lemma goes_pin:
  assumes "mono_change S"
  shows "goes env S (plan_pin env text lock)"
  unfolding goes_def
proof (intro allI impI)
  fix c c' r
  let ?done = "\<lambda>_ c'. (c'\<lparr>tc_plan := (tc_plan c')\<lparr>sp_pinned := text # sp_pinned (tc_plan c')\<rparr>\<rparr>, Ok ())"
  have "goes env S (pg_bind (prepare_all env n) ?done)" for n
    by (intro goes_bind goes_prepare assms) (auto simp: goes_def intro: onward_same)
  moreover assume "plan_pin env text lock c = (c', r)"
  ultimately show "onward env S c c'"
    by (auto simp: plan_pin_def Let_def simp del: prepare_all.simps split: if_splits dest: goesD)
qed

lemma goes_identityTaken: "goes env S (identityTaken env tenant i)"
  using goesD [OF goes_exec [of "tb_exists tenant i" env S]]
  by (auto simp: goes_def identityTaken_def split: prod.splits res.splits)

lemma goes_translate: "goes env S (translate env t tenant i cause creating)"
  using goesD [OF goes_identityTaken [of env S tenant i]]
  by (auto simp: goes_def translate_def Let_def split: prod.splits res.splits option.splits if_splits bool.splits)

lemma goes_undo:
  assumes "mono_change S"
  shows "goes env S (tb_undo env t tenant i cause creating)"
  unfolding goes_def
proof (intro allI impI)
  fix c c' r
  assume run: "tb_undo env t tenant i cause creating c = (c', r)"
  obtain c1 r1 where c1: "tb_rollback env c = (c1, r1)"
    by fastforce
  from goesD [OF goes_rollback c1] run c1 goesD [OF goes_translate, of env t tenant i cause creating c1 c' r]
  show "onward env S c c'"
    by (cases r1) (auto simp: tb_undo_def intro: onward_trans assms)
qed

section \<open>The write of a save\<close>

definition atomic_statement :: "'a tb_statement \<Rightarrow> bool" where
  "atomic_statement statement \<longleftrightarrow> (\<forall>a b ks r. statement a = (b, ks, r) \<longrightarrow> (\<exists>n. r = Ok n) \<or> b = a)"

lemma tb_write_atomic [simp]: "atomic_statement (tb_write t sc tenant i v vs)"
  by (auto simp: atomic_statement_def tb_write_def tb_insert_def tb_update_def Let_def split: if_splits option.splits)

definition writes :: "nat tb_statement \<Rightarrow> tb_lock set \<Rightarrow> tb_change" where
  "writes statement L K a b \<longleftrightarrow> L \<subseteq> K \<and> (\<exists>ks n. statement a = (b, ks, Ok n))"

lemma mono_writes [simp]: "mono_change (writes statement L)"
  by (auto simp: mono_change_def writes_def)

text \<open>
  A save from \<open>c\<close> to \<open>c'\<close>: all it does to the table is its write, under the locks \<open>L\<close>; and when it succeeds
  the write affected a row, with only reads before and after it.
\<close>

definition lands :: "tb_env \<Rightarrow> nat tb_statement \<Rightarrow> tb_lock set \<Rightarrow> tb_conn \<Rightarrow> tb_conn \<Rightarrow> unit result \<Rightarrow> bool" where
  "lands env statement L c c' r \<longleftrightarrow> onward env (writes statement L) c c' \<and>
     (r = Ok () \<longrightarrow> (\<exists>c1 c2 ks n. onward env unchanged c c1 \<and> L \<subseteq> tb_locks c2 \<and>
        statement (tb_before env c1) = (tb_rows c2, ks, Ok n) \<and> n \<noteq> 0 \<and>
        (tb_before env c1, tb_rows c2) \<in> set (tb_log c2) \<and> onward env unchanged c2 c'))"

lemma lands_fails: "onward env unchanged c c' \<Longrightarrow> r \<noteq> Ok () \<Longrightarrow> lands env statement L c c' r"
  by (auto simp: lands_def intro: onward_weaken)

lemma lands_after:
  assumes "onward env unchanged c c0" "lands env statement L c0 c' r"
  shows "lands env statement L c c' r"
  using assms onward_trans [OF onward_weaken [OF assms(1)], of "writes statement L" c']
    onward_trans [OF assms(1)] unfolding lands_def by (meson mono_unchanged mono_writes)

lemma lands_write:
  assumes "tb_exec env statement c = (c1, rw)" "atomic_statement statement" "L \<subseteq> tb_locks c"
    and "onward env unchanged c1 c'" "r = Ok () \<Longrightarrow> \<exists>n. rw = Ok n \<and> n \<noteq> 0"
  shows "lands env statement L c c' r"
proof -
  have "b = tb_before env c \<or> writes statement L (set ks \<union> tb_locks c) (tb_before env c) b"
    if "statement (tb_before env c) = (b, ks, r')" for b ks r'
    using assms(2,3) that by (cases r') (auto simp: writes_def atomic_statement_def)
  then have "onward env (writes statement L) c c1"
    by (rule tb_exec_onward [OF assms(1)])
  then have on: "onward env (writes statement L) c c'"
    by (rule onward_trans) (use assms(4) in \<open>simp_all add: onward_weaken\<close>)
  show ?thesis
  proof (cases "r = Ok ()")
    case True
    with assms(5) obtain n where n: "rw = Ok n" "n \<noteq> 0" by blast
    from assms(1) obtain cn where cn: "pg_exec env statement (tc_conn c) = (cn, Ok n)" "tc_conn c1 = cn"
      unfolding n(1) by (cases rule: tb_exec_cases) auto
    from cn(1) obtain b ks where "statement (tb_before env c) = (b, ks, Ok n)" "pc_table cn = b"
      "pc_log cn = tb_log c @ [(tb_before env c, b)]" "pc_locks cn = ks @ pc_locks (tc_conn c)"
      by (cases rule: pg_exec_split) auto
    with on n cn(2) assms(3,4) True show ?thesis
      unfolding lands_def by (intro conjI impI on exI [of _ c] exI [of _ c1]) auto
  qed (use on in \<open>simp add: lands_def\<close>)
qed

lemma tb_wrap_Ok [simp]: "tb_wrap f m c = (c', Ok x) \<longleftrightarrow> m c = (c', Ok x)"
  by (cases "m c") (auto simp: tb_wrap_def split: prod.splits elim: res_map_err.elims)

lemma tb_wrap_cases:
  assumes "tb_wrap f m c = (c', r)"
  obtains r' where "m c = (c', r')" "r = res_map_err f r'"
  using assms by (auto simp: tb_wrap_def split: prod.splits)

lemma res_map_err_Ok [simp]: "res_map_err f r = Ok x \<longleftrightarrow> r = Ok x"
  by (cases r) auto

lemma on_deadlock_cases:
  assumes "on_deadlock m c = (c', r)"
  obtains r' where "m c = (c', r')" "r = res_map_err (conflictOnDeadlock (tc_guarded c')) r'"
  using assms by (auto simp: on_deadlock_def split: prod.splits)

lemma on_deadlock_Ok [simp]: "on_deadlock m c = (c', Ok x) \<longleftrightarrow> m c = (c', Ok x)"
  by (cases "m c") (auto simp: on_deadlock_def)

text \<open>After the reads of a prefix, the rest of a program.\<close>

lemma lands_bind:
  assumes "goes env unchanged m" "pg_bind m f c = (c', r)"
    and "\<And>x c1. m c = (c1, Ok x) \<Longrightarrow> f x c1 = (c', r) \<Longrightarrow> lands env statement L c1 c' r"
  shows "lands env statement L c c' r"
  using assms(2)
proof (cases rule: pg_bind_cases)
  case (ok c1 x)
  from lands_after [OF goesD [OF assms(1) ok(1)] assms(3) [OF ok]] show ?thesis .
next
  case (err e)
  with goesD [OF assms(1) err(1)] show ?thesis
    by (simp add: lands_fails)
next
  case (panic p)
  with goesD [OF assms(1) panic(1)] show ?thesis
    by (simp add: lands_fails)
qed

lemma settle_Ok: "tb_settle n c = (c', Ok ()) \<Longrightarrow> n \<noteq> 0"
  by (auto simp: tb_settle_def split: if_splits)

lemma lands_tail:
  assumes "tb_exec env statement c = (c1, Ok n)" "atomic_statement statement" "L \<subseteq> tb_locks c"
    and "goes env unchanged m" "pg_bind m (\<lambda>_. tb_settle n) c1 = (c', r)"
  shows "lands env statement L c c' r"
proof (rule lands_write [OF assms(1-3)])
  have "goes env unchanged (pg_bind m (\<lambda>_. tb_settle n))"
    by (intro goes_bind assms(4) goes_settle) simp
  from goesD [OF this assms(5)] show "onward env unchanged c1 c'" .
  show "\<exists>k. Ok n = Ok k \<and> k \<noteq> 0" if "r = Ok ()"
    using assms(5) unfolding that by (cases rule: pg_bind_cases) (auto dest: settle_Ok)
qed

lemma savepoint_write_lands:
  assumes run: "savepoint_write env t tenant i statement creating c = (c', r)"
    and "atomic_statement statement" "L \<subseteq> tb_locks c"
  shows "lands env statement L c c' r"
proof -
  obtain c1 rw where exec: "tb_exec env statement c = (c1, rw)"
    by fastforce
  show ?thesis
  proof (cases rw)
    case (Ok n)
    let ?m = "pg_bind (tb_wrap (saying ''postgres: save: release savepoint'') (tb_exec env tb_nothing)) (\<lambda>_. tb_close env)"
    have "goes env unchanged ?m"
      by (intro goes_bind goes_wrap goes_exec goes_close) simp_all
    moreover have "pg_bind ?m (\<lambda>_. tb_settle n) c1 = (c', r)"
      using run exec Ok by (simp add: savepoint_write_def pg_bind_assoc)
    ultimately show ?thesis
      by (rule lands_tail [OF exec [unfolded Ok] assms(2,3)])
  next
    case (Err e)
    with run exec have "tb_undo env t tenant i (unbatched e) creating c1 = (c', r)"
      by (simp add: savepoint_write_def)
    moreover from this have "r \<noteq> Ok ()"
      by (auto simp: tb_undo_def translate_def Let_def split: prod.splits res.splits option.splits if_splits bool.splits)
    ultimately show ?thesis
      by (intro lands_write [OF exec assms(2,3)] goesD [OF goes_undo [OF mono_unchanged]]) auto
  next
    case (Panic p)
    with run exec show ?thesis
      by (intro lands_write [OF exec assms(2,3)]) (auto simp: savepoint_write_def)
  qed
qed

lemma lands_exec:
  assumes "pg_bind (tb_wrap f (tb_exec env statement)) g c = (c', r)" "atomic_statement statement" "L \<subseteq> tb_locks c"
    and "\<And>n c1. g n c1 = (c', r) \<Longrightarrow> onward env unchanged c1 c' \<and> (r = Ok () \<longrightarrow> n \<noteq> 0)"
  shows "lands env statement L c c' r"
  using assms(1)
proof (cases rule: pg_bind_cases)
  case (ok c1 n)
  with assms(4) [OF ok(2)] show ?thesis
    by (intro lands_write [OF _ assms(2,3), where rw = "Ok n"]) auto
next
  case (err e)
  then obtain rw where "tb_exec env statement c = (c', rw)"
    by (auto elim: tb_wrap_cases)
  with err(2) show ?thesis
    by (intro lands_write [OF _ assms(2,3)]) auto
next
  case (panic p)
  then obtain rw where "tb_exec env statement c = (c', rw)"
    by (auto elim: tb_wrap_cases)
  with panic(2) show ?thesis
    by (intro lands_write [OF _ assms(2,3)]) auto
qed

lemma lock_held: "tb_exec env (tb_lock_guard l) c = (c', Ok u) \<Longrightarrow> l \<in> tb_locks c'"
  by (cases rule: tb_exec_cases, assumption) (auto simp: tb_lock_guard_def elim!: pg_exec_split)

lemma saveGuarded_lands:
  assumes "saveGuarded env t lock statement c = (c', r)" "atomic_statement statement"
  shows "lands env statement {lock} c c' r"
  using _ assms(1)[unfolded saveGuarded_def]
proof (rule lands_bind)
  show "goes env unchanged (tb_wrap (lock_error t (saying ''postgres: save'')) (tb_exec env (tb_lock_guard lock)))"
    by (intro goes_wrap goes_exec) simp
next
  fix x :: unit and c1
  assume "tb_wrap (lock_error t (saying ''postgres: save'')) (tb_exec env (tb_lock_guard lock)) c = (c1, Ok x)"
  then have held: "{lock} \<subseteq> tb_locks c1"
    by (simp add: lock_held)
  assume "pg_bind (tb_wrap (\<lambda>e. saying ''postgres: save'' (unbatched e)) (tb_exec env statement))
    (\<lambda>affected. pg_bind (tb_close env) (\<lambda>_. tb_settle affected)) c1 = (c', r)"
  then show "lands env statement {lock} c1 c' r"
  proof (rule lands_exec [OF _ assms(2) held])
    fix n c2
    assume tail: "pg_bind (tb_close env) (\<lambda>_. tb_settle n) c2 = (c', r)"
    have "goes env unchanged (pg_bind (tb_close env) (\<lambda>_. tb_settle n))"
      by (intro goes_bind goes_close goes_settle) simp
    from goesD [OF this tail] tail show "onward env unchanged c2 c' \<and> (r = Ok () \<longrightarrow> n \<noteq> 0)"
      by (auto elim!: pg_bind_cases dest: settle_Ok)
  qed
qed

lemma saveUnderSavepoint_lands:
  assumes run: "saveUnderSavepoint env t tenant i lock text statement creating c = (c', r)" and atomic: "atomic_statement statement"
  shows "lands env statement (set_option lock) c c' r"
proof -
  let ?locking = "\<lambda>err. case lock of None \<Rightarrow> pg_return (Ok ()) | Some l \<Rightarrow> tb_wrap err (tb_exec env (tb_lock_guard l))"
  have goes: "goes env unchanged (?locking err)" for err
    by (cases lock) (simp_all add: goes_wrap goes_exec)
  have held: "set_option lock \<subseteq> tb_locks c1" if "?locking err c0 = (c1, Ok x)" for err c0 c1 and x :: unit
    using that by (cases lock) (auto simp: lock_held)
  have opens: "set_option lock \<subseteq> tb_locks c2" if "tb_wrap f (tb_exec env tb_nothing) c1 = (c2, Ok y)" "set_option lock \<subseteq> tb_locks c1"
    for f c1 c2 and y :: unit
    using goesD [OF goes_wrap [OF goes_exec [OF looks_simps(5)]] that(1), of unchanged] that(2) by (auto simp: onward_def)
  have go_open: "goes env unchanged (tb_wrap f (tb_exec env tb_nothing))" for f
    by (intro goes_wrap goes_exec) simp
  show ?thesis
  proof (cases "plan_inline (tc_plan c) text")
    case True
    with run have "pg_bind (?locking (lock_error t unopened)) (\<lambda>_. pg_bind (tb_wrap (\<lambda>e. unopened (unbatched e)) (tb_exec env tb_nothing))
        (\<lambda>_. savepoint_write env t tenant i statement creating)) c = (c', r)"
      by (simp add: saveUnderSavepoint_def Let_def)
    then show ?thesis
    proof (rule lands_bind [OF goes], elim lands_bind [OF go_open])
      fix x :: unit and c0 and y :: unit and c1
      assume pre: "?locking (lock_error t unopened) c = (c0, Ok x)" "tb_wrap (\<lambda>e. unopened (unbatched e)) (tb_exec env tb_nothing) c0 = (c1, Ok y)"
        and rest: "savepoint_write env t tenant i statement creating c1 = (c', r)"
      show "lands env statement (set_option lock) c1 c' r"
        by (rule savepoint_write_lands [OF rest atomic opens [OF pre(2) held [OF pre(1)]]])
    qed
  next
    case False
    let ?rest = "\<lambda>_ c1. case plan_pin env text (map_option (\<lambda>_. gs_exclusive (compileGuard t)) lock) c1 of
        (c2, Err e) \<Rightarrow> tb_undo env t tenant i e creating c2
      | (c2, Panic m) \<Rightarrow> (c2, Panic m)
      | (c2, Ok u) \<Rightarrow> savepoint_write env t tenant i statement creating c2"
    from False run have "pg_bind (?locking (saying ''postgres: save: guard'')) (\<lambda>_. pg_bind (tb_wrap unopened (tb_exec env tb_nothing)) ?rest) c = (c', r)"
      by (simp add: saveUnderSavepoint_def Let_def)
    then show ?thesis
    proof (rule lands_bind [OF goes], elim lands_bind [OF go_open])
      fix x :: unit and c0 and y :: unit and c1
      assume pre: "?locking (saying ''postgres: save: guard'') c = (c0, Ok x)" "tb_wrap unopened (tb_exec env tb_nothing) c0 = (c1, Ok y)"
        and rest: "?rest y c1 = (c', r)"
      have L: "set_option lock \<subseteq> tb_locks c1"
        by (rule opens [OF pre(2) held [OF pre(1)]])
      obtain c2 r2 where pin: "plan_pin env text (map_option (\<lambda>_. gs_exclusive (compileGuard t)) lock) c1 = (c2, r2)"
        by fastforce
      have on: "onward env unchanged c1 c2"
        by (rule goesD [OF goes_pin [OF mono_unchanged] pin])
      have "lands env statement (set_option lock) c2 c' r"
      proof (cases r2)
        case (Ok u)
        with rest pin on L show ?thesis
          by (intro savepoint_write_lands [OF _ atomic]) (auto simp: onward_def)
      next
        case (Err e)
        with rest pin have undo: "tb_undo env t tenant i e creating c2 = (c', r)" by simp
        then have "r \<noteq> Ok ()"
          by (auto simp: tb_undo_def translate_def Let_def split: prod.splits res.splits option.splits if_splits bool.splits)
        with goesD [OF goes_undo [OF mono_unchanged] undo] show ?thesis
          by (rule lands_fails)
      next
        case (Panic p)
        with rest pin show ?thesis
          by (auto intro: lands_fails)
      qed
      with on show "lands env statement (set_option lock) c1 c' r"
        by (rule lands_after)
    qed
  qed
qed

text \<open>The lock \<open>guard\<close> chose for the values of a save.\<close>

definition series_lock :: "'s pgTable \<Rightarrow> TenantID \<Rightarrow> sql_value list \<Rightarrow> tb_lock option \<Rightarrow> bool" where
  "series_lock t tenant vs lock \<longleftrightarrow>
     (if pt_Guard t = [] then lock = None
      else \<exists>txt. vs ! nat (guardIndex t) = SqlText txt \<and> lock = Some (GuardExclusive tenant txt))"

lemma tb_guard_Ok: "tb_guard t tenant vs c = (c1, Ok lock) \<Longrightarrow> tc_conn c1 = tc_conn c \<and> series_lock t tenant vs lock"
  by (auto simp: tb_guard_def series_lock_def guardText_def split: if_splits res.splits sql_value.splits)

lemma tb_guard_conn: "tb_guard t tenant vs c = (c1, r) \<Longrightarrow> tc_conn c1 = tc_conn c"
  by (auto simp: tb_guard_def split: if_splits res.splits)

lemma lands_on_deadlock:
  assumes "on_deadlock m c = (c', r)" "\<And>r'. m c = (c', r') \<Longrightarrow> lands env statement L c c' r'"
  shows "lands env statement L c c' r"
  using assms(1)
proof (cases rule: on_deadlock_cases)
  case (1 r')
  with assms(2) [OF 1(1)] show ?thesis
    by (cases r') (auto simp: lands_def)
qed

definition encodes :: "'s pgTable \<Rightarrow> 's \<Rightarrow> sql_value list \<Rightarrow> bool" where
  "encodes t state vs \<longleftrightarrow> (\<exists>encode. pt_Encode t = Some encode \<and> encode state = Ok vs) \<and> length vs = length (pt_Columns t)"

lemma saveAs_lands:
  assumes "tb_saveAs env t sc tenant i state v c = (c', r)"
  obtains (refused) "tc_conn c' = tc_conn c" "r \<noteq> Ok ()"
  | (landed) vs lock where "encodes t state vs" "series_lock t tenant vs lock"
      "lands env (tb_write t sc tenant i v vs) (set_option lock) c c' r"
proof (cases "\<exists>vs. encodes t state vs")
  case False
  with assms have "tc_conn c' = tc_conn c \<and> r \<noteq> Ok ()"
    by (auto simp: tb_saveAs_def encodes_def Let_def split: option.splits res.splits if_splits)
  then show thesis using refused by blast
next
  case True
  then obtain encode vs where vs: "pt_Encode t = Some encode" "encode state = Ok vs" "length vs = length (pt_Columns t)" "encodes t state vs"
    by (auto simp: encodes_def)
  let ?text = "write_text t v"
  let ?st = "tb_write t sc tenant i v vs"
  have "pg_bind (tb_wrap (saying ''postgres: save'') (tb_guard t tenant vs)) (\<lambda>lock.
      if pt_Unique t \<noteq> [] then on_deadlock (saveUnderSavepoint env t tenant i lock ?text ?st (v = 0))
      else case lock of Some l \<Rightarrow> on_deadlock (saveGuarded env t l ?st)
        | None \<Rightarrow> pg_bind (on_deadlock (tb_wrap (saying ''postgres: save'') (tb_exec env ?st))) tb_settle) c = (c', r)"
    using assms vs(1-3) by (simp add: tb_saveAs_def)
  then show thesis
  proof (cases rule: pg_bind_cases)
    case (ok c0 lock)
    then have c0: "tc_conn c0 = tc_conn c" and lock: "series_lock t tenant vs lock"
      using tb_guard_Ok [of t tenant vs c c0 lock] by simp_all
    have "lands env ?st (set_option lock) c0 c' r"
    proof (cases "pt_Unique t \<noteq> []")
      case True
      with ok(2) have "on_deadlock (saveUnderSavepoint env t tenant i lock ?text ?st (v = 0)) c0 = (c', r)" by simp
      then show ?thesis
        by (rule lands_on_deadlock) (auto intro: saveUnderSavepoint_lands)
    next
      case unique: False
      show ?thesis
      proof (cases lock)
        case (Some l)
        with ok(2) unique have "on_deadlock (saveGuarded env t l ?st) c0 = (c', r)" by simp
        then have "lands env ?st {l} c0 c' r"
          by (rule lands_on_deadlock) (rule saveGuarded_lands [OF _ tb_write_atomic])
        with Some show ?thesis by simp
      next
        case None
        with ok(2) unique have plain: "pg_bind (on_deadlock (tb_wrap (saying ''postgres: save'') (tb_exec env ?st))) tb_settle c0 = (c', r)"
          by simp
        obtain c1 rw where exec: "tb_exec env ?st c0 = (c1, rw)"
          by fastforce
        have "onward env unchanged c1 c' \<and> (r = Ok () \<longrightarrow> (\<exists>n. rw = Ok n \<and> n \<noteq> 0))"
          using plain
        proof (cases rule: pg_bind_cases)
          case (ok c2 n)
          with exec have "c2 = c1" "rw = Ok n"
            by simp_all
          with goesD [OF goes_settle ok(2)] settle_Ok [of n c2 c'] ok(2) show ?thesis by auto
        qed (use exec in \<open>auto elim!: on_deadlock_cases tb_wrap_cases\<close>)
        with None show ?thesis
          by (intro lands_write [OF exec]) auto
      qed
    qed
    with landed [OF vs(4) lock] lands_after [OF onward_same [OF c0]] show thesis
      by blast
  next
    case (err e)
    then show thesis
      using refused by (auto elim!: tb_wrap_cases dest: tb_guard_conn)
  next
    case (panic p)
    then show thesis
      using refused by (auto elim!: tb_wrap_cases dest: tb_guard_conn)
  qed
qed

section \<open>What the writes keep\<close>

text \<open>
  Versions only grow: a row never goes away, and a row of the same version is the same row.
\<close>

definition rows_wf :: "tb_table \<Rightarrow> bool" where
  "rows_wf rows \<longleftrightarrow> distinct (map tr_pk rows) \<and> (\<forall>r \<in> set rows. 1 \<le> tr_version r \<and> tr_version r \<le> max_int64)"

definition row_evolves :: "tb_row \<Rightarrow> tb_row \<Rightarrow> bool" where
  "row_evolves r r' \<longleftrightarrow> tr_pk r' = tr_pk r \<and> (r' = r \<or> tr_version r < tr_version r')"

definition rows_evolve :: "tb_table \<Rightarrow> tb_table \<Rightarrow> bool" where
  "rows_evolve a b \<longleftrightarrow> (rows_wf a \<longrightarrow> rows_wf b \<and> (\<forall>r \<in> set a. \<exists>r' \<in> set b. row_evolves r r'))"

lemma rows_evolve_refl [simp]: "rows_evolve a a"
  by (auto simp: rows_evolve_def row_evolves_def)

lemma row_evolves_trans: "row_evolves r r1 \<Longrightarrow> row_evolves r1 r2 \<Longrightarrow> row_evolves r r2"
  by (auto simp: row_evolves_def)

lemma rows_evolve_trans:
  assumes "rows_evolve a b" "rows_evolve b c"
  shows "rows_evolve a c"
  unfolding rows_evolve_def
proof
  assume "rows_wf a"
  with assms have "rows_wf c" and ab: "\<forall>r \<in> set a. \<exists>r' \<in> set b. row_evolves r r'" and bc: "\<forall>r \<in> set b. \<exists>r' \<in> set c. row_evolves r r'"
    by (auto simp: rows_evolve_def)
  moreover from ab bc have "\<forall>r \<in> set a. \<exists>r' \<in> set c. row_evolves r r'"
    by (meson row_evolves_trans)
  ultimately show "rows_wf c \<and> (\<forall>r \<in> set a. \<exists>r' \<in> set c. row_evolves r r')" by blast
qed

lemma tb_write_evolves:
  assumes "tb_write t sc tenant i v vs a = (b, ks, r)"
  shows "rows_evolve a b"
  unfolding rows_evolve_def
proof
  assume wf: "rows_wf a"
  show "rows_wf b \<and> (\<forall>r \<in> set a. \<exists>r' \<in> set b. row_evolves r r')"
  proof (cases "b = a")
    case True
    with wf show ?thesis by (auto simp: row_evolves_def)
  next
    case changed: False
    show ?thesis
    proof (cases "v = 0")
      case True
      with assms changed have "b = a @ [\<lparr>tr_tenant = tenant, tr_id = i, tr_version = 1, tr_values = store_values t sc vs\<rparr>]"
        "\<forall>r \<in> set a. tr_pk r \<noteq> (tenant, i)"
        by (auto simp: tb_write_def tb_insert_def Let_def split: if_splits option.splits)
      with wf show ?thesis
        by (auto simp: rows_wf_def tr_pk_def max_int64_def row_evolves_def)
    next
      case False
      let ?p = "\<lambda>r. tr_pk r = (tenant, i) \<and> tr_version r = sint v \<and> guard_matches t sc vs r"
      let ?new = "\<lparr>tr_tenant = tenant, tr_id = i, tr_version = sint v + 1, tr_values = store_values t sc vs\<rparr>"
      from False assms changed have b: "b = map (\<lambda>r. if ?p r then ?new else r) a" and small: "sint v + 1 \<le> max_int64"
        by (auto simp: tb_write_def tb_update_def Let_def split: if_splits option.splits)
      have "map tr_pk b = map tr_pk a"
        unfolding b by (auto simp: tr_pk_def)
      moreover have "\<forall>r \<in> set a. 1 \<le> tr_version r \<and> tr_version r \<le> max_int64"
        using wf by (simp add: rows_wf_def)
      ultimately have "rows_wf b"
        using wf small unfolding rows_wf_def b by (auto simp del: map_map)
      moreover have "row_evolves r (if ?p r then ?new else r)" for r
        by (auto simp: row_evolves_def tr_pk_def)
      moreover have "(if ?p r then ?new else r) \<in> set b" if "r \<in> set a" for r
        unfolding b set_map by (rule imageI [OF that])
      ultimately show ?thesis
        by blast
    qed
  qed
qed

text \<open>The rows of a tenant whose guard column holds one text.\<close>

definition series :: "'s pgTable \<Rightarrow> TenantID \<Rightarrow> string \<Rightarrow> tb_table \<Rightarrow> tb_table" where
  "series t tenant txt = filter (\<lambda>r. tr_tenant r = tenant \<and> tb_column t r (pt_Guard t) = SqlText txt)"

text \<open>A guarded table is a valid declaration whose guard column stores a text as it is (ADR-067).\<close>

definition guarded_table :: "'s pgTable \<Rightarrow> tb_schema \<Rightarrow> bool" where
  "guarded_table t sc \<longleftrightarrow> pgTable_validate t = Ok () \<and> pt_Guard t \<noteq> [] \<and> (\<forall>txt. sc_store sc (pt_Guard t) (SqlText txt) = SqlText txt)"

lemma index_from_nth:
  assumes "0 \<le> k" "0 \<le> index_from k c ds" "length vs = length ds"
  shows "k \<le> index_from k c ds \<and> map_of (zip ds vs) c = Some (vs ! nat (index_from k c ds - k)) \<and> c \<in> set ds"
  using assms
proof (induction ds arbitrary: k vs)
  case (Cons d ds)
  then obtain v vs' where vs: "vs = v # vs'" by (cases vs) auto
  show ?case
  proof (cases "d = c")
    case False
    with Cons.prems vs Cons.IH [of "k + 1" vs'] have "k + 1 \<le> index_from (k + 1) c ds"
      "map_of (zip ds vs') c = Some (vs' ! nat (index_from (k + 1) c ds - (k + 1)))" "c \<in> set ds"
      by auto
    moreover from this have "nat (index_from (k + 1) c ds - k) = Suc (nat (index_from (k + 1) c ds - (k + 1)))" by simp
    ultimately show ?thesis using False vs by simp
  qed (simp add: vs)
qed simp

lemma validate_columns_owned:
  "validate_columns t cs = Ok () \<Longrightarrow> c \<in> set cs \<Longrightarrow> c \<noteq> ''tenant_id'' \<and> c \<noteq> ''version'' \<and> c \<noteq> pt_IDColumn t"
  by (induction cs) (auto split: if_splits)

lemma pgTable_validate_Ok:
  assumes "pgTable_validate t = Ok ()"
  shows "validate_columns t (pt_Columns t) = Ok ()" "checkUniques (pt_Name t) (pt_Unique t) = Ok ()"
    "pt_Guard t \<noteq> [] \<Longrightarrow> 0 \<le> guardIndex t" "pt_Encode t \<noteq> None" "pt_Decode t \<noteq> None"
  using assms by (auto simp: pgTable_validate_def split: if_splits res.splits)

lemma guard_column:
  assumes "guarded_table t sc" "length vs = length (pt_Columns t)"
  shows "map_of (zip (pt_Columns t) vs) (pt_Guard t) = Some (vs ! nat (guardIndex t))"
    "pt_Guard t \<in> set (pt_Columns t)" "pt_Guard t \<noteq> ''tenant_id''" "pt_Guard t \<noteq> ''version''" "pt_Guard t \<noteq> pt_IDColumn t"
proof -
  note valid = pgTable_validate_Ok [of t]
  have "0 \<le> index_from 0 (pt_Guard t) (pt_Columns t)"
    using valid assms(1) by (simp add: guarded_table_def guardIndex_def)
  from index_from_nth [OF _ this assms(2)] show *: "map_of (zip (pt_Columns t) vs) (pt_Guard t) = Some (vs ! nat (guardIndex t))"
      "pt_Guard t \<in> set (pt_Columns t)"
    by (simp_all add: guardIndex_def)
  show "pt_Guard t \<noteq> ''tenant_id''" "pt_Guard t \<noteq> ''version''" "pt_Guard t \<noteq> pt_IDColumn t"
    using validate_columns_owned [OF valid(1) *(2)] assms(1) by (simp_all add: guarded_table_def)
qed

lemma map_of_store:
  "length vs = length ds \<Longrightarrow>
    map_of (zip ds (map (\<lambda>(c, v). f c v) (zip ds vs))) c = map_option (f c) (map_of (zip ds vs) c)"
  by (induction ds arbitrary: vs) (auto simp: length_Suc_conv split: list.splits)

lemma stored_guard:
  assumes "guarded_table t sc" "length vs = length (pt_Columns t)" "vs ! nat (guardIndex t) = SqlText txt"
  shows "tb_column t \<lparr>tr_tenant = tenant, tr_id = i, tr_version = n, tr_values = store_values t sc vs\<rparr> (pt_Guard t) = SqlText txt"
    "guard_matches t sc vs r \<longleftrightarrow> tb_column t r (pt_Guard t) = SqlText txt"
  using guard_column [OF assms(1,2)] assms
  by (auto simp: tb_column_def store_values_def map_of_store guard_matches_def guarded_table_def)

lemma filter_map_other: "(\<And>x. x \<in> set xs \<Longrightarrow> f x = x \<or> \<not> P x \<and> \<not> P (f x)) \<Longrightarrow> filter P (map f xs) = filter P xs"
  by (induction xs) force+

lemma tb_write_series:
  assumes "guarded_table t sc" "length vs = length (pt_Columns t)" "vs ! nat (guardIndex t) = SqlText txt"
    and "tb_write t sc tenant i v vs a = (b, ks, r)" and "(tenant', txt') \<noteq> (tenant, txt)"
  shows "series t tenant' txt' b = series t tenant' txt' a"
proof (cases "b = a")
  case changed: False
  note guard = stored_guard [OF assms(1-3)]
  show ?thesis
  proof (cases "v = 0")
    case True
    with assms(4) changed have "b = a @ [\<lparr>tr_tenant = tenant, tr_id = i, tr_version = 1, tr_values = store_values t sc vs\<rparr>]"
      by (auto simp: tb_write_def tb_insert_def Let_def split: if_splits option.splits)
    with assms(5) show ?thesis
      by (auto simp: series_def guard(1))
  next
    case False
    let ?p = "\<lambda>r. tr_pk r = (tenant, i) \<and> tr_version r = sint v \<and> guard_matches t sc vs r"
    let ?new = "\<lparr>tr_tenant = tenant, tr_id = i, tr_version = sint v + 1, tr_values = store_values t sc vs\<rparr>"
    from False assms(4) changed have b: "b = map (\<lambda>r. if ?p r then ?new else r) a"
      by (auto simp: tb_write_def tb_update_def Let_def split: if_splits option.splits)
    show ?thesis
      unfolding b series_def
      by (rule filter_map_other) (use assms(5) in \<open>auto simp: guard tr_pk_def\<close>)
  qed
qed simp

lemma tb_write_tenant:
  assumes "tb_write t sc tenant i v vs a = (b, ks, r)" and "other \<noteq> tenant"
  shows "filter (\<lambda>r. tr_tenant r = other) b = filter (\<lambda>r. tr_tenant r = other) a"
proof (cases "v = 0")
  case True
  with assms show ?thesis
    by (auto simp: tb_write_def tb_insert_def Let_def split: if_splits option.splits)
next
  case False
  let ?p = "\<lambda>r. tr_pk r = (tenant, i) \<and> tr_version r = sint v \<and> guard_matches t sc vs r"
  let ?new = "\<lparr>tr_tenant = tenant, tr_id = i, tr_version = sint v + 1, tr_values = store_values t sc vs\<rparr>"
  have "filter (\<lambda>r. tr_tenant r = other) (map (\<lambda>r. if ?p r then ?new else r) a) = filter (\<lambda>r. tr_tenant r = other) a"
    by (rule filter_map_other) (use assms(2) in \<open>simp add: tr_pk_def\<close>)
  moreover from False assms(1) have "b = a \<or> b = map (\<lambda>r. if ?p r then ?new else r) a"
    by (auto simp: tb_write_def tb_update_def Let_def split: if_splits option.splits)
  ultimately show ?thesis
    by blast
qed

section \<open>What a call guarantees\<close>

text \<open>
  Every statement of the transaction so far lets versions only grow, and changes a series of a guarded table only
  under its exclusive lock.
\<close>

definition tb_guarantees :: "'s pgTable \<Rightarrow> tb_conn \<Rightarrow> bool" where
  "tb_guarantees t c \<longleftrightarrow> (\<forall>(a, b) \<in> set (tb_log c). rows_evolve a b \<and>
     (\<forall>tenant txt. series t tenant txt b \<noteq> series t tenant txt a \<longrightarrow> GuardExclusive tenant txt \<in> tb_locks c))"

text \<open>
  What it relies on, of the other transactions: they let versions only grow, and while this transaction holds the
  lock of a series, shared or exclusive, none of them holds it exclusively, so none of them changes the series.
\<close>

definition tb_relies :: "'s pgTable \<Rightarrow> tb_env \<Rightarrow> bool" where
  "tb_relies t env \<longleftrightarrow> (\<forall>n ks x. rows_evolve x (pe_others env n ks x) \<and>
     (\<forall>tenant txt. GuardShared tenant txt \<in> set ks \<or> GuardExclusive tenant txt \<in> set ks \<longrightarrow>
        series t tenant txt (pe_others env n ks x) = series t tenant txt x))"

lemma tb_guarantees_onward:
  assumes "tb_guarantees t c" "onward env S c c'"
    and "\<And>K a b. S K a b \<Longrightarrow> rows_evolve a b \<and> (\<forall>tenant txt. series t tenant txt b \<noteq> series t tenant txt a \<longrightarrow> GuardExclusive tenant txt \<in> K)"
  shows "tb_guarantees t c'"
proof -
  obtain new where new: "tb_log c' = tb_log c @ new" "\<forall>(a, b) \<in> set new. a = b \<or> S (tb_locks c') a b"
    using assms(2) unfolding onward_def by blast
  have locks: "tb_locks c \<subseteq> tb_locks c'"
    using assms(2) by (simp add: onward_def)
  show ?thesis
    unfolding tb_guarantees_def new(1)
    using assms(1,3) new(2) locks unfolding tb_guarantees_def by fastforce
qed

text \<open>
  C12. A save of a guarded table guarantees of its transaction what every transaction relies on, whatever the others do and
  whichever statement fails; and it changes no row of another tenant.
\<close>

theorem save_guarantees_what_others_rely_on:
  assumes "guarded_table t sc" and "tb_guarantees t c" and "tb_Save env t sc ctx i state v c = (c', r)"
    and "pg_tenantOf ctx = Ok tenant" and "other \<noteq> tenant"
  shows "tb_guarantees t c' \<and> (\<exists>new. tb_log c' = tb_log c @ new \<and>
    (\<forall>(a, b) \<in> set new. filter (\<lambda>r. tr_tenant r = other) b = filter (\<lambda>r. tr_tenant r = other) a))"
proof -
  have run: "tb_saveAs env t sc tenant i state v c = (c', r)"
    using assms(3,4) by (simp add: tb_Save_def pg_return_def)
  from run show ?thesis
  proof (cases rule: saveAs_lands)
    case refused
    with assms(2) show ?thesis by (simp add: tb_guarantees_def)
  next
    case (landed vs lock)
    obtain g where g: "vs ! nat (guardIndex t) = SqlText g" "lock = Some (GuardExclusive tenant g)"
      using landed(2) assms(1) by (auto simp: series_lock_def guarded_table_def)
    have vs: "length vs = length (pt_Columns t)"
      using landed(1) by (simp add: encodes_def)
    let ?S = "writes (tb_write t sc tenant i v vs) (set_option lock)"
    have on: "onward env ?S c c'"
      using landed(3) by (simp add: lands_def)
    have "rows_evolve a b \<and> (\<forall>tenant' txt'. series t tenant' txt' b \<noteq> series t tenant' txt' a \<longrightarrow> GuardExclusive tenant' txt' \<in> K)"
      if "?S K a b" for K a b
    proof -
      obtain ks n where run: "tb_write t sc tenant i v vs a = (b, ks, Ok n)" and "GuardExclusive tenant g \<in> K"
        using \<open>?S K a b\<close> g(2) by (auto simp: writes_def)
      then show ?thesis
        using tb_write_evolves [OF run] tb_write_series [OF assms(1) vs g(1) run] by (metis prod.inject)
    qed
    from tb_guarantees_onward [OF assms(2) on this] have "tb_guarantees t c'" .
    moreover obtain new where new: "tb_log c' = tb_log c @ new" "\<forall>(a, b) \<in> set new. a = b \<or> ?S (tb_locks c') a b"
      using on unfolding onward_def by blast
    have "filter (\<lambda>r. tr_tenant r = other) b = filter (\<lambda>r. tr_tenant r = other) a" if "(a, b) \<in> set new" for a b
    proof (cases "a = b")
      case False
      with new(2) that obtain ks n where "tb_write t sc tenant i v vs a = (b, ks, Ok n)"
        by (auto simp: writes_def)
      from tb_write_tenant [OF this assms(5)] show ?thesis .
    qed simp
    with new(1) have "\<exists>new. tb_log c' = tb_log c @ new \<and>
        (\<forall>(a, b) \<in> set new. filter (\<lambda>r. tr_tenant r = other) b = filter (\<lambda>r. tr_tenant r = other) a)"
      by (intro exI [of _ new]) auto
    ultimately show ?thesis ..
  qed
qed

section \<open>Decisions are current\<close>

lemma relies_versions: "tb_relies t env \<Longrightarrow> stable_under env K (rows_evolve x)"
  unfolding tb_relies_def stable_under_def using rows_evolve_trans by blast

lemma relies_series:
  "tb_relies t env \<Longrightarrow> GuardShared tenant txt \<in> K \<Longrightarrow> stable_under env K (\<lambda>y. series t tenant txt y = S)"
  unfolding tb_relies_def stable_under_def by (meson subsetD)

lemma onward_stable:
  assumes "onward env unchanged c c'" "stable_under env (tb_locks c) D" "D (tb_rows c)"
  shows "D (tb_rows c')" "D (tb_before env c')"
proof -
  show D: "D (tb_rows c')"
    using assms kept_by_unchanged [of D] unfolding onward_def by blast
  have "tb_locks c \<subseteq> tb_locks c'"
    using assms(1) by (simp add: onward_def)
  from stable_before [OF stable_more [OF assms(2) this] D] show "D (tb_before env c')" .
qed

lemma Save_Ok_lands:
  assumes "tb_Save env t sc ctx i state v c = (c', Ok ())"
  obtains tenant vs lock where "pg_tenantOf ctx = Ok tenant" "encodes t state vs" "series_lock t tenant vs lock"
    "lands env (tb_write t sc tenant i v vs) (set_option lock) c c' (Ok ())"
proof -
  obtain tenant where tenant: "pg_tenantOf ctx = Ok tenant"
    using assms by (cases "pg_tenantOf ctx") (auto simp: tb_Save_def pg_return_def pg_bind_def)
  with assms have "tb_saveAs env t sc tenant i state v c = (c', Ok ())"
    by (simp add: tb_Save_def pg_return_def)
  then show thesis
    by (cases rule: saveAs_lands) (use that tenant in auto)
qed

lemma onward_log: "onward env S c c' \<Longrightarrow> set (tb_log c) \<subseteq> set (tb_log c')"
  by (auto simp: onward_def)

text \<open>What a load that found a row read.\<close>

lemma Load_Ok:
  assumes load: "tb_Load env t sc ctx i c = (c1, Ok (s, v))" and decode: "\<And>e. tb_decode t (Err e) = Err e"
  obtains tenant row d where "pg_tenantOf ctx = Ok tenant" "row \<in> set (tb_rows c1)" "tr_pk row = (tenant, i)"
    "tb_decode t (Ok (tr_values row)) = Ok d" "s = identify t d i" "v = word_of_int (tr_version row)"
    "\<And>D. stable_under env (tb_locks c) D \<Longrightarrow> D (tb_rows c) \<Longrightarrow> D (tb_rows c1)" "onward env unchanged c c1"
proof -
  have on: "onward env unchanged c c1"
    by (rule goesD [OF goes_Load load]) simp
  obtain tenant where tenant: "pg_tenantOf ctx = Ok tenant" "tb_load env t sc ctx i c = (c1, Ok (s, v))"
    using load by (cases "pg_tenantOf ctx") (auto simp: tb_Load_def tb_load_def pg_return_def pg_bind_def)
  obtain c0 found where found: "tb_loadAs env t tenant i c = (c0, Ok found)"
    "(case found of None \<Rightarrow> tb_miss env t sc tenant i | Some sv \<Rightarrow> pg_return (Ok sv)) c0 = (c1, Ok (s, v))"
    using tenant by (auto simp: tb_load_def pg_return_def elim: pg_bind_cases)
  have "found \<noteq> None"
  proof
    assume "found = None"
    with found(2) show False
      by (auto simp: tb_miss_def split: prod.splits res.splits if_splits)
  qed
  with found(2) have c0: "found = Some (s, v)" "c0 = c1"
    by (auto simp: pg_return_def)
  obtain r where exec: "tb_exec env (tb_selectOne tenant i) c = (c1, r)"
    using found(1) c0(2) by (auto simp: tb_loadAs_def Let_def split: prod.splits)
  then have "r \<noteq> Panic p" for p
    by (auto simp: tb_selectOne_def elim!: tb_exec_cases pg_exec_split)
  with exec found(1) c0 decode obtain row where row: "r = Ok (Some row)"
    by (cases r) (auto simp: tb_loadAs_def scanned_def Let_def split: option.splits res.splits if_splits)
  with exec found(1) c0 obtain d where d: "tb_decode t (Ok (tr_values row)) = Ok d" "s = identify t d i" "v = word_of_int (tr_version row)"
    by (auto simp: tb_loadAs_def scanned_def Let_def split: res.splits if_splits)
  obtain cn where "pg_exec env (tb_selectOne tenant i) (tc_conn c) = (cn, Ok (Some row))" "tc_conn c1 = cn"
    using exec row by (auto elim: tb_exec_cases)
  then have "find (\<lambda>r. tr_pk r = (tenant, i)) (tb_rows c1) = Some row"
    by (auto simp: tb_selectOne_def elim!: pg_exec_split)
  then have "row \<in> set (tb_rows c1)" "tr_pk row = (tenant, i)"
    by (auto simp: find_Some_iff)
  with tenant d on show thesis
    by (intro that) (auto dest: onward_stable(1))
qed

lemma version_word:
  assumes "1 \<le> n" "n \<le> max_int64"
  shows "(word_of_int n :: Version) \<noteq> 0" "sint (word_of_int n :: Version) = n"
proof -
  show n: "sint (word_of_int n :: Version) = n"
    using assms by (simp add: int_word_sint max_int64_def)
  show "(word_of_int n :: Version) \<noteq> 0"
    using n assms(1) by (metis not_one_le_zero sint_0)
qed

text \<open>
  C11. An optimistic decision is current. Whatever other transactions do meanwhile, as long as they let versions only grow, and
  whatever statement fails: when a \<open>Save\<close> succeeds over the version a \<open>Load\<close> returned, the one statement that wrote
  replaced exactly the row the \<open>Load\<close> had read, still unchanged, by the new state at the next version.
\<close>

theorem optimistic_decision_is_current:
  assumes "tb_relies t env" and "rows_wf (tb_rows c)" and "\<And>e. tb_decode t (Err e) = Err e"
    and "tb_Load env t sc ctx i c = (c1, Ok (s, v))"
    and "tb_Save env t sc ctx i state v c1 = (c2, Ok ())"
  shows "\<exists>tenant row d vs a. (a, map (\<lambda>r. if r = row then \<lparr>tr_tenant = tenant, tr_id = i, tr_version = tr_version row + 1,
        tr_values = store_values t sc vs\<rparr> else r) a) \<in> set (tb_log c2) \<and>
      pg_tenantOf ctx = Ok tenant \<and> row \<in> set a \<and> tr_pk row = (tenant, i) \<and> v = word_of_int (tr_version row) \<and>
      tb_decode t (Ok (tr_values row)) = Ok d \<and> s = identify t d i \<and> encodes t state vs"
proof -
  from Load_Ok [OF assms(4,3)] obtain tenant row d where tenant: "pg_tenantOf ctx = Ok tenant"
    and row: "row \<in> set (tb_rows c1)" "tr_pk row = (tenant, i)" "tb_decode t (Ok (tr_values row)) = Ok d" "s = identify t d i"
      "v = word_of_int (tr_version row)" and on: "onward env unchanged c c1"
    by metis
  have "rows_evolve (tb_rows c) (tb_rows c1)"
    using onward_stable(1) [OF on relies_versions [OF assms(1)]] by simp
  with assms(2) have wf1: "rows_wf (tb_rows c1)"
    by (simp add: rows_evolve_def)
  from assms(5) obtain vs lock where save: "encodes t state vs"
      "lands env (tb_write t sc tenant i v vs) (set_option lock) c1 c2 (Ok ())"
    using tenant by (auto elim: Save_Ok_lands)
  then obtain c3 c4 ks n where c3: "onward env unchanged c1 c3" and wrote: "tb_write t sc tenant i v vs (tb_before env c3) = (tb_rows c4, ks, Ok n)"
      "n \<noteq> 0" and logged: "(tb_before env c3, tb_rows c4) \<in> set (tb_log c4)" "onward env unchanged c4 c2"
    by (auto simp: lands_def)
  let ?a = "tb_before env c3"
  have "rows_evolve (tb_rows c1) ?a"
    by (rule onward_stable(2) [OF c3 relies_versions [OF assms(1)]]) simp
  with wf1 row(1) obtain row' where wf: "rows_wf ?a" and row': "row' \<in> set ?a" "row_evolves row row'"
    unfolding rows_evolve_def by blast
  have range: "1 \<le> tr_version row" "tr_version row \<le> max_int64"
    using wf1 row(1) by (auto simp: rows_wf_def)
  then have v: "v \<noteq> 0" "sint v = tr_version row"
    unfolding row(5) using version_word [of "tr_version row"] by simp_all
  let ?p = "\<lambda>r. tr_pk r = (tenant, i) \<and> tr_version r = sint v \<and> guard_matches t sc vs r"
  let ?new = "\<lparr>tr_tenant = tenant, tr_id = i, tr_version = tr_version row + 1, tr_values = store_values t sc vs\<rparr>"
  have b: "tb_rows c4 = map (\<lambda>r. if ?p r then ?new else r) ?a" and some: "filter ?p ?a \<noteq> []"
    using wrote v by (auto simp: tb_write_def tb_update_def Let_def split: if_splits option.splits)
  obtain r0 where r0: "r0 \<in> set ?a" "?p r0"
    using some by (auto simp: filter_empty_conv)
  have "distinct (map tr_pk ?a)"
    using wf by (simp add: rows_wf_def)
  then have unique: "r = r'" if "r \<in> set ?a" "r' \<in> set ?a" "tr_pk r = tr_pk r'" for r r'
    using that by (auto simp: distinct_map dest: inj_onD)
  have "r0 = row'"
    using unique [OF r0(1) row'(1)] r0(2) row'(2) row(2) by (simp add: row_evolves_def)
  with r0(2) row'(2) v have same: "row' = row"
    by (auto simp: row_evolves_def)
  have "?p r \<longleftrightarrow> r = row" if "r \<in> set ?a" for r
    using unique [OF that row'(1)] r0(2) \<open>r0 = row'\<close> same row(2) by auto
  then have "tb_rows c4 = map (\<lambda>r. if r = row then ?new else r) ?a"
    unfolding b by (intro map_cong) auto
  with logged(1) onward_log [OF logged(2)] have "(?a, map (\<lambda>r. if r = row then ?new else r) ?a) \<in> set (tb_log c2)"
    by auto
  with tenant row row'(1) same save(1) show ?thesis
    by blast
qed

lemma goes_rl_answer: "goes env S (rl_answer env rl sc tenant v out)"
  using goesD [OF goes_exec [of "owner_of sc tenant (rl_holds rl sc v)" env S]]
  by (auto simp: goes_def rl_answer_def rl_miss_def pg_return_def split: prod.splits if_splits)

lemma rl_answer_Ok: "rl_answer env rl sc tenant v out c = (c', Ok out') \<Longrightarrow> out' = out"
  by (auto simp: rl_answer_def rl_miss_def pg_return_def split: if_splits prod.splits res.splits)

lemma rl_select_series:
  assumes "guarded_table t sc" "Table_Relation t (pt_Guard t) = Ok rl"
  shows "rl_select rl sc tenant (SqlText g) rows = (rows, [], Ok (series t tenant g rows))" "rl_table rl = t"
  using assms by (auto simp: Table_Relation_def rl_select_def rl_holds_def series_def guarded_table_def split: if_splits intro!: filter_cong)

lemma QueryWithin_Ok:
  assumes env: "tb_relies t env" and t: "guarded_table t sc" "Table_Relation t (pt_Guard t) = Ok rl"
    and run: "Relation_QueryWithin env rl sc ctx (SqlText g) c = (c', Ok out)"
  obtains tenant S where "pg_tenantOf ctx = Ok tenant" "GuardShared tenant g \<in> tb_locks c'" "rl_decode t S = Ok out"
    "series t tenant g (tb_rows c') = S" "onward env unchanged c c'"
proof -
  obtain tenant where tenant: "pg_tenantOf ctx = Ok tenant" "guardedRead env rl sc tenant g (c\<lparr>tc_guarded := True\<rparr>) = (c', Ok out)"
    using run by (cases "pg_tenantOf ctx") (auto simp: Relation_QueryWithin_def pg_return_def guardText_def pg_bind_def split: if_splits)
  from tenant(2) obtain c1 c2 rows where c1: "tb_exec env (tb_lock_guard (GuardShared tenant g)) (c\<lparr>tc_guarded := True\<rparr>) = (c1, Ok ())"
    and c2: "tb_exec env (rl_select rl sc tenant (SqlText g)) c1 = (c2, Ok rows)"
    and rest: "pg_bind (pg_return (rl_decode t rows)) (\<lambda>out. pg_bind (tb_wrap (saying ''postgres: query'') (tb_exec env tb_nothing)) (\<lambda>_.
       rl_answer env rl sc tenant (SqlText g) out)) c2 = (c', Ok out)"
    unfolding guardedRead_def rl_select_series(2) [OF t] by (auto elim!: pg_bind_cases)
  have on01: "onward env unchanged c c1"
    by (rule onward_trans [OF onward_same goesD [OF goes_exec c1]]) simp_all
  have on12: "onward env unchanged c1 c2"
    by (rule goesD [OF goes_exec c2]) simp
  have "goes env unchanged (pg_bind (pg_return (rl_decode t rows)) (\<lambda>out. pg_bind (tb_wrap (saying ''postgres: query'') (tb_exec env tb_nothing))
      (\<lambda>_. rl_answer env rl sc tenant (SqlText g) out)))"
    by (intro goes_bind goes_return goes_wrap goes_exec goes_rl_answer) simp_all
  from goesD [OF this rest] have on2: "onward env unchanged c2 c'" .
  have held: "GuardShared tenant g \<in> tb_locks c1"
    by (rule lock_held [OF c1])
  then have held2: "GuardShared tenant g \<in> tb_locks c2" "GuardShared tenant g \<in> tb_locks c'"
    using on12 on2 by (auto simp: onward_def)
  obtain cn where cn: "pg_exec env (rl_select rl sc tenant (SqlText g)) (tc_conn c1) = (cn, Ok rows)" "tc_conn c2 = cn"
    using c2 by (auto elim: tb_exec_cases)
  then have "series t tenant g (tb_rows c2) = rows"
    by (auto simp: rl_select_series [OF t] elim!: pg_exec_split)
  from onward_stable(1) [OF on2 relies_series [OF env held2(1)] this] have "series t tenant g (tb_rows c') = rows" .
  moreover from rest have "rl_decode t rows = Ok out"
    by (auto simp: pg_return_def elim!: pg_bind_cases dest: rl_answer_Ok)
  moreover have "onward env unchanged c c'"
    by (rule onward_trans [OF onward_trans [OF on01 on12] on2]) simp_all
  ultimately show thesis
    using that tenant(1) held2(2) by blast
qed

text \<open>
  C10. A decision over a series is current. Under the same assumption on the others, which now also respects the lock of the
  series: when a \<open>QueryWithin\<close> answered the rows of a series and a later \<open>Save\<close> of the transaction succeeds, the
  statement that wrote ran on a table whose series still held exactly the rows that were read, none changed, none
  added; and it changed the series only under its exclusive lock.
\<close>

theorem guarded_decision_is_current:
  assumes "tb_relies t env" and "guarded_table t sc" and "Table_Relation t (pt_Guard t) = Ok rl"
    and "Relation_QueryWithin env rl sc ctx (SqlText g) c = (c1, Ok out)"
    and "tb_Save env t sc ctx i state v c1 = (c2, Ok ())"
  shows "\<exists>tenant vs a b ks n. pg_tenantOf ctx = Ok tenant \<and> encodes t state vs \<and> (a, b) \<in> set (tb_log c2) \<and>
    tb_write t sc tenant i v vs a = (b, ks, Ok n) \<and> n \<noteq> 0 \<and> rl_decode t (series t tenant g a) = Ok out \<and>
    (series t tenant g b \<noteq> series t tenant g a \<longrightarrow> GuardExclusive tenant g \<in> tb_locks c2)"
proof -
  obtain tenant S where tenant: "pg_tenantOf ctx = Ok tenant" and got: "GuardShared tenant g \<in> tb_locks c1"
    "rl_decode t S = Ok out" "series t tenant g (tb_rows c1) = S"
    by (rule QueryWithin_Ok [OF assms(1-4)])
  from assms(5) obtain vs lock where save: "encodes t state vs" "series_lock t tenant vs lock"
      "lands env (tb_write t sc tenant i v vs) (set_option lock) c1 c2 (Ok ())"
    using tenant by (auto elim: Save_Ok_lands)
  then obtain c3 c4 ks n where c3: "onward env unchanged c1 c3" "set_option lock \<subseteq> tb_locks c4"
      and wrote: "tb_write t sc tenant i v vs (tb_before env c3) = (tb_rows c4, ks, Ok n)" "n \<noteq> 0"
      and logged: "(tb_before env c3, tb_rows c4) \<in> set (tb_log c4)" "onward env unchanged c4 c2"
    by (auto simp: lands_def)
  have "series t tenant g (tb_before env c3) = S"
    by (rule onward_stable(2) [OF c3(1) relies_series [OF assms(1) got(1)] got(3)])
  moreover have "GuardExclusive tenant g \<in> tb_locks c2" if "series t tenant g (tb_rows c4) \<noteq> series t tenant g (tb_before env c3)"
  proof -
    obtain g' where g': "vs ! nat (guardIndex t) = SqlText g'" "lock = Some (GuardExclusive tenant g')"
      using save(2) assms(2) by (auto simp: series_lock_def guarded_table_def)
    have "length vs = length (pt_Columns t)"
      using save(1) by (simp add: encodes_def)
    from tb_write_series [OF assms(2) this g'(1) wrote(1), of tenant g] that have "g' = g"
      by auto
    with c3(2) g'(2) logged(2) show ?thesis
      by (auto simp: onward_def)
  qed
  moreover have "(tb_before env c3, tb_rows c4) \<in> set (tb_log c2)"
    using logged(1) onward_log [OF logged(2)] by blast
  ultimately show ?thesis
    using tenant save(1) wrote got(2) by blast
qed

section \<open>A table of bookings\<close>

text \<open>The example: bookings of one resource form a series, and an item is booked once per tenant.\<close>

definition sample_bookings :: "(string \<times> string) pgTable" where
  "sample_bookings = \<lparr>pt_Name = ''bookings'', pt_IDColumn = ''booking_id'', pt_Columns = [''resource'', ''item''],
     pt_Encode = Some (\<lambda>(resource, item). Ok [SqlText resource, SqlText item]),
     pt_Decode = Some (\<lambda>scan. res_bind scan (\<lambda>vs.
       case vs of [SqlText resource, SqlText item] \<Rightarrow> Ok (resource, item) | _ \<Rightarrow> Err (Wrapped ''scan'' []))),
     pt_WithID = None,
     pt_Unique = [\<lparr>pu_Name = ''bookings_tenant_id_item_key'', pu_Columns = [''tenant_id'', ''item''],
       pu_Rejection = Some (Reject ''bookings/taken'' ''taken'' [])\<rparr>],
     pt_Guard = ''resource''\<rparr>"

definition sample_schema :: tb_schema where
  "sample_schema = \<lparr>sc_constraints = [(''bookings_tenant_id_item_key'', [''tenant_id'', ''item''])], sc_store = (\<lambda>_ v. v),
     sc_collate = (\<lambda>x. x)\<rparr>"

definition booking_rows :: tb_table where
  "booking_rows = [\<lparr>tr_tenant = ''t-1'', tr_id = ''b-1'', tr_version = 1, tr_values = [SqlText ''room'', SqlText ''i-1'']\<rparr>]"

abbreviation sample_tb_conn :: tb_conn where
  "sample_tb_conn \<equiv> tb_opened (savepointPlanOf CacheStatement) booking_rows"

lemma sample_bookings_guarded: "guarded_table sample_bookings sample_schema"
proof -
  have "pgTable_validate sample_bookings = Ok ()"
    by code_simp
  then show ?thesis
    by (simp add: guarded_table_def sample_bookings_def sample_schema_def)
qed

lemma sample_bookings_relation: "\<exists>rl. Table_Relation sample_bookings (pt_Guard sample_bookings) = Ok rl"
proof -
  have "pgTable_validate sample_bookings = Ok ()" "isIdentifier (pt_Guard sample_bookings)"
    by code_simp+
  then show ?thesis
    by (simp add: Table_Relation_def)
qed

lemma sample_bookings_decode: "tb_decode sample_bookings (Err e) = Err e"
  by (simp add: tb_decode_def sample_bookings_def)

lemma pg_quiet_relies: "tb_relies t pg_quiet"
  by (simp add: tb_relies_def pg_quiet_def)

lemma sample_tenant: "pg_tenantOf sample_context = Ok ''t-1''"
  by (simp add: pg_tenantOf_def sample_context_def RequireExecutionContext_def ExecutionContextFrom_def ec_Tenant_def)

lemma sample_guarantees: "tb_guarantees t sample_tb_conn"
  by (simp add: tb_guarantees_def tb_opened_def pg_opened_def)

theorem save_guarantees_what_others_rely_on_witness:
  "tb_guarantees sample_bookings (fst (tb_Save pg_quiet sample_bookings sample_schema sample_context ''b-2'' (''room'', ''i-2'') 0 sample_tb_conn))"
proof -
  obtain c r where run: "tb_Save pg_quiet sample_bookings sample_schema sample_context ''b-2'' (''room'', ''i-2'') 0 sample_tb_conn = (c, r)"
    by fastforce
  from save_guarantees_what_others_rely_on [OF sample_bookings_guarded sample_guarantees run sample_tenant, of "''t-2''"] run show ?thesis
    by simp
qed

theorem optimistic_decision_is_current_witness:
  "\<exists>c1 c2 row a b. tb_Load pg_quiet sample_bookings sample_schema sample_context ''b-1'' sample_tb_conn = (c1, Ok ((''room'', ''i-1''), 1)) \<and>
     tb_Save pg_quiet sample_bookings sample_schema sample_context ''b-1'' (''room'', ''i-9'') 1 c1 = (c2, Ok ()) \<and>
     (a, b) \<in> set (tb_log c2) \<and> row \<in> set a"
proof -
  let ?load = "tb_Load pg_quiet sample_bookings sample_schema sample_context ''b-1'' sample_tb_conn"
  let ?save = "\<lambda>c. tb_Save pg_quiet sample_bookings sample_schema sample_context ''b-1'' (''room'', ''i-9'') 1 c"
  have l: "snd ?load = Ok ((''room'', ''i-1''), 1)"
    by code_simp
  have s: "snd (?save (fst ?load)) = Ok ()"
    by code_simp
  have wf: "rows_wf (tb_rows sample_tb_conn)"
    by (simp add: rows_wf_def tb_opened_def pg_opened_def booking_rows_def max_int64_def)
  have load: "?load = (fst ?load, Ok ((''room'', ''i-1''), 1))" and save: "?save (fst ?load) = (fst (?save (fst ?load)), Ok ())"
    using l s by (simp_all add: prod_eq_iff)
  from optimistic_decision_is_current [OF pg_quiet_relies wf sample_bookings_decode load save] load save show ?thesis
    by blast
qed

theorem guarded_decision_is_current_witness:
  "\<exists>rl c1 c2 a b. Relation_QueryWithin pg_quiet rl sample_schema sample_context (SqlText ''room'') sample_tb_conn = (c1, Ok [(''room'', ''i-1'')]) \<and>
     tb_Save pg_quiet sample_bookings sample_schema sample_context ''b-2'' (''room'', ''i-2'') 0 c1 = (c2, Ok ()) \<and>
     (a, b) \<in> set (tb_log c2) \<and> rl_decode sample_bookings (series sample_bookings ''t-1'' ''room'' a) = Ok [(''room'', ''i-1'')]"
proof -
  let ?rl = "\<lparr>rl_table = sample_bookings, rl_filter = pt_Guard sample_bookings, rl_lock = gs_shared (compileGuard sample_bookings)\<rparr>"
  let ?read = "Relation_QueryWithin pg_quiet ?rl sample_schema sample_context (SqlText ''room'') sample_tb_conn"
  let ?save = "\<lambda>c. tb_Save pg_quiet sample_bookings sample_schema sample_context ''b-2'' (''room'', ''i-2'') 0 c"
  have rl: "Table_Relation sample_bookings (pt_Guard sample_bookings) = Ok ?rl"
    using sample_bookings_relation sample_bookings_guarded by (auto simp: Table_Relation_def guarded_table_def split: if_splits)
  have r: "snd ?read = Ok [(''room'', ''i-1'')]"
    by code_simp
  have s: "snd (?save (fst ?read)) = Ok ()"
    by code_simp
  have read: "?read = (fst ?read, Ok [(''room'', ''i-1'')])" and save: "?save (fst ?read) = (fst (?save (fst ?read)), Ok ())"
    using r s by (simp_all add: prod_eq_iff)
  from guarded_decision_is_current [OF pg_quiet_relies sample_bookings_guarded rl read save] sample_tenant read save show ?thesis
    by fastforce
qed

end
