(* ===== verification/Table_Contract.thy ===== *)
theory Table_Contract
  imports Table_Races
begin

text \<open>
  The repository of a PostgreSQL table keeps the contract of the in-memory one. Alone in its transaction a save
  implements the same map of versioned rows, \<open>spec_save\<close> of \<open>Memory_Store\<close>, over the stored values of a row; and
  the locale \<open>repository\<close> is interpreted a second time, on the SQL provider.
\<close>

section \<open>A transaction without others\<close>

text \<open>Nothing was written, and the transaction is still open.\<close>

definition same_tx :: "tb_conn \<Rightarrow> tb_conn \<Rightarrow> bool" where
  "same_tx c c' \<longleftrightarrow> tb_rows c' = tb_rows c \<and> tc_aborted c' = tc_aborted c \<and> tc_writes c' = tc_writes c \<and>
     tc_guarded c' = tc_guarded c"

lemma same_tx_refl [simp]: "same_tx c c"
  by (simp add: same_tx_def)

lemma same_tx_trans: "same_tx c c1 \<Longrightarrow> same_tx c1 c2 \<Longrightarrow> same_tx c c2"
  by (simp add: same_tx_def)

lemma tb_exec_quiet:
  assumes "\<not> tc_aborted c" "statement (tb_rows c) = (b, ks, r)"
  obtains c' where "tb_exec pg_quiet statement c = (c', r)" "tb_rows c' = b" "tc_writes c' = tc_writes c"
    "tc_guarded c' = tc_guarded c" "tc_aborted c' = (case r of Err e \<Rightarrow> is_PgError e | _ \<Rightarrow> False)"
  using assms by (simp add: tb_exec_def)

lemma tb_look_quiet:
  assumes "\<not> tc_aborted c" "statement (tb_rows c) = (tb_rows c, ks, Ok x)"
  obtains c' where "tb_exec pg_quiet statement c = (c', Ok x)" "same_tx c c'"
  using tb_exec_quiet [of c statement "tb_rows c" ks "Ok x"] assms by (auto simp: same_tx_def)

lemma tb_nothing_quiet:
  assumes "\<not> tc_aborted c"
  obtains c' where "tb_exec pg_quiet tb_nothing c = (c', Ok ())" "same_tx c c'"
  using tb_look_quiet [of c tb_nothing "[]" "()"] assms by (auto simp: tb_nothing_def)

lemma tb_lock_quiet:
  assumes "\<not> tc_aborted c"
  obtains c' where "tb_exec pg_quiet (tb_lock_guard l) c = (c', Ok ())" "same_tx c c'"
  using tb_look_quiet [of c "tb_lock_guard l" "[l]" "()"] assms by (auto simp: tb_lock_guard_def)

lemma tb_wrap_of_Ok: "m c = (c', Ok x) \<Longrightarrow> tb_wrap f m c = (c', Ok x)"
  by simp

lemma prepare_quiet: "\<not> tc_aborted c \<Longrightarrow> \<exists>c'. prepare_all pg_quiet n c = (c', Ok ()) \<and> same_tx c c'"
proof (induction n arbitrary: c)
  case (Suc n)
  obtain c1 where c1: "tb_exec pg_quiet tb_nothing c = (c1, Ok ())" "same_tx c c1"
    using tb_nothing_quiet [OF Suc.prems] .
  with Suc.prems Suc.IH [of c1] obtain c2 where "prepare_all pg_quiet n c1 = (c2, Ok ())" "same_tx c1 c2"
    by (auto simp: same_tx_def)
  with c1 show ?case
    by (auto intro: same_tx_trans)
qed (simp add: pg_return_def)

lemma pin_quiet:
  assumes "\<not> tc_aborted c"
  obtains c' where "plan_pin pg_quiet text lock c = (c', Ok ())" "same_tx c c'"
proof (cases "sp_pins (tc_plan c)")
  case True
  obtain c1 where "prepare_all pg_quiet (length ([text, openSavepoint, releaseSavepoint] @ (case lock of None \<Rightarrow> [] | Some l \<Rightarrow> [l]))) c = (c1, Ok ())"
    "same_tx c c1"
    using prepare_quiet [OF assms] by blast
  then show thesis
    by (intro that [of "c1\<lparr>tc_plan := (tc_plan c1)\<lparr>sp_pinned := text # sp_pinned (tc_plan c1)\<rparr>\<rparr>"])
      (use True in \<open>simp_all add: plan_pin_def Let_def same_tx_def del: prepare_all.simps\<close>)
next
  case False
  then show thesis
    by (intro that [of c]) (simp_all add: plan_pin_def)
qed

lemma saveUnderSavepoint_quiet:
  assumes "\<not> tc_aborted c"
  obtains c1 where "saveUnderSavepoint pg_quiet t tenant i lock text statement creating c =
    savepoint_write pg_quiet t tenant i statement creating c1" "same_tx c c1"
proof -
  have locking: "\<exists>c1. (case lock of None \<Rightarrow> pg_return (Ok ()) | Some l \<Rightarrow> tb_wrap err (tb_exec pg_quiet (tb_lock_guard l))) c = (c1, Ok ()) \<and> same_tx c c1" for err
  proof (cases lock)
    case (Some l)
    obtain c1 where "tb_exec pg_quiet (tb_lock_guard l) c = (c1, Ok ())" "same_tx c c1"
      using tb_lock_quiet [OF assms] .
    with Some show ?thesis by auto
  qed (simp add: pg_return_def)
  show thesis
  proof (cases "plan_inline (tc_plan c) text")
    case True
    obtain c1 where c1: "(case lock of None \<Rightarrow> pg_return (Ok ()) | Some l \<Rightarrow> tb_wrap (lock_error t unopened) (tb_exec pg_quiet (tb_lock_guard l))) c = (c1, Ok ())"
      "same_tx c c1"
      using locking by blast
    with assms obtain c2 where "tb_exec pg_quiet tb_nothing c1 = (c2, Ok ())" "same_tx c1 c2"
      by (auto simp: same_tx_def intro: tb_nothing_quiet [of c1])
    with c1 True show thesis
      by (intro that [of c2]) (auto simp: saveUnderSavepoint_def Let_def tb_wrap_of_Ok intro: same_tx_trans)
  next
    case False
    obtain c1 where c1: "(case lock of None \<Rightarrow> pg_return (Ok ()) | Some l \<Rightarrow> tb_wrap (saying ''postgres: save: guard'') (tb_exec pg_quiet (tb_lock_guard l))) c = (c1, Ok ())"
      "same_tx c c1"
      using locking by blast
    with assms obtain c2 where c2: "tb_exec pg_quiet tb_nothing c1 = (c2, Ok ())" "same_tx c1 c2"
      by (auto simp: same_tx_def intro: tb_nothing_quiet [of c1])
    have "\<not> tc_aborted c2"
      using assms c1(2) c2(2) by (simp add: same_tx_def)
    then obtain c3 where "plan_pin pg_quiet text (map_option (\<lambda>_. gs_exclusive (compileGuard t)) lock) c2 = (c3, Ok ())" "same_tx c2 c3"
      by (rule pin_quiet)
    with c1 c2 False show thesis
      by (intro that [of c3]) (auto simp: saveUnderSavepoint_def Let_def tb_wrap_of_Ok intro: same_tx_trans)
  qed
qed

text \<open>A refused write under a savepoint: the undo leaves the transaction open, and the violation is translated.\<close>

definition refusal :: "'s pgTable \<Rightarrow> bool \<Rightarrow> string \<Rightarrow> gerr" where
  "refusal t fresh constraint =
     Wrapped ''postgres: save'' [UniqueViolation (pt_Name t) constraint
       (case declared_unique t constraint of None \<Rightarrow> None | Some u \<Rightarrow> if fresh then pu_Rejection u else None), unique_error t constraint]"

lemma unbatched_PgError [simp]: "unbatched (PgError code table constraint) = PgError code table constraint"
  by (simp add: unbatched_def errors_As_def List.map_filter_simps)

lemma is_PgError_PgError [simp]: "is_PgError (PgError code table constraint)"
  by (simp add: is_PgError_def errors_As_def List.map_filter_simps)

lemma as_PgError_head [simp]: "errors_As as_PgError (PgError code table constraint) = Some (code, table, constraint)"
  by (simp add: errors_As_def List.map_filter_simps)

lemma savepoint_write_unique:
  assumes "\<not> tc_aborted c" "statement (tb_rows c) = (tb_rows c, ks, Err (unique_error t constraint))"
    and "creating \<Longrightarrow> \<forall>r \<in> set (tb_rows c). tr_pk r \<noteq> (tenant, i)"
  obtains c' where "savepoint_write pg_quiet t tenant i statement creating c = (c', Err (refusal t (tc_writes c = 0) constraint))"
    "same_tx c c'"
proof -
  obtain c1 where c1: "tb_exec pg_quiet statement c = (c1, Err (unique_error t constraint))" "tb_rows c1 = tb_rows c"
    "tc_writes c1 = tc_writes c" "tc_guarded c1 = tc_guarded c"
    using tb_exec_quiet [where statement = statement, OF assms(1,2)] by blast
  obtain c2 where c2: "tb_rollback pg_quiet c1 = (c2, Ok ())" "tb_rows c2 = tb_rows c" "\<not> tc_aborted c2"
    "tc_writes c2 = tc_writes c" "tc_guarded c2 = tc_guarded c"
    using c1 by (simp add: tb_rollback_def tb_nothing_def)
  have same: "same_tx c c2"
    using assms(1) c2 by (simp add: same_tx_def)
  show thesis
  proof (cases "declared_unique t constraint")
    case None
    with c1 c2 same show thesis
      by (intro that [of c2]) (simp_all add: savepoint_write_def tb_undo_def translate_def refusal_def unique_error_def)
  next
    case (Some u)
    show thesis
    proof (cases creating)
      case True
      have "tb_exists tenant i (tb_rows c2) = (tb_rows c2, [], Ok False)"
        using assms(3) [OF True] c2(2) by (auto simp: tb_exists_def)
      then obtain c3 where c3: "tb_exec pg_quiet (tb_exists tenant i) c2 = (c3, Ok False)" "same_tx c2 c3"
        using tb_look_quiet [OF c2(3)] by metis
      with True Some c1 c2 same show thesis
        by (intro that [of c3]) (auto simp: savepoint_write_def tb_undo_def translate_def refusal_def unique_error_def
            identityTaken_def same_tx_def)
    next
      case False
      with Some c1 c2 same show thesis
        by (intro that [of c2]) (simp_all add: savepoint_write_def tb_undo_def translate_def refusal_def unique_error_def)
    qed
  qed
qed

text \<open>A write the server accepts, whether it found its row or not.\<close>

definition settled :: "nat \<Rightarrow> unit result" where
  "settled n = (if n = 0 then Fail ErrVersionConflict else Ok ())"

definition after_write :: "tb_conn \<Rightarrow> tb_table \<Rightarrow> nat \<Rightarrow> tb_conn \<Rightarrow> bool" where
  "after_write c b n c' \<longleftrightarrow> tb_rows c' = b \<and> \<not> tc_aborted c' \<and>
     tc_writes c' = (if n = 0 then tc_writes c else tc_writes c + 1)"

lemma settle_quiet: "\<not> tc_aborted c \<Longrightarrow> \<exists>c'. tb_settle n c = (c', settled n) \<and> after_write c (tb_rows c) n c'"
  by (auto simp: tb_settle_def settled_def after_write_def)

lemma close_settle_quiet:
  assumes "\<not> tc_aborted c"
  obtains c' where "pg_bind (tb_close pg_quiet) (\<lambda>_. tb_settle n) c = (c', settled n)" "after_write c (tb_rows c) n c'"
proof -
  obtain c1 where c1: "tb_exec pg_quiet tb_nothing c = (c1, Ok ())" "same_tx c c1"
    using tb_nothing_quiet [OF assms] .
  with assms obtain c2 where "tb_settle n c1 = (c2, settled n)" "after_write c1 (tb_rows c1) n c2"
    using settle_quiet [of c1 n] by (auto simp: same_tx_def)
  with c1 show thesis
    by (intro that [of c2]) (auto simp: tb_close_def tb_wrap_of_Ok same_tx_def after_write_def)
qed

lemma savepoint_write_accepted:
  assumes "\<not> tc_aborted c" "statement (tb_rows c) = (b, ks, Ok n)"
  obtains c' where "savepoint_write pg_quiet t tenant i statement creating c = (c', settled n)" "after_write c b n c'"
proof -
  obtain c1 where c1: "tb_exec pg_quiet statement c = (c1, Ok n)" "tb_rows c1 = b" "tc_writes c1 = tc_writes c" "\<not> tc_aborted c1"
    using tb_exec_quiet [where statement = statement, OF assms] by auto
  obtain c2 where c2: "tb_exec pg_quiet tb_nothing c1 = (c2, Ok ())" "same_tx c1 c2"
    using tb_nothing_quiet [OF c1(4)] .
  have "\<not> tc_aborted c2"
    using c1(4) c2(2) by (simp add: same_tx_def)
  then obtain c3 where "pg_bind (tb_close pg_quiet) (\<lambda>_. tb_settle n) c2 = (c3, settled n)" "after_write c2 (tb_rows c2) n c3"
    by (rule close_settle_quiet)
  with c1 c2 show thesis
    by (intro that [of c3]) (auto simp: savepoint_write_def tb_wrap_of_Ok same_tx_def after_write_def)
qed

lemma tb_guard_quiet:
  assumes "series_lock t tenant vs lock"
  obtains c0 where "tb_guard t tenant vs c = (c0, Ok lock)" "tb_rows c0 = tb_rows c" "tc_aborted c0 = tc_aborted c"
    "tc_writes c0 = tc_writes c"
  using assms
  by (cases "pt_Guard t = []") (auto simp: series_lock_def tb_guard_def guardText_def)

lemma saveAs_guarded:
  assumes "encodes t state vs" "tb_guard t tenant vs c = (c0, Ok lock)"
  shows "tb_saveAs env t sc tenant i state v c =
    (if pt_Unique t \<noteq> [] then on_deadlock (saveUnderSavepoint env t tenant i lock (write_text t v) (tb_write t sc tenant i v vs) (v = 0)) c0
     else case lock of
       Some l \<Rightarrow> on_deadlock (saveGuarded env t l (tb_write t sc tenant i v vs)) c0
     | None \<Rightarrow> pg_bind (on_deadlock (tb_wrap (saying ''postgres: save'') (tb_exec env (tb_write t sc tenant i v vs)))) tb_settle c0)"
proof -
  have "tb_wrap (saying ''postgres: save'') (tb_guard t tenant vs) c = (c0, Ok lock)"
    using assms(2) by simp
  with assms(1) show ?thesis
    by (auto simp: encodes_def tb_saveAs_def split: option.split)
qed

lemma conflict_settled [simp]: "res_map_err (conflictOnDeadlock g) (settled n) = settled n"
  by (simp add: settled_def conflictOnDeadlock_def errors_As_def List.map_filter_simps)

lemma saveGuarded_accepted:
  assumes "\<not> tc_aborted c" "statement (tb_rows c) = (b, ks, Ok n)"
  obtains c' where "saveGuarded pg_quiet t l statement c = (c', settled n)" "after_write c b n c'"
proof -
  obtain c1 where c1: "tb_exec pg_quiet (tb_lock_guard l) c = (c1, Ok ())" "same_tx c c1"
    using tb_lock_quiet [OF assms(1)] .
  have live: "\<not> tc_aborted c1" and run: "statement (tb_rows c1) = (b, ks, Ok n)"
    using assms c1(2) by (simp_all add: same_tx_def)
  obtain c2 where c2: "tb_exec pg_quiet statement c1 = (c2, Ok n)" "tb_rows c2 = b" "tc_writes c2 = tc_writes c1" "\<not> tc_aborted c2"
    using tb_exec_quiet [where statement = statement, OF live run] by auto
  obtain c3 where "pg_bind (tb_close pg_quiet) (\<lambda>_. tb_settle n) c2 = (c3, settled n)" "after_write c2 (tb_rows c2) n c3"
    using close_settle_quiet [OF c2(4)] .
  with c1 c2 show thesis
    by (intro that [of c3]) (auto simp: saveGuarded_def tb_wrap_of_Ok same_tx_def after_write_def)
qed

lemma Save_accepted:
  assumes "\<not> tc_aborted c" "pg_tenantOf ctx = Ok tenant" "encodes t state vs" "series_lock t tenant vs lock"
    and "tb_write t sc tenant i v vs (tb_rows c) = (b, ks, Ok n)"
  obtains c' where "tb_Save pg_quiet t sc ctx i state v c = (c', settled n)" "after_write c b n c'"
proof -
  let ?st = "tb_write t sc tenant i v vs"
  obtain c0 where c0: "tb_guard t tenant vs c = (c0, Ok lock)" "tb_rows c0 = tb_rows c" "tc_aborted c0 = tc_aborted c"
      "tc_writes c0 = tc_writes c"
    using tb_guard_quiet [OF assms(4)] .
  then have live: "\<not> tc_aborted c0" and run: "?st (tb_rows c0) = (b, ks, Ok n)"
    using assms(1,5) by simp_all
  have "\<exists>c'. tb_saveAs pg_quiet t sc tenant i state v c = (c', settled n) \<and> after_write c0 b n c'"
  proof (cases "pt_Unique t \<noteq> []")
    case True
    obtain c1 where c1: "saveUnderSavepoint pg_quiet t tenant i lock (write_text t v) ?st (v = 0) c0 =
        savepoint_write pg_quiet t tenant i ?st (v = 0) c1" "same_tx c0 c1"
      using saveUnderSavepoint_quiet [OF live] .
    with live run have "\<not> tc_aborted c1" "?st (tb_rows c1) = (b, ks, Ok n)"
      by (simp_all add: same_tx_def)
    then obtain c2 where "savepoint_write pg_quiet t tenant i ?st (v = 0) c1 = (c2, settled n)" "after_write c1 b n c2"
      by (rule savepoint_write_accepted)
    with c1 True show ?thesis
      by (auto simp: saveAs_guarded [OF assms(3) c0(1)] on_deadlock_def after_write_def same_tx_def)
  next
    case unique: False
    show ?thesis
    proof (cases lock)
      case (Some l)
      obtain c2 where "saveGuarded pg_quiet t l ?st c0 = (c2, settled n)" "after_write c0 b n c2"
        using saveGuarded_accepted [where statement = ?st, OF live run] .
      with Some unique show ?thesis
        by (auto simp: saveAs_guarded [OF assms(3) c0(1)] on_deadlock_def)
    next
      case None
      obtain c2 where c2: "tb_exec pg_quiet ?st c0 = (c2, Ok n)" "tb_rows c2 = b" "tc_writes c2 = tc_writes c0" "\<not> tc_aborted c2"
        using tb_exec_quiet [where statement = ?st, OF live run] by auto
      with settle_quiet [of c2 n] None unique show ?thesis
        by (auto simp: saveAs_guarded [OF assms(3) c0(1)] on_deadlock_def after_write_def tb_wrap_of_Ok)
    qed
  qed
  with assms(2) c0 that show thesis
    by (auto simp: tb_Save_def pg_return_def after_write_def)
qed

lemma conflict_refusal [simp]: "conflictOnDeadlock g (refusal t fresh constraint) = refusal t fresh constraint"
  by (simp add: conflictOnDeadlock_def refusal_def unique_error_def errors_As_def List.map_filter_simps
      uniqueViolation_def deadlockDetected_def)

lemma Save_refused:
  assumes "\<not> tc_aborted c" "pg_tenantOf ctx = Ok tenant" "encodes t state vs" "series_lock t tenant vs lock" "pt_Unique t \<noteq> []"
    and "tb_write t sc tenant i v vs (tb_rows c) = (tb_rows c, ks, Err (unique_error t constraint))"
  obtains c' where "tb_Save pg_quiet t sc ctx i state v c = (c', Err (refusal t (tc_writes c = 0) constraint))"
    "tb_rows c' = tb_rows c" "\<not> tc_aborted c'" "tc_writes c' = tc_writes c"
proof -
  let ?st = "tb_write t sc tenant i v vs"
  obtain c0 where c0: "tb_guard t tenant vs c = (c0, Ok lock)" "tb_rows c0 = tb_rows c" "tc_aborted c0 = tc_aborted c"
      "tc_writes c0 = tc_writes c"
    using tb_guard_quiet [OF assms(4)] .
  have live: "\<not> tc_aborted c0"
    using c0(3) assms(1) by simp
  obtain c1 where c1: "saveUnderSavepoint pg_quiet t tenant i lock (write_text t v) ?st (v = 0) c0 =
      savepoint_write pg_quiet t tenant i ?st (v = 0) c1" "same_tx c0 c1"
    using saveUnderSavepoint_quiet [OF live] .
  have live1: "\<not> tc_aborted c1" and run: "?st (tb_rows c1) = (tb_rows c1, ks, Err (unique_error t constraint))"
    and same: "tc_writes c1 = tc_writes c"
    using live c0 c1(2) assms(6) by (simp_all add: same_tx_def)
  have "\<forall>r \<in> set (tb_rows c1). tr_pk r \<noteq> (tenant, i)" if "v = 0"
    using run that by (auto simp: tb_write_def tb_insert_def Let_def split: if_splits)
  from savepoint_write_unique [where statement = ?st, OF live1 run this]
  obtain c2 where "savepoint_write pg_quiet t tenant i ?st (v = 0) c1 = (c2, Err (refusal t (tc_writes c = 0) constraint))" "same_tx c1 c2"
    unfolding same by blast
  with assms(2,5) c0 c1 live show thesis
    by (intro that [of c2])
      (auto simp: tb_Save_def pg_return_def saveAs_guarded [OF assms(3) c0(1)] on_deadlock_def same_tx_def)
qed

section \<open>The repository contract\<close>

text \<open>
  The codec of a table: every state is encoded, one value per column and a text in the guard's, and what the schema
  stores is decoded again; the error of a scan is the error of \<open>Decode\<close>.
\<close>

definition sound_codec :: "'s pgTable \<Rightarrow> tb_schema \<Rightarrow> bool" where
  "sound_codec t sc \<longleftrightarrow> (\<forall>e. tb_decode t (Err e) = Err e) \<and>
     (\<forall>s tenant. \<exists>vs lock d. encodes t s vs \<and> series_lock t tenant vs lock \<and> tb_decode t (Ok (store_values t sc vs)) = Ok d)"

definition readable :: "'s pgTable \<Rightarrow> tb_table \<Rightarrow> bool" where
  "readable t rows \<longleftrightarrow> (\<forall>r \<in> set rows. \<exists>d. tb_decode t (Ok (tr_values r)) = Ok d)"

definition pg_inv :: "'s pgTable \<Rightarrow> tb_schema \<Rightarrow> tb_conn \<Rightarrow> bool" where
  "pg_inv t sc c \<longleftrightarrow> sound_codec t sc \<and> rows_wf (tb_rows c) \<and> readable t (tb_rows c)"

definition stored_state :: "'s pgTable \<Rightarrow> tb_schema \<Rightarrow> string \<Rightarrow> 's \<Rightarrow> 's" where
  "stored_state t sc i s =
     (case pt_Encode t of None \<Rightarrow> s | Some encode \<Rightarrow>
        (case res_bind (encode s) (\<lambda>vs. tb_decode t (Ok (store_values t sc vs))) of Ok d \<Rightarrow> identify t d i | _ \<Rightarrow> s))"

lemma encodes_unique: "encodes t s vs \<Longrightarrow> encodes t s vs' \<Longrightarrow> vs = vs'"
  by (auto simp: encodes_def)

lemma sound_codecE:
  assumes "sound_codec t sc"
  obtains vs lock d where "encodes t s vs" "series_lock t tenant vs lock" "tb_decode t (Ok (store_values t sc vs)) = Ok d"
    "stored_state t sc i s = identify t d i"
proof -
  obtain vs lock d where vs: "encodes t s vs" "series_lock t tenant vs lock" "tb_decode t (Ok (store_values t sc vs)) = Ok d"
    using assms unfolding sound_codec_def by blast
  then have "stored_state t sc i s = identify t d i"
    by (auto simp: encodes_def stored_state_def)
  with vs show thesis by (rule that)
qed

text \<open>What a load reads depends on the rows and on the transaction being open.\<close>

definition miss_error :: "'s pgTable \<Rightarrow> tb_schema \<Rightarrow> TenantID \<Rightarrow> string \<Rightarrow> tb_table \<Rightarrow> gerr" where
  "miss_error t sc tenant i rows =
     (case snd (snd (tb_owner sc i tenant rows)) of
        Ok (Some holder) \<Rightarrow> CrossTenantAccess (pt_Name t @ ''/'' @ i) tenant holder
      | _ \<Rightarrow> Sentinel ErrNotFound)"

lemma miss_error_simps [simp]:
  "errors_Is (miss_error t sc tenant i rows) ErrNotFound"
  "conflictOnDeadlock g (miss_error t sc tenant i rows) = miss_error t sc tenant i rows"
  by (auto simp: miss_error_def conflictOnDeadlock_def errors_As_def List.map_filter_simps split: res.split option.split)

lemma miss_quiet:
  assumes "\<not> tc_aborted c"
  obtains c' where "tb_miss pg_quiet t sc tenant i c = (c', Err (miss_error t sc tenant i (tb_rows c)))"
proof -
  obtain ow where ow: "tb_owner sc i tenant (tb_rows c) = (tb_rows c, [], Ok ow)"
    by (simp add: tb_owner_def owner_of_def)
  then obtain c' where "tb_exec pg_quiet (tb_owner sc i tenant) c = (c', Ok ow)"
    using tb_look_quiet [OF assms] by metis
  with ow show thesis
    by (intro that [of c']) (cases ow; simp add: tb_miss_def scanned_def is_NoRows_def ErrNoRows_def miss_error_def)
qed

lemma Load_present:
  assumes "\<not> tc_aborted c" "pg_tenantOf ctx = Ok tenant" "find (\<lambda>r. tr_pk r = (tenant, i)) (tb_rows c) = Some row"
    and "tb_decode t (Ok (tr_values row)) = Ok d"
  shows "snd (tb_Load pg_quiet t sc ctx i c) = Ok (identify t d i, word_of_int (tr_version row))"
proof -
  have "tb_selectOne tenant i (tb_rows c) = (tb_rows c, [], Ok (Some row))"
    using assms(3) by (simp add: tb_selectOne_def)
  then obtain c' where "tb_exec pg_quiet (tb_selectOne tenant i) c = (c', Ok (Some row))"
    using tb_look_quiet [OF assms(1)] by metis
  with assms(2,4) show ?thesis
    by (simp add: tb_Load_def tb_load_def tb_loadAs_def on_deadlock_def pg_return_def pg_bind_def scanned_def)
qed

lemma Load_absent:
  fixes t :: "'s pgTable"
  assumes "\<not> tc_aborted c" "pg_tenantOf ctx = Ok tenant" "find (\<lambda>r. tr_pk r = (tenant, i)) (tb_rows c) = None" "sound_codec t sc"
  shows "snd (tb_Load pg_quiet t sc ctx i c) = Err (miss_error t sc tenant i (tb_rows c))"
proof -
  have "tb_selectOne tenant i (tb_rows c) = (tb_rows c, [], Ok None)"
    using assms(3) by (simp add: tb_selectOne_def)
  then obtain c' where c': "tb_exec pg_quiet (tb_selectOne tenant i) c = (c', Ok None)" "same_tx c c'"
    using tb_look_quiet [OF assms(1)] by metis
  have "tb_decode t (Err ErrNoRows) = Err ErrNoRows"
    using assms(4) by (simp add: sound_codec_def)
  with c' have loadAs: "tb_loadAs pg_quiet t tenant i c = (c', Ok None)"
    by (simp add: tb_loadAs_def scanned_def is_NoRows_def ErrNoRows_def)
  have "\<not> tc_aborted c'"
    using assms(1) c'(2) by (simp add: same_tx_def)
  then obtain c2 where "tb_miss pg_quiet t sc tenant i c' = (c2, Err (miss_error t sc tenant i (tb_rows c')) :: ('s \<times> Version) result)"
    by (rule miss_quiet)
  with assms(2) loadAs c'(2) show ?thesis
    by (simp add: tb_Load_def tb_load_def on_deadlock_def pg_return_def pg_bind_def same_tx_def)
qed

lemma Load_dead:
  assumes "tc_aborted c \<or> (\<forall>tenant. pg_tenantOf ctx \<noteq> Ok tenant)" "sound_codec t sc"
  shows "\<forall>x. snd (tb_Load pg_quiet t sc ctx i c) \<noteq> Ok x"
proof (cases "pg_tenantOf ctx")
  case (Ok tenant)
  with assms(1) have dead: "tc_aborted c" by simp
  have "tb_decode t (Err inFailedTransaction) = Err inFailedTransaction"
    using assms(2) by (simp add: sound_codec_def)
  with dead have "snd (tb_loadAs pg_quiet t tenant i c) = Err (saying ''postgres: load'' inFailedTransaction)"
    by (simp add: tb_loadAs_def tb_exec_def scanned_def is_NoRows_def ErrNoRows_def inFailedTransaction_def)
  then show ?thesis
    using Ok by (auto simp: tb_Load_def tb_load_def on_deadlock_def pg_return_def pg_bind_def split: prod.splits)
qed (simp_all add: tb_Load_def tb_load_def on_deadlock_def pg_return_def pg_bind_def)

lemma Load_OkE:
  assumes "pg_inv t sc c" "snd (tb_Load pg_quiet t sc ctx i c) = Ok (s, v)"
  obtains tenant row d where "\<not> tc_aborted c" "pg_tenantOf ctx = Ok tenant" "row \<in> set (tb_rows c)" "tr_pk row = (tenant, i)"
    "find (\<lambda>r. tr_pk r = (tenant, i)) (tb_rows c) = Some row" "tb_decode t (Ok (tr_values row)) = Ok d" "s = identify t d i"
    "v = word_of_int (tr_version row)"
proof -
  have codec: "sound_codec t sc" and rd: "readable t (tb_rows c)"
    using assms(1) by (simp_all add: pg_inv_def)
  have live: "\<not> tc_aborted c" and "\<exists>tenant. pg_tenantOf ctx = Ok tenant"
    using Load_dead [of c ctx t sc i] codec assms(2) by auto
  then obtain tenant where tenant: "pg_tenantOf ctx = Ok tenant" by blast
  obtain row where row: "find (\<lambda>r. tr_pk r = (tenant, i)) (tb_rows c) = Some row"
  proof (cases "find (\<lambda>r. tr_pk r = (tenant, i)) (tb_rows c)")
    case None
    from Load_absent [OF live tenant None codec] assms(2) show thesis by simp
  qed
  then have mem: "row \<in> set (tb_rows c)" "tr_pk row = (tenant, i)"
    by (auto simp: find_Some_iff)
  with rd obtain d where d: "tb_decode t (Ok (tr_values row)) = Ok d"
    by (auto simp: readable_def)
  with Load_present [OF live tenant row d] assms(2) show thesis
    by (intro that [OF live tenant mem row d]) simp_all
qed

lemma conflict_Sentinel [simp]: "conflictOnDeadlock g (Sentinel e) = Sentinel e"
  by (simp add: conflictOnDeadlock_def errors_As_def List.map_filter_simps)

lemma tenantOf_Err: "pg_tenantOf ctx = Err e \<Longrightarrow> \<exists>s. e = Sentinel s"
  by (auto simp: pg_tenantOf_def RequireExecutionContext_def split: option.splits)

lemma Load_cong:
  assumes "pg_inv t sc c" "tb_rows c' = tb_rows c" "\<not> tc_aborted c" "\<not> tc_aborted c'"
  shows "snd (tb_Load pg_quiet t sc ctx i c') = snd (tb_Load pg_quiet t sc ctx i c)"
proof (cases "pg_tenantOf ctx")
  case (Ok tenant)
  show ?thesis
  proof (cases "find (\<lambda>r. tr_pk r = (tenant, i)) (tb_rows c)")
    case None
    then have none: "find (\<lambda>r. tr_pk r = (tenant, i)) (tb_rows c') = None"
      by (simp only: assms(2))
    have codec: "sound_codec t sc"
      using assms(1) by (simp add: pg_inv_def)
    show ?thesis
      unfolding Load_absent [OF assms(3) Ok None codec] Load_absent [OF assms(4) Ok none codec] assms(2) ..
  next
    case (Some row)
    then have "row \<in> set (tb_rows c)"
      by (auto simp: find_Some_iff)
    then obtain d where d: "tb_decode t (Ok (tr_values row)) = Ok d"
      using assms(1) by (auto simp: pg_inv_def readable_def)
    from Some have "find (\<lambda>r. tr_pk r = (tenant, i)) (tb_rows c') = Some row"
      by (simp only: assms(2))
    from Load_present [OF assms(4) Ok this d] Load_present [OF assms(3) Ok Some d] show ?thesis by simp
  qed
qed (auto simp: tb_Load_def tb_load_def on_deadlock_def pg_return_def pg_bind_def dest: tenantOf_Err)

section \<open>Saves against the contract\<close>

lemma quiet_rows:
  assumes "onward pg_quiet unchanged c c'"
  shows "tb_rows c' = tb_rows c" "tb_before pg_quiet c' = tb_rows c"
proof -
  have "stable_under pg_quiet (tb_locks c) (\<lambda>x. x = tb_rows c)"
    by (simp add: stable_under_def pg_quiet_def)
  from onward_stable(1) [OF assms this] show "tb_rows c' = tb_rows c" by simp
  then show "tb_before pg_quiet c' = tb_rows c"
    by (simp add: tb_before_def pg_quiet_def)
qed

lemma onward_keeps:
  "onward env S c c' \<Longrightarrow> stable_under env (tb_locks c) D \<Longrightarrow> kept_by S D \<Longrightarrow> D (tb_rows c) \<Longrightarrow> D (tb_rows c')"
  unfolding onward_def by blast

lemma tb_write_results:
  obtains n b ks where "tb_write t sc tenant i v vs rows = (b, ks, Ok n)" "n = 0 \<Longrightarrow> b = rows"
  | e ks where "tb_write t sc tenant i v vs rows = (rows, ks, Err e)"
proof -
  obtain b ks r where w: "tb_write t sc tenant i v vs rows = (b, ks, r)"
    using prod_cases3 by blast
  have "(\<exists>n. r = Ok n \<and> (n = 0 \<longrightarrow> b = rows)) \<or> (\<exists>e. r = Err e \<and> b = rows)"
    using w by (auto simp: tb_write_def tb_insert_def tb_update_def Let_def split: if_splits option.splits)
  with w that show thesis by blast
qed

text \<open>A save the server refuses, or a dead transaction: no row changes and the save fails.\<close>

lemma Save_failed:
  assumes "sound_codec t sc" "pg_tenantOf ctx = Ok tenant" "encodes t state vs" "tb_Save pg_quiet t sc ctx i state v c = (c', r)"
    and "tb_write t sc tenant i v vs (tb_rows c) = (tb_rows c, ks, Err e)"
  shows "tb_rows c' = tb_rows c" "r \<noteq> Ok ()"
proof -
  have run: "tb_saveAs pg_quiet t sc tenant i state v c = (c', r)"
    using assms(2,4) by (simp add: tb_Save_def pg_return_def)
  have "tb_rows c' = tb_rows c \<and> r \<noteq> Ok ()"
    using run
  proof (cases rule: saveAs_lands)
    case (landed vs' lock)
    have [simp]: "vs' = vs"
      by (rule encodes_unique [OF landed(1) assms(3)])
    let ?st = "tb_write t sc tenant i v vs"
    have "kept_by (writes ?st (set_option lock)) (\<lambda>x. x = tb_rows c)"
      using assms(5) by (auto simp: kept_by_def writes_def)
    moreover have "stable_under pg_quiet (tb_locks c) (\<lambda>x. x = tb_rows c)"
      by (simp add: stable_under_def pg_quiet_def)
    moreover have "onward pg_quiet (writes ?st (set_option lock)) c c'"
      using landed(3) by (simp add: lands_def)
    ultimately have "tb_rows c' = tb_rows c"
      using onward_keeps [of pg_quiet "writes ?st (set_option lock)" c c' "\<lambda>x. x = tb_rows c"] by simp
    moreover have "r \<noteq> Ok ()"
    proof
      assume "r = Ok ()"
      with landed(3) obtain c1 b ks' n where "onward pg_quiet unchanged c c1" "?st (tb_before pg_quiet c1) = (b, ks', Ok n)"
        by (auto simp: lands_def)
      with assms(5) quiet_rows(2) [of c c1] show False by simp
    qed
    ultimately show ?thesis ..
  qed auto
  then show "tb_rows c' = tb_rows c" "r \<noteq> Ok ()" by simp_all
qed

lemma dead_exec [simp]: "tc_aborted c \<Longrightarrow> tb_exec env statement c = (c, Err inFailedTransaction)"
  by (simp add: tb_exec_def)

lemma unopened_fails [simp]: "res_map_err f (Err e) = Err (f e)" by simp

lemma Save_dead:
  assumes "tc_aborted c" "tb_Save pg_quiet t sc ctx i state v c = (c', r)"
  shows "tb_rows c' = tb_rows c \<and> tc_aborted c' \<and> r \<noteq> Ok ()"
proof -
  have locking: "\<exists>e. (case lock of None \<Rightarrow> pg_return (Ok ()) | Some l \<Rightarrow> tb_wrap err (tb_exec pg_quiet (tb_lock_guard l))) c0 = (c0, Err e) \<or>
      (case lock of None \<Rightarrow> pg_return (Ok ()) | Some l \<Rightarrow> tb_wrap err (tb_exec pg_quiet (tb_lock_guard l))) c0 = (c0, Ok ())"
    if "tc_aborted c0" for c0 lock err
    using that by (cases lock) (auto simp: pg_return_def tb_wrap_def)
  have sp: "\<exists>e. saveUnderSavepoint pg_quiet t tenant i lock sql st creating c0 = (c0, Err e)" if "tc_aborted c0" for c0 tenant lock sql st creating
    using locking [OF that, where lock = lock and err = "lock_error t unopened"]
      locking [OF that, where lock = lock and err = "saying ''postgres: save: guard''"] that
    by (auto simp: saveUnderSavepoint_def Let_def pg_bind_def tb_wrap_def)
  have sg: "\<exists>e. saveGuarded pg_quiet t l st c0 = (c0, Err e)" if "tc_aborted c0" for c0 l st
    using that by (auto simp: saveGuarded_def pg_bind_def tb_wrap_def)
  have "tb_rows c' = tb_rows c \<and> tc_aborted c' \<and> r \<noteq> Ok ()" if run: "tb_saveAs pg_quiet t sc tenant i state v c = (c', r)" for tenant
  proof (cases "\<exists>vs lock. encodes t state vs \<and> series_lock t tenant vs lock")
    case True
    then obtain vs lock where vs: "encodes t state vs" "series_lock t tenant vs lock" by blast
    obtain c0 where c0: "tb_guard t tenant vs c = (c0, Ok lock)" "tb_rows c0 = tb_rows c" "tc_aborted c0 = tc_aborted c"
        "tc_writes c0 = tc_writes c"
      using tb_guard_quiet [OF vs(2)] .
    with run assms(1) sp [of c0 tenant lock "write_text t v" "tb_write t sc tenant i v vs" "v = 0"]
        sg [of c0 "the lock" "tb_write t sc tenant i v vs"] show ?thesis
      by (cases lock) (auto simp: saveAs_guarded [OF vs(1) c0(1)] on_deadlock_def tb_wrap_def pg_bind_def split: if_splits)
  next
    case False
    with run assms(1) show ?thesis
      by (auto simp: tb_saveAs_def encodes_def series_lock_def tb_guard_def guardText_def tb_wrap_def pg_bind_def
          split: option.splits res.splits if_splits sql_value.splits prod.splits)
  qed
  with assms show ?thesis
    by (cases "pg_tenantOf ctx") (auto simp: tb_Save_def pg_return_def pg_bind_def)
qed

text \<open>The three ways a save ends.\<close>

lemma Save_cases:
  assumes inv: "pg_inv t sc c" and run: "tb_Save pg_quiet t sc ctx i state v c = (c', r)"
  obtains (accepted) tenant vs b ks n d where "\<not> tc_aborted c" "pg_tenantOf ctx = Ok tenant" "encodes t state vs"
      "tb_write t sc tenant i v vs (tb_rows c) = (b, ks, Ok n)" "r = settled n" "tb_rows c' = b" "\<not> tc_aborted c'"
      "n = 0 \<Longrightarrow> b = tb_rows c" "tb_decode t (Ok (store_values t sc vs)) = Ok d" "stored_state t sc i state = identify t d i"
  | (failed) "r \<noteq> Ok ()" "tb_rows c' = tb_rows c" "\<not> tc_aborted c' \<Longrightarrow> \<not> tc_aborted c"
      "\<And>tenant vs b ks n. \<not> tc_aborted c \<Longrightarrow> pg_tenantOf ctx = Ok tenant \<Longrightarrow> encodes t state vs \<Longrightarrow>
         tb_write t sc tenant i v vs (tb_rows c) = (b, ks, Ok n) \<Longrightarrow> False"
proof (cases "tc_aborted c")
  case True
  with Save_dead [OF True run] failed show thesis by blast
next
  case live: False
  have codec: "sound_codec t sc"
    using inv by (simp add: pg_inv_def)
  show thesis
  proof (cases "pg_tenantOf ctx")
    case (Ok tenant)
    obtain vs lock d where vs: "encodes t state vs" "series_lock t tenant vs lock" "tb_decode t (Ok (store_values t sc vs)) = Ok d"
      "stored_state t sc i state = identify t d i"
      using sound_codecE [OF codec] .
    show thesis
    proof (cases rule: tb_write_results [of t sc tenant i v vs "tb_rows c"])
      case (1 n b ks)
      obtain c1 where "tb_Save pg_quiet t sc ctx i state v c = (c1, settled n)" "after_write c b n c1"
        using Save_accepted [OF live Ok vs(1,2) 1(1)] .
      with run have "c' = c1" "r = settled n" "tb_rows c' = b" "\<not> tc_aborted c'"
        by (simp_all add: after_write_def)
      with accepted [OF live Ok vs(1) 1(1)] 1(2) vs(3,4) show thesis by blast
    next
      case (2 e ks)
      note fail = Save_failed [OF codec Ok vs(1) run 2]
      show thesis
      proof (rule failed [OF fail(2,1)])
        show "\<not> tc_aborted c" by (rule live)
        fix tenant' vs' b ks' n
        assume "pg_tenantOf ctx = Ok tenant'" "encodes t state vs'" "tb_write t sc tenant' i v vs' (tb_rows c) = (b, ks', Ok n)"
        with Ok 2 encodes_unique [OF vs(1)] show False by force
      qed
    qed
  next
    case (Err e)
    with run live show thesis
      by (intro failed) (auto simp: tb_Save_def pg_return_def pg_bind_def)
  next
    case (Panic m)
    with run live show thesis
      by (intro failed) (auto simp: tb_Save_def pg_return_def pg_bind_def)
  qed
qed

lemma settled_Ok [simp]: "settled n = Ok () \<longleftrightarrow> n \<noteq> 0"
  by (simp add: settled_def)

text \<open>The row a successful write leaves, and the others.\<close>

lemma find_append: "find P (xs @ ys) = (case find P xs of None \<Rightarrow> find P ys | Some x \<Rightarrow> Some x)"
  by (induction xs) auto

lemma find_map_pk:
  "(\<And>r. tr_pk (f r) = tr_pk r) \<Longrightarrow> find (\<lambda>r. tr_pk r = pk) (map f rows) = map_option f (find (\<lambda>r. tr_pk r = pk) rows)"
  by (induction rows) auto

lemma find_pk_Some: "rows_wf rows \<Longrightarrow> r \<in> set rows \<Longrightarrow> find (\<lambda>x. tr_pk x = tr_pk r) rows = Some r"
proof (induction rows)
  case (Cons x xs)
  then have "tr_pk x \<notin> tr_pk ` set xs" "rows_wf xs"
    by (auto simp: rows_wf_def)
  with Cons show ?case by auto
qed simp

lemma tb_write_Ok:
  assumes run: "tb_write t sc tenant i v vs rows = (b, ks, Ok n)" and "n \<noteq> 0" and wf: "rows_wf rows"
  defines "new \<equiv> \<lparr>tr_tenant = tenant, tr_id = i, tr_version = (if v = 0 then 1 else sint v + 1), tr_values = store_values t sc vs\<rparr>"
  shows "find (\<lambda>r. tr_pk r = (tenant, i)) b = Some new"
    and "pk \<noteq> (tenant, i) \<Longrightarrow> find (\<lambda>r. tr_pk r = pk) b = find (\<lambda>r. tr_pk r = pk) rows"
    and "if v = 0 then find (\<lambda>r. tr_pk r = (tenant, i)) rows = None
      else \<exists>row. find (\<lambda>r. tr_pk r = (tenant, i)) rows = Some row \<and> tr_version row = sint v"
    and "set b \<subseteq> insert new (set rows)"
proof -
  have pk: "tr_pk new = (tenant, i)"
    by (simp add: new_def tr_pk_def)
  have all: "find (\<lambda>r. tr_pk r = (tenant, i)) b = Some new \<and> (\<forall>pk. pk \<noteq> (tenant, i) \<longrightarrow> find (\<lambda>r. tr_pk r = pk) b = find (\<lambda>r. tr_pk r = pk) rows) \<and>
    (if v = 0 then find (\<lambda>r. tr_pk r = (tenant, i)) rows = None
      else \<exists>row. find (\<lambda>r. tr_pk r = (tenant, i)) rows = Some row \<and> tr_version row = sint v) \<and> set b \<subseteq> insert new (set rows)"
  proof (cases "v = 0")
    case True
    with run \<open>n \<noteq> 0\<close> have b: "b = rows @ [new]" and none: "\<forall>r \<in> set rows. tr_pk r \<noteq> (tenant, i)"
      by (auto simp: tb_write_def tb_insert_def new_def Let_def split: if_splits option.splits)
    from none have "find (\<lambda>r. tr_pk r = (tenant, i)) rows = None"
      by (auto simp: find_None_iff)
    with True pk show ?thesis
      unfolding b by (auto simp: find_append split: option.split)
  next
    case False
    let ?p = "\<lambda>r. tr_pk r = (tenant, i) \<and> tr_version r = sint v \<and> guard_matches t sc vs r"
    let ?f = "\<lambda>r. if ?p r then new else r"
    from False run \<open>n \<noteq> 0\<close> have b: "b = map ?f rows" and "filter ?p rows \<noteq> []"
      by (auto simp: tb_write_def tb_update_def new_def Let_def split: if_splits option.splits)
    then obtain r0 where r0: "r0 \<in> set rows" "?p r0"
      by (auto simp: filter_empty_conv)
    have "tr_pk (?f r) = tr_pk r" for r
      using pk by simp
    then have find: "find (\<lambda>r. tr_pk r = k) b = map_option ?f (find (\<lambda>r. tr_pk r = k) rows)" for k
      unfolding b by (rule find_map_pk)
    have row: "find (\<lambda>r. tr_pk r = (tenant, i)) rows = Some r0"
      using find_pk_Some [OF wf r0(1)] r0(2) by simp
    have "find (\<lambda>r. tr_pk r = k) b = find (\<lambda>r. tr_pk r = k) rows" if "k \<noteq> (tenant, i)" for k
    proof (cases "find (\<lambda>r. tr_pk r = k) rows")
      case (Some r)
      then have "tr_pk r = k"
        by (auto simp: find_Some_iff)
      with that Some find [of k] show ?thesis by simp
    qed (use find [of k] in simp)
    moreover have "set b \<subseteq> insert new (set rows)"
      unfolding b by auto
    ultimately show ?thesis
      using False row r0(2) find [of "(tenant, i)"] by auto
  qed
  then show "pk \<noteq> (tenant, i) \<Longrightarrow> find (\<lambda>r. tr_pk r = pk) b = find (\<lambda>r. tr_pk r = pk) rows"
    by blast
  from all show "find (\<lambda>r. tr_pk r = (tenant, i)) b = Some new"
    "if v = 0 then find (\<lambda>r. tr_pk r = (tenant, i)) rows = None
      else \<exists>row. find (\<lambda>r. tr_pk r = (tenant, i)) rows = Some row \<and> tr_version row = sint v"
    "set b \<subseteq> insert new (set rows)"
    by simp_all
qed

text \<open>A write at another version than the row's is accepted, and changes nothing.\<close>

lemma stale_write:
  assumes wf: "rows_wf rows" and row: "find (\<lambda>r. tr_pk r = (tenant, i)) rows = Some row" and "word_of_int (tr_version row) \<noteq> v"
  shows "\<exists>b ks n. tb_write t sc tenant i v vs rows = (b, ks, Ok n)"
proof (cases "v = 0")
  case True
  from row have "\<exists>r \<in> set rows. tr_pk r = (tenant, i)"
    by (auto simp: find_Some_iff)
  with True show ?thesis
    by (simp add: tb_write_def tb_insert_def)
next
  case False
  have "r = row" if "r \<in> set rows" "tr_pk r = (tenant, i)" for r
    using find_pk_Some [OF wf that(1)] that(2) row by simp
  with assms(3) have none: "filter (\<lambda>r. tr_pk r = (tenant, i) \<and> tr_version r = sint v \<and> guard_matches t sc vs r) rows = []"
    by (auto simp: filter_empty_conv)
  show ?thesis
    using False by (simp add: tb_write_def tb_update_def none)
qed

lemma next_version: "word_of_int (if v = 0 then 1 else sint v + 1) = (v + 1 :: Version)"
  by simp

lemma pg_inv_save:
  assumes inv: "pg_inv t sc c" and run: "tb_Save pg_quiet t sc ctx i state v c = (c', r)"
  shows "pg_inv t sc c'"
  using inv run
proof (cases rule: Save_cases)
  case (accepted tenant vs b ks n d)
  have wf: "rows_wf (tb_rows c)" and rd: "readable t (tb_rows c)" and codec: "sound_codec t sc"
    using inv by (simp_all add: pg_inv_def)
  have "rows_wf b"
    using tb_write_evolves [OF accepted(4)] wf by (simp add: rows_evolve_def)
  moreover have "readable t b"
  proof (cases "n = 0")
    case False
    from tb_write_Ok(4) [OF accepted(4) False wf] rd accepted(9) show ?thesis
      by (auto simp: readable_def)
  qed (use accepted(8) rd in simp)
  ultimately show ?thesis
    using codec accepted(6) by (simp add: pg_inv_def)
next
  case failed
  with inv show ?thesis by (simp add: pg_inv_def)
qed

interpretation pg_repo: repository "\<lambda>i c. snd (tb_Load pg_quiet t sc ctx i c)" "\<lambda>i s v. tb_Save pg_quiet t sc ctx i s v"
  "pg_inv t sc" "\<lambda>c. \<not> tc_aborted c" "stored_state t sc"
proof (unfold_locales, goal_cases)
  case (1 c i s v)
  then show ?case
    using pg_inv_save by (metis prod.collapse)
next
  case (2 c i s v)
  have run: "tb_Save pg_quiet t sc ctx i s v c = (fst (tb_Save pg_quiet t sc ctx i s v c), Ok ())"
    using 2(2) by (simp add: prod_eq_iff)
  from 2(1) run show ?case
  proof (cases rule: Save_cases)
    case (accepted tenant vs b ks n d)
    have wf: "rows_wf (tb_rows c)"
      using 2(1) by (simp add: pg_inv_def)
    have n: "n \<noteq> 0"
      using accepted(5) by (metis settled_Ok)
    let ?new = "\<lparr>tr_tenant = tenant, tr_id = i, tr_version = (if v = 0 then 1 else sint v + 1), tr_values = store_values t sc vs\<rparr>"
    have "find (\<lambda>r. tr_pk r = (tenant, i)) (tb_rows (fst (tb_Save pg_quiet t sc ctx i s v c))) = Some ?new"
      unfolding accepted(6) by (rule tb_write_Ok(1) [OF accepted(4) n wf])
    from Load_present [OF accepted(7,2) this, of t d sc] accepted(9,10) next_version [of v] show ?thesis
      by simp
  qed simp
next
  case (3 c i s v)
  have run: "tb_Save pg_quiet t sc ctx i s v c = (fst (tb_Save pg_quiet t sc ctx i s v c), Ok ())"
    using 3(2) by (simp add: prod_eq_iff)
  from 3(1) run show ?case
  proof (cases rule: Save_cases)
    case (accepted tenant vs b ks n d)
    have wf: "rows_wf (tb_rows c)" and rd: "readable t (tb_rows c)" and codec: "sound_codec t sc"
      using 3(1) by (simp_all add: pg_inv_def)
    have n: "n \<noteq> 0"
      using accepted(5) by (metis settled_Ok)
    note was = tb_write_Ok(3) [OF accepted(4) n wf]
    show ?thesis
    proof (cases "v = 0")
      case True
      with was Load_absent [OF accepted(1,2) _ codec, of i] show ?thesis by simp
    next
      case False
      with was obtain row where row: "find (\<lambda>r. tr_pk r = (tenant, i)) (tb_rows c) = Some row" "tr_version row = sint v"
        by auto
      have "row \<in> set (tb_rows c)"
        using row(1) by (auto simp: find_Some_iff)
      with rd obtain d' where "tb_decode t (Ok (tr_values row)) = Ok d'"
        by (auto simp: readable_def)
      from Load_present [OF accepted(1,2) row(1) this] row(2) show ?thesis by simp
    qed
  qed simp
next
  case (4 c i s' v' v s)
  from Load_OkE [OF 4(1,2)] obtain tenant row where live: "\<not> tc_aborted c" and tenant: "pg_tenantOf ctx = Ok tenant"
    and row: "find (\<lambda>r. tr_pk r = (tenant, i)) (tb_rows c) = Some row" "v' = word_of_int (tr_version row)"
    by metis
  obtain c' r where run: "tb_Save pg_quiet t sc ctx i s v c = (c', r)" by fastforce
  have wf: "rows_wf (tb_rows c)" and codec: "sound_codec t sc"
    using 4(1) by (simp_all add: pg_inv_def)
  obtain vs where vs: "encodes t s vs"
    using sound_codecE [OF codec] by metis
  have conflict: "n = 0" if w: "tb_write t sc tenant i v vs (tb_rows c) = (b, ks, Ok n)" for b ks n
  proof (rule ccontr)
    assume "n \<noteq> 0"
    from tb_write_Ok(3) [OF w this wf] row 4(3) show False
      by (auto split: if_splits)
  qed
  from 4(1) run show ?case
  proof (cases rule: Save_cases)
    case (accepted tenant' vs' b ks n d)
    then have "n = 0"
      using conflict tenant encodes_unique [OF vs accepted(3)] by simp
    with accepted run show ?thesis
      by (simp add: settled_def)
  next
    case failed
    have "\<exists>b ks n. tb_write t sc tenant i v vs (tb_rows c) = (b, ks, Ok n)"
      by (rule stale_write [OF wf row(1)]) (use row(2) 4(3) in simp)
    with failed(4) [OF live tenant vs] show ?thesis by blast
  qed
next
  case (5 c i s v j)
  obtain c' r where run: "tb_Save pg_quiet t sc ctx i s v c = (c', r)" by fastforce
  from 5(1) run show ?case
  proof (cases rule: Save_cases)
    case (accepted tenant vs b ks n d)
    with 5(2) run have "tb_rows c' = tb_rows c" by auto
    with Load_cong [OF 5(1) this] accepted(1,7) run show ?thesis by simp
  next
    case failed
    with Load_cong [OF 5(1) failed(2)] 5(3) run show ?thesis by simp
  qed
next
  case (6 c j i x s v)
  obtain c' r where run: "tb_Save pg_quiet t sc ctx i s v c = (c', r)" by fastforce
  obtain s' v' where x: "x = (s', v')" by fastforce
  from Load_OkE [OF 6(1) 6(3) [unfolded x]] obtain tenant row d' where live: "\<not> tc_aborted c" and tenant: "pg_tenantOf ctx = Ok tenant"
    and row: "find (\<lambda>r. tr_pk r = (tenant, j)) (tb_rows c) = Some row" "tb_decode t (Ok (tr_values row)) = Ok d'" "s' = identify t d' j"
      "v' = word_of_int (tr_version row)"
    by metis
  have wf: "rows_wf (tb_rows c)"
    using 6(1) by (simp add: pg_inv_def)
  have "find (\<lambda>r. tr_pk r = (tenant, j)) (tb_rows c') = Some row"
    using 6(1) run
  proof (cases rule: Save_cases)
    case (accepted tenant' vs b ks n d)
    show ?thesis
    proof (cases "n = 0")
      case False
      from tb_write_Ok(2) [OF accepted(4) False wf, of "(tenant, j)"] 6(2) accepted(6) row(1) show ?thesis by simp
    qed (use accepted(6,8) row(1) in simp)
  qed (use row(1) in simp)
  from Load_present [OF _ tenant this row(2)] 6(4) run row(3,4) x show ?case by simp
qed

section \<open>The specification of a save\<close>

text \<open>
  A table is a map from the key of a row to its values and version. The specification of a save: the version is
  the expected one, or it is a conflict; no other row has the key of a constraint, or it is the violation of the
  first such constraint; then the row has the values and the next version.
\<close>

type_synonym pg_map = "TenantID \<times> string \<Rightarrow> (sql_value list \<times> Version) option"

definition pg_abs :: "tb_table \<Rightarrow> pg_map" where
  "pg_abs rows pk = map_option (\<lambda>r. (tr_values r, word_of_int (tr_version r))) (find (\<lambda>r. tr_pk r = pk) rows)"

definition keyed_row :: "TenantID \<times> string \<Rightarrow> sql_value list \<times> Version \<Rightarrow> tb_row" where
  "keyed_row pk x = \<lparr>tr_tenant = fst pk, tr_id = snd pk, tr_version = sint (snd x), tr_values = fst x\<rparr>"

definition pg_collision :: "'s pgTable \<Rightarrow> pg_map \<Rightarrow> TenantID \<times> string \<Rightarrow> sql_value list \<times> Version \<Rightarrow> string \<times> string list \<Rightarrow> bool" where
  "pg_collision t m pk x constraint \<longleftrightarrow> index_key t (snd constraint) (keyed_row pk x) \<noteq> None \<and>
     (\<exists>other y. other \<noteq> pk \<and> m other = Some y \<and>
        index_key t (snd constraint) (keyed_row other y) = index_key t (snd constraint) (keyed_row pk x))"

definition pg_spec_save ::
    "'s pgTable \<Rightarrow> tb_schema \<Rightarrow> TenantID \<times> string \<Rightarrow> sql_value list \<Rightarrow> Version \<Rightarrow> bool \<Rightarrow> pg_map \<Rightarrow> pg_map \<times> unit result" where
  "pg_spec_save t sc pk vs v fresh m =
     (if (case m pk of None \<Rightarrow> 0 | Some (_, v') \<Rightarrow> v') \<noteq> v then (m, Fail ErrVersionConflict)
      else let x = (store_values t sc vs, v + 1) in
        case find (pg_collision t m pk x) (sc_constraints sc) of
          Some (name, _) \<Rightarrow> (m, Err (refusal t fresh name))
        | None \<Rightarrow> (m(pk \<mapsto> x), Ok ()))"

lemma keyed_row_abs:
  assumes "rows_wf rows" "r \<in> set rows"
  shows "pg_abs rows (tr_pk r) = Some (tr_values r, word_of_int (tr_version r))"
    and "keyed_row (tr_pk r) (tr_values r, word_of_int (tr_version r)) = r"
    and "word_of_int (tr_version r) \<noteq> (0 :: Version)"
proof -
  show "pg_abs rows (tr_pk r) = Some (tr_values r, word_of_int (tr_version r))"
    by (simp add: pg_abs_def find_pk_Some [OF assms])
  have v: "1 \<le> tr_version r" "tr_version r \<le> max_int64"
    using assms by (auto simp: rows_wf_def)
  then have s: "sint (word_of_int (tr_version r) :: Version) = tr_version r"
    by (intro version_word) simp_all
  then show "keyed_row (tr_pk r) (tr_values r, word_of_int (tr_version r)) = r"
    by (simp add: keyed_row_def tr_pk_def)
  from v show "word_of_int (tr_version r) \<noteq> (0 :: Version)"
    by (rule version_word(1))
qed

lemma pg_abs_Some: "pg_abs rows pk = Some x \<Longrightarrow> \<exists>r \<in> set rows. tr_pk r = pk \<and> x = (tr_values r, word_of_int (tr_version r))"
  by (auto simp: pg_abs_def find_Some_iff)

lemma pg_collision_breaks:
  assumes "rows_wf rows"
  shows "pg_collision t (pg_abs rows) pk x constraint \<longleftrightarrow> breaks t (keyed_row pk x) rows constraint"
proof -
  have pk: "tr_pk (keyed_row pk x) = pk"
    by (simp add: keyed_row_def tr_pk_def)
  have "(\<exists>other y. other \<noteq> pk \<and> pg_abs rows other = Some y \<and> index_key t (snd constraint) (keyed_row other y) = k) \<longleftrightarrow>
      (\<exists>r \<in> set rows. tr_pk r \<noteq> pk \<and> index_key t (snd constraint) r = k)" for k
    using keyed_row_abs(1,2) [OF assms] by (metis pg_abs_Some)
  then show ?thesis
    by (auto simp: pg_collision_def breaks_def list_ex_iff pk)
qed

text \<open>What the statement of a save does, against the specification.\<close>

definition at_version :: "tb_table \<Rightarrow> TenantID \<times> string \<Rightarrow> Version \<Rightarrow> bool" where
  "at_version rows pk v \<longleftrightarrow>
     (if v = 0 then \<forall>r \<in> set rows. tr_pk r \<noteq> pk else \<exists>r \<in> set rows. tr_pk r = pk \<and> tr_version r = sint v)"

lemma at_version_abs:
  assumes wf: "rows_wf rows"
  shows "(case pg_abs rows pk of None \<Rightarrow> 0 | Some (_, v') \<Rightarrow> v') = v \<longleftrightarrow> at_version rows pk v"
proof (cases "pg_abs rows pk")
  case None
  then have "\<forall>r \<in> set rows. tr_pk r \<noteq> pk"
    by (auto simp: pg_abs_def find_None_iff)
  with None show ?thesis
    by (auto simp: at_version_def)
next
  case (Some x)
  then obtain r where r: "r \<in> set rows" "tr_pk r = pk" "x = (tr_values r, word_of_int (tr_version r))"
    using pg_abs_Some by blast
  have "r' = r" if "r' \<in> set rows" "tr_pk r' = pk" for r'
    using find_pk_Some [OF wf that(1)] find_pk_Some [OF wf r(1)] r(2) that(2) by simp
  then have "at_version rows pk v \<longleftrightarrow> v \<noteq> 0 \<and> tr_version r = sint v"
    unfolding at_version_def using r(1,2) by (metis (full_types))
  moreover have "word_of_int (tr_version r) = v \<longleftrightarrow> v \<noteq> 0 \<and> tr_version r = sint v"
  proof
    assume "word_of_int (tr_version r) = v"
    with keyed_row_abs(2,3) [OF wf r(1)] show "v \<noteq> 0 \<and> tr_version r = sint v"
      by (cases r) (simp add: keyed_row_def)
  qed simp
  ultimately show ?thesis
    using Some r(3) by simp
qed

lemma tb_write_conflict:
  assumes "\<not> at_version rows (tenant, i) v"
  shows "tb_write t sc tenant i v vs rows = (rows, [], Ok 0)"
  using assms by (auto simp: at_version_def tb_write_def tb_insert_def tb_update_def Let_def filter_empty_conv split: if_splits)

lemma tb_write_current:
  assumes "at_version rows (tenant, i) v" and guard: "\<forall>r \<in> set rows. tr_pk r = (tenant, i) \<longrightarrow> guard_matches t sc vs r"
    and v: "0 \<le> sint v" "sint v < max_int64"
  shows "case find (breaks t (keyed_row (tenant, i) (store_values t sc vs, v + 1)) rows) (sc_constraints sc) of
      Some (name, _) \<Rightarrow> tb_write t sc tenant i v vs rows = (rows, [], Err (unique_error t name))
    | None \<Rightarrow> \<exists>b ks n. tb_write t sc tenant i v vs rows = (b, ks, Ok n) \<and> n \<noteq> 0"
proof -
  have "sint (word_of_int (sint v + 1) :: Version) = sint v + 1"
    using v by (intro version_word(2)) simp_all
  then have next_v: "sint (v + 1) = sint v + 1"
    by simp
  have new: "keyed_row (tenant, i) (store_values t sc vs, v + 1) =
      \<lparr>tr_tenant = tenant, tr_id = i, tr_version = sint v + 1, tr_values = store_values t sc vs\<rparr>"
    using next_v by (simp add: keyed_row_def)
  show ?thesis
  proof (cases "v = 0")
    case True
    with assms(1) show ?thesis
      unfolding new by (auto simp: at_version_def tb_write_def tb_insert_def split: option.split)
  next
    case False
    with assms(1) obtain r where "r \<in> set rows" "tr_pk r = (tenant, i)" "tr_version r = sint v"
      by (auto simp: at_version_def)
    with guard have some: "filter (\<lambda>r. tr_pk r = (tenant, i) \<and> tr_version r = sint v \<and> guard_matches t sc vs r) rows \<noteq> []"
      by (auto simp: filter_empty_conv)
    with v(2) False show ?thesis
      unfolding new by (simp add: tb_write_def tb_update_def Let_def split: option.split)
  qed
qed

text \<open>
  C9. A save of a PostgreSQL table does what the specification says. When the transaction is alone, its table declares
  its constraints and the row keeps its series: a stale version is a conflict, a second row under the key of a
  constraint is its violation, carrying the declared rejection only while the transaction wrote nothing, and otherwise
  the row has the stored values and the next version; in every case the transaction stays usable and no other row
  changes.
\<close>

theorem tb_Save_refines_versioned_map:
  assumes "pg_inv t sc c" and "\<not> tc_aborted c" and "pg_tenantOf ctx = Ok tenant" and "encodes t state vs"
    and "pt_Unique t \<noteq> []" and "0 \<le> sint v" and "sint v < max_int64"
    and "\<forall>r \<in> set (tb_rows c). tr_pk r = (tenant, i) \<longrightarrow> guard_matches t sc vs r"
  shows "\<exists>c'. tb_Save pg_quiet t sc ctx i state v c =
      (c', snd (pg_spec_save t sc (tenant, i) vs v (tc_writes c = 0) (pg_abs (tb_rows c)))) \<and>
    pg_abs (tb_rows c') = fst (pg_spec_save t sc (tenant, i) vs v (tc_writes c = 0) (pg_abs (tb_rows c))) \<and>
    \<not> tc_aborted c' \<and> pg_inv t sc c'"
proof -
  let ?rows = "tb_rows c" and ?x = "(store_values t sc vs, v + 1)"
  let ?spec = "pg_spec_save t sc (tenant, i) vs v (tc_writes c = 0) (pg_abs ?rows)"
  have wf: "rows_wf ?rows" and codec: "sound_codec t sc"
    using assms(1) by (simp_all add: pg_inv_def)
  obtain lock where lock: "series_lock t tenant vs lock"
    using sound_codecE [OF codec] encodes_unique [OF assms(4)] by metis
  note version = at_version_abs [OF wf, of "(tenant, i)" v]
  have find: "find (pg_collision t (pg_abs ?rows) (tenant, i) ?x) (sc_constraints sc) =
      find (breaks t (keyed_row (tenant, i) ?x) ?rows) (sc_constraints sc)"
    by (rule find_cong) (simp_all add: pg_collision_breaks [OF wf])
  have "\<exists>c'. tb_Save pg_quiet t sc ctx i state v c = (c', snd ?spec) \<and> pg_abs (tb_rows c') = fst ?spec \<and> \<not> tc_aborted c'"
  proof (cases "at_version ?rows (tenant, i) v")
    case False
    with version have spec: "?spec = (pg_abs ?rows, settled 0)"
      by (simp add: pg_spec_save_def settled_def)
    obtain c' where "tb_Save pg_quiet t sc ctx i state v c = (c', settled 0)" "after_write c ?rows 0 c'"
      using Save_accepted [OF assms(2-4) lock tb_write_conflict [OF False]] .
    then show ?thesis
      unfolding spec by (auto simp: after_write_def)
  next
    case True
    note wrote = tb_write_current [OF True assms(8,6,7)]
    show ?thesis
    proof (cases "find (breaks t (keyed_row (tenant, i) ?x) ?rows) (sc_constraints sc)")
      case (Some k)
      obtain name cols where k: "k = (name, cols)" by fastforce
      from True version Some have spec: "?spec = (pg_abs ?rows, Err (refusal t (tc_writes c = 0) name))"
        by (simp add: pg_spec_save_def find k)
      from wrote Some k have "tb_write t sc tenant i v vs ?rows = (?rows, [], Err (unique_error t name))"
        by simp
      from Save_refused [OF assms(2-4) lock assms(5) this] obtain c' where
        "tb_Save pg_quiet t sc ctx i state v c = (c', Err (refusal t (tc_writes c = 0) name))" "tb_rows c' = ?rows" "\<not> tc_aborted c'" .
      then show ?thesis
        unfolding spec by simp
    next
      case None
      from True version None have spec: "?spec = ((pg_abs ?rows)((tenant, i) \<mapsto> ?x), Ok ())"
        by (simp add: pg_spec_save_def find)
      from wrote None obtain b ks n where w: "tb_write t sc tenant i v vs ?rows = (b, ks, Ok n)" "n \<noteq> 0"
        by auto
      have map: "pg_abs b = (pg_abs ?rows)((tenant, i) \<mapsto> ?x)"
        by (rule ext) (use tb_write_Ok(1,2) [OF w wf] next_version [of v] in \<open>auto simp: pg_abs_def\<close>)
      obtain c' where "tb_Save pg_quiet t sc ctx i state v c = (c', settled n)" "after_write c b n c'"
        using Save_accepted [OF assms(2-4) lock w(1)] .
      with w(2) map show ?thesis
        unfolding spec by (auto simp: after_write_def settled_def)
    qed
  qed
  with pg_inv_save [OF assms(1)] show ?thesis
    by blast
qed

text \<open>
  C13. No lost update: of two saves that expect the same version, the second is refused with a version conflict and a load
  still reads what the first one stored.
\<close>

theorem tb_Save_loses_no_update:
  assumes "pg_inv t sc c" and "tb_Save pg_quiet t sc ctx i state v c = (c', Ok ())"
  shows "snd (tb_Save pg_quiet t sc ctx i state' v c') = Fail ErrVersionConflict \<and>
    snd (tb_Load pg_quiet t sc ctx i (fst (tb_Save pg_quiet t sc ctx i state' v c'))) = Ok (stored_state t sc i state, v + 1)"
  by (rule pg_repo.no_lost_update [OF assms])

section \<open>The bookings again\<close>

lemma sample_bookings_codec: "sound_codec sample_bookings sample_schema"
proof -
  have "encodes sample_bookings (x, y) [SqlText x, SqlText y]" for x y
    by (simp add: encodes_def sample_bookings_def)
  moreover have "series_lock sample_bookings tenant [SqlText x, SqlText y] (Some (GuardExclusive tenant x))" for x y tenant
    by (simp add: series_lock_def sample_bookings_def guardIndex_def)
  moreover have "tb_decode sample_bookings (Ok (store_values sample_bookings sample_schema [SqlText x, SqlText y])) = Ok (x, y)" for x y
    by (simp add: tb_decode_def store_values_def sample_bookings_def sample_schema_def)
  ultimately have "\<exists>vs lock d. encodes sample_bookings s vs \<and> series_lock sample_bookings tenant vs lock \<and>
      tb_decode sample_bookings (Ok (store_values sample_bookings sample_schema vs)) = Ok d" for s tenant
    by (cases s) blast
  then show ?thesis
    by (simp add: sound_codec_def sample_bookings_decode)
qed

lemma sample_inv: "pg_inv sample_bookings sample_schema sample_tb_conn"
proof -
  have "tb_decode sample_bookings (Ok [SqlText ''room'', SqlText ''i-1'']) = Ok (''room'', ''i-1'')"
    by (simp add: tb_decode_def sample_bookings_def)
  then show ?thesis
    by (simp add: pg_inv_def sample_bookings_codec rows_wf_def readable_def tb_opened_def pg_opened_def booking_rows_def max_int64_def)
qed

theorem tb_Save_refines_versioned_map_witness:
  "snd (tb_Save pg_quiet sample_bookings sample_schema sample_context ''b-2'' (''room'', ''i-1'') 0 sample_tb_conn) =
     snd (pg_spec_save sample_bookings sample_schema (''t-1'', ''b-2'') [SqlText ''room'', SqlText ''i-1''] 0 True (pg_abs booking_rows))"
proof -
  have "encodes sample_bookings (''room'', ''i-1'') [SqlText ''room'', SqlText ''i-1'']" "pt_Unique sample_bookings \<noteq> []"
    by (simp_all add: encodes_def sample_bookings_def)
  from tb_Save_refines_versioned_map [OF sample_inv _ sample_tenant this, of 0 "''b-2''"] show ?thesis
    by (auto simp: tb_opened_def pg_opened_def max_int64_def booking_rows_def tr_pk_def)
qed

theorem tb_Save_loses_no_update_witness:
  "\<exists>c'. tb_Save pg_quiet sample_bookings sample_schema sample_context ''b-1'' (''room'', ''i-9'') 1 sample_tb_conn = (c', Ok ()) \<and>
     snd (tb_Save pg_quiet sample_bookings sample_schema sample_context ''b-1'' (''room'', ''i-8'') 1 c') = Fail ErrVersionConflict"
proof -
  let ?save = "tb_Save pg_quiet sample_bookings sample_schema sample_context ''b-1'' (''room'', ''i-9'') 1 sample_tb_conn"
  have "snd ?save = Ok ()"
    by code_simp
  then have run: "?save = (fst ?save, Ok ())"
    by (simp add: prod_eq_iff)
  from tb_Save_loses_no_update [OF sample_inv run, of "(''room'', ''i-8'')"] run show ?thesis
    by blast
qed

end
