(* ===== verification/Kafka_Worker.thy ===== *)
theory Kafka_Worker
  imports App_Consumer
begin

text \<open>
  The Kafka consumer's partition worker, \<^verbatim>\<open>libs/backend/go/kafka\<close>: the cursor of acknowledged records
  (\<^verbatim>\<open>offsets.go\<close>), the acknowledger of one delivery (\<^verbatim>\<open>acknowledger.go\<close>) and the goroutine that processes one
  partition in order (\<^verbatim>\<open>worker.go\<close>), with the steps of \<^verbatim>\<open>consumer.go\<close> that reach it: the poll loop enqueues, a
  revocation closes the commit gate, cancels the goroutine, waits for it and commits what is due.

  Each critical section under the worker's mutex is a function on its state. The goroutine, the poll loop and the
  revocation interleave between them: \<open>kafka_act\<close> is one step of one of them. The client library is its answers:
  whether a commit succeeded, and a switch for the fetch of the partition. The broker hands the records of a
  partition over in the order of their offsets. Logs and metrics are not modelled.
\<close>

section \<open>Cursor and acknowledger\<close>

record krecord =
  kr_Offset :: int
  kr_Value :: bytes

type_synonym cursor = "(krecord \<times> bool) list"

definition cursor_Track :: "krecord \<Rightarrow> cursor \<Rightarrow> cursor" where
  "cursor_Track r c = c @ [(r, False)]"

fun cursor_Mark :: "int \<Rightarrow> cursor \<Rightarrow> cursor" where
  "cursor_Mark offset [] = []"
| "cursor_Mark offset ((r, a) # c) = (if kr_Offset r = offset then (r, True) # c else (r, a) # cursor_Mark offset c)"

definition cursor_NextContiguous :: "cursor \<Rightarrow> cursor \<times> krecord option" where
  "cursor_NextContiguous c =
     (let n = length (takeWhile snd c) in
      if n = 0 then (c, None) else (drop n c, Some (fst (c ! (n - 1)))))"

datatype kgesture = GestureUndecided | GestureAcked | GestureReleased

definition acknowledger_decide :: "kgesture \<Rightarrow> kgesture \<Rightarrow> kgesture \<times> gerr option" where
  "acknowledger_decide g a = (if a \<noteq> GestureUndecided then (a, Some (Sentinel Kafka_ErrAlreadyDisposed)) else (g, None))"

text \<open>The acknowledger a sink is handed: its gesture is part of the world of the attempt.\<close>

definition kafka_acknowledger :: "('w \<times> kgesture) Acknowledger" where
  "kafka_acknowledger =
     \<lparr>ack_Ack = (\<lambda>ctx (w, a). case acknowledger_decide GestureAcked a of (a', e) \<Rightarrow> ((w, a'), Returned e)),
      ack_Release = (\<lambda>ctx (w, a). case acknowledger_decide GestureReleased a of (a', e) \<Rightarrow> ((w, a'), Returned e))\<rparr>"

type_synonym 'w Sink = "bytes \<Rightarrow> int \<Rightarrow> ('w \<times> kgesture) Acknowledger \<Rightarrow> 'w \<times> kgesture \<Rightarrow> ('w \<times> kgesture) \<times> gerr option ran"

definition worker_handle :: "'w Sink \<Rightarrow> krecord \<Rightarrow> int \<Rightarrow> 'w \<Rightarrow> 'w \<times> kgesture \<times> gerr option" where
  "worker_handle sink r attemptNo w =
     (case sink (kr_Value r) attemptNo kafka_acknowledger (w, GestureUndecided) of
        ((w', a), Returned err) \<Rightarrow> (w', a, err)
      | ((w', a), Panics _) \<Rightarrow> (w', a, Some (Sentinel Kafka_ErrSinkPanicked)))"

section \<open>The worker under its mutex\<close>

record partitionWorker =
  pw_queue :: "krecord list"
  pw_paused :: bool
  pw_stalled :: bool
  pw_revoked :: bool
  pw_cursor :: cursor

definition newPartitionWorker :: partitionWorker where
  "newPartitionWorker = \<lparr>pw_queue = [], pw_paused = False, pw_stalled = False, pw_revoked = False, pw_cursor = []\<rparr>"

text \<open>The second component says whether the caller pauses or resumes the fetch afterwards.\<close>

definition worker_enqueue :: "int \<Rightarrow> krecord \<Rightarrow> partitionWorker \<Rightarrow> partitionWorker \<times> bool" where
  "worker_enqueue QueuePerPartition r w =
     (let queue = pw_queue w @ [r]; pause = \<not> pw_paused w \<and> int (length queue) \<ge> QueuePerPartition in
      (w\<lparr>pw_queue := queue, pw_paused := pw_paused w \<or> pause\<rparr>, pause))"

definition worker_markRevoked :: "partitionWorker \<Rightarrow> partitionWorker" where
  "worker_markRevoked w = w\<lparr>pw_revoked := True\<rparr>"

definition worker_next :: "int \<Rightarrow> partitionWorker \<Rightarrow> (partitionWorker \<times> krecord \<times> bool) option" where
  "worker_next QueuePerPartition w =
     (if pw_stalled w then None
      else case pw_queue w of
        [] \<Rightarrow> None
      | r # queue \<Rightarrow>
          let resume = pw_paused w \<and> \<not> pw_stalled w \<and> int (length queue) < QueuePerPartition div 2 in
          Some (w\<lparr>pw_queue := queue, pw_paused := pw_paused w \<and> \<not> resume\<rparr>, r, resume))"

definition worker_resumeFetch :: "partitionWorker \<Rightarrow> partitionWorker \<times> bool" where
  "worker_resumeFetch w = (w\<lparr>pw_paused := False\<rparr>, pw_paused w)"

definition worker_stall :: "partitionWorker \<Rightarrow> partitionWorker \<times> bool" where
  "worker_stall w = (w\<lparr>pw_stalled := True, pw_paused := True\<rparr>, \<not> pw_paused w)"

definition worker_pauseForBackoff :: "partitionWorker \<Rightarrow> partitionWorker \<times> bool" where
  "worker_pauseForBackoff w = (w\<lparr>pw_paused := True\<rparr>, \<not> pw_paused w)"

definition worker_resumeAfterBackoff :: "int \<Rightarrow> partitionWorker \<Rightarrow> partitionWorker \<times> bool" where
  "worker_resumeAfterBackoff QueuePerPartition w =
     (let resume = pw_paused w \<and> \<not> pw_stalled w \<and> int (length (pw_queue w)) < QueuePerPartition in
      (w\<lparr>pw_paused := pw_paused w \<and> \<not> resume\<rparr>, resume))"

definition worker_commitContiguous :: "bool \<Rightarrow> partitionWorker \<Rightarrow> partitionWorker \<times> krecord option" where
  "worker_commitContiguous final w =
     (if pw_revoked w \<and> \<not> final then (w, None)
      else case cursor_NextContiguous (pw_cursor w) of (c, r) \<Rightarrow> (w\<lparr>pw_cursor := c\<rparr>, r))"

section \<open>The goroutines around it\<close>

text \<open>
  Where the worker's goroutine is: waiting for a signal, at the head of its loop, about to resume the fetch and track
  a record, before an attempt, after it, and in the branches of \<open>process\<close>. \<open>WorkerDone\<close> is the closed \<open>done\<close>
  channel.
\<close>

datatype worker_phase =
    WorkerIdle | WorkerLoop | WorkerNext krecord bool | WorkerAttempt krecord int | WorkerHandled krecord int kgesture
  | WorkerMark krecord | WorkerCommit | WorkerCommitting krecord | WorkerStall krecord
  | WorkerBackoff krecord int | WorkerSleep krecord int | WorkerWoken krecord int bool | WorkerDone

record 'w kafka =
  ks_worker :: partitionWorker
  ks_signal :: bool
  ks_cancelled :: bool
  ks_phase :: worker_phase
  ks_poll :: "bool option"
  ks_fetch_paused :: bool
  ks_world :: 'w
  ks_delivered :: "krecord list"
  ks_attempts :: "(krecord \<times> int \<times> kgesture \<times> 'w) list"
  ks_commits :: "krecord list"

record worker_config =
  wc_MaxAttempts :: int
  wc_QueuePerPartition :: int

definition kafka_started :: "'w \<Rightarrow> 'w kafka" where
  "kafka_started w =
     \<lparr>ks_worker = newPartitionWorker, ks_signal = False, ks_cancelled = False, ks_phase = WorkerIdle, ks_poll = None,
      ks_fetch_paused = False, ks_world = w, ks_delivered = [], ks_attempts = [], ks_commits = []\<rparr>"

text \<open>\<open>process\<close> from the return of the sink to its next action.\<close>

definition process_decision :: "worker_config \<Rightarrow> krecord \<Rightarrow> int \<Rightarrow> kgesture \<Rightarrow> worker_phase" where
  "process_decision cfg r attemptNo g =
     (case g of
        GestureAcked \<Rightarrow> WorkerMark r
      | GestureUndecided \<Rightarrow> WorkerStall r
      | GestureReleased \<Rightarrow> if attemptNo \<ge> wc_MaxAttempts cfg then WorkerStall r else WorkerBackoff r attemptNo)"

text \<open>One step of the goroutine; \<open>ok\<close> is the answer of a commit, when the step makes one.\<close>

definition worker_advance :: "worker_config \<Rightarrow> 'w Sink \<Rightarrow> bool \<Rightarrow> 'w kafka \<Rightarrow> 'w kafka option" where
  "worker_advance cfg sink ok s =
     (case ks_phase s of
        WorkerIdle \<Rightarrow>
          if ks_cancelled s then Some (s\<lparr>ks_phase := WorkerDone\<rparr>)
          else if ks_signal s then Some (s\<lparr>ks_signal := False, ks_phase := WorkerLoop\<rparr>) else None
      | WorkerLoop \<Rightarrow>
          if ks_cancelled s then Some (s\<lparr>ks_phase := WorkerDone\<rparr>)
          else Some (case worker_next (wc_QueuePerPartition cfg) (ks_worker s) of
              None \<Rightarrow> s\<lparr>ks_phase := WorkerIdle\<rparr>
            | Some (w, r, resume) \<Rightarrow> s\<lparr>ks_worker := w, ks_phase := WorkerNext r resume\<rparr>)
      | WorkerNext r resume \<Rightarrow>
          Some (s\<lparr>ks_fetch_paused := ks_fetch_paused s \<and> \<not> resume,
            ks_worker := (ks_worker s)\<lparr>pw_cursor := cursor_Track r (pw_cursor (ks_worker s))\<rparr>, ks_phase := WorkerAttempt r 1\<rparr>)
      | WorkerAttempt r n \<Rightarrow>
          if ks_cancelled s then Some (s\<lparr>ks_phase := WorkerLoop\<rparr>)
          else (case worker_handle sink r n (ks_world s) of
            (w, g, err) \<Rightarrow> Some (s\<lparr>ks_world := w, ks_attempts := ks_attempts s @ [(r, n, g, ks_world s)], ks_phase := WorkerHandled r n g\<rparr>))
      | WorkerHandled r n g \<Rightarrow>
          Some (s\<lparr>ks_phase := (if ks_cancelled s then WorkerLoop else process_decision cfg r n g)\<rparr>)
      | WorkerMark r \<Rightarrow>
          Some (s\<lparr>ks_worker := (ks_worker s)\<lparr>pw_cursor := cursor_Mark (kr_Offset r) (pw_cursor (ks_worker s))\<rparr>, ks_phase := WorkerCommit\<rparr>)
      | WorkerCommit \<Rightarrow>
          (case worker_commitContiguous False (ks_worker s) of
             (w, None) \<Rightarrow> Some (s\<lparr>ks_worker := w, ks_phase := WorkerLoop\<rparr>)
           | (w, Some r) \<Rightarrow> Some (s\<lparr>ks_worker := w, ks_phase := WorkerCommitting r\<rparr>))
      | WorkerCommitting r \<Rightarrow>
          Some (s\<lparr>ks_commits := ks_commits s @ (if ok then [r] else []), ks_phase := WorkerLoop\<rparr>)
      | WorkerStall r \<Rightarrow>
          (case worker_stall (ks_worker s) of
             (w, pause) \<Rightarrow> Some (s\<lparr>ks_worker := w, ks_fetch_paused := ks_fetch_paused s \<or> pause, ks_phase := WorkerLoop\<rparr>))
      | WorkerBackoff r n \<Rightarrow>
          (case worker_pauseForBackoff (ks_worker s) of
             (w, pause) \<Rightarrow> Some (s\<lparr>ks_worker := w, ks_fetch_paused := ks_fetch_paused s \<or> pause, ks_phase := WorkerSleep r n\<rparr>))
      | WorkerSleep r n \<Rightarrow>
          (case worker_resumeAfterBackoff (wc_QueuePerPartition cfg) (ks_worker s) of
             (w, resume) \<Rightarrow> Some (s\<lparr>ks_worker := w, ks_phase := WorkerWoken r n resume\<rparr>))
      | WorkerWoken r n resume \<Rightarrow>
          Some (s\<lparr>ks_fetch_paused := ks_fetch_paused s \<and> \<not> resume,
            ks_phase := (if ks_cancelled s then WorkerLoop else WorkerAttempt r (n + 1))\<rparr>)
      | WorkerDone \<Rightarrow> None)"

text \<open>What the poll loop, the revocation and the rest of the world do.\<close>

datatype 'w kafka_action = Deliver krecord | Enqueued | Advance bool | Revoke | Cancel | Settle bool | Elsewhere 'w

definition kafka_settle :: "bool \<Rightarrow> 'w kafka \<Rightarrow> 'w kafka" where
  "kafka_settle ok s =
     (case worker_resumeFetch (ks_worker s) of
        (w1, resume) \<Rightarrow>
          (case worker_commitContiguous True w1 of
             (w2, r) \<Rightarrow> s\<lparr>ks_worker := w2, ks_fetch_paused := ks_fetch_paused s \<and> \<not> resume,
               ks_commits := ks_commits s @ (case r of Some c \<Rightarrow> if ok then [c] else [] | None \<Rightarrow> [])\<rparr>))"

fun kafka_act :: "worker_config \<Rightarrow> 'w Sink \<Rightarrow> 'w kafka_action \<Rightarrow> 'w kafka \<Rightarrow> 'w kafka option" where
  "kafka_act cfg sink (Deliver r) s =
     (if ks_poll s = None \<and> (\<forall>d \<in> set (ks_delivered s). kr_Offset d < kr_Offset r)
      then (case worker_enqueue (wc_QueuePerPartition cfg) r (ks_worker s) of
        (w, pause) \<Rightarrow> Some (s\<lparr>ks_worker := w, ks_poll := Some pause, ks_delivered := ks_delivered s @ [r]\<rparr>))
      else None)"
| "kafka_act cfg sink Enqueued s =
     (case ks_poll s of
        None \<Rightarrow> None
      | Some pause \<Rightarrow> Some (s\<lparr>ks_fetch_paused := ks_fetch_paused s \<or> pause, ks_signal := True, ks_poll := None\<rparr>))"
| "kafka_act cfg sink (Advance ok) s = worker_advance cfg sink ok s"
| "kafka_act cfg sink Revoke s = Some (s\<lparr>ks_worker := worker_markRevoked (ks_worker s)\<rparr>)"
| "kafka_act cfg sink Cancel s = Some (s\<lparr>ks_cancelled := True\<rparr>)"
| "kafka_act cfg sink (Settle ok) s =
     (if ks_phase s = WorkerDone \<and> pw_revoked (ks_worker s) then Some (kafka_settle ok s) else None)"
| "kafka_act cfg sink (Elsewhere w) s = Some (s\<lparr>ks_world := w\<rparr>)"

fun kafka_run :: "worker_config \<Rightarrow> 'w Sink \<Rightarrow> 'w kafka_action list \<Rightarrow> 'w kafka \<Rightarrow> 'w kafka option" where
  "kafka_run cfg sink [] s = Some s"
| "kafka_run cfg sink (a # as) s = (case kafka_act cfg sink a s of None \<Rightarrow> None | Some s' \<Rightarrow> kafka_run cfg sink as s')"

section \<open>What every run keeps\<close>

lemma NextContiguous_split:
  obtains p where "c = p @ fst (cursor_NextContiguous c)" "\<forall>e \<in> set p. snd e"
    "\<forall>r. snd (cursor_NextContiguous c) = Some r \<longrightarrow> r \<in> fst ` set p"
proof -
  let ?p = "takeWhile snd c"
  have drop: "drop (length ?p) c = dropWhile snd c"
    by (simp add: dropWhile_eq_drop)
  have "r \<in> fst ` set ?p" if "snd (cursor_NextContiguous c) = Some r" for r
  proof -
    from that have n: "?p \<noteq> []" "r = fst (c ! (length ?p - 1))"
      by (auto simp: cursor_NextContiguous_def Let_def split: if_splits)
    then have "c ! (length ?p - 1) = ?p ! (length ?p - 1)"
      by (simp add: takeWhile_nth)
    with n show ?thesis
      by (metis One_nat_def diff_less imageI length_greater_0_conv nth_mem zero_less_one)
  qed
  with drop show thesis
    by (intro that [of ?p])
      (auto simp: cursor_NextContiguous_def Let_def takeWhile_eq_Nil_iff dropWhile_eq_self_iff dest: set_takeWhileD)
qed

lemma NextContiguous_all: "\<forall>e \<in> set c. snd e \<Longrightarrow> fst (cursor_NextContiguous c) = []"
  by (simp add: cursor_NextContiguous_def Let_def takeWhile_eq_all_conv [THEN iffD2])

lemma Mark_last: "\<forall>e \<in> set c. kr_Offset (fst e) \<noteq> kr_Offset r \<Longrightarrow> cursor_Mark (kr_Offset r) (c @ [(r, a)]) = c @ [(r, True)]"
  by (induction c) auto

type_synonym 'w attempt_log = "(krecord \<times> int \<times> kgesture \<times> 'w) list"

definition acked_in :: "'w attempt_log \<Rightarrow> krecord \<Rightarrow> bool" where
  "acked_in attempts r \<longleftrightarrow> (\<exists>n w. (r, n, GestureAcked, w) \<in> set attempts)"

definition tries :: "krecord \<Rightarrow> 'w attempt_log \<Rightarrow> 'w attempt_log" where
  "tries r attempts = filter (\<lambda>x. fst x = r) attempts"

lemma acked_in_append [simp]: "acked_in (xs @ ys) r \<longleftrightarrow> acked_in xs r \<or> acked_in ys r"
  by (auto simp: acked_in_def)

lemma acked_in_one [simp]: "acked_in [(r', n, g, w)] r \<longleftrightarrow> r' = r \<and> g = GestureAcked"
  by (auto simp: acked_in_def)

lemma tries_append [simp]: "tries r (xs @ ys) = tries r xs @ tries r ys"
  by (simp add: tries_def)

lemma tries_one [simp]: "tries r [(r', n, g, w)] = (if r' = r then [(r', n, g, w)] else [])"
  by (simp add: tries_def)

text \<open>
  The order of processing: an attempt at a record follows an acknowledged attempt at every record delivered before it,
  is numbered after the earlier attempts at the record, within the limit, none of which acknowledged it.
\<close>

definition in_order :: "int \<Rightarrow> krecord list \<Rightarrow> 'w attempt_log \<Rightarrow> bool" where
  "in_order limit delivered attempts \<longleftrightarrow>
     (\<forall>xs r n g w ys. attempts = xs @ (r, n, g, w) # ys \<longrightarrow>
        (\<forall>d \<in> set delivered. kr_Offset d < kr_Offset r \<longrightarrow> acked_in xs d) \<and>
        n = int (length (tries r xs)) + 1 \<and> n \<le> limit \<and> \<not> acked_in xs r)"

lemma in_order_attempt:
  assumes "in_order limit delivered attempts" "\<forall>d \<in> set delivered. kr_Offset d < kr_Offset r \<longrightarrow> acked_in attempts d"
    "n = int (length (tries r attempts)) + 1" "n \<le> limit" "\<not> acked_in attempts r"
  shows "in_order limit delivered (attempts @ [(r, n, g, w)])"
  unfolding in_order_def
proof (intro allI impI)
  fix xs r' n' g' w' ys
  assume split: "attempts @ [(r, n, g, w)] = xs @ (r', n', g', w') # ys"
  show "(\<forall>d \<in> set delivered. kr_Offset d < kr_Offset r' \<longrightarrow> acked_in xs d) \<and>
      n' = int (length (tries r' xs)) + 1 \<and> n' \<le> limit \<and> \<not> acked_in xs r'"
  proof (cases ys rule: rev_cases)
    case Nil
    with split have "xs = attempts" "r' = r" "n' = n" by auto
    with assms show ?thesis by simp
  next
    case (snoc zs z)
    with split have "attempts = xs @ (r', n', g', w') # zs" by simp
    with assms(1) show ?thesis
      unfolding in_order_def by blast
  qed
qed

lemma in_order_deliver:
  assumes "in_order limit delivered attempts" "\<forall>d \<in> set delivered. kr_Offset d < kr_Offset r" "fst ` set attempts \<subseteq> set delivered"
  shows "in_order limit (delivered @ [r]) attempts"
  unfolding in_order_def
proof (intro allI impI)
  fix xs r' n' g' w' ys
  assume split: "attempts = xs @ (r', n', g', w') # ys"
  with assms(3) have "r' \<in> set delivered"
    by (auto simp: image_subset_iff)
  with assms(2) have "kr_Offset r' < kr_Offset r" by simp
  moreover have "(\<forall>d \<in> set delivered. kr_Offset d < kr_Offset r' \<longrightarrow> acked_in xs d) \<and>
      n' = int (length (tries r' xs)) + 1 \<and> n' \<le> limit \<and> \<not> acked_in xs r'"
    using assms(1) split unfolding in_order_def by blast
  ultimately show "(\<forall>d \<in> set (delivered @ [r]). kr_Offset d < kr_Offset r' \<longrightarrow> acked_in xs d) \<and>
      n' = int (length (tries r' xs)) + 1 \<and> n' \<le> limit \<and> \<not> acked_in xs r'"
    by auto
qed

text \<open>The record popped and not yet tracked, and the one being processed.\<close>

fun fetched :: "worker_phase \<Rightarrow> krecord list" where
  "fetched (WorkerNext r _) = [r]"
| "fetched _ = []"

fun in_process :: "worker_phase \<Rightarrow> krecord option" where
  "in_process (WorkerAttempt r _) = Some r"
| "in_process (WorkerHandled r _ _) = Some r"
| "in_process (WorkerMark r) = Some r"
| "in_process (WorkerStall r) = Some r"
| "in_process (WorkerBackoff r _) = Some r"
| "in_process (WorkerSleep r _) = Some r"
| "in_process (WorkerWoken r _ _) = Some r"
| "in_process _ = None"

definition all_acked :: "cursor \<Rightarrow> bool" where
  "all_acked c \<longleftrightarrow> (\<forall>e \<in> set c. snd e)"

definition cursor_ok :: "'w kafka \<Rightarrow> bool" where
  "cursor_ok s \<longleftrightarrow>
     (let c = pw_cursor (ks_worker s); stalled = pw_stalled (ks_worker s) in
      case in_process (ks_phase s) of
        Some r \<Rightarrow> \<not> stalled \<and> (\<exists>c0. c = c0 @ [(r, False)] \<and> all_acked c0)
      | None \<Rightarrow>
          (case ks_phase s of
             WorkerNext _ _ \<Rightarrow> \<not> stalled \<and> all_acked c
           | WorkerCommit \<Rightarrow> \<not> stalled \<and> all_acked c
           | WorkerCommitting _ \<Rightarrow> \<not> stalled \<and> all_acked c
           | WorkerDone \<Rightarrow> True
           | _ \<Rightarrow> stalled \<or> ks_cancelled s \<or> all_acked c))"

fun phase_ok :: "int \<Rightarrow> 'w attempt_log \<Rightarrow> worker_phase \<Rightarrow> bool" where
  "phase_ok limit attempts (WorkerNext r _) = (tries r attempts = [])"
| "phase_ok limit attempts (WorkerAttempt r n) =
     (n = int (length (tries r attempts)) + 1 \<and> n \<le> limit \<and> \<not> acked_in attempts r)"
| "phase_ok limit attempts (WorkerHandled r n g) =
     (n = int (length (tries r attempts)) \<and> n \<le> limit \<and> (acked_in attempts r \<longleftrightarrow> g = GestureAcked))"
| "phase_ok limit attempts (WorkerMark r) = acked_in attempts r"
| "phase_ok limit attempts (WorkerBackoff r n) = (n = int (length (tries r attempts)) \<and> n < limit \<and> \<not> acked_in attempts r)"
| "phase_ok limit attempts (WorkerSleep r n) = (n = int (length (tries r attempts)) \<and> n < limit \<and> \<not> acked_in attempts r)"
| "phase_ok limit attempts (WorkerWoken r n _) = (n = int (length (tries r attempts)) \<and> n < limit \<and> \<not> acked_in attempts r)"
| "phase_ok limit attempts _ = True"

definition known :: "krecord list \<Rightarrow> cursor \<Rightarrow> 'w attempt_log \<Rightarrow> bool" where
  "known gone c attempts \<longleftrightarrow> (\<forall>x \<in> set attempts. fst x \<in> set gone \<or> fst x \<in> fst ` set c)"

definition kafka_inv :: "int \<Rightarrow> krecord list \<Rightarrow> 'w kafka \<Rightarrow> bool" where
  "kafka_inv limit gone s \<longleftrightarrow>
     sorted_wrt (\<lambda>a b. kr_Offset a < kr_Offset b) (ks_delivered s) \<and>
     gone @ map fst (pw_cursor (ks_worker s)) @ fetched (ks_phase s) @ pw_queue (ks_worker s) = ks_delivered s \<and>
     (\<forall>r \<in> set gone. acked_in (ks_attempts s) r) \<and>
     set (ks_commits s) \<subseteq> set gone \<and> (\<forall>r. ks_phase s = WorkerCommitting r \<longrightarrow> r \<in> set gone) \<and>
     (\<forall>e \<in> set (pw_cursor (ks_worker s)). snd e \<longrightarrow> acked_in (ks_attempts s) (fst e)) \<and>
     cursor_ok s \<and> phase_ok limit (ks_attempts s) (ks_phase s) \<and> in_order limit (ks_delivered s) (ks_attempts s) \<and>
     known gone (pw_cursor (ks_worker s)) (ks_attempts s)"

lemma offsets_distinct: "sorted_wrt (\<lambda>a b. kr_Offset a < kr_Offset b) rs \<Longrightarrow> distinct rs"
  by (induction rs) auto

lemma offsets_before:
  "sorted_wrt (\<lambda>a b. kr_Offset a < kr_Offset b) (xs @ r # ys) \<Longrightarrow> d \<in> set (xs @ r # ys) \<Longrightarrow> kr_Offset d < kr_Offset r \<Longrightarrow> d \<in> set xs"
  by (fastforce simp: sorted_wrt_append)

lemma kafka_invD:
  assumes "kafka_inv limit gone s"
  shows "sorted_wrt (\<lambda>a b. kr_Offset a < kr_Offset b) (ks_delivered s)"
    "ks_delivered s = gone @ map fst (pw_cursor (ks_worker s)) @ fetched (ks_phase s) @ pw_queue (ks_worker s)"
    "\<forall>r \<in> set gone. acked_in (ks_attempts s) r" "set (ks_commits s) \<subseteq> set gone"
    "in_order limit (ks_delivered s) (ks_attempts s)" "cursor_ok s" "phase_ok limit (ks_attempts s) (ks_phase s)"
    "known gone (pw_cursor (ks_worker s)) (ks_attempts s)" "ks_phase s = WorkerCommitting c \<Longrightarrow> c \<in> set gone"
    "e \<in> set (pw_cursor (ks_worker s)) \<Longrightarrow> snd e \<Longrightarrow> acked_in (ks_attempts s) (fst e)"
proof -
  from assms have parts: "gone @ map fst (pw_cursor (ks_worker s)) @ fetched (ks_phase s) @ pw_queue (ks_worker s) = ks_delivered s"
    unfolding kafka_inv_def by blast
  then show "ks_delivered s = gone @ map fst (pw_cursor (ks_worker s)) @ fetched (ks_phase s) @ pw_queue (ks_worker s)" ..
qed (use assms in \<open>unfold kafka_inv_def; blast\<close>)+

lemma kafka_inv_members:
  assumes "kafka_inv limit gone s"
  shows "set (ks_delivered s) = set gone \<union> fst ` set (pw_cursor (ks_worker s)) \<union> set (fetched (ks_phase s)) \<union> set (pw_queue (ks_worker s))"
  using arg_cong [OF kafka_invD(2) [OF assms], of set] by auto

lemma kafka_inv_attempted:
  assumes "kafka_inv limit gone s"
  shows "fst ` set (ks_attempts s) \<subseteq> set (ks_delivered s)"
proof -
  have "known gone (pw_cursor (ks_worker s)) (ks_attempts s)"
    using assms unfolding kafka_inv_def by blast
  then show ?thesis
    unfolding kafka_inv_members [OF assms] known_def by blast
qed

lemma kafka_started_inv: "kafka_inv limit [] (kafka_started w)"
  by (simp add: kafka_inv_def kafka_started_def newPartitionWorker_def cursor_ok_def all_acked_def in_order_def known_def)

lemma known_mono: "known gone c attempts \<Longrightarrow> known gone (c @ c') attempts"
  by (auto simp: known_def)

lemma known_mark: "known gone (c @ [(r, a)]) attempts \<Longrightarrow> known gone (c @ [(r, b)]) attempts"
  by (simp add: known_def)

lemma untried: "tries r attempts = [] \<Longrightarrow> \<not> acked_in attempts r"
  by (auto simp: tries_def acked_in_def filter_empty_conv)

lemma cursor_ok_cong:
  "cursor_ok s \<Longrightarrow> ks_phase s' = ks_phase s \<Longrightarrow> ks_cancelled s' = ks_cancelled s \<Longrightarrow>
     pw_cursor (ks_worker s') = pw_cursor (ks_worker s) \<Longrightarrow> pw_stalled (ks_worker s') = pw_stalled (ks_worker s) \<Longrightarrow> cursor_ok s'"
  by (simp add: cursor_ok_def cong: option.case_cong worker_phase.case_cong)

lemma kafka_inv_cong:
  assumes "kafka_inv limit gone s" "ks_phase s' = ks_phase s" "ks_cancelled s' = ks_cancelled s"
    "pw_cursor (ks_worker s') = pw_cursor (ks_worker s)" "pw_stalled (ks_worker s') = pw_stalled (ks_worker s)"
    "pw_queue (ks_worker s') = pw_queue (ks_worker s)" "ks_delivered s' = ks_delivered s" "ks_attempts s' = ks_attempts s"
    "ks_commits s' = ks_commits s"
  shows "kafka_inv limit gone s'"
  using assms(1) cursor_ok_cong [of s s'] assms(2-5) unfolding kafka_inv_def assms(2-9) by blast

lemma cursor_ok_cancelled: "cursor_ok s \<Longrightarrow> cursor_ok (s\<lparr>ks_cancelled := True\<rparr>)"
  by (cases "ks_phase s") (auto simp: cursor_ok_def Let_def)

lemma commit_inv:
  assumes "kafka_inv limit gone s" "worker_commitContiguous final (ks_worker s) = (w, r)" "in_process (ks_phase s) = None"
    "fetched (ks_phase s) = []"
  obtains gone' where "ks_delivered s = gone' @ map fst (pw_cursor w) @ pw_queue w"
    "\<forall>x \<in> set gone'. acked_in (ks_attempts s) x" "set gone \<subseteq> set gone'" "\<And>x. r = Some x \<Longrightarrow> x \<in> set gone'"
    "set (pw_cursor w) \<subseteq> set (pw_cursor (ks_worker s))" "pw_stalled w = pw_stalled (ks_worker s)"
    "known gone' (pw_cursor w) (ks_attempts s)"
proof (cases "pw_revoked (ks_worker s) \<and> \<not> final")
  case True
  with assms show thesis
    by (intro that [of gone]) (auto simp: kafka_inv_def worker_commitContiguous_def)
next
  case False
  let ?c = "pw_cursor (ks_worker s)"
  obtain p where p: "?c = p @ fst (cursor_NextContiguous ?c)" "\<forall>e \<in> set p. snd e"
    "\<forall>r. snd (cursor_NextContiguous ?c) = Some r \<longrightarrow> r \<in> fst ` set p"
    by (rule NextContiguous_split [of ?c])
  from False assms(2) have w: "w = (ks_worker s)\<lparr>pw_cursor := fst (cursor_NextContiguous ?c)\<rparr>" "r = snd (cursor_NextContiguous ?c)"
    by (auto simp: worker_commitContiguous_def split: prod.splits)
  have inv: "ks_delivered s = gone @ map fst ?c @ pw_queue (ks_worker s)" "\<forall>x \<in> set gone. acked_in (ks_attempts s) x"
    "\<forall>e \<in> set ?c. snd e \<longrightarrow> acked_in (ks_attempts s) (fst e)" "known gone ?c (ks_attempts s)"
    using assms(1,4) by (simp_all add: kafka_inv_def)
  have c: "map fst ?c = map fst p @ map fst (pw_cursor w)" "set ?c = set p \<union> set (pw_cursor w)"
    using arg_cong [OF p(1), of "map fst"] arg_cong [OF p(1), of set] by (simp_all add: w(1))
  show thesis
  proof (rule that [of "gone @ map fst p"])
    show "\<forall>x \<in> set (gone @ map fst p). acked_in (ks_attempts s) x"
      using inv(2,3) p(2) c(2) by auto
    show "known (gone @ map fst p) (pw_cursor w) (ks_attempts s)"
      using inv(4) c(2) by (auto simp: known_def)
    show "\<And>x. r = Some x \<Longrightarrow> x \<in> set (gone @ map fst p)"
      using p(3) w(2) by auto
  qed (use inv(1) c w in auto)
qed

lemma advance_inv:
  assumes inv: "kafka_inv (wc_MaxAttempts cfg) gone s" and run: "worker_advance cfg sink ok s = Some s'" and limit: "1 \<le> wc_MaxAttempts cfg"
  shows "\<exists>gone'. kafka_inv (wc_MaxAttempts cfg) gone' s'"
proof (cases "ks_phase s")
  case WorkerIdle
  with inv run show ?thesis
    by (intro exI [of _ gone]) (auto simp: kafka_inv_def worker_advance_def cursor_ok_def Let_def split: if_splits)
next
  case WorkerLoop
  show ?thesis
  proof (cases "ks_cancelled s")
    case True
    with WorkerLoop inv run show ?thesis
      by (intro exI [of _ gone]) (auto simp: kafka_inv_def worker_advance_def cursor_ok_def Let_def)
  next
    case live: False
    show ?thesis
    proof (cases "worker_next (wc_QueuePerPartition cfg) (ks_worker s)")
      case None
      with WorkerLoop live inv run show ?thesis
        by (intro exI [of _ gone]) (auto simp: kafka_inv_def worker_advance_def cursor_ok_def Let_def)
    next
      case (Some x)
      obtain w r resume where x: "x = (w, r, resume)" by (cases x) auto
      from Some x have w: "\<not> pw_stalled (ks_worker s)" "pw_queue (ks_worker s) = r # pw_queue w" "pw_cursor w = pw_cursor (ks_worker s)"
        "\<not> pw_stalled w"
        by (auto simp: worker_next_def Let_def split: if_splits list.splits)
      have "tries r (ks_attempts s) = []"
      proof -
        have "r \<notin> set gone \<union> fst ` set (pw_cursor (ks_worker s))"
          using kafka_invD(2) [OF inv] offsets_distinct [OF kafka_invD(1) [OF inv]] w(2) by (auto simp flip: set_map)
        moreover have "known gone (pw_cursor (ks_worker s)) (ks_attempts s)"
          using inv by (simp add: kafka_inv_def)
        ultimately show ?thesis
          by (auto simp: tries_def filter_empty_conv known_def)
      qed
      with WorkerLoop live Some x w inv run show ?thesis
        by (intro exI [of _ gone]) (auto simp: kafka_inv_def worker_advance_def cursor_ok_def Let_def)
    qed
  qed
next
  case (WorkerNext r resume)
  with inv run limit show ?thesis
    by (intro exI [of _ gone])
      (auto simp: kafka_inv_def worker_advance_def cursor_ok_def Let_def cursor_Track_def known_mono untried)
next
  case (WorkerAttempt r n)
  show ?thesis
  proof (cases "ks_cancelled s")
    case True
    with WorkerAttempt inv run show ?thesis
      by (intro exI [of _ gone]) (auto simp: kafka_inv_def worker_advance_def cursor_ok_def Let_def)
  next
    case False
    obtain w g err where "worker_handle sink r n (ks_world s) = (w, g, err)"
      using prod_cases3 by blast
    with WorkerAttempt False run have s': "s' = s\<lparr>ks_world := w, ks_attempts := ks_attempts s @ [(r, n, g, ks_world s)], ks_phase := WorkerHandled r n g\<rparr>"
      by (simp add: worker_advance_def)
    from WorkerAttempt inv obtain c0 where c0: "pw_cursor (ks_worker s) = c0 @ [(r, False)]" "all_acked c0" "\<not> pw_stalled (ks_worker s)"
      by (auto simp: kafka_inv_def cursor_ok_def Let_def)
    have "acked_in (ks_attempts s) d" if d: "d \<in> set (ks_delivered s)" "kr_Offset d < kr_Offset r" for d
    proof -
      have eq: "ks_delivered s = (gone @ map fst c0) @ r # pw_queue (ks_worker s)"
        using inv c0(1) WorkerAttempt by (simp add: kafka_inv_def)
      from offsets_before [OF kafka_invD(1) [OF inv, unfolded eq] d(1) [unfolded eq] d(2)] have "d \<in> set (gone @ map fst c0)" .
      then show ?thesis
        using inv c0(1,2) by (auto simp: kafka_inv_def all_acked_def)
    qed
    with inv WorkerAttempt have "in_order (wc_MaxAttempts cfg) (ks_delivered s) (ks_attempts s @ [(r, n, g, ks_world s)])"
      by (intro in_order_attempt) (auto simp: kafka_inv_def)
    with inv WorkerAttempt c0 show ?thesis
      by (intro exI [of _ gone]) (auto simp: s' kafka_inv_def cursor_ok_def Let_def known_def)
  qed
next
  case (WorkerHandled r n g)
  with run have s': "s' = s\<lparr>ks_phase := (if ks_cancelled s then WorkerLoop else process_decision cfg r n g)\<rparr>"
    by (simp add: worker_advance_def)
  show ?thesis
  proof (cases "ks_cancelled s")
    case True
    with WorkerHandled inv show ?thesis
      by (intro exI [of _ gone]) (auto simp: s' kafka_inv_def cursor_ok_def Let_def)
  next
    case False
    with WorkerHandled inv show ?thesis
      by (intro exI [of _ gone])
        (cases g; cases "n \<ge> wc_MaxAttempts cfg"; simp add: s' kafka_inv_def process_decision_def cursor_ok_def Let_def)
  qed
next
  case (WorkerMark r)
  from WorkerMark inv obtain c0 where c0: "pw_cursor (ks_worker s) = c0 @ [(r, False)]" "all_acked c0" "\<not> pw_stalled (ks_worker s)"
    by (auto simp: kafka_inv_def cursor_ok_def Let_def)
  have "\<forall>e \<in> set c0. kr_Offset (fst e) \<noteq> kr_Offset r"
  proof -
    have "sorted_wrt (\<lambda>a b. kr_Offset a < kr_Offset b) ((gone @ map fst c0) @ r # pw_queue (ks_worker s))"
      using kafka_invD(1) [OF inv, unfolded kafka_invD(2) [OF inv]] c0(1) WorkerMark by simp
    then show ?thesis
      by (fastforce simp: sorted_wrt_append)
  qed
  then have "cursor_Mark (kr_Offset r) (pw_cursor (ks_worker s)) = c0 @ [(r, True)]"
    by (simp add: c0(1) Mark_last)
  with WorkerMark inv run c0 show ?thesis
    using known_mark [of gone c0 r False "ks_attempts s" True]
    by (intro exI [of _ gone]) (auto simp: kafka_inv_def worker_advance_def cursor_ok_def Let_def all_acked_def)
next
  case WorkerCommit
  obtain w r where c: "worker_commitContiguous False (ks_worker s) = (w, r)" by fastforce
  have idle: "in_process (ks_phase s) = None" "fetched (ks_phase s) = []"
    using WorkerCommit by simp_all
  have acked: "all_acked (pw_cursor (ks_worker s))" "\<not> pw_stalled (ks_worker s)"
    using inv WorkerCommit by (simp_all add: kafka_inv_def cursor_ok_def Let_def)
  from commit_inv [OF inv c idle] obtain gone' where gone': "ks_delivered s = gone' @ map fst (pw_cursor w) @ pw_queue w"
    "\<forall>x \<in> set gone'. acked_in (ks_attempts s) x" "set gone \<subseteq> set gone'" "\<And>x. r = Some x \<Longrightarrow> x \<in> set gone'"
    "set (pw_cursor w) \<subseteq> set (pw_cursor (ks_worker s))" "pw_stalled w = pw_stalled (ks_worker s)"
    "known gone' (pw_cursor w) (ks_attempts s)"
    by metis
  from acked gone'(5) have "all_acked (pw_cursor w)"
    by (auto simp: all_acked_def)
  moreover have "\<forall>e \<in> set (pw_cursor w). snd e \<longrightarrow> acked_in (ks_attempts s) (fst e)"
    using gone'(5) kafka_invD(10) [OF inv] by blast
  moreover have "set (ks_commits s) \<subseteq> set gone'"
    using gone'(3) kafka_invD(4) [OF inv] by blast
  moreover have s': "s' = s\<lparr>ks_worker := w, ks_phase := (case r of None \<Rightarrow> WorkerLoop | Some x \<Rightarrow> WorkerCommitting x)\<rparr>"
    using WorkerCommit c run by (auto simp: worker_advance_def split: option.splits)
  ultimately have "kafka_inv (wc_MaxAttempts cfg) gone' s'"
    using kafka_invD(1,5) [OF inv] gone'(1) [symmetric] gone'(2,4,6,7) acked(2)
    unfolding kafka_inv_def by (cases r) (simp_all add: cursor_ok_def Let_def)
  then show ?thesis ..
next
  case (WorkerCommitting r)
  with inv run show ?thesis
    by (intro exI [of _ gone]) (auto simp: kafka_inv_def worker_advance_def cursor_ok_def Let_def)
next
  case (WorkerStall r)
  with inv run show ?thesis
    by (intro exI [of _ gone]) (auto simp: kafka_inv_def worker_advance_def worker_stall_def cursor_ok_def Let_def)
next
  case (WorkerBackoff r n)
  with inv run show ?thesis
    by (intro exI [of _ gone]) (auto simp: kafka_inv_def worker_advance_def worker_pauseForBackoff_def cursor_ok_def Let_def)
next
  case (WorkerSleep r n)
  with inv run show ?thesis
    by (intro exI [of _ gone]) (auto simp: kafka_inv_def worker_advance_def worker_resumeAfterBackoff_def cursor_ok_def Let_def)
next
  case (WorkerWoken r n resume)
  with inv run show ?thesis
    by (intro exI [of _ gone]) (cases "ks_cancelled s"; auto simp: kafka_inv_def worker_advance_def cursor_ok_def Let_def)
next
  case WorkerDone
  with run show ?thesis
    by (simp add: worker_advance_def)
qed

lemma kafka_act_inv:
  assumes inv: "kafka_inv (wc_MaxAttempts cfg) gone s" and run: "kafka_act cfg sink a s = Some s'" and limit: "1 \<le> wc_MaxAttempts cfg"
  shows "\<exists>gone'. kafka_inv (wc_MaxAttempts cfg) gone' s'"
proof (cases a)
  case (Deliver r)
  obtain w pause where w: "worker_enqueue (wc_QueuePerPartition cfg) r (ks_worker s) = (w, pause)" by fastforce
  from Deliver w run have later: "\<forall>d \<in> set (ks_delivered s). kr_Offset d < kr_Offset r"
    and s': "s' = s\<lparr>ks_worker := w, ks_poll := Some pause, ks_delivered := ks_delivered s @ [r]\<rparr>"
    by (auto split: if_splits)
  from w have w': "pw_queue w = pw_queue (ks_worker s) @ [r]" "pw_cursor w = pw_cursor (ks_worker s)" "pw_stalled w = pw_stalled (ks_worker s)"
    by (auto simp: worker_enqueue_def Let_def)
  from kafka_inv_attempted [OF inv] kafka_invD(5) [OF inv] have "in_order (wc_MaxAttempts cfg) (ks_delivered s @ [r]) (ks_attempts s)"
    using later by (intro in_order_deliver)
  moreover have "cursor_ok s'"
    by (rule cursor_ok_cong [OF kafka_invD(6) [OF inv]]) (simp_all add: s' w')
  moreover have "sorted_wrt (\<lambda>a b. kr_Offset a < kr_Offset b) (ks_delivered s @ [r])"
    using kafka_invD(1) [OF inv] later by (simp add: sorted_wrt_append)
  moreover have "gone @ map fst (pw_cursor (ks_worker s)) @ fetched (ks_phase s) @ pw_queue (ks_worker s) @ [r] = ks_delivered s @ [r]"
    by (simp add: kafka_invD(2) [OF inv])
  ultimately have "kafka_inv (wc_MaxAttempts cfg) gone s'"
    using kafka_invD(3,4,7-10) [OF inv] unfolding kafka_inv_def by (simp add: s' w')
  then show ?thesis ..
next
  case Enqueued
  with run show ?thesis
    by (intro exI [of _ gone] kafka_inv_cong [OF inv]) (auto split: option.splits)
next
  case (Advance ok)
  with inv run limit show ?thesis
    by (auto intro: advance_inv)
next
  case Revoke
  with run show ?thesis
    by (intro exI [of _ gone] kafka_inv_cong [OF inv]) (auto simp: worker_markRevoked_def)
next
  case Cancel
  with inv run show ?thesis
    by (intro exI [of _ gone]) (auto simp: kafka_inv_def intro: cursor_ok_cancelled)
next
  case (Settle ok)
  from Settle run have ended: "ks_phase s = WorkerDone" and s': "s' = kafka_settle ok s"
    by (auto split: if_splits)
  let ?s1 = "s\<lparr>ks_worker := fst (worker_resumeFetch (ks_worker s))\<rparr>"
  have inv1: "kafka_inv (wc_MaxAttempts cfg) gone ?s1"
    using inv ended by (simp add: kafka_inv_def cursor_ok_def Let_def worker_resumeFetch_def)
  obtain w r where c: "worker_commitContiguous True (ks_worker ?s1) = (w, r)" by fastforce
  have idle: "in_process (ks_phase ?s1) = None" "fetched (ks_phase ?s1) = []"
    using ended by simp_all
  from commit_inv [OF inv1 c idle] obtain gone' where gone': "ks_delivered ?s1 = gone' @ map fst (pw_cursor w) @ pw_queue w"
    "\<forall>x \<in> set gone'. acked_in (ks_attempts ?s1) x" "set gone \<subseteq> set gone'" "\<And>x. r = Some x \<Longrightarrow> x \<in> set gone'"
    "set (pw_cursor w) \<subseteq> set (pw_cursor (ks_worker ?s1))" "known gone' (pw_cursor w) (ks_attempts ?s1)"
    by metis
  have s'': "s' = s\<lparr>ks_worker := w, ks_fetch_paused := ks_fetch_paused s \<and> \<not> pw_paused (ks_worker s),
      ks_commits := ks_commits s @ (case r of Some c \<Rightarrow> if ok then [c] else [] | None \<Rightarrow> [])\<rparr>"
    using c by (simp add: s' kafka_settle_def worker_resumeFetch_def)
  show ?thesis
    unfolding s'' using ended inv1 gone'
    by (intro exI [of _ gone']) (cases r; auto simp: kafka_inv_def cursor_ok_def Let_def worker_resumeFetch_def)
next
  case (Elsewhere w)
  with run show ?thesis
    by (intro exI [of _ gone] kafka_inv_cong [OF inv]) auto
qed

lemma kafka_run_inv:
  "kafka_inv (wc_MaxAttempts cfg) gone s \<Longrightarrow> kafka_run cfg sink as s = Some s' \<Longrightarrow> 1 \<le> wc_MaxAttempts cfg \<Longrightarrow>
     \<exists>gone'. kafka_inv (wc_MaxAttempts cfg) gone' s'"
proof (induction as arbitrary: gone s)
  case (Cons a as)
  from Cons.prems(2) obtain s1 where s1: "kafka_act cfg sink a s = Some s1" "kafka_run cfg sink as s1 = Some s'"
    by (auto split: option.splits)
  from kafka_act_inv [OF Cons.prems(1) s1(1) Cons.prems(3)] obtain gone1 where "kafka_inv (wc_MaxAttempts cfg) gone1 s1" ..
  from Cons.IH [OF this s1(2) Cons.prems(3)] show ?case .
qed auto

lemma kafka_reachable:
  assumes "kafka_run cfg sink as (kafka_started w) = Some s" "1 \<le> wc_MaxAttempts cfg"
  obtains gone where "kafka_inv (wc_MaxAttempts cfg) gone s"
  using kafka_run_inv [OF kafka_started_inv assms] by blast

section \<open>What the group's committed offset promises\<close>

lemma committed_acked:
  assumes "kafka_run cfg sink as (kafka_started w) = Some s" "1 \<le> wc_MaxAttempts cfg" "c \<in> set (ks_commits s)"
    "r \<in> set (ks_delivered s)" "kr_Offset r \<le> kr_Offset c"
  shows "acked_in (ks_attempts s) r"
proof -
  obtain gone where inv: "kafka_inv (wc_MaxAttempts cfg) gone s"
    using kafka_reachable [OF assms(1,2)] .
  from kafka_invD(4) [OF inv] assms(3) have "c \<in> set gone" by blast
  moreover obtain rest where rest: "ks_delivered s = gone @ rest"
    using kafka_invD(2) [OF inv] by blast
  moreover have "sorted_wrt (\<lambda>a b. kr_Offset a < kr_Offset b) (gone @ rest)"
    using kafka_invD(1) [OF inv] rest by simp
  ultimately have "r \<in> set gone"
    using assms(4,5) by (fastforce simp: sorted_wrt_append)
  with kafka_invD(3) [OF inv] show ?thesis by blast
qed

end
