(* ===== verification/Kafka_Sink.thy ===== *)
theory Kafka_Sink
  imports Kafka_Worker
begin

text \<open>
  The sink a service hangs on the Kafka worker, \<^verbatim>\<open>libs/backend/go/app/sink.go\<close>: every delivery goes to the consumer
  adapter of \<open>App_Consumer\<close>, with the acknowledger of the delivery. The theorems compose the two: what a committed
  offset says of the handlers and the quarantine, for every record up to it.
\<close>

section \<open>The consumer adapter as a sink\<close>

text \<open>
  The consumer's collaborators know nothing of the gesture, which is the acknowledger's. A type variable stands for
  what they know.
\<close>

definition beside :: "('w \<Rightarrow> 'w \<times> 'b) \<Rightarrow> 'w \<times> kgesture \<Rightarrow> ('w \<times> kgesture) \<times> 'b" where
  "beside f s = (case f (fst s) of (w, r) \<Rightarrow> ((w, snd s), r))"

definition beside_consumer :: "'w Consumer \<Rightarrow> ('w \<times> kgesture) Consumer" where
  "beside_consumer c = \<lparr>con_Name = con_Name c, con_MaxAttempts = con_MaxAttempts c,
     con_Handle = map_option (\<lambda>h ctx r e. beside (h ctx r e)) (con_Handle c), con_Accepts = con_Accepts c,
     con_Containment = map_option (\<lambda>keep ctx item. beside (keep ctx item)) (con_Containment c),
     con_Clock = map_option (\<lambda>now s. now (fst s)) (con_Clock c), con_Timeout = con_Timeout c,
     con_Boundary = con_Boundary c, con_Locale = con_Locale c, con_Carries = con_Carries c\<rparr>"

definition Sink_Handle :: "(bytes \<Rightarrow> CloudEvent result) \<Rightarrow> (gerr \<Rightarrow> string) \<Rightarrow> 'w Consumer \<Rightarrow> (int \<Rightarrow> carrier) \<Rightarrow>
    ('w \<Rightarrow> attempt_env) \<Rightarrow> 'w Sink" where
  "Sink_Handle proto_Unmarshal text_of c ctx env raw attemptNo ack s =
     (case Consume proto_Unmarshal text_of (beside_consumer c) (ctx attemptNo) (env (fst s))
         \<lparr>dlv_Raw = raw, dlv_Attempt = attemptNo\<rparr> ack s of
        (s', _, err) \<Rightarrow> (s', Returned err))"

section \<open>What the collaborators keep, a delivery keeps\<close>

definition step_keeps :: "('s \<Rightarrow> bool) \<Rightarrow> ('s \<Rightarrow> 's \<times> 'b) \<Rightarrow> bool" where
  "step_keeps P f \<longleftrightarrow> (\<forall>s. P s \<longrightarrow> P (fst (f s)))"

definition consumer_keeps :: "('s \<Rightarrow> bool) \<Rightarrow> 's Consumer \<Rightarrow> 's Acknowledger \<Rightarrow> bool" where
  "consumer_keeps P c ack \<longleftrightarrow>
     (\<forall>handle. con_Handle c = Some handle \<longrightarrow> (\<forall>ctx receipt e. step_keeps P (handle ctx receipt e))) \<and>
     (\<forall>keep. con_Containment c = Some keep \<longrightarrow> (\<forall>ctx item. step_keeps P (keep ctx item))) \<and>
     (\<forall>ctx. step_keeps P (ack_Ack ack ctx)) \<and> (\<forall>ctx. step_keeps P (ack_Release ack ctx))"

lemma step_keepsD: "step_keeps P f \<Longrightarrow> P s \<Longrightarrow> f s = (s', r) \<Longrightarrow> P s'"
  unfolding step_keeps_def by (metis fst_conv)

lemma ack_keeps:
  assumes "consumer_keeps P c ack" "P s"
  shows "gesture (ack_Ack ack) ctx s = (s', e) \<Longrightarrow> P s'" "gesture (ack_Release ack) ctx s = (s', e) \<Longrightarrow> P s'"
proof -
  have acts: "step_keeps P (ack_Ack ack ctx)" "step_keeps P (ack_Release ack ctx)"
    using assms(1) by (simp_all add: consumer_keeps_def)
  show "gesture (ack_Ack ack) ctx s = (s', e) \<Longrightarrow> P s'"
    by (auto simp: gesture_def split: prod.splits dest: step_keepsD [OF acts(1) assms(2)])
  show "gesture (ack_Release ack) ctx s = (s', e) \<Longrightarrow> P s'"
    by (auto simp: gesture_def split: prod.splits dest: step_keepsD [OF acts(2) assms(2)])
qed

lemma quarantine_keeps:
  assumes "consumer_keeps P c ack" "P s" "quarantine c ctx item s = (s', e)"
  shows "P s'"
proof (cases "con_Containment c")
  case None
  with assms(2,3) show ?thesis by (simp add: quarantine_def)
next
  case (Some keep)
  with assms(1) have "step_keeps P (keep ctx item)" by (simp add: consumer_keeps_def)
  from step_keepsD [OF this assms(2)] Some assms(3) show ?thesis
    by (auto simp: quarantine_def split: prod.splits)
qed

lemma contain_keeps:
  assumes "consumer_keeps P c ack" "P s" "contain c ctx ack outcome item cause s = (s', out, err)"
  shows "P s'"
proof -
  obtain s1 e where q: "quarantine c ctx item s = (s1, e)" by fastforce
  from ack_keeps(1) [OF assms(1) quarantine_keeps [OF assms(1,2) q]] quarantine_keeps [OF assms(1,2) q] assms(2,3) q
  show ?thesis
    by (auto simp: contain_def split: if_splits option.splits prod.splits)
qed

lemma settle_keeps:
  assumes "consumer_keeps P c ack" "P s" "settle_disposition c ctx d ack receipt D h s = (s', out, err)"
  shows "P s'"
  using assms(2,3) contain_keeps [OF assms(1,2)] ack_keeps [OF assms(1,2)]
  by (auto simp: settle_disposition_def Let_def split: Disposition.splits if_splits prod.splits)

lemma Consume_keeps:
  assumes "consumer_keeps P c ack" "P s" "Consume proto_Unmarshal text_of c ctx env d ack s = (s', out, err)"
  shows "P s'"
proof -
  have refused: "P s'" if "refuse c ctx d message ack reason cause s = (s', out, err)" for message reason cause
    using that contain_keeps [OF assms(1,2)] by (auto simp: refuse_def)
  have discarded: "P s'" if "discard ctx ack s = (s', out, err)"
  proof -
    obtain s1 e where "gesture (ack_Ack ack) ctx s = (s1, e)" by fastforce
    with that ack_keeps(1) [OF assms(1,2) this] show ?thesis
      by (auto simp: discard_def split: option.splits)
  qed
  have admitted: "P s'" if "admitted c ctx env d e ack s = (s', out, err)" for e
  proof (cases "\<exists>x handle. executionOf c env e = Ok x \<and> con_Handle c = Some handle")
    case True
    then obtain x handle where x: "executionOf c env e = Ok x" "con_Handle c = Some handle" by blast
    let ?ctx1 = "WithMessageContext ctx \<lparr>mc_CorrelationID = env_CorrelationID e, mc_CausationID = env_ID e,
      mc_Traceparent = at_Traceparent env, mc_Tracestate = at_Tracestate env\<rparr>"
    let ?receipt = "receiptOf c e (clock_now c s)"
    obtain s1 r where h: "handle (WithExecutionContext ?ctx1 x) ?receipt e s = (s1, r)" by fastforce
    obtain D he where D: "handled r = (D, he)" by fastforce
    have "step_keeps P (handle (WithExecutionContext ?ctx1 x) ?receipt e)"
      using assms(1) x(2) by (simp add: consumer_keeps_def)
    from step_keepsD [OF this assms(2) h] have "P s1" .
    from settle_keeps [OF assms(1) this, of ?ctx1 d ?receipt D he] that x h D show ?thesis
      by (simp add: admitted_def)
  next
    case False
    with that contain_keeps [OF assms(1,2)] show ?thesis
      by (auto simp: admitted_def Let_def split: res.splits option.splits)
  qed
  from assms(2,3) show ?thesis
    by (auto simp: Consume_def split: res.splits if_splits dest: refused discarded admitted)
qed

section \<open>What an acknowledged attempt did\<close>

fun decided :: "act list \<Rightarrow> kgesture" where
  "decided [] = GestureUndecided"
| "decided (Acked _ # _) = GestureAcked"
| "decided (Released _ # _) = GestureReleased"
| "decided (Handled _ _ # acts) = decided acts"
| "decided (Quarantined _ _ # acts) = decided acts"

lemma decided_append [simp]: "decided (xs @ ys) = (if decided xs = GestureUndecided then decided ys else decided xs)"
  by (induction xs rule: decided.induct) auto

text \<open>
  What a delivery did that ended acknowledged: its type was accepted and the handler confirmed it; or the message, as
  delivered, was accepted by the quarantine, for its defect or for what the handler returned; or its type is one the
  channel carries and the consumer does not accept (\<open>addressed\<close>).
\<close>

definition delivery_settled :: "(bytes \<Rightarrow> CloudEvent result) \<Rightarrow> 'w Consumer \<Rightarrow> Delivery \<Rightarrow> Consumed \<Rightarrow> act list \<Rightarrow> bool" where
  "delivery_settled proto_Unmarshal c d out acts \<longleftrightarrow> addressed proto_Unmarshal c d acts \<and>
     ((\<exists>D err e. acts = [Handled D err, Acked e] \<and> confirms D) \<or>
      (\<exists>D err item e. acts = [Handled D err, Quarantined item None, Acked e] \<and> removes c d D \<and> keeps c d item) \<or>
      (\<exists>item e. acts = [Quarantined item None, Acked e] \<and> keeps c d item) \<or>
      (\<exists>e. acts = [Acked e] \<and> out = consumed_zero\<lparr>csm_Discarded := (e = None)\<rparr>))"

lemma confirmed_iff [simp]: "confirmed acts \<longleftrightarrow> (\<exists>e. acts = [Acked e])"
  by (auto simp: confirmed_def split: list.splits act.splits)

lemma released_iff [simp]: "released acts \<longleftrightarrow> (\<exists>e. acts = [Released e])"
  by (auto simp: released_def split: list.splits act.splits)

lemma kept_aside_acked:
  "kept_aside c d out acts \<Longrightarrow> decided acts = GestureAcked \<Longrightarrow> \<exists>item e. acts = [Quarantined item None, Acked e] \<and> keeps c d item"
  by (auto simp: kept_aside_def split: list.splits act.splits if_splits)

lemma protocol_delivery_settled:
  assumes "protocol c d out acts" "decided acts = GestureAcked" "addressed U c d acts"
  shows "delivery_settled U c d out acts"
proof (cases acts)
  case Nil
  with assms(2) show ?thesis by simp
next
  case (Cons a rest)
  show ?thesis
  proof (cases a)
    case (Handled D h)
    with Cons assms have "decided rest = GestureAcked" by simp
    with Cons Handled assms(1,3) kept_aside_acked [of c d out rest] show ?thesis
      by (auto simp: protocol_def delivery_settled_def split: if_splits)
  next
    case (Quarantined item answer)
    with Cons assms kept_aside_acked [of c d out acts] show ?thesis
      by (auto simp: protocol_def delivery_settled_def)
  qed (use Cons assms in \<open>auto simp: protocol_def delivery_settled_def\<close>)
qed

lemma beside_addressed: "addressed U (beside_consumer c) d acts = addressed U c d acts"
proof -
  have "Consumer_Validate (beside_consumer c) = Consumer_Validate c"
    by (simp add: beside_consumer_def Consumer_Validate_def Consumer_missing_def)
  moreover have "admitted_type (beside_consumer c) = admitted_type c" "defect U (beside_consumer c) d = defect U c d"
    by (simp_all add: admitted_type_def defect_def beside_consumer_def fun_eq_iff split: res.split)
  moreover have "con_Accepts (beside_consumer c) = con_Accepts c"
    by (simp add: beside_consumer_def)
  ultimately show ?thesis
    by (simp add: addressed_def cong: list.case_cong act.case_cong)
qed

lemma beside_settled [simp]: "delivery_settled U (beside_consumer c) d out acts = delivery_settled U c d out acts"
  unfolding delivery_settled_def beside_addressed
  by (simp add: removes_def spent_def keeps_def beside_consumer_def)

lemma gesture_follows:
  "consumer_keeps (\<lambda>s. snd (fst s) = decided (snd s)) (trace_consumer (beside_consumer c)) (trace_ack kafka_acknowledger)"
  by (auto simp: consumer_keeps_def step_keeps_def trace_consumer_def beside_consumer_def trace_ack_def log_act_def beside_def
      kafka_acknowledger_def acknowledger_decide_def split: prod.splits)

text \<open>The delivery of a record, with what it did outside the adapter written down: the world after it, and the acts.\<close>

definition delivery_trace :: "(bytes \<Rightarrow> CloudEvent result) \<Rightarrow> (gerr \<Rightarrow> string) \<Rightarrow> 'w Consumer \<Rightarrow> (int \<Rightarrow> carrier) \<Rightarrow>
    ('w \<Rightarrow> attempt_env) \<Rightarrow> krecord \<Rightarrow> int \<Rightarrow> 'w \<Rightarrow> ('w \<times> kgesture) \<times> act list \<times> Consumed" where
  "delivery_trace proto_Unmarshal text_of c ctx env r n w =
     (case Consume proto_Unmarshal text_of (trace_consumer (beside_consumer c)) (ctx n) (env w)
         \<lparr>dlv_Raw = kr_Value r, dlv_Attempt = n\<rparr> (trace_ack kafka_acknowledger) ((w, GestureUndecided), []) of
        ((s, acts), out, _) \<Rightarrow> (s, acts, out))"

lemma handled_trace:
  assumes "worker_handle (Sink_Handle U t c ctx env) r n w = (w', GestureAcked, err)"
  shows "\<exists>acts out. delivery_trace U t c ctx env r n w = ((w', GestureAcked), acts, out) \<and>
    delivery_settled U c \<lparr>dlv_Raw = kr_Value r, dlv_Attempt = n\<rparr> out acts"
proof -
  let ?d = "\<lparr>dlv_Raw = kr_Value r, dlv_Attempt = n\<rparr>"
  obtain s' acts out err' where run: "Consume U t (beside_consumer c) (ctx n) (env w) ?d kafka_acknowledger (w, GestureUndecided) = (s', out, err')"
    "Consume U t (trace_consumer (beside_consumer c)) (ctx n) (env w) ?d (trace_ack kafka_acknowledger) ((w, GestureUndecided), []) =
       ((s', acts), out, err')" "protocol (beside_consumer c) ?d out acts" "addressed U (beside_consumer c) ?d acts"
    using Consume_traced [of U t "beside_consumer c" "ctx n" "env w" ?d kafka_acknowledger "(w, GestureUndecided)"] by blast
  from assms run(1) have s': "s' = (w', GestureAcked)"
    by (auto simp: worker_handle_def Sink_Handle_def split: prod.splits)
  with Consume_keeps [OF gesture_follows _ run(2)] have "decided acts = GestureAcked"
    by simp
  from protocol_delivery_settled [OF run(3) this run(4)] run(2) s' show ?thesis
    by (intro exI [of _ acts] exI [of _ out]) (simp add: delivery_trace_def)
qed

section \<open>What a committed offset promises\<close>

text \<open>The log of attempts tells what the sink did.\<close>

definition taken :: "'w Sink \<Rightarrow> 'w attempt_log \<Rightarrow> bool" where
  "taken sink attempts \<longleftrightarrow>
     (\<forall>x \<in> set attempts. case x of (r, n, g, w) \<Rightarrow> \<exists>w' err. worker_handle sink r n w = (w', g, err))"

lemma taken_append [simp]:
  "taken sink (xs @ [(r, n, g, w)]) \<longleftrightarrow> taken sink xs \<and> (\<exists>w' err. worker_handle sink r n w = (w', g, err))"
  by (auto simp: taken_def)

lemma advance_attempts: "worker_advance cfg sink ok s = Some s' \<Longrightarrow> taken sink (ks_attempts s) \<Longrightarrow> taken sink (ks_attempts s')"
  by (auto simp: worker_advance_def split: worker_phase.splits if_splits option.splits prod.splits)

lemma act_attempts: "kafka_act cfg sink a s = Some s' \<Longrightarrow> taken sink (ks_attempts s) \<Longrightarrow> taken sink (ks_attempts s')"
  by (cases a) (auto simp: kafka_settle_def advance_attempts split: if_splits option.splits prod.splits)

lemma run_attempts: "kafka_run cfg sink as s = Some s' \<Longrightarrow> taken sink (ks_attempts s) \<Longrightarrow> taken sink (ks_attempts s')"
  by (induction as arbitrary: s) (auto split: option.splits dest: act_attempts)

definition sample_worker :: worker_config where
  "sample_worker = \<lparr>wc_MaxAttempts = 5, wc_QueuePerPartition = 2\<rparr>"

definition sample_record :: krecord where
  "sample_record = \<lparr>kr_Offset = 7, kr_Value = [10]\<rparr>"

abbreviation sample_sink :: "unit Sink" where
  "sample_sink \<equiv> Sink_Handle sample_unmarshal (\<lambda>_. []) sample_consumer (\<lambda>_. sample_call) (\<lambda>_. sample_attempt)"

lemma sample_unmarshalled: "Unmarshal sample_unmarshal [10] = Ok sample_envelope"
  using sample_envelope_Marshal sample_wire Decode_Encode by (auto simp: Marshal_def Unmarshal_def)

lemma sample_execution: "\<exists>x. executionOf sample_consumer sample_attempt sample_envelope = Ok x"
  by (simp add: executionOf_def NewExecutionContext_def handle_deadline_def sample_consumer_def sample_attempt_def
      sample_envelope_def wrap64_id int64_def)

lemma sample_valid: "Consumer_Validate (beside_consumer sample_consumer) = Ok ()"
  by (simp add: beside_consumer_def sample_consumer_def Consumer_Validate_def Consumer_missing_def Boundary_declared_def)

lemma beside_execution: "executionOf (beside_consumer c) env e = executionOf c env e"
  by (simp add: executionOf_def handle_deadline_def beside_consumer_def cong: option.case_cong)

lemma sample_handled: "worker_handle sample_sink sample_record 1 () = ((), GestureAcked, None)"
proof -
  obtain x where x: "executionOf sample_consumer sample_attempt sample_envelope = Ok x"
    using sample_execution ..
  have e: "env_Source sample_envelope = ''/orders''" "env_Type sample_envelope = ''com.company.orders.order-placed.v1''"
    by (simp_all add: sample_envelope_def)
  have c: "con_Boundary (beside_consumer sample_consumer) = \<lparr>bnd_Transport = TransportVerified, bnd_Sources = [''/orders'']\<rparr>"
    "con_Carries (beside_consumer sample_consumer) = [''com.company.orders.order-placed.v1'']"
    "con_Accepts (beside_consumer sample_consumer) = [''com.company.orders.order-placed.v1'']"
    "con_Handle (beside_consumer sample_consumer) = Some (\<lambda>ctx r e. beside (\<lambda>w. (w, Returned (R1D1, None))))"
    by (simp_all add: beside_consumer_def sample_consumer_def)
  have "Consume sample_unmarshal (\<lambda>_. []) (beside_consumer sample_consumer) sample_call sample_attempt
      \<lparr>dlv_Raw = [10], dlv_Attempt = 1\<rparr> kafka_acknowledger ((), GestureUndecided) =
      (((), GestureAcked), classified R1D1, None)"
    by (simp add: Consume_def sample_valid sample_unmarshalled e c Boundary_admits_def admitted_def x beside_execution
        beside_def settle_confirms confirms_def gesture_def kafka_acknowledger_def acknowledger_decide_def joinPanicFirst_def errors_Join_def)
  then show ?thesis
    by (simp add: worker_handle_def Sink_Handle_def sample_record_def)
qed

definition sample_run :: "unit kafka_action list" where
  "sample_run = [Deliver sample_record, Enqueued] @ replicate 8 (Advance True)"

lemma sample_committed:
  "\<exists>s. kafka_run sample_worker sample_sink sample_run (kafka_started ()) = Some s \<and> ks_commits s = [sample_record] \<and>
     ks_delivered s = [sample_record] \<and> ks_attempts s = [(sample_record, 1, GestureAcked, ())]"
  by (simp add: sample_run_def eval_nat_numeral kafka_started_def newPartitionWorker_def worker_enqueue_def sample_worker_def
      worker_advance_def worker_next_def sample_handled process_decision_def cursor_Track_def worker_commitContiguous_def
      cursor_NextContiguous_def)

text \<open>
  C18. At least once, end to end: when the group's offset was committed at some record, every record the broker delivered
  up to it was in an attempt of the worker, within the channel's limit, that ended acknowledged; and that attempt was
  confirmed by the handler of its accepted type, or the message was accepted by the quarantine exactly as delivered, or
  it was discarded for a type the channel carries and the consumer does not accept.
\<close>

theorem committed_offset_is_settled:
  assumes "kafka_run cfg (Sink_Handle U t c ctx env) as (kafka_started w0) = Some s" "1 \<le> wc_MaxAttempts cfg"
    "last_one \<in> set (ks_commits s)" "r \<in> set (ks_delivered s)" "kr_Offset r \<le> kr_Offset last_one"
  shows "\<exists>n w w' err acts out. (r, n, GestureAcked, w) \<in> set (ks_attempts s) \<and> n \<le> wc_MaxAttempts cfg \<and>
    worker_handle (Sink_Handle U t c ctx env) r n w = (w', GestureAcked, err) \<and>
    delivery_trace U t c ctx env r n w = ((w', GestureAcked), acts, out) \<and>
    delivery_settled U c \<lparr>dlv_Raw = kr_Value r, dlv_Attempt = n\<rparr> out acts"
proof -
  from committed_acked [OF assms] obtain n w where a: "(r, n, GestureAcked, w) \<in> set (ks_attempts s)"
    by (auto simp: acked_in_def)
  have "taken (Sink_Handle U t c ctx env) (ks_attempts s)"
    by (rule run_attempts [OF assms(1)]) (simp add: taken_def kafka_started_def)
  with a obtain w' err where h: "worker_handle (Sink_Handle U t c ctx env) r n w = (w', GestureAcked, err)"
    by (fastforce simp: taken_def)
  obtain gone where inv: "kafka_inv (wc_MaxAttempts cfg) gone s"
    using kafka_reachable [OF assms(1,2)] .
  from a obtain xs ys where "ks_attempts s = xs @ (r, n, GestureAcked, w) # ys"
    by (meson split_list)
  with kafka_invD(5) [OF inv] have "n \<le> wc_MaxAttempts cfg"
    unfolding in_order_def by blast
  with a h handled_trace [OF h] show ?thesis
    by blast
qed

lemma committed_offset_is_settled_witness:
  "\<exists>s n w acts out. kafka_run sample_worker sample_sink sample_run (kafka_started ()) = Some s \<and>
     (sample_record, n, GestureAcked, w) \<in> set (ks_attempts s) \<and> n \<le> 5 \<and>
     delivery_trace sample_unmarshal (\<lambda>_. []) sample_consumer (\<lambda>_. sample_call) (\<lambda>_. sample_attempt) sample_record n w =
       (((), GestureAcked), acts, out) \<and>
     delivery_settled sample_unmarshal sample_consumer \<lparr>dlv_Raw = [10], dlv_Attempt = n\<rparr> out acts"
proof -
  obtain s where s: "kafka_run sample_worker sample_sink sample_run (kafka_started ()) = Some s" "ks_commits s = [sample_record]"
    "ks_delivered s = [sample_record]"
    using sample_committed by blast
  have fields: "kr_Value sample_record = [10]" "wc_MaxAttempts sample_worker = 5"
    by (simp_all add: sample_record_def sample_worker_def)
  from committed_offset_is_settled [OF s(1), of sample_record sample_record] s
  show ?thesis unfolding fields by auto
qed

section \<open>A pause that outlives its queue\<close>

text \<open>
  \<open>enqueue\<close> decides to pause under the mutex and pauses after it; \<open>next\<close> decides to resume under the mutex and resumes
  after it. When the queue drains between the two, the resume goes first: the client's fetch of the partition stays
  paused while the worker holds that it is not, so it never resumes it.
\<close>

definition waiting :: "'w kafka \<Rightarrow> bool" where
  "waiting s \<longleftrightarrow> ks_phase s = WorkerIdle \<and> \<not> ks_signal s \<and> pw_queue (ks_worker s) = [] \<and> ks_poll s = None \<and>
     ks_fetch_paused s \<and> \<not> pw_paused (ks_worker s) \<and> \<not> pw_revoked (ks_worker s) \<and> \<not> ks_cancelled s"

text \<open>The broker delivers nothing while the fetch is paused, and nothing revokes the partition.\<close>

fun quiet :: "'w kafka_action \<Rightarrow> bool" where
  "quiet (Deliver _) = False"
| "quiet Revoke = False"
| "quiet Cancel = False"
| "quiet _ = True"

lemma waiting_act: "waiting s \<Longrightarrow> quiet a \<Longrightarrow> kafka_act cfg sink a s = Some s' \<Longrightarrow> waiting s'"
  by (cases a) (auto simp: waiting_def worker_advance_def)

lemma waiting_run: "waiting s \<Longrightarrow> \<forall>a \<in> set as. quiet a \<Longrightarrow> kafka_run cfg sink as s = Some s' \<Longrightarrow> waiting s'"
  by (induction as arbitrary: s) (auto split: option.splits intro: waiting_act)

definition second_record :: krecord where
  "second_record = \<lparr>kr_Offset = 8, kr_Value = [10]\<rparr>"

lemma second_handled: "worker_handle sample_sink second_record n () = worker_handle sample_sink sample_record n ()"
  by (simp add: worker_handle_def second_record_def sample_record_def)

definition racing_run :: "unit kafka_action list" where
  "racing_run = [Deliver sample_record, Enqueued, Deliver second_record] @ replicate 16 (Advance True) @ [Enqueued] @ replicate 2 (Advance True)"

lemma sample_offsets: "kr_Offset sample_record = 7" "kr_Offset second_record = 8"
  by (simp_all add: sample_record_def second_record_def)

lemma racing_waits:
  "\<exists>s. kafka_run sample_worker sample_sink racing_run (kafka_started ()) = Some s \<and> waiting s \<and>
     ks_commits s = [sample_record, second_record] \<and> ks_delivered s = [sample_record, second_record] \<and>
     ks_attempts s = [] @ [(sample_record, 1, GestureAcked, ())] @ (second_record, 1, GestureAcked, ()) # []"
  by (simp add: racing_run_def eval_nat_numeral kafka_started_def newPartitionWorker_def worker_enqueue_def sample_worker_def
      worker_advance_def worker_next_def sample_handled second_handled process_decision_def cursor_Track_def worker_commitContiguous_def
      cursor_NextContiguous_def waiting_def sample_offsets)

text \<open>
  C19. The partition is processed in order: an attempt at a record comes only after every record delivered before it was
  acknowledged, counts the earlier attempts at the record, stays within the channel's limit, and never follows an
  attempt that acknowledged it, whatever the sink answers, however the poll loop, the revocation and the goroutine
  interleave and whether commits succeed.
\<close>

theorem partition_is_processed_in_order:
  assumes "kafka_run cfg sink as (kafka_started w) = Some s" "1 \<le> wc_MaxAttempts cfg"
    "ks_attempts s = xs @ (r, n, g, v) # ys"
  shows "(\<forall>d. d \<in> set (ks_delivered s) \<and> kr_Offset d < kr_Offset r \<longrightarrow> acked_in xs d) \<and>
    n = int (length (tries r xs)) + 1 \<and> n \<le> wc_MaxAttempts cfg \<and> \<not> acked_in xs r"
proof -
  obtain gone where inv: "kafka_inv (wc_MaxAttempts cfg) gone s"
    using kafka_reachable [OF assms(1,2)] .
  from kafka_invD(5) [OF inv] assms(3) show ?thesis
    unfolding in_order_def by blast
qed

lemma partition_is_processed_in_order_witness:
  "\<exists>s. kafka_run sample_worker sample_sink racing_run (kafka_started ()) = Some s \<and>
     acked_in [(sample_record, 1, GestureAcked, ())] sample_record \<and> \<not> acked_in [(sample_record, 1, GestureAcked, ())] second_record"
proof -
  obtain s where s: "kafka_run sample_worker sample_sink racing_run (kafka_started ()) = Some s"
    "ks_delivered s = [sample_record, second_record]"
    "ks_attempts s = [(sample_record, 1, GestureAcked, ())] @ (second_record, 1, GestureAcked, ()) # []"
    using racing_waits by auto
  from partition_is_processed_in_order [OF s(1) _ s(3)] s(1,2) show ?thesis
    by (auto simp: sample_worker_def sample_offsets)
qed

text \<open>
  C20. A partition can starve with its queue empty and everything committed: there is an interleaving of one poll loop and one
  worker, with a queue of two records, after which the client's fetch is paused, the worker does not know, and whatever
  the worker does until the partition is revoked leaves it so.
\<close>

theorem pause_outlives_its_queue:
  "\<exists>as s. kafka_run sample_worker sample_sink as (kafka_started ()) = Some s \<and>
     (\<forall>r. r \<in> set (ks_delivered s) \<longleftrightarrow> r \<in> set (ks_commits s)) \<and> pw_queue (ks_worker s) = [] \<and>
     (\<nexists>as' s'. list_all quiet as' \<and> kafka_run sample_worker sample_sink as' s = Some s' \<and> \<not> ks_fetch_paused s')"
proof -
  obtain s where s: "kafka_run sample_worker sample_sink racing_run (kafka_started ()) = Some s" "waiting s"
    "ks_commits s = [sample_record, second_record]" "ks_delivered s = [sample_record, second_record]"
    using racing_waits by blast
  from waiting_run [OF s(2)] have "ks_fetch_paused s'" if "list_all quiet as'" "kafka_run sample_worker sample_sink as' s = Some s'" for as' s'
    using that by (auto simp: waiting_def list_all_iff)
  with s show ?thesis
    by (intro exI [of _ racing_run] exI [of _ s]) (auto simp: waiting_def)
qed

text \<open>
  A queue of one record, which \<^verbatim>\<open>Consumer.Validate\<close> accepts, never resumes by draining: every delivery pauses the fetch,
  and taking the record back leaves a queue that is not shorter than half of one.
\<close>

lemma queue_of_one_pauses: "\<not> pw_paused w \<Longrightarrow> snd (worker_enqueue 1 r w)"
  by (simp add: worker_enqueue_def Let_def)

lemma queue_of_one_never_resumes: "worker_next 1 w = Some (w', r, resume) \<Longrightarrow> \<not> resume \<and> pw_paused w' = pw_paused w"
  by (auto simp: worker_next_def Let_def split: if_splits list.splits)

end
