(* ===== verification/Spec2Isabelle.thy ===== *)
theory Spec2Isabelle
  imports Application_Idempotency Application_Cycle Orders_Application Memory_Objects Memory_Platform
    Resilience_Compose App_Drain Ledger_Races Postgres_Inbox Table_Contract Kafka_Sink
begin

text \<open>
  A verification development for the Go libraries of this repository and the services built on them.

  \<^bold>\<open>The program.\<close> A service of the repository is a pure domain kernel inside a use case pipeline inside
  providers. A command arrives on a request-scoped carrier, the pipeline authorizes it, resolves identity
  once, runs it in a unit of work that loads an aggregate, lets the domain decide, saves with an optimistic
  version and appends the decided events to an outbox in the same transaction. A relay drains the outbox
  to a broker and a consumer adapter hands each delivery to a handler behind an inbox. Calls to partners go
  through a ledger of attempts, so that an uncertain outcome is never resent blindly, and through composed
  resilience decorators.

  \<^bold>\<open>Theories and sources\<close> (paths under \<^verbatim>\<open>src/libs/backend/go\<close> unless said otherwise).
  \<^item> \<open>Go_Prelude\<close>, \<open>Go_Numbers\<close>, \<open>Go_UTF8\<close>, \<open>Go_Regexp\<close>, \<open>Go_SHA256\<close>: what the sources use of the language and its
    library: 64-bit arithmetic with wrap-around, outcomes of a call (\<open>Ok\<close>, \<open>Err\<close>, \<open>Panic\<close>), maps, decimal and
    hexadecimal text, valid UTF-8 and what JSON makes of other bytes, \<open>float64\<close> rounding, regular expressions, SHA-256.
  \<^item> \<open>Domain_Kernel\<close>: \<^verbatim>\<open>domain\<close>. \<open>Go_Errors\<close>: error trees, \<^verbatim>\<open>application/failure.go\<close>, \<^verbatim>\<open>disposition.go\<close>.
  \<^item> \<open>Ports_Context\<close>, \<open>Ports_External\<close>, \<open>Ports_Inbox\<close>: the carrier and the vocabularies of \<^verbatim>\<open>ports\<close>, with
    \<^verbatim>\<open>application/authorize.go\<close>.
  \<^item> \<open>Application_Codec\<close>, \<open>Application_External\<close>, \<open>Application_UseCase\<close>, \<open>Application_Idempotency\<close>,
    \<open>Application_Cycle\<close>: \<^verbatim>\<open>application\<close>: the outcome codec, the decision after an external outcome and outbound
    keys, the pipeline, idempotent commands, and dispatch, resolution, abandonment and sweep of attempts.
  \<^item> \<open>Memory_Store\<close>, \<open>Memory_Inbox\<close>, \<open>Memory_Ledger\<close>, \<open>Memory_Objects\<close>, \<open>Memory_Platform\<close>: \<^verbatim>\<open>memory\<close>, the
    provider whose state is in the process: a record per store, an association list per Go map.
  \<^item> \<open>Orders_Domain\<close>, \<open>Application_Aggregate\<close>, \<open>Orders_Application\<close>: \<^verbatim>\<open>src/apps/backend/orders\<close> over the locale
    of an aggregate service.
  \<^item> \<open>Observability_Retry\<close>, \<open>Resilience_Breaker\<close>, \<open>Resilience_Bulkhead\<close>, \<open>Resilience_Compose\<close>:
    \<^verbatim>\<open>observability/retry\<close> and \<^verbatim>\<open>observability/resilience\<close>. State under a mutex or an atomic is a record, and
    concurrent calls are step relations over it.
  \<^item> \<open>Contracts_Envelope\<close>: \<^verbatim>\<open>contracts/envelope\<close>. \<open>App_Consumer\<close>: \<^verbatim>\<open>app/consumer.go\<close> and its files.
  \<^item> \<open>Kafka_Worker\<close>: \<^verbatim>\<open>kafka/offsets.go\<close>, \<^verbatim>\<open>acknowledger.go\<close>, \<^verbatim>\<open>worker.go\<close>: the worker of one partition, its critical
    sections as functions and its goroutine, the poll loop and a revocation as interleaved steps. \<open>Kafka_Sink\<close>:
    \<^verbatim>\<open>app/sink.go\<close>, the worker composed with the consumer adapter.
  \<^item> \<open>Postgres_Outbox\<close>: the outbox of \<^verbatim>\<open>postgres\<close>, each SQL statement a function on the rows of the table.
  \<^item> \<open>Postgres_Tx\<close>: the unit of work of \<^verbatim>\<open>postgres\<close>. A transaction is a sequence of statements, each a function on
    the table; what other transactions commit between two statements and which statement the server fails are
    arguments. \<open>Postgres_Ledger\<close>, \<open>Postgres_Inbox\<close>: the ledger of attempts, and the inbox with the quarantine.
    \<open>Ledger_Refinement\<close> relates the ledger to the one of \<open>Memory_Ledger\<close>; \<open>Ledger_Races\<close> is its rely and guarantee.
  \<^item> \<open>Postgres_Table\<close>, \<open>Postgres_Repository\<close>: \<^verbatim>\<open>postgres/table.go\<close>, \<^verbatim>\<open>unique.go\<close>, \<^verbatim>\<open>guard.go\<close>, \<^verbatim>\<open>snapshot_table.go\<close>: aggregate
    tables, their statements as functions on the rows, loads, saves under a savepoint or a guard, and relations. What
    the schema does (constraints, stored values, collation) is the record \<open>tb_schema\<close>. \<open>Table_Races\<close> is their rely and
    guarantee; \<open>Table_Contract\<close> their refinement of a versioned map and of the contract \<open>repository\<close>.
  \<^item> \<open>App_Relay\<close>, \<open>App_Drain\<close>: \<^verbatim>\<open>app/relay\<close>, first over any store and publisher that keep the contract
    \<open>drain_contract\<close>, then over the PostgreSQL outbox, whose laws the interpretation \<open>pg\<close> proves.

  \<^bold>\<open>Interfaces.\<close> The locales are the interfaces of the code: \<open>upr\<close> (a decision over a copy of the state),
  \<open>outcome_codec\<close> (an outcome is read back from what was stored), \<open>id_generator\<close> (identifiers are fresh),
  \<open>repository\<close> (a versioned map), \<open>inbox\<close> (registration and completion), \<open>aggregate\<close> (an operation keeps what its
  aggregate promises) and \<open>drain_contract\<close> (what a relay may rely on). Each is interpreted on the model of the code
  that provides it (the inbox and the repository on both providers), and the clients' lemmas are proved once inside it.

  \<^bold>\<open>What the lemmas show.\<close> For the stores: atomicity, refinement of a versioned map, isolation of tenants,
  permanence of what a ledger or a retention recorded. For the pipeline: all or nothing, at most once under an
  idempotency key, no blind resend. For the drain: unique and immutable messages, exclusive claims, nothing
  marked that the broker did not accept, nothing left leased by a pass that ended, and the context of a message
  read back unchanged on the other side. For the PostgreSQL ledger: it answers as the one in memory when it is alone, and
  under READ COMMITTED its calls keep one attempt in flight per key and what was recorded, with one race that is
  exhibited (\<open>begin_races_with_finish\<close>). For the PostgreSQL tables: a save implements a versioned map with its
  constraints, and a decision taken on a loaded row or on a guarded series is written only while it still holds.
  For the Kafka worker: a partition is processed in order, and a committed offset covers only records that were handled,
  quarantined or discarded; one interleaving that starves a partition is exhibited. For resilience: bounded attempts, bounded probes, a budget that is
  never overspent, pools that never overfill or leak. For the services: invariants of the aggregates in every stored row.

  \<^bold>\<open>Bounds and fuel.\<close> Loops that are not structural recurse on a counter that is enough by a lemma (the
  attempts left, the bytes of a varint); wall-clock readings and random choices are arguments, so
  a theorem holds for every reading. \<open>float64\<close> is exact rounding without infinities. A generation counter of the
  breaker is a \<open>uint64\<close>, so its theorem is for runs with fewer than \<open>2 ^ 64\<close> turns.

  \<^bold>\<open>Not modelled.\<close> Spans, metrics and logs; the clients of Kafka, SQS, S3 and Redis (of Kafka the worker of
  a partition is modelled, not the group over all partitions); HTTP and gRPC servers and
  the generated code; the protobuf wire format, which is an argument with the law that it round-trips; the
  migrations, grants, pools and cross-tenant reads of the PostgreSQL provider. A rollback to a savepoint leaves the rows
  as they are because no statement after the savepoint had succeeded. What a rolled-back transaction of another writer shows is not
  visible at READ COMMITTED, so it is not a transition of the rely; a purge between the statements of a ledger call is
  one only for the redelivery of a concluded message (\<open>outcomes_retained\<close>), not for the other theorems of
  \<open>Ledger_Races\<close>. The generator of sequential identifiers counts without the wrap-around of an \<open>int\<close>. Values the driver cannot encode are faults of the statement. Test kits,
  conformance tools, deployment, and everything that is not Go.
\<close>

end
